(* ===== verification/Prelude.thy ===== *)
theory Prelude
  imports Complex_Main "HOL-Library.Multiset" "HOL-Library.List_Lexorder" "HOL-Library.Char_ord"
begin

text \<open>
  Shared vocabulary of the development: results with errors as values, the parts of the
  Python runtime the modelled modules rely on (string stripping, decimal integers,
  de-duplicated sorted sequences, medians), and the collections of simplification rules the
  component theories extend.

  A Python \<open>str\<close> is an Isabelle \<open>string\<close>: the code points 0 to 255. A Python \<open>bytes\<close> value is
  a \<open>string\<close> as well. A Python \<open>int\<close> is an \<open>int\<close>, a finite Python \<open>float\<close> is a \<open>real\<close> (no
  rounding is modelled).
\<close>

named_theorems res_simps \<open>the result monad\<close>
named_theorems decode_simps \<open>decoders applied to what the matching encoder produced\<close>
named_theorems key_simps \<open>distinctness of store keys\<close>

section \<open>Results: an exception is a left value\<close>

type_synonym bytes = string

fun rbind :: "'e + 'a \<Rightarrow> ('a \<Rightarrow> 'e + 'b) \<Rightarrow> 'e + 'b" where
  "rbind (Inl e) f = Inl e"
| "rbind (Inr x) f = f x"

definition ensure :: "bool \<Rightarrow> 'e \<Rightarrow> 'e + unit" where
  "ensure b e = (if b then Inr () else Inl e)"

text \<open>A generator expression whose body may raise: the first error ends the iteration.\<close>

fun rmap :: "('a \<Rightarrow> 'e + 'b) \<Rightarrow> 'a list \<Rightarrow> 'e + 'b list" where
  "rmap f [] = Inr []"
| "rmap f (x # xs) = rbind (f x) (\<lambda>y. rbind (rmap f xs) (\<lambda>ys. Inr (y # ys)))"

text \<open>An exception translated by an \<open>except\<close> clause.\<close>

fun rcatch :: "('e \<Rightarrow> 'f) \<Rightarrow> 'e + 'a \<Rightarrow> 'f + 'a" where
  "rcatch h (Inl e) = Inl (h e)"
| "rcatch h (Inr x) = Inr x"

lemma rbind_Inr_iff [res_simps]: "rbind m f = Inr y \<longleftrightarrow> (\<exists>x. m = Inr x \<and> f x = Inr y)"
  by (cases m) auto

lemma rbind_Inl_iff:
  "rbind m f = Inl e \<longleftrightarrow> m = Inl e \<or> (\<exists>x. m = Inr x \<and> f x = Inl e)"
  by (cases m) auto

lemma ensure_Inr_iff [simp, res_simps]: "ensure b e = Inr u \<longleftrightarrow> b"
  by (simp add: ensure_def)

lemma ensure_Inl_iff [simp]: "ensure b e = Inl e' \<longleftrightarrow> \<not> b \<and> e' = e"
  by (auto simp: ensure_def)

lemma ensure_simps [simp]: "ensure True e = Inr ()" "ensure False e = Inl e"
  by (simp_all add: ensure_def)

lemma rcatch_Inr_iff [res_simps]: "rcatch h m = Inr y \<longleftrightarrow> m = Inr y"
  by (cases m) auto

lemma rcatch_Inl_iff: "rcatch h m = Inl f \<longleftrightarrow> (\<exists>e. m = Inl e \<and> f = h e)"
  by (cases m) auto

lemma rmap_Inr_iff: "rmap f xs = Inr ys \<longleftrightarrow> list_all2 (\<lambda>x y. f x = Inr y) xs ys"
  by (induction xs arbitrary: ys) (auto simp: rbind_Inr_iff list_all2_Cons1)

lemma rmap_map: "rmap f (map g xs) = rmap (f \<circ> g) xs"
  by (induction xs) simp_all

lemma rmap_Inr: "(\<And>x. x \<in> set xs \<Longrightarrow> f x = Inr (g x)) \<Longrightarrow> rmap f xs = Inr (map g xs)"
  by (induction xs) simp_all

lemma rmap_cong [fundef_cong]:
  "xs = ys \<Longrightarrow> (\<And>x. x \<in> set ys \<Longrightarrow> f x = g x) \<Longrightarrow> rmap f xs = rmap g ys"
proof (induction xs arbitrary: ys)
  case (Cons x xs)
  then show ?case by (cases ys) auto
qed simp

lemma rmap_cases_Inl: "rmap f xs = Inl e \<Longrightarrow> \<exists>x \<in> set xs. f x = Inl e"
  by (induction xs) (auto simp: rbind_Inl_iff)

lemma rbind_rbind: "rbind (rbind m f) g = rbind m (\<lambda>x. rbind (f x) g)"
  by (cases m) auto

lemma rmap_back:
  assumes "rmap f xs = Inr ys" "\<And>x y. x \<in> set xs \<Longrightarrow> f x = Inr y \<Longrightarrow> g (h y) = Inr x"
  shows "rmap g (map h ys) = Inr xs"
  using assms by (induction xs arbitrary: ys) (auto simp: rbind_Inr_iff)

lemma rmap_length: "rmap f xs = Inr ys \<Longrightarrow> length ys = length xs"
  by (auto simp: rmap_Inr_iff list_all2_lengthD)

lemma rmap_all: "rmap f xs = Inr ys \<Longrightarrow> (\<And>x y. x \<in> set xs \<Longrightarrow> f x = Inr y \<Longrightarrow> P y) \<Longrightarrow> list_all P ys"
proof (induction xs arbitrary: ys)
  case (Cons x xs)
  from Cons.prems(1) obtain y ys' where "f x = Inr y" "rmap f xs = Inr ys'" "ys = y # ys'" by (auto simp: rbind_Inr_iff)
  then show ?case using Cons.IH [of ys'] Cons.prems(2) by auto
qed simp

section \<open>Sequences and sets\<close>

lemma list_all_concat: "list_all P (concat xss) \<longleftrightarrow> (\<forall>xs \<in> set xss. list_all P xs)"
  by (induction xss) auto

text \<open>\<open>sorted(set(xs))\<close>.\<close>

definition sorted_set :: "'a::linorder list \<Rightarrow> 'a list" where
  "sorted_set xs = sort (remdups xs)"

lemma set_sorted_set [simp]: "set (sorted_set xs) = set xs"
  by (simp add: sorted_set_def)

lemma distinct_sorted_set [simp]: "distinct (sorted_set xs)"
  by (simp add: sorted_set_def)

lemma sorted_sorted_set [simp]: "sorted (sorted_set xs)"
  by (simp add: sorted_set_def)

lemma sorted_set_eq_Nil [simp]: "sorted_set xs = [] \<longleftrightarrow> xs = []"
  by (metis empty_set set_empty set_sorted_set)

lemma sorted_set_cong: "set xs = set ys \<Longrightarrow> sorted_set xs = sorted_set ys"
  by (metis distinct_sorted_set set_sorted_set sorted_distinct_set_unique sorted_sorted_set)

text \<open>Whether two sequences, taken as sets, share a member.\<close>

definition overlaps :: "'a list \<Rightarrow> 'a list \<Rightarrow> bool" where
  "overlaps xs ys = list_ex (\<lambda>x. x \<in> set ys) xs"

lemma overlaps_iff [simp]: "overlaps xs ys \<longleftrightarrow> set xs \<inter> set ys \<noteq> {}"
  by (auto simp: overlaps_def list_ex_iff)

text \<open>The set intersection of the sequences in a non-empty list, as the first filtered.\<close>

fun inter_all :: "'a list list \<Rightarrow> 'a list" where
  "inter_all [] = []"
| "inter_all (xs # xss) = filter (\<lambda>x. list_all (\<lambda>ys. x \<in> set ys) xss) xs"

lemma set_inter_all: "xss \<noteq> [] \<Longrightarrow> set (inter_all xss) = (\<Inter>xs \<in> set xss. set xs)"
  by (cases xss) (auto simp: list_all_iff)

text \<open>Grouping by a key in first-occurrence order (a \<open>defaultdict(list)\<close> filled in one pass).\<close>

fun group_insert :: "('a \<Rightarrow> 'k) \<Rightarrow> 'a \<Rightarrow> ('k \<times> 'a list) list \<Rightarrow> ('k \<times> 'a list) list" where
  "group_insert f x [] = [(f x, [x])]"
| "group_insert f x ((k, xs) # gs) =
     (if k = f x then (k, xs @ [x]) # gs else (k, xs) # group_insert f x gs)"

definition group_by :: "('a \<Rightarrow> 'k) \<Rightarrow> 'a list \<Rightarrow> ('k \<times> 'a list) list" where
  "group_by f xs = fold (group_insert f) xs []"

lemma map_of_group_insert:
  "map_of (group_insert f x gs) k =
     (if k = f x then Some ((case map_of gs k of None \<Rightarrow> [] | Some ys \<Rightarrow> ys) @ [x])
      else map_of gs k)"
  by (induction f x gs rule: group_insert.induct) auto

lemma group_insert_keys: "fst ` set (group_insert f x gs) = insert (f x) (fst ` set gs)"
  by (induction f x gs rule: group_insert.induct) auto

lemma distinct_group_insert:
  "distinct (map fst gs) \<Longrightarrow> distinct (map fst (group_insert f x gs))"
proof (induction f x gs rule: group_insert.induct)
  case (2 f x k xs gs)
  then show ?case using group_insert_keys [of f x gs] by (auto simp: image_iff)
qed simp

lemma fold_group_insert:
  "map_of (fold (group_insert f) xs gs) k =
     (case map_of gs k of
        None \<Rightarrow> (if k \<in> f ` set xs then Some (filter (\<lambda>x. f x = k) xs) else None)
      | Some ys \<Rightarrow> Some (ys @ filter (\<lambda>x. f x = k) xs))"
  by (induction xs arbitrary: gs) (auto simp: map_of_group_insert split: option.splits)

lemma map_of_group_by:
  "map_of (group_by f xs) k = (if k \<in> f ` set xs then Some (filter (\<lambda>x. f x = k) xs) else None)"
  by (simp add: group_by_def fold_group_insert)

lemma distinct_fold_group:
  "distinct (map fst gs) \<Longrightarrow> distinct (map fst (fold (group_insert f) xs gs))"
  by (induction xs arbitrary: gs) (simp_all add: distinct_group_insert)

lemma distinct_group_by: "distinct (map fst (group_by f xs))"
  by (simp add: group_by_def distinct_fold_group)

lemma group_by_member:
  "(k, ys) \<in> set (group_by f xs) \<longleftrightarrow> k \<in> f ` set xs \<and> ys = filter (\<lambda>x. f x = k) xs"
proof -
  have "(k, ys) \<in> set (group_by f xs) \<longleftrightarrow> map_of (group_by f xs) k = Some ys"
    using distinct_group_by [of f xs] by simp
  then show ?thesis by (auto simp: map_of_group_by)
qed

lemma distinct_map_sort_key [simp]: "distinct (map f (sort_key g xs)) \<longleftrightarrow> distinct (map f xs)"
  by (rule mset_eq_imp_distinct_iff) simp

lemma sum_list_sort_key [simp]:
  "sum_list (map f (sort_key g xs)) = (sum_list (map f xs) :: 'a::comm_monoid_add)"
  by (metis mset_map mset_sort sum_mset_sum_list)

lemma sort_key_eq_Nil [simp]: "sort_key g xs = [] \<longleftrightarrow> xs = []"
  by (metis length_0_conv length_sort)

lemma sort_key_idem [simp]: "sort_key g (sort_key g xs) = sort_key g xs"
  by (simp add: sort_key_id_if_sorted)

lemma sort_key_map_of:
  assumes "distinct (map fst kvs)"
  shows "map_of (sort_key fst kvs) = map_of kvs"
  using assms by (intro map_of_inject_set [THEN iffD2]) auto

lemma div_block:
  fixes q r L :: int
  assumes "0 < L"
  shows "q * L \<le> r \<and> r < q * L + L \<longleftrightarrow> r div L = q"
proof
  assume "q * L \<le> r \<and> r < q * L + L"
  then show "r div L = q" using int_div_pos_eq [of r L q "r - q * L"] by (simp add: mult.commute)
next
  assume "r div L = q"
  then have "r = q * L + r mod L" using div_mult_mod_eq [of r L] by simp
  with assms show "q * L \<le> r \<and> r < q * L + L"
    using pos_mod_sign [of L r] pos_mod_bound [of L r] by linarith
qed

text \<open>\<open>int(x)\<close> of a float truncates toward zero.\<close>

definition py_trunc :: "real \<Rightarrow> int" where
  "py_trunc x = (if x < 0 then \<lceil>x\<rceil> else \<lfloor>x\<rfloor>)"

section \<open>Characters and decimal integers\<close>

text \<open>\<open>str.strip()\<close>: the white-space characters below code point 256.\<close>

definition py_space :: "char \<Rightarrow> bool" where
  "py_space c = (let n = (of_char c :: nat) in
     (9 \<le> n \<and> n \<le> 13) \<or> (28 \<le> n \<and> n \<le> 32) \<or> n = 133 \<or> n = 160)"

definition strip :: "string \<Rightarrow> string" where
  "strip s = rev (dropWhile py_space (rev (dropWhile py_space s)))"

definition is_digit :: "char \<Rightarrow> bool" where
  "is_digit c = (let n = (of_char c :: nat) in 48 \<le> n \<and> n \<le> 57)"

definition digit_val :: "char \<Rightarrow> nat" where
  "digit_val c = (of_char c :: nat) - 48"

definition digit_char :: "nat \<Rightarrow> char" where
  "digit_char d = char_of (48 + d)"

text \<open>\<open>str(n)\<close> for a non-negative and for any integer.\<close>

fun nat_str :: "nat \<Rightarrow> string" where
  "nat_str n = (if n < 10 then [digit_char n] else nat_str (n div 10) @ [digit_char (n mod 10)])"

declare nat_str.simps [simp del]

definition int_str :: "int \<Rightarrow> string" where
  "int_str i = (if i < 0 then CHR ''-'' # nat_str (nat (- i)) else nat_str (nat i))"

definition digits_val :: "string \<Rightarrow> nat" where
  "digits_val ds = foldl (\<lambda>n c. 10 * n + digit_val c) 0 ds"

text \<open>\<open>str.isdecimal()\<close>.\<close>

definition isdecimal :: "string \<Rightarrow> bool" where
  "isdecimal s = (s \<noteq> [] \<and> list_all is_digit s)"

text \<open>
  The digit groups \<open>int()\<close> accepts: digits with single underscores between them.
\<close>

fun underscore_digits :: "string \<Rightarrow> string option" where
  "underscore_digits [] = None"
| "underscore_digits [c] = (if is_digit c then Some [c] else None)"
| "underscore_digits (c # d # cs) =
     (if \<not> is_digit c then None
      else if d = CHR ''_'' then map_option (Cons c) (underscore_digits cs)
      else map_option (Cons c) (underscore_digits (d # cs)))"

text \<open>\<open>int(text)\<close>: surrounding space, an optional sign, decimal digits.\<close>

definition py_int :: "string \<Rightarrow> int option" where
  "py_int s = (case strip s of
       [] \<Rightarrow> None
     | c # r \<Rightarrow>
         if c = CHR ''-'' then map_option (\<lambda>ds. - int (digits_val ds)) (underscore_digits r)
         else if c = CHR ''+'' then map_option (\<lambda>ds. int (digits_val ds)) (underscore_digits r)
         else map_option (\<lambda>ds. int (digits_val ds)) (underscore_digits (c # r)))"

lemma digit_char_props:
  assumes "d < 10"
  shows "is_digit (digit_char d)" "digit_val (digit_char d) = d" "\<not> py_space (digit_char d)"
  using assms by (simp_all add: is_digit_def digit_val_def digit_char_def py_space_def)

lemma digit_not_space: "is_digit c \<Longrightarrow> \<not> py_space c"
  by (simp add: is_digit_def py_space_def Let_def)

lemma nat_str_digits: "list_all is_digit (nat_str n)"
proof (induction n rule: nat_str.induct)
  case (1 n)
  then show ?case by (cases "n < 10") (simp_all add: nat_str.simps [of n] digit_char_props)
qed

lemma nat_str_not_Nil [simp]: "nat_str n \<noteq> []"
  by (subst nat_str.simps) simp

lemma digits_val_snoc: "digits_val (ds @ [c]) = 10 * digits_val ds + digit_val c"
  by (simp add: digits_val_def)

lemma digits_val_nat_str [simp]: "digits_val (nat_str n) = n"
proof (induction n rule: nat_str.induct)
  case (1 n)
  then show ?case
    by (cases "n < 10")
      (simp_all add: nat_str.simps [of n] digits_val_snoc digit_char_props,
       simp add: digits_val_def digit_char_props)
qed

lemma nat_str_inject [simp, key_simps]: "nat_str m = nat_str n \<longleftrightarrow> m = n"
  by (metis digits_val_nat_str)

lemma nat_str_hd_zero: "hd (nat_str n) = CHR ''0'' \<longleftrightarrow> n = 0"
proof (induction n rule: nat_str.induct)
  case (1 n)
  have zero: "digit_char m = CHR ''0'' \<longleftrightarrow> m = 0" if "m < 10" for m
  proof -
    have "digit_val (CHR ''0'') = 0" "digit_char 0 = CHR ''0''" by code_simp+
    then show ?thesis using digit_char_props(2) [OF that] by metis
  qed
  from 1 show ?case
    by (cases "n < 10") (auto simp: nat_str.simps [of n] zero)
qed

lemma isdecimal_nat_str [simp]: "isdecimal (nat_str n)"
  by (simp add: isdecimal_def nat_str_digits)

lemma underscore_digits_id: "ds \<noteq> [] \<Longrightarrow> list_all is_digit ds \<Longrightarrow> underscore_digits ds = Some ds"
proof (induction ds rule: underscore_digits.induct)
  case (3 c d cs)
  then have "d \<noteq> CHR ''_''" by (auto simp: is_digit_def)
  with 3 show ?case by simp
qed simp_all

lemma strip_digits: "list_all is_digit ds \<Longrightarrow> strip ds = ds"
proof -
  assume ds: "list_all is_digit ds"
  then have "dropWhile py_space ds = ds" "dropWhile py_space (rev ds) = rev ds"
    using digit_not_space last_in_set [of ds]
    by (auto simp add: dropWhile_eq_self_iff list_all_iff hd_rev)
  then show ?thesis by (simp add: strip_def)
qed

lemma py_int_nat_str [decode_simps]: "py_int (nat_str n) = Some (int n)"
proof -
  obtain c r where cr: "nat_str n = c # r" by (cases "nat_str n") auto
  have dig: "list_all is_digit (c # r)" using nat_str_digits [of n] cr by simp
  then have "c \<noteq> CHR ''-''" "c \<noteq> CHR ''+''" by (auto simp: is_digit_def)
  moreover have "strip (nat_str n) = c # r" using cr dig strip_digits by simp
  moreover have "underscore_digits (c # r) = Some (c # r)"
    using dig underscore_digits_id by simp
  moreover have "digits_val (c # r) = n" using cr digits_val_nat_str by metis
  ultimately show ?thesis by (simp add: py_int_def)
qed

lemma strip_minus_digits: "list_all is_digit ds \<Longrightarrow> strip (CHR ''-'' # ds) = CHR ''-'' # ds"
proof -
  assume ds: "list_all is_digit ds"
  have minus: "\<not> py_space (CHR ''-'')" by code_simp
  have "dropWhile py_space (rev ds @ [CHR ''-'']) = rev ds @ [CHR ''-'']"
    using ds minus digit_not_space last_in_set [of ds]
    by (cases "rev ds") (auto simp: list_all_iff hd_rev dest: arg_cong [of _ _ set])
  with minus show ?thesis by (simp add: strip_def)
qed

lemma py_int_int_str [decode_simps]: "py_int (int_str i) = Some i"
proof (cases "i < 0")
  case True
  have "underscore_digits (nat_str n) = Some (nat_str n)" for n
    by (simp add: underscore_digits_id nat_str_digits)
  with True show ?thesis
    by (simp add: int_str_def py_int_def strip_minus_digits nat_str_digits)
next
  case False
  then show ?thesis by (simp add: int_str_def py_int_nat_str)
qed

lemma int_str_inject [simp, key_simps]: "int_str i = int_str j \<longleftrightarrow> i = j"
  by (metis option.inject py_int_int_str)

section \<open>Medians\<close>

text \<open>\<open>statistics.median\<close> of a non-empty sequence; \<open>None\<close> is its \<open>StatisticsError\<close>.\<close>

definition median :: "real list \<Rightarrow> real option" where
  "median xs = (let ys = sort xs; n = length ys in
     if n = 0 then None
     else if n mod 2 = 1 then Some (ys ! (n div 2))
     else Some ((ys ! (n div 2 - 1) + ys ! (n div 2)) / 2))"

lemma median_bounds:
  assumes "median xs = Some m" "\<And>x. x \<in> set xs \<Longrightarrow> lo \<le> x" "\<And>x. x \<in> set xs \<Longrightarrow> x \<le> hi"
  shows "lo \<le> m \<and> m \<le> hi"
proof -
  have mem: "sort xs ! i \<in> set xs" if "i < length xs" for i
    using that by (metis length_sort nth_mem set_sort)
  have "xs \<noteq> []" using assms(1) by (auto simp: median_def)
  then have len: "length xs div 2 < length xs" "length xs div 2 - 1 < length xs"
    by (simp_all add: less_imp_diff_less)
  let ?a = "sort xs ! (length xs div 2 - 1)" and ?b = "sort xs ! (length xs div 2)"
  have "lo \<le> ?a" "?a \<le> hi" "lo \<le> ?b" "?b \<le> hi"
    using mem [OF len(1)] mem [OF len(2)] assms(2,3) by blast+
  then show ?thesis
    using assms(1) by (auto simp: median_def Let_def field_simps split: if_splits)
qed

lemma median_None_iff [simp]: "median xs = None \<longleftrightarrow> xs = []"
  unfolding median_def Let_def length_sort by (simp del: not_None_eq)

end
