(* ===== verification/Json.thy ===== *)
theory Json
  imports Prelude "HOL-Library.AList"
begin

text \<open>
  The wire format of the recovery records: Python's \<open>json.dumps\<close> with
  \<open>separators=(",", ":")\<close>, \<open>sort_keys=True\<close> and \<open>ensure_ascii\<close> left on, and \<open>json.loads\<close> with
  the \<open>object_pairs_hook\<close> that refuses duplicate field names. A dictionary is an association
  list in insertion order. A number with a fraction or an exponent is kept as its lexeme
  (\<open>JFloat\<close>), which for a printed \<open>float\<close> is its \<open>repr\<close> or one of the three special names.
  Code points from 256 up are outside the modelled alphabet, so \<open>loads\<close> reports a document
  that mentions one as malformed.
\<close>

datatype json =
    JNull
  | JBool bool
  | JInt int
  | JFloat string
  | JStr string
  | JArr "json list"
  | JObj "(string \<times> json) list"

datatype json_error = JSONDecodeError | DuplicateField string

section \<open>Printing\<close>

definition hex_char :: "nat \<Rightarrow> char" where
  "hex_char d = (if d < 10 then char_of (48 + d) else char_of (87 + d))"

definition esc_char :: "char \<Rightarrow> string" where
  "esc_char c = (let n = (of_char c :: nat) in
     if c = CHR 0x22 then [CHR 0x5C, CHR 0x22]
     else if c = CHR 0x5C then [CHR 0x5C, CHR 0x5C]
     else if n = 10 then [CHR 0x5C, CHR ''n'']
     else if n = 13 then [CHR 0x5C, CHR ''r'']
     else if n = 9 then [CHR 0x5C, CHR ''t'']
     else if n = 12 then [CHR 0x5C, CHR ''f'']
     else if n = 8 then [CHR 0x5C, CHR ''b'']
     else if 32 \<le> n \<and> n \<le> 126 then [c]
     else [CHR 0x5C, CHR ''u'', CHR ''0'', CHR ''0'', hex_char (n div 16), hex_char (n mod 16)])"

definition dump_str :: "string \<Rightarrow> string" where
  "dump_str s = CHR 0x22 # concat (map esc_char s) @ [CHR 0x22]"

fun commas :: "string list \<Rightarrow> string" where
  "commas [] = []"
| "commas [s] = s"
| "commas (s # t # ss) = s @ CHR '','' # commas (t # ss)"

fun dumps :: "json \<Rightarrow> string" where
  "dumps JNull = ''null''"
| "dumps (JBool b) = (if b then ''true'' else ''false'')"
| "dumps (JInt i) = int_str i"
| "dumps (JFloat l) = l"
| "dumps (JStr s) = dump_str s"
| "dumps (JArr vs) = CHR ''['' # commas (map dumps vs) @ '']''"
| "dumps (JObj kvs) =
     CHR ''{'' # commas (map snd (sort_key fst
        (map (\<lambda>(k, v). (k, dump_str k @ CHR '':'' # dumps v)) kvs))) @ ''}''"

section \<open>Parsing\<close>

definition json_space :: "char \<Rightarrow> bool" where
  "json_space c = (c = CHR 0x20 \<or> c = CHR 0x09 \<or> c = CHR 0x0A \<or> c = CHR 0x0D)"

definition skip_ws :: "string \<Rightarrow> string" where
  "skip_ws s = dropWhile json_space s"

definition hex_val :: "char \<Rightarrow> nat option" where
  "hex_val c = (let n = (of_char c :: nat) in
     if 48 \<le> n \<and> n \<le> 57 then Some (n - 48)
     else if 97 \<le> n \<and> n \<le> 102 then Some (n - 87)
     else if 65 \<le> n \<and> n \<le> 70 then Some (n - 55)
     else None)"

definition simple_escape :: "char \<Rightarrow> char option" where
  "simple_escape c =
     (if c = CHR 0x22 \<or> c = CHR 0x5C \<or> c = CHR ''/'' then Some c
      else if c = CHR ''n'' then Some (CHR 0x0A)
      else if c = CHR ''r'' then Some (CHR 0x0D)
      else if c = CHR ''t'' then Some (CHR 0x09)
      else if c = CHR ''f'' then Some (CHR 0x0C)
      else if c = CHR ''b'' then Some (CHR 0x08)
      else None)"

definition hex4 :: "char \<Rightarrow> char \<Rightarrow> char \<Rightarrow> char \<Rightarrow> char option" where
  "hex4 a b c d =
     (case (hex_val a, hex_val b, hex_val c, hex_val d) of
        (Some h1, Some h2, Some h3, Some h4) \<Rightarrow>
          (if h1 = 0 \<and> h2 = 0 then Some (char_of (16 * h3 + h4)) else None)
      | _ \<Rightarrow> None)"

text \<open>The characters after an opening quote, up to the closing one.\<close>

fun scan_string :: "string \<Rightarrow> (string \<times> string) option" where
  "scan_string [] = None"
| "scan_string (c # cs) =
     (if c = CHR 0x22 then Some ([], cs)
      else if c = CHR 0x5C then
        (case cs of
           [] \<Rightarrow> None
         | e # r \<Rightarrow>
             if e = CHR ''u'' then
               (case r of
                  a1 # a2 # a3 # a4 # r' \<Rightarrow>
                    (case hex4 a1 a2 a3 a4 of
                       None \<Rightarrow> None
                     | Some x \<Rightarrow> map_option (\<lambda>(t, u). (x # t, u)) (scan_string r'))
                | _ \<Rightarrow> None)
             else
               (case simple_escape e of
                  None \<Rightarrow> None
                | Some x \<Rightarrow> map_option (\<lambda>(t, u). (x # t, u)) (scan_string r)))
      else if (of_char c :: nat) < 32 \<or> 127 < (of_char c :: nat) then None
      else map_option (\<lambda>(t, u). (c # t, u)) (scan_string cs))"

definition scan_digits :: "string \<Rightarrow> string \<times> string" where
  "scan_digits s = (takeWhile is_digit s, dropWhile is_digit s)"

definition scan_frac :: "string \<Rightarrow> string \<times> string" where
  "scan_frac s =
     (case s of
        [] \<Rightarrow> ([], s)
      | c # r \<Rightarrow>
          if c = CHR ''.'' \<and> fst (scan_digits r) \<noteq> [] then (c # fst (scan_digits r), snd (scan_digits r))
          else ([], s))"

definition scan_exp :: "string \<Rightarrow> string \<times> string" where
  "scan_exp s =
     (case s of
        [] \<Rightarrow> ([], s)
      | c # r \<Rightarrow>
          let (sg, r1) = (case r of
                  [] \<Rightarrow> ([], r)
                | d # r' \<Rightarrow> if d = CHR ''+'' \<or> d = CHR ''-'' then ([d], r') else ([], r))
          in if (c = CHR ''e'' \<or> c = CHR ''E'') \<and> fst (scan_digits r1) \<noteq> []
             then (c # sg @ fst (scan_digits r1), snd (scan_digits r1)) else ([], s))"

text \<open>\<open>-?(0|[1-9][0-9]*)(\.[0-9]+)?([eE][-+]?[0-9]+)?\<close>\<close>

definition scan_number :: "string \<Rightarrow> (json \<times> string) option" where
  "scan_number s =
     (let neg = (s \<noteq> [] \<and> hd s = CHR ''-'');
          u = (if neg then tl s else s);
          ds = fst (scan_digits u)
      in if ds = [] then None
         else
           let (ip, r) = (if hd ds = CHR ''0'' then ([CHR ''0''], tl u) else (ds, snd (scan_digits u)));
               (fr, r1) = scan_frac r;
               (ex, r2) = scan_exp r1
           in if fr = [] \<and> ex = []
              then Some (JInt (if neg then - int (digits_val ip) else int (digits_val ip)), r2)
              else Some (JFloat ((if neg then ''-'' else []) @ ip @ fr @ ex), r2))"

definition strip_prefix :: "string \<Rightarrow> string \<Rightarrow> string option" where
  "strip_prefix p s = (if take (length p) s = p then Some (drop (length p) s) else None)"

definition scan_literal :: "string \<Rightarrow> (json \<times> string) option" where
  "scan_literal s =
     (case strip_prefix ''null'' s of Some r \<Rightarrow> Some (JNull, r) | None \<Rightarrow>
      case strip_prefix ''true'' s of Some r \<Rightarrow> Some (JBool True, r) | None \<Rightarrow>
      case strip_prefix ''false'' s of Some r \<Rightarrow> Some (JBool False, r) | None \<Rightarrow>
      case strip_prefix ''NaN'' s of Some r \<Rightarrow> Some (JFloat ''NaN'', r) | None \<Rightarrow>
      case strip_prefix ''Infinity'' s of Some r \<Rightarrow> Some (JFloat ''Infinity'', r) | None \<Rightarrow>
      case strip_prefix ''-Infinity'' s of Some r \<Rightarrow> Some (JFloat ''-Infinity'', r) | None \<Rightarrow> None)"

text \<open>\<open>_reject_duplicate_fields\<close>: the first repeated key is the error.\<close>

fun reject_duplicates :: "string list \<Rightarrow> (string \<times> json) list \<Rightarrow> json_error + unit" where
  "reject_duplicates seen [] = Inr ()"
| "reject_duplicates seen ((k, v) # kvs) =
     (if k \<in> set seen then Inl (DuplicateField k) else reject_duplicates (k # seen) kvs)"

definition reject_duplicate_fields :: "(string \<times> json) list \<Rightarrow> json_error + json" where
  "reject_duplicate_fields pairs = rbind (reject_duplicates [] pairs) (\<lambda>_. Inr (JObj pairs))"

text \<open>\<open>object_pairs_hook\<close>; without one \<open>json.loads\<close> builds a dictionary, in which a repeated key keeps its place and takes
  the last value.\<close>

type_synonym hook = "(string \<times> json) list \<Rightarrow> json_error + json"

definition plain_object :: hook where
  "plain_object pairs = Inr (JObj (fold (\<lambda>(k, v). AList.update k v) pairs []))"

definition starts_with :: "char \<Rightarrow> string \<Rightarrow> bool" where
  "starts_with c s = (case s of [] \<Rightarrow> False | d # _ \<Rightarrow> d = c)"

lemma skip_ws_length: "length (skip_ws s) \<le> length s"
  by (simp add: skip_ws_def length_dropWhile_le)

text \<open>
  The recursive descent. The tests \<open>length r2 < length s\<close> only make the recursion's
  termination evident: every value consumes at least one character.
\<close>

function (sequential) parse_value :: "hook \<Rightarrow> string \<Rightarrow> json_error + json \<times> string"
  and parse_elems :: "hook \<Rightarrow> json list \<Rightarrow> string \<Rightarrow> json_error + json \<times> string"
  and parse_members :: "hook \<Rightarrow> (string \<times> json) list \<Rightarrow> string \<Rightarrow> json_error + json \<times> string"
where
  "parse_value hook s =
     (if starts_with CHR 0x22 s then
        (case scan_string (tl s) of
           None \<Rightarrow> Inl JSONDecodeError
         | Some (t, r) \<Rightarrow> Inr (JStr t, r))
      else if starts_with CHR ''['' s then
        (if starts_with CHR '']'' (skip_ws (tl s)) then Inr (JArr [], tl (skip_ws (tl s)))
         else parse_elems hook [] (skip_ws (tl s)))
      else if starts_with CHR ''{'' s then
        (if starts_with CHR ''}'' (skip_ws (tl s)) then Inr (JObj [], tl (skip_ws (tl s)))
         else parse_members hook [] (skip_ws (tl s)))
      else
        (case scan_literal s of
           Some x \<Rightarrow> Inr x
         | None \<Rightarrow> (case scan_number s of Some x \<Rightarrow> Inr x | None \<Rightarrow> Inl JSONDecodeError)))"
| "parse_elems hook acc s =
     (case parse_value hook s of
        Inl e \<Rightarrow> Inl e
      | Inr (v, r) \<Rightarrow>
          let r1 = skip_ws r in
          if starts_with CHR '']'' r1 then Inr (JArr (rev (v # acc)), tl r1)
          else if starts_with CHR '','' r1 \<and> length (skip_ws (tl r1)) < length s
          then parse_elems hook (v # acc) (skip_ws (tl r1))
          else Inl JSONDecodeError)"
| "parse_members hook acc s =
     (if \<not> starts_with CHR 0x22 s then Inl JSONDecodeError
      else
        (case scan_string (tl s) of
           None \<Rightarrow> Inl JSONDecodeError
         | Some (k, r) \<Rightarrow>
             let r1 = skip_ws r in
             if starts_with CHR '':'' r1 \<and> length (skip_ws (tl r1)) < length s then
               (case parse_value hook (skip_ws (tl r1)) of
                  Inl e \<Rightarrow> Inl e
                | Inr (v, q) \<Rightarrow>
                    let q1 = skip_ws q in
                    if starts_with CHR ''}'' q1 then
                      rbind (hook (rev ((k, v) # acc))) (\<lambda>ob. Inr (ob, tl q1))
                    else if starts_with CHR '','' q1 \<and> length (skip_ws (tl q1)) < length s
                    then parse_members hook ((k, v) # acc) (skip_ws (tl q1))
                    else Inl JSONDecodeError)
             else Inl JSONDecodeError))"
  by pat_completeness auto
termination
proof (relation "measure (\<lambda>x. case x of
    Inl (hook, s) \<Rightarrow> 2 * length s
  | Inr (Inl (hook, acc, s)) \<Rightarrow> 2 * length s + 1
  | Inr (Inr (hook, acc, s)) \<Rightarrow> 2 * length s + 1)", goal_cases)
  case (2 hook s)
  then show ?case using skip_ws_length [of "tl s"] by (cases s) (auto simp: starts_with_def)
next
  case (3 hook s)
  then show ?case using skip_ws_length [of "tl s"] by (cases s) (auto simp: starts_with_def)
qed auto

declare parse_value.simps [simp del] parse_elems.simps [simp del] parse_members.simps [simp del]

definition loads_with :: "hook \<Rightarrow> string \<Rightarrow> json_error + json" where
  "loads_with hook s = rbind (parse_value hook (skip_ws s))
     (\<lambda>(v, r). if skip_ws r = [] then Inr v else Inl JSONDecodeError)"

definition loads :: "string \<Rightarrow> json_error + json" where
  "loads = loads_with reject_duplicate_fields"

definition plain_loads :: "string \<Rightarrow> json_error + json" where
  "plain_loads = loads_with plain_object"

section \<open>Round trip\<close>

text \<open>What \<open>loads\<close> gives back: the same value with the fields of every object sorted.\<close>

fun canon :: "json \<Rightarrow> json" where
  "canon (JArr vs) = JArr (map canon vs)"
| "canon (JObj kvs) = JObj (sort_key fst (map (\<lambda>(k, v). (k, canon v)) kvs))"
| "canon v = v"

text \<open>The text of a float: a special name, or a number that has a fraction or an exponent.\<close>

definition float_char :: "char \<Rightarrow> bool" where
  "float_char c \<longleftrightarrow> is_digit c \<or> c \<in> set ''+-.eE''"

definition float_text :: "string \<Rightarrow> bool" where
  "float_text l \<longleftrightarrow> l \<in> {''NaN'', ''Infinity'', ''-Infinity''} \<or> list_all float_char l \<and> scan_number l = Some (JFloat l, [])"

text \<open>Values of Python's \<open>dict\<close>, \<open>list\<close>, \<open>str\<close>, \<open>int\<close>, \<open>float\<close>, \<open>bool\<close> and \<open>None\<close>.\<close>

fun dumpable :: "json \<Rightarrow> bool" where
  "dumpable (JFloat l) = float_text l"
| "dumpable (JArr vs) = list_all dumpable vs"
| "dumpable (JObj kvs) = (distinct (map fst kvs) \<and> list_all (\<lambda>(k, v). dumpable v) kvs)"
| "dumpable v = True"

lemma insort_key_map: "insort_key f (h x) (map h xs) = map h (insort_key (\<lambda>y. f (h y)) x xs)"
  by (induction xs) simp_all

lemma sort_key_map: "sort_key f (map h xs) = map h (sort_key (f \<circ> h) xs)"
  by (induction xs) (simp_all add: insort_key_map comp_def)

lemma sort_fields: "sort_key fst (map (\<lambda>(k, v). (k, g k v)) kvs) =
    map (\<lambda>(k, v). (k, g k v)) (sort_key fst kvs)"
  by (simp add: sort_key_map comp_def case_prod_unfold)

lemma of_char_lt: "(of_char c :: nat) < 256"
  by (metis nat_of_char_less_256)

lemma hex_val_hex_char: "d < 16 \<Longrightarrow> hex_val (hex_char d) = Some d"
  by (auto simp: hex_val_def hex_char_def)

lemma hex4_esc:
  "hex4 (CHR ''0'') (CHR ''0'') (hex_char ((of_char c :: nat) div 16))
     (hex_char ((of_char c :: nat) mod 16)) = Some c"
proof -
  have "(of_char c :: nat) div 16 < 16" using of_char_lt [of c] by linarith
  moreover have "hex_val (CHR ''0'') = Some 0" by code_simp
  moreover have "char_of (16 * ((of_char c :: nat) div 16) + of_char c mod 16) = c"
    by (simp only: mult_div_mod_eq char_of_char)
  ultimately show ?thesis by (simp add: hex4_def hex_val_hex_char del: char_of_char)
qed

lemma char_of_nat_eq: "(of_char c :: nat) = n \<Longrightarrow> c = char_of n"
  by auto

lemma control_chars:
  "char_of (10 :: nat) = CHR 0x0A" "char_of (13 :: nat) = CHR 0x0D" "char_of (9 :: nat) = CHR 0x09"
  "char_of (12 :: nat) = CHR 0x0C" "char_of (8 :: nat) = CHR 0x08"
  by code_simp+

lemmas of_char_cases =
  char_of_nat_eq [of _ 10, unfolded control_chars] char_of_nat_eq [of _ 13, unfolded control_chars]
  char_of_nat_eq [of _ 9, unfolded control_chars] char_of_nat_eq [of _ 12, unfolded control_chars]
  char_of_nat_eq [of _ 8, unfolded control_chars]

lemma scan_string_esc:
  "scan_string (esc_char c @ r) = map_option (\<lambda>(t, u). (c # t, u)) (scan_string r)"
  using hex4_esc [of c]
  by (auto simp: esc_char_def Let_def simple_escape_def dest: of_char_cases)

lemma scan_string_dump:
  "scan_string (concat (map esc_char s) @ CHR 0x22 # r) = Some (s, r)"
  by (induction s) (simp_all add: scan_string_esc)

text \<open>What may follow a value inside a document: nothing, or a separator.\<close>

definition delim :: "string \<Rightarrow> bool" where
  "delim r = (case r of [] \<Rightarrow> True | c # _ \<Rightarrow> c = CHR '','' \<or> c = CHR '']'' \<or> c = CHR ''}'')"

lemma delim_simps [simp]:
  "delim []" "delim (CHR '','' # r)" "delim (CHR '']'' # r)" "delim (CHR ''}'' # r)"
  by (simp_all add: delim_def)

lemma delim_not_digit: "delim (c # r) \<Longrightarrow> \<not> is_digit c"
  by (auto simp: delim_def is_digit_def)

lemma scan_digits_append:
  assumes "list_all is_digit ds" "delim r"
  shows "scan_digits (ds @ r) = (ds, r)"
proof -
  have "takeWhile is_digit r = [] \<and> dropWhile is_digit r = r"
    using assms(2) delim_not_digit by (cases r) auto
  then show ?thesis using assms(1)
    by (simp add: scan_digits_def list_all_iff takeWhile_append2 dropWhile_append2)
qed

lemma scan_frac_delim: "delim r \<Longrightarrow> scan_frac r = ([], r)"
  by (auto simp: scan_frac_def delim_def split: list.splits)

lemma scan_exp_delim: "delim r \<Longrightarrow> scan_exp r = ([], r)"
  by (auto simp: scan_exp_def delim_def split: list.splits)

lemma scan_number_nat_str:
  assumes "delim r"
  shows "scan_number (nat_str n @ r) = Some (JInt (int n), r)"
    and "scan_number (CHR ''-'' # nat_str n @ r) = Some (JInt (- int n), r)"
proof -
  obtain c t where ct: "nat_str n = c # t" by (cases "nat_str n") auto
  then have "is_digit c" using nat_str_digits [of n] by simp
  then have neg: "c \<noteq> CHR ''-''" by (auto simp: is_digit_def)
  have sd: "scan_digits (nat_str n @ r) = (nat_str n, r)"
    using nat_str_digits assms by (rule scan_digits_append)
  have z: "t = []" if "c = CHR ''0''"
    using that nat_str_hd_zero [of n] ct by (simp add: nat_str.simps)
  have dv: "digits_val (nat_str n) = n" by simp
  show "scan_number (nat_str n @ r) = Some (JInt (int n), r)"
    using sd dv z assms neg unfolding scan_number_def ct
    by (auto simp: scan_frac_delim scan_exp_delim Let_def)
  show "scan_number (CHR ''-'' # nat_str n @ r) = Some (JInt (- int n), r)"
    using sd dv z assms unfolding scan_number_def ct
    by (auto simp: scan_frac_delim scan_exp_delim Let_def)
qed

lemma strip_prefix_Cons:
  "strip_prefix (a # p) (b # s) = (if a = b then strip_prefix p s else None)"
  by (simp add: strip_prefix_def)

lemma digit_not_letter:
  "is_digit c \<Longrightarrow> c \<notin> set ''ntfNI-''"
  by (auto simp: is_digit_def)

lemma scan_literal_digit: "is_digit c \<Longrightarrow> scan_literal (c # r) = None"
  by (drule digit_not_letter) (auto simp: scan_literal_def strip_prefix_Cons)

lemma scan_literal_minus: "is_digit c \<Longrightarrow> scan_literal (CHR ''-'' # c # r) = None"
  by (drule digit_not_letter) (auto simp: scan_literal_def strip_prefix_Cons)

lemma digit_starts:
  assumes "is_digit c"
  shows "\<not> starts_with CHR 0x22 (c # r)" "\<not> starts_with CHR ''['' (c # r)" "\<not> starts_with CHR ''{'' (c # r)"
  using assms by (auto simp: starts_with_def is_digit_def)

lemma parse_value_int: "delim r \<Longrightarrow> parse_value hook (int_str i @ r) = Inr (JInt i, r)"
proof -
  assume r: "delim r"
  have pos: "parse_value hook (nat_str n @ r) = Inr (JInt (int n), r)" for n
  proof -
    obtain c t where ct: "nat_str n = c # t" by (cases "nat_str n") auto
    then have "is_digit c" using nat_str_digits [of n] by simp
    then show ?thesis using scan_number_nat_str(1) [OF r, of n] ct
      by (subst parse_value.simps) (simp add: digit_starts scan_literal_digit)
  qed
  have neg: "parse_value hook (CHR ''-'' # nat_str n @ r) = Inr (JInt (- int n), r)" for n
  proof -
    obtain c t where ct: "nat_str n = c # t" by (cases "nat_str n") auto
    then have "is_digit c" using nat_str_digits [of n] by simp
    then show ?thesis using scan_number_nat_str(2) [OF r, of n] ct
      by (subst parse_value.simps) (simp add: starts_with_def scan_literal_minus)
  qed
  show ?thesis using pos neg by (auto simp: int_str_def)
qed

text \<open>A float reads back too: what follows it is no part of it.\<close>

lemma scan_digits_delim: "delim r \<Longrightarrow> scan_digits (s @ r) = (fst (scan_digits s), snd (scan_digits s) @ r)"
proof (induction s)
  case Nil
  then show ?case using delim_not_digit by (cases r) (auto simp: scan_digits_def)
qed (simp add: scan_digits_def)

lemma scan_frac_append: "delim r \<Longrightarrow> scan_frac (s @ r) = (fst (scan_frac s), snd (scan_frac s) @ r)"
  by (cases s) (simp_all add: scan_frac_delim, simp_all add: scan_frac_def scan_digits_delim)

lemma scan_exp_append:
  assumes "delim r"
  shows "scan_exp (s @ r) = (fst (scan_exp s), snd (scan_exp s) @ r)"
proof (cases s)
  case (Cons c t)
  show ?thesis
  proof (cases t)
    case Nil
    have "fst (scan_digits (case r of [] \<Rightarrow> r | d # r' \<Rightarrow> if d = CHR ''+'' \<or> d = CHR ''-'' then r' else r)) = []"
      using assms delim_not_digit by (cases r) (auto simp: scan_digits_def delim_def)
    then show ?thesis using Cons Nil assms
      by (auto simp: scan_exp_def delim_def scan_digits_def Let_def split: list.splits)
  next
    case (Cons d u)
    then show ?thesis using \<open>s = c # t\<close> scan_digits_delim [OF assms, of u] scan_digits_delim [OF assms, of t]
      by (simp add: scan_exp_def Let_def)
  qed
next
  case Nil
  have "scan_exp [] = ([], [])" by (simp add: scan_exp_def)
  then show ?thesis using Nil by (simp add: scan_exp_delim assms)
qed

lemma scan_number_append:
  assumes "scan_number s = Some (v, q)" "delim r"
  shows "scan_number (s @ r) = Some (v, q @ r)"
proof -
  define neg where "neg \<longleftrightarrow> s \<noteq> [] \<and> hd s = CHR ''-''"
  define u where "u = (if neg then tl s else s)"
  have ds: "fst (scan_digits u) \<noteq> []" using assms(1) by (auto simp: scan_number_def Let_def neg_def u_def split: if_splits)
  then have u: "u \<noteq> []" by (auto simp: scan_digits_def)
  then have "s \<noteq> []" by (auto simp: u_def split: if_splits)
  then have s: "s \<noteq> []" "neg = (s @ r \<noteq> [] \<and> hd (s @ r) = CHR ''-'')" "(if neg then tl (s @ r) else s @ r) = u @ r" "tl (u @ r) = tl u @ r"
    using u by (auto simp: u_def neg_def)
  define ip where "ip = (if hd (fst (scan_digits u)) = CHR ''0'' then [CHR ''0''] else fst (scan_digits u))"
  define w where "w = (if hd (fst (scan_digits u)) = CHR ''0'' then tl u else snd (scan_digits u))"
  have "scan_number s = (case (scan_frac w, scan_exp (snd (scan_frac w))) of ((fr, r1), (ex, r2)) \<Rightarrow>
      if fr = [] \<and> ex = [] then Some (JInt (if neg then - int (digits_val ip) else int (digits_val ip)), r2)
      else Some (JFloat ((if neg then ''-'' else []) @ ip @ fr @ ex), r2))"
    using ds unfolding scan_number_def Let_def neg_def [symmetric] u_def [symmetric] by (simp add: ip_def w_def split_beta)
  moreover have "scan_number (s @ r) = (case (scan_frac (w @ r), scan_exp (snd (scan_frac (w @ r)))) of ((fr, r1), (ex, r2)) \<Rightarrow>
      if fr = [] \<and> ex = [] then Some (JInt (if neg then - int (digits_val ip) else int (digits_val ip)), r2)
      else Some (JFloat ((if neg then ''-'' else []) @ ip @ fr @ ex), r2))"
    using ds unfolding scan_number_def Let_def s(2) [symmetric] s(3) scan_digits_delim [OF assms(2)] s(4)
    by (simp add: ip_def w_def split_beta)
  ultimately show ?thesis using assms by (auto simp: scan_frac_append scan_exp_append split_beta split: if_splits)
qed

lemma float_char_not: "float_char c \<Longrightarrow> c \<notin> set ''ntfNI[]{} \"'' \<and> \<not> json_space c"
  by (auto simp: float_char_def is_digit_def json_space_def)

lemma parse_value_float: "float_text l \<Longrightarrow> delim r \<Longrightarrow> parse_value hook (l @ r) = Inr (JFloat l, r)"
proof (cases "l \<in> {''NaN'', ''Infinity'', ''-Infinity''}")
  case True
  have "parse_value hook (''NaN'' @ r) = Inr (JFloat ''NaN'', r)" "parse_value hook (''Infinity'' @ r) = Inr (JFloat ''Infinity'', r)"
    "parse_value hook (''-Infinity'' @ r) = Inr (JFloat ''-Infinity'', r)"
    by (subst parse_value.simps, simp add: starts_with_def scan_literal_def strip_prefix_def)+
  then show ?thesis using True by blast
next
  case False
  assume l: "float_text l" and r: "delim r"
  then have c: "list_all float_char l" "scan_number l = Some (JFloat l, [])" using False by (auto simp: float_text_def)
  obtain a t where at: "l = a # t" using c(2) by (cases l) (auto simp: scan_number_def scan_digits_def)
  have a: "a \<notin> set ''ntfNI[]{} \"''" using c(1) at float_char_not by auto
  have second: "hd (t @ r) \<noteq> CHR ''I'' \<or> t @ r = []"
    using c(1) at r float_char_not by (cases t) (auto simp: delim_def split: list.splits)
  have "scan_literal (l @ r) = None"
    using a second by (cases "t @ r") (auto simp: at scan_literal_def strip_prefix_Cons strip_prefix_def)
  then show ?thesis using scan_number_append [OF c(2) r] a by (subst parse_value.simps) (auto simp: at starts_with_def)
qed

text \<open>The first character of a printed value starts no separator and is no space.\<close>

definition value_start :: "string \<Rightarrow> bool" where
  "value_start s = (s \<noteq> [] \<and> \<not> json_space (hd s) \<and> hd s \<noteq> CHR '']'' \<and> hd s \<noteq> CHR ''}'')"

lemma value_start_dumps: "dumpable v \<Longrightarrow> value_start (dumps v @ r)"
proof (cases v)
  case (JInt i)
  have "\<not> json_space c \<and> c \<noteq> CHR '']'' \<and> c \<noteq> CHR ''}''" if "is_digit c" for c
    using that by (auto simp: json_space_def is_digit_def)
  then have "value_start (nat_str n @ r)" for n
    using nat_str_digits [of n] by (cases "nat_str n") (auto simp: value_start_def)
  then show ?thesis using JInt by (simp add: int_str_def value_start_def json_space_def)
next
  case (JFloat l)
  assume "dumpable v"
  moreover have "l \<noteq> [] \<and> float_char (hd l)" if "list_all float_char l" "scan_number l = Some (JFloat l, [])"
    using that by (cases l) (auto simp: scan_number_def scan_digits_def)
  ultimately show ?thesis using JFloat float_char_not by (auto simp: float_text_def value_start_def json_space_def)
qed (auto simp: value_start_def dump_str_def json_space_def)

lemma skip_ws_value: "value_start s \<Longrightarrow> skip_ws s = s"
  by (cases s) (simp_all add: value_start_def skip_ws_def)

lemma skip_ws_sep [simp]:
  "skip_ws (CHR '','' # r) = CHR '','' # r" "skip_ws (CHR '']'' # r) = CHR '']'' # r"
  "skip_ws (CHR ''}'' # r) = CHR ''}'' # r" "skip_ws (CHR '':'' # r) = CHR '':'' # r"
  "skip_ws (CHR 0x22 # r) = CHR 0x22 # r" "skip_ws [] = []"
  by (simp_all add: skip_ws_def json_space_def)

lemma starts_with_Cons [simp]: "starts_with c (d # r) \<longleftrightarrow> d = c" "\<not> starts_with c []"
  by (simp_all add: starts_with_def)

text \<open>A value reads back whatever separator follows it.\<close>

definition reads_back :: "hook \<Rightarrow> json \<Rightarrow> bool" where
  "reads_back hook v \<longleftrightarrow> (\<forall>r. delim r \<longrightarrow> parse_value hook (dumps v @ r) = Inr (canon v, r))"

definition good_hook :: "hook \<Rightarrow> bool" where
  "good_hook hook \<longleftrightarrow> (\<forall>kvs. distinct (map fst kvs) \<longrightarrow> hook kvs = Inr (JObj kvs))"

lemma value_start_commas:
  "vs \<noteq> [] \<Longrightarrow> list_all dumpable vs \<Longrightarrow> value_start (commas (map dumps vs) @ r)"
proof (induction vs rule: induct_list012)
  case (3 v w vs)
  then show ?case using value_start_dumps [of v "CHR '','' # commas (map dumps (w # vs)) @ r"] by simp
qed (simp_all add: value_start_dumps)

lemma parse_elems_commas:
  assumes "vs \<noteq> []" "\<And>v. v \<in> set vs \<Longrightarrow> dumpable v \<and> reads_back hook v"
  shows "parse_elems hook acc (commas (map dumps vs) @ CHR '']'' # r) = Inr (JArr (rev acc @ map canon vs), r)"
  using assms
proof (induction vs arbitrary: acc rule: induct_list012)
  case (2 v)
  then have "parse_value hook (dumps v @ CHR '']'' # r) = Inr (canon v, CHR '']'' # r)"
    by (simp add: reads_back_def)
  then show ?case by (simp add: parse_elems.simps)
next
  case (3 v w vs)
  let ?rest = "commas (map dumps (w # vs)) @ CHR '']'' # r"
  have pv: "parse_value hook (dumps v @ CHR '','' # ?rest) = Inr (canon v, CHR '','' # ?rest)"
    using 3 by (simp add: reads_back_def)
  have ws: "skip_ws ?rest = ?rest"
    using 3 by (intro skip_ws_value value_start_commas) (auto simp: list_all_iff)
  have "parse_elems hook (canon v # acc) ?rest = Inr (JArr (rev (canon v # acc) @ map canon (w # vs)), r)"
    using 3 by (intro "3.IH"(2)) auto
  with pv ws show ?case
    by (subst parse_elems.simps) (simp add: Let_def)
qed simp

definition member_text :: "string \<times> json \<Rightarrow> string" where
  "member_text kv = dump_str (fst kv) @ CHR '':'' # dumps (snd kv)"

lemma parse_key_value:
  assumes "dumpable v" "reads_back hook v" "delim r"
  shows "scan_string (tl (member_text (k, v) @ r)) = Some (k, CHR '':'' # dumps v @ r)"
    and "skip_ws (dumps v @ r) = dumps v @ r"
    and "parse_value hook (dumps v @ r) = Inr (canon v, r)"
  using assms
  by (simp_all add: member_text_def dump_str_def scan_string_dump skip_ws_value value_start_dumps
      reads_back_def)

lemma member_text_props:
  "starts_with CHR 0x22 (member_text kv @ r)" "skip_ws (member_text kv @ r) = member_text kv @ r"
  "length r < length (member_text kv @ r)" "length (dumps (snd kv) @ r) < length (member_text kv @ r)"
  by (simp_all add: member_text_def dump_str_def)

lemma skip_ws_members:
  "kvs \<noteq> [] \<Longrightarrow> skip_ws (commas (map member_text kvs) @ r) = commas (map member_text kvs) @ r"
  by (induction kvs rule: induct_list012) (simp_all add: member_text_props)

lemma starts_with_members:
  "kvs \<noteq> [] \<Longrightarrow> starts_with CHR 0x22 (commas (map member_text kvs) @ r)"
  by (induction kvs rule: induct_list012) (simp_all add: member_text_props)

lemma parse_members_commas:
  assumes "kvs \<noteq> []" "\<And>k v. (k, v) \<in> set kvs \<Longrightarrow> dumpable v \<and> reads_back hook v"
  shows "parse_members hook acc (commas (map member_text kvs) @ CHR ''}'' # r) =
    rbind (hook (rev acc @ map (\<lambda>(k, v). (k, canon v)) kvs)) (\<lambda>ob. Inr (ob, r))"
  using assms
proof (induction kvs arbitrary: acc rule: induct_list012)
  case (2 kv)
  obtain k v where kv: "kv = (k, v)" by (cases kv)
  then have v: "dumpable v" "reads_back hook v" using 2 by auto
  show ?case
    using parse_key_value(1) [OF v, of "CHR ''}'' # r" k] parse_key_value(2,3) [OF v, of "CHR ''}'' # r"]
      member_text_props [where kv = kv and r = "CHR ''}'' # r"]
    by (subst parse_members.simps) (simp add: kv Let_def)
next
  case (3 kv kw kvs)
  obtain k v where kv: "kv = (k, v)" by (cases kv)
  then have v: "dumpable v" "reads_back hook v" using 3 by auto
  define rest where "rest = commas (map member_text (kw # kvs)) @ CHR ''}'' # r"
  have ws: "skip_ws rest = rest" unfolding rest_def by (rule skip_ws_members) simp
  have IH: "parse_members hook ((k, canon v) # acc) rest =
      rbind (hook (rev ((k, canon v) # acc) @ map (\<lambda>(k, v). (k, canon v)) (kw # kvs)))
        (\<lambda>ob. Inr (ob, r))"
    using 3 unfolding rest_def by (intro "3.IH"(2)) auto
  have eq: "commas (map member_text (kv # kw # kvs)) @ CHR ''}'' # r =
      member_text (k, v) @ CHR '','' # rest"
    by (simp add: kv rest_def)
  show ?case
    unfolding eq
    using parse_key_value(1) [OF v, of "CHR '','' # rest" k] ws IH
      parse_key_value(2,3) [OF v, of "CHR '','' # rest"]
      member_text_props [where kv = "(k, v)" and r = "CHR '','' # rest"]
    by (subst parse_members.simps) (simp add: kv Let_def)
qed simp

lemma reject_duplicates_distinct:
  "distinct (map fst kvs) \<Longrightarrow> set seen \<inter> fst ` set kvs = {} \<Longrightarrow> reject_duplicates seen kvs = Inr ()"
  by (induction seen kvs rule: reject_duplicates.induct) auto

lemma reject_duplicate_fields_distinct:
  "distinct (map fst kvs) \<Longrightarrow> reject_duplicate_fields kvs = Inr (JObj kvs)"
  by (simp add: reject_duplicate_fields_def reject_duplicates_distinct)

lemma dumps_obj:
  "dumps (JObj kvs) = CHR ''{'' # commas (map member_text (sort_key fst kvs)) @ ''}''"
proof -
  have "map snd (sort_key fst (map (\<lambda>(k, v). (k, dump_str k @ CHR '':'' # dumps v)) kvs)) =
      map member_text (sort_key fst kvs)"
    unfolding sort_fields by (simp add: member_text_def case_prod_unfold)
  then show ?thesis by simp
qed

lemma parse_literal:
  "parse_value hook (CHR ''n'' # CHR ''u'' # CHR ''l'' # CHR ''l'' # r) = Inr (JNull, r)"
  "parse_value hook (CHR ''t'' # CHR ''r'' # CHR ''u'' # CHR ''e'' # r) = Inr (JBool True, r)"
  "parse_value hook (CHR ''f'' # CHR ''a'' # CHR ''l'' # CHR ''s'' # CHR ''e'' # r) = Inr (JBool False, r)"
  by (subst parse_value.simps, simp add: scan_literal_def strip_prefix_def)+

lemma plain_object_distinct:
  "distinct (map fst (acc @ kvs)) \<Longrightarrow> fold (\<lambda>(k, v). AList.update k v) kvs acc = acc @ kvs"
proof (induction kvs arbitrary: acc)
  case (Cons kv kvs)
  have "AList.update (fst kv) (snd kv) acc = acc @ [kv]"
    using Cons.prems by (induction acc) auto
  then show ?case using Cons.IH [of "acc @ [kv]"] Cons.prems by (simp add: split_beta)
qed simp

lemma good_hooks: "good_hook reject_duplicate_fields" "good_hook plain_object"
  by (simp_all add: good_hook_def reject_duplicate_fields_distinct plain_object_def plain_object_distinct [of "[]", simplified])

theorem dumpable_reads_back:
  assumes "good_hook hook"
  shows "dumpable v \<Longrightarrow> reads_back hook v"
proof (induction v)
  case (JStr t)
  then show ?case
    by (simp add: reads_back_def parse_value.simps dump_str_def scan_string_dump)
next
  case (JArr vs)
  have "parse_value hook (dumps (JArr vs) @ r) = Inr (canon (JArr vs), r)" if "delim r" for r
  proof (cases "vs = []")
    case True
    then show ?thesis by (simp add: parse_value.simps)
  next
    case False
    have st: "value_start (commas (map dumps vs) @ CHR '']'' # r)"
      using False JArr.prems by (intro value_start_commas) auto
    then have "\<not> starts_with CHR '']'' (commas (map dumps vs) @ CHR '']'' # r)"
      by (cases "commas (map dumps vs) @ CHR '']'' # r") (simp_all add: value_start_def)
    moreover have "parse_elems hook [] (commas (map dumps vs) @ CHR '']'' # r) = Inr (JArr (map canon vs), r)"
      using False JArr by (subst parse_elems_commas) (auto simp: list_all_iff)
    ultimately show ?thesis
      by (subst parse_value.simps) (simp add: skip_ws_value [OF st])
  qed
  then show ?case by (simp add: reads_back_def)
next
  case (JObj kvs)
  let ?ps = "sort_key fst kvs"
  have "parse_value hook (dumps (JObj kvs) @ r) = Inr (canon (JObj kvs), r)" if "delim r" for r
  proof (cases "kvs = []")
    case True
    then show ?thesis by (simp add: parse_value.simps)
  next
    case False
    then have ne: "?ps \<noteq> []" by simp
    have mem: "dumpable v \<and> reads_back hook v" if "(k, v) \<in> set ?ps" for k v
      using that JObj.IH [of "(k, v)" v] JObj.prems by (auto simp: list_all_iff)
    define body where "body = commas (map member_text ?ps) @ CHR ''}'' # r"
    have ws: "skip_ws body = body" unfolding body_def using ne by (rule skip_ws_members)
    have "\<not> starts_with CHR ''}'' body"
      using starts_with_members [OF ne, of "CHR ''}'' # r"]
      by (cases body) (simp_all add: body_def)
    moreover have "parse_members hook [] body =
        rbind (hook (map (\<lambda>(k, v). (k, canon v)) ?ps)) (\<lambda>ob. Inr (ob, r))"
      unfolding body_def using parse_members_commas [OF ne, of hook "[]" r] mem by simp
    moreover have "distinct (map fst (map (\<lambda>(k, v). (k, canon v)) ?ps))"
      using JObj.prems by (simp add: comp_def case_prod_unfold)
    ultimately show ?thesis
      unfolding dumps_obj using ws
      by (subst parse_value.simps)
        (simp add: body_def [symmetric] assms [unfolded good_hook_def] sort_fields del: map_map)
  qed
  then show ?case by (simp add: reads_back_def)
qed (simp_all add: reads_back_def parse_value_int parse_value_float parse_literal)

lemma loads_with_dumps:
  assumes "good_hook hook" "dumpable v"
  shows "loads_with hook (dumps v) = Inr (canon v)"
proof -
  have "delim [] \<longrightarrow> parse_value hook (dumps v @ []) = Inr (canon v, [])"
    using dumpable_reads_back [OF assms] unfolding reads_back_def by (rule spec)
  moreover have "skip_ws (dumps v @ []) = dumps v @ []"
    using value_start_dumps [OF assms(2)] by (rule skip_ws_value)
  ultimately show ?thesis by (simp add: loads_with_def)
qed

theorem loads_dumps: "dumpable v \<Longrightarrow> loads (dumps v) = Inr (canon v)"
  unfolding loads_def by (rule loads_with_dumps [OF good_hooks(1)])

theorem plain_loads_dumps: "dumpable v \<Longrightarrow> plain_loads (dumps v) = Inr (canon v)"
  unfolding plain_loads_def by (rule loads_with_dumps [OF good_hooks(2)])

section \<open>The printed text is one line of printable ASCII\<close>

definition printable :: "char \<Rightarrow> bool" where
  "printable c \<longleftrightarrow> 32 \<le> (of_char c :: nat) \<and> (of_char c :: nat) \<le> 126"

lemma printable_hex: "d < 16 \<Longrightarrow> printable (hex_char d)"
  by (auto simp: printable_def hex_char_def)

lemma printable_seps:
  "printable CHR ''[''" "printable CHR '']''" "printable CHR ''{''" "printable CHR ''}''"
  "printable CHR '':''" "printable CHR '',''"
  by (simp_all add: printable_def)

lemma printable_esc: "list_all printable (esc_char c)"
proof -
  have "(of_char c :: nat) div 16 < 16" using of_char_lt [of c] by linarith
  then show ?thesis
    using printable_hex [of "(of_char c :: nat) div 16"] printable_hex [of "(of_char c :: nat) mod 16"]
    by (auto simp: esc_char_def Let_def printable_def)
qed

lemma printable_dump_str: "list_all printable (dump_str s)"
  using printable_esc by (auto simp: dump_str_def list_all_iff printable_def)

lemma printable_int_str: "list_all printable (int_str i)"
proof -
  have "is_digit c \<Longrightarrow> printable c" for c by (simp add: is_digit_def printable_def Let_def)
  then have "list_all printable (nat_str n)" for n
    using nat_str_digits [of n] by (auto simp: list_all_iff)
  then show ?thesis by (simp add: int_str_def printable_def)
qed

lemma printable_commas: "(\<And>t. t \<in> set ts \<Longrightarrow> list_all printable t) \<Longrightarrow> list_all printable (commas ts)"
  by (induction ts rule: commas.induct) (auto simp: printable_seps)

lemma printable_dumps: "dumpable v \<Longrightarrow> list_all printable (dumps v)"
proof (induction v)
  case (JFloat l)
  have "float_char c \<Longrightarrow> printable c" for c by (auto simp: float_char_def printable_def is_digit_def Let_def)
  then show ?case using JFloat by (auto simp: float_text_def list_all_iff printable_def)
next
  case (JArr vs)
  have "list_all printable (commas (map dumps vs))"
    using JArr by (intro printable_commas) (auto simp: list_all_iff)
  then show ?case by (simp add: printable_seps)
next
  case (JObj kvs)
  have "list_all printable (member_text kv)" if "kv \<in> set kvs" for kv
    using JObj that printable_dump_str [of "fst kv"]
    by (cases kv) (force simp: member_text_def list_all_iff printable_seps)
  then have "list_all printable (commas (map member_text (sort_key fst kvs)))"
    by (intro printable_commas) auto
  then show ?case unfolding dumps_obj by (simp add: printable_seps)
qed (use printable_dump_str printable_int_str in \<open>auto simp: printable_def\<close>)

lemma dumps_one_line:
  assumes "dumpable v"
  shows "CHR 0x0A \<notin> set (dumps v)" "CHR 0x0D \<notin> set (dumps v)" "dumps v \<noteq> []"
proof -
  have "\<not> printable (CHR 0x0A)" "\<not> printable (CHR 0x0D)" by (simp_all add: printable_def)
  then show "CHR 0x0A \<notin> set (dumps v)" "CHR 0x0D \<notin> set (dumps v)"
    using printable_dumps [OF assms] unfolding list_all_iff by blast+
  show "dumps v \<noteq> []" using value_start_dumps [OF assms, of "[]"] by (simp add: value_start_def)
qed

text \<open>Printing does not see the order of the fields.\<close>

lemma dumps_canon: "dumps (canon v) = dumps v"
proof (induction v)
  case (JArr vs)
  then have "map dumps (map canon vs) = map dumps vs" by simp
  then show ?case by (simp only: canon.simps dumps.simps)
next
  case (JObj kvs)
  have "member_text (fst kv, canon (snd kv)) = member_text kv" if "kv \<in> set kvs" for kv
    using JObj that by (cases kv) (auto simp: member_text_def)
  then have "map member_text (map (\<lambda>(k, v). (k, canon v)) (sort_key fst kvs)) =
      map member_text (sort_key fst kvs)"
    by (simp add: case_prod_unfold)
  then show ?case
    by (simp only: canon.simps dumps_obj sort_key_idem sort_fields)
qed simp_all

end
