(* ===== verification/Protocol.thy ===== *)
theory Protocol
  imports Json
begin

text \<open>
  \<open>lm_resiliency/integrations/torchrun/_protocol.py\<close>: the records a recovery manager sends to
  the torchrun agents. \<open>SlotAssignment\<close>, \<open>RestartPlan\<close> and \<open>RestartContext\<close> are records, their
  \<open>__post_init__\<close> checks are the functions \<open>slot_post_init\<close>, \<open>plan_post_init\<close> and
  \<open>context_post_init\<close> (each returns the normalised record or the validation error), and the
  dictionary and JSON codecs are translated field by field. Every \<open>raise\<close> of a
  \<open>ProtocolValidationError\<close> is one constructor of \<open>protocol_error\<close>.
\<close>

datatype protocol_error =
    InvalidJson string
  | DuplicateJsonField string
  | ExpectedObject string
  | UnsupportedSchema string
  | MissingFields string "string list"
  | UnknownFields string "string list"
  | ExpectedString string
  | ExpectedInteger string
  | BelowMinimum string int
  | UnsupportedValue string string
  | ExpectedArray string
  | ValuesNotUnique string
  | NoAssignments string
  | SlotsNotUnique string
  | SlotsNotDense string
  | NodesNotUnique string
  | LocalSizesDiffer string
  | WrongFirstRank string int int
  | NotSuccessorGeneration
  | NoIncident
  | DurableRequiresId string
  | GeminiForbidsId string
  | QuarantinedAssigned "string list"
  | WorldSizeMismatch
  | FirstRankMismatch
  | IncompleteSlots
  | RankRangeExceeds
  | NodeNotAssigned string

section \<open>Field validators\<close>

type_synonym fields = "(string \<times> json) list"

definition field_names :: "fields \<Rightarrow> string list" where
  "field_names kvs = map fst kvs"

text \<open>\<open>value.get(key)\<close>, with \<open>None\<close> for an absent key.\<close>

definition get_field :: "fields \<Rightarrow> string \<Rightarrow> json" where
  "get_field kvs k = (case map_of kvs k of Some v \<Rightarrow> v | None \<Rightarrow> JNull)"

fun py_mapping :: "json \<Rightarrow> string \<Rightarrow> protocol_error + fields" where
  "py_mapping (JObj kvs) path = Inr kvs"
| "py_mapping v path = Inl (ExpectedObject path)"

definition missing_fields :: "string list \<Rightarrow> fields \<Rightarrow> string list" where
  "missing_fields req kvs = sorted_set (filter (\<lambda>k. k \<notin> set (field_names kvs)) req)"

definition unknown_fields :: "string list \<Rightarrow> fields \<Rightarrow> string list" where
  "unknown_fields expected kvs = sorted_set (filter (\<lambda>k. k \<notin> set expected) (field_names kvs))"

definition record_fields :: "fields \<Rightarrow> string \<Rightarrow> string list \<Rightarrow> protocol_error + unit" where
  "record_fields kvs path req =
     rbind (ensure (get_field kvs ''schema_version'' = JInt 1) (UnsupportedSchema path)) (\<lambda>_.
     rbind (ensure (missing_fields req kvs = []) (MissingFields path (missing_fields req kvs))) (\<lambda>_.
     ensure (unknown_fields (''schema_version'' # req) kvs = [])
       (UnknownFields path (unknown_fields (''schema_version'' # req) kvs))))"

fun py_string :: "json \<Rightarrow> string \<Rightarrow> protocol_error + string" where
  "py_string (JStr s) path = (if strip s \<noteq> [] then Inr s else Inl (ExpectedString path))"
| "py_string v path = Inl (ExpectedString path)"

fun optional_string :: "json \<Rightarrow> string \<Rightarrow> protocol_error + string option" where
  "optional_string JNull path = Inr None"
| "optional_string v path = rbind (py_string v path) (\<lambda>s. Inr (Some s))"

fun py_integer :: "json \<Rightarrow> string \<Rightarrow> int \<Rightarrow> protocol_error + int" where
  "py_integer (JInt i) path minimum = (if i < minimum then Inl (BelowMinimum path minimum) else Inr i)"
| "py_integer v path minimum = Inl (ExpectedInteger path)"

definition py_choice :: "json \<Rightarrow> string \<Rightarrow> string list \<Rightarrow> protocol_error + string" where
  "py_choice v path choices =
     rbind (py_string v path) (\<lambda>s. if s \<in> set choices then Inr s else Inl (UnsupportedValue path s))"

fun py_sequence :: "json \<Rightarrow> string \<Rightarrow> protocol_error + json list" where
  "py_sequence (JArr vs) path = Inr vs"
| "py_sequence v path = Inl (ExpectedArray path)"

definition item_path :: "string \<Rightarrow> nat \<Rightarrow> string" where
  "item_path path i = path @ ''['' @ nat_str i @ '']''"

definition py_strings :: "json \<Rightarrow> string \<Rightarrow> bool \<Rightarrow> protocol_error + string list" where
  "py_strings v path unique =
     rbind (py_sequence v path) (\<lambda>items.
     rbind (rmap (\<lambda>(i, item). py_string item (item_path path i)) (enumerate 0 items)) (\<lambda>result.
     rbind (ensure (\<not> unique \<or> distinct result) (ValuesNotUnique path)) (\<lambda>_. Inr result)))"

definition recovery_modes :: "string list" where
  "recovery_modes = [''latest'', ''recovery_verified'']"

definition checkpoint_sources :: "string list" where
  "checkpoint_sources = [''gemini'', ''durable'']"

section \<open>Slot assignments\<close>

record slot_assignment =
  sa_slot :: int
  sa_node :: string
  sa_first_rank :: int
  sa_local_size :: int

definition slot_post_init :: "slot_assignment \<Rightarrow> protocol_error + slot_assignment" where
  "slot_post_init a =
     rbind (py_integer (JInt (sa_slot a)) ''SlotAssignment.logical_node_slot'' 0) (\<lambda>_.
     rbind (py_string (JStr (sa_node a)) ''SlotAssignment.node_id'') (\<lambda>_.
     rbind (py_integer (JInt (sa_first_rank a)) ''SlotAssignment.first_global_rank'' 0) (\<lambda>_.
     rbind (py_integer (JInt (sa_local_size a)) ''SlotAssignment.local_world_size'' 1) (\<lambda>_.
     Inr a))))"

definition slot_to_dict :: "slot_assignment \<Rightarrow> json" where
  "slot_to_dict a = JObj
     [(''logical_node_slot'', JInt (sa_slot a)),
      (''node_id'', JStr (sa_node a)),
      (''first_global_rank'', JInt (sa_first_rank a)),
      (''local_world_size'', JInt (sa_local_size a))]"

definition slot_required :: "string list" where
  "slot_required = [''logical_node_slot'', ''node_id'', ''first_global_rank'', ''local_world_size'']"

definition slot_from_dict :: "fields \<Rightarrow> protocol_error + slot_assignment" where
  "slot_from_dict kvs =
     rbind (ensure (missing_fields slot_required kvs = [])
       (MissingFields ''SlotAssignment'' (missing_fields slot_required kvs))) (\<lambda>_.
     rbind (ensure (unknown_fields slot_required kvs = [])
       (UnknownFields ''SlotAssignment'' (unknown_fields slot_required kvs))) (\<lambda>_.
     rbind (py_integer (get_field kvs ''logical_node_slot'') ''SlotAssignment.logical_node_slot'' 0) (\<lambda>slot.
     rbind (py_string (get_field kvs ''node_id'') ''SlotAssignment.node_id'') (\<lambda>node.
     rbind (py_integer (get_field kvs ''first_global_rank'') ''SlotAssignment.first_global_rank'' 0) (\<lambda>first.
     rbind (py_integer (get_field kvs ''local_world_size'') ''SlotAssignment.local_world_size'' 1) (\<lambda>local.
     slot_post_init \<lparr>sa_slot = slot, sa_node = node, sa_first_rank = first, sa_local_size = local\<rparr>))))))"

text \<open>The checks \<open>_assignments\<close> makes on the records, and its sorted result.\<close>

definition check_assignments ::
  "string \<Rightarrow> slot_assignment list \<Rightarrow> protocol_error + slot_assignment list" where
  "check_assignments path xs =
     rbind (ensure (xs \<noteq> []) (NoAssignments path)) (\<lambda>_.
     let slots = map sa_slot xs in
     rbind (ensure (distinct slots) (SlotsNotUnique path)) (\<lambda>_.
     rbind (ensure (set slots = set (map int [0..<length slots])) (SlotsNotDense path)) (\<lambda>_.
     rbind (ensure (distinct (map sa_node xs)) (NodesNotUnique path)) (\<lambda>_.
     rbind (ensure (length (remdups (map sa_local_size xs)) = 1) (LocalSizesDiffer path)) (\<lambda>_.
     let local = sa_local_size (hd xs) in
     rbind (rmap (\<lambda>a. ensure (sa_first_rank a = sa_slot a * local)
         (WrongFirstRank path (sa_slot a) (sa_slot a * local))) xs) (\<lambda>_.
     Inr (sort_key sa_slot xs)))))))"

definition parse_assignments :: "json \<Rightarrow> string \<Rightarrow> protocol_error + slot_assignment list" where
  "parse_assignments v path =
     rbind (py_sequence v path) (\<lambda>items.
     rbind (rmap (\<lambda>(i, item). rbind (py_mapping item (item_path path i)) slot_from_dict)
        (enumerate 0 items)) (check_assignments path))"

section \<open>Restart plans\<close>

record restart_plan =
  rp_plan_id :: string
  rp_intent_id :: string
  rp_run_id :: string
  rp_from_generation :: int
  rp_to_generation :: int
  rp_incident_ids :: "string list"
  rp_reason_code :: string
  rp_recovery_mode :: string
  rp_checkpoint_source :: string
  rp_checkpoint_step :: int
  rp_checkpoint_id :: "string option"
  rp_checkpoint_manifest_id :: string
  rp_slot_assignments :: "slot_assignment list"
  rp_quarantined_node_ids :: "string list"
  rp_expected_world_size :: int
  rp_topology_digest :: string
  rp_restart_deadline_unix_ms :: int

fun opt_str :: "string option \<Rightarrow> json" where
  "opt_str None = JNull"
| "opt_str (Some s) = JStr s"

definition str_list :: "string list \<Rightarrow> json" where
  "str_list xs = JArr (map JStr xs)"

text \<open>The checkpoint fields shared by the plan and the context.\<close>

definition check_checkpoint_id :: "string \<Rightarrow> string \<Rightarrow> string option \<Rightarrow> protocol_error + unit" where
  "check_checkpoint_id path source cid =
     rbind (ensure (\<not> (source = ''durable'' \<and> cid = None)) (DurableRequiresId path)) (\<lambda>_.
     ensure (\<not> (source = ''gemini'' \<and> cid \<noteq> None)) (GeminiForbidsId path))"

definition plan_post_init :: "restart_plan \<Rightarrow> protocol_error + restart_plan" where
  "plan_post_init p =
     rbind (py_string (JStr (rp_plan_id p)) ''RestartPlan.plan_id'') (\<lambda>_.
     rbind (py_string (JStr (rp_intent_id p)) ''RestartPlan.intent_id'') (\<lambda>_.
     rbind (py_string (JStr (rp_run_id p)) ''RestartPlan.run_id'') (\<lambda>_.
     rbind (py_integer (JInt (rp_from_generation p)) ''RestartPlan.from_generation'' 0) (\<lambda>_.
     rbind (py_integer (JInt (rp_to_generation p)) ''RestartPlan.to_generation'' 1) (\<lambda>_.
     rbind (ensure (rp_to_generation p = rp_from_generation p + 1) NotSuccessorGeneration) (\<lambda>_.
     rbind (py_strings (str_list (rp_incident_ids p)) ''RestartPlan.incident_ids'' True) (\<lambda>incidents.
     rbind (ensure (incidents \<noteq> []) NoIncident) (\<lambda>_.
     rbind (py_string (JStr (rp_reason_code p)) ''RestartPlan.reason_code'') (\<lambda>_.
     rbind (py_choice (JStr (rp_recovery_mode p)) ''RestartPlan.recovery_mode'' recovery_modes) (\<lambda>_.
     rbind (py_choice (JStr (rp_checkpoint_source p)) ''RestartPlan.checkpoint_source'' checkpoint_sources) (\<lambda>_.
     rbind (py_integer (JInt (rp_checkpoint_step p)) ''RestartPlan.checkpoint_step'' 1) (\<lambda>_.
     rbind (optional_string (opt_str (rp_checkpoint_id p)) ''RestartPlan.checkpoint_id'') (\<lambda>_.
     rbind (check_checkpoint_id ''RestartPlan.checkpoint_id'' (rp_checkpoint_source p) (rp_checkpoint_id p)) (\<lambda>_.
     rbind (py_string (JStr (rp_checkpoint_manifest_id p)) ''RestartPlan.checkpoint_manifest_id'') (\<lambda>_.
     rbind (check_assignments ''RestartPlan.slot_assignments'' (rp_slot_assignments p)) (\<lambda>assignments.
     rbind (py_strings (str_list (rp_quarantined_node_ids p)) ''RestartPlan.quarantined_node_ids'' True) (\<lambda>quarantined.
     rbind (ensure (\<not> overlaps (map sa_node assignments) quarantined)
       (QuarantinedAssigned (sorted_set (filter (\<lambda>n. n \<in> set quarantined) (map sa_node assignments))))) (\<lambda>_.
     rbind (py_integer (JInt (rp_expected_world_size p)) ''RestartPlan.expected_world_size'' 1) (\<lambda>_.
     rbind (ensure (rp_expected_world_size p = sum_list (map sa_local_size assignments)) WorldSizeMismatch) (\<lambda>_.
     rbind (py_string (JStr (rp_topology_digest p)) ''RestartPlan.topology_digest'') (\<lambda>_.
     rbind (py_integer (JInt (rp_restart_deadline_unix_ms p)) ''RestartPlan.restart_deadline_unix_ms'' 1) (\<lambda>_.
     Inr (p\<lparr>rp_incident_ids := incidents, rp_slot_assignments := assignments,
            rp_quarantined_node_ids := quarantined\<rparr>)))))))))))))))))))))))"

definition plan_to_dict :: "restart_plan \<Rightarrow> json" where
  "plan_to_dict p = JObj
     [(''schema_version'', JInt 1),
      (''plan_id'', JStr (rp_plan_id p)),
      (''intent_id'', JStr (rp_intent_id p)),
      (''run_id'', JStr (rp_run_id p)),
      (''from_generation'', JInt (rp_from_generation p)),
      (''to_generation'', JInt (rp_to_generation p)),
      (''incident_ids'', str_list (rp_incident_ids p)),
      (''reason_code'', JStr (rp_reason_code p)),
      (''recovery_mode'', JStr (rp_recovery_mode p)),
      (''checkpoint_source'', JStr (rp_checkpoint_source p)),
      (''checkpoint_step'', JInt (rp_checkpoint_step p)),
      (''checkpoint_id'', opt_str (rp_checkpoint_id p)),
      (''checkpoint_manifest_id'', JStr (rp_checkpoint_manifest_id p)),
      (''slot_assignments'', JArr (map slot_to_dict (rp_slot_assignments p))),
      (''quarantined_node_ids'', str_list (rp_quarantined_node_ids p)),
      (''expected_world_size'', JInt (rp_expected_world_size p)),
      (''topology_digest'', JStr (rp_topology_digest p)),
      (''restart_deadline_unix_ms'', JInt (rp_restart_deadline_unix_ms p))]"

definition plan_required :: "string list" where
  "plan_required =
     [''plan_id'', ''intent_id'', ''run_id'', ''from_generation'', ''to_generation'', ''incident_ids'',
      ''reason_code'', ''recovery_mode'', ''checkpoint_source'', ''checkpoint_step'', ''checkpoint_id'',
      ''checkpoint_manifest_id'', ''slot_assignments'', ''quarantined_node_ids'', ''expected_world_size'',
      ''topology_digest'', ''restart_deadline_unix_ms'']"

definition plan_from_dict :: "fields \<Rightarrow> protocol_error + restart_plan" where
  "plan_from_dict kvs =
     rbind (record_fields kvs ''RestartPlan'' plan_required) (\<lambda>_.
     rbind (py_string (get_field kvs ''plan_id'') ''RestartPlan.plan_id'') (\<lambda>plan_id.
     rbind (py_string (get_field kvs ''intent_id'') ''RestartPlan.intent_id'') (\<lambda>intent_id.
     rbind (py_string (get_field kvs ''run_id'') ''RestartPlan.run_id'') (\<lambda>run_id.
     rbind (py_integer (get_field kvs ''from_generation'') ''RestartPlan.from_generation'' 0) (\<lambda>from_generation.
     rbind (py_integer (get_field kvs ''to_generation'') ''RestartPlan.to_generation'' 1) (\<lambda>to_generation.
     rbind (py_strings (get_field kvs ''incident_ids'') ''RestartPlan.incident_ids'' True) (\<lambda>incident_ids.
     rbind (py_string (get_field kvs ''reason_code'') ''RestartPlan.reason_code'') (\<lambda>reason_code.
     rbind (py_choice (get_field kvs ''recovery_mode'') ''RestartPlan.recovery_mode'' recovery_modes) (\<lambda>recovery_mode.
     rbind (py_choice (get_field kvs ''checkpoint_source'') ''RestartPlan.checkpoint_source'' checkpoint_sources)
       (\<lambda>checkpoint_source.
     rbind (py_integer (get_field kvs ''checkpoint_step'') ''RestartPlan.checkpoint_step'' 1) (\<lambda>checkpoint_step.
     rbind (optional_string (get_field kvs ''checkpoint_id'') ''RestartPlan.checkpoint_id'') (\<lambda>checkpoint_id.
     rbind (py_string (get_field kvs ''checkpoint_manifest_id'') ''RestartPlan.checkpoint_manifest_id'')
       (\<lambda>checkpoint_manifest_id.
     rbind (parse_assignments (get_field kvs ''slot_assignments'') ''RestartPlan.slot_assignments'') (\<lambda>slot_assignments.
     rbind (py_strings (get_field kvs ''quarantined_node_ids'') ''RestartPlan.quarantined_node_ids'' True)
       (\<lambda>quarantined_node_ids.
     rbind (py_integer (get_field kvs ''expected_world_size'') ''RestartPlan.expected_world_size'' 1)
       (\<lambda>expected_world_size.
     rbind (py_string (get_field kvs ''topology_digest'') ''RestartPlan.topology_digest'') (\<lambda>topology_digest.
     rbind (py_integer (get_field kvs ''restart_deadline_unix_ms'') ''RestartPlan.restart_deadline_unix_ms'' 1)
       (\<lambda>deadline.
     plan_post_init
       \<lparr>rp_plan_id = plan_id, rp_intent_id = intent_id, rp_run_id = run_id,
        rp_from_generation = from_generation, rp_to_generation = to_generation,
        rp_incident_ids = incident_ids, rp_reason_code = reason_code, rp_recovery_mode = recovery_mode,
        rp_checkpoint_source = checkpoint_source, rp_checkpoint_step = checkpoint_step,
        rp_checkpoint_id = checkpoint_id, rp_checkpoint_manifest_id = checkpoint_manifest_id,
        rp_slot_assignments = slot_assignments, rp_quarantined_node_ids = quarantined_node_ids,
        rp_expected_world_size = expected_world_size, rp_topology_digest = topology_digest,
        rp_restart_deadline_unix_ms = deadline\<rparr>))))))))))))))))))"

definition plan_to_json :: "restart_plan \<Rightarrow> string" where
  "plan_to_json p = dumps (plan_to_dict p)"

fun wire_json_error :: "string \<Rightarrow> json_error \<Rightarrow> protocol_error" where
  "wire_json_error cls JSONDecodeError = InvalidJson cls"
| "wire_json_error cls (DuplicateField k) = DuplicateJsonField k"

definition plan_from_json :: "string \<Rightarrow> protocol_error + restart_plan" where
  "plan_from_json encoded =
     rbind (rcatch (wire_json_error ''RestartPlan'') (loads encoded)) (\<lambda>value.
     rbind (py_mapping value ''RestartPlan'') plan_from_dict)"

section \<open>Restart contexts\<close>

record restart_context =
  rc_plan_id :: string
  rc_run_id :: string
  rc_generation :: int
  rc_node_id :: string
  rc_logical_node_slot :: int
  rc_first_global_rank :: int
  rc_local_world_size :: int
  rc_expected_world_size :: int
  rc_topology_digest :: string
  rc_recovery_mode :: string
  rc_checkpoint_source :: string
  rc_checkpoint_step :: int
  rc_checkpoint_id :: "string option"
  rc_checkpoint_manifest_id :: string
  rc_reason_code :: string
  rc_restart_deadline_monotonic_ns :: int

definition context_post_init :: "restart_context \<Rightarrow> protocol_error + restart_context" where
  "context_post_init c =
     rbind (py_string (JStr (rc_plan_id c)) ''RestartContext.plan_id'') (\<lambda>_.
     rbind (py_string (JStr (rc_run_id c)) ''RestartContext.run_id'') (\<lambda>_.
     rbind (py_integer (JInt (rc_generation c)) ''RestartContext.generation'' 1) (\<lambda>_.
     rbind (py_string (JStr (rc_node_id c)) ''RestartContext.node_id'') (\<lambda>_.
     rbind (py_integer (JInt (rc_logical_node_slot c)) ''RestartContext.logical_node_slot'' 0) (\<lambda>_.
     rbind (py_integer (JInt (rc_first_global_rank c)) ''RestartContext.first_global_rank'' 0) (\<lambda>_.
     rbind (py_integer (JInt (rc_local_world_size c)) ''RestartContext.local_world_size'' 1) (\<lambda>_.
     rbind (ensure (rc_first_global_rank c = rc_logical_node_slot c * rc_local_world_size c)
       FirstRankMismatch) (\<lambda>_.
     rbind (py_integer (JInt (rc_expected_world_size c)) ''RestartContext.expected_world_size'' 1) (\<lambda>_.
     rbind (ensure (rc_expected_world_size c mod rc_local_world_size c = 0) IncompleteSlots) (\<lambda>_.
     rbind (ensure (rc_first_global_rank c + rc_local_world_size c \<le> rc_expected_world_size c)
       RankRangeExceeds) (\<lambda>_.
     rbind (py_string (JStr (rc_topology_digest c)) ''RestartContext.topology_digest'') (\<lambda>_.
     rbind (py_choice (JStr (rc_recovery_mode c)) ''RestartContext.recovery_mode'' recovery_modes) (\<lambda>_.
     rbind (py_choice (JStr (rc_checkpoint_source c)) ''RestartContext.checkpoint_source'' checkpoint_sources) (\<lambda>_.
     rbind (py_integer (JInt (rc_checkpoint_step c)) ''RestartContext.checkpoint_step'' 1) (\<lambda>_.
     rbind (optional_string (opt_str (rc_checkpoint_id c)) ''RestartContext.checkpoint_id'') (\<lambda>_.
     rbind (check_checkpoint_id ''RestartContext.checkpoint_id'' (rc_checkpoint_source c) (rc_checkpoint_id c)) (\<lambda>_.
     rbind (py_string (JStr (rc_checkpoint_manifest_id c)) ''RestartContext.checkpoint_manifest_id'') (\<lambda>_.
     rbind (py_string (JStr (rc_reason_code c)) ''RestartContext.reason_code'') (\<lambda>_.
     rbind (py_integer (JInt (rc_restart_deadline_monotonic_ns c))
       ''RestartContext.restart_deadline_monotonic_ns'' 1) (\<lambda>_.
     Inr c))))))))))))))))))))"

text \<open>\<open>RestartContext.from_plan\<close>: the first assignment of the node decides.\<close>

definition context_from_plan ::
  "restart_plan \<Rightarrow> string \<Rightarrow> int \<Rightarrow> protocol_error + restart_context" where
  "context_from_plan p node deadline =
     (case find (\<lambda>a. sa_node a = node) (rp_slot_assignments p) of
        None \<Rightarrow> Inl (NodeNotAssigned node)
      | Some a \<Rightarrow> context_post_init
          \<lparr>rc_plan_id = rp_plan_id p, rc_run_id = rp_run_id p, rc_generation = rp_to_generation p,
           rc_node_id = sa_node a, rc_logical_node_slot = sa_slot a,
           rc_first_global_rank = sa_first_rank a, rc_local_world_size = sa_local_size a,
           rc_expected_world_size = rp_expected_world_size p, rc_topology_digest = rp_topology_digest p,
           rc_recovery_mode = rp_recovery_mode p, rc_checkpoint_source = rp_checkpoint_source p,
           rc_checkpoint_step = rp_checkpoint_step p, rc_checkpoint_id = rp_checkpoint_id p,
           rc_checkpoint_manifest_id = rp_checkpoint_manifest_id p, rc_reason_code = rp_reason_code p,
           rc_restart_deadline_monotonic_ns = deadline\<rparr>)"

definition context_to_dict :: "restart_context \<Rightarrow> json" where
  "context_to_dict c = JObj
     [(''schema_version'', JInt 1),
      (''plan_id'', JStr (rc_plan_id c)),
      (''run_id'', JStr (rc_run_id c)),
      (''generation'', JInt (rc_generation c)),
      (''node_id'', JStr (rc_node_id c)),
      (''logical_node_slot'', JInt (rc_logical_node_slot c)),
      (''first_global_rank'', JInt (rc_first_global_rank c)),
      (''local_world_size'', JInt (rc_local_world_size c)),
      (''expected_world_size'', JInt (rc_expected_world_size c)),
      (''topology_digest'', JStr (rc_topology_digest c)),
      (''recovery_mode'', JStr (rc_recovery_mode c)),
      (''checkpoint_source'', JStr (rc_checkpoint_source c)),
      (''checkpoint_step'', JInt (rc_checkpoint_step c)),
      (''checkpoint_id'', opt_str (rc_checkpoint_id c)),
      (''checkpoint_manifest_id'', JStr (rc_checkpoint_manifest_id c)),
      (''reason_code'', JStr (rc_reason_code c)),
      (''restart_deadline_monotonic_ns'', JInt (rc_restart_deadline_monotonic_ns c))]"

definition context_required :: "string list" where
  "context_required =
     [''plan_id'', ''run_id'', ''generation'', ''node_id'', ''logical_node_slot'', ''first_global_rank'',
      ''local_world_size'', ''expected_world_size'', ''topology_digest'', ''recovery_mode'',
      ''checkpoint_source'', ''checkpoint_step'', ''checkpoint_id'', ''checkpoint_manifest_id'',
      ''reason_code'', ''restart_deadline_monotonic_ns'']"

definition context_from_dict :: "fields \<Rightarrow> protocol_error + restart_context" where
  "context_from_dict kvs =
     rbind (record_fields kvs ''RestartContext'' context_required) (\<lambda>_.
     rbind (py_string (get_field kvs ''plan_id'') ''RestartContext.plan_id'') (\<lambda>plan_id.
     rbind (py_string (get_field kvs ''run_id'') ''RestartContext.run_id'') (\<lambda>run_id.
     rbind (py_integer (get_field kvs ''generation'') ''RestartContext.generation'' 1) (\<lambda>generation.
     rbind (py_string (get_field kvs ''node_id'') ''RestartContext.node_id'') (\<lambda>node_id.
     rbind (py_integer (get_field kvs ''logical_node_slot'') ''RestartContext.logical_node_slot'' 0) (\<lambda>slot.
     rbind (py_integer (get_field kvs ''first_global_rank'') ''RestartContext.first_global_rank'' 0) (\<lambda>first.
     rbind (py_integer (get_field kvs ''local_world_size'') ''RestartContext.local_world_size'' 1) (\<lambda>local.
     rbind (py_integer (get_field kvs ''expected_world_size'') ''RestartContext.expected_world_size'' 1) (\<lambda>world.
     rbind (py_string (get_field kvs ''topology_digest'') ''RestartContext.topology_digest'') (\<lambda>topology.
     rbind (py_choice (get_field kvs ''recovery_mode'') ''RestartContext.recovery_mode'' recovery_modes) (\<lambda>mode.
     rbind (py_choice (get_field kvs ''checkpoint_source'') ''RestartContext.checkpoint_source'' checkpoint_sources)
       (\<lambda>source.
     rbind (py_integer (get_field kvs ''checkpoint_step'') ''RestartContext.checkpoint_step'' 1) (\<lambda>step.
     rbind (optional_string (get_field kvs ''checkpoint_id'') ''RestartContext.checkpoint_id'') (\<lambda>cid.
     rbind (py_string (get_field kvs ''checkpoint_manifest_id'') ''RestartContext.checkpoint_manifest_id'') (\<lambda>manifest.
     rbind (py_string (get_field kvs ''reason_code'') ''RestartContext.reason_code'') (\<lambda>reason.
     rbind (py_integer (get_field kvs ''restart_deadline_monotonic_ns'')
       ''RestartContext.restart_deadline_monotonic_ns'' 1) (\<lambda>deadline.
     context_post_init
       \<lparr>rc_plan_id = plan_id, rc_run_id = run_id, rc_generation = generation, rc_node_id = node_id,
        rc_logical_node_slot = slot, rc_first_global_rank = first, rc_local_world_size = local,
        rc_expected_world_size = world, rc_topology_digest = topology, rc_recovery_mode = mode,
        rc_checkpoint_source = source, rc_checkpoint_step = step, rc_checkpoint_id = cid,
        rc_checkpoint_manifest_id = manifest, rc_reason_code = reason,
        rc_restart_deadline_monotonic_ns = deadline\<rparr>)))))))))))))))))"

definition context_to_json :: "restart_context \<Rightarrow> string" where
  "context_to_json c = dumps (context_to_dict c)"

definition context_from_json :: "string \<Rightarrow> protocol_error + restart_context" where
  "context_from_json encoded =
     rbind (rcatch (wire_json_error ''RestartContext'') (loads encoded)) (\<lambda>value.
     rbind (py_mapping value ''RestartContext'') context_from_dict)"

section \<open>What the validators accept\<close>

lemma py_string_JStr [simp]: "py_string (JStr s) path = Inr t \<longleftrightarrow> t = s \<and> strip s \<noteq> []"
  by auto

lemma py_string_Inr_iff: "py_string v path = Inr s \<longleftrightarrow> v = JStr s \<and> strip s \<noteq> []"
  by (cases v) auto

lemma py_integer_Inr_iff: "py_integer v path m = Inr i \<longleftrightarrow> v = JInt i \<and> m \<le> i"
  by (cases v) auto

lemma optional_string_Inr_iff:
  "optional_string v path = Inr c \<longleftrightarrow> v = opt_str c \<and> (\<forall>s. c = Some s \<longrightarrow> strip s \<noteq> [])"
  by (cases v; cases c) (auto simp: rbind_Inr_iff py_string_Inr_iff)

lemma py_choice_Inr_iff:
  "py_choice v path cs = Inr s \<longleftrightarrow> v = JStr s \<and> strip s \<noteq> [] \<and> s \<in> set cs"
  by (auto simp: py_choice_def rbind_Inr_iff py_string_Inr_iff)

lemma opt_str_inject [simp]: "opt_str a = opt_str b \<longleftrightarrow> a = b"
  by (cases a; cases b) auto

lemma rmap_enumerate:
  "rmap (\<lambda>(i, x). f x (g i)) (enumerate n xs) = Inr ys \<longleftrightarrow>
     list_all2 (\<lambda>(i, x) y. f x (g i) = Inr y) (enumerate n xs) ys"
  by (simp add: rmap_Inr_iff case_prod_unfold)

lemma rmap_py_string:
  "rmap (\<lambda>(i, item). py_string item (item_path path i)) (enumerate n vs) = Inr xs \<longleftrightarrow>
     vs = map JStr xs \<and> (\<forall>x \<in> set xs. strip x \<noteq> [])"
  by (induction vs arbitrary: n xs) (auto simp: rbind_Inr_iff py_string_Inr_iff Cons_eq_map_conv)

lemma py_strings_Inr_iff:
  "py_strings v path u = Inr xs \<longleftrightarrow>
     v = str_list xs \<and> (\<forall>x \<in> set xs. strip x \<noteq> []) \<and> (u \<longrightarrow> distinct xs)"
  by (cases v) (auto simp: py_strings_def rbind_Inr_iff rmap_py_string str_list_def)

lemma check_checkpoint_id_Inr [simp]:
  "check_checkpoint_id path src cid = Inr u \<longleftrightarrow>
     (src = ''durable'' \<longrightarrow> cid \<noteq> None) \<and> (src = ''gemini'' \<longrightarrow> cid = None)"
  by (auto simp: check_checkpoint_id_def rbind_Inr_iff)

lemmas validator_iffs =
  py_string_Inr_iff py_integer_Inr_iff optional_string_Inr_iff py_choice_Inr_iff py_strings_Inr_iff

lemma slot_post_init_iff:
  "slot_post_init a = Inr b \<longleftrightarrow> b = a \<and> 0 \<le> sa_slot a \<and> strip (sa_node a) \<noteq> [] \<and>
     0 \<le> sa_first_rank a \<and> 1 \<le> sa_local_size a"
  by (auto simp: slot_post_init_def rbind_Inr_iff)

lemma str_list_inject [simp]: "str_list xs = str_list ys \<longleftrightarrow> xs = ys"
  by (auto simp: str_list_def dest: map_injective intro: injI)

text \<open>The slots are dense, the nodes distinct and every node holds one block of ranks.\<close>

definition assignments_ok :: "slot_assignment list \<Rightarrow> bool" where
  "assignments_ok xs \<longleftrightarrow> xs \<noteq> [] \<and>
     distinct (map sa_slot xs) \<and> set (map sa_slot xs) = int ` {0..<length xs} \<and>
     distinct (map sa_node xs) \<and>
     (\<exists>L. \<forall>a \<in> set xs. sa_local_size a = L \<and> sa_first_rank a = sa_slot a * L)"

lemma one_value_iff: "length (remdups xs) = Suc 0 \<longleftrightarrow> xs \<noteq> [] \<and> (\<forall>x \<in> set xs. x = hd xs)"
proof -
  have "length (remdups xs) = card (set xs)" by (simp add: length_remdups_card_conv)
  moreover have "card (set xs) = Suc 0 \<longleftrightarrow> xs \<noteq> [] \<and> (\<forall>x \<in> set xs. x = hd xs)"
    by (cases xs) (auto simp: card_1_singleton_iff)
  ultimately show ?thesis by simp
qed

lemma rmap_ensure_bind:
  "rbind (rmap (\<lambda>x. ensure (P x) (g x)) xs) (\<lambda>_. Inr z) = Inr y \<longleftrightarrow> (\<forall>x \<in> set xs. P x) \<and> y = z"
  by (induction xs) (auto simp: rbind_Inr_iff)

lemma ensure_bind: "rbind (ensure b e) f = Inr y \<longleftrightarrow> b \<and> f () = Inr y"
  by (simp add: ensure_def)

lemma check_assignments_iff:
  "check_assignments path xs = Inr ys \<longleftrightarrow> assignments_ok xs \<and> ys = sort_key sa_slot xs"
proof (cases "xs = []")
  case False
  let ?L = "sa_local_size (hd xs)"
  have hd: "hd xs \<in> set xs" "hd (map sa_local_size xs) = ?L" using False by (auto simp: hd_map)
  have "(\<forall>x \<in> set (map sa_local_size xs). x = hd (map sa_local_size xs)) \<and>
      (\<forall>a \<in> set xs. sa_first_rank a = sa_slot a * ?L) \<longleftrightarrow>
      (\<exists>L. \<forall>a \<in> set xs. sa_local_size a = L \<and> sa_first_rank a = sa_slot a * L)" (is "?P \<longleftrightarrow> ?Q")
  proof
    show "?P \<Longrightarrow> ?Q" using hd(2) by auto
    show "?Q \<Longrightarrow> ?P" using hd by (metis (no_types, lifting) imageE set_map)
  qed
  moreover have "check_assignments path xs = Inr ys \<longleftrightarrow>
      distinct (map sa_slot xs) \<and> set (map sa_slot xs) = int ` {0..<length xs} \<and>
      distinct (map sa_node xs) \<and> length (remdups (map sa_local_size xs)) = Suc 0 \<and>
      (\<forall>a \<in> set xs. sa_first_rank a = sa_slot a * ?L) \<and> ys = sort_key sa_slot xs"
    using False by (simp add: check_assignments_def Let_def ensure_bind rmap_ensure_bind)
  ultimately show ?thesis
    using False unfolding assignments_ok_def one_value_iff by auto
qed (simp add: check_assignments_def assignments_ok_def)

lemma sort_slots:
  assumes "assignments_ok xs"
  shows "map sa_slot (sort_key sa_slot xs) = map int [0..<length xs]"
proof (rule sorted_distinct_set_unique)
  show "distinct (map sa_slot (sort_key sa_slot xs))"
    using assms by (simp add: assignments_ok_def)
  show "sorted (map int [0..<length xs])"
    by (simp add: sorted_iff_nth_mono)
  show "set (map sa_slot (sort_key sa_slot xs)) = set (map int [0..<length xs])"
    using assms by (simp add: assignments_ok_def)
qed (simp_all add: distinct_map)

lemma assignments_ok_sort: "assignments_ok xs \<Longrightarrow> assignments_ok (sort_key sa_slot xs)"
  by (simp add: assignments_ok_def)

lemma sorted_assignments_nth:
  assumes "assignments_ok xs" "i < length xs"
  shows "sa_slot (sort_key sa_slot xs ! i) = int i"
proof -
  have "sa_slot (sort_key sa_slot xs ! i) = map sa_slot (sort_key sa_slot xs) ! i"
    using assms(2) by simp
  then show ?thesis using assms by (simp add: sort_slots)
qed

text \<open>A plan the constructor accepts.\<close>

definition plan_ok :: "restart_plan \<Rightarrow> bool" where
  "plan_ok p \<longleftrightarrow>
     strip (rp_plan_id p) \<noteq> [] \<and> strip (rp_intent_id p) \<noteq> [] \<and> strip (rp_run_id p) \<noteq> [] \<and>
     0 \<le> rp_from_generation p \<and> rp_to_generation p = rp_from_generation p + 1 \<and>
     rp_incident_ids p \<noteq> [] \<and> distinct (rp_incident_ids p) \<and>
     (\<forall>x \<in> set (rp_incident_ids p). strip x \<noteq> []) \<and>
     strip (rp_reason_code p) \<noteq> [] \<and>
     rp_recovery_mode p \<in> set recovery_modes \<and> rp_checkpoint_source p \<in> set checkpoint_sources \<and>
     1 \<le> rp_checkpoint_step p \<and>
     (\<forall>s. rp_checkpoint_id p = Some s \<longrightarrow> strip s \<noteq> []) \<and>
     (rp_checkpoint_source p = ''durable'' \<longleftrightarrow> rp_checkpoint_id p \<noteq> None) \<and>
     strip (rp_checkpoint_manifest_id p) \<noteq> [] \<and>
     assignments_ok (rp_slot_assignments p) \<and>
     distinct (rp_quarantined_node_ids p) \<and> (\<forall>x \<in> set (rp_quarantined_node_ids p). strip x \<noteq> []) \<and>
     sa_node ` set (rp_slot_assignments p) \<inter> set (rp_quarantined_node_ids p) = {} \<and>
     1 \<le> rp_expected_world_size p \<and>
     rp_expected_world_size p = sum_list (map sa_local_size (rp_slot_assignments p)) \<and>
     strip (rp_topology_digest p) \<noteq> [] \<and> 1 \<le> rp_restart_deadline_unix_ms p"

lemma strip_modes: "m \<in> set recovery_modes \<Longrightarrow> strip m \<noteq> []"
  "s \<in> set checkpoint_sources \<Longrightarrow> strip s \<noteq> []"
  by (auto simp: recovery_modes_def checkpoint_sources_def strip_def py_space_def)

lemma plan_post_init_iff:
  "plan_post_init p = Inr q \<longleftrightarrow>
     plan_ok p \<and> q = p\<lparr>rp_slot_assignments := sort_key sa_slot (rp_slot_assignments p)\<rparr>"
proof -
  have src: "rp_checkpoint_source p \<in> set checkpoint_sources \<Longrightarrow>
      ((rp_checkpoint_source p = ''durable'' \<longrightarrow> rp_checkpoint_id p \<noteq> None) \<and>
       (rp_checkpoint_source p = ''gemini'' \<longrightarrow> rp_checkpoint_id p = None)) =
      (rp_checkpoint_source p = ''durable'' \<longleftrightarrow> rp_checkpoint_id p \<noteq> None)"
    by (auto simp: checkpoint_sources_def)
  show ?thesis
    unfolding plan_post_init_def plan_ok_def
    using src strip_modes
    by (simp add: rbind_Inr_iff validator_iffs check_assignments_iff del: not_None_eq)
      (fastforce simp del: not_None_eq)
qed

lemma plan_post_init_idem: "plan_post_init p = Inr q \<Longrightarrow> plan_post_init q = Inr q"
proof -
  assume "plan_post_init p = Inr q"
  then have ok: "plan_ok p"
    and q: "q = p\<lparr>rp_slot_assignments := sort_key sa_slot (rp_slot_assignments p)\<rparr>"
    by (simp_all add: plan_post_init_iff)
  from ok have "plan_ok q" unfolding q plan_ok_def by (simp add: assignments_ok_sort)
  then show ?thesis by (simp add: plan_post_init_iff q)
qed

lemma plan_post_init_sorted:
  "plan_post_init q = Inr q \<longleftrightarrow> plan_ok q \<and> sorted (map sa_slot (rp_slot_assignments q))"
proof -
  have "q = q\<lparr>rp_slot_assignments := sort_key sa_slot (rp_slot_assignments q)\<rparr> \<longleftrightarrow>
      sort_key sa_slot (rp_slot_assignments q) = rp_slot_assignments q"
    by (cases q) auto
  also have "\<dots> \<longleftrightarrow> sorted (map sa_slot (rp_slot_assignments q))"
    by (metis sorted_sort_key sort_key_id_if_sorted)
  finally show ?thesis by (simp add: plan_post_init_iff)
qed

section \<open>Decoding what was encoded\<close>

definition canon_fields :: "fields \<Rightarrow> fields" where
  "canon_fields kvs = sort_key fst (map (\<lambda>(k, v). (k, canon v)) kvs)"

lemma canon_JObj: "canon (JObj kvs) = JObj (canon_fields kvs)"
  by (simp add: canon_fields_def)

lemma get_field_canon:
  assumes "distinct (map fst kvs)"
  shows "get_field (canon_fields kvs) k = canon (get_field kvs k)"
proof -
  have "map_of (canon_fields kvs) k = map_option canon (map_of kvs k)"
    using assms by (simp add: canon_fields_def sort_key_map_of case_prod_unfold comp_def
        map_of_map [unfolded case_prod_unfold])
  then show ?thesis by (simp add: get_field_def split: option.split)
qed

lemma set_field_names_canon: "set (field_names (canon_fields kvs)) = fst ` set kvs"
  by (force simp: field_names_def canon_fields_def)

lemma missing_fields_Nil: "missing_fields req kvs = [] \<longleftrightarrow> set req \<subseteq> set (field_names kvs)"
  by (auto simp: missing_fields_def filter_empty_conv)

lemma unknown_fields_Nil: "unknown_fields ex kvs = [] \<longleftrightarrow> set (field_names kvs) \<subseteq> set ex"
  by (auto simp: unknown_fields_def filter_empty_conv)

lemma record_fields_canon:
  assumes "distinct (map fst kvs)" "get_field kvs ''schema_version'' = JInt 1"
    "map fst kvs = ''schema_version'' # req"
  shows "record_fields (canon_fields kvs) path req = Inr ()"
proof -
  have "fst ` set kvs = insert ''schema_version'' (set req)"
    using assms(3) by (metis list.simps(15) set_map)
  then show ?thesis
    using assms(1,2)
    by (simp add: record_fields_def get_field_canon missing_fields_Nil unknown_fields_Nil
        set_field_names_canon subset_insertI)
qed

lemma canon_leaves [simp]: "canon (str_list xs) = str_list xs" "canon (opt_str c) = opt_str c"
  by (simp_all add: str_list_def comp_def) (cases c; simp)

lemma slot_from_canon:
  assumes "slot_post_init a = Inr a" "slot_to_dict a = JObj kvs"
  shows "slot_from_dict (canon_fields kvs) = Inr a"
proof -
  have kvs: "kvs = [(''logical_node_slot'', JInt (sa_slot a)), (''node_id'', JStr (sa_node a)),
      (''first_global_rank'', JInt (sa_first_rank a)), (''local_world_size'', JInt (sa_local_size a))]"
    using assms(2) by (simp add: slot_to_dict_def)
  have names: "set (field_names (canon_fields kvs)) = set slot_required"
    by (simp add: set_field_names_canon kvs slot_required_def)
  have get: "get_field (canon_fields kvs) k = canon (get_field kvs k)" for k
    by (rule get_field_canon) (simp add: kvs)
  have ok: "0 \<le> sa_slot a" "strip (sa_node a) \<noteq> []" "0 \<le> sa_first_rank a" "1 \<le> sa_local_size a"
    using assms(1) by (simp_all add: slot_post_init_iff)
  show ?thesis
    using ok assms(1)
    by (simp add: slot_from_dict_def missing_fields_Nil unknown_fields_Nil names get)
      (cases a, simp add: kvs get_field_def)
qed

lemma rmap_slot_from_canon:
  assumes "\<And>a. a \<in> set xs \<Longrightarrow> slot_post_init a = Inr a"
  shows "rmap (\<lambda>(i, item). rbind (py_mapping item (item_path path i)) slot_from_dict)
     (enumerate n (map (canon \<circ> slot_to_dict) xs)) = Inr xs"
  using assms
proof (induction xs arbitrary: n)
  case (Cons a xs)
  obtain kvs where kvs: "slot_to_dict a = JObj kvs" by (simp add: slot_to_dict_def)
  then have "slot_from_dict (canon_fields kvs) = Inr a"
    using Cons.prems by (intro slot_from_canon) auto
  then show ?case
    using Cons kvs by (simp add: canon_JObj del: canon.simps)
qed simp

lemma slot_eta [simp]:
  "\<lparr>sa_slot = sa_slot a, sa_node = sa_node a, sa_first_rank = sa_first_rank a,
     sa_local_size = sa_local_size a\<rparr> = a"
  by (cases a) simp

lemma plan_eta [simp]:
  "\<lparr>rp_plan_id = rp_plan_id p, rp_intent_id = rp_intent_id p, rp_run_id = rp_run_id p,
     rp_from_generation = rp_from_generation p, rp_to_generation = rp_to_generation p, rp_incident_ids = rp_incident_ids p,
     rp_reason_code = rp_reason_code p, rp_recovery_mode = rp_recovery_mode p, rp_checkpoint_source = rp_checkpoint_source p,
     rp_checkpoint_step = rp_checkpoint_step p, rp_checkpoint_id = rp_checkpoint_id p, rp_checkpoint_manifest_id = rp_checkpoint_manifest_id p,
     rp_slot_assignments = rp_slot_assignments p, rp_quarantined_node_ids = rp_quarantined_node_ids p, rp_expected_world_size = rp_expected_world_size p,
     rp_topology_digest = rp_topology_digest p, rp_restart_deadline_unix_ms = rp_restart_deadline_unix_ms p\<rparr> = p"
  by (cases p) simp

lemma context_eta [simp]:
  "\<lparr>rc_plan_id = rc_plan_id c, rc_run_id = rc_run_id c, rc_generation = rc_generation c,
     rc_node_id = rc_node_id c, rc_logical_node_slot = rc_logical_node_slot c, rc_first_global_rank = rc_first_global_rank c,
     rc_local_world_size = rc_local_world_size c, rc_expected_world_size = rc_expected_world_size c, rc_topology_digest = rc_topology_digest c,
     rc_recovery_mode = rc_recovery_mode c, rc_checkpoint_source = rc_checkpoint_source c, rc_checkpoint_step = rc_checkpoint_step c,
     rc_checkpoint_id = rc_checkpoint_id c, rc_checkpoint_manifest_id = rc_checkpoint_manifest_id c, rc_reason_code = rc_reason_code c,
     rc_restart_deadline_monotonic_ns = rc_restart_deadline_monotonic_ns c\<rparr> = c"
  by (cases c) simp

text \<open>An instance of the class: its assignments are instances and its own checks have run.\<close>

definition plan_wf :: "restart_plan \<Rightarrow> bool" where
  "plan_wf p \<longleftrightarrow> list_all (\<lambda>a. slot_post_init a = Inr a) (rp_slot_assignments p) \<and>
     plan_post_init p = Inr p"

definition context_wf :: "restart_context \<Rightarrow> bool" where
  "context_wf c \<longleftrightarrow> context_post_init c = Inr c"

lemma plan_wf_ok: "plan_wf p \<Longrightarrow> plan_ok p"
  by (simp add: plan_wf_def plan_post_init_sorted)

lemma dumpable_leaves [simp]: "dumpable (str_list xs)" "dumpable (opt_str c)"
  by (simp_all add: str_list_def list_all_iff) (cases c; simp)

lemma dumpable_slot [simp]: "dumpable (slot_to_dict a)"
  by (simp add: slot_to_dict_def)

lemma dumpable_plan: "dumpable (plan_to_dict p)"
  by (simp add: plan_to_dict_def list_all_iff)

lemma dumpable_context: "dumpable (context_to_dict c)"
  by (simp add: context_to_dict_def)

lemma py_string_I: "strip s \<noteq> [] \<Longrightarrow> py_string (JStr s) path = Inr s"
  by simp

lemma py_integer_I: "m \<le> i \<Longrightarrow> py_integer (JInt i) path m = Inr i"
  by simp

lemma py_strings_I:
  "\<forall>x \<in> set xs. strip x \<noteq> [] \<Longrightarrow> distinct xs \<Longrightarrow> py_strings (str_list xs) path u = Inr xs"
  by (simp add: py_strings_Inr_iff)

lemma py_choice_I: "s \<in> set cs \<Longrightarrow> strip s \<noteq> [] \<Longrightarrow> py_choice (JStr s) path cs = Inr s"
  by (simp add: py_choice_Inr_iff)

lemma optional_string_I:
  "\<forall>s. c = Some s \<longrightarrow> strip s \<noteq> [] \<Longrightarrow> optional_string (opt_str c) path = Inr c"
  by (simp add: optional_string_Inr_iff)

lemmas validator_intros = py_string_I py_integer_I py_strings_I py_choice_I optional_string_I

lemma plan_from_canon:
  assumes "plan_wf p" "plan_to_dict p = JObj kvs"
  shows "plan_from_dict (canon_fields kvs) = Inr p"
proof -
  note ok = plan_wf_ok [OF assms(1), unfolded plan_ok_def]
  have kvs: "JObj kvs = plan_to_dict p" using assms(2) by simp
  have dist: "distinct (map fst kvs)" using kvs by (simp add: plan_to_dict_def)
  have get: "get_field (canon_fields kvs) k = canon (get_field kvs k)" for k
    using dist by (rule get_field_canon)
  have rec: "record_fields (canon_fields kvs) ''RestartPlan'' plan_required = Inr ()"
    using kvs by (intro record_fields_canon dist)
      (simp_all add: plan_to_dict_def get_field_def plan_required_def)
  have slots: "parse_assignments (canon (get_field kvs ''slot_assignments'')) ''RestartPlan.slot_assignments'' =
      Inr (rp_slot_assignments p)"
  proof -
    have "get_field kvs ''slot_assignments'' = JArr (map slot_to_dict (rp_slot_assignments p))"
      using kvs by (simp add: plan_to_dict_def get_field_def)
    moreover have "sort_key sa_slot (rp_slot_assignments p) = rp_slot_assignments p"
      using assms(1) by (simp add: plan_wf_def plan_post_init_sorted sort_key_id_if_sorted)
    ultimately show ?thesis
      using rmap_slot_from_canon [of "rp_slot_assignments p" "''RestartPlan.slot_assignments''" 0] assms(1) ok
      by (simp add: parse_assignments_def check_assignments_iff plan_wf_def list_all_iff)
  qed
  have strs: "strip (rp_plan_id p) \<noteq> []" "strip (rp_intent_id p) \<noteq> []" "strip (rp_run_id p) \<noteq> []"
    "strip (rp_reason_code p) \<noteq> []" "strip (rp_checkpoint_manifest_id p) \<noteq> []"
    "strip (rp_topology_digest p) \<noteq> []" "\<forall>s. rp_checkpoint_id p = Some s \<longrightarrow> strip s \<noteq> []"
    using ok by simp_all
  have ints: "0 \<le> rp_from_generation p" "1 \<le> rp_to_generation p" "1 \<le> rp_checkpoint_step p"
    "1 \<le> rp_expected_world_size p" "1 \<le> rp_restart_deadline_unix_ms p"
    using ok by simp_all
  have lists: "distinct (rp_incident_ids p)" "\<forall>x \<in> set (rp_incident_ids p). strip x \<noteq> []"
    "distinct (rp_quarantined_node_ids p)" "\<forall>x \<in> set (rp_quarantined_node_ids p). strip x \<noteq> []"
    "rp_recovery_mode p \<in> set recovery_modes" "rp_checkpoint_source p \<in> set checkpoint_sources"
    using ok by simp_all
  have valid: "plan_post_init p = Inr p" using assms(1) by (simp add: plan_wf_def)
  show ?thesis
    unfolding plan_from_dict_def rec get rbind.simps slots
    using kvs strs ints lists valid strip_modes
    by (simp add: plan_to_dict_def get_field_def validator_intros
        del: py_string.simps py_integer.simps)
qed

lemma context_post_init_iff:
  "context_post_init c = Inr d \<longleftrightarrow> d = c \<and>
     strip (rc_plan_id c) \<noteq> [] \<and> strip (rc_run_id c) \<noteq> [] \<and> 1 \<le> rc_generation c \<and>
     strip (rc_node_id c) \<noteq> [] \<and> 0 \<le> rc_logical_node_slot c \<and> 0 \<le> rc_first_global_rank c \<and>
     1 \<le> rc_local_world_size c \<and>
     rc_first_global_rank c = rc_logical_node_slot c * rc_local_world_size c \<and>
     1 \<le> rc_expected_world_size c \<and> rc_expected_world_size c mod rc_local_world_size c = 0 \<and>
     rc_first_global_rank c + rc_local_world_size c \<le> rc_expected_world_size c \<and>
     strip (rc_topology_digest c) \<noteq> [] \<and>
     rc_recovery_mode c \<in> set recovery_modes \<and> rc_checkpoint_source c \<in> set checkpoint_sources \<and>
     1 \<le> rc_checkpoint_step c \<and> (\<forall>s. rc_checkpoint_id c = Some s \<longrightarrow> strip s \<noteq> []) \<and>
     (rc_checkpoint_source c = ''durable'' \<longrightarrow> rc_checkpoint_id c \<noteq> None) \<and>
     (rc_checkpoint_source c = ''gemini'' \<longrightarrow> rc_checkpoint_id c = None) \<and>
     strip (rc_checkpoint_manifest_id c) \<noteq> [] \<and> strip (rc_reason_code c) \<noteq> [] \<and>
     1 \<le> rc_restart_deadline_monotonic_ns c"
  unfolding context_post_init_def
  using strip_modes
  by (simp add: rbind_Inr_iff validator_iffs del: not_None_eq) (fastforce simp del: not_None_eq)

lemma context_from_canon:
  assumes "context_wf c" "context_to_dict c = JObj kvs"
  shows "context_from_dict (canon_fields kvs) = Inr c"
proof -
  have valid: "context_post_init c = Inr c" using assms(1) by (simp add: context_wf_def)
  note ok = valid [unfolded context_post_init_iff]
  have kvs: "JObj kvs = context_to_dict c" using assms(2) by simp
  have dist: "distinct (map fst kvs)" using kvs by (simp add: context_to_dict_def)
  have get: "get_field (canon_fields kvs) k = canon (get_field kvs k)" for k
    using dist by (rule get_field_canon)
  have rec: "record_fields (canon_fields kvs) ''RestartContext'' context_required = Inr ()"
    using kvs by (intro record_fields_canon dist)
      (simp_all add: context_to_dict_def get_field_def context_required_def)
  have strs: "strip (rc_plan_id c) \<noteq> []" "strip (rc_node_id c) \<noteq> []" "strip (rc_run_id c) \<noteq> []"
    "strip (rc_reason_code c) \<noteq> []" "strip (rc_checkpoint_manifest_id c) \<noteq> []"
    "strip (rc_topology_digest c) \<noteq> []" "\<forall>s. rc_checkpoint_id c = Some s \<longrightarrow> strip s \<noteq> []"
    "rc_recovery_mode c \<in> set recovery_modes" "rc_checkpoint_source c \<in> set checkpoint_sources"
    using ok by blast+
  have ints: "1 \<le> rc_generation c" "0 \<le> rc_logical_node_slot c" "0 \<le> rc_first_global_rank c"
    "1 \<le> rc_local_world_size c" "1 \<le> rc_expected_world_size c" "1 \<le> rc_checkpoint_step c"
    "1 \<le> rc_restart_deadline_monotonic_ns c"
    using ok by blast+
  show ?thesis
    unfolding context_from_dict_def rec get rbind.simps
    using kvs strs ints valid strip_modes
    by (simp add: context_to_dict_def get_field_def validator_intros
        del: py_string.simps py_integer.simps)
qed

lemma obj_of_plan: "\<exists>kvs. plan_to_dict p = JObj kvs"
  by (simp add: plan_to_dict_def)

lemma obj_of_context: "\<exists>kvs. context_to_dict c = JObj kvs"
  by (simp add: context_to_dict_def)

text \<open>The value a stored plan document decodes to, and what the record decoder makes of it.\<close>

lemma loads_plan [decode_simps]:
  assumes "plan_wf p"
  obtains kvs where "loads (plan_to_json p) = Inr (JObj kvs)" "plan_from_dict kvs = Inr p"
proof -
  obtain kvs where kvs: "plan_to_dict p = JObj kvs" using obj_of_plan by blast
  have "loads (plan_to_json p) = Inr (JObj (canon_fields kvs))"
    using loads_dumps [OF dumpable_plan, of p] kvs by (simp add: plan_to_json_def canon_fields_def)
  with plan_from_canon [OF assms kvs] that show thesis by blast
qed

lemma loads_context:
  assumes "context_wf c"
  obtains kvs where "loads (context_to_json c) = Inr (JObj kvs)" "context_from_dict kvs = Inr c"
proof -
  obtain kvs where kvs: "context_to_dict c = JObj kvs" using obj_of_context by blast
  have "loads (context_to_json c) = Inr (JObj (canon_fields kvs))"
    using loads_dumps [OF dumpable_context, of c] kvs by (simp add: context_to_json_def canon_fields_def)
  with context_from_canon [OF assms kvs] that show thesis by blast
qed

lemma slot_from_dict_valid: "slot_from_dict kvs = Inr a \<Longrightarrow> slot_post_init a = Inr a"
  by (auto simp: slot_from_dict_def rbind_Inr_iff slot_post_init_iff)

lemma rmap_slots_valid:
  "rmap (\<lambda>(i, item). rbind (py_mapping item (item_path path i)) slot_from_dict) (enumerate n items) = Inr xs
   \<Longrightarrow> a \<in> set xs \<Longrightarrow> slot_post_init a = Inr a"
  by (induction items arbitrary: n xs) (auto simp: rbind_Inr_iff dest: slot_from_dict_valid)

lemma parse_assignments_valid:
  "parse_assignments v path = Inr xs \<Longrightarrow> a \<in> set xs \<Longrightarrow> slot_post_init a = Inr a"
  by (auto simp: parse_assignments_def rbind_Inr_iff check_assignments_iff dest: rmap_slots_valid)

lemma plan_from_dict_wf: "plan_from_dict kvs = Inr p \<Longrightarrow> plan_wf p"
proof -
  assume "plan_from_dict kvs = Inr p"
  then obtain q xs where q: "plan_post_init q = Inr p" "rp_slot_assignments q = xs"
    and xs: "parse_assignments (get_field kvs ''slot_assignments'') ''RestartPlan.slot_assignments'' = Inr xs"
    by (auto simp: plan_from_dict_def rbind_Inr_iff)
  have "set (rp_slot_assignments p) = set xs" using q by (auto simp: plan_post_init_iff)
  then show ?thesis
    using plan_post_init_idem [OF q(1)] parse_assignments_valid [OF xs]
    by (simp add: plan_wf_def list_all_iff)
qed

lemma plan_world_size:
  assumes "plan_wf p"
  obtains L where "1 \<le> L" "rp_expected_world_size p = int (length (rp_slot_assignments p)) * L"
    "\<And>a. a \<in> set (rp_slot_assignments p) \<Longrightarrow> sa_local_size a = L \<and> sa_first_rank a = sa_slot a * L"
    "\<And>i. i < length (rp_slot_assignments p) \<Longrightarrow> sa_slot (rp_slot_assignments p ! i) = int i"
proof -
  let ?xs = "rp_slot_assignments p"
  have ok: "plan_ok p" using assms by (rule plan_wf_ok)
  then have ao: "assignments_ok ?xs" by (simp add: plan_ok_def)
  then obtain L where L: "\<forall>a \<in> set ?xs. sa_local_size a = L \<and> sa_first_rank a = sa_slot a * L"
    by (auto simp: assignments_ok_def)
  have "hd ?xs \<in> set ?xs" using ao by (simp add: assignments_ok_def)
  then have "1 \<le> L" using L assms by (auto simp: plan_wf_def list_all_iff slot_post_init_iff)
  moreover have "sum_list (map sa_local_size ?xs) = int (length ?xs) * L"
  proof -
    have "map sa_local_size ?xs = replicate (length ?xs) L"
      using L by (intro nth_equalityI) auto
    then show ?thesis by (simp add: sum_list_replicate)
  qed
  moreover have "sort_key sa_slot ?xs = ?xs"
    using assms by (simp add: plan_wf_def plan_post_init_sorted sort_key_id_if_sorted)
  ultimately show thesis
    using that L ok sorted_assignments_nth [OF ao] by (auto simp: plan_ok_def)
qed

lemma plan_decision_ok:
  assumes "plan_ok p"
  shows "strip (rp_plan_id p) \<noteq> []" "strip (rp_run_id p) \<noteq> []" "1 \<le> rp_to_generation p"
    "1 \<le> rp_expected_world_size p" "strip (rp_topology_digest p) \<noteq> []"
    "rp_recovery_mode p \<in> set recovery_modes" "rp_checkpoint_source p \<in> set checkpoint_sources"
    "1 \<le> rp_checkpoint_step p" "\<forall>s. rp_checkpoint_id p = Some s \<longrightarrow> strip s \<noteq> []"
    "rp_checkpoint_source p = ''durable'' \<longrightarrow> rp_checkpoint_id p \<noteq> None"
    "rp_checkpoint_source p = ''gemini'' \<longrightarrow> rp_checkpoint_id p = None"
    "strip (rp_checkpoint_manifest_id p) \<noteq> []" "strip (rp_reason_code p) \<noteq> []"
  using assms unfolding plan_ok_def by (auto simp del: not_None_eq)

lemma find_assignment:
  assumes "distinct (map f xs)" "a \<in> set xs"
  shows "find (\<lambda>b. f b = f a) xs = Some a"
  using assms by (induction xs) auto

section \<open>Properties of the recovery records\<close>

definition example_slots :: "slot_assignment list" where
  "example_slots =
     [\<lparr>sa_slot = 0, sa_node = ''node-a'', sa_first_rank = 0, sa_local_size = 8\<rparr>,
      \<lparr>sa_slot = 1, sa_node = ''node-b'', sa_first_rank = 8, sa_local_size = 8\<rparr>]"

definition example_plan :: restart_plan where
  "example_plan =
     \<lparr>rp_plan_id = ''plan-1'', rp_intent_id = ''incident-1'', rp_run_id = ''run'',
      rp_from_generation = 0, rp_to_generation = 1, rp_incident_ids = [''incident-1''],
      rp_reason_code = ''sdc'', rp_recovery_mode = ''recovery_verified'',
      rp_checkpoint_source = ''gemini'', rp_checkpoint_step = 40, rp_checkpoint_id = None,
      rp_checkpoint_manifest_id = ''manifest'', rp_slot_assignments = example_slots,
      rp_quarantined_node_ids = [''node-c''], rp_expected_world_size = 16,
      rp_topology_digest = ''topology'', rp_restart_deadline_unix_ms = 1000\<rparr>"

lemma example_plan_ok: "plan_ok example_plan"
  by (auto simp: plan_ok_def example_plan_def example_slots_def assignments_ok_def strip_def py_space_def
      recovery_modes_def checkpoint_sources_def)

lemma example_plan_wf: "plan_wf example_plan"
  using example_plan_ok unfolding plan_wf_def plan_post_init_sorted
  by (simp add: example_plan_def example_slots_def slot_post_init_iff strip_def py_space_def)

text \<open>C28: A recovery plan survives the wire: decoding the JSON text of a constructed
  \<open>RestartPlan\<close> gives that plan back, field by field.\<close>

theorem plan_json_round_trip:
  assumes "plan_wf p"
  shows "plan_from_json (plan_to_json p) = Inr p"
  by (rule loads_plan [OF assms]) (simp add: plan_from_json_def)

theorem plan_json_round_trip_witness:
  "plan_wf example_plan \<and> plan_from_json (plan_to_json example_plan) = Inr example_plan"
  using example_plan_wf plan_json_round_trip [OF example_plan_wf] by simp

text \<open>C29: Whatever text is received, a plan that \<open>from_json\<close> returns is a valid instance:
  its generation is the successor, its slots are dense and sorted, its nodes are distinct and
  none of them is quarantined, and running the constructor's checks again changes nothing.\<close>

theorem plan_from_json_valid:
  assumes "plan_from_json text = Inr p"
  shows "plan_post_init p = Inr p \<and>
    rp_to_generation p = rp_from_generation p + 1 \<and>
    map sa_slot (rp_slot_assignments p) = map int [0..<length (rp_slot_assignments p)] \<and>
    distinct (map sa_node (rp_slot_assignments p)) \<and>
    sa_node ` set (rp_slot_assignments p) \<inter> set (rp_quarantined_node_ids p) = {}"
proof -
  obtain kvs where "plan_from_dict kvs = Inr p"
    using assms by (auto simp: plan_from_json_def rbind_Inr_iff)
  then have wf: "plan_wf p" by (rule plan_from_dict_wf)
  then have ok: "plan_ok p" by (rule plan_wf_ok)
  then have ao: "assignments_ok (rp_slot_assignments p)" by (simp add: plan_ok_def)
  have init: "plan_post_init p = Inr p" using wf by (simp add: plan_wf_def)
  then have "sort_key sa_slot (rp_slot_assignments p) = rp_slot_assignments p"
    by (simp add: plan_post_init_sorted sort_key_id_if_sorted)
  then have "map sa_slot (rp_slot_assignments p) = map int [0..<length (rp_slot_assignments p)]"
    using sort_slots [OF ao] by simp
  with init ok ao show ?thesis by (simp add: plan_ok_def assignments_ok_def)
qed

theorem plan_from_json_valid_witness:
  "plan_from_json (plan_to_json example_plan) = Inr example_plan \<and>
   plan_post_init example_plan = Inr example_plan"
proof -
  have "plan_from_json (plan_to_json example_plan) = Inr example_plan"
    by (rule loads_plan [OF example_plan_wf]) (simp add: plan_from_json_def)
  with plan_from_json_valid [OF this] show ?thesis by simp
qed

text \<open>The slot assignments of a plan tile the global ranks: every rank below the expected
  world size lies in the block of exactly one assigned node.\<close>

theorem plan_ranks_partition:
  assumes "plan_wf p" "0 \<le> r" "r < rp_expected_world_size p"
  shows "\<exists>!a. a \<in> set (rp_slot_assignments p) \<and>
     sa_first_rank a \<le> r \<and> r < sa_first_rank a + sa_local_size a"
proof -
  let ?xs = "rp_slot_assignments p"
  obtain L where L: "1 \<le> L" "rp_expected_world_size p = int (length ?xs) * L"
    and loc: "\<And>a. a \<in> set ?xs \<Longrightarrow> sa_local_size a = L \<and> sa_first_rank a = sa_slot a * L"
    and slot: "\<And>i. i < length ?xs \<Longrightarrow> sa_slot (?xs ! i) = int i"
    using plan_world_size [OF assms(1)] by metis
  have block: "sa_first_rank a \<le> r \<and> r < sa_first_rank a + sa_local_size a \<longleftrightarrow> sa_slot a = r div L"
    if "a \<in> set ?xs" for a
    using loc [OF that] div_block [of L "sa_slot a" r] L(1) by auto
  have "r div L < int (length ?xs)"
    using assms(3) L div_block [of L "r div L" r]
    by (metis int_one_le_iff_zero_less mult_less_cancel_right_pos order_le_less_trans)
  moreover have "0 \<le> r div L" using assms(2) L(1) by (simp add: pos_imp_zdiv_nonneg_iff)
  ultimately have i: "nat (r div L) < length ?xs" "int (nat (r div L)) = r div L" by auto
  have "b = ?xs ! nat (r div L)" if "b \<in> set ?xs" "sa_slot b = r div L" for b
  proof -
    from that(1) obtain j where j: "j < length ?xs" "b = ?xs ! j" by (metis in_set_conv_nth)
    then have "int j = r div L" using slot that(2) by metis
    then show ?thesis using j by (metis nat_int)
  qed
  with i block slot show ?thesis by (intro ex1I [of _ "?xs ! nat (r div L)"]) auto
qed

theorem plan_ranks_partition_witness:
  "\<exists>!a. a \<in> set (rp_slot_assignments example_plan) \<and> sa_first_rank a \<le> 11 \<and> 11 < sa_first_rank a + sa_local_size a"
  by (rule plan_ranks_partition [OF example_plan_wf]) (simp_all add: example_plan_def)

lemma context_of_assigned:
  assumes "plan_wf p" "1 \<le> deadline"
  shows "node \<notin> sa_node ` set (rp_slot_assignments p) \<Longrightarrow>
      context_from_plan p node deadline = Inl (NodeNotAssigned node)"
    and "node \<in> sa_node ` set (rp_slot_assignments p) \<Longrightarrow>
      \<exists>c. context_from_plan p node deadline = Inr c \<and> rc_node_id c = node \<and>
        rc_generation c = rp_to_generation p \<and> rc_checkpoint_source c = rp_checkpoint_source p \<and>
        rc_checkpoint_step c = rp_checkpoint_step p \<and> rc_checkpoint_id c = rp_checkpoint_id p \<and>
        rc_recovery_mode c = rp_recovery_mode p \<and>
        0 \<le> rc_first_global_rank c \<and>
        rc_first_global_rank c + rc_local_world_size c \<le> rp_expected_world_size p"
proof -
  let ?xs = "rp_slot_assignments p"
  show "context_from_plan p node deadline = Inl (NodeNotAssigned node)" if "node \<notin> sa_node ` set ?xs"
  proof -
    have "find (\<lambda>a. sa_node a = node) ?xs = None" using that by (auto simp: find_None_iff)
    then show ?thesis by (simp add: context_from_plan_def)
  qed
  assume "node \<in> sa_node ` set ?xs"
  then obtain a where a: "a \<in> set ?xs" "sa_node a = node" by auto
  have ok: "plan_ok p" using assms(1) by (rule plan_wf_ok)
  have "find (\<lambda>b. sa_node b = node) ?xs = Some a"
    using find_assignment [of sa_node ?xs a] ok a by (simp add: plan_ok_def assignments_ok_def)
  moreover obtain L where L: "1 \<le> L" "rp_expected_world_size p = int (length ?xs) * L"
    and loc: "sa_local_size a = L" "sa_first_rank a = sa_slot a * L"
    using plan_world_size [OF assms(1)] a(1) by metis
  moreover have "rp_expected_world_size p mod L = 0" using L(2) by simp
  moreover have "slot_post_init a = Inr a" using assms(1) a by (simp add: plan_wf_def list_all_iff)
  moreover have "sa_slot a \<in> int ` {0..<length ?xs}"
    using ok a(1) unfolding plan_ok_def assignments_ok_def by (metis image_eqI list.set_map)
  then have "sa_slot a + 1 \<le> int (length ?xs)" by auto
  then have "sa_slot a * L + L \<le> int (length ?xs) * L"
    using L(1) mult_right_mono [of "sa_slot a + 1" "int (length ?xs)" L] by (simp add: algebra_simps)
  ultimately show "\<exists>c. context_from_plan p node deadline = Inr c \<and> rc_node_id c = node \<and>
        rc_generation c = rp_to_generation p \<and> rc_checkpoint_source c = rp_checkpoint_source p \<and>
        rc_checkpoint_step c = rp_checkpoint_step p \<and> rc_checkpoint_id c = rp_checkpoint_id p \<and>
        rc_recovery_mode c = rp_recovery_mode p \<and> 0 \<le> rc_first_global_rank c \<and>
        rc_first_global_rank c + rc_local_world_size c \<le> rp_expected_world_size p"
    using a(2) assms(2) plan_decision_ok [OF ok]
    by (simp add: context_from_plan_def context_post_init_iff slot_post_init_iff del: not_None_eq)
qed

text \<open>\<open>RestartContext.from_plan\<close> gives every assigned node its context and no other node
  any: for an assigned node the construction cannot fail, the context carries the plan's
  checkpoint decision and generation, and its rank block lies inside the expected world size.\<close>

theorem context_from_plan_assigned:
  assumes "plan_wf p" "1 \<le> deadline"
  shows "(node \<notin> sa_node ` set (rp_slot_assignments p) \<longrightarrow>
      context_from_plan p node deadline = Inl (NodeNotAssigned node)) \<and>
    (node \<in> sa_node ` set (rp_slot_assignments p) \<longrightarrow>
      (\<exists>c. context_from_plan p node deadline = Inr c \<and> rc_node_id c = node \<and>
        rc_generation c = rp_to_generation p \<and> rc_checkpoint_source c = rp_checkpoint_source p \<and>
        rc_checkpoint_step c = rp_checkpoint_step p \<and> rc_checkpoint_id c = rp_checkpoint_id p \<and>
        rc_recovery_mode c = rp_recovery_mode p \<and>
        0 \<le> rc_first_global_rank c \<and>
        rc_first_global_rank c + rc_local_world_size c \<le> rp_expected_world_size p))"
  using context_of_assigned [OF assms] by blast

theorem context_from_plan_assigned_witness:
  "context_from_plan example_plan ''node-z'' 5 = Inl (NodeNotAssigned ''node-z'') \<and>
   (\<exists>c. context_from_plan example_plan ''node-b'' 5 = Inr c \<and> rc_node_id c = ''node-b'')"
  using context_from_plan_assigned [OF example_plan_wf, of 5 "''node-z''"]
    context_from_plan_assigned [OF example_plan_wf, of 5 "''node-b''"]
  by (auto simp: example_plan_def example_slots_def)

text \<open>A worker reads back exactly the restart context that was written for it.\<close>

theorem context_json_round_trip:
  assumes "context_wf c"
  shows "context_from_json (context_to_json c) = Inr c"
  by (rule loads_context [OF assms]) (simp add: context_from_json_def)

theorem context_json_round_trip_witness:
  "\<exists>c. context_from_plan example_plan ''node-b'' 5 = Inr c \<and> context_from_json (context_to_json c) = Inr c"
proof -
  have "\<exists>c. context_from_plan example_plan ''node-b'' 5 = Inr c \<and> context_wf c"
    by (simp add: context_from_plan_def example_plan_def example_slots_def context_wf_def
        context_post_init_iff strip_def py_space_def recovery_modes_def checkpoint_sources_def)
  then show ?thesis using context_json_round_trip by blast
qed

end
