(* ===== verification/Store.thy ===== *)
theory Store
  imports Prelude
begin

text \<open>
  The c10d key-value store (\<open>torch.distributed.Store\<close>) is not part of the repository. The
  definitions that use it take its operations as a record \<open>store_ops\<close> over an abstract state,
  and the locale \<open>c10d_store\<close> names the documented behaviour they rely on: \<open>set\<close> overwrites,
  \<open>compare_set\<close> writes exactly when the current value is the expected one (an absent key
  counts as the empty value) and returns the value then stored, \<open>append\<close> extends, \<open>add\<close> counts
  in decimal and touches no other key, and \<open>check\<close> asks for the presence of every key. \<open>get\<close> of an absent key is
  \<open>None\<close>: the call blocks and raises when its timeout expires.

  \<open>hash_store\<close> is the in-process store of that library, a finite map from keys to values.
\<close>

record 's store_ops =
  store_get :: "'s \<Rightarrow> string \<Rightarrow> bytes option"
  store_set :: "'s \<Rightarrow> string \<Rightarrow> bytes \<Rightarrow> 's"
  store_compare_set :: "'s \<Rightarrow> string \<Rightarrow> bytes \<Rightarrow> bytes \<Rightarrow> 's \<times> bytes"
  store_append :: "'s \<Rightarrow> string \<Rightarrow> bytes \<Rightarrow> 's"
  store_add :: "'s \<Rightarrow> string \<Rightarrow> int \<Rightarrow> 's \<times> int"
  store_check :: "'s \<Rightarrow> string list \<Rightarrow> bool"

text \<open>What a reader sees of a store: the value of each key.\<close>

abbreviation view :: "'s store_ops \<Rightarrow> 's \<Rightarrow> string \<Rightarrow> bytes option" where
  "view so s \<equiv> store_get so s"

definition the_bytes :: "bytes option \<Rightarrow> bytes" where
  "the_bytes v = (case v of None \<Rightarrow> [] | Some b \<Rightarrow> b)"

locale c10d_store =
  fixes so :: "'s store_ops"
  assumes get_set: "view so (store_set so s k v) = (view so s)(k := Some v)"
    and compare_set_hit:
      "the_bytes (view so s k) = e \<Longrightarrow> snd (store_compare_set so s k e d) = d"
      "the_bytes (view so s k) = e \<Longrightarrow>
         view so (fst (store_compare_set so s k e d)) = (view so s)(k := Some d)"
    and compare_set_miss:
      "view so s k = Some c \<Longrightarrow> c \<noteq> e \<Longrightarrow> snd (store_compare_set so s k e d) = c"
      "view so s k = Some c \<Longrightarrow> c \<noteq> e \<Longrightarrow>
         view so (fst (store_compare_set so s k e d)) = view so s"
    and get_append: "view so (store_append so s k v) = (view so s)(k := Some (the_bytes (view so s k) @ v))"
    and add_new: "view so s k = None \<Longrightarrow> snd (store_add so s k n) = n"
      "view so s k = None \<Longrightarrow> view so (fst (store_add so s k n)) = (view so s)(k := Some (int_str n))"
    and add_more: "view so s k = Some (int_str m) \<Longrightarrow> snd (store_add so s k n) = m + n"
      "view so s k = Some (int_str m) \<Longrightarrow>
         view so (fst (store_add so s k n)) = (view so s)(k := Some (int_str (m + n)))"
    and add_frame: "j \<noteq> k \<Longrightarrow> view so (fst (store_add so s k n)) j = view so s j"
    and check_iff: "store_check so s ks \<longleftrightarrow> (\<forall>k \<in> set ks. view so s k \<noteq> None)"
begin

lemmas store_views =
  get_set get_append compare_set_hit compare_set_miss add_new add_more check_iff

text \<open>A \<open>compare_set\<close> against the empty value: the first writer wins and everyone reads it.\<close>

lemma compare_set_create:
  assumes "view so s k = None \<or> (\<exists>c. view so s k = Some c \<and> c \<noteq> [])"
  shows "snd (store_compare_set so s k [] d) = (case view so s k of None \<Rightarrow> d | Some c \<Rightarrow> c)"
    and "view so (fst (store_compare_set so s k [] d)) =
      (case view so s k of None \<Rightarrow> (view so s)(k := Some d) | Some c \<Rightarrow> view so s)"
  using assms compare_set_hit [of s k "[]" d] compare_set_miss [of s k _ "[]" d]
  by (auto simp: the_bytes_def split: option.splits)

text \<open>Whatever it finds, a \<open>compare_set\<close> touches its own key only.\<close>

lemma compare_set_frame:
  assumes "view so s k \<noteq> None \<or> e = []" "j \<noteq> k"
  shows "view so (fst (store_compare_set so s k e d)) j = view so s j"
proof (cases "the_bytes (view so s k) = e")
  case True
  then show ?thesis using compare_set_hit(2) assms(2) by simp
next
  case False
  with assms(1) obtain c where "view so s k = Some c" "c \<noteq> e"
    by (auto simp: the_bytes_def split: option.splits)
  then show ?thesis using compare_set_miss(2) by simp
qed

end

definition hash_store :: "(string \<rightharpoonup> bytes) store_ops" where
  "hash_store =
     \<lparr>store_get = (\<lambda>s k. s k),
      store_set = (\<lambda>s k v. s(k \<mapsto> v)),
      store_compare_set = (\<lambda>s k e d.
        if the_bytes (s k) = e then (s(k \<mapsto> d), d) else (s, the_bytes (s k))),
      store_append = (\<lambda>s k v. s(k \<mapsto> the_bytes (s k) @ v)),
      store_add = (\<lambda>s k n.
        let m = (case s k of None \<Rightarrow> n | Some b \<Rightarrow> (case py_int b of None \<Rightarrow> n | Some i \<Rightarrow> i + n))
        in (s(k \<mapsto> int_str m), m)),
      store_check = (\<lambda>s ks. list_all (\<lambda>k. s k \<noteq> None) ks)\<rparr>"

lemma hash_store_simps [simp]:
  "store_set hash_store s k v = s(k \<mapsto> v)"
  "store_append hash_store s k v = s(k \<mapsto> the_bytes (s k) @ v)"
  "store_check hash_store s ks = list_all (\<lambda>k. s k \<noteq> None) ks"
  "store_compare_set hash_store s k e d =
     (if the_bytes (s k) = e then (s(k \<mapsto> d), d) else (s, the_bytes (s k)))"
  by (simp_all add: hash_store_def)

lemma hash_store_view [simp]: "store_get hash_store s = s"
  by (simp add: hash_store_def)

interpretation hs: c10d_store hash_store
proof
  fix s :: "string \<rightharpoonup> bytes" and k m n
  assume "view hash_store s k = Some (int_str m)"
  then have "s k = Some (int_str m)" by simp
  then show "snd (store_add hash_store s k n) = m + n"
    "view hash_store (fst (store_add hash_store s k n)) =
       (view hash_store s)(k := Some (int_str (m + n)))"
    by (simp_all add: hash_store_def py_int_int_str Let_def)
qed (auto simp: hash_store_def the_bytes_def list_all_iff Let_def split: option.splits)

end
