(* ===== verification/Plan_Store.thy ===== *)
theory Plan_Store
  imports Protocol Store
begin

text \<open>
  \<open>SimpleRecoveryPlanStore\<close> of \<open>lm_resiliency/integrations/torchrun/_simple_runtime.py\<close>: the
  create-once recovery plans, the node registrations and the plan leases that the manager and
  the torchrun agents share through a c10d store. A method takes the store operations, the
  plan-store object and the store's state, and returns its result or error with the state it
  leaves behind (an exception does not undo writes made before it).

  \<open>sha\<close> stands for \<open>hashlib.sha256(\<dots>).hexdigest()\<close>; nothing is assumed of it here.
\<close>

datatype runtime_error =
    InvalidArgument string
  | AnotherRun
  | PlanConflict
  | CannotAdvance int int int
  | UncommittedPlan
  | Corrupt string
  | StoreTimeout string

record plan_store =
  ps_run_id :: string
  ps_prefix :: string

section \<open>Argument and value decoding\<close>

text \<open>\<open>_nonempty\<close> returns the stripped text.\<close>

fun nonempty :: "json \<Rightarrow> string \<Rightarrow> runtime_error + string" where
  "nonempty (JStr s) name = (if strip s \<noteq> [] then Inr (strip s) else Inl (InvalidArgument name))"
| "nonempty v name = Inl (InvalidArgument name)"

fun positive_int :: "json \<Rightarrow> string \<Rightarrow> runtime_error + int" where
  "positive_int (JInt i) name = (if i < 1 then Inl (InvalidArgument name) else Inr i)"
| "positive_int (JStr s) name =
     (if isdecimal s \<and> 1 \<le> digits_val s then Inr (int (digits_val s)) else Inl (InvalidArgument name))"
| "positive_int v name = Inl (InvalidArgument name)"

definition optional_nonempty :: "json \<Rightarrow> string \<Rightarrow> runtime_error + string option" where
  "optional_nonempty v name = (if v = JNull then Inr None else rbind (nonempty v name) (\<lambda>s. Inr (Some s)))"

definition optional_int :: "json \<Rightarrow> string \<Rightarrow> int \<Rightarrow> runtime_error + int" where
  "optional_int v name dflt = (if v = JNull then Inr dflt else positive_int v name)"

definition ascii :: "bytes \<Rightarrow> bool" where
  "ascii b = list_all (\<lambda>c. (of_char c :: nat) < 128) b"

definition decode_positive_integer :: "bytes \<Rightarrow> string \<Rightarrow> runtime_error + int" where
  "decode_positive_integer encoded name =
     rbind (ensure (ascii encoded) (Corrupt name)) (\<lambda>_.
     rcatch (\<lambda>_. Corrupt name) (positive_int (JStr encoded) name))"

definition decode_generation :: "bytes \<Rightarrow> runtime_error + int" where
  "decode_generation encoded =
     (if \<not> ascii encoded then Inl (Corrupt ''current generation is malformed'')
      else case py_int encoded of
        None \<Rightarrow> Inl (Corrupt ''current generation is malformed'')
      | Some g \<Rightarrow>
          if g < 0 then Inl (Corrupt ''current generation must not be negative'') else Inr g)"

definition canonical_json :: "json \<Rightarrow> bytes" where
  "canonical_json v = dumps v"

definition node_id_from_machine_id :: "(string \<Rightarrow> string) \<Rightarrow> string \<Rightarrow> runtime_error + string" where
  "node_id_from_machine_id sha machine_id =
     (if length machine_id \<noteq> 32 \<or> \<not> list_all (\<lambda>c. c \<in> set ''0123456789abcdef'') machine_id \<or>
         machine_id = replicate 32 (CHR ''0'')
      then Inl (InvalidArgument ''machine identity'')
      else Inr (''machine-'' @ sha (''lm-resiliency/torchrun/node/v1'' @ [CHR 0x00] @ machine_id)))"

section \<open>Keys\<close>

definition make_prefix :: "(string \<Rightarrow> string) \<Rightarrow> string \<Rightarrow> string" where
  "make_prefix sha run_id = ''lm_resiliency/simple/v1/runs/'' @ sha run_id"

definition generation_key :: "plan_store \<Rightarrow> string" where
  "generation_key ps = ps_prefix ps @ ''/generation''"

definition registrations_key :: "plan_store \<Rightarrow> string" where
  "registrations_key ps = ps_prefix ps @ ''/initial/registrations''"

definition initial_nodes_key :: "plan_store \<Rightarrow> string" where
  "initial_nodes_key ps = ps_prefix ps @ ''/initial/nodes''"

definition max_nodes_key :: "plan_store \<Rightarrow> string" where
  "max_nodes_key ps = ps_prefix ps @ ''/initial/max_nodes''"

definition plan_key :: "plan_store \<Rightarrow> int \<Rightarrow> string" where
  "plan_key ps generation = ps_prefix ps @ ''/plans/'' @ int_str generation"

definition plan_lease_key :: "(string \<Rightarrow> string) \<Rightarrow> plan_store \<Rightarrow> restart_plan \<Rightarrow> string" where
  "plan_lease_key sha ps plan =
     ps_prefix ps @ ''/leases/'' @ int_str (rp_to_generation plan) @ ''/'' @ sha (rp_plan_id plan)"

definition plan_lease_sequence_key ::
  "(string \<Rightarrow> string) \<Rightarrow> plan_store \<Rightarrow> restart_plan \<Rightarrow> string" where
  "plan_lease_sequence_key sha ps plan = plan_lease_key sha ps plan @ ''/sequence''"

definition closed_key :: "plan_store \<Rightarrow> string" where
  "closed_key ps = ps_prefix ps @ ''/closed''"

section \<open>Registrations\<close>

fun split_lines_from :: "string \<Rightarrow> bytes \<Rightarrow> bytes list" where
  "split_lines_from cur [] = (if cur = [] then [] else [rev cur])"
| "split_lines_from cur (c # cs) =
     (if c = CHR 0x0A then rev cur # split_lines_from [] cs
      else if c = CHR 0x0D then
        (case cs of
           [] \<Rightarrow> [rev cur]
         | d # ds \<Rightarrow> if d = CHR 0x0A then rev cur # split_lines_from [] ds
                    else rev cur # split_lines_from [] (d # ds))
      else split_lines_from (c # cur) cs)"

text \<open>\<open>bytes.splitlines()\<close>.\<close>

definition split_lines :: "bytes \<Rightarrow> bytes list" where
  "split_lines b = split_lines_from [] b"

definition get_bytes :: "'s store_ops \<Rightarrow> 's \<Rightarrow> string \<Rightarrow> runtime_error + bytes" where
  "get_bytes so s k = (case store_get so s k of None \<Rightarrow> Inl (StoreTimeout k) | Some b \<Rightarrow> Inr b)"

definition registration_record :: "string \<Rightarrow> string \<Rightarrow> json" where
  "registration_record agent_id node_id = JObj
     [(''agent_id'', JStr agent_id), (''node_id'', JStr node_id), (''schema_version'', JInt 1)]"

definition has_fields :: "fields \<Rightarrow> string list \<Rightarrow> bool" where
  "has_fields kvs names = (set (field_names kvs) = set names)"

definition decode_registration :: "bytes \<Rightarrow> runtime_error + string \<times> string" where
  "decode_registration line =
     rbind (rcatch (\<lambda>_. Corrupt ''initial node registration is malformed'') (loads line)) (\<lambda>value.
     case value of
       JObj kvs \<Rightarrow>
         rbind (ensure (has_fields kvs [''agent_id'', ''node_id'', ''schema_version''] \<and>
             get_field kvs ''schema_version'' = JInt 1)
           (Corrupt ''initial node registration has invalid fields'')) (\<lambda>_.
         rbind (rcatch (\<lambda>_. Corrupt ''initial node registration has invalid identities'')
           (rbind (nonempty (get_field kvs ''node_id'') ''node_id'') (\<lambda>node_id.
            rbind (nonempty (get_field kvs ''agent_id'') ''agent_id'') (\<lambda>agent_id.
            Inr (node_id, agent_id))))) (\<lambda>ids.
         rbind (ensure (canonical_json value = line)
           (Corrupt ''initial node registration is not canonical JSON'')) (\<lambda>_. Inr ids)))
     | _ \<Rightarrow> Inl (Corrupt ''initial node registration has invalid fields''))"

text \<open>
  One iteration of the loop in \<open>_decode_registrations\<close>. The dictionaries \<open>node_agents\<close> and
  \<open>agent_nodes\<close> always hold the pairs of \<open>registrations\<close>, read from either side.
\<close>

definition register_pair ::
  "string \<times> string \<Rightarrow> (string \<times> string) list \<Rightarrow> runtime_error + (string \<times> string) list" where
  "register_pair na regs =
     (let existing_agent = map_of regs (fst na);
          existing_node = map_of (map prod.swap regs) (snd na)
      in if existing_agent \<noteq> None \<and> existing_agent \<noteq> Some (snd na)
         then Inl (Corrupt ''multiple torchrun agents resolved to the same machine identity'')
         else if existing_node \<noteq> None \<and> existing_node \<noteq> Some (fst na)
         then Inl (Corrupt ''one torchrun agent registered multiple machine identities'')
         else if existing_agent = None then Inr (regs @ [na]) else Inr regs)"

fun register_lines ::
  "bytes list \<Rightarrow> (string \<times> string) list \<Rightarrow> runtime_error + (string \<times> string) list" where
  "register_lines [] regs = Inr regs"
| "register_lines (line # lines) regs =
     rbind (decode_registration line) (\<lambda>na. rbind (register_pair na regs) (register_lines lines))"

definition max_registration_bytes :: nat where
  "max_registration_bytes = 2 ^ 20"

definition decode_registrations ::
  "'s store_ops \<Rightarrow> plan_store \<Rightarrow> int \<Rightarrow> 's \<Rightarrow> runtime_error + (string \<times> string) list" where
  "decode_registrations so ps max_nodes s =
     rbind (get_bytes so s (registrations_key ps)) (\<lambda>encoded.
     rbind (ensure (length encoded \<le> max_registration_bytes)
       (Corrupt ''initial node registrations are too large'')) (\<lambda>_.
     rbind (register_lines (split_lines encoded) []) (\<lambda>regs.
     rbind (ensure (int (length regs) \<le> max_nodes)
       (Corrupt ''registered nodes exceed torchrun max_nodes'')) (\<lambda>_. Inr regs))))"

definition init_plan_store ::
  "'s store_ops \<Rightarrow> (string \<Rightarrow> string) \<Rightarrow> string \<Rightarrow> 's \<Rightarrow> (runtime_error + plan_store) \<times> 's" where
  "init_plan_store so sha run_id s =
     (case nonempty (JStr run_id) ''run_id'' of
        Inl e \<Rightarrow> (Inl e, s)
      | Inr stripped \<Rightarrow>
          let ps = \<lparr>ps_run_id = stripped, ps_prefix = make_prefix sha run_id\<rparr>
          in (Inr ps, fst (store_compare_set so s (generation_key ps) [] ''0'')))"

definition current_generation :: "'s store_ops \<Rightarrow> plan_store \<Rightarrow> 's \<Rightarrow> runtime_error + int" where
  "current_generation so ps s = rbind (get_bytes so s (generation_key ps)) decode_generation"

definition register_node ::
  "'s store_ops \<Rightarrow> plan_store \<Rightarrow> string \<Rightarrow> string \<Rightarrow> int \<Rightarrow> 's \<Rightarrow> (runtime_error + unit) \<times> 's" where
  "register_node so ps node_id agent_id max_nodes s =
     (case rbind (nonempty (JStr node_id) ''node_id'') (\<lambda>node.
           rbind (nonempty (JStr agent_id) ''agent_id'') (\<lambda>agent.
           rbind (positive_int (JInt max_nodes) ''max_nodes'') (\<lambda>_. Inr (node, agent)))) of
        Inl e \<Rightarrow> (Inl e, s)
      | Inr (node, agent) \<Rightarrow>
          let encoded = int_str max_nodes;
              (s1, stored) = store_compare_set so s (max_nodes_key ps) [] encoded
          in if stored \<noteq> encoded then (Inl (Corrupt ''torchrun agents disagree on max_nodes''), s1)
             else
               let line = canonical_json (registration_record agent node);
                   s2 = store_append so s1 (registrations_key ps) (line @ [CHR 0x0A])
               in (rbind (decode_registrations so ps max_nodes s2) (\<lambda>_. Inr ()), s2))"

section \<open>The initial placement\<close>

definition initial_nodes_record :: "string list \<Rightarrow> json" where
  "initial_nodes_record nodes = JObj [(''node_ids'', str_list nodes), (''schema_version'', JInt 1)]"

definition decode_initial_nodes :: "bytes \<Rightarrow> int option \<Rightarrow> runtime_error + string list" where
  "decode_initial_nodes encoded expected_count =
     rbind (rcatch (\<lambda>_. Corrupt ''initial node assignment is malformed'') (loads encoded)) (\<lambda>value.
     case value of
       JObj kvs \<Rightarrow>
         (case get_field kvs ''node_ids'' of
            JArr items \<Rightarrow>
              rbind (ensure (has_fields kvs [''node_ids'', ''schema_version''] \<and>
                  get_field kvs ''schema_version'' = JInt 1)
                (Corrupt ''initial node assignment has invalid fields'')) (\<lambda>_.
              rbind (rcatch (\<lambda>_. Corrupt ''initial node assignment has invalid identities'')
                (rmap (\<lambda>item. nonempty item ''node_id'') items)) (\<lambda>node_ids.
              rbind (ensure (node_ids \<noteq> [] \<and> distinct node_ids)
                (Corrupt ''initial node assignment must be non-empty and unique'')) (\<lambda>_.
              rbind (ensure (case expected_count of None \<Rightarrow> True | Some n \<Rightarrow> int (length node_ids) = n)
                (Corrupt ''initial node assignment has the wrong size'')) (\<lambda>_.
              rbind (ensure (canonical_json value = encoded)
                (Corrupt ''initial node assignment is not canonical JSON'')) (\<lambda>_. Inr node_ids)))))
          | _ \<Rightarrow> Inl (Corrupt ''initial node assignment has invalid fields''))
     | _ \<Rightarrow> Inl (Corrupt ''initial node assignment has invalid fields''))"

definition ensure_initial_nodes ::
  "'s store_ops \<Rightarrow> plan_store \<Rightarrow> int \<Rightarrow> int \<Rightarrow> 's \<Rightarrow> (runtime_error + string list option) \<times> 's" where
  "ensure_initial_nodes so ps min_nodes max_nodes s =
     (case rbind (positive_int (JInt min_nodes) ''min_nodes'') (\<lambda>_.
           rbind (positive_int (JInt max_nodes) ''max_nodes'') (\<lambda>_.
           rbind (ensure (min_nodes \<le> max_nodes) (InvalidArgument ''max_nodes'')) (\<lambda>_.
           decode_registrations so ps max_nodes s))) of
        Inl e \<Rightarrow> (Inl e, s)
      | Inr regs \<Rightarrow>
          if int (length regs) < min_nodes then (Inr None, s)
          else
            let expected = map fst (take (nat min_nodes) regs);
                encoded = canonical_json (initial_nodes_record expected);
                (s1, stored) = store_compare_set so s (initial_nodes_key ps) [] encoded
            in (rbind (decode_initial_nodes stored (Some min_nodes)) (\<lambda>selected.
                rbind (ensure (selected = expected)
                  (Corrupt ''initial node assignment conflicts with registration order'')) (\<lambda>_.
                Inr (Some selected))), s1))"

definition read_initial_nodes ::
  "'s store_ops \<Rightarrow> plan_store \<Rightarrow> 's \<Rightarrow> runtime_error + string list option" where
  "read_initial_nodes so ps s =
     (if \<not> store_check so s [initial_nodes_key ps] then Inr None
      else rbind (get_bytes so s (initial_nodes_key ps)) (\<lambda>encoded.
           rbind (decode_initial_nodes encoded None) (\<lambda>nodes. Inr (Some nodes))))"

definition registered_nodes ::
  "'s store_ops \<Rightarrow> plan_store \<Rightarrow> int option \<Rightarrow> 's \<Rightarrow> (runtime_error + string list) \<times> 's" where
  "registered_nodes so ps max_nodes s =
     (case (if store_check so s [max_nodes_key ps] then
              (rbind (get_bytes so s (max_nodes_key ps))
                 (\<lambda>encoded. decode_positive_integer encoded ''registered max_nodes''), s)
            else
              (case max_nodes of
                 Some n \<Rightarrow>
                   (case positive_int (JInt n) ''max_nodes'' of
                      Inl e \<Rightarrow> (Inl e, s)
                    | Inr m \<Rightarrow> (Inr m, fst (store_compare_set so s (max_nodes_key ps) [] (int_str m))))
               | None \<Rightarrow> (Inl (Corrupt ''registered allocation is missing max_nodes''), s))) of
        (Inl e, s1) \<Rightarrow> (Inl e, s1)
      | (Inr committed, s1) \<Rightarrow>
          (rbind (ensure (max_nodes = None \<or> max_nodes = Some committed)
             (Corrupt ''manager max_nodes does not match registered allocation'')) (\<lambda>_.
           rbind (decode_registrations so ps committed s1) (\<lambda>regs. Inr (map fst regs))), s1))"

section \<open>Plans and leases\<close>

definition decode_plan :: "plan_store \<Rightarrow> bytes \<Rightarrow> int \<Rightarrow> runtime_error + restart_plan" where
  "decode_plan ps encoded expected_generation =
     rbind (rcatch (\<lambda>_. Corrupt ''persisted recovery plan is malformed'') (loads encoded)) (\<lambda>value.
     rbind (rcatch (\<lambda>_. Corrupt ''persisted recovery plan is malformed'')
        (rbind (py_mapping value ''plan'') plan_from_dict)) (\<lambda>plan.
     rbind (ensure (plan_to_json plan = encoded)
        (Corrupt ''persisted recovery plan is not canonical JSON'')) (\<lambda>_.
     rbind (ensure (rp_run_id plan = ps_run_id ps \<and> rp_to_generation plan = expected_generation)
        (Corrupt ''persisted recovery plan has the wrong identity'')) (\<lambda>_.
     Inr plan))))"

definition read_plan ::
  "'s store_ops \<Rightarrow> plan_store \<Rightarrow> int \<Rightarrow> 's \<Rightarrow> runtime_error + restart_plan option" where
  "read_plan so ps generation s =
     (if generation < 1 then Inr None
      else if \<not> store_check so s [plan_key ps generation] then Inr None
      else rbind (get_bytes so s (plan_key ps generation)) (\<lambda>encoded.
           rbind (decode_plan ps encoded generation) (\<lambda>plan. Inr (Some plan))))"

definition publish ::
  "'s store_ops \<Rightarrow> plan_store \<Rightarrow> restart_plan \<Rightarrow> 's \<Rightarrow> (runtime_error + unit) \<times> 's" where
  "publish so ps plan s =
     (if rp_run_id plan \<noteq> ps_run_id ps then (Inl AnotherRun, s)
      else case current_generation so ps s of
        Inl e \<Rightarrow> (Inl e, s)
      | Inr current \<Rightarrow>
          if current = rp_to_generation plan then
            (rbind (read_plan so ps (rp_to_generation plan) s)
               (\<lambda>committed. ensure (committed = Some plan) PlanConflict), s)
          else if current \<noteq> rp_from_generation plan then
            (Inl (CannotAdvance (rp_from_generation plan) (rp_to_generation plan) current), s)
          else
            let encoded = plan_to_json plan;
                (s1, stored) = store_compare_set so s (plan_key ps (rp_to_generation plan)) [] encoded
            in case (if stored \<noteq> encoded then
                       rbind (decode_plan ps stored (rp_to_generation plan))
                         (\<lambda>existing. ensure (existing = plan) PlanConflict)
                     else Inr ()) of
                 Inl e \<Rightarrow> (Inl e, s1)
               | Inr _ \<Rightarrow>
                   let (s2, current') = store_compare_set so s1 (generation_key ps)
                         (int_str (rp_from_generation plan)) (int_str (rp_to_generation plan))
                   in (rbind (decode_generation current') (\<lambda>observed.
                       ensure (observed = rp_to_generation plan)
                         (CannotAdvance (rp_from_generation plan) (rp_to_generation plan) observed)), s2))"

definition lease_record :: "int \<Rightarrow> int \<Rightarrow> json" where
  "lease_record remaining_ms sequence = JObj
     [(''remaining_ms'', JInt remaining_ms), (''schema_version'', JInt 1), (''sequence'', JInt sequence)]"

definition renew_plan_lease ::
  "'s store_ops \<Rightarrow> (string \<Rightarrow> string) \<Rightarrow> plan_store \<Rightarrow> restart_plan \<Rightarrow> int \<Rightarrow> 's \<Rightarrow> (runtime_error + int) \<times> 's" where
  "renew_plan_lease so sha ps plan remaining_ms s =
     (case rbind (ensure (rp_run_id plan = ps_run_id ps) AnotherRun) (\<lambda>_.
           rbind (ensure (0 \<le> remaining_ms) (InvalidArgument ''remaining_ms'')) (\<lambda>_.
           rbind (read_plan so ps (rp_to_generation plan) s) (\<lambda>committed.
           ensure (committed = Some plan) UncommittedPlan))) of
        Inl e \<Rightarrow> (Inl e, s)
      | Inr _ \<Rightarrow>
          let (s1, sequence) = store_add so s (plan_lease_sequence_key sha ps plan) 1
          in if sequence < 1 then (Inl (Corrupt ''recovery plan lease sequence is invalid''), s1)
             else (Inr sequence, store_set so s1 (plan_lease_key sha ps plan)
                     (canonical_json (lease_record remaining_ms sequence))))"

definition read_plan_lease ::
  "'s store_ops \<Rightarrow> (string \<Rightarrow> string) \<Rightarrow> plan_store \<Rightarrow> restart_plan \<Rightarrow> 's \<Rightarrow> runtime_error + (int \<times> int) option" where
  "read_plan_lease so sha ps plan s =
     (if rp_run_id plan \<noteq> ps_run_id ps then Inl AnotherRun
      else if \<not> store_check so s [plan_lease_key sha ps plan] then Inr None
      else rbind (get_bytes so s (plan_lease_key sha ps plan)) (\<lambda>encoded.
           rbind (rcatch (\<lambda>_. Corrupt ''recovery plan lease is malformed'') (loads encoded)) (\<lambda>value.
           case value of
             JObj kvs \<Rightarrow>
               (case (get_field kvs ''sequence'', get_field kvs ''remaining_ms'') of
                  (JInt sequence, JInt remaining_ms) \<Rightarrow>
                    rbind (ensure (has_fields kvs [''remaining_ms'', ''schema_version'', ''sequence''] \<and>
                        get_field kvs ''schema_version'' = JInt 1 \<and> 1 \<le> sequence \<and> 0 \<le> remaining_ms \<and>
                        canonical_json value = encoded)
                      (Corrupt ''recovery plan lease has invalid fields''))
                      (\<lambda>_. Inr (Some (sequence, remaining_ms)))
                | _ \<Rightarrow> Inl (Corrupt ''recovery plan lease has invalid fields''))
           | _ \<Rightarrow> Inl (Corrupt ''recovery plan lease has invalid fields''))))"

definition close_run :: "'s store_ops \<Rightarrow> plan_store \<Rightarrow> 's \<Rightarrow> 's" where
  "close_run so ps s = store_set so s (closed_key ps) ''1''"

section \<open>Keys are distinct and values decode\<close>

lemmas key_defs = generation_key_def registrations_key_def initial_nodes_key_def max_nodes_key_def
  plan_key_def plan_lease_key_def plan_lease_sequence_key_def closed_key_def

lemma keys_distinct [simp]:
  "generation_key ps \<noteq> plan_key ps g" "plan_key ps g \<noteq> generation_key ps"
  "registrations_key ps \<noteq> max_nodes_key ps" "max_nodes_key ps \<noteq> registrations_key ps"
  "initial_nodes_key ps \<noteq> max_nodes_key ps" "max_nodes_key ps \<noteq> initial_nodes_key ps"
  "initial_nodes_key ps \<noteq> registrations_key ps" "registrations_key ps \<noteq> initial_nodes_key ps"
  "generation_key ps \<noteq> max_nodes_key ps" "generation_key ps \<noteq> registrations_key ps"
  "generation_key ps \<noteq> initial_nodes_key ps"
  "plan_key ps g \<noteq> max_nodes_key ps" "plan_key ps g \<noteq> registrations_key ps"
  "plan_key ps g \<noteq> initial_nodes_key ps"
  "plan_lease_key sha ps p \<noteq> plan_lease_sequence_key sha ps p"
  "plan_lease_sequence_key sha ps p \<noteq> plan_lease_key sha ps p"
  "plan_key ps g \<noteq> plan_lease_key sha ps p" "plan_key ps g \<noteq> plan_lease_sequence_key sha ps p"
  "generation_key ps \<noteq> plan_lease_key sha ps p" "generation_key ps \<noteq> plan_lease_sequence_key sha ps p"
  "closed_key ps \<noteq> plan_key ps g" "closed_key ps \<noteq> generation_key ps"
  by (simp_all add: key_defs)

lemma plan_key_inject [simp]: "plan_key ps i = plan_key ps j \<longleftrightarrow> i = j"
  by (simp add: plan_key_def)

lemma ascii_int_str [simp]: "ascii (int_str i)"
proof -
  have "is_digit c \<Longrightarrow> (of_char c :: nat) < 128" for c by (simp add: is_digit_def Let_def)
  then have "ascii (nat_str n)" for n
    using nat_str_digits [of n] by (auto simp: ascii_def list_all_iff)
  then show ?thesis by (auto simp: int_str_def ascii_def)
qed

lemma decode_generation_int_str [decode_simps]:
  "0 \<le> g \<Longrightarrow> decode_generation (int_str g) = Inr g"
  by (simp add: decode_generation_def py_int_int_str)

lemma int_str_not_Nil [simp]: "int_str i \<noteq> []"
  by (simp add: int_str_def)

lemma decode_positive_integer_int_str [decode_simps]:
  "1 \<le> n \<Longrightarrow> decode_positive_integer (int_str n) name = Inr n"
proof -
  assume "1 \<le> n"
  then have "Suc 0 \<le> nat n" "int (nat n) = n" "\<not> n < 0" by linarith+
  then show ?thesis
    using ascii_int_str [of n] by (simp add: decode_positive_integer_def int_str_def)
qed

lemma plan_json_not_Nil [simp]: "plan_to_json p \<noteq> []"
  using dumps_one_line(3) [OF dumpable_plan] by (simp add: plan_to_json_def)

lemma decode_plan_own [decode_simps]:
  assumes "plan_wf p" "rp_run_id p = ps_run_id ps" "rp_to_generation p = g"
  shows "decode_plan ps (plan_to_json p) g = Inr p"
  by (rule loads_plan [OF assms(1)]) (use assms in \<open>simp add: decode_plan_def\<close>)

lemma plan_to_json_inject [simp]:
  "plan_wf p \<Longrightarrow> plan_wf q \<Longrightarrow> plan_to_json p = plan_to_json q \<longleftrightarrow> p = q"
  by (metis loads_plan json.inject(6) sum.inject(2))

lemma decode_plan_wf:
  "decode_plan ps b g = Inr p \<Longrightarrow>
     plan_wf p \<and> plan_to_json p = b \<and> rp_run_id p = ps_run_id ps \<and> rp_to_generation p = g"
  by (auto simp: decode_plan_def rbind_Inr_iff rcatch_Inr_iff dest: plan_from_dict_wf)

lemma plan_generations: "plan_wf p \<Longrightarrow> 0 \<le> rp_from_generation p \<and> rp_to_generation p = rp_from_generation p + 1"
  using plan_wf_ok [of p] by (simp add: plan_ok_def)

section \<open>Publication\<close>

text \<open>A store whose generation key holds the generation \<open>g\<close>.\<close>

definition at_generation :: "'s store_ops \<Rightarrow> plan_store \<Rightarrow> 's \<Rightarrow> int \<Rightarrow> bool" where
  "at_generation so ps s g \<longleftrightarrow> 0 \<le> g \<and> view so s (generation_key ps) = Some (int_str g)"

text \<open>A plan this plan store may hold for generation \<open>g\<close>.\<close>

definition plan_for :: "plan_store \<Rightarrow> int \<Rightarrow> restart_plan \<Rightarrow> bool" where
  "plan_for ps g p \<longleftrightarrow> plan_wf p \<and> rp_run_id p = ps_run_id ps \<and> rp_to_generation p = g"

lemma at_generation_current: "at_generation so ps s g \<Longrightarrow> current_generation so ps s = Inr g"
  by (simp add: at_generation_def current_generation_def get_bytes_def decode_generation_int_str)

lemma plan_for_from: "plan_for ps g p \<Longrightarrow> rp_from_generation p = g - 1 \<and> 1 \<le> g"
  using plan_generations [of p] by (simp add: plan_for_def)

context c10d_store
begin

lemma read_plan_stored:
  assumes "plan_for ps g p" "view so s (plan_key ps g) = Some (plan_to_json p)"
  shows "read_plan so ps g s = Inr (Some p)"
  using assms plan_for_from [OF assms(1)]
  by (simp add: read_plan_def check_iff get_bytes_def plan_for_def decode_plan_own)

lemma read_plan_absent:
  assumes "view so s (plan_key ps g) = None"
  shows "read_plan so ps g s = Inr None"
  using assms by (simp add: read_plan_def check_iff)

lemma publish_fresh:
  assumes "plan_for ps g p" "at_generation so ps s (g - 1)"
    "view so s (plan_key ps g) = None \<or> view so s (plan_key ps g) = Some (plan_to_json p)"
  shows "fst (publish so ps p s) = Inr ()"
    and "view so (snd (publish so ps p s)) =
      (view so s)(plan_key ps g := Some (plan_to_json p), generation_key ps := Some (int_str g))"
proof -
  let ?r1 = "store_compare_set so s (plan_key ps g) [] (plan_to_json p)"
  let ?r2 = "store_compare_set so (fst ?r1) (generation_key ps) (int_str (g - 1)) (int_str g)"
  have gens: "rp_from_generation p = g - 1" "1 \<le> g" using plan_for_from [OF assms(1)] by simp_all
  have 1: "snd ?r1 = plan_to_json p" "view so (fst ?r1) = (view so s)(plan_key ps g := Some (plan_to_json p))"
    using compare_set_create [of s "plan_key ps g" "plan_to_json p"] assms(3) by auto
  then have "the_bytes (view so (fst ?r1) (generation_key ps)) = int_str (g - 1)"
    using assms(2) by (simp add: at_generation_def the_bytes_def)
  note 2 = compare_set_hit [OF this, of "int_str g"]
  have "publish so ps p s = (Inr (), fst ?r2)"
    using assms(1) gens 1(1) 2(1) at_generation_current [OF assms(2)]
    by (simp add: publish_def plan_for_def case_prod_unfold Let_def decode_generation_int_str)
  then show "fst (publish so ps p s) = Inr ()"
    and "view so (snd (publish so ps p s)) =
      (view so s)(plan_key ps g := Some (plan_to_json p), generation_key ps := Some (int_str g))"
    using 1(2) 2(2) by simp_all
qed

lemma publish_conflict:
  assumes "plan_for ps g p" "at_generation so ps s (g - 1)" "plan_for ps g q" "q \<noteq> p"
    "view so s (plan_key ps g) = Some (plan_to_json q)"
  shows "fst (publish so ps p s) = Inl PlanConflict" "view so (snd (publish so ps p s)) = view so s"
proof -
  let ?r1 = "store_compare_set so s (plan_key ps g) [] (plan_to_json p)"
  have "snd ?r1 = plan_to_json q" "view so (fst ?r1) = view so s"
    using compare_set_create [of s "plan_key ps g" "plan_to_json p"] assms(5) by auto
  moreover have "plan_to_json q \<noteq> plan_to_json p" using assms by (simp add: plan_for_def)
  ultimately have "publish so ps p s = (Inl PlanConflict, fst ?r1)"
    using assms(1,3,4) plan_for_from [OF assms(1)] at_generation_current [OF assms(2)]
    by (simp add: publish_def plan_for_def case_prod_unfold Let_def decode_plan_own)
  then show "fst (publish so ps p s) = Inl PlanConflict" "view so (snd (publish so ps p s)) = view so s"
    using \<open>view so (fst ?r1) = view so s\<close> by simp_all
qed

lemma publish_committed:
  assumes "plan_for ps g p" "at_generation so ps s g" "plan_for ps g q"
    "view so s (plan_key ps g) = Some (plan_to_json q)"
  shows "publish so ps p s = ((if p = q then Inr () else Inl PlanConflict), s)"
  using assms(1) at_generation_current [OF assms(2)] read_plan_stored [OF assms(3,4)]
  by (simp add: publish_def plan_for_def)

lemma publish_stale:
  assumes "plan_for ps g p" "at_generation so ps s c" "c \<noteq> g" "c \<noteq> g - 1"
  shows "publish so ps p s = (Inl (CannotAdvance (g - 1) g c), s)"
  using assms(1,3,4) plan_for_from [OF assms(1)] at_generation_current [OF assms(2)]
  by (simp add: publish_def plan_for_def)

end

end
