(* ===== verification/Plan_Laws.thy ===== *)
theory Plan_Laws
  imports Plan_Store
begin

text \<open>
  What \<open>SimpleRecoveryPlanStore\<close> guarantees, over every store that satisfies \<open>c10d_store\<close>: a
  published plan is committed and a generation is decided once, lease renewals are numbered,
  registrations are decoded in the order they were appended, and the initial placement never
  changes once assigned.
\<close>

section \<open>Leases\<close>

lemma lease_dumpable [simp]: "dumpable (lease_record r q)"
  by (simp add: lease_record_def)

lemma loads_canonical: "dumpable v \<Longrightarrow> loads (canonical_json v) = Inr (canon v)"
  by (simp add: canonical_json_def loads_dumps)

lemma get_field_canonical:
  assumes "distinct (map fst kvs)"
  shows "get_field (canon_fields kvs) k = canon (get_field kvs k)"
    and "has_fields (canon_fields kvs) names \<longleftrightarrow> fst ` set kvs = set names"
  using assms get_field_canon set_field_names_canon by (simp_all add: has_fields_def)

lemma canonical_of_canon: "dumpable v \<Longrightarrow> canonical_json (canon v) = canonical_json v"
  by (simp add: canonical_json_def dumps_canon)

text \<open>What a reader gets of a record this module wrote.\<close>

lemma canonical_object:
  assumes "dumpable (JObj kvs)" "distinct (map fst kvs)"
  obtains kvs' where "loads (canonical_json (JObj kvs)) = Inr (JObj kvs')"
    "canonical_json (JObj kvs') = canonical_json (JObj kvs)"
    "\<And>k. get_field kvs' k = canon (get_field kvs k)"
    "\<And>names. has_fields kvs' names \<longleftrightarrow> fst ` set kvs = set names"
proof
  show "loads (canonical_json (JObj kvs)) = Inr (JObj (canon_fields kvs))"
    using loads_canonical [OF assms(1)] unfolding canon_JObj .
  show "canonical_json (JObj (canon_fields kvs)) = canonical_json (JObj kvs)"
    using canonical_of_canon [OF assms(1)] unfolding canon_JObj .
qed (use assms(2) get_field_canonical in auto)

context c10d_store
begin

lemma lease_read_back:
  assumes "rp_run_id p = ps_run_id ps" "1 \<le> q" "0 \<le> r"
    "view so s (plan_lease_key sha ps p) = Some (canonical_json (lease_record r q))"
  shows "read_plan_lease so sha ps p s = Inr (Some (q, r))"
proof -
  let ?kvs = "[(''remaining_ms'', JInt r), (''schema_version'', JInt 1), (''sequence'', JInt q)]"
  obtain kvs where "loads (canonical_json (lease_record r q)) = Inr (JObj kvs)"
    "canonical_json (JObj kvs) = canonical_json (lease_record r q)"
    "\<And>k. get_field kvs k = canon (get_field ?kvs k)"
    "has_fields kvs [''remaining_ms'', ''schema_version'', ''sequence'']"
    by (rule canonical_object [of ?kvs]) (auto simp: lease_record_def)
  then show ?thesis
    using assms by (simp add: read_plan_lease_def check_iff get_bytes_def get_field_def)
qed

lemma renew_committed:
  assumes "plan_for ps g p" "view so s (plan_key ps g) = Some (plan_to_json p)" "0 \<le> r"
    "view so s (plan_lease_sequence_key sha ps p) = (if n = 0 then None else Some (int_str n))" "0 \<le> n"
  shows "fst (renew_plan_lease so sha ps p r s) = Inr (n + 1)"
    and "view so (snd (renew_plan_lease so sha ps p r s)) = (view so s)
      (plan_lease_sequence_key sha ps p := Some (int_str (n + 1)),
       plan_lease_key sha ps p := Some (canonical_json (lease_record r (n + 1))))"
proof -
  let ?k = "plan_lease_sequence_key sha ps p"
  let ?a = "store_add so s ?k 1"
  have add: "snd ?a = n + 1" "view so (fst ?a) = (view so s)(?k := Some (int_str (n + 1)))"
    using assms(4) add_new [of s ?k 1] add_more [of s ?k n 1] by (simp_all split: if_splits)
  have "renew_plan_lease so sha ps p r s =
      (Inr (n + 1), store_set so (fst ?a) (plan_lease_key sha ps p) (canonical_json (lease_record r (n + 1))))"
    using assms(1,3,5) read_plan_stored [OF assms(1,2)] add(1)
    by (simp add: renew_plan_lease_def plan_for_def case_prod_unfold Let_def)
  then show "fst (renew_plan_lease so sha ps p r s) = Inr (n + 1)"
    and "view so (snd (renew_plan_lease so sha ps p r s)) = (view so s)
      (?k := Some (int_str (n + 1)),
       plan_lease_key sha ps p := Some (canonical_json (lease_record r (n + 1))))"
    using add(2) by (simp_all add: get_set)
qed

lemma renew_uncommitted:
  assumes "plan_for ps g p" "0 \<le> r" "view so s (plan_key ps g) = None"
  shows "renew_plan_lease so sha ps p r s = (Inl UncommittedPlan, s)"
  using assms(1,2) read_plan_absent [OF assms(3)]
  by (simp add: renew_plan_lease_def plan_for_def)

end

section \<open>The registration log\<close>

text \<open>The text after a sequence of registrations, each a (node, agent) pair.\<close>

definition registration_log :: "(string \<times> string) list \<Rightarrow> bytes" where
  "registration_log pairs =
     concat (map (\<lambda>(n, a). canonical_json (registration_record a n) @ [CHR 0x0A]) pairs)"

text \<open>What the log means: the pairs registered one after the other.\<close>

fun register_pairs ::
  "(string \<times> string) list \<Rightarrow> (string \<times> string) list \<Rightarrow> runtime_error + (string \<times> string) list" where
  "register_pairs [] regs = Inr regs"
| "register_pairs (na # pairs) regs = rbind (register_pair na regs) (register_pairs pairs)"

definition identity_ok :: "string \<times> string \<Rightarrow> bool" where
  "identity_ok na \<longleftrightarrow> strip (fst na) = fst na \<and> fst na \<noteq> [] \<and> strip (snd na) = snd na \<and> snd na \<noteq> []"

lemma registration_dumpable [simp]: "dumpable (registration_record a n)"
  by (simp add: registration_record_def)

lemma strip_idem [simp]: "strip (strip s) = strip s"
proof -
  have hd: "\<not> py_space (hd (dropWhile py_space xs))" if "dropWhile py_space xs \<noteq> []" for xs :: string
    using hd_dropWhile that by blast
  define t where "t = dropWhile py_space s"
  define u where "u = dropWhile py_space (rev t)"
  have "dropWhile py_space (rev u) = rev u"
  proof (cases "u = []")
    case False
    obtain v where v: "rev t = v @ u" unfolding u_def by (metis takeWhile_dropWhile_id)
    then have "t = rev u @ rev v" by (metis rev_append rev_rev_ident)
    then have "hd (rev u) = hd t" "t \<noteq> []" using False by auto
    then have "\<not> py_space (hd (rev u))" using hd [of s] by (simp add: t_def)
    then show ?thesis using False by (cases "rev u") auto
  qed simp
  moreover have "dropWhile py_space u = u" unfolding u_def by simp
  ultimately show ?thesis by (simp add: strip_def t_def [symmetric] u_def [symmetric])
qed

lemma decode_registration_own [decode_simps]:
  assumes "identity_ok (n, a)"
  shows "decode_registration (canonical_json (registration_record a n)) = Inr (n, a)"
proof -
  let ?kvs = "[(''agent_id'', JStr a), (''node_id'', JStr n), (''schema_version'', JInt 1)]"
  obtain kvs where "loads (canonical_json (registration_record a n)) = Inr (JObj kvs)"
    "canonical_json (JObj kvs) = canonical_json (registration_record a n)"
    "\<And>k. get_field kvs k = canon (get_field ?kvs k)"
    "has_fields kvs [''agent_id'', ''node_id'', ''schema_version'']"
    by (rule canonical_object [of ?kvs]) (auto simp: registration_record_def)
  then show ?thesis
    using assms by (simp add: decode_registration_def identity_ok_def get_field_def)
qed

lemma split_lines_line:
  "CHR 0x0A \<notin> set l \<Longrightarrow> CHR 0x0D \<notin> set l \<Longrightarrow>
   split_lines_from cur (l @ CHR 0x0A # r) = (rev cur @ l) # split_lines_from [] r"
  by (induction l arbitrary: cur) auto

lemma split_lines_log:
  "split_lines (registration_log pairs) =
     map (\<lambda>(n, a). canonical_json (registration_record a n)) pairs"
proof (induction pairs)
  case (Cons na pairs)
  let ?l = "canonical_json (registration_record (snd na) (fst na))"
  have "CHR 0x0A \<notin> set ?l" "CHR 0x0D \<notin> set ?l"
    using dumps_one_line [OF registration_dumpable] by (simp_all add: canonical_json_def)
  from split_lines_line [OF this, of "[]" "registration_log pairs"] Cons
  show ?case by (simp add: split_lines_def registration_log_def case_prod_unfold)
qed (simp add: split_lines_def registration_log_def)

lemma register_lines_log:
  assumes "list_all identity_ok pairs"
  shows "register_lines (map (\<lambda>(n, a). canonical_json (registration_record a n)) pairs) regs =
     register_pairs pairs regs"
  using assms
proof (induction pairs arbitrary: regs)
  case (Cons na pairs)
  have "register_lines (map (\<lambda>(n, a). canonical_json (registration_record a n)) pairs) =
      register_pairs pairs"
    using Cons by (intro ext) simp
  then show ?case using Cons.prems by (cases na) (simp add: decode_registration_own)
qed simp

lemma register_pairs_append:
  "register_pairs (xs @ ys) regs = rbind (register_pairs xs regs) (register_pairs ys)"
proof (induction xs arbitrary: regs)
  case (Cons x xs)
  then show ?case by (cases "register_pair x regs") simp_all
qed simp

text \<open>A registration never removes or reorders an earlier one.\<close>

lemma register_pair_extends: "register_pair na regs = Inr regs' \<Longrightarrow> regs' = regs \<or> regs' = regs @ [na]"
  by (auto simp: register_pair_def Let_def split: if_splits)

lemma register_pairs_extends: "register_pairs pairs regs = Inr regs' \<Longrightarrow> \<exists>more. regs' = regs @ more"
proof (induction pairs arbitrary: regs)
  case (Cons na pairs)
  then show ?case using register_pair_extends [of na regs] by (fastforce simp: rbind_Inr_iff)
qed simp

lemma register_pair_unique:
  assumes "register_pair na regs = Inr regs'" "distinct (map fst regs)" "distinct (map snd regs)"
  shows "distinct (map fst regs') \<and> distinct (map snd regs')"
proof -
  have "map_of (map prod.swap regs) (snd na) = None \<longleftrightarrow> snd na \<notin> snd ` set regs"
    by (simp add: map_of_eq_None_iff image_image)
  moreover have "map_of regs (fst na) = None \<longleftrightarrow> fst na \<notin> fst ` set regs"
    by (simp add: map_of_eq_None_iff)
  moreover have "map_of (map prod.swap regs) (snd na) = Some (fst na) \<Longrightarrow> fst na \<in> fst ` set regs"
    by (drule map_of_SomeD) (force simp: image_iff)
  ultimately show ?thesis
    using assms by (auto simp: register_pair_def Let_def split: if_splits)
qed

lemma register_pairs_unique:
  "register_pairs pairs regs = Inr regs' \<Longrightarrow> distinct (map fst regs) \<Longrightarrow> distinct (map snd regs) \<Longrightarrow>
   distinct (map fst regs') \<and> distinct (map snd regs')"
proof (induction pairs arbitrary: regs)
  case (Cons na pairs)
  then show ?case using register_pair_unique [of na regs] by (fastforce simp: rbind_Inr_iff)
qed simp

lemma decode_log:
  assumes "list_all identity_ok pairs" "store_get so s (registrations_key ps) = Some (registration_log pairs)"
  shows "decode_registrations so ps max_nodes s =
    rbind (ensure (length (registration_log pairs) \<le> max_registration_bytes)
      (Corrupt ''initial node registrations are too large'')) (\<lambda>_.
    rbind (register_pairs pairs []) (\<lambda>regs.
    rbind (ensure (int (length regs) \<le> max_nodes)
      (Corrupt ''registered nodes exceed torchrun max_nodes'')) (\<lambda>_. Inr regs)))"
  using assms by (simp add: decode_registrations_def get_bytes_def split_lines_log register_lines_log)

definition logged :: "'s store_ops \<Rightarrow> plan_store \<Rightarrow> 's \<Rightarrow> (string \<times> string) list \<Rightarrow> bool" where
  "logged so ps s pairs \<longleftrightarrow> list_all identity_ok pairs \<and>
     the_bytes (view so s (registrations_key ps)) = registration_log pairs"

definition agreed_capacity :: "'s store_ops \<Rightarrow> plan_store \<Rightarrow> 's \<Rightarrow> int \<Rightarrow> bool" where
  "agreed_capacity so ps s n \<longleftrightarrow> 1 \<le> n \<and>
     (view so s (max_nodes_key ps) = None \<or> view so s (max_nodes_key ps) = Some (int_str n))"

lemma registration_log_snoc:
  "registration_log (pairs @ [(n, a)]) =
     registration_log pairs @ canonical_json (registration_record a n) @ [CHR 0x0A]"
  by (simp add: registration_log_def)

lemma registration_log_Nil [simp]: "registration_log pairs = [] \<longleftrightarrow> pairs = []"
  by (cases pairs) (auto simp: registration_log_def)

lemma initial_dumpable [simp]: "dumpable (initial_nodes_record nodes)"
  by (simp add: initial_nodes_record_def)

lemma decode_initial_nodes_own [decode_simps]:
  assumes "nodes \<noteq> []" "distinct nodes" "\<forall>n \<in> set nodes. strip n = n \<and> n \<noteq> []"
    "cnt = None \<or> cnt = Some (int (length nodes))"
  shows "decode_initial_nodes (canonical_json (initial_nodes_record nodes)) cnt = Inr nodes"
proof -
  let ?kvs = "[(''node_ids'', str_list nodes), (''schema_version'', JInt 1)]"
  obtain kvs where "loads (canonical_json (initial_nodes_record nodes)) = Inr (JObj kvs)"
    "canonical_json (JObj kvs) = canonical_json (initial_nodes_record nodes)"
    "\<And>k. get_field kvs k = canon (get_field ?kvs k)" "has_fields kvs [''node_ids'', ''schema_version'']"
    by (rule canonical_object [of ?kvs]) (auto simp: initial_nodes_record_def)
  moreover have "rmap (\<lambda>item. nonempty item ''node_id'') (map JStr nodes) = Inr nodes"
    using assms(3) rmap_Inr [of nodes "\<lambda>n. nonempty (JStr n) ''node_id''" id]
    by (simp add: rmap_map comp_def)
  ultimately show ?thesis
    using assms(1,2,4) by (auto simp: decode_initial_nodes_def get_field_def str_list_def comp_def)
qed

lemma register_pairs_from:
  "register_pairs pairs regs = Inr regs' \<Longrightarrow> set regs' \<subseteq> set regs \<union> set pairs"
proof (induction pairs arbitrary: regs)
  case (Cons na pairs)
  then show ?case using register_pair_extends [of na regs] by (fastforce simp: rbind_Inr_iff)
qed simp

lemma decode_initial_any: "decode_initial_nodes c (Some mn) = Inr nodes \<Longrightarrow> decode_initial_nodes c None = Inr nodes"
proof (cases "loads c")
  case (Inr v)
  assume "decode_initial_nodes c (Some mn) = Inr nodes"
  with Inr show ?thesis
    by (cases v; cases "get_field (case v of JObj kvs \<Rightarrow> kvs) ''node_ids''")
      (auto simp: decode_initial_nodes_def rbind_Inr_iff)
qed (simp add: decode_initial_nodes_def)

context c10d_store
begin

lemma logged_decode:
  assumes "logged so ps s pairs" "decode_registrations so ps mx s = Inr regs"
  shows "register_pairs pairs [] = Inr regs" "int (length regs) \<le> mx"
proof -
  obtain b where "view so s (registrations_key ps) = Some b"
    using assms(2) by (auto simp: decode_registrations_def rbind_Inr_iff get_bytes_def split: option.splits)
  then have "view so s (registrations_key ps) = Some (registration_log pairs)"
    using assms(1) by (simp add: logged_def the_bytes_def)
  from decode_log [where ps = ps and so = so, OF _ this] assms
  show "register_pairs pairs [] = Inr regs" "int (length regs) \<le> mx"
    by (auto simp: logged_def rbind_Inr_iff)
qed

lemma register_node_effect:
  assumes "logged so ps s pairs" "agreed_capacity so ps s mx" "strip n \<noteq> []" "strip a \<noteq> []"
  defines "r \<equiv> register_node so ps n a mx s" and "pairs' \<equiv> pairs @ [(strip n, strip a)]"
  shows "logged so ps (snd r) pairs'"
    and "view so (snd r) = (view so s)(max_nodes_key ps := Some (int_str mx),
           registrations_key ps := Some (registration_log pairs'))"
    and "fst r = rbind (decode_registrations so ps mx (snd r)) (\<lambda>_. Inr ())"
proof -
  let ?c = "store_compare_set so s (max_nodes_key ps) [] (int_str mx)"
  have c: "snd ?c = int_str mx" "view so (fst ?c) = (view so s)(max_nodes_key ps := Some (int_str mx))"
    using compare_set_create [of s "max_nodes_key ps" "int_str mx"] assms(2)
    by (auto simp: agreed_capacity_def)
  have mx: "\<not> mx < 1" using assms(2) by (simp add: agreed_capacity_def)
  have r: "snd r = store_append so (fst ?c) (registrations_key ps)
      (canonical_json (registration_record (strip a) (strip n)) @ [CHR 0x0A])"
    "fst r = rbind (decode_registrations so ps mx (snd r)) (\<lambda>_. Inr ())"
    using assms(3,4) mx c(1) by (simp_all add: r_def register_node_def case_prod_unfold Let_def)
  show v: "view so (snd r) = (view so s)(max_nodes_key ps := Some (int_str mx),
           registrations_key ps := Some (registration_log pairs'))"
    using assms(1) unfolding r(1) get_append c(2) pairs'_def
    by (simp add: registration_log_snoc logged_def fun_upd_def)
  show "logged so ps (snd r) pairs'"
    using assms(1,3,4) unfolding logged_def v by (simp add: the_bytes_def pairs'_def identity_ok_def)
  show "fst r = rbind (decode_registrations so ps mx (snd r)) (\<lambda>_. Inr ())" by (rule r(2))
qed

text \<open>What an assigned initial placement leaves in the store.\<close>

lemma ensure_initial_effect:
  assumes "ensure_initial_nodes so ps mn mx s = (Inr (Some nodes), s1)" "logged so ps s pairs"
    "view so s (initial_nodes_key ps) \<noteq> Some []"
  obtains regs c where "1 \<le> mn" "mn \<le> mx" "register_pairs pairs [] = Inr regs"
    "mn \<le> int (length regs)" "nodes = map fst (take (nat mn) regs)"
    "view so s1 = (view so s)(initial_nodes_key ps := Some c)" "c \<noteq> []"
    "decode_initial_nodes c (Some mn) = Inr nodes"
proof -
  obtain regs where regs: "1 \<le> mn" "mn \<le> mx" "decode_registrations so ps mx s = Inr regs"
    using assms(1) by (auto simp: ensure_initial_nodes_def rbind_Inr_iff rbind_Inl_iff split: sum.splits if_splits)
  let ?nodes = "map fst (take (nat mn) regs)"
  let ?c = "store_compare_set so s (initial_nodes_key ps) [] (canonical_json (initial_nodes_record ?nodes))"
  have ne: "canonical_json (initial_nodes_record ?nodes) \<noteq> []"
    using dumps_one_line(3) [OF initial_dumpable] by (simp add: canonical_json_def)
  have len: "mn \<le> int (length regs)"
  proof (rule ccontr)
    assume "\<not> mn \<le> int (length regs)"
    then have "ensure_initial_nodes so ps mn mx s = (Inr None, s)"
      using regs by (simp add: ensure_initial_nodes_def)
    then show False using assms(1) by simp
  qed
  then have "decode_initial_nodes (snd ?c) (Some mn) = Inr nodes" "nodes = ?nodes" "s1 = fst ?c"
    using assms(1) regs by (auto simp: ensure_initial_nodes_def case_prod_unfold Let_def rbind_Inr_iff)
  moreover have "view so (fst ?c) = (view so s)(initial_nodes_key ps := Some (snd ?c))" "snd ?c \<noteq> []"
    using compare_set_create [of s "initial_nodes_key ps" "canonical_json (initial_nodes_record ?nodes)"]
      assms(3) ne by (cases "view so s (initial_nodes_key ps)"; force)+
  ultimately show thesis
    using that regs len logged_decode [OF assms(2) regs(3)] by blast
qed

lemma ensure_initial_again:
  assumes "1 \<le> mn" "mn \<le> mx" "decode_registrations so ps mx s = Inr regs" "mn \<le> int (length regs)"
    "view so s (initial_nodes_key ps) = Some c" "c \<noteq> []"
    "decode_initial_nodes c (Some mn) = Inr (map fst (take (nat mn) regs))"
  shows "fst (ensure_initial_nodes so ps mn mx s) = Inr (Some (map fst (take (nat mn) regs)))"
    and "view so (snd (ensure_initial_nodes so ps mn mx s)) = view so s"
proof -
  let ?e = "canonical_json (initial_nodes_record (map fst (take (nat mn) regs)))"
  have "snd (store_compare_set so s (initial_nodes_key ps) [] ?e) = c"
    "view so (fst (store_compare_set so s (initial_nodes_key ps) [] ?e)) = view so s"
    using compare_set_miss [OF assms(5)] assms(6) by auto
  then show "fst (ensure_initial_nodes so ps mn mx s) = Inr (Some (map fst (take (nat mn) regs)))"
    and "view so (snd (ensure_initial_nodes so ps mn mx s)) = view so s"
    using assms by (simp_all add: ensure_initial_nodes_def case_prod_unfold Let_def)
qed

lemma read_initial_again:
  assumes "view so s (initial_nodes_key ps) = Some c" "decode_initial_nodes c (Some mn) = Inr nodes"
  shows "read_initial_nodes so ps s = Inr (Some nodes)"
  using assms decode_initial_any [OF assms(2)]
  by (simp add: read_initial_nodes_def check_iff get_bytes_def)

end

context c10d_store
begin

lemma publish_effect:
  assumes "plan_for ps g p" "at_generation so ps s (g - 1)" "view so s (plan_key ps g) = None"
  shows "fst (publish so ps p s) = Inr () \<and>
    current_generation so ps (snd (publish so ps p s)) = Inr g \<and>
    read_plan so ps g (snd (publish so ps p s)) = Inr (Some p) \<and>
    (\<forall>k. k \<noteq> generation_key ps \<and> k \<noteq> plan_key ps g \<longrightarrow>
       view so (snd (publish so ps p s)) k = view so s k) \<and>
    publish so ps p (snd (publish so ps p s)) = (Inr (), snd (publish so ps p s))"
proof -
  let ?s = "snd (publish so ps p s)"
  have v: "view so ?s = (view so s)(plan_key ps g := Some (plan_to_json p), generation_key ps := Some (int_str g))"
    using publish_fresh [OF assms(1,2)] assms(3) by simp
  have at: "at_generation so ps ?s g"
    using plan_for_from [OF assms(1)] by (simp add: at_generation_def v)
  have stored: "view so ?s (plan_key ps g) = Some (plan_to_json p)" by (simp add: v)
  show ?thesis
    using publish_fresh(1) [OF assms(1,2)] assms(3) v at_generation_current [OF at]
      read_plan_stored [OF assms(1) stored] publish_committed [OF assms(1) at assms(1) stored] by simp
qed

lemma placement_kept:
  assumes "logged so ps s pairs" "agreed_capacity so ps s mx" "view so s (initial_nodes_key ps) \<noteq> Some []"
    "ensure_initial_nodes so ps mn mx s = (Inr (Some nodes), s1)"
    "register_node so ps n a mx s1 = (Inr (), s2)"
  shows "int (length nodes) = mn" "distinct nodes"
    "fst (ensure_initial_nodes so ps mn mx s2) = Inr (Some nodes)"
    "view so (snd (ensure_initial_nodes so ps mn mx s2)) = view so s2"
    "read_initial_nodes so ps s2 = Inr (Some nodes)"
proof -
  obtain regs c where regs: "1 \<le> mn" "mn \<le> mx" "register_pairs pairs [] = Inr regs"
    "mn \<le> int (length regs)" "nodes = map fst (take (nat mn) regs)"
    and v1: "view so s1 = (view so s)(initial_nodes_key ps := Some c)" "c \<noteq> []"
    and c: "decode_initial_nodes c (Some mn) = Inr nodes"
    using ensure_initial_effect [OF assms(4,1,3)] .
  show "int (length nodes) = mn" using regs by simp
  show "distinct nodes"
    using register_pairs_unique [OF regs(3)] by (simp add: regs(5) take_map [symmetric])
  have ids: "strip n \<noteq> []" "strip a \<noteq> []"
    using assms(5) by (auto simp: register_node_def split: if_splits)
  have s1: "logged so ps s1 pairs" "agreed_capacity so ps s1 mx"
    using assms(1,2) by (simp_all add: logged_def agreed_capacity_def v1)
  note eff = register_node_effect [OF s1 ids, unfolded assms(5), simplified]
  obtain regs2 where regs2: "decode_registrations so ps mx s2 = Inr regs2"
    using eff(3) by (cases "decode_registrations so ps mx s2") auto
  have "register_pairs (pairs @ [(strip n, strip a)]) [] = Inr regs2"
    using logged_decode [OF eff(1) regs2] by simp
  then obtain more where more: "regs2 = regs @ more"
    using register_pairs_extends [of "[(strip n, strip a)]" regs regs2] regs(3)
    by (auto simp: register_pairs_append)
  have v2: "view so s2 (initial_nodes_key ps) = Some c" by (simp add: eff(2) v1)
  have nodes: "nodes = map fst (take (nat mn) regs2)" using regs more by simp
  show "fst (ensure_initial_nodes so ps mn mx s2) = Inr (Some nodes)"
    "view so (snd (ensure_initial_nodes so ps mn mx s2)) = view so s2"
    using ensure_initial_again [OF regs(1,2) regs2 _ v2 v1(2)] c regs(4) more nodes by simp_all
  show "read_initial_nodes so ps s2 = Inr (Some nodes)" by (rule read_initial_again [OF v2 c])
qed

lemma lease_twice:
  assumes "plan_for ps g p" "view so s (plan_key ps g) = Some (plan_to_json p)" "0 \<le> r" "0 \<le> r'"
    "view so s (plan_lease_sequence_key sha ps p) = (if n = 0 then None else Some (int_str n))" "0 \<le> n"
    "s1 = snd (renew_plan_lease so sha ps p r s)" "s2 = snd (renew_plan_lease so sha ps p r' s1)"
  shows "read_plan_lease so sha ps p s1 = Inr (Some (n + 1, r))"
    "read_plan_lease so sha ps p s2 = Inr (Some (n + 2, r'))"
proof -
  note 1 = renew_committed [OF assms(1,2,3,5,6), folded assms(7)]
  have k: "view so s1 (plan_key ps g) = Some (plan_to_json p)"
    "view so s1 (plan_lease_sequence_key sha ps p) = (if n + 1 = 0 then None else Some (int_str (n + 1)))"
    using assms(2,6) by (simp_all add: 1(2))
  note 2 = renew_committed [OF assms(1) k(1) assms(4) k(2), folded assms(8)]
  have run: "rp_run_id p = ps_run_id ps" using assms(1) by (simp add: plan_for_def)
  show "read_plan_lease so sha ps p s1 = Inr (Some (n + 1, r))"
    using assms(3,6) by (intro lease_read_back [OF run]) (simp_all add: 1(2))
  show "read_plan_lease so sha ps p s2 = Inr (Some (n + 2, r'))"
    using assms(4,6) by (intro lease_read_back [OF run]) (simp_all add: 2(2) add.assoc)
qed

end

section \<open>Properties of the plan store\<close>

definition example_ps :: plan_store where
  "example_ps = \<lparr>ps_run_id = ''run'', ps_prefix = ''p''\<rparr>"

definition example_store :: "string \<rightharpoonup> bytes" where
  "example_store = [generation_key example_ps \<mapsto> ''0'']"

lemma example_facts:
  "plan_for example_ps 1 example_plan" "at_generation hash_store example_ps example_store 0"
  "example_store (plan_key example_ps g) = None" "example_store (plan_lease_sequence_key sha example_ps p) = None"
proof -
  have "rp_run_id example_plan = ''run''" "rp_to_generation example_plan = 1" by (simp_all add: example_plan_def)
  then show "plan_for example_ps 1 example_plan" using example_plan_wf by (simp add: plan_for_def example_ps_def)
  have "int_str 0 = ''0''" by code_simp
  then show "at_generation hash_store example_ps example_store 0"
    by (simp add: at_generation_def example_store_def)
  show "example_store (plan_key example_ps g) = None"
    by (simp add: example_store_def)
  show "example_store (plan_lease_sequence_key sha example_ps p) = None"
    by (simp add: example_store_def key_defs)
qed

text \<open>Publishing the successor plan at the current generation commits it: the call succeeds,
  the generation advances by one, the plan is what every reader of that generation gets, no other
  key of the store changes, and repeating the call succeeds without changing the store.\<close>

theorem publish_commits:
  assumes "c10d_store so" "plan_for ps g p" "at_generation so ps s (g - 1)"
    "view so s (plan_key ps g) = None"
  shows "fst (publish so ps p s) = Inr () \<and>
    current_generation so ps (snd (publish so ps p s)) = Inr g \<and>
    read_plan so ps g (snd (publish so ps p s)) = Inr (Some p) \<and>
    (\<forall>k. k \<noteq> generation_key ps \<and> k \<noteq> plan_key ps g \<longrightarrow>
       view so (snd (publish so ps p s)) k = view so s k) \<and>
    publish so ps p (snd (publish so ps p s)) = (Inr (), snd (publish so ps p s))"
  using assms by (rule c10d_store.publish_effect)

theorem publish_commits_witness:
  "fst (publish hash_store example_ps example_plan example_store) = Inr () \<and>
   read_plan hash_store example_ps 1 (snd (publish hash_store example_ps example_plan example_store)) =
     Inr (Some example_plan)"
  using publish_commits [OF hs.c10d_store_axioms, of example_ps 1 example_plan example_store] example_facts
  by simp

text \<open>A generation is decided once. While a plan other than the published one is stored for
  the generation, publishing fails with a conflict whether or not the generation has advanced,
  and no key of the store changes.\<close>

theorem publish_create_once:
  assumes "c10d_store so" "plan_for ps g p" "plan_for ps g q" "p \<noteq> q"
    "view so s (plan_key ps g) = Some (plan_to_json q)"
    "at_generation so ps s g \<or> at_generation so ps s (g - 1)"
  shows "fst (publish so ps p s) = Inl PlanConflict \<and> view so (snd (publish so ps p s)) = view so s"
  using assms(6) c10d_store.publish_conflict [OF assms(1,2) _ assms(3) _ assms(5)]
    c10d_store.publish_committed [OF assms(1,2) _ assms(3,5)] assms(4) by auto

theorem publish_create_once_witness:
  "\<exists>q. q \<noteq> example_plan \<and> fst (publish hash_store example_ps q
     (snd (publish hash_store example_ps example_plan example_store))) = Inl PlanConflict"
proof -
  let ?s = "snd (publish hash_store example_ps example_plan example_store)"
  let ?q = "example_plan\<lparr>rp_reason_code := ''hang''\<rparr>"
  have "?q \<noteq> example_plan" by (simp add: example_plan_def)
  moreover have "plan_for example_ps 1 ?q"
    using example_plan_wf unfolding plan_for_def plan_wf_def plan_post_init_sorted plan_ok_def
    by (simp add: example_plan_def example_ps_def strip_def py_space_def)
  moreover have "?s (plan_key example_ps 1) = Some (plan_to_json example_plan)"
    "at_generation hash_store example_ps ?s 1"
    using hs.publish_fresh(2) [OF example_facts(1), of example_store] example_facts
    by (simp_all add: at_generation_def)
  ultimately show ?thesis
    using publish_create_once [OF hs.c10d_store_axioms, of example_ps 1 ?q example_plan ?s] example_facts(1)
    by auto
qed

text \<open>The initial placement is fixed by the first nodes to register. Once assigned it has
  \<open>min_nodes\<close> distinct members; a node that registers later leaves it unchanged, for the agents that
  ask for it again and for the manager that reads it, and asking again writes nothing.\<close>

theorem initial_placement_stable:
  assumes "c10d_store so" "logged so ps s pairs" "agreed_capacity so ps s mx"
    "view so s (initial_nodes_key ps) \<noteq> Some []"
    "ensure_initial_nodes so ps mn mx s = (Inr (Some nodes), s1)"
    "register_node so ps n a mx s1 = (Inr (), s2)"
  shows "int (length nodes) = mn \<and> distinct nodes \<and>
    fst (ensure_initial_nodes so ps mn mx s2) = Inr (Some nodes) \<and>
    view so (snd (ensure_initial_nodes so ps mn mx s2)) = view so s2 \<and>
    read_initial_nodes so ps s2 = Inr (Some nodes)"
  using c10d_store.placement_kept [OF assms] by simp

definition example_log_store :: "string \<rightharpoonup> bytes" where
  "example_log_store = [registrations_key example_ps \<mapsto> registration_log [(''n1'', ''a1'')]]"

lemma example_log_size: "length (registration_log [(''n1'', ''a1''), (''n2'', ''a2'')]) \<le> max_registration_bytes"
  "length (registration_log [(''n1'', ''a1'')]) \<le> max_registration_bytes"
  by (simp_all add: registration_log_def registration_record_def canonical_json_def dump_str_def
      esc_char_def int_str_def nat_str.simps max_registration_bytes_def)

lemma example_identities: "list_all identity_ok [(''n1'', ''a1''), (''n2'', ''a2'')]"
  by (simp add: identity_ok_def strip_def py_space_def)

theorem initial_placement_stable_witness:
  "\<exists>s2. read_initial_nodes hash_store example_ps s2 = Inr (Some [''n1''])"
proof -
  let ?s = example_log_store
  define s1 where "s1 = snd (ensure_initial_nodes hash_store example_ps 1 3 ?s)"
  define s2 where "s2 = snd (register_node hash_store example_ps ''n2'' ''a2'' 3 s1)"
  have s: "logged hash_store example_ps ?s [(''n1'', ''a1'')]" "agreed_capacity hash_store example_ps ?s 3"
    "view hash_store ?s (initial_nodes_key example_ps) \<noteq> Some []"
    using example_identities by (simp_all add: logged_def agreed_capacity_def example_log_store_def the_bytes_def)
  have "decode_registrations hash_store example_ps 3 ?s = Inr [(''n1'', ''a1'')]"
    using example_identities
    by (subst decode_log [of "[(''n1'', ''a1'')]"])
      (simp_all add: example_log_store_def example_log_size register_pair_def)
  moreover have "decode_initial_nodes (canonical_json (initial_nodes_record [''n1''])) (Some 1) = Inr [''n1'']"
    by (rule decode_initial_nodes_own) (simp_all add: strip_def py_space_def)
  ultimately have 1: "ensure_initial_nodes hash_store example_ps 1 3 ?s = (Inr (Some [''n1'']), s1)"
    "s1 = ?s(initial_nodes_key example_ps \<mapsto> canonical_json (initial_nodes_record [''n1'']))"
    by (simp_all add: s1_def ensure_initial_nodes_def Let_def example_log_store_def the_bytes_def)
  have s1: "logged hash_store example_ps s1 [(''n1'', ''a1'')]" "agreed_capacity hash_store example_ps s1 3"
    using s by (simp_all add: logged_def agreed_capacity_def 1(2))
  have ids: "strip ''n2'' = ''n2''" "strip ''a2'' = ''a2''" by (simp_all add: strip_def py_space_def)
  note eff = hs.register_node_effect [OF s1, of "''n2''" "''a2''", unfolded ids, simplified, folded s2_def]
  have "decode_registrations hash_store example_ps 3 s2 = Inr [(''n1'', ''a1''), (''n2'', ''a2'')]"
    using example_identities eff(2)
    by (subst decode_log [of "[(''n1'', ''a1''), (''n2'', ''a2'')]"])
      (simp_all add: example_log_size register_pair_def)
  then have 2: "register_node hash_store example_ps ''n2'' ''a2'' 3 s1 = (Inr (), s2)"
    using eff(3) by (simp add: s2_def prod_eq_iff)
  show ?thesis
    using initial_placement_stable [OF hs.c10d_store_axioms s 1(1) 2] by blast
qed

text \<open>Lease renewals are numbered: each renewal of a committed plan is read back with its
  remaining time and the next sequence number, so a reader can tell a new renewal from an old one.\<close>

theorem lease_renewals_numbered:
  assumes "c10d_store so" "plan_for ps g p" "view so s (plan_key ps g) = Some (plan_to_json p)"
    "0 \<le> r" "0 \<le> r'"
    "view so s (plan_lease_sequence_key sha ps p) = (if n = 0 then None else Some (int_str n))" "0 \<le> n"
    "s1 = snd (renew_plan_lease so sha ps p r s)" "s2 = snd (renew_plan_lease so sha ps p r' s1)"
  shows "read_plan_lease so sha ps p s1 = Inr (Some (n + 1, r)) \<and>
    read_plan_lease so sha ps p s2 = Inr (Some (n + 2, r'))"
  using c10d_store.lease_twice [OF assms] by simp

theorem lease_renewals_numbered_witness:
  "\<exists>s. read_plan_lease hash_store id example_ps example_plan
     (snd (renew_plan_lease hash_store id example_ps example_plan 500 s)) = Inr (Some (1, 500))"
proof -
  let ?s = "example_store(plan_key example_ps 1 \<mapsto> plan_to_json example_plan)"
  have "view hash_store ?s (plan_lease_sequence_key id example_ps example_plan) =
      (if (0::int) = 0 then None else Some (int_str 0))"
    using example_facts(4) by (simp add: key_defs)
  then show ?thesis
    using lease_renewals_numbered [OF hs.c10d_store_axioms example_facts(1), of ?s 500 500 id 0] by auto
qed

end
