(* ===== verification/Plan_Concurrency.thy ===== *)
theory Plan_Concurrency
  imports Plan_Laws
begin

text \<open>
  \<open>SimpleRecoveryPlanStore.publish\<close> under concurrency: the method cut at its store accesses, any
  number of publishers running it against one store in any order, interleaved with the other
  writers of the run. The invariant says that the plans of the decided generations never change.
\<close>

section \<open>One publisher, store access by store access\<close>

datatype publish_pc =
    ReadGeneration
  | ReadCommitted
  | WritePlan
  | AdvanceGeneration
  | Finished "runtime_error + unit"

text \<open>The control points of \<open>publish\<close>: every step makes at most one store access that can write.\<close>

fun publish_step ::
  "'s store_ops \<Rightarrow> plan_store \<Rightarrow> restart_plan \<Rightarrow> publish_pc \<Rightarrow> 's \<Rightarrow> publish_pc \<times> 's" where
  "publish_step so ps plan ReadGeneration s =
     (if rp_run_id plan \<noteq> ps_run_id ps then (Finished (Inl AnotherRun), s)
      else case current_generation so ps s of
        Inl e \<Rightarrow> (Finished (Inl e), s)
      | Inr current \<Rightarrow>
          if current = rp_to_generation plan then (ReadCommitted, s)
          else if current \<noteq> rp_from_generation plan then
            (Finished (Inl (CannotAdvance (rp_from_generation plan) (rp_to_generation plan) current)), s)
          else (WritePlan, s))"
| "publish_step so ps plan ReadCommitted s =
     (Finished (rbind (read_plan so ps (rp_to_generation plan) s)
        (\<lambda>committed. ensure (committed = Some plan) PlanConflict)), s)"
| "publish_step so ps plan WritePlan s =
     (let encoded = plan_to_json plan;
          (s1, stored) = store_compare_set so s (plan_key ps (rp_to_generation plan)) [] encoded
      in case (if stored \<noteq> encoded then
                 rbind (decode_plan ps stored (rp_to_generation plan))
                   (\<lambda>existing. ensure (existing = plan) PlanConflict)
               else Inr ()) of
           Inl e \<Rightarrow> (Finished (Inl e), s1)
         | Inr _ \<Rightarrow> (AdvanceGeneration, s1))"
| "publish_step so ps plan AdvanceGeneration s =
     (let (s2, current) = store_compare_set so s (generation_key ps)
            (int_str (rp_from_generation plan)) (int_str (rp_to_generation plan))
      in (Finished (rbind (decode_generation current) (\<lambda>observed.
            ensure (observed = rp_to_generation plan)
              (CannotAdvance (rp_from_generation plan) (rp_to_generation plan) observed))), s2))"
| "publish_step so ps plan (Finished r) s = (Finished r, s)"

text \<open>Run alone, the steps are the method: three of them always finish, with its result.\<close>

lemma publish_is_three_steps:
  "(let (pc1, s1) = publish_step so ps plan ReadGeneration s;
        (pc2, s2) = publish_step so ps plan pc1 s1;
        (pc3, s3) = publish_step so ps plan pc2 s2
    in (pc3, s3)) = (Finished (fst (publish so ps plan s)), snd (publish so ps plan s))"
proof (cases "rp_run_id plan \<noteq> ps_run_id ps")
  case False
  show ?thesis
  proof (cases "current_generation so ps s")
    case (Inr current)
    show ?thesis
    proof (cases "current = rp_from_generation plan \<and> current \<noteq> rp_to_generation plan")
      case True
      let ?c = "store_compare_set so s (plan_key ps (rp_to_generation plan)) [] (plan_to_json plan)"
      let ?w = "if snd ?c \<noteq> plan_to_json plan then
                  rbind (decode_plan ps (snd ?c) (rp_to_generation plan))
                    (\<lambda>existing. ensure (existing = plan) PlanConflict)
                else Inr ()"
      show ?thesis
        using True False Inr
        by (cases ?w) (simp_all add: publish_def Let_def case_prod_unfold)
    qed (use False Inr in \<open>auto simp: publish_def\<close>)
  qed (use False in \<open>simp add: publish_def\<close>)
qed (simp add: publish_def)

section \<open>Any number of publishers, interleaved\<close>

text \<open>
  Managers that race to publish, each with its plan and control point, and the rest of the run
  (registrations, leases, closing), whose methods write neither the generation nor a plan.
\<close>

record 's plan_system =
  sys_store :: 's
  sys_publishers :: "(restart_plan \<times> publish_pc) list"

inductive plan_system_step :: "'s store_ops \<Rightarrow> plan_store \<Rightarrow> 's plan_system \<Rightarrow> 's plan_system \<Rightarrow> bool"
  for so :: "'s store_ops" and ps :: plan_store where
  arrive: "plan_wf plan \<Longrightarrow> plan_system_step so ps \<lparr>sys_store = s, sys_publishers = pubs\<rparr>
     \<lparr>sys_store = s, sys_publishers = pubs @ [(plan, ReadGeneration)]\<rparr>"
| advance: "i < length pubs \<Longrightarrow> pubs ! i = (plan, pc) \<Longrightarrow> publish_step so ps plan pc s = (pc', s') \<Longrightarrow>
     plan_system_step so ps \<lparr>sys_store = s, sys_publishers = pubs\<rparr>
       \<lparr>sys_store = s', sys_publishers = pubs[i := (plan, pc')]\<rparr>"
| other: "view so s' (generation_key ps) = view so s (generation_key ps) \<Longrightarrow>
     (\<And>g. view so s' (plan_key ps g) = view so s (plan_key ps g)) \<Longrightarrow>
     plan_system_step so ps \<lparr>sys_store = s, sys_publishers = pubs\<rparr> \<lparr>sys_store = s', sys_publishers = pubs\<rparr>"

inductive_simps plan_system_step_simps: "plan_system_step so ps \<lparr>sys_store = s, sys_publishers = pubs\<rparr> sys'"

text \<open>The run starts right after \<open>SimpleRecoveryPlanStore.__init__\<close> on a store without plans.\<close>

inductive plan_system_reachable :: "'s store_ops \<Rightarrow> plan_store \<Rightarrow> 's plan_system \<Rightarrow> bool"
  for so :: "'s store_ops" and ps :: plan_store where
  start: "at_generation so ps s 0 \<Longrightarrow> (\<And>g. view so s (plan_key ps g) = None) \<Longrightarrow>
     plan_system_reachable so ps \<lparr>sys_store = s, sys_publishers = []\<rparr>"
| step: "plan_system_reachable so ps sys \<Longrightarrow> plan_system_step so ps sys sys' \<Longrightarrow>
     plan_system_reachable so ps sys'"

section \<open>The invariant\<close>

text \<open>Generations up to the current one are decided; the next one may be; later ones are not.\<close>

definition plans_ok :: "'s store_ops \<Rightarrow> plan_store \<Rightarrow> 's \<Rightarrow> int \<Rightarrow> bool" where
  "plans_ok so ps s g \<longleftrightarrow> at_generation so ps s g \<and>
     (\<forall>i. view so s (plan_key ps i) = None \<or>
        (\<exists>p. plan_for ps i p \<and> view so s (plan_key ps i) = Some (plan_to_json p))) \<and>
     (\<forall>i. 1 \<le> i \<and> i \<le> g \<longrightarrow> view so s (plan_key ps i) \<noteq> None) \<and>
     (\<forall>i > g + 1. view so s (plan_key ps i) = None)"

definition stored_plan :: "'s store_ops \<Rightarrow> plan_store \<Rightarrow> 's \<Rightarrow> restart_plan \<Rightarrow> bool" where
  "stored_plan so ps s p \<longleftrightarrow> view so s (plan_key ps (rp_to_generation p)) = Some (plan_to_json p)"

fun pc_ok :: "'s store_ops \<Rightarrow> plan_store \<Rightarrow> 's \<Rightarrow> int \<Rightarrow> restart_plan \<Rightarrow> publish_pc \<Rightarrow> bool" where
  "pc_ok so ps s g p ReadGeneration = True"
| "pc_ok so ps s g p ReadCommitted = (rp_run_id p = ps_run_id ps \<and> rp_to_generation p \<le> g)"
| "pc_ok so ps s g p WritePlan = (rp_run_id p = ps_run_id ps \<and> rp_from_generation p \<le> g)"
| "pc_ok so ps s g p AdvanceGeneration =
     (rp_run_id p = ps_run_id ps \<and> rp_from_generation p \<le> g \<and> stored_plan so ps s p)"
| "pc_ok so ps s g p (Finished r) =
     (r = Inr () \<longrightarrow> rp_run_id p = ps_run_id ps \<and> rp_to_generation p \<le> g \<and> stored_plan so ps s p)"

definition publishers_ok :: "'s store_ops \<Rightarrow> plan_store \<Rightarrow> 's \<Rightarrow> int \<Rightarrow> (restart_plan \<times> publish_pc) list \<Rightarrow> bool" where
  "publishers_ok so ps s g pubs \<longleftrightarrow> (\<forall>(p, pc) \<in> set pubs. plan_wf p \<and> pc_ok so ps s g p pc)"

text \<open>The part of the store the invariant reads only ever grows.\<close>

definition plans_grow :: "'s store_ops \<Rightarrow> plan_store \<Rightarrow> 's \<Rightarrow> int \<Rightarrow> 's \<Rightarrow> int \<Rightarrow> bool" where
  "plans_grow so ps s g s' g' \<longleftrightarrow> g \<le> g' \<and>
     (\<forall>i b. view so s (plan_key ps i) = Some b \<longrightarrow> view so s' (plan_key ps i) = Some b)"

lemma plans_grow_refl [simp]: "plans_grow so ps s g s g"
  by (simp add: plans_grow_def)

lemma pc_ok_grow: "pc_ok so ps s g p pc \<Longrightarrow> plans_grow so ps s g s' g' \<Longrightarrow> pc_ok so ps s' g' p pc"
  by (cases pc) (auto simp: plans_grow_def stored_plan_def)

lemma publishers_ok_grow:
  "publishers_ok so ps s g pubs \<Longrightarrow> plans_grow so ps s g s' g' \<Longrightarrow> publishers_ok so ps s' g' pubs"
  by (auto simp: publishers_ok_def intro: pc_ok_grow)

lemma plans_ok_plan:
  assumes "plans_ok so ps s g" "1 \<le> i" "i \<le> g"
  obtains q where "plan_for ps i q" "view so s (plan_key ps i) = Some (plan_to_json q)"
  using assms unfolding plans_ok_def by (metis option.distinct(1))

lemma plans_ok_cases:
  "plans_ok so ps s g \<Longrightarrow> view so s (plan_key ps i) = None \<or>
     (\<exists>q. plan_for ps i q \<and> view so s (plan_key ps i) = Some (plan_to_json q))"
  by (simp add: plans_ok_def)

lemma plans_ok_advance:
  assumes "plans_ok so ps s g" "view so s (plan_key ps (g + 1)) \<noteq> None"
    "view so s' = (view so s)(generation_key ps := Some (int_str (g + 1)))"
  shows "plans_ok so ps s' (g + 1)"
proof -
  have "view so s (plan_key ps i) \<noteq> None" if "1 \<le> i" "i \<le> g + 1" for i
    using that assms(1,2) by (cases "i = g + 1") (auto simp: plans_ok_def)
  then show ?thesis using assms(1) by (simp add: plans_ok_def at_generation_def assms(3))
qed

lemma plans_ok_generation: "plans_ok so ps s g \<Longrightarrow> at_generation so ps s g"
  by (simp add: plans_ok_def)

lemma plans_ok_view:
  assumes "plans_ok so ps s g" "view so s' (generation_key ps) = view so s (generation_key ps)"
    "\<And>i. view so s' (plan_key ps i) = view so s (plan_key ps i)"
  shows "plans_ok so ps s' g"
  using assms by (simp add: plans_ok_def at_generation_def)

context c10d_store
begin

lemma read_generation_step:
  assumes "plans_ok so ps s g" "publish_step so ps p ReadGeneration s = (pc', s')"
  shows "s' = s" "pc_ok so ps s g p pc'"
proof -
  have cur: "current_generation so ps s = Inr g"
    using plans_ok_generation [OF assms(1)] by (rule at_generation_current)
  show "s' = s" "pc_ok so ps s g p pc'" using assms(2) by (auto simp: cur split: if_splits)
qed

lemma read_committed_step:
  assumes "plans_ok so ps s g" "plan_wf p" "pc_ok so ps s g p ReadCommitted"
    "publish_step so ps p ReadCommitted s = (pc', s')"
  shows "s' = s" "pc_ok so ps s g p pc'"
proof -
  have to: "1 \<le> rp_to_generation p" "rp_to_generation p \<le> g" using plan_generations [OF assms(2)] assms(3) by auto
  obtain q where q: "plan_for ps (rp_to_generation p) q"
    "view so s (plan_key ps (rp_to_generation p)) = Some (plan_to_json q)"
    using plans_ok_plan [OF assms(1) to] .
  show "s' = s" "pc_ok so ps s g p pc'"
    using assms(3,4) read_plan_stored [OF q] q(2) by (auto simp: stored_plan_def)
qed

lemma write_plan_step:
  assumes "plans_ok so ps s g" "plan_wf p" "pc_ok so ps s g p WritePlan"
    "publish_step so ps p WritePlan s = (pc', s')"
  shows "plans_ok so ps s' g" "plans_grow so ps s g s' g" "pc_ok so ps s' g p pc'"
proof -
  let ?k = "plan_key ps (rp_to_generation p)"
  let ?c = "store_compare_set so s ?k [] (plan_to_json p)"
  have p: "plan_for ps (rp_to_generation p) p" "rp_to_generation p \<le> g + 1" "1 \<le> rp_to_generation p"
    using assms(2,3) plan_generations [OF assms(2)] by (auto simp: plan_for_def)
  have s': "s' = fst ?c"
    using assms(4) by (auto simp: Let_def case_prod_unfold split: sum.splits if_splits)
  consider (new) "view so s ?k = None"
    | (old) q where "plan_for ps (rp_to_generation p) q" "view so s ?k = Some (plan_to_json q)"
    using plans_ok_cases [OF assms(1)] by metis
  then have "plans_ok so ps s' g \<and> plans_grow so ps s g s' g \<and> pc_ok so ps s' g p pc'"
  proof cases
    case new
    have v: "view so s' = (view so s)(?k := Some (plan_to_json p))" "snd ?c = plan_to_json p"
      using compare_set_create [of s ?k "plan_to_json p"] new by (auto simp: s')
    then have "pc' = AdvanceGeneration" using assms(4) by (simp add: Let_def case_prod_unfold)
    then show ?thesis
      using assms(1,3) p new by (auto simp: v plans_ok_def at_generation_def plans_grow_def stored_plan_def)
  next
    case old
    have v: "view so s' = view so s" "snd ?c = plan_to_json q"
      using compare_set_create [of s ?k "plan_to_json p"] old by (auto simp: s')
    then have "pc' = (if q = p then AdvanceGeneration else Finished (Inl PlanConflict))"
      using assms(2,4) old(1) by (simp add: Let_def case_prod_unfold plan_for_def decode_plan_own split: if_splits)
    then show ?thesis
      using assms(1,3) old v plans_ok_view [OF assms(1), of s']
      by (auto simp: plans_grow_def stored_plan_def)
  qed
  then show "plans_ok so ps s' g" "plans_grow so ps s g s' g" "pc_ok so ps s' g p pc'" by auto
qed

lemma advance_generation_step:
  assumes "plans_ok so ps s g" "plan_wf p" "pc_ok so ps s g p AdvanceGeneration"
    "publish_step so ps p AdvanceGeneration s = (pc', s')"
  shows "\<exists>g'. plans_ok so ps s' g' \<and> plans_grow so ps s g s' g' \<and> pc_ok so ps s' g' p pc'"
proof -
  let ?k = "generation_key ps" and ?f = "rp_from_generation p" and ?t = "rp_to_generation p"
  let ?c = "store_compare_set so s ?k (int_str ?f) (int_str ?t)"
  have gen: "0 \<le> g" "view so s ?k = Some (int_str g)"
    using plans_ok_generation [OF assms(1)] by (simp_all add: at_generation_def)
  have t: "?t = ?f + 1" "0 \<le> ?f" "?f \<le> g" using plan_generations [OF assms(2)] assms(3) by auto
  have s': "s' = fst ?c" "pc' = Finished (rbind (decode_generation (snd ?c)) (\<lambda>observed.
      ensure (observed = ?t) (CannotAdvance ?f ?t observed)))"
    using assms(4) by (simp_all add: case_prod_unfold Let_def)
  show ?thesis
  proof (cases "?f = g")
    case True
    have v: "view so s' = (view so s)(?k := Some (int_str ?t))" "snd ?c = int_str ?t"
      using compare_set_hit [of s ?k "int_str ?f" "int_str ?t"] gen True by (simp_all add: s' the_bytes_def)
    have "plans_ok so ps s' ?t"
      using plans_ok_advance [OF assms(1) _ v(1) [unfolded t(1) True]] assms(3)
      by (simp add: t(1) True stored_plan_def)
    moreover have "plans_grow so ps s g s' ?t" using t True by (auto simp: plans_grow_def v)
    moreover have "pc_ok so ps s' ?t p pc'"
      using assms(3) t by (simp add: s'(2) v stored_plan_def decode_generation_int_str)
    ultimately show ?thesis by blast
  next
    case False
    have v: "view so s' = view so s" "snd ?c = int_str g"
      using compare_set_miss [OF gen(2), of "int_str ?f" "int_str ?t"] False by (simp_all add: s')
    have "pc_ok so ps s' g p pc'"
      using assms(3) t gen(1) False by (auto simp: s'(2) v stored_plan_def decode_generation_int_str)
    then show ?thesis using plans_ok_view [OF assms(1), of s'] v by (auto simp: plans_grow_def)
  qed
qed

lemma publish_step_ok:
  assumes "plans_ok so ps s g" "plan_wf p" "pc_ok so ps s g p pc" "publish_step so ps p pc s = (pc', s')"
  shows "\<exists>g'. plans_ok so ps s' g' \<and> plans_grow so ps s g s' g' \<and> pc_ok so ps s' g' p pc'"
proof (cases pc)
  case ReadGeneration
  then show ?thesis using read_generation_step [OF assms(1)] assms(1,4) plans_grow_refl by metis
next
  case ReadCommitted
  then show ?thesis using read_committed_step [OF assms(1,2)] assms plans_grow_refl by metis
next
  case WritePlan
  then show ?thesis using write_plan_step [OF assms(1,2)] assms by metis
next
  case AdvanceGeneration
  then show ?thesis using advance_generation_step [OF assms(1,2)] assms by metis
next
  case (Finished r)
  then show ?thesis using assms plans_grow_refl by auto
qed

lemma plan_system_step_ok:
  assumes "plan_system_step so ps sys sys'" "plans_ok so ps (sys_store sys) g"
    "publishers_ok so ps (sys_store sys) g (sys_publishers sys)"
  shows "\<exists>g'. plans_ok so ps (sys_store sys') g' \<and> plans_grow so ps (sys_store sys) g (sys_store sys') g' \<and>
    publishers_ok so ps (sys_store sys') g' (sys_publishers sys')"
  using assms
proof (cases rule: plan_system_step.cases)
  case (arrive plan s pubs)
  then show ?thesis using assms(2,3) plans_grow_refl by (fastforce simp: publishers_ok_def)
next
  case (advance i pubs plan pc s pc' s')
  have mem: "(plan, pc) \<in> set pubs" using advance(3,4) by (metis nth_mem)
  then have "plan_wf plan" "pc_ok so ps s g plan pc"
    using assms(3) advance by (auto simp: publishers_ok_def)
  with publish_step_ok [OF _ this advance(5)] assms(2) advance(1)
  obtain g' where g': "plans_ok so ps s' g'" "plans_grow so ps s g s' g'" "pc_ok so ps s' g' plan pc'" by auto
  have "publishers_ok so ps s' g' pubs" using publishers_ok_grow [OF _ g'(2)] assms(3) advance(1) by simp
  then have "publishers_ok so ps s' g' (pubs[i := (plan, pc')])"
    using g'(3) \<open>plan_wf plan\<close> set_update_subset_insert [of pubs i "(plan, pc')"]
    by (fastforce simp: publishers_ok_def)
  then show ?thesis using g' advance(1,2) by auto
next
  case (other s' s pubs)
  then have "plans_ok so ps s' g" using plans_ok_view assms(2) by (metis plan_system.select_convs(1))
  moreover have "plans_grow so ps s g s' g" using other by (simp add: plans_grow_def)
  ultimately show ?thesis using other assms(3) publishers_ok_grow by fastforce
qed

lemma reachable_ok:
  assumes "plan_system_reachable so ps sys"
  shows "\<exists>g. plans_ok so ps (sys_store sys) g \<and> publishers_ok so ps (sys_store sys) g (sys_publishers sys)"
  using assms
proof induction
  case (start s)
  then have "plans_ok so ps s 0" by (simp add: plans_ok_def)
  then show ?case by (auto simp: publishers_ok_def)
next
  case (step sys sys')
  then show ?case using plan_system_step_ok by blast
qed

end

text \<open>The number of own steps a publisher has left.\<close>

fun steps_left :: "publish_pc \<Rightarrow> nat" where
  "steps_left ReadGeneration = 3"
| "steps_left WritePlan = 2"
| "steps_left ReadCommitted = 1"
| "steps_left AdvanceGeneration = 1"
| "steps_left (Finished r) = 0"

lemma steps_left_decreases:
  "publish_step so ps p pc s = (pc', s') \<Longrightarrow> steps_left pc' \<le> steps_left pc - 1"
  by (cases pc) (auto simp: Let_def case_prod_unfold split: sum.splits if_splits)

context c10d_store
begin

lemma committed_agree:
  assumes "plan_system_reachable so ps sys" "(p, Finished (Inr ())) \<in> set (sys_publishers sys)"
    "(q, Finished (Inr ())) \<in> set (sys_publishers sys)" "rp_to_generation p = rp_to_generation q"
  shows "p = q" "read_plan so ps (rp_to_generation p) (sys_store sys) = Inr (Some p)"
proof -
  obtain g where g: "publishers_ok so ps (sys_store sys) g (sys_publishers sys)"
    using reachable_ok [OF assms(1)] by blast
  have p: "plan_wf p" "rp_run_id p = ps_run_id ps" "stored_plan so ps (sys_store sys) p"
    "plan_wf q" "stored_plan so ps (sys_store sys) q"
    using g assms(2,3) by (auto simp: publishers_ok_def)
  have "plan_to_json p = plan_to_json q" using p assms(4) by (simp add: stored_plan_def)
  then show "p = q" using p by simp
  show "read_plan so ps (rp_to_generation p) (sys_store sys) = Inr (Some p)"
    using p by (intro read_plan_stored) (simp_all add: plan_for_def stored_plan_def)
qed

lemma history_kept:
  assumes "plan_system_reachable so ps sys" "plan_system_step so ps sys sys'"
  obtains g g' where "current_generation so ps (sys_store sys) = Inr g"
    "current_generation so ps (sys_store sys') = Inr g'" "g \<le> g'"
    "\<And>i. 1 \<le> i \<Longrightarrow> i \<le> g \<Longrightarrow> \<exists>p. plan_for ps i p \<and>
       read_plan so ps i (sys_store sys) = Inr (Some p) \<and> read_plan so ps i (sys_store sys') = Inr (Some p)"
proof -
  obtain g where g: "plans_ok so ps (sys_store sys) g" "publishers_ok so ps (sys_store sys) g (sys_publishers sys)"
    using reachable_ok [OF assms(1)] by blast
  obtain g' where g': "plans_ok so ps (sys_store sys') g'"
    "plans_grow so ps (sys_store sys) g (sys_store sys') g'"
    using plan_system_step_ok [OF assms(2) g] by blast
  have "\<exists>p. plan_for ps i p \<and> read_plan so ps i (sys_store sys) = Inr (Some p) \<and>
      read_plan so ps i (sys_store sys') = Inr (Some p)" if i: "1 \<le> i" "i \<le> g" for i
  proof -
    obtain p where p: "plan_for ps i p" "view so (sys_store sys) (plan_key ps i) = Some (plan_to_json p)"
      using plans_ok_plan [OF g(1) i] .
    then have "view so (sys_store sys') (plan_key ps i) = Some (plan_to_json p)"
      using g'(2) by (simp add: plans_grow_def)
    with p read_plan_stored show ?thesis by blast
  qed
  then show thesis
    using that at_generation_current plans_ok_generation [OF g(1)] plans_ok_generation [OF g'(1)] g'(2)
    by (metis plans_grow_def)
qed

end

section \<open>Properties of concurrent publication\<close>

text \<open>C2: Managers never disagree about a generation. In every interleaving, two publishers of
  the same generation whose calls succeeded hold the same plan, and it is the one every reader of that
  generation gets.\<close>

theorem concurrent_publish_agreement:
  assumes "c10d_store so" "plan_system_reachable so ps sys"
    "(p, Finished (Inr ())) \<in> set (sys_publishers sys)" "(q, Finished (Inr ())) \<in> set (sys_publishers sys)"
    "rp_to_generation p = rp_to_generation q"
  shows "p = q \<and> read_plan so ps (rp_to_generation p) (sys_store sys) = Inr (Some p)"
  using c10d_store.committed_agree [OF assms] by simp

lemma example_race:
  defines "sys \<equiv> \<lparr>sys_store = snd (publish hash_store example_ps example_plan example_store),
    sys_publishers = [(example_plan, Finished (Inr ()))]\<rparr>"
  shows "plan_system_reachable hash_store example_ps sys"
proof -
  let ?st = "publish_step hash_store example_ps example_plan"
  let ?sys = "\<lambda>pcs. \<lparr>sys_store = snd pcs, sys_publishers = [(example_plan, fst pcs)]\<rparr>"
  have go: "plan_system_reachable hash_store example_ps (?sys (?st pc s))"
    if "plan_system_reachable hash_store example_ps (?sys (pc, s))" for pc s
    using that
  proof (rule plan_system_reachable.step)
    show "plan_system_step hash_store example_ps (?sys (pc, s)) (?sys (?st pc s))"
      using plan_system_step.advance [where i = 0 and pubs = "[(example_plan, pc)]" and plan = example_plan
          and pc = pc and s = s and so = hash_store and ps = example_ps] by (simp add: prod_eq_iff)
  qed
  have "plan_system_reachable hash_store example_ps \<lparr>sys_store = example_store, sys_publishers = []\<rparr>"
    by (rule plan_system_reachable.start) (use example_facts in simp_all)
  then have 0: "plan_system_reachable hash_store example_ps (?sys (ReadGeneration, example_store))"
    by (rule plan_system_reachable.step) (use plan_system_step.arrive [OF example_plan_wf, of _ _ _ "[]"] in simp)
  let ?a = "?st ReadGeneration example_store"
  let ?b = "?st (fst ?a) (snd ?a)"
  have "plan_system_reachable hash_store example_ps (?sys (?st (fst ?b) (snd ?b)))"
    using go [of "fst ?b" "snd ?b"] go [of "fst ?a" "snd ?a"] go [OF 0] by simp
  then show ?thesis
    using publish_is_three_steps [of hash_store example_ps example_plan example_store]
      hs.publish_fresh(1) [OF example_facts(1), of example_store] example_facts
    by (simp add: sys_def case_prod_unfold Let_def)
qed

theorem concurrent_publish_agreement_witness:
  "read_plan hash_store example_ps 1 (snd (publish hash_store example_ps example_plan example_store)) =
     Inr (Some example_plan)"
  using concurrent_publish_agreement [OF hs.c10d_store_axioms example_race, of example_plan example_plan]
  by (simp add: example_plan_def)

text \<open>C3: History is append-only and without gaps. Whatever the interleaving, a step never lowers
  the current generation, every generation from 1 to the current one has a plan of this run, and that
  plan still reads the same after the step.\<close>

theorem plan_history_append_only:
  assumes "c10d_store so" "plan_system_reachable so ps sys" "plan_system_step so ps sys sys'"
  shows "\<exists>g g'. current_generation so ps (sys_store sys) = Inr g \<and>
    current_generation so ps (sys_store sys') = Inr g' \<and> g \<le> g' \<and>
    (\<forall>i. 1 \<le> i \<and> i \<le> g \<longrightarrow> (\<exists>p. plan_for ps i p \<and>
       read_plan so ps i (sys_store sys) = Inr (Some p) \<and> read_plan so ps i (sys_store sys') = Inr (Some p)))"
  by (rule c10d_store.history_kept [OF assms]) blast

theorem plan_history_append_only_witness:
  "\<exists>g. current_generation hash_store example_ps (snd (publish hash_store example_ps example_plan example_store)) = Inr g \<and>
     (\<forall>i. 1 \<le> i \<and> i \<le> g \<longrightarrow> (\<exists>p. plan_for example_ps i p))"
  using plan_history_append_only [OF hs.c10d_store_axioms example_race
      plan_system_step.arrive [OF example_plan_wf]] by fastforce

text \<open>Publication cannot be starved: every own step of a publisher brings it closer to its
  result, so it has one after three of its own steps whatever the others do in between.\<close>

theorem publisher_finishes:
  assumes "\<And>i. i < 3 \<Longrightarrow> publish_step so ps p (pc i) (s i) = (pc (Suc i), s' i)" "pc 0 = ReadGeneration"
  shows "\<exists>r. pc (3::nat) = Finished r"
proof -
  have "steps_left (pc (Suc i)) \<le> steps_left (pc i) - 1" if "i < 3" for i
    using assms(1) [OF that] by (rule steps_left_decreases)
  from this [of 0] this [of 1] this [of 2] have "steps_left (pc 3) = 0"
    by (simp add: assms(2) numeral_3_eq_3 numeral_2_eq_2)
  then show ?thesis by (cases "pc 3") auto
qed

definition example_step :: "publish_pc \<times> (string \<rightharpoonup> bytes) \<Rightarrow> publish_pc \<times> (string \<rightharpoonup> bytes)" where
  "example_step = (\<lambda>(pc, s). publish_step hash_store example_ps example_plan pc s)"

theorem publisher_finishes_witness:
  "\<exists>r. fst ((example_step ^^ 3) (ReadGeneration, example_store)) = Finished r"
  by (rule publisher_finishes [where pc = "\<lambda>i. fst ((example_step ^^ i) (ReadGeneration, example_store))"
        and s = "\<lambda>i. snd ((example_step ^^ i) (ReadGeneration, example_store))"
        and s' = "\<lambda>i. snd ((example_step ^^ Suc i) (ReadGeneration, example_store))"
        and so = hash_store and ps = example_ps and p = example_plan])
    (simp_all add: example_step_def case_prod_unfold)

end
