(* ===== verification/Coordinator.thy ===== *)
theory Coordinator
  imports Plan_Concurrency
begin

text \<open>
  \<open>TorchrunRecoveryCoordinator\<close> of \<open>lm_resiliency/integrations/torchrun/coordinator.py\<close>: the manager
  that turns one failure decision into the plan of the next generation, commits it and keeps its
  lease alive. Clock readings are arguments; a renewal thread is a value of \<open>lease_thread\<close>
  that one loop iteration updates together with the coordinator and the store. Stop events are
  numbered in the order they are created.
\<close>

datatype coordinator_error =
    LeaseRenewalFailed runtime_error
  | BadValue string
  | BadState string
  | BadPlan protocol_error
  | StoreFailure runtime_error

record initial_placement =
  ip_active :: "string list"
  ip_standby :: "string list"

record recovery_request =
  rr_plan_id :: string
  rr_intent_id :: string
  rr_reason_code :: string
  rr_recovery_mode :: string
  rr_checkpoint_source :: string
  rr_checkpoint_step :: int
  rr_checkpoint_manifest_id :: string
  rr_topology_digest :: string
  rr_restart_deadline_unix_ms :: int
  rr_checkpoint_id :: "string option"

record successor_placement =
  sp_generation :: int
  sp_active :: "string list"
  sp_quarantined :: "string list"

record coordinator =
  co_run_id :: string
  co_plans :: plan_store
  co_lease_stop :: "nat option"
  co_lease_error :: "runtime_error option"
  co_events :: nat
  co_events_set :: "nat list"

record lease_thread =
  lt_plan :: restart_plan
  lt_deadline :: real
  lt_stop :: nat
  lt_failures :: nat
  lt_wait :: bool
  lt_running :: bool

definition init_coordinator ::
  "'s store_ops \<Rightarrow> (string \<Rightarrow> string) \<Rightarrow> string \<Rightarrow> 's \<Rightarrow> (runtime_error + coordinator) \<times> 's" where
  "init_coordinator so sha run_id s =
     (case init_plan_store so sha run_id s of
        (Inl e, s1) \<Rightarrow> (Inl e, s1)
      | (Inr plans, s1) \<Rightarrow>
          (Inr \<lparr>co_run_id = run_id, co_plans = plans, co_lease_stop = None, co_lease_error = None,
                co_events = 0, co_events_set = []\<rparr>, s1))"

definition check_health :: "coordinator \<Rightarrow> coordinator_error + unit" where
  "check_health co =
     (case co_lease_error co of None \<Rightarrow> Inr () | Some e \<Rightarrow> Inl (LeaseRenewalFailed e))"

definition coordinator_generation :: "'s store_ops \<Rightarrow> coordinator \<Rightarrow> 's \<Rightarrow> coordinator_error + int" where
  "coordinator_generation so co s =
     rbind (check_health co) (\<lambda>_. rcatch StoreFailure (current_generation so (co_plans co) s))"

definition initial_placement_of ::
  "'s store_ops \<Rightarrow> coordinator \<Rightarrow> int \<Rightarrow> int \<Rightarrow> 's \<Rightarrow> (coordinator_error + initial_placement option) \<times> 's" where
  "initial_placement_of so co active_node_count allocated_node_count s =
     (case rbind (check_health co) (\<lambda>_.
           rbind (ensure (1 \<le> active_node_count) (BadValue ''active_node_count must be positive'')) (\<lambda>_.
           rbind (ensure (active_node_count \<le> allocated_node_count)
             (BadValue ''allocated_node_count must be at least active_node_count'')) (\<lambda>_.
           rcatch StoreFailure (read_initial_nodes so (co_plans co) s)))) of
        Inl e \<Rightarrow> (Inl e, s)
      | Inr None \<Rightarrow> (Inr None, s)
      | Inr (Some active) \<Rightarrow>
          (case registered_nodes so (co_plans co) (Some allocated_node_count) s of
             (Inl e, s1) \<Rightarrow> (Inl (StoreFailure e), s1)
           | (Inr registered, s1) \<Rightarrow>
               if int (length registered) < allocated_node_count then (Inr None, s1)
               else if int (length active) \<noteq> active_node_count then
                 (Inl (BadState ''committed initial placement has the wrong active-node count''), s1)
               else
                 let standbys = filter (\<lambda>n. n \<notin> set active) registered
                 in if int (length standbys) \<noteq> allocated_node_count - active_node_count then
                      (Inl (BadState ''committed initial placement has the wrong standby count''), s1)
                    else (Inr (Some \<lparr>ip_active = active, ip_standby = standbys\<rparr>), s1)))"

section \<open>The plan lease\<close>

definition stop_plan_lease :: "coordinator \<Rightarrow> coordinator" where
  "stop_plan_lease co =
     (case co_lease_stop co of
        None \<Rightarrow> co
      | Some ev \<Rightarrow> co\<lparr>co_lease_stop := None, co_events_set := ev # co_events_set co\<rparr>)"

definition publish_remaining ::
  "'s store_ops \<Rightarrow> (string \<Rightarrow> string) \<Rightarrow> plan_store \<Rightarrow> restart_plan \<Rightarrow> real \<Rightarrow> 's \<Rightarrow> (runtime_error + int) \<times> 's" where
  "publish_remaining so sha ps plan remaining s =
     renew_plan_lease so sha ps plan (if remaining \<le> 0 then 0 else \<lceil>remaining * 1000\<rceil>) s"

text \<open>\<open>_start_plan_lease\<close>; \<open>now\<close> is \<open>time.monotonic()\<close>.\<close>

definition start_plan_lease ::
  "'s store_ops \<Rightarrow> (string \<Rightarrow> string) \<Rightarrow> real \<Rightarrow> coordinator \<Rightarrow> restart_plan \<Rightarrow> real \<Rightarrow> 's
     \<Rightarrow> coordinator \<times> lease_thread \<times> 's" where
  "start_plan_lease so sha now co plan remaining_seconds s =
     (let co1 = stop_plan_lease co;
          stop = co_events co1;
          (r, s1) = publish_remaining so sha (co_plans co1) plan remaining_seconds s;
          initial_failures = (case r of Inl _ \<Rightarrow> 1 | Inr _ \<Rightarrow> 0)
      in (co1\<lparr>co_lease_stop := Some stop, co_events := Suc stop, co_lease_error := None\<rparr>,
          \<lparr>lt_plan = plan, lt_deadline = now + remaining_seconds, lt_stop = stop,
           lt_failures = initial_failures, lt_wait = (initial_failures = 0), lt_running = True\<rparr>, s1))"

text \<open>
  One iteration of the loop in \<open>renew\<close>: \<open>now\<close> and \<open>later\<close> are its two clock readings and
  \<open>stopped\<close> is what \<open>stop.wait\<close> returned, when it is called.
\<close>

definition renew_iteration ::
  "'s store_ops \<Rightarrow> (string \<Rightarrow> string) \<Rightarrow> real \<Rightarrow> bool \<Rightarrow> real \<Rightarrow> lease_thread \<Rightarrow> coordinator \<Rightarrow> 's
     \<Rightarrow> lease_thread \<times> coordinator \<times> 's" where
  "renew_iteration so sha now stopped later lt co s =
     (let remaining = lt_deadline lt - now
      in if remaining \<le> 0 then
           (lt\<lparr>lt_running := False\<rparr>, co, snd (publish_remaining so sha (co_plans co) (lt_plan lt) 0 s))
         else if lt_wait lt \<and> stopped then (lt\<lparr>lt_running := False\<rparr>, co, s)
         else
           (case publish_remaining so sha (co_plans co) (lt_plan lt) (lt_deadline lt - later) s of
              (Inr _, s1) \<Rightarrow> (lt\<lparr>lt_wait := True, lt_failures := 0\<rparr>, co, s1)
            | (Inl e, s1) \<Rightarrow>
                let n = Suc (lt_failures lt)
                in (lt\<lparr>lt_wait := True, lt_failures := n\<rparr>,
                    (if n \<ge> 3 \<and> co_lease_stop co = Some (lt_stop lt) \<and> lt_stop lt \<notin> set (co_events_set co)
                     then co\<lparr>co_lease_error := Some e\<rparr> else co), s1)))"

definition close_coordinator :: "'s store_ops \<Rightarrow> coordinator \<Rightarrow> 's \<Rightarrow> (coordinator_error + unit) \<times> coordinator \<times> 's" where
  "close_coordinator so co s =
     (let co1 = stop_plan_lease co; s1 = close_run so (co_plans co1) s
      in (check_health co1, co1, s1))"

section \<open>Successor generations\<close>

text \<open>The committed active and quarantined nodes the caller's view is compared with.\<close>

definition committed_placement ::
  "'s store_ops \<Rightarrow> coordinator \<Rightarrow> int \<Rightarrow> int \<Rightarrow> recovery_request \<Rightarrow> 's
     \<Rightarrow> coordinator_error + (string list \<times> string list)" where
  "committed_placement so co generation local_world_size request s =
     (if generation = 0 then
        rbind (rcatch StoreFailure (read_initial_nodes so (co_plans co) s)) (\<lambda>committed.
        case committed of
          None \<Rightarrow> Inl (BadState ''generation-zero placement is not committed'')
        | Some active \<Rightarrow> Inr (active, []))
      else
        rbind (rcatch StoreFailure (read_plan so (co_plans co) generation s)) (\<lambda>committed.
        case committed of
          None \<Rightarrow> Inl (BadState ''generation has no committed recovery plan'')
        | Some plan \<Rightarrow>
            rbind (ensure (local_world_size = sa_local_size (rp_slot_assignments plan ! 0))
              (BadState ''local_world_size does not match the committed worker topology'')) (\<lambda>_.
            rbind (ensure (rr_topology_digest request = rp_topology_digest plan)
              (BadState ''recovery request topology_digest does not match the committed topology'')) (\<lambda>_.
            Inr (map sa_node (rp_slot_assignments plan), rp_quarantined_node_ids plan)))))"

text \<open>The replacement of one slot: the new node takes it and the failed node is quarantined.\<close>

definition replace_node ::
  "'s store_ops \<Rightarrow> coordinator \<Rightarrow> (int \<times> string) option \<Rightarrow> string list \<Rightarrow> string list \<Rightarrow> 's
     \<Rightarrow> (coordinator_error + (string list \<times> string list)) \<times> 's" where
  "replace_node so co replacement active quarantined s =
     (case replacement of
        None \<Rightarrow> (Inr (active, quarantined), s)
      | Some (slot, node) \<Rightarrow>
          if slot < 0 \<or> int (length active) \<le> slot then
            (Inl (BadValue ''replacement slot is outside the active placement''), s)
          else if strip node = [] then (Inl (BadValue ''replacement node ID must be non-empty''), s)
          else if node \<in> set active \<or> node \<in> set quarantined then
            (Inl (BadValue ''replacement node is already active or quarantined''), s)
          else
            (case registered_nodes so (co_plans co) None s of
               (Inl e, s1) \<Rightarrow> (Inl (StoreFailure e), s1)
             | (Inr registered, s1) \<Rightarrow>
                 if node \<notin> set registered then
                   (Inl (BadValue ''replacement node is not registered in this torchrun allocation''), s1)
                 else (Inr (active[nat slot := node], quarantined @ [active ! nat slot]), s1)))"

definition successor_slots :: "string list \<Rightarrow> int \<Rightarrow> slot_assignment list" where
  "successor_slots active local_world_size =
     map (\<lambda>(slot, node). \<lparr>sa_slot = int slot, sa_node = node,
            sa_first_rank = int slot * local_world_size, sa_local_size = local_world_size\<rparr>)
       (enumerate 0 active)"

definition successor_plan ::
  "coordinator \<Rightarrow> int \<Rightarrow> recovery_request \<Rightarrow> int \<Rightarrow> string list \<Rightarrow> string list \<Rightarrow> coordinator_error + restart_plan" where
  "successor_plan co generation request local_world_size active quarantined =
     rcatch BadPlan (rbind (rmap slot_post_init (successor_slots active local_world_size)) (\<lambda>slots.
       plan_post_init
         \<lparr>rp_plan_id = rr_plan_id request, rp_intent_id = rr_intent_id request, rp_run_id = co_run_id co,
          rp_from_generation = generation, rp_to_generation = generation + 1,
          rp_incident_ids = [rr_intent_id request], rp_reason_code = rr_reason_code request,
          rp_recovery_mode = rr_recovery_mode request, rp_checkpoint_source = rr_checkpoint_source request,
          rp_checkpoint_step = rr_checkpoint_step request, rp_checkpoint_id = rr_checkpoint_id request,
          rp_checkpoint_manifest_id = rr_checkpoint_manifest_id request, rp_slot_assignments = slots,
          rp_quarantined_node_ids = quarantined,
          rp_expected_world_size = int (length active) * local_world_size,
          rp_topology_digest = rr_topology_digest request,
          rp_restart_deadline_unix_ms = rr_restart_deadline_unix_ms request\<rparr>))"

text \<open>
  The checks of \<open>publish_successor\<close> before anything is written. \<open>unix_ms\<close> is
  \<open>time.time_ns() // 1_000_000\<close>; the result is the remaining time in seconds.
\<close>

definition check_successor ::
  "'s store_ops \<Rightarrow> int \<Rightarrow> coordinator \<Rightarrow> int \<Rightarrow> string list \<Rightarrow> string list \<Rightarrow> recovery_request \<Rightarrow> int \<Rightarrow> 's
     \<Rightarrow> coordinator_error + real" where
  "check_successor so unix_ms co generation active quarantined request local_world_size s =
     rbind (check_health co) (\<lambda>_.
     rbind (ensure (0 \<le> generation) (BadValue ''generation must be non-negative'')) (\<lambda>_.
     rbind (ensure (1 \<le> local_world_size) (BadValue ''local_world_size must be positive'')) (\<lambda>_.
     rbind (ensure (active \<noteq> [] \<and> distinct active) (BadValue ''active_node_ids must be non-empty and unique'')) (\<lambda>_.
     rbind (ensure (distinct quarantined) (BadValue ''quarantined_node_ids must be unique'')) (\<lambda>_.
     rbind (ensure (\<not> overlaps active quarantined)
       (BadValue ''active and quarantined node IDs must be disjoint'')) (\<lambda>_.
     rbind (rcatch StoreFailure (current_generation so (co_plans co) s)) (\<lambda>current.
     rbind (ensure (current = generation) (BadState ''manager generation is stale'')) (\<lambda>_.
     rbind (committed_placement so co generation local_world_size request s) (\<lambda>(c_active, c_quarantined).
     rbind (ensure (active = c_active) (BadState ''active_node_ids do not match the committed placement'')) (\<lambda>_.
     rbind (ensure (quarantined = c_quarantined)
       (BadState ''quarantined_node_ids do not match the committed quarantine history'')) (\<lambda>_.
     rbind (ensure (unix_ms < rr_restart_deadline_unix_ms request)
       (BadValue ''restart deadline must be in the future'')) (\<lambda>_.
     Inr (of_int (rr_restart_deadline_unix_ms request - unix_ms) / 1000)))))))))))))"

definition publish_successor ::
  "'s store_ops \<Rightarrow> (string \<Rightarrow> string) \<Rightarrow> int \<Rightarrow> real \<Rightarrow> coordinator \<Rightarrow> int \<Rightarrow> string list \<Rightarrow> string list
     \<Rightarrow> recovery_request \<Rightarrow> int \<Rightarrow> (int \<times> string) option \<Rightarrow> 's
     \<Rightarrow> (coordinator_error + successor_placement) \<times> coordinator \<times> lease_thread option \<times> 's" where
  "publish_successor so sha unix_ms now co generation active_node_ids quarantined_node_ids request
       local_world_size replacement s =
     (case check_successor so unix_ms co generation active_node_ids quarantined_node_ids request local_world_size s of
        Inl e \<Rightarrow> (Inl e, co, None, s)
      | Inr remaining_seconds \<Rightarrow>
          (case replace_node so co replacement active_node_ids quarantined_node_ids s of
             (Inl e, s1) \<Rightarrow> (Inl e, co, None, s1)
           | (Inr (active, quarantined), s1) \<Rightarrow>
               (case successor_plan co generation request local_world_size active quarantined of
                  Inl e \<Rightarrow> (Inl e, co, None, s1)
                | Inr plan \<Rightarrow>
                    (case publish so (co_plans co) plan s1 of
                       (Inl e, s2) \<Rightarrow> (Inl (StoreFailure e), co, None, s2)
                     | (Inr _, s2) \<Rightarrow>
                         let (co1, lt, s3) = start_plan_lease so sha now co plan remaining_seconds s2
                         in (Inr \<lparr>sp_generation = rp_to_generation plan, sp_active = active,
                                  sp_quarantined = quarantined\<rparr>, co1, Some lt, s3)))))"

end
