(* ===== verification/Coordinator_Laws.thy ===== *)
theory Coordinator_Laws
  imports Coordinator
begin

text \<open>
  What the recovery coordinator guarantees: a decided successor extends the committed plan of the
  generation it starts from, any number of managers can decide and publish concurrently without
  releasing a quarantined node or changing the shape of the run, a valid replacement is published,
  and lease failures are reported by the current renewal thread only.
\<close>

section \<open>What a published successor is\<close>

lemma stop_plan_lease_same [simp]:
  "co_plans (stop_plan_lease co) = co_plans co" "co_run_id (stop_plan_lease co) = co_run_id co"
  by (simp_all add: stop_plan_lease_def split: option.split)

lemma registered_nodes_keeps: "registered_nodes so ps None s = (r, s1) \<Longrightarrow> s1 = s"
  by (auto simp: registered_nodes_def split: prod.splits sum.splits if_splits)

lemma replace_node_keeps: "replace_node so co repl active quarantined s = (r, s1) \<Longrightarrow> s1 = s"
  by (auto simp: replace_node_def dest: registered_nodes_keeps split: option.splits prod.splits sum.splits if_splits)

lemma replace_node_cases:
  assumes "replace_node so co repl active quarantined s = (Inr (a, q), s1)"
  obtains "repl = None" "a = active" "q = quarantined"
    | i node where "i < length active" "node \<notin> set active" "node \<notin> set quarantined"
      "a = active[i := node]" "q = quarantined @ [active ! i]"
proof (cases repl)
  case None
  then show ?thesis using that(1) assms by (simp add: replace_node_def)
next
  case (Some sn)
  obtain slot node where sn: "sn = (slot, node)" by (cases sn)
  have "nat slot < length active" "node \<notin> set active" "node \<notin> set quarantined"
    using assms by (auto simp: replace_node_def Some sn nat_less_iff split: if_splits)
  moreover have "a = active[nat slot := node]" "q = quarantined @ [active ! nat slot]"
    using assms by (auto simp: replace_node_def Some sn split: prod.splits sum.splits if_splits)
  ultimately show ?thesis using that(2) [of "nat slot" node] by simp
qed

lemma replace_node_effect:
  assumes "replace_node so co repl active quarantined s = (Inr (a, q), s1)"
    "distinct active" "distinct quarantined" "set active \<inter> set quarantined = {}"
  shows "length a = length active" "distinct a" "distinct q" "set a \<inter> set q = {}" "set quarantined \<subseteq> set q"
    "set active \<subseteq> set a \<union> set q"
proof -
  consider "repl = None" "a = active" "q = quarantined"
    | i node where "i < length active" "node \<notin> set active" "node \<notin> set quarantined"
      "a = active[i := node]" "q = quarantined @ [active ! i]"
    using assms(1) by (rule replace_node_cases)
  then have "length a = length active \<and> distinct a \<and> distinct q \<and> set a \<inter> set q = {} \<and>
      set quarantined \<subseteq> set q \<and> set active \<subseteq> set a \<union> set q"
  proof cases
    case 1
    then show ?thesis using assms by auto
  next
    case (2 i node)
    have old: "active ! i \<notin> set (active[i := node])"
      using 2 assms(2) by (auto simp: in_set_conv_nth nth_list_update nth_eq_iff_index_eq)
    moreover have "set active \<subseteq> insert (active ! i) (set (active[i := node]))"
      by (metis insert_iff list_update_id list_update_overwrite set_update_subset_insert subsetI subset_eq)
    moreover have "set (active[i := node]) \<subseteq> insert node (set active)" by (rule set_update_subset_insert)
    moreover have "active ! i \<in> set active" "active ! i \<notin> set quarantined"
      using 2(1) assms(4) by (auto simp: disjoint_iff)
    ultimately show ?thesis
      using 2 assms(2-4) by (auto intro: distinct_list_update)
  qed
  then show "length a = length active" "distinct a" "distinct q" "set a \<inter> set q = {}" "set quarantined \<subseteq> set q"
    "set active \<subseteq> set a \<union> set q" by auto
qed

lemma map_sa_node_slots: "map sa_node (successor_slots active L) = active"
  by (simp add: successor_slots_def case_prod_unfold comp_def)

lemma rmap_slot_post_init: "rmap slot_post_init xs = Inr ys \<Longrightarrow> ys = xs \<and> (\<forall>a \<in> set xs. slot_post_init a = Inr a)"
  by (induction xs arbitrary: ys) (auto simp: rbind_Inr_iff slot_post_init_iff)

lemma successor_plan_fields:
  assumes "successor_plan co g req L active quarantined = Inr p"
  shows "plan_wf p" "rp_run_id p = co_run_id co" "rp_from_generation p = g" "rp_to_generation p = g + 1"
    "map sa_node (rp_slot_assignments p) = active" "rp_quarantined_node_ids p = quarantined"
    "rp_slot_assignments p = successor_slots active L" "rp_topology_digest p = rr_topology_digest req"
proof -
  have slots: "\<forall>a \<in> set (successor_slots active L). slot_post_init a = Inr a"
    and p: "\<exists>q. plan_post_init q = Inr p \<and> rp_run_id q = co_run_id co \<and> rp_from_generation q = g \<and>
      rp_to_generation q = g + 1 \<and> rp_slot_assignments q = successor_slots active L \<and>
      rp_quarantined_node_ids q = quarantined \<and> rp_topology_digest q = rr_topology_digest req"
    using assms by (auto simp: successor_plan_def rcatch_Inr_iff rbind_Inr_iff dest!: rmap_slot_post_init)
  have "sorted (map sa_slot (successor_slots active L))"
  proof -
    have "map sa_slot (successor_slots active L) = map int [0..<length active]"
      by (rule nth_equalityI) (simp_all add: successor_slots_def nth_enumerate_eq)
    then show ?thesis by (simp add: sorted_iff_nth_mono)
  qed
  then have sorted: "sort_key sa_slot (successor_slots active L) = successor_slots active L"
    by (rule sort_key_id_if_sorted)
  from p obtain q where q: "plan_post_init q = Inr p" "rp_slot_assignments q = successor_slots active L"
      "rp_run_id q = co_run_id co" "rp_from_generation q = g" "rp_to_generation q = g + 1"
      "rp_quarantined_node_ids q = quarantined" "rp_topology_digest q = rr_topology_digest req" by blast
  have pq: "p = q" using q(1,2) sorted by (auto simp: plan_post_init_iff)
  show "plan_wf p" using q(1,2) slots by (simp add: pq plan_wf_def list_all_iff)
  show "map sa_node (rp_slot_assignments p) = active" by (simp add: pq q map_sa_node_slots)
  show "rp_run_id p = co_run_id co" "rp_from_generation p = g" "rp_to_generation p = g + 1"
    "rp_quarantined_node_ids p = quarantined" "rp_slot_assignments p = successor_slots active L"
    "rp_topology_digest p = rr_topology_digest req"
    by (simp_all add: pq q)
qed

text \<open>The successor of a committed plan: same shape, no node released from quarantine.\<close>

definition extends_plan :: "restart_plan \<Rightarrow> restart_plan \<Rightarrow> bool" where
  "extends_plan c p \<longleftrightarrow>
     length (rp_slot_assignments p) = length (rp_slot_assignments c) \<and>
     set (rp_quarantined_node_ids c) \<subseteq> set (rp_quarantined_node_ids p) \<and>
     sa_node ` set (rp_slot_assignments c) \<subseteq> sa_node ` set (rp_slot_assignments p) \<union> set (rp_quarantined_node_ids p) \<and>
     rp_topology_digest p = rp_topology_digest c"

lemma check_successor_facts:
  assumes "check_successor so unix_ms co g active quarantined req L s = Inr remaining"
  shows "0 \<le> g" "1 \<le> L" "active \<noteq> []" "distinct active" "distinct quarantined"
    "set active \<inter> set quarantined = {}" "current_generation so (co_plans co) s = Inr g"
    "committed_placement so co g L req s = Inr (active, quarantined)" "0 < remaining"
    "remaining = of_int (rr_restart_deadline_unix_ms req - unix_ms) / 1000" "co_lease_error co = None"
  using assms by (auto simp: check_successor_def rbind_Inr_iff rcatch_Inr_iff check_health_def split: option.splits)

text \<open>The plan a manager is about to publish extends the plan its own generation committed.\<close>

lemma decided_plan_extends:
  assumes "check_successor so unix_ms co g active quarantined req L s = Inr remaining"
    "replace_node so co repl active quarantined s = (Inr (a, q), s1)"
    "successor_plan co g req L a q = Inr p" "1 \<le> g" "read_plan so (co_plans co) g s = Inr (Some c)"
  shows "extends_plan c p"
proof -
  note chk = check_successor_facts [OF assms(1)]
  note rep = replace_node_effect [OF assms(2) chk(4,5,6)]
  note fld = successor_plan_fields [OF assms(3)]
  have "map sa_node (rp_slot_assignments c) = active" "rp_quarantined_node_ids c = quarantined"
    "rr_topology_digest req = rp_topology_digest c"
    using chk(8) assms(4,5) by (auto simp: committed_placement_def rbind_Inr_iff)
  moreover have "length (rp_slot_assignments p) = length a" using fld(5) by (metis length_map)
  moreover have "sa_node ` set (rp_slot_assignments p) = set a" using fld(5) by (metis set_map)
  moreover have "sa_node ` set (rp_slot_assignments c) = set active"
    using calculation(1) by (metis set_map)
  ultimately show ?thesis
    using rep fld(6,8) unfolding extends_plan_def by (metis length_map)
qed

section \<open>Any number of managers\<close>

text \<open>
  Managers of one run deciding successors and publishing them, interleaved at the store accesses
  of \<open>publish\<close>. A decision reads the store as it is when it is taken; its publication may come much
  later.
\<close>

inductive recovery_step :: "'s store_ops \<Rightarrow> plan_store \<Rightarrow> 's plan_system \<Rightarrow> 's plan_system \<Rightarrow> bool"
  for so :: "'s store_ops" and ps :: plan_store where
  decide: "co_plans co = ps \<Longrightarrow>
     check_successor so unix_ms co generation active quarantined request local_world_size s = Inr remaining \<Longrightarrow>
     replace_node so co replacement active quarantined s = (Inr (a, q), s') \<Longrightarrow>
     successor_plan co generation request local_world_size a q = Inr plan \<Longrightarrow>
     recovery_step so ps \<lparr>sys_store = s, sys_publishers = pubs\<rparr>
       \<lparr>sys_store = s', sys_publishers = pubs @ [(plan, ReadGeneration)]\<rparr>"
| publishing: "i < length pubs \<Longrightarrow> pubs ! i = (plan, pc) \<Longrightarrow> publish_step so ps plan pc s = (pc', s') \<Longrightarrow>
     recovery_step so ps \<lparr>sys_store = s, sys_publishers = pubs\<rparr>
       \<lparr>sys_store = s', sys_publishers = pubs[i := (plan, pc')]\<rparr>"
| elsewhere: "view so s' (generation_key ps) = view so s (generation_key ps) \<Longrightarrow>
     (\<And>g. view so s' (plan_key ps g) = view so s (plan_key ps g)) \<Longrightarrow>
     recovery_step so ps \<lparr>sys_store = s, sys_publishers = pubs\<rparr> \<lparr>sys_store = s', sys_publishers = pubs\<rparr>"

inductive recovery_reachable :: "'s store_ops \<Rightarrow> plan_store \<Rightarrow> 's plan_system \<Rightarrow> bool"
  for so :: "'s store_ops" and ps :: plan_store where
  begin_run: "at_generation so ps s 0 \<Longrightarrow> (\<And>g. view so s (plan_key ps g) = None) \<Longrightarrow>
     recovery_reachable so ps \<lparr>sys_store = s, sys_publishers = []\<rparr>"
| continue_run: "recovery_reachable so ps sys \<Longrightarrow> recovery_step so ps sys sys' \<Longrightarrow>
     recovery_reachable so ps sys'"

text \<open>Managers are publishers: every recovery run is a run of the plan system.\<close>

lemma recovery_step_simulates: "recovery_step so ps sys sys' \<Longrightarrow> plan_system_step so ps sys sys'"
proof (induction rule: recovery_step.induct)
  case (decide co unix_ms generation active quarantined request L s remaining replacement a q s' plan pubs)
  have "s' = s" using decide(3) by (rule replace_node_keeps)
  then show ?case using plan_system_step.arrive [OF successor_plan_fields(1) [OF decide(4)]] by simp
next
  case (publishing i pubs plan pc s pc' s')
  then show ?case by (rule plan_system_step.advance)
next
  case (elsewhere s' s pubs)
  then show ?case by (rule plan_system_step.other)
qed

lemma recovery_reachable_simulates: "recovery_reachable so ps sys \<Longrightarrow> plan_system_reachable so ps sys"
  by (induction rule: recovery_reachable.induct)
    (auto intro: plan_system_reachable.intros dest: recovery_step_simulates)

text \<open>Each pending plan extends the plan committed for the generation it starts from, and so does
  each stored plan.\<close>

definition pending_extends :: "'s store_ops \<Rightarrow> plan_store \<Rightarrow> 's \<Rightarrow> restart_plan \<Rightarrow> bool" where
  "pending_extends so ps s p \<longleftrightarrow> (1 \<le> rp_from_generation p \<longrightarrow>
     (\<exists>c. plan_for ps (rp_from_generation p) c \<and> stored_plan so ps s c \<and> extends_plan c p))"

definition stored_extend :: "'s store_ops \<Rightarrow> plan_store \<Rightarrow> 's \<Rightarrow> bool" where
  "stored_extend so ps s \<longleftrightarrow> (\<forall>p. plan_wf p \<and> stored_plan so ps s p \<longrightarrow> pending_extends so ps s p)"

lemma pending_extends_grow:
  "pending_extends so ps s p \<Longrightarrow> plans_grow so ps s g s' g' \<Longrightarrow> pending_extends so ps s' p"
  by (auto simp: pending_extends_def plans_grow_def stored_plan_def)

text \<open>A step of a publisher stores no plan but its own.\<close>

context c10d_store
begin

lemma publish_step_stores:
  assumes "plans_ok so ps s g" "plan_wf p" "pc_ok so ps s g p pc" "publish_step so ps p pc s = (pc', s')"
    "plan_wf x" "stored_plan so ps s' x"
  shows "stored_plan so ps s x \<or> x = p"
proof (cases pc)
  case WritePlan
  let ?k = "plan_key ps (rp_to_generation p)"
  let ?c = "store_compare_set so s ?k [] (plan_to_json p)"
  have s': "s' = fst ?c"
    using assms(4) WritePlan by (auto simp: Let_def case_prod_unfold split: sum.splits if_splits)
  have "view so s' = view so s \<or> view so s' = (view so s)(?k := Some (plan_to_json p))"
    using compare_set_create [of s ?k "plan_to_json p"] plans_ok_cases [OF assms(1), of "rp_to_generation p"]
    by (auto simp: s')
  then show ?thesis using assms(2,5,6) by (auto simp: stored_plan_def split: if_splits)
next
  case AdvanceGeneration
  let ?c = "store_compare_set so s (generation_key ps) (int_str (rp_from_generation p)) (int_str (rp_to_generation p))"
  have s': "s' = fst ?c" using assms(4) AdvanceGeneration by (simp add: Let_def case_prod_unfold)
  have "view so s (generation_key ps) \<noteq> None"
    using plans_ok_generation [OF assms(1)] by (simp add: at_generation_def)
  then have "view so s' (plan_key ps i) = view so s (plan_key ps i)" for i
    unfolding s' by (intro compare_set_frame) auto
  then show ?thesis using assms(6) by (simp add: stored_plan_def)
qed (use assms in \<open>auto simp: split: sum.splits if_splits\<close>)

lemma decide_pending:
  assumes "plans_ok so ps s g0" "co_plans co = ps"
    "check_successor so unix_ms co g active quarantined req L s = Inr remaining"
    "replace_node so co repl active quarantined s = (Inr (a, q), s1)"
    "successor_plan co g req L a q = Inr p"
  shows "pending_extends so ps s p"
  unfolding pending_extends_def
proof
  note fld = successor_plan_fields [OF assms(5)]
  assume "1 \<le> rp_from_generation p"
  then have g: "1 \<le> g" by (simp add: fld)
  have "g = g0"
    using check_successor_facts(7) [OF assms(3)] at_generation_current [OF plans_ok_generation [OF assms(1)]]
    by (simp add: assms(2))
  then obtain c where c: "plan_for ps g c" "view so s (plan_key ps g) = Some (plan_to_json c)"
    using plans_ok_plan [OF assms(1) g] by auto
  then have "extends_plan c p"
    using decided_plan_extends [OF assms(3-5) g] read_plan_stored [OF c] by (simp add: assms(2))
  then show "\<exists>c. plan_for ps (rp_from_generation p) c \<and> stored_plan so ps s c \<and> extends_plan c p"
    using c by (auto simp: fld(3) stored_plan_def plan_for_def)
qed

lemma recovery_extends:
  assumes "recovery_reachable so ps sys"
  shows "stored_extend so ps (sys_store sys) \<and>
    (\<forall>(p, pc) \<in> set (sys_publishers sys). pending_extends so ps (sys_store sys) p)"
  using assms
proof induction
  case (begin_run s)
  then show ?case by (simp add: stored_extend_def stored_plan_def)
next
  case (continue_run sys sys')
  obtain g where g: "plans_ok so ps (sys_store sys) g" "publishers_ok so ps (sys_store sys) g (sys_publishers sys)"
    using reachable_ok [OF recovery_reachable_simulates [OF continue_run(1)]] by blast
  obtain g' where grow: "plans_grow so ps (sys_store sys) g (sys_store sys') g'"
    using plan_system_step_ok [OF recovery_step_simulates [OF continue_run(2)] g] by blast
  have keep: "pending_extends so ps (sys_store sys') p" if "pending_extends so ps (sys_store sys) p" for p
    using that grow by (rule pending_extends_grow)
  from continue_run(2) show ?case
  proof (cases rule: recovery_step.cases)
    case (decide co unix_ms generation active quarantined request L s remaining replacement a q s' plan pubs)
    have "s' = s" using decide(5) by (rule replace_node_keeps)
    moreover have "pending_extends so ps s plan"
      using decide_pending [OF _ decide(3-6)] g(1) decide(1) by simp
    ultimately show ?thesis using continue_run(3) decide(1,2) by auto
  next
    case (publishing i pubs plan pc s pc' s')
    have mem: "(plan, pc) \<in> set pubs" using publishing(3,4) by (metis nth_mem)
    then have plan: "plan_wf plan" "pc_ok so ps s g plan pc" "pending_extends so ps s' plan"
      using g(2) continue_run(3) keep publishing(1,2) by (auto simp: publishers_ok_def)
    have "stored_extend so ps s'"
      unfolding stored_extend_def
    proof (intro allI impI, elim conjE)
      fix x assume x: "plan_wf x" "stored_plan so ps s' x"
      then consider "x = plan" | "stored_plan so ps s x"
        using publish_step_stores [OF _ plan(1,2) publishing(5)] g(1) publishing(1) by auto
      then show "pending_extends so ps s' x"
        using x(1) plan(3) keep continue_run(3) publishing(1,2) by cases (auto simp: stored_extend_def)
    qed
    moreover have "\<forall>(p, pc) \<in> set (pubs[i := (plan, pc')]). pending_extends so ps s' p"
      using continue_run(3) keep publishing(1,2) plan(3) set_update_subset_insert [of pubs i "(plan, pc')"]
      by fastforce
    ultimately show ?thesis using publishing(2) by simp
  next
    case (elsewhere s' s pubs)
    have "stored_plan so ps s' x = stored_plan so ps s x" for x using elsewhere by (simp add: stored_plan_def)
    then show ?thesis using continue_run(3) keep elsewhere(1,2) by (fastforce simp: stored_extend_def)
  qed
qed

lemma history_extends:
  assumes "stored_extend so ps s" "plan_for ps i c" "stored_plan so ps s c"
    "plan_for ps (i + int n) d" "stored_plan so ps s d"
  shows "set (rp_quarantined_node_ids c) \<subseteq> set (rp_quarantined_node_ids d) \<and>
    length (rp_slot_assignments c) = length (rp_slot_assignments d) \<and>
    rp_topology_digest c = rp_topology_digest d"
  using assms(4,5)
proof (induction n arbitrary: d)
  case 0
  then have "plan_to_json c = plan_to_json d" using assms(2,3) by (simp add: plan_for_def stored_plan_def)
  then have "c = d" using 0 assms(2) by (simp add: plan_for_def)
  then show ?case by simp
next
  case (Suc n)
  have "rp_from_generation d = i + int n" "1 \<le> rp_from_generation d"
    using plan_for_from [OF Suc.prems(1)] plan_for_from [OF assms(2)] by auto
  moreover have "pending_extends so ps s d"
    using assms(1) Suc.prems by (simp add: stored_extend_def plan_for_def)
  ultimately obtain e where e: "plan_for ps (i + int n) e" "stored_plan so ps s e" "extends_plan e d"
    by (auto simp: pending_extends_def)
  with Suc.IH [OF e(1,2)] show ?case by (auto simp: extends_plan_def)
qed

end

section \<open>A successor is published\<close>

text \<open>A request that can be turned into a plan.\<close>

definition request_ok :: "recovery_request \<Rightarrow> bool" where
  "request_ok r \<longleftrightarrow> strip (rr_plan_id r) \<noteq> [] \<and> strip (rr_intent_id r) \<noteq> [] \<and>
     strip (rr_reason_code r) \<noteq> [] \<and> rr_recovery_mode r \<in> set recovery_modes \<and>
     rr_checkpoint_source r \<in> set checkpoint_sources \<and> 1 \<le> rr_checkpoint_step r \<and>
     (\<forall>s. rr_checkpoint_id r = Some s \<longrightarrow> strip s \<noteq> []) \<and>
     (rr_checkpoint_source r = ''durable'' \<longleftrightarrow> rr_checkpoint_id r \<noteq> None) \<and>
     strip (rr_checkpoint_manifest_id r) \<noteq> [] \<and> strip (rr_topology_digest r) \<noteq> [] \<and>
     1 \<le> rr_restart_deadline_unix_ms r"

lemma successor_slots_ok:
  assumes "active \<noteq> []" "distinct active" "1 \<le> L" "\<forall>n \<in> set active. strip n \<noteq> []"
  shows "assignments_ok (successor_slots active L)"
    "rmap slot_post_init (successor_slots active L) = Inr (successor_slots active L)"
    "sum_list (map sa_local_size (successor_slots active L)) = int (length active) * L"
    "sort_key sa_slot (successor_slots active L) = successor_slots active L"
proof -
  let ?xs = "successor_slots active L"
  have slots: "map sa_slot ?xs = map int [0..<length active]"
    by (rule nth_equalityI) (simp_all add: successor_slots_def nth_enumerate_eq)
  have mem: "sa_local_size a = L \<and> sa_first_rank a = sa_slot a * L \<and> 0 \<le> sa_slot a \<and> sa_node a \<in> set active"
    if "a \<in> set ?xs" for a
    using that by (auto simp: successor_slots_def in_set_enumerate_eq)
  have "set (map sa_slot ?xs) = int ` {0..<length ?xs}"
    by (simp only: slots) (simp add: successor_slots_def)
  moreover have "distinct (map sa_slot ?xs)" by (simp add: slots distinct_map)
  ultimately show "assignments_ok ?xs"
    using assms mem map_sa_node_slots [of active L] unfolding assignments_ok_def
    by (auto simp: successor_slots_def)
  have "slot_post_init a = Inr a" if "a \<in> set ?xs" for a
    using mem [OF that] assms(3,4) by (auto simp: slot_post_init_iff)
  then show "rmap slot_post_init ?xs = Inr ?xs" using rmap_Inr [of ?xs slot_post_init id] by simp
  have "map sa_local_size ?xs = replicate (length active) L"
    by (rule nth_equalityI) (simp_all add: successor_slots_def nth_enumerate_eq)
  then show "sum_list (map sa_local_size ?xs) = int (length active) * L" by (simp add: sum_list_replicate)
  have "sorted (map sa_slot ?xs)" by (simp add: slots sorted_iff_nth_mono)
  then show "sort_key sa_slot ?xs = ?xs" by (rule sort_key_id_if_sorted)
qed

lemma successor_plan_total:
  assumes "request_ok req" "strip (co_run_id co) \<noteq> []" "0 \<le> g" "1 \<le> L" "active \<noteq> []" "distinct active"
    "distinct quarantined" "set active \<inter> set quarantined = {}"
    "\<forall>n \<in> set active \<union> set quarantined. strip n \<noteq> []"
  obtains p where "successor_plan co g req L active quarantined = Inr p"
proof -
  note slots = successor_slots_ok [of active L]
  have "sa_node ` set (successor_slots active L) = set active"
    using map_sa_node_slots [of active L] by (metis set_map)
  moreover have "1 \<le> int (length active) * L"
    using assms(4,5) by (metis One_nat_def int_one_le_iff_zero_less length_greater_0_conv mult_pos_pos of_nat_0_less_iff zero_less_one_class.zero_le_one order_less_le_trans zero_less_one)
  ultimately show thesis
    using that assms slots
    by (simp add: successor_plan_def rcatch_Inr_iff plan_post_init_iff plan_ok_def request_ok_def)
qed

context c10d_store
begin

lemma renew_frame:
  assumes "k \<noteq> plan_lease_sequence_key sha ps p" "k \<noteq> plan_lease_key sha ps p"
  shows "view so (snd (renew_plan_lease so sha ps p r s)) k = view so s k"
  using assms add_frame [of k "plan_lease_sequence_key sha ps p" s 1]
  by (auto simp: renew_plan_lease_def Let_def case_prod_unfold get_set split: sum.splits)

lemma publish_succeeded:
  assumes "plans_ok so ps s g" "plan_for ps (g + 1) p" "publish so ps p s = (Inr (), s')"
  shows "view so s' = (view so s)(plan_key ps (g + 1) := Some (plan_to_json p),
     generation_key ps := Some (int_str (g + 1)))"
proof -
  have at: "at_generation so ps s (g + 1 - 1)" using plans_ok_generation [OF assms(1)] by simp
  have "view so s (plan_key ps (g + 1)) = None \<or> view so s (plan_key ps (g + 1)) = Some (plan_to_json p)"
    using plans_ok_cases [OF assms(1), of "g + 1"] publish_conflict(1) [OF assms(2) at] assms(3) by fastforce
  from publish_fresh(2) [OF assms(2) at this] assms(3) show ?thesis by simp
qed

lemma successor_committed:
  assumes "plans_ok so ps s g" "co_plans co = ps"
    "publish_successor so sha unix_ms now co g active quarantined req L repl s = (Inr sp, co', lt, s')"
  obtains p where "sp_generation sp = g + 1" "length (sp_active sp) = length active"
    "set quarantined \<subseteq> set (sp_quarantined sp)" "set (sp_active sp) \<inter> set (sp_quarantined sp) = {}"
    "current_generation so ps s' = Inr (g + 1)" "read_plan so ps (g + 1) s' = Inr (Some p)"
    "map sa_node (rp_slot_assignments p) = sp_active sp" "rp_quarantined_node_ids p = sp_quarantined sp"
    "co_lease_error co' = None" "\<exists>th. lt = Some th \<and> lt_plan th = p \<and> co_lease_stop co' = Some (lt_stop th)"
proof -
  obtain rem a q p s2 where r: "check_successor so unix_ms co g active quarantined req L s = Inr rem"
    "replace_node so co repl active quarantined s = (Inr (a, q), s)"
    "successor_plan co g req L a q = Inr p" "publish so ps p s = (Inr (), s2)"
    and res: "sp = \<lparr>sp_generation = rp_to_generation p, sp_active = a, sp_quarantined = q\<rparr>"
      "s' = snd (publish_remaining so sha ps p rem s2)" "co_lease_error co' = None"
      "\<exists>th. lt = Some th \<and> lt_plan th = p \<and> co_lease_stop co' = Some (lt_stop th)"
    using assms(2,3)
    by (auto simp: publish_successor_def start_plan_lease_def Let_def
        split: sum.splits prod.splits dest!: replace_node_keeps)
  note chk = check_successor_facts [OF r(1)]
  note rep = replace_node_effect [OF r(2) chk(4,5,6)]
  note fld = successor_plan_fields [OF r(3)]
  have run: "rp_run_id p = ps_run_id ps"
    using r(4) by (auto simp: publish_def split: if_splits)
  then have pf: "plan_for ps (g + 1) p" using fld by (simp add: plan_for_def)
  note v = publish_succeeded [OF assms(1) pf r(4)]
  have v': "view so s' (generation_key ps) = Some (int_str (g + 1))"
    "view so s' (plan_key ps (g + 1)) = Some (plan_to_json p)"
    unfolding res(2) publish_remaining_def by (simp_all add: renew_frame v)
  have "at_generation so ps s' (g + 1)" using chk(1) v'(1) by (simp add: at_generation_def)
  then show thesis
    using that [of p] rep fld res read_plan_stored [OF pf v'(2)] by (simp add: at_generation_current)
qed

end

lemma decode_initial_facts:
  assumes "decode_initial_nodes b cnt = Inr nodes"
  shows "nodes \<noteq> []" "distinct nodes" "\<forall>n \<in> set nodes. strip n \<noteq> []"
proof -
  have ne: "nonempty v name = Inr n \<Longrightarrow> strip n \<noteq> []" for v name n
    by (cases v) (auto split: if_splits)
  obtain items where "rmap (\<lambda>item. nonempty item ''node_id'') items = Inr nodes" "nodes \<noteq> [] \<and> distinct nodes"
    using assms
    by (cases "loads b"; cases "projr (loads b)"; cases "get_field (case projr (loads b) of JObj kvs \<Rightarrow> kvs) ''node_ids''")
      (auto simp: decode_initial_nodes_def rbind_Inr_iff rcatch_Inr_iff)
  moreover from this(1) have "\<forall>n \<in> set nodes. strip n \<noteq> []"
    by (induction items arbitrary: nodes) (auto simp: rbind_Inr_iff dest: ne)
  ultimately show "nodes \<noteq> []" "distinct nodes" "\<forall>n \<in> set nodes. strip n \<noteq> []" by auto
qed

lemma read_plan_facts:
  assumes "read_plan so ps i s = Inr (Some p)"
  shows "plan_for ps i p" "stored_plan so ps s p"
  using assms decode_plan_wf [of ps _ i p]
  by (auto simp: read_plan_def get_bytes_def rbind_Inr_iff plan_for_def stored_plan_def
      split: if_splits option.splits)

lemma committed_placement_ok:
  assumes "committed_placement so co g L req s = Inr (active, quarantined)"
  shows "active \<noteq> []" "distinct active" "distinct quarantined" "set active \<inter> set quarantined = {}"
    "\<forall>n \<in> set active \<union> set quarantined. strip n \<noteq> []"
proof -
  have "active \<noteq> [] \<and> distinct active \<and> distinct quarantined \<and> set active \<inter> set quarantined = {} \<and>
      (\<forall>n \<in> set active \<union> set quarantined. strip n \<noteq> [])"
  proof (cases "g = 0")
    case True
    then obtain b where "decode_initial_nodes b None = Inr active" "quarantined = []"
      using assms by (auto simp: committed_placement_def read_initial_nodes_def rbind_Inr_iff rcatch_Inr_iff
          split: option.splits if_splits)
    then show ?thesis using decode_initial_facts by auto
  next
    case False
    then obtain p where "read_plan so (co_plans co) g s = Inr (Some p)"
      and p: "active = map sa_node (rp_slot_assignments p)" "quarantined = rp_quarantined_node_ids p"
      using assms by (auto simp: committed_placement_def rbind_Inr_iff rcatch_Inr_iff split: option.splits)
    then have wf: "plan_wf p" using read_plan_facts(1) [of so "co_plans co" g s p] by (simp add: plan_for_def)
    then show ?thesis
      using plan_wf_ok [OF wf]
      by (auto simp: p plan_ok_def assignments_ok_def plan_wf_def list_all_iff slot_post_init_iff)
  qed
  then show "active \<noteq> []" "distinct active" "distinct quarantined" "set active \<inter> set quarantined = {}"
    "\<forall>n \<in> set active \<union> set quarantined. strip n \<noteq> []" by auto
qed

context c10d_store
begin

lemma successor_publishes:
  assumes "at_generation so ps s g" "view so s (plan_key ps (g + 1)) = None"
    "co_plans co = ps" "co_run_id co = ps_run_id ps" "strip (ps_run_id ps) \<noteq> []" "co_lease_error co = None"
    "request_ok req" "1 \<le> L" "unix_ms < rr_restart_deadline_unix_ms req"
    "committed_placement so co g L req s = Inr (active, quarantined)"
    "replace_node so co repl active quarantined s = (Inr (a, q), s)"
    "\<forall>n \<in> set a \<union> set q. strip n \<noteq> []"
  shows "fst (publish_successor so sha unix_ms now co g active quarantined req L repl s) =
    Inr \<lparr>sp_generation = g + 1, sp_active = a, sp_quarantined = q\<rparr>"
proof -
  note cp = committed_placement_ok [OF assms(10)]
  have g: "0 \<le> g" using assms(1) by (simp add: at_generation_def)
  have chk: "check_successor so unix_ms co g active quarantined req L s =
      Inr (of_int (rr_restart_deadline_unix_ms req - unix_ms) / 1000)"
    using assms cp g at_generation_current [OF assms(1)]
    by (simp add: check_successor_def check_health_def)
  note rep = replace_node_effect [OF assms(11) cp(2,3,4)]
  have "a \<noteq> []" using rep(1) cp(1) by auto
  then obtain p where p: "successor_plan co g req L a q = Inr p"
    using successor_plan_total [of req co g L a q] assms(4,5,7,8,12) g rep by metis
  note fld = successor_plan_fields [OF p]
  have "plan_for ps (g + 1) p" using fld assms(4) by (simp add: plan_for_def)
  then have "fst (publish so ps p s) = Inr ()"
    using publish_fresh(1) [of ps "g + 1" p s] assms(1,2) by simp
  then show ?thesis
    using chk assms(3,11) p fld(4)
    by (auto simp: publish_successor_def Let_def split: prod.splits sum.splits)
qed

lemma recovery_publish_run:
  assumes "recovery_reachable so ps \<lparr>sys_store = s, sys_publishers = [(p, ReadGeneration)]\<rparr>"
  shows "recovery_reachable so ps \<lparr>sys_store = snd (publish so ps p s),
    sys_publishers = [(p, Finished (fst (publish so ps p s)))]\<rparr>"
proof -
  let ?st = "publish_step so ps p"
  let ?sys = "\<lambda>pcs. \<lparr>sys_store = snd pcs, sys_publishers = [(p, fst pcs)]\<rparr>"
  have go: "recovery_reachable so ps (?sys (?st pc s))" if "recovery_reachable so ps (?sys (pc, s))" for pc s
    using that
  proof (rule recovery_reachable.continue_run)
    show "recovery_step so ps (?sys (pc, s)) (?sys (?st pc s))"
      using recovery_step.publishing [where i = 0 and pubs = "[(p, pc)]" and plan = p
          and pc = pc and s = s and so = so and ps = ps] by (simp add: prod_eq_iff)
  qed
  let ?a = "?st ReadGeneration s"
  let ?b = "?st (fst ?a) (snd ?a)"
  have "recovery_reachable so ps (?sys (?st (fst ?b) (snd ?b)))"
    using go [of "fst ?b" "snd ?b"] go [of "fst ?a" "snd ?a"] go [of ReadGeneration s] assms by simp
  then show ?thesis
    using publish_is_three_steps [of so ps p s] by (simp add: case_prod_unfold Let_def)
qed

lemma quarantine_grows:
  assumes "recovery_reachable so ps sys" "read_plan so ps i (sys_store sys) = Inr (Some c)"
    "read_plan so ps j (sys_store sys) = Inr (Some d)" "i \<le> j"
  shows "set (rp_quarantined_node_ids c) \<subseteq> set (rp_quarantined_node_ids d)"
    "set (rp_quarantined_node_ids c) \<inter> sa_node ` set (rp_slot_assignments d) = {}"
    "length (rp_slot_assignments c) = length (rp_slot_assignments d)"
    "rp_topology_digest c = rp_topology_digest d"
proof -
  have st: "stored_extend so ps (sys_store sys)" using recovery_extends [OF assms(1)] by simp
  have j: "j = i + int (nat (j - i))" using assms(4) by simp
  have "plan_for ps (i + int (nat (j - i))) d" using read_plan_facts(1) [OF assms(3)] j by metis
  note h = history_extends [OF st read_plan_facts [OF assms(2)] this read_plan_facts(2) [OF assms(3)]]
  have "plan_ok d" using read_plan_facts(1) [OF assms(3)] by (simp add: plan_for_def plan_wf_ok)
  then have "sa_node ` set (rp_slot_assignments d) \<inter> set (rp_quarantined_node_ids d) = {}"
    by (simp add: plan_ok_def)
  with h show "set (rp_quarantined_node_ids c) \<subseteq> set (rp_quarantined_node_ids d)"
    "set (rp_quarantined_node_ids c) \<inter> sa_node ` set (rp_slot_assignments d) = {}"
    "length (rp_slot_assignments c) = length (rp_slot_assignments d)"
    "rp_topology_digest c = rp_topology_digest d" by auto
qed

end

section \<open>Properties of the coordinator\<close>

definition example_request :: recovery_request where
  "example_request = \<lparr>rr_plan_id = ''plan-1'', rr_intent_id = ''incident'', rr_reason_code = ''sdc'',
     rr_recovery_mode = ''recovery_verified'', rr_checkpoint_source = ''gemini'', rr_checkpoint_step = 40,
     rr_checkpoint_manifest_id = ''m'', rr_topology_digest = ''t'', rr_restart_deadline_unix_ms = 5000,
     rr_checkpoint_id = None\<rparr>"

definition example_coordinator :: coordinator where
  "example_coordinator = \<lparr>co_run_id = ''run'', co_plans = example_ps, co_lease_stop = None,
     co_lease_error = None, co_events = 0, co_events_set = []\<rparr>"

definition example_run_store :: "string \<rightharpoonup> bytes" where
  "example_run_store = [generation_key example_ps \<mapsto> ''0'',
     initial_nodes_key example_ps \<mapsto> canonical_json (initial_nodes_record [''n1'']),
     registrations_key example_ps \<mapsto> registration_log [(''n1'', ''a1''), (''n2'', ''a2'')],
     max_nodes_key example_ps \<mapsto> ''2'']"

lemma example_run_facts:
  "at_generation hash_store example_ps example_run_store 0"
  "view hash_store example_run_store (plan_key example_ps g) = None"
  "committed_placement hash_store example_coordinator 0 8 example_request example_run_store = Inr ([''n1''], [])"
  "replace_node hash_store example_coordinator (Some (0, ''n2'')) [''n1''] [] example_run_store =
     (Inr ([''n2''], [''n1'']), example_run_store)"
  "request_ok example_request" "strip ''n1'' \<noteq> []" "strip ''n2'' \<noteq> []" "strip (ps_run_id example_ps) \<noteq> []"
proof -
  have "int_str 0 = ''0''" "int_str 2 = ''2''" by code_simp+
  then show "at_generation hash_store example_ps example_run_store 0"
    by (simp add: at_generation_def example_run_store_def)
  show "view hash_store example_run_store (plan_key example_ps g) = None"
    by (simp add: example_run_store_def)
  have dec: "decode_initial_nodes (canonical_json (initial_nodes_record [''n1''])) (Some 1) = Inr [''n1'']"
    by (rule decode_initial_nodes_own) (simp_all add: strip_def py_space_def)
  have "read_initial_nodes hash_store example_ps example_run_store = Inr (Some [''n1''])"
    by (rule hs.read_initial_again [OF _ dec]) (simp add: example_run_store_def)
  then show "committed_placement hash_store example_coordinator 0 8 example_request example_run_store = Inr ([''n1''], [])"
    by (simp add: committed_placement_def example_coordinator_def)
  show "request_ok example_request" "strip ''n1'' \<noteq> []" "strip (ps_run_id example_ps) \<noteq> []"
    by (simp_all add: request_ok_def example_request_def strip_def py_space_def recovery_modes_def
        checkpoint_sources_def example_ps_def)
  show n2: "strip ''n2'' \<noteq> []" by (simp add: strip_def py_space_def)
  have "decode_positive_integer ''2'' ''registered max_nodes'' = Inr 2"
    using decode_positive_integer_int_str [of 2] \<open>int_str 2 = ''2''\<close> by simp
  moreover have "decode_registrations hash_store example_ps 2 example_run_store = Inr [(''n1'', ''a1''), (''n2'', ''a2'')]"
    using example_identities
    by (subst decode_log [of "[(''n1'', ''a1''), (''n2'', ''a2'')]"])
      (simp_all add: example_run_store_def example_log_size register_pair_def)
  moreover have "store_check hash_store example_run_store [max_nodes_key example_ps]"
    "example_run_store (max_nodes_key example_ps) = Some ''2''" by (simp_all add: example_run_store_def)
  ultimately have "registered_nodes hash_store example_ps None example_run_store = (Inr [''n1'', ''n2''], example_run_store)"
    by (simp add: registered_nodes_def get_bytes_def)
  then show "replace_node hash_store example_coordinator (Some (0, ''n2'')) [''n1''] [] example_run_store =
     (Inr ([''n2''], [''n1'']), example_run_store)"
    using n2 by (simp add: replace_node_def example_coordinator_def)
qed

text \<open>C1: Quarantine is permanent. With any number of managers deciding and publishing in any
  order, a node quarantined by a committed generation is quarantined and inactive in every later
  one, and all generations have the same number of slots and the same topology.\<close>

theorem quarantine_is_permanent:
  assumes "c10d_store so" "recovery_reachable so ps sys"
    "read_plan so ps i (sys_store sys) = Inr (Some c)" "read_plan so ps j (sys_store sys) = Inr (Some d)" "i \<le> j"
  shows "set (rp_quarantined_node_ids c) \<subseteq> set (rp_quarantined_node_ids d) \<and>
    set (rp_quarantined_node_ids c) \<inter> sa_node ` set (rp_slot_assignments d) = {} \<and>
    length (rp_slot_assignments c) = length (rp_slot_assignments d) \<and>
    rp_topology_digest c = rp_topology_digest d"
  using c10d_store.quarantine_grows [OF assms] by simp

theorem quarantine_is_permanent_witness:
  "\<exists>s p. read_plan hash_store example_ps 1 s = Inr (Some p) \<and> rp_quarantined_node_ids p = [''n1''] \<and>
     set (rp_quarantined_node_ids p) \<inter> sa_node ` set (rp_slot_assignments p) = {}"
proof -
  let ?co = example_coordinator and ?s = example_run_store
  have co: "co_plans ?co = example_ps" "co_run_id ?co = ps_run_id example_ps" "co_lease_error ?co = None"
    by (simp_all add: example_coordinator_def example_ps_def)
  have chk: "check_successor hash_store 1000 ?co 0 [''n1''] [] example_request 8 ?s = Inr 4"
    using example_run_facts at_generation_current [OF example_run_facts(1)] co
    by (simp add: check_successor_def check_health_def example_request_def)
  obtain p where p: "successor_plan ?co 0 example_request 8 [''n2''] [''n1''] = Inr p"
    by (rule successor_plan_total [of example_request ?co 0 8 "[''n2'']" "[''n1'']"])
      (use example_run_facts co in simp_all)
  note fld = successor_plan_fields [OF p]
  have pf: "plan_for example_ps 1 p" using fld co by (simp add: plan_for_def)
  have "recovery_reachable hash_store example_ps \<lparr>sys_store = ?s, sys_publishers = []\<rparr>"
    by (rule recovery_reachable.begin_run) (use example_run_facts in simp_all)
  then have "recovery_reachable hash_store example_ps \<lparr>sys_store = ?s, sys_publishers = [(p, ReadGeneration)]\<rparr>"
    by (rule recovery_reachable.continue_run)
      (use recovery_step.decide [OF co(1) chk example_run_facts(4) p, of "[]"] in simp)
  note run = hs.recovery_publish_run [OF this]
  have "view hash_store (snd (publish hash_store example_ps p ?s)) (plan_key example_ps 1) = Some (plan_to_json p)"
    using hs.publish_fresh(2) [OF pf, of ?s] example_run_facts(1,2) by simp
  then have rd: "read_plan hash_store example_ps 1 (snd (publish hash_store example_ps p ?s)) = Inr (Some p)"
    by (rule hs.read_plan_stored [OF pf])
  have "set (rp_quarantined_node_ids p) \<inter> sa_node ` set (rp_slot_assignments p) = {}"
    using quarantine_is_permanent [OF hs.c10d_store_axioms run, of 1 p 1 p] rd by simp
  with rd fld(6) show ?thesis by blast
qed

text \<open>C10: A replacement is published. A healthy manager whose view matches the committed
  placement replaces a slot by a registered node that is neither active nor quarantined: the call
  succeeds, the node takes exactly that slot, the failed node joins the quarantine, and the store
  has moved to the next generation with that placement.\<close>

theorem replacement_published:
  assumes "c10d_store so" "plans_ok so ps s g" "view so s (plan_key ps (g + 1)) = None"
    "co_plans co = ps" "co_run_id co = ps_run_id ps" "strip (ps_run_id ps) \<noteq> []" "co_lease_error co = None"
    "request_ok req" "1 \<le> L" "unix_ms < rr_restart_deadline_unix_ms req"
    "committed_placement so co g L req s = Inr (active, quarantined)"
    "slot < length active" "node \<notin> set active" "node \<notin> set quarantined" "strip node \<noteq> []"
    "registered_nodes so ps None s = (Inr registered, s)" "node \<in> set registered"
  shows "\<exists>co' lt s' p. publish_successor so sha unix_ms now co g active quarantined req L (Some (int slot, node)) s =
      (Inr \<lparr>sp_generation = g + 1, sp_active = active[slot := node],
        sp_quarantined = quarantined @ [active ! slot]\<rparr>, co', lt, s') \<and>
    current_generation so ps s' = Inr (g + 1) \<and> read_plan so ps (g + 1) s' = Inr (Some p) \<and>
    map sa_node (rp_slot_assignments p) = active[slot := node] \<and>
    rp_quarantined_node_ids p = quarantined @ [active ! slot]"
proof -
  let ?r = "publish_successor so sha unix_ms now co g active quarantined req L (Some (int slot, node)) s"
  let ?sp = "\<lparr>sp_generation = g + 1, sp_active = active[slot := node], sp_quarantined = quarantined @ [active ! slot]\<rparr>"
  note cp = committed_placement_ok [OF assms(11)]
  have rep: "replace_node so co (Some (int slot, node)) active quarantined s =
      (Inr (active[slot := node], quarantined @ [active ! slot]), s)"
    using assms by (simp add: replace_node_def)
  have "\<forall>n \<in> set (active[slot := node]) \<union> set (quarantined @ [active ! slot]). strip n \<noteq> []"
    using cp(5) assms(12,15) set_update_subset_insert [of active slot node] by (auto simp: subset_iff)
  with c10d_store.successor_publishes [OF assms(1) plans_ok_generation [OF assms(2)] assms(3-11) rep]
  have "fst ?r = Inr ?sp" by simp
  then obtain co' lt s' where r: "?r = (Inr ?sp, co', lt, s')" by (metis prod.collapse)
  obtain p where "current_generation so ps s' = Inr (g + 1)" "read_plan so ps (g + 1) s' = Inr (Some p)"
    "map sa_node (rp_slot_assignments p) = active[slot := node]"
    "rp_quarantined_node_ids p = quarantined @ [active ! slot]"
    by (rule c10d_store.successor_committed [OF assms(1,2,4) r]) simp
  with r show ?thesis by blast
qed

theorem replacement_published_witness:
  "\<exists>s' p. read_plan hash_store example_ps 1 s' = Inr (Some p) \<and>
     map sa_node (rp_slot_assignments p) = [''n2''] \<and> rp_quarantined_node_ids p = [''n1'']"
proof -
  let ?co = example_coordinator and ?s = example_run_store
  have co: "co_plans ?co = example_ps" "co_run_id ?co = ps_run_id example_ps" "co_lease_error ?co = None"
    by (simp_all add: example_coordinator_def example_ps_def)
  have ok: "plans_ok hash_store example_ps ?s 0" using example_run_facts by (simp add: plans_ok_def)
  have reg: "\<exists>r. registered_nodes hash_store example_ps None ?s = (Inr r, ?s) \<and> ''n2'' \<in> set r"
    using example_run_facts(4) co(1)
    by (auto simp: replace_node_def split: prod.splits sum.splits if_splits dest!: registered_nodes_keeps)
  then obtain r where r: "registered_nodes hash_store example_ps None ?s = (Inr r, ?s)" "''n2'' \<in> set r" by blast
  have pre: "(1::int) \<le> 8" "1000 < rr_restart_deadline_unix_ms example_request" "0 < length [''n1'']"
    "''n2'' \<notin> set [''n1'']" "''n2'' \<notin> set []" "view hash_store ?s (plan_key example_ps (0 + 1)) = None"
    using example_run_facts(2) by (simp_all add: example_request_def)
  obtain s' p where "read_plan hash_store example_ps (0 + 1) s' = Inr (Some p)"
    "map sa_node (rp_slot_assignments p) = [''n1''][0 := ''n2'']"
    "rp_quarantined_node_ids p = [] @ [[''n1''] ! 0]"
    using replacement_published [OF hs.c10d_store_axioms ok pre(6) co(1,2) example_run_facts(8) co(3)
        example_run_facts(5) pre(1,2) example_run_facts(3) pre(3,4,5) example_run_facts(7) r, of id 0]
    by blast
  then show ?thesis by (metis add_0 append_Nil list_update_code(2) nth_Cons_0)
qed

text \<open>C30: A coordinator built with a run identifier that has surrounding white space can never
  publish: the plan store keeps the trimmed identifier, the coordinator puts the untrimmed one in its
  plans, and every publication is refused as belonging to another run.\<close>

theorem untrimmed_run_id_never_publishes:
  assumes "init_coordinator so sha run_id s0 = (Inr co, s1)" "strip run_id \<noteq> run_id"
    "co_plans co' = co_plans co" "co_run_id co' = co_run_id co"
  shows "isl (fst (publish_successor so sha unix_ms now co' g active quarantined req L repl s))"
proof -
  have co: "co_run_id co = run_id" "ps_run_id (co_plans co) = strip run_id"
    using assms(1) by (auto simp: init_coordinator_def init_plan_store_def Let_def split: sum.splits if_splits)
  have "publish so (co_plans co') p t = (Inl AnotherRun, t)" if "successor_plan co' g req L a q = Inr p" for a q p t
    using successor_plan_fields(2) [OF that] co assms(2-4) by (simp add: publish_def)
  then show ?thesis
    by (auto simp: publish_successor_def split: sum.splits prod.splits)
qed

theorem untrimmed_run_id_never_publishes_witness:
  "\<exists>co s1. init_coordinator hash_store id '' run'' Map.empty = (Inr co, s1) \<and>
     isl (fst (publish_successor hash_store id 0 0 co 0 [''n1''] [] example_request 8 None s1))"
proof -
  let ?i = "init_coordinator hash_store id '' run'' Map.empty"
  have "strip '' run'' = ''run''" by code_simp
  then obtain co s1 where i: "?i = (Inr co, s1)" and ne: "strip '' run'' \<noteq> '' run''"
    by (simp add: init_coordinator_def init_plan_store_def Let_def)
  from untrimmed_run_id_never_publishes [OF i ne refl refl] i show ?thesis by blast
qed

text \<open>Only the current lease thread reports failure, and only after three renewals in a row
  have failed. Any other iteration of the renewal loop leaves the coordinator as it was, so a thread
  that was stopped or superseded cannot take the manager down.\<close>

theorem lease_failure_report:
  assumes "renew_iteration so sha now stopped later lt co s = (lt', co', s')"
  shows "co' = co \<or>
    (lt_failures lt' = Suc (lt_failures lt) \<and> 3 \<le> lt_failures lt' \<and> co_lease_stop co = Some (lt_stop lt) \<and>
     lt_stop lt \<notin> set (co_events_set co) \<and> now < lt_deadline lt \<and>
     (\<exists>e. fst (publish_remaining so sha (co_plans co) (lt_plan lt) (lt_deadline lt - later) s) = Inl e \<and>
        co' = co\<lparr>co_lease_error := Some e\<rparr>))"
  using assms by (auto simp: renew_iteration_def Let_def split: if_splits prod.splits sum.splits)

theorem lease_failure_report_witness:
  "\<exists>lt' s'. renew_iteration hash_store id 0 False 0
     \<lparr>lt_plan = example_plan, lt_deadline = 9, lt_stop = 0, lt_failures = 2, lt_wait = True, lt_running = True\<rparr>
     (example_coordinator\<lparr>co_lease_stop := Some 0\<rparr>) Map.empty =
       (lt', example_coordinator\<lparr>co_lease_stop := Some 0, co_lease_error := Some UncommittedPlan\<rparr>, s') \<and>
     lt_failures lt' = 3"
proof -
  let ?lt = "\<lparr>lt_plan = example_plan, lt_deadline = 9, lt_stop = 0, lt_failures = 2, lt_wait = True, lt_running = True\<rparr>"
  let ?co = "example_coordinator\<lparr>co_lease_stop := Some 0\<rparr>"
  obtain lt' co' s' where r: "renew_iteration hash_store id 0 False 0 ?lt ?co Map.empty = (lt', co', s')"
    by (metis prod_cases3)
  have "renew_plan_lease hash_store id example_ps example_plan 9000 Map.empty = (Inl UncommittedPlan, Map.empty)"
    by (rule hs.renew_uncommitted [OF example_facts(1)]) simp_all
  then have pub: "publish_remaining hash_store id example_ps example_plan 9 Map.empty = (Inl UncommittedPlan, Map.empty)"
    by (simp add: publish_remaining_def)
  then have "co' \<noteq> ?co"
    using r by (auto simp: renew_iteration_def example_coordinator_def Let_def)
  then show ?thesis
    using lease_failure_report [OF r] r pub by (auto simp: example_coordinator_def)
qed

end
