(* ===== verification/Agent_Files.thy ===== *)
theory Agent_Files
  imports Coordinator_Laws
begin

text \<open>
  What a torchrun agent reads and writes outside the store
  (\<open>lm_resiliency/integrations/torchrun/_simple_runtime.py\<close>): its configuration
  (\<open>SimpleRuntimeConfig\<close>), its machine identity and the owner-only restart-context file
  (\<open>SimpleRestartContextFile\<close>). A path is its text; the file system is what the code looks at: the
  kind, owner, permission bits and bytes of a file.
\<close>

section \<open>Configuration\<close>

record runtime_config =
  rt_run_id :: string
  rt_node_id :: string
  rt_min_nodes :: int
  rt_max_nodes :: int
  rt_restart_context_path :: string
  rt_join_timeout_ms :: int
  rt_poll_interval_ms :: int
  rt_heartbeat_timeout_ms :: int
  rt_worker_config :: "string option"

definition absolute_path :: "string \<Rightarrow> bool" where
  "absolute_path p = (p \<noteq> [] \<and> hd p = CHR ''/'')"

definition config_post_init :: "runtime_config \<Rightarrow> runtime_error + runtime_config" where
  "config_post_init c =
     rbind (nonempty (JStr (rt_run_id c)) ''run_id'') (\<lambda>_.
     rbind (nonempty (JStr (rt_node_id c)) ''node_id'') (\<lambda>_.
     rbind (positive_int (JInt (rt_min_nodes c)) ''min_nodes'') (\<lambda>_.
     rbind (positive_int (JInt (rt_max_nodes c)) ''max_nodes'') (\<lambda>_.
     rbind (ensure (rt_min_nodes c \<le> rt_max_nodes c)
       (InvalidArgument ''max_nodes must be greater than or equal to min_nodes'')) (\<lambda>_.
     rbind (positive_int (JInt (rt_join_timeout_ms c)) ''join_timeout_ms'') (\<lambda>_.
     rbind (positive_int (JInt (rt_poll_interval_ms c)) ''poll_interval_ms'') (\<lambda>_.
     rbind (positive_int (JInt (rt_heartbeat_timeout_ms c)) ''heartbeat_timeout_ms'') (\<lambda>_.
     rbind (ensure (absolute_path (rt_restart_context_path c))
       (InvalidArgument ''restart_context_path must be absolute'')) (\<lambda>_.
     rbind (ensure (case rt_worker_config c of None \<Rightarrow> True | Some p \<Rightarrow> absolute_path p)
       (InvalidArgument ''worker_config must be absolute'')) (\<lambda>_. Inr c))))))))))"

text \<open>Reading the machine identity file.\<close>

datatype file_content =
    Unreadable
  | NotRegular
  | Contents bytes

definition ascii_lower :: "string \<Rightarrow> string" where
  "ascii_lower s = map (\<lambda>c. let n = (of_char c :: nat) in
     if 65 \<le> n \<and> n \<le> 90 then char_of (n + 32) else c) s"

fun machine_node_id :: "(string \<Rightarrow> string) \<Rightarrow> file_content \<Rightarrow> runtime_error + string" where
  "machine_node_id sha Unreadable = Inl (InvalidArgument ''failed to read machine identity'')"
| "machine_node_id sha NotRegular = Inl (InvalidArgument ''machine identity path must be a regular file'')"
| "machine_node_id sha (Contents encoded) =
     (if 128 < length encoded then Inl (InvalidArgument ''machine identity file is too large'')
      else if \<not> ascii encoded then Inl (InvalidArgument ''machine identity must be ASCII'')
      else node_id_from_machine_id sha (ascii_lower (strip encoded)))"

definition allowed_config :: "string list" where
  "allowed_config = [''is_host'', ''lm_resiliency_heartbeat_timeout_ms'', ''lm_resiliency_join_timeout_ms'',
     ''lm_resiliency_poll_interval_ms'', ''lm_resiliency_restart_context_path'',
     ''lm_resiliency_worker_config'', ''read_timeout'', ''store_type'', ''timeout'']"

record rendezvous_parameters =
  pm_backend :: string
  pm_run_id :: string
  pm_min_nodes :: int
  pm_max_nodes :: int
  pm_config :: fields

text \<open>
  \<open>from_parameters\<close>. \<open>expanduser\<close> is \<open>Path.expanduser\<close>, \<open>env\<close> the process environment and
  \<open>read_file\<close> what a path holds.
\<close>

definition config_from_parameters ::
  "(string \<Rightarrow> string) \<Rightarrow> (string \<Rightarrow> string) \<Rightarrow> (string \<Rightarrow> file_content) \<Rightarrow> (string \<rightharpoonup> string)
     \<Rightarrow> rendezvous_parameters \<Rightarrow> runtime_error + runtime_config" where
  "config_from_parameters sha expanduser read_file env params =
     rbind (ensure (pm_backend params = ''lm_resiliency'')
       (InvalidArgument ''rendezvous backend must be lm_resiliency'')) (\<lambda>_.
     rbind (ensure (list_all (\<lambda>k. k \<in> set allowed_config) (field_names (pm_config params)))
       (InvalidArgument ''unknown rendezvous configuration'')) (\<lambda>_.
     let machine_id_path = expanduser (case env ''LM_RESILIENCY_MACHINE_ID_PATH'' of
           None \<Rightarrow> ''/etc/machine-id'' | Some p \<Rightarrow> p)
     in
     rbind (ensure (absolute_path machine_id_path)
       (InvalidArgument ''LM_RESILIENCY_MACHINE_ID_PATH must be an absolute path'')) (\<lambda>_.
     rbind (machine_node_id sha (read_file machine_id_path)) (\<lambda>node_id.
     rbind (nonempty (get_field (pm_config params) ''lm_resiliency_restart_context_path'')
       ''lm_resiliency_restart_context_path'') (\<lambda>restart_context_path.
     rbind (optional_nonempty (get_field (pm_config params) ''lm_resiliency_worker_config'')
       ''lm_resiliency_worker_config'') (\<lambda>worker_config.
     rbind (optional_int (get_field (pm_config params) ''lm_resiliency_join_timeout_ms'')
       ''lm_resiliency_join_timeout_ms'' 300000) (\<lambda>join_timeout.
     rbind (optional_int (get_field (pm_config params) ''lm_resiliency_poll_interval_ms'')
       ''lm_resiliency_poll_interval_ms'' 250) (\<lambda>poll_interval.
     rbind (optional_int (get_field (pm_config params) ''lm_resiliency_heartbeat_timeout_ms'')
       ''lm_resiliency_heartbeat_timeout_ms'' 10000) (\<lambda>heartbeat_timeout.
     config_post_init \<lparr>rt_run_id = pm_run_id params, rt_node_id = node_id,
       rt_min_nodes = pm_min_nodes params, rt_max_nodes = pm_max_nodes params,
       rt_restart_context_path = expanduser restart_context_path,
       rt_join_timeout_ms = join_timeout, rt_poll_interval_ms = poll_interval,
       rt_heartbeat_timeout_ms = heartbeat_timeout,
       rt_worker_config = map_option expanduser worker_config\<rparr>)))))))))"

section \<open>The restart-context file\<close>

record file_node =
  fn_regular :: bool
  fn_uid :: int
  fn_mode :: nat
  fn_bytes :: bytes

text \<open>The parent directory and the file of one restart-context path, and the caller's user.\<close>

record context_fs =
  cf_uid :: int
  cf_parent :: "(int \<times> nat) option"
  cf_file :: "file_node option"

definition max_context_bytes :: nat where
  "max_context_bytes = 2 ^ 20"

text \<open>No permission for group or others: \<open>mode & 0o077 == 0\<close>.\<close>

definition owner_only :: "nat \<Rightarrow> bool" where
  "owner_only mode \<longleftrightarrow> mode mod 64 = 0"

definition context_prepare :: "context_fs \<Rightarrow> (runtime_error + unit) \<times> context_fs" where
  "context_prepare fs =
     (let fs1 = (case cf_parent fs of None \<Rightarrow> fs\<lparr>cf_parent := Some (cf_uid fs, 448)\<rparr> | Some _ \<Rightarrow> fs);
          (uid, mode) = the (cf_parent fs1)
      in if uid \<noteq> cf_uid fs \<or> \<not> owner_only mode
         then (Inl (Corrupt ''restart-context directory must be owner-only''), fs1)
         else (Inr (), fs1))"

definition context_write :: "restart_context \<Rightarrow> context_fs \<Rightarrow> (runtime_error + unit) \<times> context_fs" where
  "context_write context fs =
     (case context_prepare fs of
        (Inl e, fs1) \<Rightarrow> (Inl e, fs1)
      | (Inr _, fs1) \<Rightarrow>
          let encoded = context_to_json context
          in if max_context_bytes < length encoded
             then (Inl (Corrupt ''restart context is too large''), fs1)
             else (Inr (), fs1\<lparr>cf_file := Some \<lparr>fn_regular = True, fn_uid = cf_uid fs1, fn_mode = 384,
                     fn_bytes = encoded\<rparr>\<rparr>))"

definition context_read :: "context_fs \<Rightarrow> runtime_error + restart_context option" where
  "context_read fs =
     (case cf_file fs of
        None \<Rightarrow> Inr None
      | Some f \<Rightarrow>
          if \<not> fn_regular f then Inl (Corrupt ''restart context must be a regular file'')
          else if fn_uid f \<noteq> cf_uid fs \<or> \<not> owner_only (fn_mode f)
          then Inl (Corrupt ''restart context must be owner-only'')
          else if max_context_bytes < length (fn_bytes f)
          then Inl (Corrupt ''restart context is too large'')
          else
            rbind (rcatch (\<lambda>_. Corrupt ''restart context is malformed'') (loads (fn_bytes f))) (\<lambda>value.
            rbind (rcatch (\<lambda>_. Corrupt ''restart context is malformed'')
               (rbind (py_mapping value ''context'') context_from_dict)) (\<lambda>context.
            rbind (ensure (context_to_json context = fn_bytes f)
               (Corrupt ''restart context is not canonical JSON'')) (\<lambda>_. Inr (Some context)))))"

definition context_clear :: "context_fs \<Rightarrow> context_fs" where
  "context_clear fs = fs\<lparr>cf_file := None\<rparr>"

section \<open>What the context file guarantees\<close>

lemma context_from_dict_wf: "context_from_dict kvs = Inr c \<Longrightarrow> context_wf c"
proof -
  assume "context_from_dict kvs = Inr c"
  then have "\<exists>d. context_post_init d = Inr c" by (auto simp: context_from_dict_def rbind_Inr_iff)
  then show ?thesis by (auto simp: context_wf_def context_post_init_iff)
qed

lemma context_read_written:
  assumes "context_wf c" "context_write c fs = (Inr (), fs')"
  shows "context_read fs' = Inr (Some c)" "owner_only (fn_mode (the (cf_file fs')))"
proof -
  have fs': "length (context_to_json c) \<le> max_context_bytes" "\<exists>fs1. fs' = fs1\<lparr>cf_file := Some
      \<lparr>fn_regular = True, fn_uid = cf_uid fs1, fn_mode = 384, fn_bytes = context_to_json c\<rparr>\<rparr>"
    using assms(2) by (auto simp: context_write_def Let_def split: prod.splits sum.splits if_splits)
  show "owner_only (fn_mode (the (cf_file fs')))" using fs'(2) by (auto simp: owner_only_def)
  show "context_read fs' = Inr (Some c)"
    by (rule loads_context [OF assms(1)])
      (use fs' in \<open>auto simp: context_read_def owner_only_def\<close>)
qed

lemma context_read_cleared: "context_read (context_clear fs) = Inr None"
  by (simp add: context_clear_def context_read_def)

text \<open>The worker reads the context the agent wrote, through a file that is regular and
  readable by its owner only; a context that is read at all is a valid instance whose JSON text is
  the file, byte for byte; and after \<open>clear\<close> there is none.\<close>

theorem context_file_round_trip:
  "(\<forall>c fs fs'. context_wf c \<and> context_write c fs = (Inr (), fs') \<longrightarrow>
      context_read fs' = Inr (Some c) \<and> owner_only (fn_mode (the (cf_file fs')))) \<and>
   (\<forall>fs c. context_read fs = Inr (Some c) \<longrightarrow>
      context_wf c \<and> (\<exists>f. cf_file fs = Some f \<and> fn_bytes f = context_to_json c \<and> fn_regular f \<and>
        fn_uid f = cf_uid fs \<and> owner_only (fn_mode f))) \<and>
   (\<forall>fs. context_read (context_clear fs) = Inr None)"
proof (intro conjI allI impI)
  fix fs c assume "context_read fs = Inr (Some c)"
  then obtain f kvs where "cf_file fs = Some f" "fn_regular f" "fn_uid f = cf_uid fs" "owner_only (fn_mode f)"
    "context_from_dict kvs = Inr c" "context_to_json c = fn_bytes f"
    by (auto simp: context_read_def rbind_Inr_iff rcatch_Inr_iff split: option.splits if_splits)
  then show "context_wf c" "\<exists>f. cf_file fs = Some f \<and> fn_bytes f = context_to_json c \<and> fn_regular f \<and>
        fn_uid f = cf_uid fs \<and> owner_only (fn_mode f)"
    using context_from_dict_wf by auto
qed (auto simp: context_read_written context_read_cleared)

definition example_context :: restart_context where
  "example_context = \<lparr>rc_plan_id = ''p'', rc_run_id = ''r'', rc_generation = 1, rc_node_id = ''n'',
     rc_logical_node_slot = 0, rc_first_global_rank = 0, rc_local_world_size = 1, rc_expected_world_size = 1,
     rc_topology_digest = ''t'', rc_recovery_mode = ''recovery_verified'', rc_checkpoint_source = ''gemini'',
     rc_checkpoint_step = 1, rc_checkpoint_id = None, rc_checkpoint_manifest_id = ''m'', rc_reason_code = ''s'',
     rc_restart_deadline_monotonic_ns = 1\<rparr>"

lemma example_context_small: "length (context_to_json example_context) \<le> max_context_bytes"
  by (simp add: example_context_def context_to_json_def context_to_dict_def dump_str_def esc_char_def
      int_str_def nat_str.simps max_context_bytes_def)

theorem context_file_round_trip_witness:
  "\<exists>fs'. context_write example_context \<lparr>cf_uid = 7, cf_parent = None, cf_file = None\<rparr> = (Inr (), fs') \<and>
     context_read fs' = Inr (Some example_context)"
proof -
  let ?fs = "\<lparr>cf_uid = 7, cf_parent = None, cf_file = None\<rparr>"
  obtain fs' where "context_write example_context ?fs = (Inr (), fs')"
    using example_context_small by (simp add: context_write_def context_prepare_def owner_only_def)
  moreover have "context_wf example_context"
    by (simp add: context_wf_def context_post_init_iff example_context_def strip_def py_space_def
        recovery_modes_def checkpoint_sources_def)
  ultimately show ?thesis using context_file_round_trip by blast
qed

end
