(* ===== verification/Rendezvous.thy ===== *)
theory Rendezvous
  imports Agent_Files
begin

text \<open>
  \<open>SimpleRendezvousHandler\<close> of \<open>lm_resiliency/integrations/torchrun/_simple_runtime.py\<close>: the agent
  that waits for its generation, checks that the manager's lease and the other nodes are alive,
  and hands its slot to torchrun. \<open>clk\<close> is the injected monotonic clock, read in order. \<open>next_rendezvous\<close>
  and its two wait loops are cut into the iterations between two waits, so that the rest of
  the system can move in between.
\<close>

datatype rendezvous_error =
    RdzvClosed
  | RdzvExit
  | RdzvConnection string
  | RdzvState string
  | RdzvTimeout string
  | RdzvRuntime runtime_error

type_synonym node_assignment = "int \<times> string"
type_synonym heartbeat_observation = "string \<times> int \<times> real \<times> bool"
type_synonym lease_observation = "int \<times> real \<times> real \<times> bool"

record handler =
  h_config :: runtime_config
  h_plans :: plan_store
  h_agent_id :: string
  h_policy_digest :: string
  h_closed :: bool
  h_heartbeat_error :: bool
  h_last_generation :: "int option"
  h_last_assignment :: "node_assignment list"
  h_heartbeats :: "string \<rightharpoonup> heartbeat_observation"
  h_leases :: "int \<times> string \<rightharpoonup> lease_observation"
  h_context :: context_fs
  h_ticks :: nat

definition read_clock :: "(nat \<Rightarrow> real) \<Rightarrow> handler \<Rightarrow> real \<times> handler" where
  "read_clock clk h = (clk (h_ticks h), h\<lparr>h_ticks := Suc (h_ticks h)\<rparr>)"

definition init_handler ::
  "'s store_ops \<Rightarrow> (string \<Rightarrow> string) \<Rightarrow> string \<Rightarrow> string \<Rightarrow> context_fs \<Rightarrow> runtime_config \<Rightarrow> 's
     \<Rightarrow> (runtime_error + handler) \<times> 's" where
  "init_handler so sha policy_digest agent_id fs config s =
     (case context_prepare fs of
        (Inl e, fs1) \<Rightarrow> (Inl e, s)
      | (Inr _, fs1) \<Rightarrow>
          (case init_plan_store so sha (rt_run_id config) s of
             (Inl e, s1) \<Rightarrow> (Inl e, s1)
           | (Inr plans, s1) \<Rightarrow>
               (case register_node so plans (rt_node_id config) agent_id (rt_max_nodes config) s1 of
                  (Inl e, s2) \<Rightarrow> (Inl e, s2)
                | (Inr _, s2) \<Rightarrow>
                    (Inr \<lparr>h_config = config, h_plans = plans, h_agent_id = agent_id,
                          h_policy_digest = policy_digest, h_closed = False, h_heartbeat_error = False,
                          h_last_generation = None, h_last_assignment = [], h_heartbeats = Map.empty,
                          h_leases = Map.empty, h_context = fs1, h_ticks = 0\<rparr>, s2))))"

section \<open>Keys, readiness and heartbeats\<close>

definition ready_key :: "(string \<Rightarrow> string) \<Rightarrow> plan_store \<Rightarrow> int \<Rightarrow> string \<Rightarrow> string" where
  "ready_key sha ps generation node_id = ps_prefix ps @ ''/ready/'' @ int_str generation @ ''/'' @ sha node_id"

definition heartbeat_key :: "(string \<Rightarrow> string) \<Rightarrow> plan_store \<Rightarrow> string \<Rightarrow> string" where
  "heartbeat_key sha ps node_id = ps_prefix ps @ ''/heartbeats/'' @ sha node_id"

definition raise_if_closed :: "'s store_ops \<Rightarrow> handler \<Rightarrow> 's \<Rightarrow> rendezvous_error + unit" where
  "raise_if_closed so h s =
     (if h_closed h then Inl RdzvClosed
      else if store_check so s [closed_key (h_plans h)] then Inl RdzvExit else Inr ())"

definition raise_heartbeat_error :: "handler \<Rightarrow> rendezvous_error + unit" where
  "raise_heartbeat_error h =
     (if h_heartbeat_error h then Inl (RdzvConnection ''standby heartbeat failed'') else Inr ())"

text \<open>One turn of \<open>_heartbeat_loop\<close>: the payload written for its sequence number.\<close>

definition heartbeat_record :: "string \<Rightarrow> string \<Rightarrow> int \<Rightarrow> json" where
  "heartbeat_record agent_id node_id sequence = JObj
     [(''agent_id'', JStr agent_id), (''node_id'', JStr node_id), (''sequence'', JInt sequence)]"

definition heartbeat_turn ::
  "'s store_ops \<Rightarrow> (string \<Rightarrow> string) \<Rightarrow> handler \<Rightarrow> int \<Rightarrow> 's \<Rightarrow> int \<times> 's" where
  "heartbeat_turn so sha h sequence s =
     (if h_closed h then (sequence, s)
      else (sequence + 1, store_set so s (heartbeat_key sha (h_plans h) (rt_node_id (h_config h)))
         (canonical_json (heartbeat_record (h_agent_id h) (rt_node_id (h_config h)) sequence))))"

definition ready_record :: "string \<Rightarrow> string \<Rightarrow> json" where
  "ready_record agent_id policy_digest = JObj
     [(''agent_id'', JStr agent_id), (''policy_digest'', JStr policy_digest), (''schema_version'', JInt 1)]"

definition ready_agent_record ::
  "'s store_ops \<Rightarrow> (string \<Rightarrow> string) \<Rightarrow> plan_store \<Rightarrow> int \<Rightarrow> 's \<Rightarrow> string \<Rightarrow> rendezvous_error + (string \<times> string) option" where
  "ready_agent_record so sha ps generation s node_id =
     rbind (rcatch RdzvRuntime (get_bytes so s (ready_key sha ps generation node_id))) (\<lambda>encoded.
     Inr (case loads encoded of
        Inr (JObj kvs) \<Rightarrow>
          if has_fields kvs [''agent_id'', ''policy_digest'', ''schema_version''] \<and>
             get_field kvs ''schema_version'' = JInt 1
          then (case (nonempty (get_field kvs ''agent_id'') ''agent_id'',
                      nonempty (get_field kvs ''policy_digest'') ''policy_digest'') of
                  (Inr agent_id, Inr policy_digest) \<Rightarrow> Some (agent_id, policy_digest)
                | _ \<Rightarrow> None)
          else None
      | _ \<Rightarrow> None))"

text \<open>The judgement on one valid heartbeat: a node is live only after its sequence was seen to move.\<close>

definition observe_heartbeat ::
  "int \<Rightarrow> heartbeat_observation option \<Rightarrow> string \<Rightarrow> int \<Rightarrow> real \<Rightarrow> bool \<times> heartbeat_observation" where
  "observe_heartbeat timeout_ms previous agent sequence now =
     (case previous of
        None \<Rightarrow> (False, (agent, sequence, now, False))
      | Some (p_agent, p_sequence, p_seen, p_live) \<Rightarrow>
          if p_agent \<noteq> agent \<or> sequence < p_sequence then (False, (agent, sequence, now, False))
          else if p_sequence < sequence then (True, (agent, sequence, now, True))
          else (p_live \<and> 0 \<le> now - p_seen \<and> now - p_seen < of_int timeout_ms / 1000,
                (p_agent, p_sequence, p_seen, p_live)))"

definition heartbeat_is_live ::
  "'s store_ops \<Rightarrow> (string \<Rightarrow> string) \<Rightarrow> (nat \<Rightarrow> real) \<Rightarrow> string \<Rightarrow> string option \<Rightarrow> handler \<Rightarrow> 's \<Rightarrow> bool \<times> handler" where
  "heartbeat_is_live so sha clk node_id agent_id h s =
     (case store_get so s (heartbeat_key sha (h_plans h) node_id) of
        None \<Rightarrow> (False, h)
      | Some encoded \<Rightarrow>
          (case loads encoded of
             Inr (JObj kvs) \<Rightarrow>
               (case (get_field kvs ''agent_id'', get_field kvs ''sequence'') of
                  (JStr observed, JInt sequence) \<Rightarrow>
                    if \<not> has_fields kvs [''agent_id'', ''node_id'', ''sequence''] \<or>
                       get_field kvs ''node_id'' \<noteq> JStr node_id \<or> observed = [] \<or>
                       (agent_id \<noteq> None \<and> agent_id \<noteq> Some observed) \<or> sequence < 0
                    then (False, h)
                    else
                      let (now, h1) = read_clock clk h
                      in if now < 0 then (False, h1)
                         else
                           let (live, observation) = observe_heartbeat (rt_heartbeat_timeout_ms (h_config h1))
                                 (h_heartbeats h1 node_id) observed sequence now
                           in (live, h1\<lparr>h_heartbeats := (h_heartbeats h1)(node_id \<mapsto> observation)\<rparr>)
                | _ \<Rightarrow> (False, h))
           | _ \<Rightarrow> (False, h)))"

fun heartbeats_live ::
  "'s store_ops \<Rightarrow> (string \<Rightarrow> string) \<Rightarrow> (nat \<Rightarrow> real) \<Rightarrow> (string \<times> string option) list \<Rightarrow> handler \<Rightarrow> 's
     \<Rightarrow> bool list \<times> handler" where
  "heartbeats_live so sha clk [] h s = ([], h)"
| "heartbeats_live so sha clk ((node, agent) # rest) h s =
     (let (b, h1) = heartbeat_is_live so sha clk node agent h s;
          (bs, h2) = heartbeats_live so sha clk rest h1 s
      in (b # bs, h2))"

section \<open>Lease observation\<close>

definition lease_freshness :: "int \<Rightarrow> real" where
  "lease_freshness timeout_ms = max (of_int timeout_ms / 1000) (3 / 10)"

text \<open>The judgement on one lease that was read: \<open>None\<close> when its sequence moved backwards.\<close>

definition observe_lease ::
  "int \<Rightarrow> lease_observation option \<Rightarrow> int \<Rightarrow> int \<Rightarrow> real \<Rightarrow> (bool \<times> lease_observation) option" where
  "observe_lease timeout_ms previous sequence remaining_ms now =
     (let freshness_deadline = now + min (of_int remaining_ms / 1000) (lease_freshness timeout_ms);
          manager_deadline = now + of_int remaining_ms / 1000
      in case previous of
           None \<Rightarrow> Some (False, (sequence, freshness_deadline, manager_deadline, False))
         | Some (p_sequence, p_fresh, p_manager, p_live) \<Rightarrow>
             if sequence < p_sequence then None
             else if p_sequence < sequence then
               let live = (0 < remaining_ms \<and> now < freshness_deadline)
               in Some (live, (sequence, freshness_deadline, manager_deadline, live))
             else Some (p_live \<and> now < p_fresh, (p_sequence, p_fresh, p_manager, p_live)))"

definition lease_key :: "restart_plan \<Rightarrow> int \<times> string" where
  "lease_key plan = (rp_to_generation plan, rp_plan_id plan)"

definition plan_lease_is_live ::
  "'s store_ops \<Rightarrow> (string \<Rightarrow> string) \<Rightarrow> (nat \<Rightarrow> real) \<Rightarrow> restart_plan \<Rightarrow> handler \<Rightarrow> 's
     \<Rightarrow> (rendezvous_error + bool) \<times> handler" where
  "plan_lease_is_live so sha clk plan h s =
     (case read_plan_lease so sha (h_plans h) plan s of
        Inl e \<Rightarrow> (Inl (RdzvRuntime e), h)
      | Inr None \<Rightarrow> (Inr False, h)
      | Inr (Some (sequence, remaining_ms)) \<Rightarrow>
          let (now, h1) = read_clock clk h
          in if now < 0 then (Inl (RdzvState ''monotonic clock returned an invalid value''), h1)
             else (case observe_lease (rt_heartbeat_timeout_ms (h_config h1)) (h_leases h1 (lease_key plan))
                       sequence remaining_ms now of
                     None \<Rightarrow> (Inl (RdzvState ''recovery plan lease sequence moved backwards''), h1)
                   | Some (live, observation) \<Rightarrow>
                       (Inr live, h1\<lparr>h_leases := (h_leases h1)(lease_key plan \<mapsto> observation)\<rparr>)))"

definition check_plan_lease ::
  "'s store_ops \<Rightarrow> (string \<Rightarrow> string) \<Rightarrow> (nat \<Rightarrow> real) \<Rightarrow> restart_plan option \<Rightarrow> handler \<Rightarrow> 's
     \<Rightarrow> (rendezvous_error + unit) \<times> handler" where
  "check_plan_lease so sha clk plan h s =
     (case plan of
        None \<Rightarrow> (Inr (), h)
      | Some p \<Rightarrow>
          let (r, h1) = plan_lease_is_live so sha clk p h s
          in (rbind r (\<lambda>live. ensure live (RdzvTimeout ''recovery plan lease elapsed'')), h1))"

definition plan_lease_deadline_ns :: "handler \<Rightarrow> restart_plan \<Rightarrow> rendezvous_error + int" where
  "plan_lease_deadline_ns h plan =
     (case h_leases h (lease_key plan) of
        Some (sequence, fresh, manager_deadline, live) \<Rightarrow>
          if live then Inr (py_trunc (manager_deadline * 1000000000))
          else Inl (RdzvState ''recovery plan lease was not observed as live'')
      | None \<Rightarrow> Inl (RdzvState ''recovery plan lease was not observed as live''))"

section \<open>Admission\<close>

definition assignment_of ::
  "'s store_ops \<Rightarrow> handler \<Rightarrow> int \<Rightarrow> restart_plan option \<Rightarrow> 's
     \<Rightarrow> (rendezvous_error + node_assignment list option) \<times> 's" where
  "assignment_of so h generation plan s =
     (if generation = 0 then
        (case ensure_initial_nodes so (h_plans h) (rt_min_nodes (h_config h)) (rt_max_nodes (h_config h)) s of
           (Inl e, s1) \<Rightarrow> (Inl (RdzvRuntime e), s1)
         | (Inr None, s1) \<Rightarrow> (Inr None, s1)
         | (Inr (Some node_ids), s1) \<Rightarrow>
             (Inr (Some (map (\<lambda>(slot, node). (int slot, node)) (enumerate 0 node_ids))), s1))
      else
        (case plan of
           None \<Rightarrow> (Inl (RdzvState ''current generation has no recovery plan''), s)
         | Some p \<Rightarrow> (Inr (Some (map (\<lambda>a. (sa_slot a, sa_node a)) (rp_slot_assignments p))), s)))"

text \<open>The number of nodes torchrun should restart for.\<close>

definition num_nodes_waiting ::
  "'s store_ops \<Rightarrow> (string \<Rightarrow> string) \<Rightarrow> (nat \<Rightarrow> real) \<Rightarrow> handler \<Rightarrow> 's \<Rightarrow> (rendezvous_error + int) \<times> handler" where
  "num_nodes_waiting so sha clk h s =
     (case h_last_generation h of
        None \<Rightarrow> (Inr 0, h)
      | Some last_gen \<Rightarrow>
          let fail = (\<lambda>e. case e of
                Corrupt m \<Rightarrow> Inl (RdzvState ''recovery-plan state is corrupt'')
              | InvalidArgument m \<Rightarrow> Inl (RdzvState ''recovery-plan state is corrupt'')
              | AnotherRun \<Rightarrow> Inl (RdzvState ''recovery-plan state is corrupt'')
              | _ \<Rightarrow> Inr 0)
          in (case current_generation so (h_plans h) s of
                Inl e \<Rightarrow> (fail e, h)
              | Inr generation \<Rightarrow>
                  if generation \<le> last_gen then (Inr 0, h)
                  else (case read_plan so (h_plans h) generation s of
                          Inl e \<Rightarrow> (fail e, h)
                        | Inr None \<Rightarrow> (Inr 0, h)
                        | Inr (Some plan) \<Rightarrow>
                            (case plan_lease_is_live so sha clk plan h s of
                               (Inl (RdzvRuntime e), h1) \<Rightarrow> (fail e, h1)
                             | (Inl _, h1) \<Rightarrow> (Inr 0, h1)
                             | (Inr False, h1) \<Rightarrow> (Inr 0, h1)
                             | (Inr True, h1) \<Rightarrow>
                                 let selected = remdups (filter (\<lambda>n. n \<notin> snd ` set (h_last_assignment h1))
                                       (map sa_node (rp_slot_assignments plan)))
                                 in if selected = [] then (Inr 1, h1)
                                    else let (bs, h2) = heartbeats_live so sha clk (map (\<lambda>n. (n, None)) selected) h1 s
                                         in (Inr (int (length (filter id bs))), h2)))))"

definition is_closed :: "'s store_ops \<Rightarrow> handler \<Rightarrow> 's \<Rightarrow> bool" where
  "is_closed so h s = (h_closed h \<or> store_check so s [closed_key (h_plans h)])"

definition set_closed :: "'s store_ops \<Rightarrow> handler \<Rightarrow> 's \<Rightarrow> handler \<times> 's" where
  "set_closed so h s = (h\<lparr>h_closed := True\<rparr>, store_set so s (closed_key (h_plans h)) ''1'')"

definition shutdown_handler :: "handler \<Rightarrow> handler" where
  "shutdown_handler h = h\<lparr>h_closed := True\<rparr>"

section \<open>One admission, iteration by iteration\<close>

record rendezvous_info =
  ri_generation :: int
  ri_rank :: int
  ri_world_size :: int

text \<open>
  Where \<open>next_rendezvous\<close> is: polling for its generation, in \<open>_wait_for_plan_lease\<close>, in
  \<open>_wait_for_group\<close>, past the barrier, returned or raised. \<open>admission\<close> is the deadline of the
  call, \<open>deadline\<close> that of the current attempt.
\<close>

datatype rendezvous_pc =
    Poll real
  | AwaitLease real int restart_plan "node_assignment list" int real
  | AwaitGroup real int "restart_plan option" "node_assignment list" int real
  | Confirm real int "restart_plan option" "node_assignment list" int real
  | Joined rendezvous_info
  | Raised rendezvous_error

definition start_rendezvous :: "(nat \<Rightarrow> real) \<Rightarrow> handler \<Rightarrow> rendezvous_pc \<times> handler" where
  "start_rendezvous clk h =
     (let (now, h1) = read_clock clk h
      in (Poll (now + of_int (rt_join_timeout_ms (h_config h)) / 1000), h1))"

text \<open>Keep polling until the admission deadline has passed.\<close>

definition poll_again :: "(nat \<Rightarrow> real) \<Rightarrow> real \<Rightarrow> string \<Rightarrow> handler \<Rightarrow> rendezvous_pc \<times> handler" where
  "poll_again clk admission reason h =
     (let (now, h1) = read_clock clk h
      in (if admission \<le> now then Raised (RdzvTimeout reason) else Poll admission, h1))"

definition write_ready ::
  "'s store_ops \<Rightarrow> (string \<Rightarrow> string) \<Rightarrow> handler \<Rightarrow> int \<Rightarrow> 's \<Rightarrow> 's" where
  "write_ready so sha h generation s =
     store_set so s (ready_key sha (h_plans h) generation (rt_node_id (h_config h)))
       (canonical_json (ready_record (h_agent_id h) (h_policy_digest h)))"

definition own_slot :: "handler \<Rightarrow> node_assignment list \<Rightarrow> int option" where
  "own_slot h assignment = map_option fst (find (\<lambda>item. snd item = rt_node_id (h_config h)) assignment)"

text \<open>The outer loop of \<open>next_rendezvous\<close>, up to its next wait.\<close>

definition poll_step ::
  "'s store_ops \<Rightarrow> (string \<Rightarrow> string) \<Rightarrow> (nat \<Rightarrow> real) \<Rightarrow> real \<Rightarrow> handler \<Rightarrow> 's \<Rightarrow> rendezvous_pc \<times> handler \<times> 's" where
  "poll_step so sha clk admission h s =
     (case rbind (raise_if_closed so h s) (\<lambda>_.
           rbind (raise_heartbeat_error h) (\<lambda>_.
           rcatch RdzvRuntime (current_generation so (h_plans h) s))) of
        Inl e \<Rightarrow> (Raised e, h, s)
      | Inr generation \<Rightarrow>
          if (case h_last_generation h of None \<Rightarrow> False | Some last_gen \<Rightarrow> generation \<le> last_gen) then
            let (pc, h1) = poll_again clk admission ''timed out waiting for a manager-owned successor generation'' h
            in (pc, h1, s)
          else
            (case read_plan so (h_plans h) generation s of
               Inl e \<Rightarrow> (Raised (RdzvRuntime e), h, s)
             | Inr plan \<Rightarrow>
                 (case assignment_of so h generation plan s of
                    (Inl e, s1) \<Rightarrow> (Raised e, h, s1)
                  | (Inr None, s1) \<Rightarrow>
                      let (pc, h1) = poll_again clk admission ''timed out waiting for initial node registrations'' h
                      in (pc, h1, s1)
                  | (Inr (Some assignment), s1) \<Rightarrow>
                      (case own_slot h assignment of
                         None \<Rightarrow> (Poll admission, h, s1)
                       | Some slot \<Rightarrow>
                           let (now, h1) = read_clock clk h;
                               deadline = now + of_int (rt_join_timeout_ms (h_config h1)) / 1000
                           in if generation = 0 then
                                (AwaitGroup admission generation None assignment slot deadline,
                                 h1\<lparr>h_context := context_clear (h_context h1)\<rparr>, write_ready so sha h1 generation s1)
                              else (AwaitLease admission generation (the plan) assignment slot deadline, h1, s1)))))"

text \<open>One iteration of \<open>_wait_for_plan_lease\<close>, then the ready record.\<close>

definition await_lease_step ::
  "'s store_ops \<Rightarrow> (string \<Rightarrow> string) \<Rightarrow> (nat \<Rightarrow> real) \<Rightarrow> real \<Rightarrow> int \<Rightarrow> restart_plan \<Rightarrow> node_assignment list \<Rightarrow> int
     \<Rightarrow> real \<Rightarrow> handler \<Rightarrow> 's \<Rightarrow> rendezvous_pc \<times> handler \<times> 's" where
  "await_lease_step so sha clk admission generation plan assignment slot deadline h s =
     (case rbind (raise_if_closed so h s) (\<lambda>_.
           rbind (raise_heartbeat_error h) (\<lambda>_.
           rcatch RdzvRuntime (current_generation so (h_plans h) s))) of
        Inl e \<Rightarrow> (Raised e, h, s)
      | Inr current \<Rightarrow>
          if current \<noteq> rp_to_generation plan then (Poll admission, h, s)
          else
            (case plan_lease_is_live so sha clk plan h s of
               (Inl e, h1) \<Rightarrow> (Raised e, h1, s)
             | (Inr True, h1) \<Rightarrow>
                 (AwaitGroup admission generation (Some plan) assignment slot deadline, h1,
                  write_ready so sha h1 generation s)
             | (Inr False, h1) \<Rightarrow>
                 let (now, h2) = read_clock clk h1
                 in if deadline \<le> now
                    then (Raised (RdzvTimeout ''timed out waiting for recovery plan lease''), h2, s)
                    else (AwaitLease admission generation plan assignment slot deadline, h2, s)))"

text \<open>Whether the assigned nodes are all ready and alive, with one worker policy.\<close>

definition group_ready ::
  "'s store_ops \<Rightarrow> (string \<Rightarrow> string) \<Rightarrow> (nat \<Rightarrow> real) \<Rightarrow> int \<Rightarrow> node_assignment list \<Rightarrow> handler \<Rightarrow> 's
     \<Rightarrow> (rendezvous_error + bool) \<times> handler" where
  "group_ready so sha clk generation assignment h s =
     (if \<not> store_check so s (map (\<lambda>item. ready_key sha (h_plans h) generation (snd item)) assignment)
      then (Inr False, h)
      else
        (case rmap (\<lambda>item. ready_agent_record so sha (h_plans h) generation s (snd item)) assignment of
           Inl e \<Rightarrow> (Inl e, h)
         | Inr records \<Rightarrow>
             if \<not> list_all (\<lambda>r. r \<noteq> None) records then (Inr False, h)
             else if length (remdups (map (\<lambda>r. snd (the r)) records)) \<noteq> 1 then
               (Inl (RdzvState ''assigned nodes disagree on the LM Resiliency worker policy''), h)
             else
               let (states, h1) = heartbeats_live so sha clk
                     (map (\<lambda>(item, r). (snd item, Some (fst (the r)))) (zip assignment records)) h s
               in (Inr (list_all id states), h1)))"

text \<open>One iteration of \<open>_wait_for_group\<close>.\<close>

definition await_group_step ::
  "'s store_ops \<Rightarrow> (string \<Rightarrow> string) \<Rightarrow> (nat \<Rightarrow> real) \<Rightarrow> real \<Rightarrow> int \<Rightarrow> restart_plan option \<Rightarrow> node_assignment list \<Rightarrow> int
     \<Rightarrow> real \<Rightarrow> handler \<Rightarrow> 's \<Rightarrow> rendezvous_pc \<times> handler \<times> 's" where
  "await_group_step so sha clk admission generation plan assignment slot deadline h s =
     (case rbind (raise_if_closed so h s) (\<lambda>_.
           rbind (raise_heartbeat_error h) (\<lambda>_.
           rcatch RdzvRuntime (current_generation so (h_plans h) s))) of
        Inl e \<Rightarrow> (Raised e, h, s)
      | Inr current \<Rightarrow>
          if current \<noteq> generation then (Poll admission, h, s)
          else
            (case check_plan_lease so sha clk plan h s of
               (Inl e, h1) \<Rightarrow> (Raised e, h1, s)
             | (Inr _, h1) \<Rightarrow>
                 (case group_ready so sha clk generation assignment h1 s of
                    (Inl e, h2) \<Rightarrow> (Raised e, h2, s)
                  | (Inr True, h2) \<Rightarrow> (Confirm admission generation plan assignment slot deadline, h2, s)
                  | (Inr False, h2) \<Rightarrow>
                      let (now, h3) = read_clock clk h2
                      in if deadline \<le> now
                         then (Raised (RdzvTimeout ''timed out waiting for assigned nodes''), h3, s)
                         else (AwaitGroup admission generation plan assignment slot deadline, h3, s))))"

text \<open>
  The tail of \<open>next_rendezvous\<close> after the barrier. \<open>build\<close> is \<open>RendezvousStoreInfo.build\<close>: whether
  the bootstrap address was exchanged, and the store after it.
\<close>

definition confirm_step ::
  "'s store_ops \<Rightarrow> (string \<Rightarrow> string) \<Rightarrow> (int \<Rightarrow> int \<Rightarrow> 's \<Rightarrow> bool \<times> 's) \<Rightarrow> (nat \<Rightarrow> real) \<Rightarrow> real \<Rightarrow> int \<Rightarrow> restart_plan option
     \<Rightarrow> node_assignment list \<Rightarrow> int \<Rightarrow> real \<Rightarrow> handler \<Rightarrow> 's \<Rightarrow> rendezvous_pc \<times> handler \<times> 's" where
  "confirm_step so sha build clk admission generation plan assignment slot deadline h s =
     (case current_generation so (h_plans h) s of
        Inl e \<Rightarrow> (Raised (RdzvRuntime e), h, s)
      | Inr current \<Rightarrow>
          if current \<noteq> generation then (Poll admission, h, s)
          else
            (case check_plan_lease so sha clk plan h s of
               (Inl e, h1) \<Rightarrow> (Raised e, h1, s)
             | (Inr _, h1) \<Rightarrow>
                 let h2 = h1\<lparr>h_last_generation := Some generation, h_last_assignment := assignment\<rparr>;
                     (now, h3) = read_clock clk h2
                 in if deadline \<le> now then (Raised (RdzvTimeout ''timed out before bootstrap''), h3, s)
                    else
                      let (built, s1) = build generation slot s
                      in if \<not> built
                         then (Raised (RdzvConnection ''failed to build worker bootstrap store''), h3, s1)
                         else
                           let info = \<lparr>ri_generation = generation, ri_rank = slot,
                                 ri_world_size = int (length assignment)\<rparr>
                           in case plan of
                                None \<Rightarrow> (Joined info, h3, s1)
                              | Some p \<Rightarrow>
                                  (case check_plan_lease so sha clk plan h3 s1 of
                                     (Inl e, h4) \<Rightarrow> (Raised e, h4, s1)
                                   | (Inr _, h4) \<Rightarrow>
                                       (case plan_lease_deadline_ns h4 p of
                                          Inl e \<Rightarrow> (Raised e, h4, s1)
                                        | Inr deadline_ns \<Rightarrow>
                                            (case context_from_plan p (rt_node_id (h_config h4)) deadline_ns of
                                               Inl e \<Rightarrow> (Raised (RdzvState ''failed to publish restart context''), h4, s1)
                                             | Inr context \<Rightarrow>
                                                 (case context_write context (h_context h4) of
                                                    (Inl e, fs) \<Rightarrow>
                                                      (Raised (RdzvState ''failed to publish restart context''),
                                                       h4\<lparr>h_context := fs\<rparr>, s1)
                                                  | (Inr _, fs) \<Rightarrow> (Joined info, h4\<lparr>h_context := fs\<rparr>, s1)))))))"

fun rendezvous_step ::
  "'s store_ops \<Rightarrow> (string \<Rightarrow> string) \<Rightarrow> (int \<Rightarrow> int \<Rightarrow> 's \<Rightarrow> bool \<times> 's) \<Rightarrow> (nat \<Rightarrow> real) \<Rightarrow> rendezvous_pc \<Rightarrow> handler \<Rightarrow> 's
     \<Rightarrow> rendezvous_pc \<times> handler \<times> 's" where
  "rendezvous_step so sha build clk (Poll admission) h s = poll_step so sha clk admission h s"
| "rendezvous_step so sha build clk (AwaitLease admission generation plan assignment slot deadline) h s =
     await_lease_step so sha clk admission generation plan assignment slot deadline h s"
| "rendezvous_step so sha build clk (AwaitGroup admission generation plan assignment slot deadline) h s =
     await_group_step so sha clk admission generation plan assignment slot deadline h s"
| "rendezvous_step so sha build clk (Confirm admission generation plan assignment slot deadline) h s =
     confirm_step so sha build clk admission generation plan assignment slot deadline h s"
| "rendezvous_step so sha build clk (Joined info) h s = (Joined info, h, s)"
| "rendezvous_step so sha build clk (Raised e) h s = (Raised e, h, s)"

end
