(* ===== verification/Rendezvous_Laws.thy ===== *)
theory Rendezvous_Laws
  imports Rendezvous
begin

text \<open>
  What the rendezvous handler guarantees: the manager lease counts as live only on evidence of
  renewal, and an agent joins a generation only in the slot that a valid assignment gives it, with
  the matching restart context on disk. The proofs go through an invariant of the admission steps.
\<close>

section \<open>A lease is live only while it is being renewed\<close>

text \<open>A sequence of readings of one lease: its sequence number, remaining time and the clock.\<close>

fun observe_leases ::
  "int \<Rightarrow> lease_observation option \<Rightarrow> (int \<times> int \<times> real) list \<Rightarrow> (bool list \<times> lease_observation option) option" where
  "observe_leases t prev [] = Some ([], prev)"
| "observe_leases t prev ((sequence, remaining, now) # reads) =
     (case observe_lease t prev sequence remaining now of
        None \<Rightarrow> None
      | Some (live, obs) \<Rightarrow> map_option (\<lambda>(ls, last_obs). (live # ls, last_obs)) (observe_leases t (Some obs) reads))"

lemma observe_leases_snoc:
  "observe_leases t prev (reads @ [(sequence, remaining, now)]) =
     (case observe_leases t prev reads of
        None \<Rightarrow> None
      | Some (ls, obs) \<Rightarrow>
          (case observe_lease t obs sequence remaining now of
             None \<Rightarrow> None
           | Some (live, obs') \<Rightarrow> Some (ls @ [live], Some obs')))"
  by (induction t prev reads rule: observe_leases.induct) (auto split: option.splits)

lemma observe_leases_length: "observe_leases t prev reads = Some (ls, obs) \<Longrightarrow> length ls = length reads"
  by (induction t prev reads arbitrary: ls rule: observe_leases.induct) (auto split: option.splits)

text \<open>What an observation remembers: the last sequence number and, if live, the renewal that made it so.\<close>

definition renewed_at :: "int \<Rightarrow> (int \<times> int \<times> real) list \<Rightarrow> int \<Rightarrow> real \<Rightarrow> real \<Rightarrow> bool" where
  "renewed_at t reads sequence fresh manager \<longleftrightarrow>
     (\<exists>i j. i < j \<and> j < length reads \<and> fst (reads ! i) < fst (reads ! j) \<and> fst (reads ! j) = sequence \<and>
        0 < fst (snd (reads ! j)) \<and>
        fresh = snd (snd (reads ! j)) + min (of_int (fst (snd (reads ! j))) / 1000) (lease_freshness t) \<and>
        manager = snd (snd (reads ! j)) + of_int (fst (snd (reads ! j))) / 1000)"

lemma renewed_at_append: "renewed_at t reads q f m \<Longrightarrow> renewed_at t (reads @ rest) q f m"
proof -
  assume "renewed_at t reads q f m"
  then obtain i j where ij: "i < j" "j < length reads" and
    rest: "fst (reads ! i) < fst (reads ! j)" "fst (reads ! j) = q" "0 < fst (snd (reads ! j))"
      "f = snd (snd (reads ! j)) + min (of_int (fst (snd (reads ! j))) / 1000) (lease_freshness t)"
      "m = snd (snd (reads ! j)) + of_int (fst (snd (reads ! j))) / 1000"
    by (auto simp: renewed_at_def)
  have "(reads @ rest) ! i = reads ! i" "(reads @ rest) ! j = reads ! j" using ij by (simp_all add: nth_append)
  with ij rest show ?thesis unfolding renewed_at_def by (intro exI [of _ i] exI [of _ j]) simp
qed

lemma observation_sound:
  assumes "observe_leases t None reads = Some (ls, Some (q, f, m, live))"
  shows "reads \<noteq> [] \<and> q = fst (last reads) \<and> (live \<longrightarrow> renewed_at t reads q f m)"
  using assms
proof (induction reads arbitrary: ls q f m live rule: rev_induct)
  case (snoc r reads)
  obtain sequence remaining now where r: "r = (sequence, remaining, now)" by (cases r)
  obtain ls' obs where prev: "observe_leases t None reads = Some (ls', obs)"
    using snoc.prems by (auto simp: r observe_leases_snoc split: option.splits)
  show ?case
  proof (cases obs)
    case None
    then show ?thesis using snoc.prems prev by (auto simp: r observe_leases_snoc observe_lease_def Let_def)
  next
    case (Some o')
    obtain q' f' m' live' where o': "o' = (q', f', m', live')" by (cases o')
    note IH = snoc.IH [OF prev [unfolded Some o']]
    show ?thesis
    proof (cases "q' < sequence")
      case True
      let ?l = "length reads - 1"
      have "last reads = reads ! ?l" "?l < length reads" using IH by (auto simp: last_conv_nth)
      then have "renewed_at t (reads @ [r]) sequence
          (now + min (of_int remaining / 1000) (lease_freshness t)) (now + of_int remaining / 1000)"
        if "0 < remaining"
        unfolding renewed_at_def
        using IH True that by (intro exI [of _ ?l] exI [of _ "length reads"]) (simp add: nth_append r)
      then show ?thesis
        using snoc.prems prev True by (auto simp: r Some o' observe_leases_snoc observe_lease_def Let_def)
    next
      case False
      then show ?thesis
        using snoc.prems prev IH renewed_at_append [of t reads]
        by (auto simp: r Some o' observe_leases_snoc observe_lease_def Let_def split: if_splits)
    qed
  qed
qed simp

text \<open>An agent calls the manager's lease live only on evidence of renewal: among its readings
  there are two with different sequence numbers, the later of which is the current number, was read
  with time remaining, and is younger than both that time and the freshness limit.\<close>

theorem lease_live_needs_renewal:
  assumes "observe_leases t None (reads @ [(q, r, now)]) = Some (ls @ [True], obs)"
  shows "\<exists>i j. i < j \<and> j \<le> length reads \<and>
    (let all = reads @ [(q, r, now)] in
       fst (all ! i) < fst (all ! j) \<and> fst (all ! j) = q \<and> 0 < fst (snd (all ! j)) \<and>
       now < snd (snd (all ! j)) + min (of_int (fst (snd (all ! j))) / 1000) (lease_freshness t))"
proof -
  obtain sq f m live where obs: "obs = Some (sq, f, m, live)"
    using assms by (auto simp: observe_leases_snoc split: option.splits)
  have "live \<and> now < f"
    using assms by (auto simp: obs observe_leases_snoc observe_lease_def Let_def split: option.splits if_splits)
  with observation_sound [OF assms [unfolded obs]] show ?thesis
    by (auto simp: renewed_at_def Let_def less_Suc_eq_le)
qed

theorem lease_live_needs_renewal_witness:
  "\<exists>ls obs. observe_leases 10000 None [(1, 5000, 0), (2, 4900, 1 / 10)] = Some (ls @ [True], obs) \<and>
     (\<exists>i j. i < j \<and> j \<le> length [(1::int, 5000::int, 0::real)])"
proof -
  have e: "observe_leases 10000 None ([(1, 5000, 0)] @ [(2, 4900, 1 / 10)]) =
      Some ([False] @ [True], Some (2, 1 / 10 + 49 / 10, 1 / 10 + 49 / 10, True))"
    by (simp add: observe_lease_def lease_freshness_def)
  show ?thesis using lease_live_needs_renewal [OF e] e by auto
qed

section \<open>An agent that joins was assigned\<close>

text \<open>
  One call of \<open>next_rendezvous\<close> against a store that may hold anything at every step, while the
  handler's own threads may close it or report a heartbeat failure.
\<close>

inductive agent_run ::
  "'s store_ops \<Rightarrow> (string \<Rightarrow> string) \<Rightarrow> (int \<Rightarrow> int \<Rightarrow> 's \<Rightarrow> bool \<times> 's) \<Rightarrow> (nat \<Rightarrow> real) \<Rightarrow> handler \<Rightarrow> rendezvous_pc \<Rightarrow> handler \<Rightarrow> bool"
  for so :: "'s store_ops" and sha and build and clk and h0 where
  enter: "start_rendezvous clk h0 = (pc, h) \<Longrightarrow> agent_run so sha build clk h0 pc h"
| iterate: "agent_run so sha build clk h0 pc h \<Longrightarrow> rendezvous_step so sha build clk pc h s = (pc', h', s') \<Longrightarrow>
     agent_run so sha build clk h0 pc' h'"
| signal: "agent_run so sha build clk h0 pc h \<Longrightarrow>
     agent_run so sha build clk h0 pc (h\<lparr>h_closed := c, h_heartbeat_error := e\<rparr>)"

text \<open>The parts of the handler that an observation or a clock reading leaves alone.\<close>

definition same_agent :: "handler \<Rightarrow> handler \<Rightarrow> bool" where
  "same_agent h h' \<longleftrightarrow> h_config h' = h_config h \<and> h_plans h' = h_plans h \<and>
     h_last_generation h' = h_last_generation h \<and> h_last_assignment h' = h_last_assignment h \<and>
     h_context h' = h_context h"

lemma same_agent_refl [simp]: "same_agent h h"
  by (simp add: same_agent_def)

lemma same_agent_trans: "same_agent h h1 \<Longrightarrow> same_agent h1 h2 \<Longrightarrow> same_agent h h2"
  by (simp add: same_agent_def)

lemma read_clock_same: "read_clock clk h = (now, h') \<Longrightarrow> same_agent h h'"
  by (auto simp: read_clock_def same_agent_def)

lemma plan_lease_same: "plan_lease_is_live so sha clk p h s = (r, h') \<Longrightarrow> same_agent h h'"
  by (auto simp: plan_lease_is_live_def read_clock_def same_agent_def Let_def
      split: sum.splits option.splits prod.splits if_splits)

lemma check_lease_same: "check_plan_lease so sha clk p h s = (r, h') \<Longrightarrow> same_agent h h'"
  by (auto simp: check_plan_lease_def Let_def split: option.splits prod.splits dest: plan_lease_same)

lemma heartbeat_same: "heartbeat_is_live so sha clk n a h s = (b, h') \<Longrightarrow> same_agent h h'"
  by (auto simp: heartbeat_is_live_def read_clock_def same_agent_def Let_def
      split: sum.splits option.splits prod.splits if_splits json.splits)

lemma heartbeats_same: "heartbeats_live so sha clk nodes h s = (bs, h') \<Longrightarrow> same_agent h h'"
proof (induction so sha clk nodes h s arbitrary: bs h' rule: heartbeats_live.induct)
  case (2 so sha clk node agent rest h s)
  then show ?case
    by (auto simp: Let_def split: prod.splits) (metis heartbeat_same same_agent_trans)
qed simp

lemma group_ready_same: "group_ready so sha clk g a h s = (r, h') \<Longrightarrow> same_agent h h'"
  by (auto simp: group_ready_def Let_def split: sum.splits prod.splits if_splits dest: heartbeats_same)

lemmas same_agent_rules = read_clock_same plan_lease_same check_lease_same group_ready_same

text \<open>The slots of a plan, and what an attempt at generation \<open>g\<close> knows.\<close>

definition plan_slots :: "restart_plan \<Rightarrow> node_assignment list" where
  "plan_slots p = map (\<lambda>a. (sa_slot a, sa_node a)) (rp_slot_assignments p)"

definition attempt_ok :: "handler \<Rightarrow> handler \<Rightarrow> int \<Rightarrow> restart_plan option \<Rightarrow> node_assignment list \<Rightarrow> int \<Rightarrow> bool" where
  "attempt_ok h0 h g plan assignment slot \<longleftrightarrow>
     (case h_last_generation h0 of None \<Rightarrow> True | Some l \<Rightarrow> l < g) \<and> 0 \<le> g \<and>
     own_slot h assignment = Some slot \<and>
     map fst assignment = map int [0..<length assignment] \<and>
     (case plan of
        None \<Rightarrow> g = 0 \<and> cf_file (h_context h) = None
      | Some p \<Rightarrow> 1 \<le> g \<and> plan_for (h_plans h) g p \<and> assignment = plan_slots p)"

definition joined_ok :: "handler \<Rightarrow> handler \<Rightarrow> rendezvous_info \<Rightarrow> bool" where
  "joined_ok h0 h info \<longleftrightarrow>
     (case h_last_generation h0 of None \<Rightarrow> True | Some l \<Rightarrow> l < ri_generation info) \<and>
     own_slot h (h_last_assignment h) = Some (ri_rank info) \<and>
     ri_world_size info = int (length (h_last_assignment h)) \<and>
     0 \<le> ri_rank info \<and> ri_rank info < ri_world_size info \<and>
     h_last_generation h = Some (ri_generation info) \<and>
     (if ri_generation info = 0 then context_read (h_context h) = Inr None
      else \<exists>p c ns. plan_for (h_plans h) (ri_generation info) p \<and> h_last_assignment h = plan_slots p \<and>
        context_from_plan p (rt_node_id (h_config h)) ns = Inr c \<and> context_read (h_context h) = Inr (Some c))"

fun agent_inv :: "handler \<Rightarrow> handler \<Rightarrow> rendezvous_pc \<Rightarrow> bool" where
  "agent_inv h0 h (Poll admission) = True"
| "agent_inv h0 h (AwaitLease admission g plan assignment slot deadline) = attempt_ok h0 h g (Some plan) assignment slot"
| "agent_inv h0 h (AwaitGroup admission g plan assignment slot deadline) = attempt_ok h0 h g plan assignment slot"
| "agent_inv h0 h (Confirm admission g plan assignment slot deadline) = attempt_ok h0 h g plan assignment slot"
| "agent_inv h0 h (Joined info) = joined_ok h0 h info"
| "agent_inv h0 h (Raised e) = True"

text \<open>While the call has not joined or raised, the handler remembers the previous generation.\<close>

fun waiting :: "rendezvous_pc \<Rightarrow> bool" where
  "waiting (Joined info) = False"
| "waiting (Raised e) = False"
| "waiting pc = True"

definition run_inv :: "handler \<Rightarrow> rendezvous_pc \<Rightarrow> handler \<Rightarrow> bool" where
  "run_inv h0 pc h \<longleftrightarrow> h_config h = h_config h0 \<and> h_plans h = h_plans h0 \<and> agent_inv h0 h pc \<and>
     (waiting pc \<longrightarrow> h_last_generation h = h_last_generation h0)"

lemma own_slot_same: "same_agent h h' \<Longrightarrow> own_slot h' a = own_slot h a"
  by (simp add: own_slot_def same_agent_def)

lemma attempt_ok_same: "same_agent h h' \<Longrightarrow> attempt_ok h0 h' g p a sl = attempt_ok h0 h g p a sl"
  unfolding attempt_ok_def by (auto simp: own_slot_same) (auto simp: same_agent_def split: option.splits)

lemma run_inv_same:
  "run_inv h0 pc h \<Longrightarrow> same_agent h h' \<Longrightarrow> waiting pc \<Longrightarrow> run_inv h0 pc h'"
  using attempt_ok_same [of h h' h0] by (cases pc) (simp_all add: run_inv_def, simp_all add: same_agent_def)

lemma plan_slots_dense:
  assumes "plan_wf p"
  shows "map fst (plan_slots p) = map int [0..<length (plan_slots p)]"
proof -
  obtain L where "\<And>i. i < length (rp_slot_assignments p) \<Longrightarrow> sa_slot (rp_slot_assignments p ! i) = int i"
    using plan_world_size [OF assms] by metis
  then show ?thesis by (intro nth_equalityI) (auto simp: plan_slots_def)
qed

lemma own_slot_bound:
  assumes "own_slot h a = Some slot" "map fst a = map int [0..<length a]"
  shows "0 \<le> slot" "slot < int (length a)"
proof -
  obtain x where "find (\<lambda>item. snd item = rt_node_id (h_config h)) a = Some x" "fst x = slot"
    using assms(1) by (auto simp: own_slot_def)
  then have "x \<in> set a" "fst x = slot" by (auto simp: find_Some_iff)
  then have "slot \<in> set (map fst a)" by auto
  then have "slot \<in> int ` {0..<length a}" unfolding assms(2) by simp
  then show "0 \<le> slot" "slot < int (length a)" by auto
qed

lemma run_inv_raised: "run_inv h0 pc h \<Longrightarrow> same_agent h h' \<Longrightarrow> run_inv h0 (Raised e) h'"
  by (simp add: run_inv_def same_agent_def)

lemma run_inv_poll: "run_inv h0 pc h \<Longrightarrow> waiting pc \<Longrightarrow> same_agent h h' \<Longrightarrow> run_inv h0 (Poll adm) h'"
  by (simp add: run_inv_def same_agent_def)

lemma poll_again_inv:
  "poll_again clk adm reason h = (pc', h') \<Longrightarrow> run_inv h0 pc h \<Longrightarrow> waiting pc \<Longrightarrow> run_inv h0 pc' h'"
  by (auto simp: poll_again_def Let_def split: prod.splits if_splits
      intro: run_inv_raised run_inv_poll dest: read_clock_same)

lemma assignment_slots:
  assumes "assignment_of so h g plan s = (Inr (Some a), s1)" "read_plan so (h_plans h) g s = Inr plan" "0 \<le> g"
  shows "map fst a = map int [0..<length a]"
    "if g = 0 then True else \<exists>p. plan = Some p \<and> plan_for (h_plans h) g p \<and> a = plan_slots p"
proof -
  have "map fst a = map int [0..<length a] \<and>
    (if g = 0 then True else \<exists>p. plan = Some p \<and> plan_for (h_plans h) g p \<and> a = plan_slots p)"
  proof (cases "g = 0")
    case True
    then obtain nodes where "a = map (\<lambda>(slot, node). (int slot, node)) (enumerate 0 nodes)"
      using assms(1) by (auto simp: assignment_of_def split: prod.splits sum.splits option.splits)
    then have "map fst a = map int [0..<length a]"
      by (intro nth_equalityI) (simp_all add: nth_enumerate_eq)
    then show ?thesis using True by simp
  next
    case False
    then obtain p where p: "plan = Some p" "a = plan_slots p"
      using assms(1) by (auto simp: assignment_of_def plan_slots_def split: option.splits)
    then have "plan_for (h_plans h) g p" using assms(2) read_plan_facts(1) by simp
    then show ?thesis using p False plan_slots_dense [of p] by (simp add: plan_for_def)
  qed
  then show "map fst a = map int [0..<length a]"
    "if g = 0 then True else \<exists>p. plan = Some p \<and> plan_for (h_plans h) g p \<and> a = plan_slots p" by auto
qed

lemma decode_generation_nonneg: "decode_generation b = Inr g \<Longrightarrow> 0 \<le> g"
  by (auto simp: decode_generation_def split: option.splits if_splits)

lemma current_generation_nonneg: "current_generation so ps s = Inr g \<Longrightarrow> 0 \<le> g"
  by (auto simp: current_generation_def rbind_Inr_iff intro: decode_generation_nonneg)

lemma poll_step_admits:
  assumes "run_inv h0 (Poll adm) h" "current_generation so (h_plans h) s = Inr g"
    "\<not> (case h_last_generation h of None \<Rightarrow> False | Some l \<Rightarrow> g \<le> l)"
    "read_plan so (h_plans h) g s = Inr plan" "assignment_of so h g plan s = (Inr (Some a), s1)"
    "own_slot h a = Some slot" "read_clock clk h = (now, h1)"
  shows "g = 0 \<Longrightarrow> run_inv h0 (AwaitGroup adm g None a slot d) (h1\<lparr>h_context := context_clear (h_context h1)\<rparr>)"
    "g \<noteq> 0 \<Longrightarrow> run_inv h0 (AwaitLease adm g (the plan) a slot d) h1"
proof -
  note slots = assignment_slots [OF assms(5,4) current_generation_nonneg [OF assms(2)]]
  have same: "same_agent h h1" using assms(7) by (rule read_clock_same)
  have g: "0 \<le> g" using assms(2) by (rule current_generation_nonneg)
  have lastg: "case h_last_generation h0 of None \<Rightarrow> True | Some l \<Rightarrow> l < g"
    using assms(1,3) by (auto simp: run_inv_def split: option.splits)
  show "run_inv h0 (AwaitGroup adm g None a slot d) (h1\<lparr>h_context := context_clear (h_context h1)\<rparr>)" if "g = 0"
    using that slots same lastg assms(1,6)
    by (auto simp: run_inv_def attempt_ok_def same_agent_def own_slot_def context_clear_def)
  show "run_inv h0 (AwaitLease adm g (the plan) a slot d) h1" if "g \<noteq> 0"
    using that slots same lastg assms(1,6) g
    by (auto simp: run_inv_def attempt_ok_def same_agent_def own_slot_def)
qed

lemma poll_step_inv:
  assumes "run_inv h0 (Poll adm) h" "poll_step so sha clk adm h s = (pc', h', s')"
  shows "run_inv h0 pc' h'"
proof (cases "rbind (raise_if_closed so h s) (\<lambda>_. rbind (raise_heartbeat_error h) (\<lambda>_.
    rcatch RdzvRuntime (current_generation so (h_plans h) s)))")
  case (Inl e)
  then show ?thesis using assms run_inv_raised [OF assms(1), of h] by (auto simp: poll_step_def)
next
  case (Inr g)
  then have gen: "current_generation so (h_plans h) s = Inr g" by (auto simp: rbind_Inr_iff rcatch_Inr_iff)
  show ?thesis
  proof (cases "case h_last_generation h of None \<Rightarrow> False | Some l \<Rightarrow> g \<le> l")
    case True
    then show ?thesis
      using assms(2) poll_again_inv [OF _ assms(1)] by (auto simp: poll_step_def Inr Let_def split: prod.splits)
  next
    case new: False
    show ?thesis
    proof (cases "read_plan so (h_plans h) g s")
      case (Inl e)
      then show ?thesis using assms(2) Inr new run_inv_raised [OF assms(1), of h] by (auto simp: poll_step_def)
    next
      case plan: (Inr plan)
      obtain r s1 where r: "assignment_of so h g plan s = (r, s1)" by force
      consider e where "r = Inl e" | "r = Inr None" | a where "r = Inr (Some a)" "own_slot h a = None"
        | a slot where "r = Inr (Some a)" "own_slot h a = Some slot"
        by (metis not_Some_eq sum.exhaust)
      then show ?thesis
      proof cases
        case 1
        then show ?thesis using assms(2) Inr new plan r run_inv_raised [OF assms(1), of h] by (auto simp: poll_step_def)
      next
        case 2
        then show ?thesis
          using assms(2) Inr new plan r poll_again_inv [OF _ assms(1)]
          by (auto simp: poll_step_def Let_def split: prod.splits)
      next
        case 3
        then show ?thesis using assms(1,2) Inr new plan r by (auto simp: poll_step_def)
      next
        case (4 a slot)
        then show ?thesis
          using assms(2) Inr new plan r poll_step_admits [OF assms(1) gen new plan, of a s1 slot clk]
          by (auto simp: poll_step_def Let_def split: prod.splits if_splits)
      qed
    qed
  qed
qed

lemma await_lease_inv:
  assumes "run_inv h0 (AwaitLease adm g p a slot d) h"
    "await_lease_step so sha clk adm g p a slot d h s = (pc', h', s')"
  shows "run_inv h0 pc' h'"
proof (cases "rbind (raise_if_closed so h s) (\<lambda>_. rbind (raise_heartbeat_error h) (\<lambda>_.
    rcatch RdzvRuntime (current_generation so (h_plans h) s)))")
  case (Inl e)
  then show ?thesis using assms run_inv_raised [OF assms(1), of h] by (auto simp: await_lease_step_def)
next
  case (Inr c)
  obtain r h1 where r: "plan_lease_is_live so sha clk p h s = (r, h1)" by force
  note same = plan_lease_same [OF r]
  have on: "run_inv h0 (AwaitGroup adm g (Some p) a slot d) h1" "run_inv h0 (AwaitLease adm g p a slot d) h1"
    using run_inv_same [OF assms(1) same] by (simp_all add: run_inv_def)
  obtain now h2 where clk: "read_clock clk h1 = (now, h2)" by force
  note same2 = read_clock_same [OF clk]
  consider "c \<noteq> rp_to_generation p" | e where "r = Inl e" | "r = Inr True" | "r = Inr False"
    by (metis (full_types) sum.exhaust)
  then show ?thesis
  proof cases
    case 1
    then show ?thesis using assms(2) Inr run_inv_poll [OF assms(1), of h] by (auto simp: await_lease_step_def)
  next
    case 2
    then show ?thesis
      using assms(2) Inr r run_inv_poll [OF assms(1), of h] run_inv_raised [OF assms(1) same]
      by (auto simp: await_lease_step_def split: if_splits)
  next
    case 3
    then show ?thesis
      using assms(2) Inr r on run_inv_poll [OF assms(1), of h] by (auto simp: await_lease_step_def split: if_splits)
  next
    case 4
    then show ?thesis
      using assms(2) Inr r clk run_inv_poll [OF assms(1), of h] run_inv_same [OF on(2) same2]
        run_inv_raised [OF on(2) same2]
      by (auto simp: await_lease_step_def split: if_splits)
  qed
qed

lemma await_group_inv:
  assumes "run_inv h0 (AwaitGroup adm g p a slot d) h"
    "await_group_step so sha clk adm g p a slot d h s = (pc', h', s')"
  shows "run_inv h0 pc' h'"
proof (cases "rbind (raise_if_closed so h s) (\<lambda>_. rbind (raise_heartbeat_error h) (\<lambda>_.
    rcatch RdzvRuntime (current_generation so (h_plans h) s)))")
  case (Inl e)
  then show ?thesis using assms run_inv_raised [OF assms(1), of h] by (auto simp: await_group_step_def)
next
  case (Inr c)
  obtain r h1 where r: "check_plan_lease so sha clk p h s = (r, h1)" by force
  note 1 = check_lease_same [OF r]
  obtain q h2 where q: "group_ready so sha clk g a h1 s = (q, h2)" by force
  note 2 = same_agent_trans [OF 1 group_ready_same [OF q]]
  obtain now h3 where clk: "read_clock clk h2 = (now, h3)" by force
  note 3 = same_agent_trans [OF 2 read_clock_same [OF clk]]
  have on: "run_inv h0 (Confirm adm g p a slot d) h2" "run_inv h0 (AwaitGroup adm g p a slot d) h3"
    using run_inv_same [OF assms(1) 2] run_inv_same [OF assms(1) 3] by (simp_all add: run_inv_def)
  consider "c \<noteq> g" | e where "r = Inl e" | "r = Inr ()" "isl q" | "r = Inr ()" "q = Inr True" | "r = Inr ()" "q = Inr False"
    by (metis (full_types) old.unit.exhaust sum.collapse(2) sum.exhaust)
  then show ?thesis
  proof cases
    case 1
    then show ?thesis using assms(2) Inr run_inv_poll [OF assms(1), of h] by (auto simp: await_group_step_def)
  next
    case 2
    then show ?thesis
      using assms(2) Inr r run_inv_poll [OF assms(1), of h] run_inv_raised [OF assms(1) 1]
      by (auto simp: await_group_step_def split: if_splits)
  next
    case 3
    then obtain e where "q = Inl e" by (cases q) auto
    with 3 show ?thesis
      using assms(2) Inr r q run_inv_poll [OF assms(1), of h] run_inv_raised [OF assms(1) \<open>same_agent h h2\<close>]
      by (auto simp: await_group_step_def split: if_splits)
  next
    case 4
    then show ?thesis
      using assms(2) Inr r q on run_inv_poll [OF assms(1), of h] by (auto simp: await_group_step_def split: if_splits)
  next
    case 5
    then show ?thesis
      using assms(2) Inr r q clk on run_inv_poll [OF assms(1), of h] run_inv_raised [OF assms(1) \<open>same_agent h h3\<close>]
      by (auto simp: await_group_step_def split: if_splits)
  qed
qed

text \<open>Every way \<open>confirm_step\<close> ends: not joined, or joined with the context of the plan written.\<close>

lemma confirm_cases:
  assumes "confirm_step so sha build clk adm g p a slot d h s = (pc', h', s')"
  obtains (again) "pc' = Poll adm" "same_agent h h'"
    | (raised) e where "pc' = Raised e" "h_config h' = h_config h" "h_plans h' = h_plans h"
    | (first) h1 where "p = None" "same_agent h h1"
        "pc' = Joined \<lparr>ri_generation = g, ri_rank = slot, ri_world_size = int (length a)\<rparr>"
        "same_agent (h1\<lparr>h_last_generation := Some g, h_last_assignment := a\<rparr>) h'"
    | (successor) plan c ns fs fs' where "p = Some plan"
        "pc' = Joined \<lparr>ri_generation = g, ri_rank = slot, ri_world_size = int (length a)\<rparr>"
        "h_config h' = h_config h" "h_plans h' = h_plans h" "h_last_generation h' = Some g"
        "h_last_assignment h' = a" "context_from_plan plan (rt_node_id (h_config h)) ns = Inr c"
        "context_write c fs = (Inr (), fs')" "h_context h' = fs'"
proof (cases "current_generation so (h_plans h) s")
  case (Inl e)
  then show ?thesis using raised assms by (auto simp: confirm_step_def)
next
  case (Inr c)
  obtain r h1 where r: "check_plan_lease so sha clk p h s = (r, h1)" by force
  note 1 = check_lease_same [OF r]
  let ?h2 = "h1\<lparr>h_last_generation := Some g, h_last_assignment := a\<rparr>"
  obtain now h3 where clk: "read_clock clk ?h2 = (now, h3)" by force
  note 3 = read_clock_same [OF clk]
  obtain b s1 where b: "build g slot s = (b, s1)" by force
  obtain r4 h4 where r4: "check_plan_lease so sha clk p h3 s1 = (r4, h4)" by force
  note 4 = same_agent_trans [OF 3 check_lease_same [OF r4]]
  have h4: "h_config h4 = h_config h" "h_plans h4 = h_plans h" "h_last_generation h4 = Some g" "h_last_assignment h4 = a"
    "h_config h3 = h_config h" "h_plans h3 = h_plans h" "h_config h1 = h_config h" "h_plans h1 = h_plans h"
    using 1 3 4 by (simp_all add: same_agent_def)
  consider "c \<noteq> g" | "c = g" "isl r" | "c = g" "r = Inr ()" "d \<le> now \<or> \<not> b"
    | "c = g" "r = Inr ()" "now < d" b "p = None"
    | plan where "c = g" "r = Inr ()" "now < d" b "p = Some plan"
    by (metis (full_types) linorder_not_less not_Some_eq old.unit.exhaust sum.collapse(2))
  then show ?thesis
  proof cases
    case 1
    then show ?thesis using again assms Inr by (auto simp: confirm_step_def)
  next
    case 2
    then show ?thesis using raised assms Inr r h4 by (cases r) (auto simp: confirm_step_def)
  next
    case 3
    then show ?thesis using raised assms Inr r clk b h4 by (auto simp: confirm_step_def Let_def split: if_splits)
  next
    case 4
    then show ?thesis using first [OF _ 1] assms Inr r clk b \<open>same_agent ?h2 h3\<close> by (auto simp: confirm_step_def)
  next
    case (5 plan)
    then have step: "(pc', h', s') = (case r4 of Inl e \<Rightarrow> (Raised e, h4, s1) | Inr _ \<Rightarrow>
       (case plan_lease_deadline_ns h4 plan of Inl e \<Rightarrow> (Raised e, h4, s1) | Inr ns \<Rightarrow>
       (case context_from_plan plan (rt_node_id (h_config h4)) ns of
          Inl e \<Rightarrow> (Raised (RdzvState ''failed to publish restart context''), h4, s1)
        | Inr context \<Rightarrow>
          (case context_write context (h_context h4) of
             (Inl e, fs) \<Rightarrow> (Raised (RdzvState ''failed to publish restart context''), h4\<lparr>h_context := fs\<rparr>, s1)
           | (Inr _, fs) \<Rightarrow> (Joined \<lparr>ri_generation = g, ri_rank = slot, ri_world_size = int (length a)\<rparr>,
               h4\<lparr>h_context := fs\<rparr>, s1)))))"
      using assms Inr r clk b r4 by (simp add: confirm_step_def)
    show ?thesis
    proof (cases pc')
      case (Joined info)
      then obtain ns c fs where "context_from_plan plan (rt_node_id (h_config h4)) ns = Inr c"
        "context_write c (h_context h4) = (Inr (), fs)" "h' = h4\<lparr>h_context := fs\<rparr>"
        "info = \<lparr>ri_generation = g, ri_rank = slot, ri_world_size = int (length a)\<rparr>"
        using step by (auto split: sum.splits prod.splits)
      then show ?thesis using successor 5 Joined h4 by auto
    qed (use step raised h4 in \<open>auto split: sum.splits prod.splits\<close>)
  qed
qed

lemma context_from_plan_wf: "context_from_plan p n d = Inr c \<Longrightarrow> context_wf c"
  by (auto simp: context_from_plan_def context_wf_def context_post_init_iff split: option.splits)

lemma confirm_inv:
  assumes "run_inv h0 (Confirm adm g p a slot d) h"
    "confirm_step so sha build clk adm g p a slot d h s = (pc', h', s')"
  shows "run_inv h0 pc' h'"
proof -
  have at: "attempt_ok h0 h g p a slot" and h: "h_config h = h_config h0" "h_plans h = h_plans h0"
    using assms(1) by (simp_all add: run_inv_def)
  then have slot: "own_slot h a = Some slot" "map fst a = map int [0..<length a]"
    and new: "case h_last_generation h0 of None \<Rightarrow> True | Some l \<Rightarrow> l < g"
    by (simp_all add: attempt_ok_def)
  note bound = own_slot_bound [OF slot]
  from assms(2) show ?thesis
  proof (cases rule: confirm_cases)
    case again
    then show ?thesis using run_inv_poll [OF assms(1)] by simp
  next
    case (raised e)
    then show ?thesis using h by (simp add: run_inv_def)
  next
    case (first h1)
    have "g = 0" "cf_file (h_context h) = None" using at first(1) by (simp_all add: attempt_ok_def)
    then show ?thesis
      using first h slot new bound
      by (auto simp: run_inv_def joined_ok_def same_agent_def own_slot_def context_read_def split: option.splits)
  next
    case (successor plan c ns fs fs')
    have pl: "1 \<le> g" "plan_for (h_plans h) g plan" "a = plan_slots plan"
      using at successor(1) by (simp_all add: attempt_ok_def)
    have "context_read fs' = Inr (Some c)"
      using context_read_written(1) [OF context_from_plan_wf [OF successor(7)] successor(8)] .
    then show ?thesis
      using successor h slot new bound pl
      by (auto simp: run_inv_def joined_ok_def own_slot_def split: option.splits)
  qed
qed

lemma agent_run_inv:
  assumes "agent_run so sha build clk h0 pc h"
  shows "run_inv h0 pc h"
  using assms
proof induction
  case (enter pc h)
  then show ?case
    by (auto simp: start_rendezvous_def read_clock_def run_inv_def Let_def)
next
  case (iterate pc h s pc' h' s')
  then show ?case
    using poll_step_inv await_lease_inv await_group_inv confirm_inv by (cases pc) auto
next
  case (signal pc h c e)
  then show ?case
    by (cases pc) (auto simp: run_inv_def attempt_ok_def joined_ok_def own_slot_def split: option.splits)
qed

section \<open>Properties of the rendezvous\<close>

text \<open>C4: An agent joins only where it was assigned. Whatever the store holds at each step, a
  rendezvous that returns is for a generation later than the one this agent last joined; the
  returned rank is the agent's own slot in the assignment it keeps and lies below the world size;
  for generation zero any stale restart context is gone, and for a later one the assignment is that
  of a valid plan of this run and the worker will read exactly the context of that plan.\<close>

theorem join_is_assigned:
  assumes "agent_run so sha build clk h0 (Joined info) h"
  shows "(\<forall>l. h_last_generation h0 = Some l \<longrightarrow> l < ri_generation info) \<and>
    own_slot h (h_last_assignment h) = Some (ri_rank info) \<and>
    0 \<le> ri_rank info \<and> ri_rank info < ri_world_size info \<and>
    ri_world_size info = int (length (h_last_assignment h)) \<and>
    h_last_generation h = Some (ri_generation info) \<and>
    (if ri_generation info = 0 then context_read (h_context h) = Inr None
     else \<exists>p c ns. plan_for (h_plans h0) (ri_generation info) p \<and> h_last_assignment h = plan_slots p \<and>
       context_from_plan p (rt_node_id (h_config h0)) ns = Inr c \<and> context_read (h_context h) = Inr (Some c))"
proof -
  have "run_inv h0 (Joined info) h" using assms by (rule agent_run_inv)
  then have "joined_ok h0 h info" "h_config h = h_config h0" "h_plans h = h_plans h0"
    by (simp_all add: run_inv_def)
  then show ?thesis by (auto simp: joined_ok_def split: option.splits)
qed

section \<open>A run that joins\<close>

lemma ready_record_read:
  assumes "store_get so s (ready_key sha ps g n) = Some (canonical_json (ready_record a d))"
    "strip a = a" "a \<noteq> []" "strip d = d" "d \<noteq> []"
  shows "ready_agent_record so sha ps g s n = Inr (Some (a, d))"
proof -
  let ?kvs = "[(''agent_id'', JStr a), (''policy_digest'', JStr d), (''schema_version'', JInt 1)]"
  obtain kvs where "loads (canonical_json (ready_record a d)) = Inr (JObj kvs)"
    "\<And>k. get_field kvs k = canon (get_field ?kvs k)"
    "has_fields kvs [''agent_id'', ''policy_digest'', ''schema_version'']"
    by (rule canonical_object [of ?kvs]) (auto simp: ready_record_def)
  then show ?thesis
    using assms by (simp add: ready_agent_record_def get_bytes_def get_field_def)
qed

lemma heartbeat_read:
  assumes "store_get so s (heartbeat_key sha (h_plans h) n) = Some (canonical_json (heartbeat_record a n q))"
    "a \<noteq> []" "0 \<le> q" "0 \<le> clk (h_ticks h)"
  shows "heartbeat_is_live so sha clk n (Some a) h s =
    (let r = observe_heartbeat (rt_heartbeat_timeout_ms (h_config h)) (h_heartbeats h n) a q (clk (h_ticks h))
     in (fst r, h\<lparr>h_ticks := Suc (h_ticks h), h_heartbeats := (h_heartbeats h)(n \<mapsto> snd r)\<rparr>))"
proof -
  let ?kvs = "[(''agent_id'', JStr a), (''node_id'', JStr n), (''sequence'', JInt q)]"
  obtain kvs where "loads (canonical_json (heartbeat_record a n q)) = Inr (JObj kvs)"
    "\<And>k. get_field kvs k = canon (get_field ?kvs k)"
    "has_fields kvs [''agent_id'', ''node_id'', ''sequence'']"
    by (rule canonical_object [of ?kvs]) (auto simp: heartbeat_record_def)
  then show ?thesis
    using assms
    by (simp add: heartbeat_is_live_def get_field_def read_clock_def Let_def case_prod_unfold)
qed

definition example_handler :: handler where
  "example_handler = \<lparr>h_config = \<lparr>rt_run_id = ''run'', rt_node_id = ''n1'', rt_min_nodes = 1, rt_max_nodes = 2,
       rt_restart_context_path = ''/c'', rt_join_timeout_ms = 1000, rt_poll_interval_ms = 250,
       rt_heartbeat_timeout_ms = 1000, rt_worker_config = None\<rparr>,
     h_plans = example_ps, h_agent_id = ''a1'', h_policy_digest = ''d'', h_closed = False,
     h_heartbeat_error = False, h_last_generation = None, h_last_assignment = [], h_heartbeats = Map.empty,
     h_leases = Map.empty, h_context = \<lparr>cf_uid = 0, cf_parent = None, cf_file = None\<rparr>, h_ticks = 0\<rparr>"

definition example_ready_store :: "int \<Rightarrow> string \<rightharpoonup> bytes" where
  "example_ready_store q = [generation_key example_ps \<mapsto> ''0'',
     ready_key id example_ps 0 ''n1'' \<mapsto> canonical_json (ready_record ''a1'' ''d''),
     heartbeat_key id example_ps ''n1'' \<mapsto> canonical_json (heartbeat_record ''a1'' ''n1'' q)]"

lemma example_ready_keys [simp]:
  "example_ready_store q (generation_key example_ps) = Some ''0''"
  "example_ready_store q (ready_key id example_ps 0 ''n1'') = Some (canonical_json (ready_record ''a1'' ''d''))"
  "example_ready_store q (heartbeat_key id example_ps ''n1'') = Some (canonical_json (heartbeat_record ''a1'' ''n1'' q))"
  "example_ready_store q (closed_key example_ps) = None"
  by (simp_all add: example_ready_store_def ready_key_def heartbeat_key_def key_defs)

lemma generation_zero: "decode_generation ''0'' = Inr 0"
proof -
  have "int_str 0 = ''0''" by code_simp
  then show ?thesis using decode_generation_int_str [of 0] by simp
qed

lemma example_group_step:
  assumes "h_plans h = example_ps" "\<not> h_closed h" "\<not> h_heartbeat_error h" "0 \<le> q"
    "rt_heartbeat_timeout_ms (h_config h) = 1000"
  shows "await_group_step hash_store id (\<lambda>n. of_nat n / 1000) adm 0 None [(0, ''n1'')] 0 d h (example_ready_store q) =
    (let r = observe_heartbeat 1000 (h_heartbeats h ''n1'') ''a1'' q (of_nat (h_ticks h) / 1000);
         h2 = h\<lparr>h_ticks := Suc (h_ticks h), h_heartbeats := (h_heartbeats h)(''n1'' \<mapsto> snd r)\<rparr>
     in if fst r then (Confirm adm 0 None [(0, ''n1'')] 0 d, h2, example_ready_store q)
        else if d \<le> of_nat (Suc (h_ticks h)) / 1000
             then (Raised (RdzvTimeout ''timed out waiting for assigned nodes''), h2\<lparr>h_ticks := h_ticks h + 2\<rparr>, example_ready_store q)
             else (AwaitGroup adm 0 None [(0, ''n1'')] 0 d, h2\<lparr>h_ticks := h_ticks h + 2\<rparr>, example_ready_store q))"
proof -
  have "ready_agent_record hash_store id example_ps 0 (example_ready_store q) ''n1'' = Inr (Some (''a1'', ''d''))"
    by (rule ready_record_read) (simp_all add: strip_def py_space_def)
  moreover have "heartbeat_is_live hash_store id (\<lambda>n. of_nat n / 1000) ''n1'' (Some ''a1'') h (example_ready_store q) =
      (let r = observe_heartbeat 1000 (h_heartbeats h ''n1'') ''a1'' q (of_nat (h_ticks h) / 1000)
       in (fst r, h\<lparr>h_ticks := Suc (h_ticks h), h_heartbeats := (h_heartbeats h)(''n1'' \<mapsto> snd r)\<rparr>))"
    using assms heartbeat_read [of hash_store "example_ready_store q" id h "''n1''" "''a1''" q "\<lambda>n. of_nat n / 1000"] by simp
  ultimately show ?thesis
    using assms
    by (simp add: await_group_step_def raise_if_closed_def raise_heartbeat_error_def current_generation_def
        get_bytes_def generation_zero check_plan_lease_def group_ready_def Let_def read_clock_def)
qed

lemma example_poll_step:
  "poll_step hash_store id clk adm (example_handler\<lparr>h_ticks := 1\<rparr>) example_run_store =
     (AwaitGroup adm 0 None [(0, ''n1'')] 0 (clk 1 + 1), example_handler\<lparr>h_ticks := 2\<rparr>,
      snd (snd (poll_step hash_store id clk adm (example_handler\<lparr>h_ticks := 1\<rparr>) example_run_store)))"
proof -
  let ?s = example_run_store
  have reg: "decode_registrations hash_store example_ps 2 ?s = Inr [(''n1'', ''a1''), (''n2'', ''a2'')]"
    using example_identities
    by (subst decode_log [of "[(''n1'', ''a1''), (''n2'', ''a2'')]"])
      (simp_all add: example_run_store_def example_log_size register_pair_def)
  have "canonical_json (initial_nodes_record [''n1'']) \<noteq> []"
    using dumps_one_line(3) [OF initial_dumpable] by (simp add: canonical_json_def)
  moreover have "decode_initial_nodes (canonical_json (initial_nodes_record [''n1''])) (Some 1) = Inr [''n1'']"
    by (rule decode_initial_nodes_own) (simp_all add: strip_def py_space_def)
  ultimately have "fst (ensure_initial_nodes hash_store example_ps 1 2 ?s) = Inr (Some [''n1''])"
    using hs.ensure_initial_again(1) [OF _ _ reg, of 1 "canonical_json (initial_nodes_record [''n1''])"]
    by (simp add: example_run_store_def)
  then obtain s1 where "ensure_initial_nodes hash_store example_ps 1 2 ?s = (Inr (Some [''n1'']), s1)"
    by (metis prod.collapse)
  moreover have "?s (closed_key example_ps) = None" by (simp add: example_run_store_def key_defs)
  moreover have "current_generation hash_store example_ps ?s = Inr 0"
    using example_run_facts(1) by (rule at_generation_current)
  ultimately show ?thesis
    by (simp add: poll_step_def example_handler_def raise_if_closed_def raise_heartbeat_error_def
        read_plan_def assignment_of_def own_slot_def read_clock_def context_clear_def)
qed

theorem join_is_assigned_witness:
  "\<exists>h. agent_run hash_store id (\<lambda>g r s. (True, s)) (\<lambda>n. of_nat n / 1000) example_handler
       (Joined \<lparr>ri_generation = 0, ri_rank = 0, ri_world_size = 1\<rparr>) h \<and>
     h_last_generation h = Some 0 \<and> context_read (h_context h) = Inr None"
proof -
  let ?clk = "\<lambda>n. of_nat n / 1000 :: real" and ?a = "[(0, ''n1'')]"
  let ?run = "agent_run hash_store id (\<lambda>g r s. (True, s)) ?clk example_handler"
  have 0: "?run (Poll 1) (example_handler\<lparr>h_ticks := 1\<rparr>)"
    by (rule agent_run.enter) (simp add: start_rendezvous_def read_clock_def example_handler_def)
  let ?d = "?clk 1 + 1"
  have 1: "?run (AwaitGroup 1 0 None ?a 0 ?d) (example_handler\<lparr>h_ticks := 2\<rparr>)"
    using agent_run.iterate [OF 0] example_poll_step [of ?clk 1] by simp
  let ?h2 = "example_handler\<lparr>h_ticks := 4, h_heartbeats := [''n1'' \<mapsto> (''a1'', 0, ?clk 2, False)]\<rparr>"
  have 2: "?run (AwaitGroup 1 0 None ?a 0 ?d) ?h2"
    using agent_run.iterate [OF 1, of "example_ready_store 0"]
    by (simp add: example_group_step example_handler_def observe_heartbeat_def)
  let ?h3 = "example_handler\<lparr>h_ticks := 5, h_heartbeats := [''n1'' \<mapsto> (''a1'', 1, ?clk 4, True)]\<rparr>"
  have 3: "?run (Confirm 1 0 None ?a 0 ?d) ?h3"
    using agent_run.iterate [OF 2, of "example_ready_store 1"]
    by (simp add: example_group_step example_handler_def observe_heartbeat_def)
  obtain h where 4: "?run (Joined \<lparr>ri_generation = 0, ri_rank = 0, ri_world_size = 1\<rparr>) h"
    using agent_run.iterate [OF 3, of "example_ready_store 1"]
    by (simp add: confirm_step_def example_handler_def current_generation_def get_bytes_def generation_zero
        check_plan_lease_def read_clock_def Let_def)
  show ?thesis using join_is_assigned [OF 4] 4 by auto
qed

end
