(* ===== verification/Persistence.thy ===== *)
theory Persistence
  imports Prelude
begin

text \<open>
  The contract shared by the detectors that confirm a suspect only after it has held for several rounds in a
  row: \<open>CommunicationLocalizer.observe\<close>, \<open>SwitchLocalizer.observe\<close> and the consensus rounds of
  \<open>HangDetectionDaemon.run\<close>. A round that raises leaves the detector as it was.
\<close>

locale persistent_suspect =
  fixes observe :: "'s \<Rightarrow> 'i \<Rightarrow> 'v \<times> 's"
    and raised :: "'v \<Rightarrow> bool"
    and suspect_of :: "'v \<Rightarrow> 'k option"
    and confirmed_in :: "'v \<Rightarrow> bool"
    and last_suspect :: "'s \<Rightarrow> 'k option"
    and streak_of :: "'s \<Rightarrow> nat"
    and needed :: "'s \<Rightarrow> 'k \<Rightarrow> nat"
  assumes raise_keeps: "observe s i = (v, s') \<Longrightarrow> raised v \<Longrightarrow> s' = s \<and> suspect_of v = None \<and> \<not> confirmed_in v"
    and suspect_counts: "observe s i = (v, s') \<Longrightarrow> suspect_of v = Some k \<Longrightarrow>
      last_suspect s' = Some k \<and> streak_of s' = (if last_suspect s = Some k then Suc (streak_of s) else 1)"
    and no_suspect_resets: "observe s i = (v, s') \<Longrightarrow> \<not> raised v \<Longrightarrow> suspect_of v = None \<Longrightarrow>
      last_suspect s' = None \<and> streak_of s' = 0"
    and confirmed_iff: "observe s i = (v, s') \<Longrightarrow> confirmed_in v \<longleftrightarrow> (\<exists>k. suspect_of v = Some k \<and> needed s k \<le> streak_of s')"
    and needed_fixed: "observe s i = (v, s') \<Longrightarrow> needed s' k = needed s k"
begin

text \<open>The verdicts of a sequence of rounds, and the state after them.\<close>

fun rounds :: "'s \<Rightarrow> 'i list \<Rightarrow> 'v list \<times> 's" where
  "rounds s [] = ([], s)"
| "rounds s (i # is) = (let (v, s1) = observe s i; (vs, s2) = rounds s1 is in (v # vs, s2))"

lemma rounds_append:
  "rounds s (is @ js) = (let (vs, s1) = rounds s is; (ws, s2) = rounds s1 js in (vs @ ws, s2))"
  by (induction "is" arbitrary: s) (auto simp: Let_def split: prod.splits)

definition settled :: "'v list \<Rightarrow> 'v list" where
  "settled vs = filter (\<lambda>v. \<not> raised v) vs"

text \<open>The last \<open>n\<close> settled verdicts all name \<open>k\<close>.\<close>

definition held :: "nat \<Rightarrow> 'k \<Rightarrow> 'v list \<Rightarrow> bool" where
  "held n k vs \<longleftrightarrow> n \<le> length (settled vs) \<and>
     (\<forall>v \<in> set (drop (length (settled vs) - n) (settled vs)). suspect_of v = Some k)"

lemma held_snoc: "held n k vs \<Longrightarrow> \<not> raised v \<Longrightarrow> suspect_of v = Some k \<Longrightarrow> held (Suc n) k (vs @ [v])"
  by (auto simp: held_def settled_def)

lemma streak_sound:
  assumes "rounds s is = (vs, s')" "last_suspect s = None"
  shows "case last_suspect s' of None \<Rightarrow> True | Some k \<Rightarrow> held (streak_of s') k vs"
  using assms(1)
proof (induction "is" arbitrary: vs s' rule: rev_induct)
  case Nil
  then show ?case using assms(2) by simp
next
  case (snoc i "is")
  obtain vs0 s0 where r: "rounds s is = (vs0, s0)" by force
  obtain v where o: "observe s0 i = (v, s')" and vs: "vs = vs0 @ [v]"
    using snoc.prems r by (auto simp: rounds_append split: prod.splits)
  note IH = snoc.IH [OF r]
  show ?case
  proof (cases "raised v")
    case True
    then have "s' = s0" using raise_keeps [OF o] by simp
    moreover have "settled vs = settled vs0" using True by (simp add: vs settled_def)
    ultimately show ?thesis using IH by (simp add: held_def split: option.splits)
  next
    case False
    show ?thesis
    proof (cases "suspect_of v")
      case None
      then show ?thesis using no_suspect_resets [OF o False] by simp
    next
      case (Some k)
      note c = suspect_counts [OF o Some]
      show ?thesis
      proof (cases "last_suspect s0 = Some k")
        case True
        then show ?thesis using c IH held_snoc [OF _ False Some] by (simp add: vs)
      next
        case other: False
        have "held 1 k vs" using False Some by (simp add: held_def vs settled_def)
        then show ?thesis using c other by simp
      qed
    qed
  qed
qed

lemma needed_rounds: "rounds s is = (vs, s') \<Longrightarrow> needed s' k = needed s k"
  by (induction "is" arbitrary: s vs) (auto simp: Let_def needed_fixed split: prod.splits)

text \<open>A confirmed suspect held in each of the last \<open>needed\<close> settled rounds.\<close>

lemma confirmed_held:
  assumes "rounds s (is @ [i]) = (vs @ [v], s')" "last_suspect s = None" "confirmed_in v"
  shows "\<exists>k. suspect_of v = Some k \<and> held (needed s k) k (vs @ [v])"
proof -
  obtain vs0 s0 where r: "rounds s is = (vs0, s0)" by force
  then have o: "observe s0 i = (v, s')" and "vs0 = vs"
    using assms(1) by (auto simp: rounds_append split: prod.splits)
  obtain k where k: "suspect_of v = Some k" "needed s k \<le> streak_of s'"
    using confirmed_iff [OF o] assms(3) needed_rounds [OF r] by auto
  have "held (streak_of s') k (vs @ [v])"
    using streak_sound [OF assms(1,2)] suspect_counts [OF o k(1)] by simp
  then have "held (needed s k) k (vs @ [v])"
    using k(2) set_drop_subset_set_drop
    unfolding held_def by (meson diff_le_mono2 le_trans subsetD)
  with k(1) show ?thesis by blast
qed

end

end
