(* ===== verification/Switch.thy ===== *)
theory Switch
  imports Persistence
begin

text \<open>
  \<open>lm_resiliency/detection/switch_localizer.py\<close>: localizing a faulty network switch by intersecting the
  fabric paths of the slow collective groups. Latencies and thresholds are real numbers, the
  unordered pair of leaves that keys a spine route is its sorted list, and the free-text \<open>detail\<close> of
  a verdict is left out. Asking for the leaf of an unknown node is the error \<open>UnknownNode\<close>
  (\<open>KeyError\<close>).
\<close>

record group_measurement =
  gm_group_id :: string
  gm_members :: "string list"
  gm_collective :: string
  gm_latency_s :: real
  gm_failed :: bool

datatype switch_kind = FabricSwitch | NodeFault | NoKind

record switch_verdict =
  sv_kind :: switch_kind
  sv_suspect :: "string option"
  sv_confirmed :: bool
  sv_slow_groups :: nat
  sv_streak :: nat
  sv_candidates :: "string list"

datatype switch_error = UnknownNode string

section \<open>The fabric\<close>

record fabric_topology =
  ft_node_leaf :: "(string \<times> string) list"
  ft_spine_route :: "(string list \<times> string) list"
  ft_default_spine :: string

definition fabric_from_dict ::
  "(string \<times> string) list \<Rightarrow> (string \<times> string \<times> string) list \<Rightarrow> string option \<Rightarrow> fabric_topology" where
  "fabric_from_dict node_leaf spine_route default_spine =
     \<lparr>ft_node_leaf = node_leaf,
      ft_spine_route = rev (map (\<lambda>(a, b, s). (sorted_set [a, b], s)) spine_route),
      ft_default_spine = (case default_spine of None \<Rightarrow> ''spine0'' | Some s \<Rightarrow> s)\<rparr>"

definition leaf_of :: "fabric_topology \<Rightarrow> string \<Rightarrow> switch_error + string" where
  "leaf_of t node = (case map_of (ft_node_leaf t) node of None \<Rightarrow> Inl (UnknownNode node) | Some l \<Rightarrow> Inr l)"

definition spine_between :: "fabric_topology \<Rightarrow> string \<Rightarrow> string \<Rightarrow> string" where
  "spine_between t leaf_a leaf_b =
     (case map_of (ft_spine_route t) (sorted_set [leaf_a, leaf_b]) of None \<Rightarrow> ft_default_spine t | Some s \<Rightarrow> s)"

fun leaf_pairs :: "'a list \<Rightarrow> ('a \<times> 'a) list" where
  "leaf_pairs [] = []"
| "leaf_pairs (a # as) = map (Pair a) as @ leaf_pairs as"

definition switches_on_path :: "fabric_topology \<Rightarrow> string list \<Rightarrow> switch_error + string list" where
  "switches_on_path t members =
     rbind (rmap (leaf_of t) members) (\<lambda>ls.
     let leaf_list = sorted_set ls
     in Inr (remdups (leaf_list @ map (\<lambda>(a, b). spine_between t a b) (leaf_pairs leaf_list))))"

definition nodes_behind :: "fabric_topology \<Rightarrow> string \<Rightarrow> string list" where
  "nodes_behind t switch = map fst (filter (\<lambda>(n, leaf). leaf = switch) (ft_node_leaf t))"

section \<open>One round\<close>

record switch_localizer =
  sl_topo :: fabric_topology
  sl_slow_factor :: real
  sl_persistence :: nat
  sl_cover :: real
  sl_clean :: real
  sl_last_suspect :: "string option"
  sl_streak :: nat

definition is_slow_group :: "real \<Rightarrow> real \<Rightarrow> group_measurement \<Rightarrow> bool" where
  "is_slow_group slow_factor baseline m =
     (gm_failed m \<or> (0 < baseline \<and> slow_factor * baseline < gm_latency_s m))"

text \<open>\<open>_partition\<close>: within each collective, against the fastest sibling.\<close>

definition partition_class ::
  "real \<Rightarrow> string list \<Rightarrow> group_measurement list \<Rightarrow> group_measurement list \<times> group_measurement list" where
  "partition_class slow_factor stragglers siblings =
     (let baseline = Min (set (map gm_latency_s siblings));
          slow = filter (is_slow_group slow_factor baseline) siblings
      in (filter (\<lambda>m. \<not> (stragglers \<noteq> [] \<and> overlaps (gm_members m) stragglers)) slow,
          filter (\<lambda>m. \<not> is_slow_group slow_factor baseline m) siblings))"

definition partition_groups ::
  "real \<Rightarrow> string list \<Rightarrow> group_measurement list \<Rightarrow> group_measurement list \<times> group_measurement list" where
  "partition_groups slow_factor stragglers measurements =
     (let parts = map (\<lambda>(c, siblings). partition_class slow_factor stragglers siblings)
            (group_by gm_collective measurements)
      in (concat (map fst parts), concat (map snd parts)))"

definition hits :: "string \<Rightarrow> string list list \<Rightarrow> nat" where
  "hits s paths = length (filter (\<lambda>p. s \<in> set p) paths)"

definition hitting_set ::
  "switch_localizer \<Rightarrow> group_measurement list \<Rightarrow> group_measurement list \<Rightarrow> switch_error + string list" where
  "hitting_set sl slow fast =
     rbind (rmap (\<lambda>m. switches_on_path (sl_topo sl) (gm_members m)) slow) (\<lambda>slow_paths.
     rbind (rmap (\<lambda>m. switches_on_path (sl_topo sl) (gm_members m)) fast) (\<lambda>fast_paths.
     Inr (filter (\<lambda>s.
            sl_cover sl \<le> of_nat (hits s slow_paths) / of_nat (length slow) \<and>
            (if fast \<noteq> [] then of_nat (hits s fast_paths) / of_nat (length fast) else 0) \<le> sl_clean sl)
          (sorted_set (concat slow_paths)))))"

definition no_verdict :: "nat \<Rightarrow> string list \<Rightarrow> switch_verdict" where
  "no_verdict slow_groups candidates = \<lparr>sv_kind = NoKind, sv_suspect = None, sv_confirmed = False,
     sv_slow_groups = slow_groups, sv_streak = 0, sv_candidates = candidates\<rparr>"

definition reset_suspect :: "switch_localizer \<Rightarrow> switch_localizer" where
  "reset_suspect sl = sl\<lparr>sl_last_suspect := None, sl_streak := 0\<rparr>"

definition switch_observe ::
  "switch_localizer \<Rightarrow> group_measurement list \<times> string list \<Rightarrow> (switch_error + switch_verdict) \<times> switch_localizer" where
  "switch_observe sl input =
     (let (measurements, stragglers) = input;
          (slow, fast) = partition_groups (sl_slow_factor sl) stragglers measurements
      in if slow = [] then (Inr (no_verdict 0 []), reset_suspect sl)
         else
           let common_nodes = inter_all (map gm_members slow)
           in if common_nodes \<noteq> [] then
                (Inr \<lparr>sv_kind = NodeFault, sv_suspect = Some (hd (sorted_set common_nodes)), sv_confirmed = False,
                      sv_slow_groups = length slow, sv_streak = 0, sv_candidates = []\<rparr>, reset_suspect sl)
              else
                (case hitting_set sl slow fast of
                   Inl e \<Rightarrow> (Inl e, sl)
                 | Inr candidates \<Rightarrow>
                     (case candidates of
                        [suspect] \<Rightarrow>
                          let streak = (if sl_last_suspect sl = Some suspect then Suc (sl_streak sl) else 1)
                          in (Inr \<lparr>sv_kind = FabricSwitch, sv_suspect = Some suspect,
                                   sv_confirmed = (sl_persistence sl \<le> streak), sv_slow_groups = length slow,
                                   sv_streak = streak, sv_candidates = []\<rparr>,
                              sl\<lparr>sl_last_suspect := Some suspect, sl_streak := streak\<rparr>)
                      | _ \<Rightarrow> (Inr (no_verdict (length slow) candidates), reset_suspect sl))))"

record switch_report =
  sr_switch :: string
  sr_failed_ranks :: "int list"
  sr_blast_radius :: "string list"

definition switch_report_of :: "switch_localizer \<Rightarrow> switch_verdict \<Rightarrow> switch_report option" where
  "switch_report_of sl verdict =
     (if \<not> (sv_confirmed verdict \<and> sv_kind verdict = FabricSwitch) then None
      else Some \<lparr>sr_switch = the (sv_suspect verdict), sr_failed_ranks = [],
                 sr_blast_radius = sorted_set (nodes_behind (sl_topo sl) (the (sv_suspect verdict)))\<rparr>)"

section \<open>What a verdict means\<close>

definition switch_suspect :: "switch_error + switch_verdict \<Rightarrow> string option" where
  "switch_suspect v = (case v of Inl _ \<Rightarrow> None | Inr w \<Rightarrow> if sv_kind w = FabricSwitch then sv_suspect w else None)"

definition switch_confirmed :: "switch_error + switch_verdict \<Rightarrow> bool" where
  "switch_confirmed v = (case v of Inl _ \<Rightarrow> False | Inr w \<Rightarrow> sv_confirmed w)"

lemmas switch_observe_splits = if_splits sum.splits list.splits prod.splits

interpretation sw: persistent_suspect switch_observe isl switch_suspect switch_confirmed
  sl_last_suspect sl_streak "\<lambda>sl _. sl_persistence sl"
proof
  fix sl i v sl' assume o: "switch_observe sl i = (v, sl')"
  show "sl' = sl \<and> switch_suspect v = None \<and> \<not> switch_confirmed v" if "isl v"
    using o that by (auto simp: switch_observe_def switch_suspect_def switch_confirmed_def Let_def split: switch_observe_splits)
  show "sl_last_suspect sl' = Some k \<and>
      sl_streak sl' = (if sl_last_suspect sl = Some k then Suc (sl_streak sl) else 1)" if "switch_suspect v = Some k" for k
    using o that by (auto simp: switch_observe_def switch_suspect_def no_verdict_def Let_def split: switch_observe_splits)
  show "sl_last_suspect sl' = None \<and> sl_streak sl' = 0" if "\<not> isl v" "switch_suspect v = None"
    using o that by (auto simp: switch_observe_def switch_suspect_def reset_suspect_def Let_def split: switch_observe_splits)
  show "switch_confirmed v \<longleftrightarrow> (\<exists>k. switch_suspect v = Some k \<and> sl_persistence sl \<le> sl_streak sl')"
    using o by (auto simp: switch_observe_def switch_suspect_def switch_confirmed_def no_verdict_def Let_def
        split: switch_observe_splits)
  show "sl_persistence sl' = sl_persistence sl"
    using o by (auto simp: switch_observe_def reset_suspect_def Let_def split: switch_observe_splits)
qed

definition path_of :: "switch_localizer \<Rightarrow> group_measurement \<Rightarrow> string list" where
  "path_of sl m = (case switches_on_path (sl_topo sl) (gm_members m) of Inl _ \<Rightarrow> [] | Inr p \<Rightarrow> p)"

lemma rmap_paths:
  assumes "rmap (\<lambda>m. switches_on_path (sl_topo sl) (gm_members m)) ms = Inr ps"
  shows "ps = map (path_of sl) ms"
  using assms by (induction ms arbitrary: ps) (auto simp: rbind_Inr_iff path_of_def)

lemma hits_le: "hits s ps \<le> length ps"
  by (simp add: hits_def)

lemma hits_all: "hits s ps = length ps \<longleftrightarrow> (\<forall>p \<in> set ps. s \<in> set p)"
  by (simp add: hits_def filter_id_conv flip: length_filter_less) (metis filter_id_conv length_filter_less nless_le)

lemma hits_none: "hits s ps = 0 \<longleftrightarrow> (\<forall>p \<in> set ps. s \<notin> set p)"
  by (simp add: hits_def filter_empty_conv)

text \<open>Thresholds tight enough for the given numbers of groups to mean "every" and "none".\<close>

definition tight :: "switch_localizer \<Rightarrow> nat \<Rightarrow> nat \<Rightarrow> bool" where
  "tight sl n_slow n_fast \<longleftrightarrow> of_nat n_slow * (1 - sl_cover sl) < 1 \<and> of_nat n_fast * sl_clean sl < 1 \<and>
     sl_cover sl \<le> 1 \<and> 0 \<le> sl_clean sl"

lemma cover_tight:
  assumes "tight sl (length ps) m" "ps \<noteq> []"
  shows "sl_cover sl \<le> of_nat (hits s ps) / of_nat (length ps) \<longleftrightarrow> (\<forall>p \<in> set ps. s \<in> set p)"
proof -
  let ?n = "length ps"
  have n: "0 < (of_nat ?n :: real)" using assms(2) by simp
  have "sl_cover sl \<le> of_nat (hits s ps) / of_nat ?n \<longleftrightarrow> hits s ps = ?n"
  proof
    assume "sl_cover sl \<le> of_nat (hits s ps) / of_nat ?n"
    then have "sl_cover sl * of_nat ?n \<le> of_nat (hits s ps)" using n by (simp add: field_simps)
    moreover have "of_nat ?n - sl_cover sl * of_nat ?n < 1"
      using assms(1) by (simp add: tight_def algebra_simps)
    ultimately have "(of_nat ?n :: real) < of_nat (hits s ps) + 1" by linarith
    then show "hits s ps = ?n" using hits_le [of s ps] by linarith
  qed (use n assms(1) in \<open>simp add: tight_def\<close>)
  then show ?thesis by (simp add: hits_all)
qed

lemma clean_tight:
  assumes "tight sl m (length ps)" "ps \<noteq> []"
  shows "of_nat (hits s ps) / of_nat (length ps) \<le> sl_clean sl \<longleftrightarrow> (\<forall>p \<in> set ps. s \<notin> set p)"
proof -
  let ?n = "length ps"
  have n: "0 < (of_nat ?n :: real)" using assms(2) by simp
  have "of_nat (hits s ps) / of_nat ?n \<le> sl_clean sl \<longleftrightarrow> hits s ps = 0"
  proof
    assume "of_nat (hits s ps) / of_nat ?n \<le> sl_clean sl"
    then have "of_nat (hits s ps) \<le> sl_clean sl * of_nat ?n" using n by (simp add: field_simps)
    then have "(of_nat (hits s ps) :: real) < 1" using assms(1) by (simp add: tight_def mult.commute)
    then show "hits s ps = 0" by simp
  qed (use assms(1) in \<open>simp add: tight_def\<close>)
  then show ?thesis by (simp add: hits_none)
qed

text \<open>With tight thresholds the hitting set is what its description says.\<close>

lemma hitting_set_exact:
  assumes "hitting_set sl slow fast = Inr cs" "tight sl (length slow) (length fast)" "slow \<noteq> []"
  shows "set cs = {s. (\<forall>m \<in> set slow. s \<in> set (path_of sl m)) \<and> (\<forall>m \<in> set fast. s \<notin> set (path_of sl m))}"
    "distinct cs"
proof -
  obtain sp fp where p: "rmap (\<lambda>m. switches_on_path (sl_topo sl) (gm_members m)) slow = Inr sp"
    "rmap (\<lambda>m. switches_on_path (sl_topo sl) (gm_members m)) fast = Inr fp"
    and cs: "cs = filter (\<lambda>s. sl_cover sl \<le> of_nat (hits s sp) / of_nat (length slow) \<and>
            (if fast \<noteq> [] then of_nat (hits s fp) / of_nat (length fast) else 0) \<le> sl_clean sl)
          (sorted_set (concat sp))"
    using assms(1) by (auto simp: hitting_set_def rbind_Inr_iff)
  have sp: "sp = map (path_of sl) slow" "fp = map (path_of sl) fast"
    using rmap_paths p by blast+
  have t: "tight sl (length sp) (length fp)" "sp \<noteq> []" using assms(2,3) by (simp_all add: sp)
  have cover: "sl_cover sl \<le> of_nat (hits s sp) / of_nat (length slow) \<longleftrightarrow> (\<forall>m \<in> set slow. s \<in> set (path_of sl m))" for s
    using cover_tight [OF t, of s] by (simp add: sp)
  have clean: "(if fast \<noteq> [] then of_nat (hits s fp) / of_nat (length fast) else 0) \<le> sl_clean sl \<longleftrightarrow>
      (\<forall>m \<in> set fast. s \<notin> set (path_of sl m))" for s
    using clean_tight [OF t(1), of s] assms(2) by (auto simp: sp tight_def)
  have "\<exists>m. m \<in> set slow" using assms(3) by (simp add: ex_in_conv)
  then show "set cs = {s. (\<forall>m \<in> set slow. s \<in> set (path_of sl m)) \<and> (\<forall>m \<in> set fast. s \<notin> set (path_of sl m))}"
    unfolding cs set_filter cover clean by (auto simp: sp)
  show "distinct cs" by (simp add: cs)
qed

lemma inter_all_empty: "slow \<noteq> [] \<Longrightarrow> inter_all (map gm_members slow) = [] \<longleftrightarrow> (\<nexists>n. \<forall>m \<in> set slow. n \<in> set (gm_members m))"
  using set_inter_all [of "map gm_members slow"] by (auto simp flip: set_empty)

section \<open>Properties of switch localization\<close>

text \<open>C33: A round blames a switch exactly when the evidence singles it out. With thresholds tight
  for the numbers of groups, some groups slow, no node in all of them and every path known, the
  verdict names switch \<open>w\<close> if and only if \<open>w\<close> is on the path of every slow group, on the path of
  no healthy group, and no other switch is.\<close>

theorem switch_verdict_exact:
  assumes "partition_groups (sl_slow_factor sl) stragglers ms = (slow, fast)" "slow \<noteq> []"
    "\<nexists>n. \<forall>m \<in> set slow. n \<in> set (gm_members m)" "tight sl (length slow) (length fast)"
    "hitting_set sl slow fast = Inr cs"
  shows "switch_suspect (fst (switch_observe sl (ms, stragglers))) = Some w \<longleftrightarrow>
    {s. (\<forall>m \<in> set slow. s \<in> set (path_of sl m)) \<and> (\<forall>m \<in> set fast. s \<notin> set (path_of sl m))} = {w}"
proof -
  note cs = hitting_set_exact [OF assms(5,4,2)]
  have "switch_suspect (fst (switch_observe sl (ms, stragglers))) = Some w \<longleftrightarrow> cs = [w]"
    using assms(1,2,3,5) inter_all_empty [OF assms(2)]
    by (auto simp: switch_observe_def switch_suspect_def no_verdict_def Let_def split: list.splits)
  also have "\<dots> \<longleftrightarrow> set cs = {w}"
    using cs(2) by (metis distinct_singleton empty_set list.simps(15) set_eq_iff distinct_card card_1_singleton_iff
        One_nat_def length_Suc_conv length_0_conv singleton_inject card.empty card_insert_disjoint finite.emptyI empty_iff)
  finally show ?thesis unfolding cs(1) .
qed

text \<open>A confirmed switch was the suspect of every one of the last \<open>persistence\<close> rounds that
  completed, so a transient congestion of fewer rounds is never reported.\<close>

theorem switch_confirmation_persistent:
  assumes "sw.rounds sl (is @ [i]) = (vs @ [v], sl')" "sl_last_suspect sl = None" "switch_confirmed v"
  shows "\<exists>w. switch_suspect v = Some w \<and> sl_persistence sl \<le> length (sw.settled (vs @ [v])) \<and>
    (\<forall>u \<in> set (drop (length (sw.settled (vs @ [v])) - sl_persistence sl) (sw.settled (vs @ [v]))).
       switch_suspect u = Some w)"
  using sw.confirmed_held [OF assms] by (auto simp: sw.held_def)

definition example_group :: "string \<Rightarrow> string list \<Rightarrow> real \<Rightarrow> group_measurement" where
  "example_group g members latency = \<lparr>gm_group_id = g, gm_members = members, gm_collective = ''ar'',
     gm_latency_s = latency, gm_failed = False\<rparr>"

definition example_localizer :: switch_localizer where
  "example_localizer = \<lparr>sl_topo = \<lparr>ft_node_leaf = [(''a'', ''X''), (''b'', ''X''), (''c'', ''Y''), (''d'', ''Y'')],
       ft_spine_route = [], ft_default_spine = ''spine0''\<rparr>,
     sl_slow_factor = 3 / 2, sl_persistence = 1, sl_cover = 999 / 1000, sl_clean = 1 / 1000000000,
     sl_last_suspect = None, sl_streak = 0\<rparr>"

definition example_round :: "group_measurement list" where
  "example_round = [example_group ''g1'' [''a'', ''c''] 3, example_group ''g2'' [''b'', ''d''] 3,
     example_group ''g3'' [''a'', ''b''] 1, example_group ''g4'' [''c'', ''d''] 1]"

lemma example_factor [simp]: "sl_slow_factor example_localizer = 3 / 2"
  by (simp add: example_localizer_def)

lemma example_partition:
  "partition_groups (3 / 2) [] example_round =
     ([example_group ''g1'' [''a'', ''c''] 3, example_group ''g2'' [''b'', ''d''] 3],
      [example_group ''g3'' [''a'', ''b''] 1, example_group ''g4'' [''c'', ''d''] 1])"
  by (simp add: partition_groups_def example_round_def group_by_def example_group_def partition_class_def
      is_slow_group_def Let_def)

lemma example_paths:
  "switches_on_path (sl_topo example_localizer) [''a'', ''c''] = Inr [''X'', ''Y'', ''spine0'']"
  "switches_on_path (sl_topo example_localizer) [''b'', ''d''] = Inr [''X'', ''Y'', ''spine0'']"
  "switches_on_path (sl_topo example_localizer) [''a'', ''b''] = Inr [''X'']"
  "switches_on_path (sl_topo example_localizer) [''c'', ''d''] = Inr [''Y'']"
  by (simp_all add: switches_on_path_def leaf_of_def example_localizer_def spine_between_def sorted_set_def)

lemma example_hitting_set:
  "hitting_set example_localizer [example_group ''g1'' [''a'', ''c''] 3, example_group ''g2'' [''b'', ''d''] 3]
     [example_group ''g3'' [''a'', ''b''] 1, example_group ''g4'' [''c'', ''d''] 1] = Inr [''spine0'']"
  by (simp add: hitting_set_def example_group_def example_paths hits_def sorted_set_def)
    (simp add: example_localizer_def)

theorem switch_verdict_exact_witness:
  "switch_suspect (fst (switch_observe example_localizer (example_round, []))) = Some ''spine0''"
proof -
  have "tight example_localizer (Suc (Suc 0)) (Suc (Suc 0))" by (simp add: tight_def example_localizer_def)
  moreover have "\<nexists>n. \<forall>m \<in> set [example_group ''g1'' [''a'', ''c''] 3, example_group ''g2'' [''b'', ''d''] 3]. n \<in> set (gm_members m)"
    by (auto simp: example_group_def)
  moreover have "{s. (\<forall>m \<in> set [example_group ''g1'' [''a'', ''c''] 3, example_group ''g2'' [''b'', ''d''] 3].
        s \<in> set (path_of example_localizer m)) \<and>
      (\<forall>m \<in> set [example_group ''g3'' [''a'', ''b''] 1, example_group ''g4'' [''c'', ''d''] 1].
        s \<notin> set (path_of example_localizer m))} = {''spine0''}"
    by (auto simp: example_group_def path_of_def example_paths)
  ultimately show ?thesis
    using switch_verdict_exact [OF _ _ _ _ example_hitting_set, of "[]" example_round "''spine0''"]
      example_partition by simp
qed

theorem switch_confirmation_persistent_witness:
  "\<exists>v. fst (switch_observe example_localizer (example_round, [])) = v \<and> switch_confirmed v \<and>
     switch_suspect v = Some ''spine0''"
proof -
  let ?o = "switch_observe example_localizer (example_round, [])"
  have 1: "sw.rounds example_localizer ([] @ [(example_round, [])]) = ([] @ [fst ?o], snd ?o)"
    by (simp add: sw.rounds.simps case_prod_unfold Let_def)
  have o: "fst ?o = Inr \<lparr>sv_kind = FabricSwitch, sv_suspect = Some ''spine0'', sv_confirmed = True,
      sv_slow_groups = 2, sv_streak = 1, sv_candidates = []\<rparr>"
    using example_partition example_hitting_set
    by (simp add: switch_observe_def example_localizer_def Let_def) (simp add: example_group_def)
  then have "switch_confirmed (fst ?o)" by (simp add: switch_confirmed_def)
  from switch_confirmation_persistent [OF 1 _ this] show ?thesis
    using o by (auto simp: example_localizer_def switch_confirmed_def switch_suspect_def)
qed

text \<open>The cover threshold 0.999 is not "every slow group": among a thousand slow groups, a leaf
  switch that is not on the path of one of them is still returned as a candidate.\<close>

theorem cover_threshold_admits_miss:
  "hitting_set example_localizer (replicate 999 (example_group ''g'' [''a''] 3) @ [example_group ''h'' [''c''] 3]) [] =
     Inr [''X''] \<and> ''X'' \<notin> set (path_of example_localizer (example_group ''h'' [''c''] 3))"
proof -
  have p: "switches_on_path (sl_topo example_localizer) [''a''] = Inr [''X'']"
    "switches_on_path (sl_topo example_localizer) [''c''] = Inr [''Y'']"
    by (simp_all add: switches_on_path_def leaf_of_def example_localizer_def sorted_set_def)
  have rep: "rmap (\<lambda>m. switches_on_path (sl_topo example_localizer) (gm_members m))
      (replicate n (example_group ''g'' [''a''] 3) @ [example_group ''h'' [''c''] 3]) =
      Inr (replicate n [''X''] @ [[''Y'']])" for n
    by (induction n) (simp_all add: p example_group_def)
  have set: "sorted_set (replicate 999 ''X'' @ [''Y'']) = [''X'', ''Y'']"
  proof -
    have "sorted_set (replicate 999 ''X'' @ [''Y'']) = sorted_set [''X'', ''Y'']"
      by (rule sorted_set_cong) auto
    then show ?thesis by (simp add: sorted_set_def)
  qed
  have "concat (replicate 999 [''X''] @ [[''Y'']]) = replicate 999 ''X'' @ [''Y'']" 
  proof -
    have "concat (replicate n [x]) = replicate n x" for n and x :: string by (induction n) simp_all
    then show ?thesis by simp
  qed
  then show ?thesis
    using rep [of 999] p set
    by (simp add: hitting_set_def hits_def example_group_def path_of_def) (simp add: example_localizer_def)
qed

end
