(* ===== verification/Floats.thy ===== *)
theory Floats
  imports Prelude
begin

text \<open>
  Python floats where the code tests for them being finite: a real number or one of the three
  special values. Arithmetic on finite values is exact real arithmetic; rounding is not modelled.
\<close>

datatype pyfloat = Fin real | PInf | NInf | NaN

fun isfinite :: "pyfloat \<Rightarrow> bool" where
  "isfinite (Fin x) = True"
| "isfinite _ = False"

text \<open>\<open>x >= b\<close> and \<open>x <= b\<close> against a real bound; a comparison with \<open>NaN\<close> is false.\<close>

fun fge :: "pyfloat \<Rightarrow> real \<Rightarrow> bool" where
  "fge (Fin x) b = (b \<le> x)"
| "fge PInf b = True"
| "fge NInf b = False"
| "fge NaN b = False"

fun fle :: "pyfloat \<Rightarrow> real \<Rightarrow> bool" where
  "fle (Fin x) b = (x \<le> b)"
| "fle PInf b = False"
| "fle NInf b = True"
| "fle NaN b = False"

fun the_real :: "pyfloat \<Rightarrow> real" where
  "the_real (Fin x) = x"
| "the_real _ = 0"

lemma isfinite_Fin: "isfinite f \<longleftrightarrow> (\<exists>x. f = Fin x)"
  by (cases f) auto

end
