(* ===== verification/Communication.thy ===== *)
theory Communication
  imports Persistence Floats "HOL-Library.Product_Lexorder"
begin

text \<open>
  \<open>lm_resiliency/detection/communication_localizer.py\<close>: endpoint localization from overlapping process
  groups. A set of resources is a list without order; one resource of a member is a list of length
  one. A round that meets a rank without the metadata its resource kind needs is an error. The
  free-text \<open>detail\<close> of a verdict is left out.
\<close>

record endpoint_metadata =
  em_node :: "string option"
  em_hca :: "string option"
  em_nic :: "string option"

record observation =
  ob_group_id :: string
  ob_members :: "string list"
  ob_collective :: string
  ob_message_bytes :: int
  ob_topology_role :: string
  ob_resource_class :: string
  ob_latency_s :: pyfloat
  ob_baseline_latency_s :: "pyfloat option"
  ob_resource_kind :: string
  ob_failed :: bool
  ob_member_resources :: "string list list option"

datatype localizer_error =
    InvalidObservation string
  | InvalidLocalizer string
  | MissingMetadata string string

definition resource_kinds :: "string list" where
  "resource_kinds = [''rank'', ''node'', ''hca'', ''nic'']"

definition observation_post_init :: "observation \<Rightarrow> localizer_error + observation" where
  "observation_post_init ob =
     rbind (ensure (ob_group_id ob \<noteq> [] \<and> ob_members ob \<noteq> [])
       (InvalidObservation ''group_id and members must be non-empty'')) (\<lambda>_.
     rbind (ensure (distinct (ob_members ob)) (InvalidObservation ''group contains duplicate members'')) (\<lambda>_.
     rbind (ensure (ob_collective ob \<noteq> [] \<and> ob_topology_role ob \<noteq> [] \<and> ob_resource_class ob \<noteq> [])
       (InvalidObservation ''collective, topology_role, and resource_class must be non-empty'')) (\<lambda>_.
     rbind (ensure (0 \<le> ob_message_bytes ob) (InvalidObservation ''message_bytes must be non-negative'')) (\<lambda>_.
     rbind (ensure (ob_resource_kind ob \<in> set resource_kinds) (InvalidObservation ''resource_kind'')) (\<lambda>_.
     rbind (case ob_member_resources ob of
              None \<Rightarrow> Inr ()
            | Some mr \<Rightarrow>
                rbind (ensure (length mr = length (ob_members ob))
                  (InvalidObservation ''member_resources must align one-to-one with members'')) (\<lambda>_.
                ensure (list_all (\<lambda>values. values \<noteq> [] \<and> list_all (\<lambda>r. r \<noteq> []) values) mr)
                  (InvalidObservation ''member_resources cannot contain empty resource ids''))) (\<lambda>_.
     rbind (ensure (ob_failed ob \<or> (isfinite (ob_latency_s ob) \<and> 0 \<le> the_real (ob_latency_s ob)))
       (InvalidObservation ''a completed collective requires a finite, non-negative latency'')) (\<lambda>_.
     rbind (case ob_baseline_latency_s ob of
              None \<Rightarrow> ensure (ob_failed ob) (InvalidObservation ''a completed collective requires a baseline'')
            | Some b \<Rightarrow> ensure (isfinite b \<and> 0 < the_real b)
                (InvalidObservation ''baseline_latency_s must be finite and positive'')) (\<lambda>_.
     Inr ob))))))))"

definition comparison_key :: "observation \<Rightarrow> string \<times> int \<times> nat \<times> string" where
  "comparison_key ob =
     (ob_collective ob, ob_message_bytes ob, length (ob_members ob), ob_topology_role ob)"

definition normalized_latency :: "observation \<Rightarrow> pyfloat" where
  "normalized_latency ob =
     (if ob_failed ob then PInf
      else case (ob_latency_s ob, ob_baseline_latency_s ob) of
        (Fin l, Some (Fin b)) \<Rightarrow> Fin (l / b)
      | _ \<Rightarrow> NaN)"

record candidate =
  ca_resource_class :: string
  ca_resource_kind :: string
  ca_resource_id :: string
  ca_ranks :: "string list"
  ca_supporting_groups :: "string list"
  ca_support_ratio :: real

datatype verdict_status = Normal | Localized | Ambiguous | Inconclusive

record comm_verdict =
  cv_status :: verdict_status
  cv_candidates :: "candidate list"
  cv_confirmed :: bool
  cv_streak :: nat
  cv_confidence :: real
  cv_slow_groups :: "string list"
  cv_healthy_groups :: "string list"
  cv_excluded :: "string list"
  cv_contradicted :: "string list"

definition comm_suspect :: "comm_verdict \<Rightarrow> candidate option" where
  "comm_suspect v = (if cv_status v = Localized then Some (hd (cv_candidates v)) else None)"

record localizer =
  lo_metadata :: "(string \<times> endpoint_metadata) list"
  lo_slow_factor :: real
  lo_healthy_factor :: real
  lo_persistence :: nat
  lo_min_slow_groups :: nat
  lo_max_candidates :: nat
  lo_last_candidate :: "(string \<times> string \<times> string) option"
  lo_streak :: nat

definition init_localizer ::
  "(string \<times> endpoint_metadata) list \<Rightarrow> real \<Rightarrow> real \<Rightarrow> int \<Rightarrow> int \<Rightarrow> int \<Rightarrow> localizer_error + localizer" where
  "init_localizer metadata slow_factor healthy_factor persistence min_slow_groups max_candidates =
     rbind (ensure (1 \<le> healthy_factor \<and> healthy_factor < slow_factor)
       (InvalidLocalizer ''require 1 <= healthy_factor < slow_factor'')) (\<lambda>_.
     rbind (ensure (1 \<le> persistence \<and> 2 \<le> min_slow_groups \<and> 1 \<le> max_candidates)
       (InvalidLocalizer ''persistence and max_candidates must be positive; min_slow_groups >= 2'')) (\<lambda>_.
     Inr \<lparr>lo_metadata = metadata, lo_slow_factor = slow_factor, lo_healthy_factor = healthy_factor,
          lo_persistence = nat persistence, lo_min_slow_groups = nat min_slow_groups,
          lo_max_candidates = nat max_candidates, lo_last_candidate = None, lo_streak = 0\<rparr>))"

section \<open>Resources\<close>

definition metadata_resource :: "endpoint_metadata \<Rightarrow> string \<Rightarrow> string option" where
  "metadata_resource em kind =
     (if kind = ''node'' then em_node em else if kind = ''hca'' then em_hca em
      else if kind = ''nic'' then em_nic em else None)"

definition rank_resource :: "localizer \<Rightarrow> string \<Rightarrow> string \<Rightarrow> localizer_error + string" where
  "rank_resource lo kind rank =
     (case map_of (lo_metadata lo) rank of
        None \<Rightarrow> Inl (MissingMetadata kind rank)
      | Some em \<Rightarrow>
          (case metadata_resource em kind of
             None \<Rightarrow> Inl (MissingMetadata kind rank)
           | Some r \<Rightarrow> if r = [] then Inl (MissingMetadata kind rank) else Inr r))"

definition resources_for_member :: "localizer \<Rightarrow> observation \<Rightarrow> nat \<Rightarrow> localizer_error + string list" where
  "resources_for_member lo ob index =
     (case ob_member_resources ob of
        Some mr \<Rightarrow> Inr (mr ! index)
      | None \<Rightarrow>
          if ob_resource_kind ob = ''rank'' then Inr [ob_members ob ! index]
          else rbind (rank_resource lo (ob_resource_kind ob) (ob_members ob ! index)) (\<lambda>r. Inr [r]))"

definition resources_of :: "localizer \<Rightarrow> observation \<Rightarrow> localizer_error + string list" where
  "resources_of lo ob =
     (case ob_member_resources ob of
        Some mr \<Rightarrow> Inr (concat (map (\<lambda>index. mr ! index) [0..<length (ob_members ob)]))
      | None \<Rightarrow>
          if ob_resource_kind ob = ''rank'' then Inr (ob_members ob)
          else rmap (rank_resource lo (ob_resource_kind ob)) (ob_members ob))"

text \<open>\<open>_candidate\<close>, for observations whose resources are known (\<open>pairs\<close> holds them side by side).\<close>

definition make_candidate ::
  "localizer \<Rightarrow> string \<Rightarrow> string \<Rightarrow> string \<Rightarrow> (observation \<times> string list) list \<Rightarrow> candidate" where
  "make_candidate lo resource resource_class resource_kind pairs =
     (let supporting = sorted_set (map (ob_group_id \<circ> fst) (filter (\<lambda>(ob, rs). resource \<in> set rs) pairs));
          ranks = sorted_set (concat (map (\<lambda>(ob, rs).
            map (\<lambda>index. ob_members ob ! index)
              (filter (\<lambda>index. case resources_for_member lo ob index of Inl _ \<Rightarrow> False | Inr xs \<Rightarrow> resource \<in> set xs)
                [0..<length (ob_members ob)])) pairs))
      in \<lparr>ca_resource_class = resource_class, ca_resource_kind = resource_kind, ca_resource_id = resource,
          ca_ranks = ranks, ca_supporting_groups = supporting,
          ca_support_ratio = of_nat (length supporting) / of_nat (length (remdups (map (ob_group_id \<circ> fst) pairs)))\<rparr>)"

section \<open>One resource class\<close>

record class_result =
  cr_exact :: "candidate list"
  cr_partial :: "candidate list"
  cr_contradicted :: "string list"
  cr_insufficient :: bool

definition class_key :: "observation \<Rightarrow> string \<times> string" where
  "class_key ob = (ob_resource_class ob, ob_resource_kind ob)"

definition insufficient_class :: class_result where
  "insufficient_class = \<lparr>cr_exact = [], cr_partial = [], cr_contradicted = [], cr_insufficient = True\<rparr>"

definition with_resources :: "localizer \<Rightarrow> observation list \<Rightarrow> localizer_error + (observation \<times> string list) list" where
  "with_resources lo obs = rmap (\<lambda>ob. rbind (resources_of lo ob) (\<lambda>rs. Inr (ob, rs))) obs"

definition support_of :: "string \<Rightarrow> (observation \<times> string list) list \<Rightarrow> string list" where
  "support_of resource pairs = remdups (map (ob_group_id \<circ> fst) (filter (\<lambda>(ob, rs). resource \<in> set rs) pairs))"

definition analyse_class ::
  "localizer \<Rightarrow> (string \<times> string) \<Rightarrow> observation list \<Rightarrow> observation list \<Rightarrow> localizer_error + class_result" where
  "analyse_class lo key class_slow class_healthy =
     rbind (with_resources lo class_slow) (\<lambda>pairs.
     if length (remdups (map ob_group_id class_slow)) < lo_min_slow_groups lo then Inr insufficient_class
     else if length (remdups (map (sorted_set \<circ> snd) pairs)) < 2 then Inr insufficient_class
     else
       rbind (with_resources lo class_healthy) (\<lambda>healthy_pairs.
       let (resource_class, resource_kind) = key;
           healthy_resources = concat (map snd healthy_pairs);
           shared = sorted_set (inter_all (map snd pairs));
           contradicted = filter (\<lambda>r. r \<in> set healthy_resources) shared;
           common = filter (\<lambda>r. r \<notin> set healthy_resources) shared;
           labels = map (\<lambda>r. resource_class @ '':'' @ resource_kind @ '':'' @ r) contradicted
       in if common \<noteq> [] then
            Inr \<lparr>cr_exact = map (\<lambda>r. make_candidate lo r resource_class resource_kind pairs) common,
                 cr_partial = [], cr_contradicted = labels, cr_insufficient = False\<rparr>
          else
            let others = filter (\<lambda>r. r \<notin> set healthy_resources) (remdups (concat (map snd pairs)));
                ranked = sort_key (\<lambda>r. (- int (length (support_of r pairs)), r)) others;
                strong = filter (\<lambda>r. lo_min_slow_groups lo \<le> length (support_of r pairs)) ranked
            in Inr \<lparr>cr_exact = [],
                    cr_partial = map (\<lambda>r. make_candidate lo r resource_class resource_kind pairs) strong,
                    cr_contradicted = labels, cr_insufficient = False\<rparr>))"

section \<open>One round\<close>

definition is_slow :: "localizer \<Rightarrow> observation \<Rightarrow> bool" where
  "is_slow lo ob = fge (normalized_latency ob) (lo_slow_factor lo)"

definition is_healthy :: "localizer \<Rightarrow> observation \<Rightarrow> bool" where
  "is_healthy lo ob = (\<not> is_slow lo ob \<and> fle (normalized_latency ob) (lo_healthy_factor lo))"

definition reset_confirmation :: "localizer \<Rightarrow> localizer" where
  "reset_confirmation lo = lo\<lparr>lo_last_candidate := None, lo_streak := 0\<rparr>"

definition candidate_key :: "candidate \<Rightarrow> real \<times> string \<times> string \<times> string" where
  "candidate_key c = (- ca_support_ratio c, ca_resource_class c, ca_resource_kind c, ca_resource_id c)"

definition fingerprint :: "candidate \<Rightarrow> string \<times> string \<times> string" where
  "fingerprint c = (ca_resource_class c, ca_resource_kind c, ca_resource_id c)"

text \<open>The verdict from the results of all classes, and the confirmation it leaves behind.\<close>

definition comm_conclude :: "localizer \<Rightarrow> comm_verdict \<Rightarrow> class_result list \<Rightarrow> comm_verdict \<times> localizer" where
  "comm_conclude lo verdict results =
     (let exact = concat (map cr_exact results);
          partial = concat (map cr_partial results);
          contradicted = sorted_set (concat (map cr_contradicted results));
          insufficient = list_ex cr_insufficient results;
          candidates = take (lo_max_candidates lo) (sort_key candidate_key (exact @ partial))
      in if length exact = 1 \<and> partial = [] \<and> \<not> insufficient then
           let c = hd exact;
               streak = (if lo_last_candidate lo = Some (fingerprint c) then Suc (lo_streak lo) else 1)
           in (verdict\<lparr>cv_status := Localized, cv_candidates := [c],
                  cv_confirmed := (lo_persistence lo \<le> streak), cv_streak := streak,
                  cv_confidence := min 1 (of_nat streak / of_nat (lo_persistence lo)),
                  cv_contradicted := contradicted\<rparr>,
               lo\<lparr>lo_last_candidate := Some (fingerprint c), lo_streak := streak\<rparr>)
         else if candidates \<noteq> [] then
           (verdict\<lparr>cv_status := Ambiguous, cv_candidates := candidates, cv_contradicted := contradicted\<rparr>,
            reset_confirmation lo)
         else
           (verdict\<lparr>cv_status := Inconclusive, cv_contradicted := contradicted\<rparr>, reset_confirmation lo))"

definition analyse_round ::
  "localizer \<Rightarrow> observation list \<Rightarrow> observation list \<Rightarrow> localizer_error + class_result list" where
  "analyse_round lo slow healthy =
     rmap (\<lambda>(key, class_slow). analyse_class lo key class_slow (filter (\<lambda>ob. class_key ob = key) healthy))
       (group_by class_key slow)"

definition slow_of :: "localizer \<Rightarrow> string list \<Rightarrow> observation list \<Rightarrow> observation list" where
  "slow_of lo stragglers observations =
     filter (\<lambda>ob. is_slow lo ob \<and> \<not> overlaps (ob_members ob) stragglers) observations"

definition comm_observe ::
  "localizer \<Rightarrow> observation list \<times> string list \<Rightarrow> (localizer_error + comm_verdict) \<times> localizer" where
  "comm_observe lo input =
     (let (observations, stragglers) = input;
          slow = slow_of lo stragglers observations;
          excluded = filter (\<lambda>ob. is_slow lo ob \<and> overlaps (ob_members ob) stragglers) observations;
          healthy = filter (is_healthy lo) observations;
          verdict = \<lparr>cv_status = Normal, cv_candidates = [], cv_confirmed = False, cv_streak = 0, cv_confidence = 0,
            cv_slow_groups = sorted_set (map ob_group_id slow), cv_healthy_groups = sorted_set (map ob_group_id healthy),
            cv_excluded = sorted_set (map ob_group_id excluded), cv_contradicted = []\<rparr>
      in if slow = [] then (Inr verdict, reset_confirmation lo)
         else (case analyse_round lo slow healthy of
                 Inl e \<Rightarrow> (Inl e, lo)
               | Inr results \<Rightarrow>
                   let (w, lo') = comm_conclude lo verdict results in (Inr w, lo')))"

definition comm_fingerprint :: "localizer_error + comm_verdict \<Rightarrow> (string \<times> string \<times> string) option" where
  "comm_fingerprint v = (case v of Inl _ \<Rightarrow> None | Inr w \<Rightarrow> map_option fingerprint (comm_suspect w))"

definition comm_confirmed :: "localizer_error + comm_verdict \<Rightarrow> bool" where
  "comm_confirmed v = (case v of Inl _ \<Rightarrow> False | Inr w \<Rightarrow> cv_confirmed w)"

lemma comm_conclude_cases:
  assumes "comm_conclude lo v results = (w, lo')" "cv_status v = Normal" "\<not> cv_confirmed v"
  obtains (none) "comm_suspect w = None" "\<not> cv_confirmed w" "lo' = reset_confirmation lo"
    | (found) c where "concat (map cr_exact results) = [c]" "concat (map cr_partial results) = []"
        "\<not> list_ex cr_insufficient results" "comm_suspect w = Some c"
        "cv_confirmed w \<longleftrightarrow> lo_persistence lo \<le> lo_streak lo'"
        "lo' = lo\<lparr>lo_last_candidate := Some (fingerprint c),
           lo_streak := if lo_last_candidate lo = Some (fingerprint c) then Suc (lo_streak lo) else 1\<rparr>"
proof (cases "length (concat (map cr_exact results)) = 1 \<and> concat (map cr_partial results) = [] \<and>
    \<not> list_ex cr_insufficient results")
  case True
  then obtain c where c: "concat (map cr_exact results) = [c]" by (auto simp: length_Suc_conv)
  show ?thesis
    by (rule found [OF c]) (use True assms(1) c in \<open>auto simp: comm_conclude_def comm_suspect_def Let_def\<close>)
next
  case False
  show ?thesis
    by (rule none) (use False assms in \<open>auto simp: comm_conclude_def comm_suspect_def Let_def split: if_splits\<close>)
qed

lemma comm_observe_cases:
  assumes "comm_observe lo (observations, stragglers) = (v, lo')"
  obtains (raised) e where "v = Inl e" "lo' = lo"
    | (none) w where "v = Inr w" "comm_suspect w = None" "\<not> cv_confirmed w" "lo' = reset_confirmation lo"
    | (found) w c results where "v = Inr w" "comm_suspect w = Some c"
        "analyse_round lo (slow_of lo stragglers observations) (filter (is_healthy lo) observations) = Inr results"
        "concat (map cr_exact results) = [c]" "concat (map cr_partial results) = []" "\<not> list_ex cr_insufficient results"
        "cv_confirmed w \<longleftrightarrow> lo_persistence lo \<le> lo_streak lo'"
        "lo' = lo\<lparr>lo_last_candidate := Some (fingerprint c),
           lo_streak := if lo_last_candidate lo = Some (fingerprint c) then Suc (lo_streak lo) else 1\<rparr>"
proof (cases "slow_of lo stragglers observations = []")
  case True
  then show ?thesis using none assms by (auto simp: comm_observe_def comm_suspect_def Let_def)
next
  case False
  show ?thesis
  proof (cases "analyse_round lo (slow_of lo stragglers observations) (filter (is_healthy lo) observations)")
    case (Inl e)
    then show ?thesis using raised False assms by (auto simp: comm_observe_def Let_def)
  next
    case (Inr results)
    then obtain w v0 where w: "comm_conclude lo v0 results = (w, lo')" "v = Inr w" "cv_status v0 = Normal" "\<not> cv_confirmed v0"
      using False assms by (auto simp: comm_observe_def Let_def split: prod.splits)
    from w(1,3,4) show ?thesis
    proof (cases rule: comm_conclude_cases)
      case none
      then show ?thesis using \<open>v = Inr w\<close> that(2) by blast
    next
      case (found c)
      then show ?thesis using \<open>v = Inr w\<close> Inr that(3) by blast
    qed
  qed
qed

interpretation cl: persistent_suspect comm_observe isl comm_fingerprint comm_confirmed
  lo_last_candidate lo_streak "\<lambda>lo _. lo_persistence lo"
proof
  fix lo i v lo' assume "comm_observe lo i = (v, lo')"
  then have o: "comm_observe lo (fst i, snd i) = (v, lo')" by simp
  show "lo' = lo \<and> comm_fingerprint v = None \<and> \<not> comm_confirmed v" if "isl v"
    by (rule comm_observe_cases [OF o]) (use that in \<open>auto simp: comm_fingerprint_def comm_confirmed_def\<close>)
  show "lo_last_candidate lo' = Some k \<and>
      lo_streak lo' = (if lo_last_candidate lo = Some k then Suc (lo_streak lo) else 1)" if "comm_fingerprint v = Some k" for k
    by (rule comm_observe_cases [OF o]) (use that in \<open>auto simp: comm_fingerprint_def\<close>)
  show "lo_last_candidate lo' = None \<and> lo_streak lo' = 0" if "\<not> isl v" "comm_fingerprint v = None"
    by (rule comm_observe_cases [OF o]) (use that in \<open>auto simp: comm_fingerprint_def reset_confirmation_def\<close>)
  show "comm_confirmed v \<longleftrightarrow> (\<exists>k. comm_fingerprint v = Some k \<and> lo_persistence lo \<le> lo_streak lo')"
    by (rule comm_observe_cases [OF o]) (auto simp: comm_fingerprint_def comm_confirmed_def simp del: split_paired_Ex)
  show "lo_persistence lo' = lo_persistence lo"
    by (rule comm_observe_cases [OF o]) (auto simp: reset_confirmation_def)
qed

section \<open>What a localization means\<close>

text \<open>The resources an observation exercises, for observations whose metadata is known.\<close>

definition uses :: "localizer \<Rightarrow> observation \<Rightarrow> string \<Rightarrow> bool" where
  "uses lo ob r \<longleftrightarrow> (\<exists>rs. resources_of lo ob = Inr rs \<and> r \<in> set rs)"

lemma with_resources_Inr:
  assumes "with_resources lo obs = Inr pairs"
  shows "map fst pairs = obs" "\<And>ob rs. (ob, rs) \<in> set pairs \<Longrightarrow> resources_of lo ob = Inr rs"
proof -
  have "map fst pairs = obs \<and> (\<forall>(ob, rs) \<in> set pairs. resources_of lo ob = Inr rs)"
    using assms unfolding with_resources_def
    by (induction obs arbitrary: pairs) (auto simp: rbind_Inr_iff)
  then show "map fst pairs = obs" "\<And>ob rs. (ob, rs) \<in> set pairs \<Longrightarrow> resources_of lo ob = Inr rs" by auto
qed

lemma with_resources_uses:
  assumes "with_resources lo obs = Inr pairs" "(ob, rs) \<in> set pairs"
  shows "uses lo ob r \<longleftrightarrow> r \<in> set rs"
  using with_resources_Inr(2) [OF assms] by (simp add: uses_def)

lemma with_resources_ball:
  assumes "with_resources lo obs = Inr pairs"
  shows "(\<forall>rs \<in> set (map snd pairs). r \<in> set rs) \<longleftrightarrow> (\<forall>ob \<in> set obs. uses lo ob r)"
    "r \<in> set (concat (map snd pairs)) \<longleftrightarrow> (\<exists>ob \<in> set obs. uses lo ob r)"
proof -
  have obs: "set obs = fst ` set pairs" using with_resources_Inr(1) [OF assms] by force
  have u: "uses lo (fst p) r \<longleftrightarrow> r \<in> set (snd p)" if "p \<in> set pairs" for p
    using with_resources_uses [OF assms, of "fst p" "snd p"] that by simp
  show "(\<forall>rs \<in> set (map snd pairs). r \<in> set rs) \<longleftrightarrow> (\<forall>ob \<in> set obs. uses lo ob r)"
    using u by (simp add: obs)
  show "r \<in> set (concat (map snd pairs)) \<longleftrightarrow> (\<exists>ob \<in> set obs. uses lo ob r)"
    using u by (simp add: obs)
qed

lemma two_patterns:
  assumes "2 \<le> length (remdups xs)"
  obtains x y where "x \<in> set xs" "y \<in> set xs" "x \<noteq> y"
proof -
  have "\<not> card (set xs) \<le> Suc 0" using assms by (simp add: length_remdups_card_conv)
  then show thesis using that by (meson card_le_Suc0_iff_eq List.finite_set)
qed

definition independent_incidence :: "localizer \<Rightarrow> observation list \<Rightarrow> bool" where
  "independent_incidence lo obs \<longleftrightarrow> (\<exists>a \<in> set obs. \<exists>b \<in> set obs. \<exists>r. uses lo a r \<noteq> uses lo b r)"

lemma analyse_class_exact:
  assumes "analyse_class lo key slow healthy = Inr res" "c \<in> set (cr_exact res)" "slow \<noteq> []"
  shows "\<forall>ob \<in> set slow. uses lo ob (ca_resource_id c)" "\<forall>ob \<in> set healthy. \<not> uses lo ob (ca_resource_id c)"
    "lo_min_slow_groups lo \<le> length (remdups (map ob_group_id slow))" "independent_incidence lo slow"
    "(ca_resource_class c, ca_resource_kind c) = key"
    "ca_supporting_groups c = sorted_set (map ob_group_id slow)"
proof -
  obtain pairs where p1: "with_resources lo slow = Inr pairs"
    using assms(1) by (auto simp: analyse_class_def rbind_Inr_iff)
  have enough: "lo_min_slow_groups lo \<le> length (remdups (map ob_group_id slow))"
    "2 \<le> length (remdups (map (sorted_set \<circ> snd) pairs))"
  proof -
    have "res \<noteq> insufficient_class" using assms(2) by (auto simp: insufficient_class_def)
    then show "lo_min_slow_groups lo \<le> length (remdups (map ob_group_id slow))"
      "2 \<le> length (remdups (map (sorted_set \<circ> snd) pairs))"
      using assms(1) p1 by (auto simp: analyse_class_def not_less [symmetric] split: if_splits)
  qed
  obtain hp where p: "with_resources lo slow = Inr pairs" "with_resources lo healthy = Inr hp"
    using assms(1) p1 enough by (auto simp: analyse_class_def rbind_Inr_iff)
  have c: "\<exists>r. r \<in> set (inter_all (map snd pairs)) \<and> r \<notin> set (concat (map snd hp)) \<and>
      c = make_candidate lo r (fst key) (snd key) pairs"
    using assms(1,2) p enough by (cases key) (auto simp: analyse_class_def Let_def split: if_splits)
  from c obtain r where r: "r \<in> set (inter_all (map snd pairs))" "r \<notin> set (concat (map snd hp))"
    "c = make_candidate lo r (fst key) (snd key) pairs" by blast
  have ne: "map snd pairs \<noteq> []" using assms(3) with_resources_Inr(1) [OF p(1)] by auto
  have id: "ca_resource_id c = r" "(ca_resource_class c, ca_resource_kind c) = key"
    by (simp_all add: r(3) make_candidate_def Let_def)
  show all: "\<forall>ob \<in> set slow. uses lo ob (ca_resource_id c)"
    using r(1) set_inter_all [OF ne] with_resources_ball(1) [OF p(1)] by (auto simp: id)
  show "\<forall>ob \<in> set healthy. \<not> uses lo ob (ca_resource_id c)"
    using r(2) with_resources_ball(2) [OF p(2)] by (auto simp: id)
  show "lo_min_slow_groups lo \<le> length (remdups (map ob_group_id slow))" by (rule enough(1))
  show "(ca_resource_class c, ca_resource_kind c) = key" by (rule id(2))
  have "filter (\<lambda>(ob, rs). r \<in> set rs) pairs = pairs"
    using r(1) set_inter_all [OF ne] by (auto simp: filter_id_conv)
  then show "ca_supporting_groups c = sorted_set (map ob_group_id slow)"
    using with_resources_Inr(1) [OF p(1)] by (simp add: r(3) make_candidate_def Let_def flip: map_map)
  obtain a b where ab: "a \<in> set pairs" "b \<in> set pairs" "sorted_set (snd a) \<noteq> sorted_set (snd b)"
  proof -
    obtain x y where "x \<in> set (map (sorted_set \<circ> snd) pairs)" "y \<in> set (map (sorted_set \<circ> snd) pairs)" "x \<noteq> y"
      by (rule two_patterns [OF enough(2)])
    then show thesis using that by auto
  qed
  then have "set (snd a) \<noteq> set (snd b)" using sorted_set_cong by blast
  then obtain x where "(x \<in> set (snd a)) \<noteq> (x \<in> set (snd b))" by blast
  then have "uses lo (fst a) x \<noteq> uses lo (fst b) x"
    using with_resources_uses [OF p(1), of "fst a" "snd a"] with_resources_uses [OF p(1), of "fst b" "snd b"] ab by simp
  moreover have "fst a \<in> set slow" "fst b \<in> set slow" using ab with_resources_Inr(1) [OF p(1)] by force+
  ultimately show "independent_incidence lo slow" unfolding independent_incidence_def by blast
qed

lemma rmap_Inr_elem: "rmap f xs = Inr ys \<Longrightarrow> y \<in> set ys \<Longrightarrow> \<exists>x \<in> set xs. f x = Inr y"
  by (induction xs arbitrary: ys) (auto simp: rbind_Inr_iff)

lemma localized_class:
  assumes "comm_observe lo (observations, stragglers) = (Inr w, lo')" "comm_suspect w = Some c"
  defines "class_slow \<equiv> filter (\<lambda>ob. class_key ob = (ca_resource_class c, ca_resource_kind c)) (slow_of lo stragglers observations)"
  shows "\<forall>ob \<in> set class_slow. uses lo ob (ca_resource_id c)"
    "\<forall>ob \<in> set observations. is_healthy lo ob \<and> class_key ob = (ca_resource_class c, ca_resource_kind c) \<longrightarrow>
       \<not> uses lo ob (ca_resource_id c)"
    "lo_min_slow_groups lo \<le> length (remdups (map ob_group_id class_slow))" "independent_incidence lo class_slow"
    "ca_supporting_groups c = sorted_set (map ob_group_id class_slow)"
proof -
  obtain results where res: "analyse_round lo (slow_of lo stragglers observations) (filter (is_healthy lo) observations) = Inr results"
    "concat (map cr_exact results) = [c]"
    by (rule comm_observe_cases [OF assms(1)]) (use assms(2) in auto)
  obtain r where r: "r \<in> set results" "c \<in> set (cr_exact r)"
  proof -
    have "c \<in> set (concat (map cr_exact results))" by (simp only: res(2)) simp
    then show thesis using that by auto
  qed
  obtain key slow where ks: "(key, slow) \<in> set (group_by class_key (slow_of lo stragglers observations))"
    "analyse_class lo key slow (filter (\<lambda>ob. class_key ob = key) (filter (is_healthy lo) observations)) = Inr r"
    using rmap_Inr_elem [OF res(1) [unfolded analyse_round_def] r(1)] by auto
  have slow: "slow = filter (\<lambda>ob. class_key ob = key) (slow_of lo stragglers observations)" "slow \<noteq> []"
    using ks(1) by (auto simp: group_by_member filter_empty_conv)
  note ex = analyse_class_exact [OF ks(2) r(2) slow(2)]
  have "class_slow = slow" using ex(5) by (simp add: class_slow_def slow(1))
  then show "\<forall>ob \<in> set class_slow. uses lo ob (ca_resource_id c)"
    "\<forall>ob \<in> set observations. is_healthy lo ob \<and> class_key ob = (ca_resource_class c, ca_resource_kind c) \<longrightarrow>
       \<not> uses lo ob (ca_resource_id c)"
    "lo_min_slow_groups lo \<le> length (remdups (map ob_group_id class_slow))" "independent_incidence lo class_slow"
    "ca_supporting_groups c = sorted_set (map ob_group_id class_slow)"
    using ex by auto
qed

section \<open>Properties of endpoint localization\<close>

text \<open>C31: A localized endpoint is the common cause of its class. When a round names a suspect, every
  slow group of the suspect's resource class that no known compute straggler explains exercises it, no
  healthy group of that class does, the slow groups are at least \<open>min_slow_groups\<close> in number and do
  not all exercise the same resources, and the candidate lists exactly those groups.\<close>

theorem localized_endpoint_explains:
  assumes "comm_observe lo (observations, stragglers) = (Inr w, lo')" "comm_suspect w = Some c"
    "class_slow = filter (\<lambda>ob. class_key ob = (ca_resource_class c, ca_resource_kind c)) (slow_of lo stragglers observations)"
  shows "(\<forall>ob \<in> set class_slow. uses lo ob (ca_resource_id c)) \<and>
    (\<forall>ob \<in> set observations. is_healthy lo ob \<and> class_key ob = (ca_resource_class c, ca_resource_kind c) \<longrightarrow>
       \<not> uses lo ob (ca_resource_id c)) \<and>
    lo_min_slow_groups lo \<le> length (remdups (map ob_group_id class_slow)) \<and> independent_incidence lo class_slow \<and>
    ca_supporting_groups c = sorted_set (map ob_group_id class_slow)"
  using localized_class [OF assms(1,2)] unfolding assms(3) by blast

text \<open>A confirmed endpoint was the suspect of every one of the last \<open>persistence\<close> rounds that
  completed.\<close>

theorem endpoint_confirmation_persistent:
  assumes "cl.rounds lo (is @ [i]) = (vs @ [v], lo')" "lo_last_candidate lo = None" "comm_confirmed v"
  shows "\<exists>k. comm_fingerprint v = Some k \<and> lo_persistence lo \<le> length (cl.settled (vs @ [v])) \<and>
    (\<forall>u \<in> set (drop (length (cl.settled (vs @ [v])) - lo_persistence lo) (cl.settled (vs @ [v]))).
       comm_fingerprint u = Some k)"
  using cl.confirmed_held [OF assms] by (auto simp: cl.held_def)

definition example_observation :: "string \<Rightarrow> string list \<Rightarrow> real \<Rightarrow> observation" where
  "example_observation g members latency = \<lparr>ob_group_id = g, ob_members = members, ob_collective = ''ar'',
     ob_message_bytes = 8, ob_topology_role = ''dp'', ob_resource_class = ''net'', ob_latency_s = Fin latency,
     ob_baseline_latency_s = Some (Fin 1), ob_resource_kind = ''rank'', ob_failed = False,
     ob_member_resources = None\<rparr>"

definition example_comm :: localizer where
  "example_comm = \<lparr>lo_metadata = [], lo_slow_factor = 3 / 2, lo_healthy_factor = 23 / 20, lo_persistence = 1,
     lo_min_slow_groups = 2, lo_max_candidates = 8, lo_last_candidate = None, lo_streak = 0\<rparr>"

definition example_observations :: "observation list" where
  "example_observations = [example_observation ''g1'' [''0'', ''1''] 2, example_observation ''g2'' [''1'', ''2''] 2,
     example_observation ''g3'' [''0'', ''2''] 1]"

lemma example_comm_round:
  "slow_of example_comm [] example_observations =
     [example_observation ''g1'' [''0'', ''1''] 2, example_observation ''g2'' [''1'', ''2''] 2]"
  "filter (is_healthy example_comm) example_observations = [example_observation ''g3'' [''0'', ''2''] 1]"
  by (simp_all add: slow_of_def is_slow_def is_healthy_def example_observations_def example_observation_def
      normalized_latency_def example_comm_def)

lemma example_comm_params [simp]: "lo_min_slow_groups example_comm = 2" "lo_persistence example_comm = 1"
  by (simp_all add: example_comm_def)

lemma example_observation_fields [simp]:
  "ob_group_id (example_observation g ms l) = g" "ob_members (example_observation g ms l) = ms"
  "class_key (example_observation g ms l) = (''net'', ''rank'')"
  "resources_of lo (example_observation g ms l) = Inr ms"
  by (simp_all add: example_observation_def class_key_def resources_of_def)

lemma example_comm_class:
  "\<exists>c. analyse_round example_comm [example_observation ''g1'' [''0'', ''1''] 2, example_observation ''g2'' [''1'', ''2''] 2]
     [example_observation ''g3'' [''0'', ''2''] 1] = Inr [\<lparr>cr_exact = [c], cr_partial = [], cr_contradicted = [],
       cr_insufficient = False\<rparr>] \<and> ca_resource_id c = ''1''"
proof -
  have id: "ca_resource_id (make_candidate lo r cl k ps) = r" for lo r cl k ps
    by (simp add: make_candidate_def Let_def)
  show ?thesis
    by (simp add: analyse_round_def group_by_def analyse_class_def with_resources_def sorted_set_def Let_def id)
qed

lemma example_comm_verdict:
  "\<exists>w lo' c. comm_observe example_comm (example_observations, []) = (Inr w, lo') \<and> comm_suspect w = Some c \<and>
     ca_resource_id c = ''1'' \<and> cv_confirmed w"
proof -
  obtain c where c: "analyse_round example_comm [example_observation ''g1'' [''0'', ''1''] 2, example_observation ''g2'' [''1'', ''2''] 2]
     [example_observation ''g3'' [''0'', ''2''] 1] = Inr [\<lparr>cr_exact = [c], cr_partial = [], cr_contradicted = [],
       cr_insufficient = False\<rparr>]" "ca_resource_id c = ''1''"
    using example_comm_class by blast
  have ex: "\<exists>v. comm_observe example_comm (example_observations, []) =
      (case comm_conclude example_comm v [\<lparr>cr_exact = [c], cr_partial = [], cr_contradicted = [],
         cr_insufficient = False\<rparr>] of (w, l) \<Rightarrow> (Inr w, l))"
    unfolding comm_observe_def Let_def prod.case example_comm_round c(1) by (simp, rule exI, rule refl)
  then obtain v where v: "comm_observe example_comm (example_observations, []) =
      (case comm_conclude example_comm v [\<lparr>cr_exact = [c], cr_partial = [], cr_contradicted = [],
         cr_insufficient = False\<rparr>] of (w, l) \<Rightarrow> (Inr w, l))" by blast
  obtain w lo' where w: "comm_conclude example_comm v [\<lparr>cr_exact = [c], cr_partial = [], cr_contradicted = [],
       cr_insufficient = False\<rparr>] = (w, lo')" by force
  then have "comm_suspect w = Some c" "cv_confirmed w"
    by (auto simp: comm_conclude_def comm_suspect_def Let_def)
  then show ?thesis using v w c(2) by auto
qed

theorem localized_endpoint_explains_witness:
  "\<exists>c :: candidate. ca_resource_id c = ''1'' \<and> (\<forall>ob \<in> set (filter (\<lambda>ob. class_key ob = (ca_resource_class c, ca_resource_kind c))
      (slow_of example_comm [] example_observations)). uses example_comm ob ''1'')"
proof -
  obtain w lo' c where o: "comm_observe example_comm (example_observations, []) = (Inr w, lo')" "comm_suspect w = Some c"
    and id: "ca_resource_id c = ''1''" using example_comm_verdict by blast
  have "\<forall>ob \<in> set (filter (\<lambda>ob. class_key ob = (ca_resource_class c, ca_resource_kind c))
      (slow_of example_comm [] example_observations)). uses example_comm ob (ca_resource_id c)"
    using localized_endpoint_explains [OF o refl] by (rule conjunct1)
  then show ?thesis unfolding id using id by blast
qed

theorem endpoint_confirmation_persistent_witness:
  "\<exists>v lo' k. comm_observe example_comm (example_observations, []) = (v, lo') \<and> comm_fingerprint v = Some k"
proof -
  obtain w lo' where o: "comm_observe example_comm (example_observations, []) = (Inr w, lo')" "cv_confirmed w"
    using example_comm_verdict by blast
  have "cl.rounds example_comm ([] @ [(example_observations, [])]) = ([] @ [Inr w], lo')"
    by (simp add: cl.rounds.simps o)
  from endpoint_confirmation_persistent [OF this] o show ?thesis
    by (auto simp: comm_confirmed_def example_comm_def)
qed

end
