(* ===== verification/Cross_PG.thy ===== *)
theory Cross_PG
  imports Communication
begin

text \<open>
  \<open>lm_resiliency/detection/cross_pg.py\<close>: every rank's collective timings are gathered, each process group
  that all its members reported becomes one observation by majority vote, and the communication
  localizer intersects the slow groups. What \<open>gather\<close> returns is an argument.
\<close>

record timing_sample =
  ts_collective :: string
  ts_group_ranks :: "int list"
  ts_message_bytes :: int
  ts_sequence :: int
  ts_latency_ms :: real
  ts_slow :: bool
  ts_topology_role :: string

datatype cross_pg_error =
    InvalidSample string
  | LocalizerFailed localizer_error
  | BadResource string

definition sample_post_init :: "timing_sample \<Rightarrow> cross_pg_error + timing_sample" where
  "sample_post_init ts =
     rbind (ensure (ts_collective ts \<noteq> [] \<and> ts_group_ranks ts \<noteq> [])
       (InvalidSample ''collective and group_ranks must be non-empty'')) (\<lambda>_.
     rbind (ensure (0 \<le> ts_message_bytes ts \<and> 0 \<le> ts_sequence ts \<and> 0 \<le> ts_latency_ms ts)
       (InvalidSample ''collective timing values must be non-negative'')) (\<lambda>_. Inr ts))"

fun join_with :: "string \<Rightarrow> string list \<Rightarrow> string" where
  "join_with sep [] = []"
| "join_with sep [x] = x"
| "join_with sep (x # xs) = x @ sep @ join_with sep xs"

definition sample_group_id :: "timing_sample \<Rightarrow> string" where
  "sample_group_id ts =
     ts_topology_role ts @ '':'' @ ts_collective ts @ '':'' @ int_str (ts_sequence ts) @ '':'' @
     int_str (ts_message_bytes ts) @ ''B:['' @ join_with '','' (map int_str (ts_group_ranks ts)) @ '']''"

record cross_pg_result =
  xr_status :: verdict_status
  xr_failed_rank :: "int option"
  xr_failed_node :: "string option"
  xr_failed_ranks :: "int list"
  xr_supporting_groups :: "string list"
  xr_slow_groups :: "string list"
  xr_healthy_groups :: "string list"
  xr_confidence :: real

definition cross_pg_confirmed :: "cross_pg_result \<Rightarrow> bool" where
  "cross_pg_confirmed r = (xr_status r = Localized \<and> xr_failed_rank r \<noteq> None)"

type_synonym payload = "int \<times> string \<times> timing_sample list"

text \<open>\<open>dict.setdefault\<close> for every reporter, in order.\<close>

definition learn_nodes :: "(int \<times> string) list \<Rightarrow> payload list \<Rightarrow> (int \<times> string) list" where
  "learn_nodes roster payloads =
     fold (\<lambda>(rank, node, samples) r. if map_of r rank = None then r @ [(rank, node)] else r) payloads roster"

definition sample_key :: "int \<times> timing_sample \<Rightarrow> string \<times> int list \<times> int \<times> int \<times> string" where
  "sample_key rs = (ts_collective (snd rs), ts_group_ranks (snd rs), ts_message_bytes (snd rs),
     ts_sequence (snd rs), ts_topology_role (snd rs))"

definition reported_samples :: "payload list \<Rightarrow> (int \<times> timing_sample) list" where
  "reported_samples payloads = concat (map (\<lambda>(rank, node, samples). map (Pair rank) samples) payloads)"

definition complete_group :: "(int \<times> timing_sample) list \<Rightarrow> bool" where
  "complete_group members = (set (map fst members) = set (ts_group_ranks (snd (hd members))))"

definition group_is_slow :: "(int \<times> timing_sample) list \<Rightarrow> bool" where
  "group_is_slow members = (length members div 2 < length (filter (ts_slow \<circ> snd) members))"

definition group_observation :: "(int \<times> timing_sample) list \<Rightarrow> observation" where
  "group_observation members =
     (let sample = snd (hd members)
      in \<lparr>ob_group_id = sample_group_id sample, ob_members = map int_str (ts_group_ranks sample),
          ob_collective = ts_collective sample, ob_message_bytes = ts_message_bytes sample,
          ob_topology_role = ts_topology_role sample, ob_resource_class = ''machine_endpoint'',
          ob_latency_s = Fin (if group_is_slow members then 2 else 1), ob_baseline_latency_s = Some (Fin 1),
          ob_resource_kind = ''rank'', ob_failed = False, ob_member_resources = None\<rparr>)"

definition complete_groups :: "payload list \<Rightarrow> (int \<times> timing_sample) list list" where
  "complete_groups payloads = filter complete_group (map snd (group_by sample_key (reported_samples payloads)))"

definition fresh_localizer :: localizer where
  "fresh_localizer = \<lparr>lo_metadata = [], lo_slow_factor = 3 / 2, lo_healthy_factor = 23 / 20, lo_persistence = 1,
     lo_min_slow_groups = 2, lo_max_candidates = 8, lo_last_candidate = None, lo_streak = 0\<rparr>"

definition ranks_on_node :: "(int \<times> string) list \<Rightarrow> string option \<Rightarrow> int list" where
  "ranks_on_node roster node =
     (case node of None \<Rightarrow> [] | Some n \<Rightarrow> sort (map fst (filter (\<lambda>(rank, m). m = n) roster)))"

definition localize ::
  "(int \<times> string) list \<Rightarrow> payload list \<Rightarrow> (cross_pg_error + cross_pg_result) \<times> (int \<times> string) list" where
  "localize roster payloads =
     (let roster' = learn_nodes roster payloads
      in (rbind (rcatch LocalizerFailed
            (rmap (\<lambda>members. observation_post_init (group_observation members)) (complete_groups payloads))) (\<lambda>observations.
          rbind (rcatch LocalizerFailed (fst (comm_observe fresh_localizer (observations, [])))) (\<lambda>verdict.
          case (cv_confirmed verdict, comm_suspect verdict) of
            (True, Some suspect) \<Rightarrow>
              (case py_int (ca_resource_id suspect) of
                 None \<Rightarrow> Inl (BadResource (ca_resource_id suspect))
               | Some failed_rank \<Rightarrow>
                   let failed_node = map_of roster' failed_rank;
                       failed_ranks = ranks_on_node roster' failed_node
                   in Inr \<lparr>xr_status = Localized, xr_failed_rank = Some failed_rank, xr_failed_node = failed_node,
                           xr_failed_ranks = (if failed_ranks = [] then [failed_rank] else failed_ranks),
                           xr_supporting_groups = ca_supporting_groups suspect,
                           xr_slow_groups = cv_slow_groups verdict, xr_healthy_groups = cv_healthy_groups verdict,
                           xr_confidence = cv_confidence verdict\<rparr>)
          | (_, suspect) \<Rightarrow>
              Inr \<lparr>xr_status = cv_status verdict, xr_failed_rank = None, xr_failed_node = None, xr_failed_ranks = [],
                   xr_supporting_groups = (case suspect of None \<Rightarrow> [] | Some s \<Rightarrow> ca_supporting_groups s),
                   xr_slow_groups = cv_slow_groups verdict, xr_healthy_groups = cv_healthy_groups verdict,
                   xr_confidence = cv_confidence verdict\<rparr>)), roster'))"

section \<open>What a cross-group diagnosis means\<close>

lemma observation_post_init_id: "observation_post_init ob = Inr ob' \<Longrightarrow> ob' = ob"
  by (auto simp: observation_post_init_def rbind_Inr_iff)

lemma rmap_post_init_id:
  "rmap (\<lambda>m. observation_post_init (f m)) ms = Inr obs \<Longrightarrow> obs = map f ms"
  by (induction ms arbitrary: obs) (auto simp: rbind_Inr_iff dest: observation_post_init_id)

lemma group_observation_class [simp]:
  "class_key (group_observation m) = (''machine_endpoint'', ''rank'')"
  "ob_group_id (group_observation m) = sample_group_id (snd (hd m))"
  "uses lo (group_observation m) r \<longleftrightarrow> r \<in> int_str ` set (ts_group_ranks (snd (hd m)))"
  by (simp_all add: class_key_def group_observation_def uses_def resources_of_def Let_def)

lemma group_observation_slow [simp]:
  "is_slow fresh_localizer (group_observation m) = group_is_slow m"
  "is_healthy fresh_localizer (group_observation m) = (\<not> group_is_slow m)"
  by (simp_all add: is_slow_def is_healthy_def normalized_latency_def group_observation_def fresh_localizer_def Let_def)

lemma slow_of_groups:
  "slow_of fresh_localizer [] (map group_observation ms) = map group_observation (filter group_is_slow ms)"
  by (simp add: slow_of_def filter_map comp_def)

lemma learn_nodes_keeps: "map_of roster k = Some n \<Longrightarrow> map_of (learn_nodes roster ps) k = Some n"
  unfolding learn_nodes_def
  by (induction ps arbitrary: roster) (auto simp: map_add_Some_iff)

lemma learn_nodes_reporter: "(k, n, ss) \<in> set ps \<Longrightarrow> map_of (learn_nodes roster ps) k \<noteq> None"
proof (induction ps arbitrary: roster)
  case (Cons p ps)
  obtain k' n' ss' where p: "p = (k', n', ss')" by (cases p)
  show ?case
  proof (cases "(k, n, ss) = p")
    case True
    obtain m where "map_of (if map_of roster k = None then roster @ [(k, n)] else roster) k = Some m"
      by (cases "map_of roster k") (auto simp: map_add_def)
    then show ?thesis using learn_nodes_keeps [of _ k m ps] True
      by (simp add: learn_nodes_def p split: if_splits)
  next
    case False
    then show ?thesis using Cons by (auto simp: learn_nodes_def p)
  qed
qed simp

lemma complete_group_reporter:
  assumes "m \<in> set (complete_groups payloads)" "k \<in> set (ts_group_ranks (snd (hd m)))"
  shows "\<exists>n ss. (k, n, ss) \<in> set payloads"
proof -
  obtain key where key: "(key, m) \<in> set (group_by sample_key (reported_samples payloads))" and "complete_group m"
    using assms(1) by (auto simp: complete_groups_def)
  then have "k \<in> set (map fst m)" using assms(2) by (simp add: complete_group_def)
  moreover have "set m \<subseteq> set (reported_samples payloads)" using key by (auto simp: group_by_member)
  ultimately show ?thesis by (fastforce simp: reported_samples_def)
qed

lemma ranks_on_node_member:
  assumes "map_of roster k = Some n"
  shows "k \<in> set (ranks_on_node roster (Some n))"
  using map_of_SomeD [OF assms] by (force simp: ranks_on_node_def)

section \<open>Properties of cross-group localization\<close>

text \<open>C32: A rank is reported failed only when the gathered evidence agrees: it belongs to every
  process group whose members all reported and mostly found it slow, to no complete group found
  healthy, and those slow groups are at least two; the reported ranks are, in order, exactly the known
  ranks of its node, and it is one of them.\<close>

theorem cross_pg_diagnosis_sound:
  assumes "localize roster payloads = (Inr r, roster')" "xr_failed_rank r = Some k"
  shows "(\<forall>m \<in> set (complete_groups payloads). group_is_slow m \<longleftrightarrow> k \<in> set (ts_group_ranks (snd (hd m)))) \<and>
    2 \<le> card (sample_group_id ` (\<lambda>m. snd (hd m)) ` {m \<in> set (complete_groups payloads). group_is_slow m}) \<and>
    k \<in> set (xr_failed_ranks r) \<and> sorted (xr_failed_ranks r) \<and>
    (\<exists>n. map_of roster' k = Some n \<and> xr_failed_node r = Some n \<and> set (xr_failed_ranks r) = {j. (j, n) \<in> set roster'})"
proof -
  let ?ms = "complete_groups payloads"
  have roster': "roster' = learn_nodes roster payloads" using assms(1) by (simp add: localize_def Let_def)
  obtain obs w where obs: "rmap (\<lambda>m. observation_post_init (group_observation m)) ?ms = Inr obs"
    and w: "fst (comm_observe fresh_localizer (obs, [])) = Inr w"
    using assms(1) by (auto simp: localize_def Let_def rbind_Inr_iff rcatch_Inr_iff)
  obtain c where c: "comm_suspect w = Some c" "py_int (ca_resource_id c) = Some k"
    and r: "xr_failed_node r = map_of roster' k" "xr_failed_ranks r =
      (if ranks_on_node roster' (map_of roster' k) = [] then [k] else ranks_on_node roster' (map_of roster' k))"
    using assms obs w by (auto simp: localize_def Let_def roster' split: option.splits bool.splits)
  obtain lo' where co: "comm_observe fresh_localizer (map group_observation ?ms, []) = (Inr w, lo')"
    using w rmap_post_init_id [OF obs] by (metis prod.collapse)
  let ?slow = "map group_observation (filter group_is_slow ?ms)"
  let ?same = "filter (\<lambda>ob. class_key ob = (ca_resource_class c, ca_resource_kind c)) ?slow"
  note ex = localized_class [OF co c(1), unfolded slow_of_groups]
  have "?same \<noteq> []" using ex(3) by (auto simp: fresh_localizer_def)
  then have key: "(ca_resource_class c, ca_resource_kind c) = (''machine_endpoint'', ''rank'')"
    by (auto simp: filter_empty_conv)
  then have cls: "?same = ?slow" by (auto simp: filter_id_conv)
  have slow: "ca_resource_id c \<in> int_str ` set (ts_group_ranks (snd (hd m)))" if "m \<in> set ?ms" "group_is_slow m" for m
    using ex(1) that unfolding cls by auto
  have healthy: "ca_resource_id c \<notin> int_str ` set (ts_group_ranks (snd (hd m)))" if "m \<in> set ?ms" "\<not> group_is_slow m" for m
    using ex(2) that key by auto
  have two: "2 \<le> length (remdups (map ob_group_id ?slow))" using ex(3) unfolding cls by (simp add: fresh_localizer_def)
  then have "filter group_is_slow ?ms \<noteq> []" by auto
  then obtain m where m: "m \<in> set ?ms" "group_is_slow m" by (auto simp: filter_empty_conv)
  then have id: "ca_resource_id c = int_str k" using slow [OF m] c(2) by (auto simp: py_int_int_str)
  have k: "k \<in> set (ts_group_ranks (snd (hd m)))" using slow [OF m] id by auto
  obtain n where n: "map_of roster' k = Some n"
    using complete_group_reporter [OF m(1) k] learn_nodes_reporter unfolding roster' by blast
  have "length (remdups (map ob_group_id ?slow)) =
      card (sample_group_id ` (\<lambda>m. snd (hd m)) ` {m \<in> set ?ms. group_is_slow m})"
    by (simp add: length_remdups_card_conv image_image comp_def)
  moreover have "xr_failed_ranks r = ranks_on_node roster' (Some n)"
    using r(2) n ranks_on_node_member [OF n] by auto
  moreover have "group_is_slow m' \<longleftrightarrow> k \<in> set (ts_group_ranks (snd (hd m')))" if "m' \<in> set ?ms" for m'
    using slow [OF that] healthy [OF that] unfolding id by auto
  ultimately show ?thesis
    using two r(1) n ranks_on_node_member [OF n] by (force simp: ranks_on_node_def)
qed

definition example_sample :: "int list \<Rightarrow> bool \<Rightarrow> timing_sample" where
  "example_sample ranks slow = \<lparr>ts_collective = ''ar'', ts_group_ranks = ranks, ts_message_bytes = 8, ts_sequence = 1,
     ts_latency_ms = 1, ts_slow = slow, ts_topology_role = ''dp''\<rparr>"

definition example_payloads :: "payload list" where
  "example_payloads = [(0, ''n0'', [example_sample [0, 1] True, example_sample [0, 2] False]),
     (1, ''n1'', [example_sample [0, 1] True, example_sample [1, 2] True]),
     (2, ''n1'', [example_sample [1, 2] True, example_sample [0, 2] False])]"

lemma example_cross_pg: "map_sum id xr_failed_rank (fst (localize [] example_payloads)) = Inr (Some 1)"
  by code_simp

theorem cross_pg_diagnosis_sound_witness:
  "\<exists>r. fst (localize [] example_payloads) = Inr r \<and> xr_failed_rank r = Some 1 \<and> set (xr_failed_ranks r) = {1, 2}"
proof -
  obtain r where r: "fst (localize [] example_payloads) = Inr r" "xr_failed_rank r = Some 1"
    using example_cross_pg by (cases "fst (localize [] example_payloads)") auto
  have s: "snd (localize [] example_payloads) = [(0, ''n0''), (1, ''n1''), (2, ''n1'')]" by code_simp
  have "localize [] example_payloads = (Inr r, [(0, ''n0''), (1, ''n1''), (2, ''n1'')])" using r(1) s by (metis prod.collapse)
  from cross_pg_diagnosis_sound [OF this r(2)] have "set (xr_failed_ranks r) = {1, 2}" by auto
  then show ?thesis using r by blast
qed

end
