(* ===== verification/Consensus.thy ===== *)
theory Consensus
  imports Prelude "HOL-Library.Word"
begin

text \<open>
  \<open>lm_resiliency/detection/c3.py\<close>: the consensus primitive. A tensor is reduced to a 64-bit signature, the
  signatures (or scalars) of all peers are gathered, and one verdict rule turns the gathered values
  into a status and a bitmap of outliers. What \<open>all_gather\<close> returns is an argument. A tensor is its
  dtype name, its shape and its contiguous little-endian bytes; \<open>int64\<close> arithmetic of \<open>torch\<close> is
  arithmetic on 64-bit words, the arithmetic of the sequential chain is that of Python integers with
  explicit masks. Gathered values are real numbers.
\<close>

unbundle bit_operations_syntax

section \<open>Signatures\<close>

definition signature_offset_basis :: int where "signature_offset_basis = 14695981039346656037"

definition signature_prime :: int where "signature_prime = 1099511628211"

definition signature_mask :: int where "signature_mask = push_bit 64 1 - 1"

definition signed_int64_max :: int where "signed_int64_max = push_bit 63 1 - 1"

definition num_chunks :: nat where "num_chunks = 512"

definition fold_salt :: "nat \<Rightarrow> 64 word" where
  "fold_salt level = word_of_int ((signature_prime * (int level + 1)) AND signature_mask)"

text \<open>One row of the \<open>NUM_CHUNKS x fold_width\<close> matrix; every level treats all rows alike.\<close>

function fold_row :: "nat \<Rightarrow> 64 word list \<Rightarrow> 64 word" where
  "fold_row level row =
     (if length row \<le> 1 then hd row
      else let padded = (if odd (length row) then row @ [0] else row);
               half = length padded div 2
           in fold_row (level + 1) (map2 (\<lambda>left right. left XOR (right * fold_salt level)) (take half padded) (drop half padded)))"
  by pat_completeness auto
termination by (relation "measure (\<lambda>(level, row). length row)") (auto simp: Let_def elim!: oddE)

declare fold_row.simps [simp del]

definition xor_fold_to_blocks :: "64 word list \<Rightarrow> 64 word list" where
  "xor_fold_to_blocks flat =
     (if length flat \<le> num_chunks then flat
      else let fold_width = (length flat + num_chunks - 1) div num_chunks;
               padded = flat @ replicate (num_chunks * fold_width - length flat) 0
           in map (\<lambda>i. fold_row 0 (take fold_width (drop (i * fold_width) padded))) [0..<num_chunks])"

definition chain_step :: "int \<Rightarrow> int \<Rightarrow> int" where
  "chain_step h val = (((h XOR (val AND signature_mask)) AND signature_mask) * signature_prime) AND signature_mask"

definition finalize_signature :: "int list \<Rightarrow> int \<Rightarrow> int" where
  "finalize_signature block_values payload_nbytes =
     (let h = chain_step (foldl chain_step signature_offset_basis block_values) payload_nbytes
      in if signed_int64_max < h then h - push_bit 64 1 else h)"

record tensor =
  t_dtype :: string
  t_shape :: "nat list"
  t_element_size :: nat
  t_bytes :: "8 word list"

definition numel :: "tensor \<Rightarrow> nat" where
  "numel t = prod_list (t_shape t)"

definition tensor_ok :: "tensor \<Rightarrow> bool" where
  "tensor_ok t = (length (t_bytes t) = numel t * t_element_size t)"

definition word_of_bytes :: "8 word list \<Rightarrow> 64 word" where
  "word_of_bytes bs = foldr (\<lambda>b w. ucast b OR push_bit 8 w) bs 0"

fun words_of_bytes :: "8 word list \<Rightarrow> 64 word list" where
  "words_of_bytes bs = (if bs = [] then [] else word_of_bytes (take 8 bs) # words_of_bytes (drop 8 bs))"

declare words_of_bytes.simps [simp del]

definition to_int64_view :: "tensor \<Rightarrow> 64 word list" where
  "to_int64_view t =
     (let flat = t_bytes t; remainder = length flat mod 8
      in words_of_bytes (if remainder \<noteq> 0 then flat @ replicate (8 - remainder) 0 else flat))"

definition signature_string :: "string \<Rightarrow> int" where
  "signature_string s =
     foldl (\<lambda>signature c. ((signature XOR of_char c) * signature_prime) AND signature_mask) 0 s"

definition tensor_signature :: "tensor \<Rightarrow> int" where
  "tensor_signature t =
     (let block_values = map sint (xor_fold_to_blocks (to_int64_view t));
          payload_nbytes = int (numel t * t_element_size t);
          content_signature = finalize_signature block_values payload_nbytes;
          metadata = content_signature # int (length (t_shape t)) # map int (t_shape t) @ [signature_string (t_dtype t)]
      in finalize_signature metadata payload_nbytes)"

definition signature_bytes :: "8 word list \<Rightarrow> int" where
  "signature_bytes value =
     finalize_signature (map uint (words_of_bytes (value @ replicate ((8 - length value mod 8) mod 8) 0))) (int (length value))"

definition tensor_sequence_signature :: "tensor list \<Rightarrow> int" where
  "tensor_sequence_signature ts =
     finalize_signature
       (int (length ts) # concat (map (\<lambda>t. tensor_signature t # int (length (t_shape t)) # map int (t_shape t) @
          [signature_string (t_dtype t)]) ts))
       (int (sum_list (map (\<lambda>t. numel t * t_element_size t) ts)))"

section \<open>The verdict rule\<close>

datatype c3_mode = Exact | Statistical

datatype c3_status = Agree | Attributed | Inconclusive_c3

record c3_result =
  c3_verdict :: c3_status
  c3_bitmap :: "nat list"
  c3_evidence :: "real list"

datatype c3_error = NoEvidence | BadThreshold

text \<open>\<open>Counter\<close> keeps its keys in the order they were first seen; \<open>most_common(1)\<close> is the first key of
  highest count.\<close>

definition counter :: "'a list \<Rightarrow> ('a \<times> nat) list" where
  "counter xs = map (\<lambda>(k, g). (k, length g)) (group_by (\<lambda>x. x) xs)"

fun most_common :: "('a \<times> nat) list \<Rightarrow> 'a \<times> nat" where
  "most_common [] = undefined"
| "most_common [kc] = kc"
| "most_common ((k, c) # rest) = (let (k', c') = most_common rest in if c' \<le> c then (k, c) else (k', c'))"

definition linear_percentile :: "real list \<Rightarrow> real \<Rightarrow> real" where
  "linear_percentile sorted_vals quantile =
     (let position = real (length sorted_vals - 1) * quantile;
          lower = nat \<lfloor>position\<rfloor>; upper = nat \<lceil>position\<rceil>
      in if lower = upper then sorted_vals ! lower
         else let weight = position - real lower
              in sorted_vals ! lower * (1 - weight) + sorted_vals ! upper * weight)"

definition robust_scale :: "real list \<Rightarrow> real \<Rightarrow> real \<Rightarrow> real option" where
  "robust_scale sorted_vals med threshold_sigma =
     (let n = length sorted_vals;
          mad = sort (map (\<lambda>v. \<bar>v - med\<bar>) sorted_vals) ! (n div 2)
      in if 1 / 10 ^ 12 \<le> mad then Some mad
         else let iqr = linear_percentile sorted_vals (3 / 4) - linear_percentile sorted_vals (1 / 4)
         in if 1 / 10 ^ 12 \<le> iqr then Some iqr
         else let value_range = List.last sorted_vals - hd sorted_vals
         in if value_range < 1 / 10 ^ 9 then None else Some (value_range / (2 * threshold_sigma)))"

definition classify_evidence :: "real list \<Rightarrow> c3_mode \<Rightarrow> real \<Rightarrow> c3_error + c3_result" where
  "classify_evidence values mode threshold_sigma =
     (let n = length values; clear = replicate n 0
      in if n = 0 then Inl NoEvidence
      else if mode = Statistical \<and> threshold_sigma \<le> 0 then Inl BadThreshold
      else if mode = Exact then
        (let cs = counter values; (majority_value, majority_count) = most_common cs
         in if length cs \<le> 1 then Inr \<lparr>c3_verdict = Agree, c3_bitmap = clear, c3_evidence = values\<rparr>
         else if majority_count \<le> n div 2
           then Inr \<lparr>c3_verdict = Inconclusive_c3, c3_bitmap = clear, c3_evidence = values\<rparr>
         else Inr \<lparr>c3_verdict = Attributed, c3_bitmap = map (\<lambda>v. if v \<noteq> majority_value then 1 else 0) values,
                   c3_evidence = values\<rparr>)
      else if n \<le> 1 then Inr \<lparr>c3_verdict = Agree, c3_bitmap = clear, c3_evidence = values\<rparr>
      else let sorted_vals = sort values; med = sorted_vals ! (n div 2)
           in case robust_scale sorted_vals med threshold_sigma of
                None \<Rightarrow> Inr \<lparr>c3_verdict = Agree, c3_bitmap = clear, c3_evidence = values\<rparr>
              | Some scale \<Rightarrow>
                  let bitmap = map (\<lambda>v. if threshold_sigma * scale < \<bar>v - med\<bar> then 1 else 0) values
                  in Inr \<lparr>c3_verdict = (if \<exists>b \<in> set bitmap. b \<noteq> 0 then Attributed else Agree),
                          c3_bitmap = bitmap, c3_evidence = values\<rparr>)"

text \<open>\<open>run_tensor_groups\<close>: one gathered row of signatures per peer, one verdict per named group.\<close>

definition run_tensor_groups :: "string list \<Rightarrow> int list list \<Rightarrow> (string \<times> (c3_error + c3_result)) list" where
  "run_tensor_groups names gathered =
     map (\<lambda>(index, name). (name, classify_evidence (map (\<lambda>peer. real_of_int (peer ! index)) gathered) Exact 0))
       (enumerate 0 names)"

end
