(* ===== verification/Consensus_Laws.thy ===== *)
theory Consensus_Laws
  imports Consensus
begin

text \<open>
  What the consensus primitive of \<open>c3.py\<close> shows: the signature chain as word arithmetic, which single-word
  changes a signature reveals and which it loses, and what the verdict rule flags.
\<close>

section \<open>The chain as arithmetic on 64-bit words\<close>

definition chain_word :: "64 word \<Rightarrow> 64 word \<Rightarrow> 64 word" where
  "chain_word h v = (h XOR v) * word_of_int signature_prime"

definition finalize_word :: "64 word list \<Rightarrow> 64 word \<Rightarrow> 64 word" where
  "finalize_word vals n = chain_word (foldl chain_word (word_of_int signature_offset_basis) vals) n"

lemma and_signature_mask [simp]: "x AND signature_mask = take_bit 64 x"
  by (simp add: signature_mask_def take_bit_eq_mask mask_eq_exp_minus_1)

lemma chain_step_range: "0 \<le> chain_step h v" "chain_step h v < 2 ^ 64"
  using take_bit_int_less_exp [of 64] by (auto simp: chain_step_def)

lemma word_of_take_bit: "word_of_int (take_bit 64 x) = (word_of_int x :: 64 word)"
  by (rule bit_word_eqI) (simp add: bit_simps)

lemma word_of_chain_step: "word_of_int (chain_step h v) = chain_word (word_of_int h) (word_of_int v)"
proof -
  have "word_of_int (chain_step h v) = (word_of_int (take_bit 64 (take_bit 64 h XOR take_bit 64 v)) :: 64 word) * word_of_int signature_prime"
    unfolding chain_step_def and_signature_mask by (simp add: word_of_take_bit take_bit_xor)
  also have "word_of_int (take_bit 64 (take_bit 64 h XOR take_bit 64 v)) = (word_of_int h XOR word_of_int v :: 64 word)"
    by (rule bit_word_eqI) (simp add: bit_simps)
  finally show ?thesis by (simp add: chain_word_def)
qed

lemma word_of_foldl_chain:
  "word_of_int (foldl chain_step h vs) = foldl chain_word (word_of_int h) (map word_of_int vs)"
  by (induction vs arbitrary: h) (simp_all add: word_of_chain_step)

lemma sint_word_of_int_range:
  assumes "0 \<le> h" "h < 2 ^ 64"
  shows "sint (word_of_int h :: 64 word) = (if signed_int64_max < h then h - 2 ^ 64 else h)"
proof -
  have "take_bit 64 h = h" using assms by (simp add: take_bit_int_eq_self)
  moreover have "bit h 63 \<longleftrightarrow> 2 ^ 63 \<le> h"
    using assms int_div_pos_eq [of h "2 ^ 63" 1 "h - 2 ^ 63"]
    by (cases "2 ^ 63 \<le> h") (auto simp: bit_iff_odd_drop_bit drop_bit_eq_div)
  ultimately show ?thesis
    by (auto simp: sint_uint uint_word_of_int_eq signed_take_bit_eq_take_bit_minus signed_int64_max_def)
qed

lemma finalize_signature_word:
  "finalize_signature vals n = sint (finalize_word (map word_of_int vals) (word_of_int n))"
  unfolding finalize_signature_def finalize_word_def Let_def
  using sint_word_of_int_range [OF chain_step_range, of "foldl chain_step signature_offset_basis vals" n]
  by (simp add: word_of_chain_step word_of_foldl_chain)

lemma prime_times_inject: "x * word_of_int signature_prime = y * word_of_int signature_prime \<longleftrightarrow> x = (y :: 64 word)"
proof
  assume "x * word_of_int signature_prime = y * word_of_int signature_prime"
  then have "x * (word_of_int signature_prime * 14886173955864302971) = y * (word_of_int signature_prime * 14886173955864302971)"
    by (simp only: mult.assoc [symmetric])
  moreover have "(word_of_int signature_prime * 14886173955864302971 :: 64 word) = 1"
    by (simp add: signature_prime_def)
  ultimately show "x = y" by simp
qed simp

lemma xor_cancel: "h XOR v = h' XOR v \<longleftrightarrow> h = h'" "v XOR h = v XOR h' \<longleftrightarrow> h = (h' :: 64 word)"
  by (auto simp: bit_eq_iff bit_simps)

lemma chain_word_inject: "chain_word h v = chain_word h' v \<longleftrightarrow> h = h'" "chain_word h v = chain_word h v' \<longleftrightarrow> v = v'"
  by (auto simp: chain_word_def prime_times_inject xor_cancel)

lemma foldl_chain_inject: "foldl chain_word h vs = foldl chain_word h' vs \<longleftrightarrow> h = h'"
  by (induction vs arbitrary: h h') (simp_all add: chain_word_inject)

section \<open>Which changes of one word a signature shows\<close>

fun trailing_zeros :: "nat \<Rightarrow> nat" where
  "trailing_zeros n = (if n = 0 \<or> odd n then 0 else Suc (trailing_zeros (n div 2)))"

declare trailing_zeros.simps [simp del]

lemma trailing_zeros_odd_part: "0 < n \<Longrightarrow> \<exists>q. odd q \<and> n = 2 ^ trailing_zeros n * q"
proof (induction n rule: trailing_zeros.induct)
  case (1 n)
  show ?case
  proof (cases "odd n")
    case True
    then show ?thesis by (simp add: trailing_zeros.simps)
  next
    case False
    then have "0 < n div 2" using 1(2) by (auto elim!: evenE)
    with 1 False obtain q where "odd q" "n div 2 = 2 ^ trailing_zeros (n div 2) * q" by auto
    moreover have "n = 2 * (n div 2)" "trailing_zeros n = Suc (trailing_zeros (n div 2))"
      using False 1(2) by (simp_all add: trailing_zeros.simps [of n])
    ultimately show ?thesis by (intro exI [of _ q]) (simp only: power_Suc mult.assoc simp_thms)
  qed
qed

text \<open>The two words have the same low \<open>k\<close> bits.\<close>

definition low_eq :: "nat \<Rightarrow> 64 word \<Rightarrow> 64 word \<Rightarrow> bool" where
  "low_eq k x y \<longleftrightarrow> take_bit k (uint x) = take_bit k (uint y)"

lemma low_eq_dvd: "low_eq k x y \<longleftrightarrow> 2 ^ k dvd uint x - uint y"
  by (simp add: low_eq_def take_bit_eq_mod mod_eq_dvd_iff)

lemma low_eq_mono: "low_eq k x y \<Longrightarrow> j \<le> k \<Longrightarrow> low_eq j x y"
  unfolding low_eq_dvd using power_le_dvd by blast

lemma low_eq_all: "low_eq 64 x y \<longleftrightarrow> x = y"
  using uint_lt2p [of x] uint_lt2p [of y] by (simp add: low_eq_def take_bit_int_eq_self word_uint_eq_iff)

lemma low_eq_xor: "low_eq k (z XOR x) (z XOR y) \<longleftrightarrow> low_eq k x y" "low_eq k (x XOR z) (y XOR z) \<longleftrightarrow> low_eq k x y"
  by (auto simp: low_eq_def bit_eq_iff bit_simps)

lemma dvd_mult_odd: "odd q \<Longrightarrow> (2 :: int) ^ k dvd a * q \<longleftrightarrow> 2 ^ k dvd a"
  using coprime_dvd_mult_left_iff [of "2 ^ k" q a] by (simp add: coprime_commute)

lemma low_eq_mult:
  assumes "s = 2 ^ v * word_of_int q" "odd q" "k + v \<le> 64"
  shows "low_eq (k + v) (x * s) (y * s) \<longleftrightarrow> low_eq k x y"
proof -
  have m: "2 ^ (k + v) dvd (2 :: int) ^ 64" using assms(3) by (rule le_imp_power_dvd)
  have "x * s = word_of_int (uint x * (2 ^ v * q))" for x
    using assms(1) by (simp add: mult.assoc)
  moreover have "uint (word_of_int z :: 64 word) mod 2 ^ (k + v) = z mod 2 ^ (k + v)" for z
    using mod_mod_cancel [OF m] by (simp add: uint_word_of_int)
  ultimately have "uint (x * s) mod 2 ^ (k + v) = (uint x * (2 ^ v * q)) mod 2 ^ (k + v)" for x
    by (simp only:)
  then have "low_eq (k + v) (x * s) (y * s) \<longleftrightarrow>
      uint x * (2 ^ v * q) mod 2 ^ (k + v) = uint y * (2 ^ v * q) mod 2 ^ (k + v)"
    by (simp only: low_eq_def take_bit_eq_mod)
  then have "low_eq (k + v) (x * s) (y * s) \<longleftrightarrow> 2 ^ (k + v) dvd uint x * (2 ^ v * q) - uint y * (2 ^ v * q)"
    by (simp only: mod_eq_dvd_iff)
  also have "uint x * (2 ^ v * q) - uint y * (2 ^ v * q) = 2 ^ v * ((uint x - uint y) * q)" by (simp add: algebra_simps)
  also have "2 ^ (k + v) dvd 2 ^ v * ((uint x - uint y) * q) \<longleftrightarrow> 2 ^ k dvd (uint x - uint y) * q" by (simp add: power_add)
  also have "\<dots> \<longleftrightarrow> low_eq k x y" using assms(2) by (simp add: low_eq_dvd dvd_mult_odd)
  finally show ?thesis .
qed

lemma fold_salt_split: "\<exists>q. odd q \<and> fold_salt level = 2 ^ trailing_zeros (level + 1) * word_of_int q"
proof -
  obtain q where q: "odd q" "level + 1 = 2 ^ trailing_zeros (level + 1) * q"
    using trailing_zeros_odd_part [of "level + 1"] by auto
  have "fold_salt level = word_of_int (signature_prime * int (level + 1))"
    unfolding fold_salt_def and_signature_mask word_of_take_bit by (simp add: add.commute)
  also have "signature_prime * int (level + 1) = 2 ^ trailing_zeros (level + 1) * (signature_prime * int q)"
    by (subst q(2)) (simp only: of_nat_mult of_nat_power of_nat_numeral ac_simps)
  finally show ?thesis using q(1) by (intro exI [of _ "signature_prime * int q"]) (simp add: signature_prime_def)
qed

text \<open>How many high bits the levels from \<open>level\<close> on can lose in a row of \<open>n\<close> columns.\<close>

fun fold_loss :: "nat \<Rightarrow> nat \<Rightarrow> nat" where
  "fold_loss level n = (if n \<le> 1 then 0 else trailing_zeros (level + 1) + fold_loss (level + 1) ((n + 1) div 2))"

declare fold_loss.simps [simp del]

lemma fold_loss_mono: "m \<le> n \<Longrightarrow> fold_loss level m \<le> fold_loss level n"
proof (induction level n arbitrary: m rule: fold_loss.induct)
  case (1 level n)
  show ?case
  proof (cases "m \<le> 1")
    case True
    then show ?thesis by (simp add: fold_loss.simps [of level m])
  next
    case False
    then have "fold_loss (level + 1) ((m + 1) div 2) \<le> fold_loss (level + 1) ((n + 1) div 2)"
      using 1 by (intro 1(1)) (auto intro: div_le_mono)
    then show ?thesis using False 1(2) by (simp add: fold_loss.simps [of level m] fold_loss.simps [of level n])
  qed
qed

lemma fold_row_step:
  "1 < length row \<Longrightarrow> fold_row level row =
     (let padded = (if odd (length row) then row @ [0] else row); half = length padded div 2
      in fold_row (level + 1) (map2 (\<lambda>left right. left XOR (right * fold_salt level)) (take half padded) (drop half padded)))"
  by (subst fold_row.simps) (simp add: Let_def)

text \<open>A change of one column is, after one level, a change of one column: of the same one when it is
  in the left half, of its mirror otherwise.\<close>

lemma map2_update_left:
  "i < n \<Longrightarrow> length ys = 2 * n \<Longrightarrow>
     map2 f (take n (ys[i := x])) (drop n (ys[i := x])) = (map2 f (take n ys) (drop n ys))[i := f x (ys ! (n + i))]"
  by (intro nth_equalityI) (auto simp: nth_list_update)

lemma map2_update_right:
  "i < n \<Longrightarrow> length ys = 2 * n \<Longrightarrow>
     map2 f (take n (ys[n + i := x])) (drop n (ys[n + i := x])) = (map2 f (take n ys) (drop n ys))[i := f (ys ! i) x]"
  by (intro nth_equalityI) (auto simp: nth_list_update)

lemma fold_row_update:
  assumes "1 < length row" "i < length row"
  shows "\<exists>ys z. length ys = (length row + 1) div 2 \<and>
    (\<forall>x. fold_row level (row[i := x]) = fold_row (level + 1) (ys[i mod ((length row + 1) div 2) :=
       if i < (length row + 1) div 2 then x XOR z else z XOR (x * fold_salt level)]))"
proof -
  define padded where "padded = (if odd (length row) then row @ [0] else row)"
  define n where "n = (length row + 1) div 2"
  define f where "f = (\<lambda>left right. left XOR (right * fold_salt level))"
  define next_row where "next_row ys = map2 f (take n ys) (drop n ys)" for ys
  have len: "length padded = 2 * n" "i < 2 * n" using assms(2) by (auto simp: padded_def n_def elim!: oddE)
  have step: "fold_row level (row[i := z]) = fold_row (level + 1) (next_row (padded[i := z]))" for z
    using assms by (auto simp: fold_row_step Let_def next_row_def f_def n_def padded_def list_update_append elim!: oddE)
  have length_next: "length (next_row padded) = n" using len(1) by (simp add: next_row_def)
  show ?thesis
  proof (cases "i < n")
    case True
    have "next_row (padded[i := x]) = (next_row padded)[i := f x (padded ! (n + i))]" for x
      unfolding next_row_def by (rule map2_update_left [OF True len(1)])
    then show ?thesis
      using True step length_next unfolding n_def [symmetric]
      by (intro exI [of _ "next_row padded"] exI [of _ "padded ! (n + i) * fold_salt level"]) (simp add: f_def)
  next
    case False
    define j where "j = i - n"
    have j: "j < n" "i = n + j" "i mod n = j" using False len(2) by (simp_all add: j_def le_mod_geq)
    have "next_row (padded[n + j := x]) = (next_row padded)[j := f (padded ! j) x]" for x
      unfolding next_row_def by (rule map2_update_right [OF j(1) len(1)])
    then show ?thesis
      using False step length_next j unfolding n_def [symmetric]
      by (intro exI [of _ "next_row padded"] exI [of _ "padded ! j"]) (simp add: f_def)
  qed
qed

lemma fold_row_detects:
  assumes "i < length row" "\<not> low_eq k x y" "k + fold_loss level (length row) \<le> 64"
  shows "\<not> low_eq (k + fold_loss level (length row)) (fold_row level (row[i := x])) (fold_row level (row[i := y]))"
  using assms
proof (induction "length row" arbitrary: level row i k x y rule: less_induct)
  case less
  show ?case
  proof (cases "length row \<le> 1")
    case True
    then have "i = 0" "length row = 1" using less(2) by simp_all
    then show ?thesis using less(3) by (cases row) (auto simp: fold_row.simps fold_loss.simps)
  next
    case False
    define n where "n = (length row + 1) div 2"
    define v where "v = trailing_zeros (level + 1)"
    obtain ys z where ys: "length ys = n"
      and step: "\<And>x. fold_row level (row[i := x]) =
        fold_row (level + 1) (ys[i mod n := if i < n then x XOR z else z XOR (x * fold_salt level)])"
      using fold_row_update [of row i level] False less(2) unfolding n_def by auto
    have n: "n < length row" "i mod n < n" using False by (auto simp: n_def)
    have loss: "fold_loss level (length row) = v + fold_loss (level + 1) n"
      using False by (simp add: fold_loss.simps [of level "length row"] v_def n_def)
    obtain q where "odd q" "fold_salt level = 2 ^ v * word_of_int q" using fold_salt_split v_def by blast
    then have "\<not> low_eq (k + v) (if i < n then x XOR z else z XOR (x * fold_salt level))
        (if i < n then y XOR z else z XOR (y * fold_salt level))"
      using less(3,4) low_eq_mono [of "k + v" x y k] by (auto simp: low_eq_xor low_eq_mult loss)
    from less(1) [of ys, OF _ _ this, of "i mod n" "level + 1"] show ?thesis
      using n less(4) ys by (simp add: step loss add.assoc)
  qed
qed

text \<open>A change of the top bit alone is lost at the first level with an even factor, level one, when it
  reaches the right half there.\<close>

lemma fold_row_misses:
  assumes "low_eq 63 x y" "i < length row" "1 < (length row + 1) div 2"
    and right: "((length row + 1) div 2 + 1) div 2 \<le> i mod ((length row + 1) div 2)"
  shows "fold_row 0 (row[i := x]) = fold_row 0 (row[i := y])"
proof -
  define n where "n = (length row + 1) div 2"
  have "1 < length row" using assms(3) by simp
  then obtain ys z where ys: "length ys = n" and step: "\<And>x. fold_row 0 (row[i := x]) =
      fold_row 1 (ys[i mod n := if i < n then x XOR z else z XOR (x * fold_salt 0)])"
    using fold_row_update [of row i 0] assms(2) unfolding n_def by auto
  have n: "i mod n < n" "1 < n" using assms(3) by (simp_all add: n_def)
  obtain zs u where again: "\<And>x. fold_row 1 (ys[i mod n := x]) =
      fold_row 2 (zs[(i mod n) mod ((n + 1) div 2) := u XOR (x * fold_salt 1)])"
    using fold_row_update [of ys "i mod n" 1] n ys right unfolding n_def [symmetric]
    by (auto simp: not_less numeral_2_eq_2)
  have salt: "\<exists>q. odd q \<and> fold_salt 0 = 2 ^ 0 * word_of_int q" "\<exists>q. odd q \<and> fold_salt 1 = 2 ^ 1 * word_of_int q"
    using fold_salt_split [of 0] fold_salt_split [of 1] by (simp_all add: trailing_zeros.simps)
  have "low_eq 63 (if i < n then x XOR z else z XOR (x * fold_salt 0)) (if i < n then y XOR z else z XOR (y * fold_salt 0))"
    using assms(1) salt(1) low_eq_mult [of "fold_salt 0" 0 _ 63 x y] by (auto simp: low_eq_xor)
  then have "(if i < n then x XOR z else z XOR (x * fold_salt 0)) * fold_salt 1 =
      (if i < n then y XOR z else z XOR (y * fold_salt 0)) * fold_salt 1"
    using salt(2) low_eq_mult [of "fold_salt 1" 1 _ 63] by (auto simp: low_eq_all)
  then show ?thesis unfolding step again by (simp only:)
qed

text \<open>The blocks of a folded tensor: a word lies in one chunk.\<close>

definition fold_width :: "64 word list \<Rightarrow> nat" where
  "fold_width flat = (length flat + num_chunks - 1) div num_chunks"

definition fold_chunk :: "64 word list \<Rightarrow> nat \<Rightarrow> 64 word list" where
  "fold_chunk flat i = take (fold_width flat) (drop (i * fold_width flat)
     (flat @ replicate (num_chunks * fold_width flat - length flat) 0))"

lemma fold_width_bound: "length flat \<le> num_chunks * fold_width flat"
  unfolding fold_width_def num_chunks_def by simp

lemma length_fold_chunk: "i < num_chunks \<Longrightarrow> length (fold_chunk flat i) = fold_width flat"
proof -
  assume "i < num_chunks"
  then have "i * fold_width flat + fold_width flat \<le> num_chunks * fold_width flat"
    using mult_le_mono1 [of "i + 1" num_chunks "fold_width flat"] by simp
  then show ?thesis using fold_width_bound [of flat] by (simp add: fold_chunk_def)
qed

lemma xor_fold_chunks:
  "num_chunks < length flat \<Longrightarrow> xor_fold_to_blocks flat = map (\<lambda>i. fold_row 0 (fold_chunk flat i)) [0..<num_chunks]"
  by (simp add: xor_fold_to_blocks_def fold_chunk_def fold_width_def Let_def)

lemma take_drop_update:
  "take w (drop s (xs[j := x])) = (if s \<le> j then (take w (drop s xs))[j - s := x] else take w (drop s xs))"
  by (cases "s \<le> j") (auto simp: drop_update_swap take_update_swap not_le)

lemma fold_chunk_update:
  assumes "j < length flat"
  shows "fold_chunk (flat[j := x]) i =
    (if j div fold_width flat = i then (fold_chunk flat i)[j mod fold_width flat := x] else fold_chunk flat i)"
proof -
  let ?w = "fold_width flat"
  have w: "0 < ?w" using assms by (cases "?w = 0") (use fold_width_bound [of flat] in auto)
  have update: "fold_chunk (flat[j := x]) i =
      (if i * ?w \<le> j then (fold_chunk flat i)[j - i * ?w := x] else fold_chunk flat i)"
    using assms by (simp add: fold_chunk_def fold_width_def take_drop_update list_update_append1 [symmetric])
  have "length (fold_chunk flat i) \<le> ?w" by (simp add: fold_chunk_def)
  then have out: "(fold_chunk flat i)[j - i * ?w := x] = fold_chunk flat i" if "i < j div ?w"
    using that less_eq_div_iff_mult_less_eq [OF w, of "i + 1" j]
    by (intro list_update_beyond) (simp add: algebra_simps)
  show ?thesis
  proof (cases "i \<le> j div ?w")
    case True
    then have "i * ?w \<le> j" using w by (simp add: less_eq_div_iff_mult_less_eq)
    then show ?thesis using update out True by (auto simp: minus_div_mult_eq_mod)
  next
    case False
    then have "\<not> i * ?w \<le> j" using w by (simp add: less_eq_div_iff_mult_less_eq)
    then show ?thesis using update False by auto
  qed
qed

lemma finalize_signature_update:
  assumes "j < length vals"
  shows "finalize_signature (vals[j := x]) n = finalize_signature (vals[j := y]) n \<longleftrightarrow>
    (word_of_int x :: 64 word) = word_of_int y"
proof -
  have split: "map word_of_int (vals[j := z]) = map word_of_int (take j vals) @ (word_of_int z :: 64 word) # map word_of_int (drop (Suc j) vals)" for z
    using assms by (simp add: upd_conv_take_nth_drop)
  show ?thesis
    by (simp add: finalize_signature_word finalize_word_def split chain_word_inject foldl_chain_inject word_eq_iff_signed [symmetric])
qed

lemma finalize_signature_range: "- (2 ^ 63) \<le> finalize_signature vals n \<and> finalize_signature vals n < 2 ^ 63"
  using sint_greater_eq [of "finalize_word (map word_of_int vals) (word_of_int n)"]
    sint_less [of "finalize_word (map word_of_int vals) (word_of_int n)"] by (simp add: finalize_signature_word)

lemma content_change:
  assumes "j < length blocks" "x \<noteq> y"
  shows "finalize_signature (map sint (blocks[j := x])) n \<noteq> finalize_signature (map sint (blocks[j := y :: 64 word])) n"
  using assms finalize_signature_update [of j "map sint blocks" "sint x" n "sint y"] by (simp add: map_update)

lemma tensor_signature_content:
  assumes "t_dtype t' = t_dtype t" "t_shape t' = t_shape t" "t_element_size t' = t_element_size t"
  shows "tensor_signature t' = tensor_signature t \<longleftrightarrow>
    finalize_signature (map sint (xor_fold_to_blocks (to_int64_view t'))) (int (numel t * t_element_size t)) =
    finalize_signature (map sint (xor_fold_to_blocks (to_int64_view t))) (int (numel t * t_element_size t))"
proof -
  let ?n = "int (numel t * t_element_size t)"
  let ?c = "finalize_signature (map sint (xor_fold_to_blocks (to_int64_view t))) ?n"
  let ?c' = "finalize_signature (map sint (xor_fold_to_blocks (to_int64_view t'))) ?n"
  let ?rest = "int (length (t_shape t)) # map int (t_shape t) @ [signature_string (t_dtype t)]"
  have "tensor_signature t' = tensor_signature t \<longleftrightarrow> finalize_signature (?c' # ?rest) ?n = finalize_signature (?c # ?rest) ?n"
    using assms by (simp add: tensor_signature_def Let_def numel_def)
  also have "\<dots> \<longleftrightarrow> (word_of_int ?c' :: 64 word) = word_of_int ?c"
    using finalize_signature_update [of 0 "?c # ?rest" ?c' ?n ?c] by simp
  also have "\<dots> \<longleftrightarrow> ?c' = ?c" by (auto simp: finalize_signature_word word_eq_iff_signed)
  finally show ?thesis .
qed

lemma fold_detects:
  assumes "num_chunks < length flat" "j < length flat" "\<not> low_eq k x y" "k + fold_loss 0 (fold_width flat) \<le> 64"
  shows "\<exists>b blocks x' y'. b < length blocks \<and> x' \<noteq> y' \<and>
    xor_fold_to_blocks (flat[j := x]) = blocks[b := x'] \<and> xor_fold_to_blocks (flat[j := y]) = blocks[b := y']"
proof -
  let ?w = "fold_width flat"
  let ?b = "j div ?w"
  let ?blocks = "map (\<lambda>i. fold_row 0 (fold_chunk flat i)) [0..<num_chunks]"
  let ?at = "\<lambda>z. fold_row 0 ((fold_chunk flat ?b)[j mod ?w := z])"
  have w: "0 < ?w" using assms(2) by (cases "?w = 0") (use fold_width_bound [of flat] in auto)
  have b: "?b < num_chunks"
    using assms(2) fold_width_bound [of flat] w by (simp add: div_less_iff_less_mult)
  have blocks: "xor_fold_to_blocks (flat[j := z]) = ?blocks[?b := ?at z]" for z
    using assms(1,2) b by (intro nth_equalityI) (auto simp: xor_fold_chunks fold_chunk_update nth_list_update)
  have "\<not> low_eq (k + fold_loss 0 ?w) (?at x) (?at y)"
    using fold_row_detects [of "j mod ?w" "fold_chunk flat ?b" k x y 0] assms(3,4) w b by (simp add: length_fold_chunk)
  then have "?at x \<noteq> ?at y" by (auto simp: low_eq_def)
  then show ?thesis using blocks b by (intro exI [of _ ?b] exI [of _ ?blocks] exI [of _ "?at x"] exI [of _ "?at y"]) simp
qed

lemma low_eq_flip: "low_eq k (z XOR push_bit k 1) z"
  unfolding low_eq_def by (rule bit_eqI) (auto simp: bit_simps)

lemma fold_loss_bound: "n \<le> 2 ^ 20 \<Longrightarrow> fold_loss 0 n \<le> 18"
proof -
  assume "n \<le> 2 ^ 20"
  then have "fold_loss 0 n \<le> fold_loss 0 (2 ^ 20)" by (rule fold_loss_mono)
  also have "fold_loss 0 (2 ^ 20) = 18" by (simp add: fold_loss.simps trailing_zeros.simps)
  finally show ?thesis .
qed

section \<open>Properties of signatures\<close>

text \<open>C34: The masked integer chain of \<open>_finalize_signature\<close> is multiplication and exclusive or on unsigned
  64-bit words, read as a signed integer; its result fits in a signed 64-bit tensor element.\<close>

theorem signature_is_word_arithmetic:
  "finalize_signature vals n =
     sint (foldl (\<lambda>h v. (h XOR v) * 1099511628211) 14695981039346656037 (map word_of_int (vals @ [n])) :: 64 word) \<and>
   - (2 ^ 63) \<le> finalize_signature vals n \<and> finalize_signature vals n < 2 ^ 63"
  using finalize_signature_range [of vals n]
  by (simp add: finalize_signature_word finalize_word_def chain_word_def [abs_def] signature_offset_basis_def signature_prime_def)

text \<open>C35: Corrupting a single 64-bit word of a tensor changes its signature whenever the low 46 bits
  change, for tensors up to \<open>2^29\<close> words (4 GiB), and always for tensors of at most 512 words.\<close>

theorem single_word_corruption_detected:
  assumes "t_dtype t' = t_dtype t" "t_shape t' = t_shape t" "t_element_size t' = t_element_size t"
    and "to_int64_view t' = (to_int64_view t)[j := x]" "j < length (to_int64_view t)"
    and "length (to_int64_view t) \<le> 2 ^ 29"
    and "take_bit (if length (to_int64_view t) \<le> 512 then 64 else 46) (uint x) \<noteq>
      take_bit (if length (to_int64_view t) \<le> 512 then 64 else 46) (uint (to_int64_view t ! j))"
  shows "tensor_signature t' \<noteq> tensor_signature t"
proof -
  let ?flat = "to_int64_view t"
  have self: "?flat[j := ?flat ! j] = ?flat" by simp
  have "\<exists>b blocks x' y'. b < length blocks \<and> x' \<noteq> y' \<and> xor_fold_to_blocks (to_int64_view t') = blocks[b := x'] \<and>
      xor_fold_to_blocks ?flat = blocks[b := y']"
  proof (cases "length ?flat \<le> 512")
    case True
    then have "x \<noteq> ?flat ! j" using assms(7) by auto
    then show ?thesis
      using True assms(4,5) by (intro exI [of _ j] exI [of _ ?flat] exI [of _ x] exI [of _ "?flat ! j"])
        (simp add: xor_fold_to_blocks_def num_chunks_def)
  next
    case False
    then have "\<not> low_eq 46 x (?flat ! j)" using assms(7) by (simp add: low_eq_def)
    moreover have "fold_width ?flat \<le> 2 ^ 20" using assms(6) by (simp add: fold_width_def num_chunks_def)
    then have "46 + fold_loss 0 (fold_width ?flat) \<le> 64" using fold_loss_bound by fastforce
    ultimately show ?thesis
      using fold_detects [of ?flat j 46 x "?flat ! j"] False assms(5) unfolding self assms(4) by (simp add: num_chunks_def)
  qed
  then show ?thesis
    using content_change unfolding tensor_signature_content [OF assms(1-3)] by metis
qed


text \<open>Flipping only the top bit of a word, the sign of a value, does not change the signature of a
  tensor of more than 1024 words when the word lies in a second or last quarter of its chunk: the
  level-one factor is even and shifts the bit out.\<close>

theorem sign_flip_missed:
  assumes "t_dtype t' = t_dtype t" "t_shape t' = t_shape t" "t_element_size t' = t_element_size t"
    and "to_int64_view t' = (to_int64_view t)[j := to_int64_view t ! j XOR push_bit 63 1]" "j < length (to_int64_view t)"
    and "1024 < length (to_int64_view t)"
    and "w = (length (to_int64_view t) + 511) div 512" "h = (w + 1) div 2" "(h + 1) div 2 \<le> j mod w mod h"
  shows "tensor_signature t' = tensor_signature t"
proof -
  let ?flat = "to_int64_view t"
  have w: "w = fold_width ?flat" using assms(7) by (simp add: fold_width_def num_chunks_def)
  then have "2 < w" using assms(6,7) by (simp add: less_eq_div_iff_mult_less_eq)
  then have h: "1 < h" using assms(8) by simp
  have "low_eq 63 (?flat ! j XOR push_bit 63 1) (?flat ! j)"
    by (rule low_eq_flip)
  then have "fold_row 0 ((fold_chunk ?flat i)[j mod w := ?flat ! j XOR push_bit 63 1]) = fold_row 0 ((fold_chunk ?flat i)[j mod w := ?flat ! j])"
    if "i < num_chunks" for i
    using fold_row_misses [of _ _ "j mod w" "fold_chunk ?flat i"] that assms(8,9) h \<open>2 < w\<close> by (simp add: length_fold_chunk w)
  moreover have "xor_fold_to_blocks (?flat[j := z]) = map (\<lambda>i. if j div w = i then fold_row 0 ((fold_chunk ?flat i)[j mod w := z])
      else fold_row 0 (fold_chunk ?flat i)) [0..<num_chunks]" for z
    using assms(5,6) by (intro nth_equalityI) (auto simp: xor_fold_chunks fold_chunk_update num_chunks_def w)
  ultimately have "xor_fold_to_blocks (?flat[j := ?flat ! j XOR push_bit 63 1]) = xor_fold_to_blocks (?flat[j := ?flat ! j])"
    by (simp only:) (rule map_cong [OF refl], simp)
  moreover have self: "?flat[j := ?flat ! j] = ?flat" by simp
  ultimately show ?thesis unfolding tensor_signature_content [OF assms(1-3)] assms(4) self by (simp only:)
qed

section \<open>The verdict rule\<close>

lemma most_common_max: "cs \<noteq> [] \<Longrightarrow> most_common cs \<in> set cs \<and> (\<forall>kc \<in> set cs. snd kc \<le> snd (most_common cs))"
  by (induction cs rule: most_common.induct) (auto simp: Let_def split: prod.splits)

lemma in_counter: "(x, n) \<in> set (counter xs) \<longleftrightarrow> x \<in> set xs \<and> n = count_list xs x"
proof -
  have "(x, n) \<in> set (counter xs) \<longleftrightarrow> (\<exists>g. (x, g) \<in> set (group_by (\<lambda>x. x) xs) \<and> n = length g)"
    by (auto simp: counter_def image_iff split: prod.splits)
  moreover have "(\<lambda>y. y = x) = (=) x" by auto
  ultimately show ?thesis by (auto simp: group_by_member count_list_eq_length_filter)
qed

lemma distinct_counter: "distinct (map fst (counter xs))"
  using distinct_group_by [of "\<lambda>x. x" xs] by (simp add: counter_def comp_def case_prod_unfold)

lemma length_counter: "length (counter xs) = card (set xs)"
proof -
  have "x \<in> fst ` set (counter xs) \<longleftrightarrow> x \<in> set xs" for x
    using in_counter [of x _ xs] by (auto simp: image_iff) (metis fst_conv)
  then have "fst ` set (counter xs) = set xs" by blast
  then show ?thesis using distinct_counter [of xs] by (metis distinct_card length_map set_map)
qed

lemma count_pair: "x \<noteq> y \<Longrightarrow> count_list xs x + count_list xs y \<le> length xs"
  by (induction xs) auto

lemma most_common_counter:
  assumes "xs \<noteq> []"
  shows "\<exists>m. most_common (counter xs) = (m, count_list xs m) \<and> m \<in> set xs \<and> (\<forall>x. count_list xs x \<le> count_list xs m)"
proof -
  obtain m n where m: "most_common (counter xs) = (m, n)" by force
  have "counter xs \<noteq> []" using assms in_counter [of "hd xs" _ xs] by force
  from most_common_max [OF this] m have "(m, n) \<in> set (counter xs)"
    and top: "\<forall>kc \<in> set (counter xs). snd kc \<le> n" by auto
  moreover have "count_list xs x \<le> n" for x
    using top in_counter [of x _ xs] by (cases "x \<in> set xs") (force simp: count_list_0_iff)+
  ultimately show ?thesis using m by (auto simp: in_counter)
qed

lemma exact_classification:
  assumes "vals \<noteq> []"
  shows "\<exists>r. classify_evidence vals Exact s = Inr r \<and> c3_evidence r = vals \<and>
    (c3_verdict r = Agree \<longleftrightarrow> (\<forall>v \<in> set vals. v = hd vals)) \<and>
    (\<forall>m. length vals < 2 * count_list vals m \<longrightarrow>
       c3_verdict r \<noteq> Inconclusive_c3 \<and> c3_bitmap r = map (\<lambda>v. if v = m then 0 else 1) vals) \<and>
    ((\<forall>m. 2 * count_list vals m \<le> length vals) \<longrightarrow>
       c3_verdict r = Inconclusive_c3 \<and> c3_bitmap r = map (\<lambda>v. 0) vals)"
proof -
  obtain m where m: "most_common (counter vals) = (m, count_list vals m)" "m \<in> set vals"
    and top: "\<And>x. count_list vals x \<le> count_list vals m"
    using most_common_counter [OF assms] by auto
  have clear: "replicate (length vals) 0 = map (\<lambda>v. 0) vals" by (simp add: map_replicate_const)
  have one: "length (counter vals) \<le> 1 \<longleftrightarrow> (\<forall>v \<in> set vals. v = hd vals)"
    using assms card_le_Suc0_iff_eq [of "set vals"] by (simp add: length_counter) (metis list.set_sel(1))
  have unique: "x = m" if "length vals < 2 * count_list vals x" for x
    using that top [of x] count_pair [of x m vals] by fastforce
  have half: "c \<le> length vals div 2 \<longleftrightarrow> 2 * c \<le> length vals" for c by linarith
  show ?thesis
  proof (cases "length (counter vals) \<le> 1")
    case True
    then have same: "\<forall>v \<in> set vals. v = m" using one m(2) by metis
    then have "count_list vals m = length vals" by (simp add: count_list_eq_length_filter filter_id_conv)
    then have most: "length vals < 2 * count_list vals m" using assms by simp
    have r: "classify_evidence vals Exact s =
        Inr \<lparr>c3_verdict = Agree, c3_bitmap = map (\<lambda>v. 0) vals, c3_evidence = vals\<rparr>"
      using True assms m(1) by (simp add: classify_evidence_def Let_def clear)
    have zeros: "map (\<lambda>v. 0) vals = map (\<lambda>v. if v = m then 0 else 1 :: nat) vals" using same by simp
    have "map (\<lambda>v. if v = m then 0 else 1 :: nat) vals = map (\<lambda>v. if v = m' then 0 else 1) vals"
      if "length vals < 2 * count_list vals m'" for m'
      using unique [OF that] by (simp only:)
    then show ?thesis using True most unfolding r zeros one [symmetric] by (simp add: not_le) metis
  next
    case False
    let ?flags = "\<lambda>m. map (\<lambda>v. if v = m then 0 else 1 :: nat) vals"
    have r: "classify_evidence vals Exact s =
        Inr (if 2 * count_list vals m \<le> length vals
             then \<lparr>c3_verdict = Inconclusive_c3, c3_bitmap = map (\<lambda>v. 0) vals, c3_evidence = vals\<rparr>
             else \<lparr>c3_verdict = Attributed, c3_bitmap = ?flags m, c3_evidence = vals\<rparr>)"
      using False assms m(1) half by (simp add: classify_evidence_def Let_def clear if_distrib)
    have most: "length vals < 2 * count_list vals m" if "length vals < 2 * count_list vals m'" for m'
      using that top [of m'] by linarith
    show ?thesis
    proof (cases "2 * count_list vals m \<le> length vals")
      case True
      then show ?thesis using False most unfolding r one [symmetric] by (simp add: not_le) (meson not_le)
    next
      case no: False
      then show ?thesis using False unfolding r one [symmetric] by (auto simp: not_le dest: unique)
    qed
  qed
qed

text \<open>C17: Exact consensus always gives a verdict on a non-empty group. It agrees exactly when all vals are
  equal; whenever one value is held by more than half of the peers, it flags exactly the peers that
  hold another value; otherwise, short of agreement, it is inconclusive and flags nobody.\<close>

theorem exact_consensus_verdict:
  assumes "vals \<noteq> []"
  shows "\<exists>r. classify_evidence vals Exact s = Inr r \<and> c3_evidence r = vals \<and>
    (c3_verdict r = Agree \<longleftrightarrow> (\<forall>v \<in> set vals. v = hd vals)) \<and>
    (\<forall>m. length vals < 2 * count_list vals m \<longrightarrow>
       c3_verdict r \<noteq> Inconclusive_c3 \<and> c3_bitmap r = map (\<lambda>v. if v = m then 0 else 1) vals) \<and>
    ((\<forall>m. 2 * count_list vals m \<le> length vals) \<longrightarrow>
       c3_verdict r = Inconclusive_c3 \<and> c3_bitmap r = map (\<lambda>v. 0) vals)"
  by (rule exact_classification [OF assms])


lemma length_filter_impl: "(\<And>x. P x \<Longrightarrow> Q x) \<Longrightarrow> length (filter P xs) \<le> length (filter Q xs)"
  by (induction xs) auto

lemma sorted_above:
  assumes "sorted xs" "k < length xs"
  shows "length (filter (\<lambda>d. xs ! k < d) xs) \<le> length xs - Suc k"
proof -
  have "filter (\<lambda>d. xs ! k < d) (take (Suc k) xs) = []"
    using assms by (auto simp: filter_empty_conv in_set_conv_nth not_less sorted_iff_nth_mono)
  then have "filter (\<lambda>d. xs ! k < d) xs = filter (\<lambda>d. xs ! k < d) (drop (Suc k) xs)"
    by (metis append_Nil append_take_drop_id filter_append)
  then show ?thesis using length_filter_le [of _ "drop (Suc k) xs"] by simp
qed

lemma robust_scale_above_mad:
  assumes "robust_scale xs med s = Some scale" "1 \<le> s" "s * scale < d"
  shows "sort (map (\<lambda>v. \<bar>v - med\<bar>) xs) ! (length xs div 2) < d"
proof -
  let ?mad = "sort (map (\<lambda>v. \<bar>v - med\<bar>) xs) ! (length xs div 2)"
  have up: "x \<le> s * x" if "1 / 10 ^ 12 \<le> x" for x
  proof -
    have "0 \<le> x" using that by (rule order_trans [rotated]) simp
    then show ?thesis using mult_right_mono [OF assms(2), of x] by simp
  qed
  consider "scale = ?mad" "1 / 10 ^ 12 \<le> ?mad" | "?mad < 1 / 10 ^ 12" "1 / 10 ^ 12 \<le> scale"
    | "?mad < 1 / 10 ^ 12" "1 / 10 ^ 9 / 2 \<le> s * scale"
    using assms(1,2) by (auto simp: robust_scale_def Let_def not_le not_less split: if_splits)
  then show ?thesis
  proof cases
    case 1 then show ?thesis using assms(3) [unfolded 1(1)] up [OF 1(2)] by linarith
  next
    case 2 then show ?thesis using assms(3) up [OF 2(2)] by linarith
  next
    case 3 then show ?thesis using assms(3) by simp
  qed
qed

text \<open>C37: Statistical consensus with a threshold of at least one robust deviation flags strictly less than
  half of the peers, is never inconclusive, and attributes exactly when it flags somebody.\<close>

theorem statistical_flags_minority:
  assumes "classify_evidence vals Statistical s = Inr r" "1 \<le> s"
  shows "2 * length (filter (\<lambda>b. b \<noteq> 0) (c3_bitmap r)) < length vals \<and> length (c3_bitmap r) = length vals \<and>
    c3_verdict r = (if \<exists>b \<in> set (c3_bitmap r). b \<noteq> 0 then Attributed else Agree)"
proof -
  let ?n = "length vals"
  let ?med = "sort vals ! (?n div 2)"
  let ?D = "sort (map (\<lambda>v. \<bar>v - ?med\<bar>) (sort vals))"
  have n: "0 < ?n" using assms(1) by (auto simp: classify_evidence_def Let_def split: if_splits)
  consider "c3_bitmap r = replicate ?n 0" "c3_verdict r = Agree" |
    scale where "robust_scale (sort vals) ?med s = Some scale"
      "c3_bitmap r = map (\<lambda>v. if s * scale < \<bar>v - ?med\<bar> then 1 else 0) vals"
      "c3_verdict r = (if \<exists>b \<in> set (c3_bitmap r). b \<noteq> 0 then Attributed else Agree)"
    using assms(1) by (auto simp: classify_evidence_def Let_def split: if_splits option.splits)
  then show ?thesis
  proof cases
    case 1
    then show ?thesis using n by simp
  next
    case 2
    have "length (filter (\<lambda>b. b \<noteq> 0) (c3_bitmap r)) = length (filter (\<lambda>v. s * scale < \<bar>v - ?med\<bar>) vals)"
      by (simp add: 2(2) filter_map comp_def)
    also have "\<dots> \<le> length (filter (\<lambda>v. ?D ! (?n div 2) < \<bar>v - ?med\<bar>) vals)"
      using robust_scale_above_mad [OF 2(1) assms(2)] by (intro length_filter_impl) simp
    also have "\<dots> = length (filter (\<lambda>d. ?D ! (?n div 2) < d) ?D)"
      by (simp add: filter_sort filter_map comp_def)
    also have "\<dots> \<le> ?n - Suc (?n div 2)" using sorted_above [of ?D "?n div 2"] n by simp
    finally have "2 * length (filter (\<lambda>b. b \<noteq> 0) (c3_bitmap r)) < ?n" using n by linarith
    then show ?thesis using 2(2,3) by simp
  qed
qed

section \<open>Examples\<close>

lemma word_of_zero_bytes: "word_of_bytes (replicate n 0) = 0"
  by (induction n) (simp_all add: word_of_bytes_def)

lemma words_of_zero_bytes: "words_of_bytes (replicate (8 * n) 0) = replicate n 0"
proof (induction n)
  case (Suc n)
  have "words_of_bytes (replicate (8 * Suc n) 0) = word_of_bytes (replicate 8 0) # words_of_bytes (replicate (8 * n) 0)"
    by (subst words_of_bytes.simps) simp
  then show ?case using Suc by (simp only: word_of_zero_bytes replicate_Suc)
qed (simp add: words_of_bytes.simps)

lemma words_of_bytes_cons: "length bs = 8 \<Longrightarrow> words_of_bytes (bs @ rest) = word_of_bytes bs # words_of_bytes rest"
  by (subst words_of_bytes.simps) auto

text \<open>A tensor of 1025 zero words, and the same tensor with one word of its first row set.\<close>

definition zero_tensor :: tensor where
  "zero_tensor = \<lparr>t_dtype = ''torch.float64'', t_shape = [1025], t_element_size = 8, t_bytes = replicate (8 * 1025) 0\<rparr>"

definition touched_tensor :: "8 word list \<Rightarrow> tensor" where
  "touched_tensor bs = zero_tensor\<lparr>t_bytes := replicate 8 0 @ bs @ replicate (8 * 1023) 0\<rparr>"

lemma zero_tensor_view: "to_int64_view zero_tensor = replicate 1025 0"
  using words_of_zero_bytes [of 1025] by (simp add: to_int64_view_def zero_tensor_def)

lemma zero_words: "replicate 1025 0 = (0 :: 64 word) # 0 # replicate 1023 0"
proof -
  have "(1025 :: nat) = Suc (Suc 1023)" by simp
  then show ?thesis by (simp only: replicate_Suc)
qed

lemma touched_tensor_view:
  "length bs = 8 \<Longrightarrow> to_int64_view (touched_tensor bs) = (replicate 1025 0)[1 := word_of_bytes bs]"
  using words_of_zero_bytes [of 1023] word_of_zero_bytes [of 8]
  by (simp add: to_int64_view_def touched_tensor_def words_of_bytes_cons zero_words)

lemma touched_tensor_metadata:
  "t_dtype (touched_tensor bs) = t_dtype zero_tensor" "t_shape (touched_tensor bs) = t_shape zero_tensor"
  "t_element_size (touched_tensor bs) = t_element_size zero_tensor"
  by (simp_all add: touched_tensor_def)

theorem single_word_corruption_detected_witness:
  "tensor_signature (touched_tensor [1, 0, 0, 0, 0, 0, 0, 0]) \<noteq> tensor_signature zero_tensor"
proof (rule single_word_corruption_detected [OF touched_tensor_metadata, where j = 1 and x = 1])
  have "word_of_bytes [1, 0, 0, 0, 0, 0, 0, 0] = 1" by (simp add: word_of_bytes_def)
  then show "to_int64_view (touched_tensor [1, 0, 0, 0, 0, 0, 0, 0]) = (to_int64_view zero_tensor)[1 := 1]"
    by (simp add: zero_tensor_view touched_tensor_view)
qed (simp_all add: zero_tensor_view zero_words)

theorem sign_flip_missed_witness:
  "tensor_signature (touched_tensor [0, 0, 0, 0, 0, 0, 0, 128]) = tensor_signature zero_tensor"
proof (rule sign_flip_missed [OF touched_tensor_metadata, where j = 1 and w = 3 and h = 2])
  have "word_of_bytes [0, 0, 0, 0, 0, 0, 0, 128] = push_bit 63 1" by (simp add: word_of_bytes_def)
  then show "to_int64_view (touched_tensor [0, 0, 0, 0, 0, 0, 0, 128]) =
      (to_int64_view zero_tensor)[1 := to_int64_view zero_tensor ! 1 XOR push_bit 63 1]"
    by (simp add: zero_tensor_view touched_tensor_view zero_words)
qed (simp_all add: zero_tensor_view)

theorem exact_consensus_verdict_witness:
  "\<exists>r. classify_evidence [7, 7, 9] Exact 3 = Inr r \<and> c3_bitmap r = [0, 0, 1]"
proof -
  have "[7, 7, 9] \<noteq> ([] :: real list)" by simp
  from exact_consensus_verdict [OF this, of 3] obtain r where r: "classify_evidence [7, 7, 9] Exact 3 = Inr r"
    and flags: "\<forall>m. length [7, 7, 9 :: real] < 2 * count_list [7 :: real, 7, 9] m \<longrightarrow>
      c3_verdict r \<noteq> Inconclusive_c3 \<and> c3_bitmap r = map (\<lambda>v. if v = m then 0 else 1) [7 :: real, 7, 9]" by blast
  from flags [rule_format, of 7] r show ?thesis by simp
qed

theorem statistical_flags_minority_witness:
  "\<exists>r. classify_evidence [1, 1, 1, 1, 9] Statistical 3 = Inr r \<and> c3_bitmap r = [0, 0, 0, 0, 1] \<and> c3_verdict r = Attributed"
proof -
  have ex: "map_sum id c3_bitmap (classify_evidence [1, 1, 1, 1, 9] Statistical 3) = Inr [0, 0, 0, 0, 1]" by code_simp
  obtain r where r: "classify_evidence [1, 1, 1, 1, 9] Statistical 3 = Inr r" "c3_bitmap r = [0, 0, 0, 0, 1]"
    using ex by (cases "classify_evidence [1, 1, 1, 1, 9] Statistical 3") auto
  then show ?thesis using statistical_flags_minority [of "[1, 1, 1, 1, 9]" 3 r] by simp
qed

text \<open>Below one robust deviation the bound fails: the code accepts any positive threshold.\<close>

lemma small_threshold_flags_majority:
  "map_sum id c3_bitmap (classify_evidence [0, 1, 2, 3, 4] Statistical (1 / 2)) = Inr [1, 1, 0, 1, 1]"
  by code_simp

end
