(* ===== verification/Buffer.thy ===== *)
theory Buffer
  imports Consensus
begin

text \<open>
  \<open>lm_resiliency/checkpointing/buffer.py\<close>: the pool of host buffers of the in-memory checkpoint
  manager, two local slots and, when shards are replicated to a peer, two more for the peer's shards.
  The opaque non-tensor skeleton of a checkpoint is a \<open>string\<close>; \<open>torch.empty\<close> is an argument.
\<close>

record tensor_entry =
  te_key_path :: "string list"
  te_shape :: "nat list"
  te_dtype :: string

datatype slot_state = Empty | Copying | Ready | Replicating

record buffer_slot =
  sl_tensors :: "tensor list"
  sl_entries :: "tensor_entry list option"
  sl_step :: int
  sl_state :: slot_state
  sl_non_tensor :: "string option"

definition fresh_slot :: buffer_slot where
  "fresh_slot = \<lparr>sl_tensors = [], sl_entries = None, sl_step = -1, sl_state = Empty, sl_non_tensor = None\<rparr>"

record buffer_pool =
  bp_slots :: "buffer_slot list"
  bp_allocated :: bool
  bp_entries :: "tensor_entry list option"

datatype pool_error = BadSlotCount nat | NoPeerSlots

definition init_pool :: "nat \<Rightarrow> pool_error + buffer_pool" where
  "init_pool num_slots =
     (if num_slots \<notin> {2, 4} then Inl (BadSlotCount num_slots)
      else Inr \<lparr>bp_slots = replicate num_slots fresh_slot, bp_allocated = False, bp_entries = None\<rparr>)"

definition num_slots :: "buffer_pool \<Rightarrow> nat" where
  "num_slots pool = length (bp_slots pool)"

definition own_current :: "buffer_pool \<Rightarrow> buffer_slot" where "own_current pool = bp_slots pool ! 0"

definition own_previous :: "buffer_pool \<Rightarrow> buffer_slot" where "own_previous pool = bp_slots pool ! 1"

definition own_slots :: "buffer_pool \<Rightarrow> buffer_slot list" where "own_slots pool = take 2 (bp_slots pool)"

definition peer_offset :: nat where "peer_offset = 2"

definition peer_current :: "buffer_pool \<Rightarrow> pool_error + buffer_slot" where
  "peer_current pool = (if num_slots pool < 4 then Inl NoPeerSlots else Inr (bp_slots pool ! peer_offset))"

definition peer_previous :: "buffer_pool \<Rightarrow> pool_error + buffer_slot" where
  "peer_previous pool = (if num_slots pool < 4 then Inl NoPeerSlots else Inr (bp_slots pool ! (peer_offset + 1)))"

definition allocate :: "(tensor_entry \<Rightarrow> tensor) \<Rightarrow> tensor_entry list \<Rightarrow> buffer_pool \<Rightarrow> buffer_pool" where
  "allocate empty_tensor entries pool =
     (if bp_allocated pool then pool
      else \<lparr>bp_slots = map (\<lambda>slot. slot\<lparr>sl_tensors := map empty_tensor entries, sl_entries := Some entries\<rparr>) (bp_slots pool),
            bp_allocated = True, bp_entries = Some entries\<rparr>)"

definition swap :: "nat \<Rightarrow> nat \<Rightarrow> 'a list \<Rightarrow> 'a list" where
  "swap i j xs = xs[i := xs ! j, j := xs ! i]"

definition rotate_pool :: "buffer_pool \<Rightarrow> buffer_pool" where
  "rotate_pool pool =
     (let slots = swap 0 1 (bp_slots pool)
      in pool\<lparr>bp_slots := (if 4 \<le> num_slots pool then swap peer_offset (peer_offset + 1) slots else slots)\<rparr>)"

definition latest_own_step :: "buffer_pool \<Rightarrow> int" where
  "latest_own_step pool = Max (sl_step ` set (own_slots pool))"

definition latest_peer_step :: "buffer_pool \<Rightarrow> int" where
  "latest_peer_step pool =
     (if num_slots pool < 4 then -1
      else max (sl_step (bp_slots pool ! peer_offset)) (sl_step (bp_slots pool ! (peer_offset + 1))))"

definition complete_slot :: "buffer_slot \<Rightarrow> bool" where
  "complete_slot slot = (sl_state slot \<in> {Ready, Replicating})"

definition slot_by_step :: "buffer_pool \<Rightarrow> int \<Rightarrow> buffer_slot option" where
  "slot_by_step pool step = find (\<lambda>slot. sl_step slot = step \<and> complete_slot slot) (bp_slots pool)"

definition total_memory_bytes :: "buffer_pool \<Rightarrow> nat" where
  "total_memory_bytes pool =
     (if \<not> bp_allocated pool then 0
      else sum_list (map (\<lambda>slot. sum_list (map (\<lambda>t. numel t * t_element_size t) (sl_tensors slot))) (bp_slots pool)))"

text \<open>Assigning to one slot of the pool.\<close>

definition set_slot :: "nat \<Rightarrow> (buffer_slot \<Rightarrow> buffer_slot) \<Rightarrow> buffer_pool \<Rightarrow> buffer_pool" where
  "set_slot i f pool = pool\<lparr>bp_slots := (bp_slots pool)[i := f (bp_slots pool ! i)]\<rparr>"

end
