(* ===== verification/Disk.thy ===== *)
theory Disk
  imports Buffer "HOL-Library.AList"
begin

text \<open>
  The node-local tier of \<open>lm_resiliency/checkpointing/disk.py\<close>: shards stored per step and rank, their
  checksums, loading with identity and integrity checks, and the scan for the generations on disk.
  A directory maps a step and a rank to the file \<open>step-<step>/rank-<rank>.pt\<close>; a file holds a decoded
  payload or bytes the loader refuses (\<open>Garbage\<close>). CRC-32 of \<open>zlib\<close> is an argument.
\<close>

section \<open>Chunked transfer and checksums\<close>

text \<open>The pieces \<open>buf[off : off + size]\<close> for \<open>off\<close> in \<open>range(0, len(buf), size)\<close>.\<close>

function pieces :: "nat \<Rightarrow> 'a list \<Rightarrow> 'a list list" where
  "pieces n xs = (if xs = [] \<or> n = 0 then [] else take n xs # pieces n (drop n xs))"
  by pat_completeness auto
termination by (relation "measure (\<lambda>(n, xs). length xs)") auto

declare pieces.simps [simp del]

lemma concat_pieces: "0 < n \<Longrightarrow> concat (pieces n xs) = xs"
  by (induction n xs rule: pieces.induct) (subst pieces.simps, simp)

lemma length_pieces: "p \<in> set (pieces n xs) \<Longrightarrow> 0 < length p \<and> length p \<le> n"
proof (induction n xs rule: pieces.induct)
  case (1 n xs)
  then show ?case by (cases "xs = [] \<or> n = 0") (auto simp: pieces.simps [of n xs])
qed

definition shard_checksums :: "(8 word list \<Rightarrow> nat) \<Rightarrow> nat \<Rightarrow> tensor list \<Rightarrow> nat list" where
  "shard_checksums crc chunk_size tensors =
     map (\<lambda>span. crc span mod 2 ^ 32) (concat (map (\<lambda>t. pieces chunk_size (t_bytes t)) tensors))"

section \<open>Shards\<close>

record metadata =
  md_entries :: "tensor_entry list"
  md_non_tensor :: string

record shard =
  sh_run_id :: string
  sh_topology_id :: string
  sh_owner_rank :: int
  sh_step :: int
  sh_metadata :: metadata
  sh_tensors :: "tensor list"
  sh_checksums :: "nat list option"

datatype shard_file = Garbage | Shard shard

record disk =
  dk_files :: "((int \<times> int) \<times> shard_file) list"
  dk_run_id :: string
  dk_topology_id :: string
  dk_rank :: int
  dk_integrity :: bool
  dk_write_error :: bool
  dk_latest_flushed :: int

datatype disk_error =
    BadIdentity string
  | DiskWriteFailed
  | FileNotFound
  | CheckpointFormatError
  | ChecksumMismatch

definition crc_chunk :: nat where "crc_chunk = 64 * 1024 * 1024"

definition init_disk :: "string \<Rightarrow> string \<Rightarrow> int \<Rightarrow> bool \<Rightarrow> ((int \<times> int) \<times> shard_file) list \<Rightarrow> disk_error + disk" where
  "init_disk run_id topology_id rank integrity files =
     rbind (ensure (strip run_id \<noteq> []) (BadIdentity ''run_id'')) (\<lambda>_.
     rbind (ensure (strip topology_id \<noteq> []) (BadIdentity ''topology_id'')) (\<lambda>_.
     Inr \<lparr>dk_files = files, dk_run_id = run_id, dk_topology_id = topology_id, dk_rank = rank,
          dk_integrity = integrity, dk_write_error = False, dk_latest_flushed = -1\<rparr>))"

definition checkpoint_payload ::
  "(8 word list \<Rightarrow> nat) \<Rightarrow> disk \<Rightarrow> metadata \<Rightarrow> tensor list \<Rightarrow> int \<Rightarrow> int \<Rightarrow> shard" where
  "checkpoint_payload crc d metadata tensors owner_rank step =
     \<lparr>sh_run_id = dk_run_id d, sh_topology_id = dk_topology_id d, sh_owner_rank = owner_rank, sh_step = step,
      sh_metadata = metadata, sh_tensors = tensors,
      sh_checksums = (if dk_integrity d then Some (shard_checksums crc crc_chunk tensors) else None)\<rparr>"

definition write_file :: "int \<Rightarrow> int \<Rightarrow> shard_file \<Rightarrow> disk \<Rightarrow> disk" where
  "write_file step rank content d = d\<lparr>dk_files := AList.update (step, rank) content (dk_files d)\<rparr>"

definition save_sync ::
  "(8 word list \<Rightarrow> nat) \<Rightarrow> metadata \<Rightarrow> tensor list \<Rightarrow> int \<Rightarrow> int \<Rightarrow> disk \<Rightarrow> disk" where
  "save_sync crc metadata tensors step rank d =
     (write_file step rank (Shard (checkpoint_payload crc d metadata tensors rank step)) d)
       \<lparr>dk_latest_flushed := max (dk_latest_flushed d) step\<rparr>"

text \<open>\<open>wait\<close> joins the writer and surfaces its error once.\<close>

definition disk_wait :: "disk \<Rightarrow> (disk_error + unit) \<times> disk" where
  "disk_wait d = (if dk_write_error d then (Inl DiskWriteFailed, d\<lparr>dk_write_error := False\<rparr>) else (Inr (), d))"

text \<open>\<open>save_async\<close>: \<open>written\<close> says whether the background write succeeds.\<close>

definition save_async ::
  "(8 word list \<Rightarrow> nat) \<Rightarrow> bool \<Rightarrow> metadata \<Rightarrow> tensor list \<Rightarrow> int \<Rightarrow> disk \<Rightarrow> (disk_error + unit) \<times> disk" where
  "save_async crc written metadata tensors step d =
     (case disk_wait d of
        (Inl e, d1) \<Rightarrow> (Inl e, d1)
      | (Inr _, d1) \<Rightarrow>
          (Inr (),
           if written
           then (write_file step (dk_rank d1) (Shard (checkpoint_payload crc d1 metadata tensors (dk_rank d1) step)) d1)
                  \<lparr>dk_latest_flushed := step\<rparr>
           else d1\<lparr>dk_write_error := True\<rparr>))"

definition load_shard ::
  "(8 word list \<Rightarrow> nat) \<Rightarrow> int \<Rightarrow> int \<Rightarrow> disk \<Rightarrow> disk_error + metadata \<times> tensor list" where
  "load_shard crc step rank d =
     (case map_of (dk_files d) (step, rank) of
        None \<Rightarrow> Inl FileNotFound
      | Some Garbage \<Rightarrow> Inl CheckpointFormatError
      | Some (Shard sh) \<Rightarrow>
          rbind (ensure (sh_run_id sh = dk_run_id d \<and> sh_topology_id sh = dk_topology_id d \<and>
              sh_owner_rank sh = rank \<and> sh_step sh = step) CheckpointFormatError) (\<lambda>_.
          rbind (if dk_integrity d
                 then ensure (sh_checksums sh = Some (shard_checksums crc crc_chunk (sh_tensors sh))) ChecksumMismatch
                 else Inr ()) (\<lambda>_.
          Inr (sh_metadata sh, sh_tensors sh))))"

definition has_rank :: "int \<Rightarrow> int \<Rightarrow> disk \<Rightarrow> bool" where
  "has_rank step rank d = (map_of (dk_files d) (step, rank) \<noteq> None)"

text \<open>Directory names match \<open>step-(\d+)\<close>, so only steps from zero up are found.\<close>

definition find_steps_on_disk :: "int \<Rightarrow> int option \<Rightarrow> disk \<Rightarrow> int list" where
  "find_steps_on_disk rank before_step d =
     rev (sorted_set (map (\<lambda>((step, r), f). step) (filter (\<lambda>((step, r), f). r = rank \<and> 0 \<le> step \<and>
       (case before_step of None \<Rightarrow> True | Some b \<Rightarrow> step < b)) (dk_files d))))"

definition find_latest_on_disk :: "int option \<Rightarrow> disk \<Rightarrow> int" where
  "find_latest_on_disk before_step d =
     (case find_steps_on_disk (dk_rank d) before_step d of [] \<Rightarrow> -1 | step # _ \<Rightarrow> step)"

definition cleanup_older_than :: "int \<Rightarrow> disk \<Rightarrow> disk" where
  "cleanup_older_than keep_step d =
     d\<lparr>dk_files := filter (\<lambda>((step, rank), f). \<not> (0 \<le> step \<and> step < keep_step)) (dk_files d)\<rparr>"

section \<open>The newest generation on every rank\<close>

text \<open>
  \<open>InMemoryCheckpointManager._consistent_step\<close> runs on all ranks at once: \<open>_collective_min_step\<close> gives every
  rank the minimum of what the ranks contribute, so one value stands for the candidate of all of them.
\<close>

definition collective_min_step :: "int list \<Rightarrow> int" where
  "collective_min_step contributions = (case contributions of [] \<Rightarrow> -1 | x # xs \<Rightarrow> foldl min x xs)"

definition agreed_below :: "disk list \<Rightarrow> int \<Rightarrow> int" where
  "agreed_below disks candidate =
     collective_min_step (map (\<lambda>d. if has_rank candidate (dk_rank d) d then candidate
        else find_latest_on_disk (Some candidate) d) disks)"

lemma foldl_min: "foldl min (x :: int) xs = Min (insert x (set xs))"
proof (induction xs arbitrary: x)
  case (Cons a xs)
  then show ?case by (cases "xs = []") (auto simp: min.assoc)
qed simp

lemma collective_min_step_Min: "cs \<noteq> [] \<Longrightarrow> collective_min_step cs = Min (set cs)"
  by (cases cs) (simp_all add: collective_min_step_def foldl_min)

lemma latest_below: "0 < c \<Longrightarrow> find_latest_on_disk (Some c) d < c"
proof -
  assume c: "0 < c"
  have "s < c" if "s \<in> set (find_steps_on_disk (dk_rank d) (Some c) d)" for s
    using that by (auto simp: find_steps_on_disk_def)
  then show ?thesis using c by (auto simp: find_latest_on_disk_def split: list.splits)
qed

lemma agreed_below_le: "0 < c \<Longrightarrow> agreed_below disks c \<le> c"
proof (cases disks)
  case (Cons d ds)
  let ?cs = "map (\<lambda>d. if has_rank c (dk_rank d) d then c else find_latest_on_disk (Some c) d) disks"
  assume "0 < c"
  then have "hd ?cs \<le> c" using Cons latest_below [of c d] by auto
  moreover have "collective_min_step ?cs \<le> hd ?cs" using Cons by (simp add: collective_min_step_Min)
  ultimately show ?thesis by (simp add: agreed_below_def)
qed (simp add: agreed_below_def collective_min_step_def)

function descend_to_common :: "disk list \<Rightarrow> int \<Rightarrow> int" where
  "descend_to_common disks candidate =
     (if candidate \<le> 0 then -1
      else let agreed = agreed_below disks candidate
           in if agreed = candidate then candidate else descend_to_common disks agreed)"
  by pat_completeness auto
termination
proof (relation "measure (\<lambda>(disks, candidate). nat candidate)")
  fix disks :: "disk list" and candidate agreed :: int
  assume "\<not> candidate \<le> 0" "agreed = agreed_below disks candidate" "agreed \<noteq> candidate"
  then show "((disks, agreed), disks, candidate) \<in> measure (\<lambda>(disks, candidate). nat candidate)"
    using agreed_below_le [of candidate disks] by auto
qed simp

declare descend_to_common.simps [simp del]

definition consistent_step :: "disk list \<Rightarrow> int option \<Rightarrow> int" where
  "consistent_step disks before_step =
     descend_to_common disks (collective_min_step (map (find_latest_on_disk before_step) disks))"

section \<open>Correctness of the descent\<close>

lemma collective_min_ge: "ds \<noteq> [] \<Longrightarrow> (\<And>d. d \<in> set ds \<Longrightarrow> s \<le> g d) \<Longrightarrow> s \<le> collective_min_step (map g ds)"
  by (simp add: collective_min_step_Min)

lemma collective_min_le: "d \<in> set ds \<Longrightarrow> collective_min_step (map g ds) \<le> g d"
  by (subst collective_min_step_Min) auto

lemma has_rank_listed:
  "s \<in> set (find_steps_on_disk (dk_rank d) b d) \<longleftrightarrow>
     0 \<le> s \<and> has_rank s (dk_rank d) d \<and> (case b of None \<Rightarrow> True | Some b \<Rightarrow> s < b)"
proof -
  have "has_rank s (dk_rank d) d \<longleftrightarrow> (\<exists>f. ((s, dk_rank d), f) \<in> set (dk_files d))"
    by (force simp: has_rank_def map_of_eq_None_iff)
  then show ?thesis by (auto simp: find_steps_on_disk_def image_iff split: prod.splits)
qed

lemma find_latest_max:
  assumes "0 \<le> s" "has_rank s (dk_rank d) d" "case b of None \<Rightarrow> True | Some b \<Rightarrow> s < b"
  shows "s \<le> find_latest_on_disk b d"
proof -
  have s: "s \<in> set (find_steps_on_disk (dk_rank d) b d)" using assms by (simp add: has_rank_listed)
  have "sorted (rev (find_steps_on_disk (dk_rank d) b d))" by (simp add: find_steps_on_disk_def)
  then have "s' \<le> hd (find_steps_on_disk (dk_rank d) b d)" if "s' \<in> set (find_steps_on_disk (dk_rank d) b d)" for s'
    using that by (cases "find_steps_on_disk (dk_rank d) b d") (auto simp: sorted_append)
  then show ?thesis using s by (auto simp: find_latest_on_disk_def split: list.splits)
qed

lemma find_latest_listed:
  "find_latest_on_disk b d = -1 \<or> find_latest_on_disk b d \<in> set (find_steps_on_disk (dk_rank d) b d)"
  by (auto simp: find_latest_on_disk_def split: list.splits)

definition on_every_rank :: "disk list \<Rightarrow> int \<Rightarrow> bool" where
  "on_every_rank disks s \<longleftrightarrow> 0 < s \<and> (\<forall>d \<in> set disks. has_rank s (dk_rank d) d)"

lemma agreed_below_bound:
  assumes "disks \<noteq> []" "on_every_rank disks s" "s \<le> c"
  shows "s \<le> agreed_below disks c"
proof -
  have "s \<le> (if has_rank c (dk_rank d) d then c else find_latest_on_disk (Some c) d)" if "d \<in> set disks" for d
    using assms that find_latest_max [of s d "Some c"] by (force simp: on_every_rank_def order_le_less)
  then show ?thesis unfolding agreed_below_def by (rule collective_min_ge [OF assms(1)])
qed

lemma agreed_below_eq:
  assumes "disks \<noteq> []" "0 < c"
  shows "agreed_below disks c = c \<longleftrightarrow> on_every_rank disks c"
proof
  assume "on_every_rank disks c"
  then show "agreed_below disks c = c"
    using agreed_below_bound [OF assms(1), of c c] agreed_below_le [OF assms(2), of disks] by simp
next
  assume eq: "agreed_below disks c = c"
  let ?g = "\<lambda>d. if has_rank c (dk_rank d) d then c else find_latest_on_disk (Some c) d"
  have "agreed_below disks c \<le> ?g d" if "d \<in> set disks" for d
    unfolding agreed_below_def by (rule collective_min_le [OF that])
  then have "c \<le> ?g d" if "d \<in> set disks" for d using eq that by simp
  then have "has_rank c (dk_rank d) d" if "d \<in> set disks" for d
    using that latest_below [OF assms(2), of d] by (metis not_le)
  then show "on_every_rank disks c" using assms(2) by (simp add: on_every_rank_def)
qed

lemma finite_common: "disks \<noteq> [] \<Longrightarrow> finite {s. on_every_rank disks s}"
proof -
  assume "disks \<noteq> []"
  then have "{s. on_every_rank disks s} \<subseteq> set (find_steps_on_disk (dk_rank (hd disks)) None (hd disks))"
    by (auto simp: on_every_rank_def has_rank_listed)
  then show ?thesis using finite_set finite_subset by blast
qed

lemma descend_to_common_max:
  assumes "disks \<noteq> []"
  shows "descend_to_common disks c = Max (insert (-1) {s. on_every_rank disks s \<and> s \<le> c})"
  using assms
proof (induction disks c rule: descend_to_common.induct)
  case (1 disks c)
  have fin: "finite {s. on_every_rank disks s \<and> s \<le> c}" using finite_common [OF 1(2)] by (rule finite_subset [rotated]) auto
  consider "c \<le> 0" | "0 < c" "agreed_below disks c = c" | "0 < c" "agreed_below disks c \<noteq> c" by linarith
  then show ?case
  proof cases
    case 1
    then have none: "{s. on_every_rank disks s \<and> s \<le> c} = {}" by (auto simp: on_every_rank_def)
    show ?thesis unfolding none using 1 by (simp add: descend_to_common.simps)
  next
    case 2
    then have "on_every_rank disks c" using agreed_below_eq [OF 1(2)] by simp
    then have "Max (insert (-1) {s. on_every_rank disks s \<and> s \<le> c}) = c"
      using fin 2(1) by (intro Max_eqI) auto
    then show ?thesis using 2 by (simp add: descend_to_common.simps)
  next
    case 3
    have "on_every_rank disks s \<and> s \<le> c \<longleftrightarrow> on_every_rank disks s \<and> s \<le> agreed_below disks c" for s
      using agreed_below_bound [OF 1(2), of s c] agreed_below_le [OF 3(1), of disks] by auto
    moreover have "descend_to_common disks c = descend_to_common disks (agreed_below disks c)"
      using 3 by (subst descend_to_common.simps) simp
    ultimately show ?thesis using 1(1) [OF _ refl 3(2) 1(2)] 3(1) by simp
  qed
qed

section \<open>Properties of the disk tier\<close>

text \<open>The collective descent of \<open>_consistent_step\<close> terminates with exactly the newest positive step below
  the bound whose shard file is present on every rank, and with -1 when there is none.\<close>

theorem consistent_step_newest_common:
  assumes "disks \<noteq> []"
  shows "consistent_step disks bound = Max (insert (-1) {s. 0 < s \<and> (\<forall>b. bound = Some b \<longrightarrow> s < b) \<and>
    (\<forall>d \<in> set disks. has_rank s (dk_rank d) d)})"
proof -
  let ?c = "collective_min_step (map (find_latest_on_disk bound) disks)"
  have "s \<le> ?c \<longleftrightarrow> (\<forall>b. bound = Some b \<longrightarrow> s < b)" if s: "on_every_rank disks s" for s
  proof
    assume "s \<le> ?c"
    then have "s \<le> find_latest_on_disk bound (hd disks)"
      using collective_min_le [of "hd disks" disks "find_latest_on_disk bound"] assms by simp
    moreover have "0 < s" using s by (simp add: on_every_rank_def)
    ultimately show "\<forall>b. bound = Some b \<longrightarrow> s < b"
      using find_latest_listed [of bound "hd disks"] by (auto simp: has_rank_listed)
  next
    assume "\<forall>b. bound = Some b \<longrightarrow> s < b"
    then have "s \<le> find_latest_on_disk bound d" if "d \<in> set disks" for d
      using s that find_latest_max [of s d bound] by (auto simp: on_every_rank_def split: option.splits)
    then show "s \<le> ?c" by (rule collective_min_ge [OF assms])
  qed
  then have "{s. on_every_rank disks s \<and> s \<le> ?c} = {s. 0 < s \<and> (\<forall>b. bound = Some b \<longrightarrow> s < b) \<and>
      (\<forall>d \<in> set disks. has_rank s (dk_rank d) d)}" by (auto simp: on_every_rank_def)
  then show ?thesis unfolding consistent_step_def descend_to_common_max [OF assms] by simp
qed

definition example_disk :: "int \<Rightarrow> int list \<Rightarrow> disk" where
  "example_disk rank steps = \<lparr>dk_files = map (\<lambda>s. ((s, rank), Garbage)) steps, dk_run_id = ''run'',
     dk_topology_id = ''topology'', dk_rank = rank, dk_integrity = False, dk_write_error = False, dk_latest_flushed = -1\<rparr>"

theorem consistent_step_newest_common_witness:
  "consistent_step [example_disk 0 [10, 20, 30], example_disk 1 [10, 20, 25]] None = 20"
proof -
  let ?disks = "[example_disk 0 [10, 20, 30], example_disk 1 [10, 20, 25]]"
  have "?disks \<noteq> []" by simp
  moreover have "{s. 0 < s \<and> (\<forall>b. None = Some b \<longrightarrow> s < b) \<and> (\<forall>d \<in> set ?disks. has_rank s (dk_rank d) d)} = {10, 20}"
    by (auto simp: has_rank_def example_disk_def split: if_splits)
  ultimately show ?thesis using consistent_step_newest_common [of ?disks None] by simp
qed

text \<open>A shard saved on a disk is loaded back exactly, and nothing changes under another step or rank.\<close>

lemma load_saved_shard:
  "load_shard crc step rank (save_sync crc md ts step0 rank0 d) =
     (if (step, rank) = (step0, rank0) then Inr (md, ts) else load_shard crc step rank d)"
  by (auto simp: load_shard_def save_sync_def write_file_def checkpoint_payload_def update_conv'
      split: option.splits shard_file.splits)

lemma has_rank_saved: "has_rank step rank (save_sync crc md ts step0 rank0 d) \<longleftrightarrow> (step, rank) = (step0, rank0) \<or> has_rank step rank d"
  by (auto simp: has_rank_def save_sync_def write_file_def update_conv')

end
