(* ===== verification/Replication.thy ===== *)
theory Replication
  imports Disk
begin

text \<open>
  \<open>lm_resiliency/checkpointing/replication.py\<close>: pairing of ranks, the message sequences of the Gloo
  backends and the replicator that drives one exchange. A channel is the list of messages one rank
  has sent to its peer; what \<open>dist.recv\<close> delivers is its head. The JSON text of a tensor layout
  with its length prefix stands for the layout. The size of a torch dtype, \<open>None\<close> for a name that is none, is an argument.
\<close>

section \<open>Chunk size and pairing\<close>

definition estimate_chunk_size :: "real \<Rightarrow> real \<Rightarrow> real \<Rightarrow> real \<Rightarrow> int" where
  "estimate_chunk_size nic_bandwidth_gbps layer_compute_ms ag_time_ms max_ag_delay_fraction =
     (let nic_bw_bytes_per_ms = (nic_bandwidth_gbps / 8) * 10 ^ 9 / 1000;
          prefetch_buffer_ms = layer_compute_ms - ag_time_ms
      in if prefetch_buffer_ms \<le> 0 then 64 * 1024
         else let max_delay_ms = prefetch_buffer_ms * max_ag_delay_fraction;
                  chunk_bytes = (let x = max_delay_ms * nic_bw_bytes_per_ms in if x < 0 then \<lceil>x\<rceil> else \<lfloor>x\<rfloor>);
                  min_chunk = 64 * 1024; max_chunk = 64 * 1024 * 1024
              in max min_chunk (min chunk_bytes max_chunk))"

datatype backend_error = BadJump int | IndivisibleWorld int int | BadChunkSize int | RankNotPaired

record gloo_backend =
  gb_rank :: int
  gb_world_size :: int
  gb_jump :: int
  gb_peer_rank :: int
  gb_group :: "int \<times> int"

definition compute_peer_rank :: "int \<Rightarrow> int \<Rightarrow> int" where
  "compute_peer_rank jump rank =
     (let segment_size = jump * 2;
          segment_start = (rank div segment_size) * segment_size;
          offset_in_segment = rank - segment_start
      in if offset_in_segment < jump then rank + jump else rank - jump)"

text \<open>The pairs for which process groups are created, in that order on every rank.\<close>

definition replication_pairs :: "int \<Rightarrow> int \<Rightarrow> (int \<times> int) list" where
  "replication_pairs jump world_size =
     concat (map (\<lambda>k. map (\<lambda>offset. (k * (jump * 2) + offset, k * (jump * 2) + offset + jump)) [0..jump - 1])
       [0..(world_size + jump * 2 - 1) div (jump * 2) - 1])"

definition create_group :: "int \<Rightarrow> int \<Rightarrow> int \<Rightarrow> backend_error + int \<times> int" where
  "create_group jump world_size rank =
     (case filter (\<lambda>(a, b). rank \<in> {a, b}) (replication_pairs jump world_size) of
        [] \<Rightarrow> Inl RankNotPaired | ps \<Rightarrow> Inr (List.last ps))"

definition init_backend :: "int \<Rightarrow> int \<Rightarrow> int \<Rightarrow> backend_error + gloo_backend" where
  "init_backend jump world_size rank =
     rbind (ensure (0 < jump) (BadJump jump)) (\<lambda>_.
     rbind (ensure (world_size mod (jump * 2) = 0) (IndivisibleWorld world_size jump)) (\<lambda>_.
     rbind (create_group jump world_size rank) (\<lambda>group.
     Inr \<lparr>gb_rank = rank, gb_world_size = world_size, gb_jump = jump,
          gb_peer_rank = compute_peer_rank jump rank, gb_group = group\<rparr>)))"

definition init_chunked_backend :: "int \<Rightarrow> int \<Rightarrow> int \<Rightarrow> int \<Rightarrow> backend_error + gloo_backend" where
  "init_chunked_backend jump chunk_size world_size rank =
     rbind (ensure (0 < chunk_size) (BadChunkSize chunk_size)) (\<lambda>_. init_backend jump world_size rank)"

section \<open>Messages\<close>

type_synonym layout = "(nat list \<times> string) list"

datatype message = StepMsg int | LengthMsg nat | MetaMsg string | LayoutMsg layout | DataMsg "8 word list"

datatype recv_error = UnexpectedMessage | UnsupportedDtype string

definition tensor_layout :: "tensor list \<Rightarrow> layout" where
  "tensor_layout tensors = map (\<lambda>t. (t_shape t, t_dtype t)) tensors"

definition send_bytes :: "string \<Rightarrow> message list" where
  "send_bytes blob = LengthMsg (length blob) # (if blob \<noteq> [] then [MetaMsg blob] else [])"

fun recv_bytes :: "message list \<Rightarrow> recv_error + string \<times> message list" where
  "recv_bytes (LengthMsg n # ms) =
     (if n = 0 then Inr ([], ms)
      else case ms of MetaMsg blob # rest \<Rightarrow> (if length blob = n then Inr (blob, rest) else Inl UnexpectedMessage)
         | _ \<Rightarrow> Inl UnexpectedMessage)"
| "recv_bytes _ = Inl UnexpectedMessage"

definition send_header :: "tensor list \<Rightarrow> int \<Rightarrow> string \<Rightarrow> message list" where
  "send_header tensors step meta = StepMsg step # send_bytes meta @ [LayoutMsg (tensor_layout tensors)]"

text \<open>\<open>fresh\<close> gives the contents of newly allocated memory.\<close>

definition prepare_receive_buffers ::
  "(string \<Rightarrow> nat option) \<Rightarrow> (nat \<Rightarrow> 8 word list) \<Rightarrow> tensor list \<Rightarrow> layout \<Rightarrow> recv_error + tensor list" where
  "prepare_receive_buffers dtype_size fresh buffers lay =
     (if tensor_layout buffers = lay then Inr buffers
      else rmap (\<lambda>(shape, dtype). case dtype_size dtype of
             None \<Rightarrow> Inl (UnsupportedDtype dtype)
           | Some esize \<Rightarrow> Inr \<lparr>t_dtype = dtype, t_shape = shape, t_element_size = esize,
                              t_bytes = fresh (prod_list shape * esize)\<rparr>) lay)"

fun recv_header ::
  "(string \<Rightarrow> nat option) \<Rightarrow> (nat \<Rightarrow> 8 word list) \<Rightarrow> tensor list \<Rightarrow> message list \<Rightarrow>
     recv_error + (int \<times> string \<times> tensor list) \<times> message list" where
  "recv_header dtype_size fresh buffers (StepMsg step # ms) =
     rbind (recv_bytes ms) (\<lambda>(meta, ms1).
     case ms1 of
       LayoutMsg lay # ms2 \<Rightarrow>
         rbind (prepare_receive_buffers dtype_size fresh buffers lay) (\<lambda>bufs. Inr ((step, meta, bufs), ms2))
     | _ \<Rightarrow> Inl UnexpectedMessage)"
| "recv_header dtype_size fresh buffers _ = Inl UnexpectedMessage"

definition gloo_send :: "tensor list \<Rightarrow> int \<Rightarrow> string \<Rightarrow> message list" where
  "gloo_send tensors step meta = send_header tensors step meta @ map (\<lambda>t. DataMsg (t_bytes t)) tensors"

definition chunk_elems :: "nat \<Rightarrow> tensor \<Rightarrow> nat" where
  "chunk_elems chunk_size t = max 1 (chunk_size div t_element_size t)"

text \<open>The loop \<open>while offset < flat.numel()\<close> of the chunked backend, elements \<open>offset\<close> to \<open>end\<close> at a time.\<close>

function send_chunks :: "nat \<Rightarrow> tensor \<Rightarrow> nat \<Rightarrow> message list" where
  "send_chunks chunk_size t offset =
     (if offset < numel t
      then let stop = min (offset + chunk_elems chunk_size t) (numel t); esize = t_element_size t
           in DataMsg (take ((stop - offset) * esize) (drop (offset * esize) (t_bytes t))) # send_chunks chunk_size t stop
      else [])"
  by pat_completeness auto
termination by (relation "measure (\<lambda>(chunk_size, t, offset). numel t - offset)") (auto simp: chunk_elems_def)

declare send_chunks.simps [simp del]

function recv_chunks :: "nat \<Rightarrow> tensor \<Rightarrow> nat \<Rightarrow> message list \<Rightarrow> recv_error + tensor \<times> message list" where
  "recv_chunks chunk_size t offset ms =
     (if offset < numel t
      then let stop = min (offset + chunk_elems chunk_size t) (numel t); esize = t_element_size t
           in case ms of
                DataMsg bs # rest \<Rightarrow>
                  if length bs = (stop - offset) * esize
                  then recv_chunks chunk_size (t\<lparr>t_bytes := take (offset * esize) (t_bytes t) @ bs @ drop (stop * esize) (t_bytes t)\<rparr>) stop rest
                  else Inl UnexpectedMessage
              | _ \<Rightarrow> Inl UnexpectedMessage
      else Inr (t, ms))"
  by pat_completeness auto
termination by (relation "measure (\<lambda>(chunk_size, t, offset, ms). numel t - offset)") (auto simp: chunk_elems_def numel_def)

declare recv_chunks.simps [simp del]

fun recv_all :: "(tensor \<Rightarrow> message list \<Rightarrow> recv_error + tensor \<times> message list) \<Rightarrow> tensor list \<Rightarrow> message list \<Rightarrow>
    recv_error + tensor list \<times> message list" where
  "recv_all f [] ms = Inr ([], ms)"
| "recv_all f (b # bs) ms = rbind (f b ms) (\<lambda>(t, ms1). rbind (recv_all f bs ms1) (\<lambda>(ts, ms2). Inr (t # ts, ms2)))"

definition chunked_send :: "nat \<Rightarrow> tensor list \<Rightarrow> int \<Rightarrow> string \<Rightarrow> message list" where
  "chunked_send chunk_size tensors step meta =
     send_header tensors step meta @ concat (map (\<lambda>t. send_chunks chunk_size t 0) tensors)"

definition chunked_recv ::
  "(string \<Rightarrow> nat option) \<Rightarrow> (nat \<Rightarrow> 8 word list) \<Rightarrow> nat \<Rightarrow> tensor list \<Rightarrow> message list \<Rightarrow>
     recv_error + (int \<times> string \<times> tensor list) \<times> message list" where
  "chunked_recv dtype_size fresh chunk_size buffers ms =
     rbind (recv_header dtype_size fresh buffers ms) (\<lambda>((step, meta, bufs), ms1).
     rbind (recv_all (\<lambda>b ms. recv_chunks chunk_size b 0 ms) bufs ms1) (\<lambda>(ts, ms2). Inr ((step, meta, ts), ms2)))"

fun recv_whole :: "tensor \<Rightarrow> message list \<Rightarrow> recv_error + tensor \<times> message list" where
  "recv_whole b (DataMsg bs # ms) =
     (if length bs = length (t_bytes b) then Inr (b\<lparr>t_bytes := bs\<rparr>, ms) else Inl UnexpectedMessage)"
| "recv_whole b _ = Inl UnexpectedMessage"

definition gloo_recv ::
  "(string \<Rightarrow> nat option) \<Rightarrow> (nat \<Rightarrow> 8 word list) \<Rightarrow> tensor list \<Rightarrow> message list \<Rightarrow>
     recv_error + (int \<times> string \<times> tensor list) \<times> message list" where
  "gloo_recv dtype_size fresh buffers ms =
     rbind (recv_header dtype_size fresh buffers ms) (\<lambda>((step, meta, bufs), ms1).
     rbind (recv_all recv_whole bufs ms1) (\<lambda>(ts, ms2). Inr ((step, meta, ts), ms2)))"

section \<open>Pairing\<close>

lemma int_div_less: "0 < d \<Longrightarrow> x < n * d \<Longrightarrow> x div d < (n :: int)"
proof (rule ccontr)
  assume d: "0 < d" "x < n * d" "\<not> x div d < n"
  then have "n * d \<le> x div d * d" by (simp add: mult_right_mono)
  moreover have "x div d * d \<le> x" using d(1) div_mult_mod_eq [of x d] pos_mod_sign [of d x] by linarith
  ultimately show False using d(2) by linarith
qed

lemma peer_block:
  assumes "0 < j" "rank = q * (j * 2) + r" "0 \<le> r" "r < j * 2"
  shows "compute_peer_rank j rank = (if r < j then rank + j else rank - j)"
proof -
  have "rank div (j * 2) = q" using assms by simp
  then show ?thesis using assms(2) by (simp add: compute_peer_rank_def)
qed

lemma pair_unique:
  fixes j r r' q q' k :: int
  assumes "0 < j" "0 \<le> r" "r < j" "0 \<le> r'" "r' < j"
    and "k \<in> {q * (j * 2) + r, q * (j * 2) + r + j}" "k \<in> {q' * (j * 2) + r', q' * (j * 2) + r' + j}"
  shows "q = q' \<and> r = r'"
proof -
  have "k div (j * 2) = q" "k div (j * 2) = q'"
    using assms int_div_pos_eq [of k "j * 2" q "k - q * (j * 2)"] int_div_pos_eq [of k "j * 2" q' "k - q' * (j * 2)"]
    by (auto simp: mult.commute)
  then show ?thesis using assms by auto
qed

lemma replication_pair_iff:
  assumes "0 < j" "world mod (j * 2) = 0"
  shows "(a, b) \<in> set (replication_pairs j world) \<longleftrightarrow>
    (\<exists>q r. 0 \<le> q \<and> q < world div (j * 2) \<and> 0 \<le> r \<and> r < j \<and> a = q * (j * 2) + r \<and> b = a + j)"
proof -
  obtain n where n: "world = n * (j * 2)" using assms(2) by (metis mod_0_imp_dvd dvd_def mult.commute)
  have "(world + j * 2 - 1) div (j * 2) = n"
    using assms(1) int_div_pos_eq [of "world + j * 2 - 1" "j * 2" n "j * 2 - 1"] by (simp add: n algebra_simps)
  then show ?thesis using assms(1) by (force simp: replication_pairs_def n)
qed

text \<open>For every rank of a world divisible into segments of twice the jump, the backend pairs it with a
  different rank of the same world; pairing is symmetric, and both ends of a pair keep the same process
  group, which has exactly the two of them.\<close>

theorem replication_pairing:
  assumes "0 < jump" "world mod (jump * 2) = 0" "0 \<le> rank" "rank < world" "peer = compute_peer_rank jump rank"
  shows "0 \<le> peer \<and> peer < world \<and> peer \<noteq> rank \<and> compute_peer_rank jump peer = rank \<and>
    (\<exists>b b'. init_backend jump world rank = Inr b \<and> init_backend jump world peer = Inr b' \<and>
       gb_peer_rank b = peer \<and> gb_peer_rank b' = rank \<and> gb_group b = gb_group b' \<and>
       {fst (gb_group b), snd (gb_group b)} = {rank, peer})"
proof -
  define q where "q = rank div (jump * 2)"
  define r where "r = rank mod (jump * 2)"
  have rank: "rank = q * (jump * 2) + r" unfolding q_def r_def by (rule div_mult_mod_eq [symmetric])
  have r: "0 \<le> r" "r < jump * 2" using assms(1) by (simp_all add: r_def)
  obtain n where n: "world = n * (jump * 2)" using assms(2) by (metis mod_0_imp_dvd dvd_def mult.commute)
  have q: "0 \<le> q" "q < n"
    using assms(1,3,4) by (simp_all add: q_def n pos_imp_zdiv_nonneg_iff int_div_less)
  have peer: "peer = (if r < jump then rank + jump else rank - jump)"
    using assms(5) peer_block [OF assms(1) rank r] by simp
  have again: "compute_peer_rank jump peer = rank"
    using peer_block [OF assms(1), of peer q "if r < jump then r + jump else r - jump"] assms(1) rank r peer
    by (simp add: add.assoc [symmetric] add_diff_eq split: if_splits)
  define base where "base = (if r < jump then rank else peer)"
  obtain r0 where r0: "base = q * (jump * 2) + r0" "0 \<le> r0" "r0 < jump" and ends: "{rank, peer} = {base, base + jump}"
    using rank r peer assms(1) by (cases "r < jump") (auto simp: base_def)
  have pair: "(a, b) \<in> set (replication_pairs jump world) \<and> k \<in> {a, b} \<longleftrightarrow> (a, b) = (base, base + jump)"
    if "k \<in> {rank, peer}" for a b k
  proof
    assume "(a, b) \<in> set (replication_pairs jump world) \<and> k \<in> {a, b}"
    then obtain q' r' where p: "0 \<le> r'" "r' < jump" "a = q' * (jump * 2) + r'" "b = a + jump" "k \<in> {a, b}"
      unfolding replication_pair_iff [OF assms(1,2)] by blast
    have "q = q' \<and> r0 = r'"
      by (rule pair_unique [OF assms(1) r0(2,3) p(1,2), of k]) (use that p(3-5) ends r0(1) in auto)
    then show "(a, b) = (base, base + jump)" using p(3,4) r0(1) by simp
  next
    assume "(a, b) = (base, base + jump)"
    moreover have "world div (jump * 2) = n" using assms(1) by (simp add: n)
    ultimately show "(a, b) \<in> set (replication_pairs jump world) \<and> k \<in> {a, b}"
      using that ends r0 q unfolding replication_pair_iff [OF assms(1,2)] by blast
  qed
  have group: "create_group jump world k = Inr (base, base + jump)" if "k \<in> {rank, peer}" for k
  proof -
    let ?ps = "filter (\<lambda>(a, b). k \<in> {a, b}) (replication_pairs jump world)"
    have "set ?ps = {(base, base + jump)}" using pair [OF that] by auto
    then have "?ps \<noteq> []" "List.last ?ps = (base, base + jump)"
      by (metis empty_set insert_not_empty, metis empty_set insert_not_empty last_in_set singletonD)
    then obtain p ps where "?ps = p # ps" "List.last (p # ps) = (base, base + jump)" by (metis neq_Nil_conv)
    then show ?thesis unfolding create_group_def by (simp only: list.case)
  qed
  have "q * (jump * 2) + jump * 2 \<le> n * (jump * 2)"
    using q(2) assms(1) mult_right_mono [of "q + 1" n "jump * 2"] by (simp add: algebra_simps)
  moreover have "0 \<le> q * (jump * 2)" using q(1) assms(1) by simp
  ultimately have "0 \<le> peer" "peer < world"
    using peer rank r assms(1) unfolding n by (cases "r < jump"; simp only: if_True if_False; linarith)+
  then show ?thesis
    using peer again group ends assms(1,2,5) by (auto simp: init_backend_def)
qed

section \<open>Transfer\<close>

lemma recv_send_chunks:
  assumes "tensor_ok t" "offset \<le> numel t" "t_shape b = t_shape t" "t_element_size b = t_element_size t"
    and "length (t_bytes b) = length (t_bytes t)"
    and "take (offset * t_element_size t) (t_bytes b) = take (offset * t_element_size t) (t_bytes t)"
  shows "recv_chunks c b offset (send_chunks c t offset @ ms) = Inr (b\<lparr>t_bytes := t_bytes t\<rparr>, ms)"
  using assms
proof (induction c t offset arbitrary: b rule: send_chunks.induct)
  case (1 c t offset)
  let ?e = "t_element_size t"
  have same: "numel b = numel t" "chunk_elems c b = chunk_elems c t" "length (t_bytes t) = numel t * ?e"
    using 1(2,4,5) by (simp_all add: numel_def chunk_elems_def tensor_ok_def)
  show ?case
  proof (cases "offset < numel t")
    case False
    then have "take (numel t * ?e) (t_bytes b) = take (numel t * ?e) (t_bytes t)" using 1(3,7) by simp
    then have "t_bytes b = t_bytes t" using 1(6) same(3) by simp
    then show ?thesis using False same(1) by (simp add: send_chunks.simps [of c t] recv_chunks.simps [of c b])
  next
    case True
    define stop where "stop = min (offset + chunk_elems c t) (numel t)"
    let ?bs = "take ((stop - offset) * ?e) (drop (offset * ?e) (t_bytes t))"
    let ?b = "b\<lparr>t_bytes := take (offset * ?e) (t_bytes b) @ ?bs @ drop (stop * ?e) (t_bytes b)\<rparr>"
    have stop: "offset \<le> stop" "stop \<le> numel t" using True by (simp_all add: stop_def)
    have e: "offset * ?e + (stop - offset) * ?e = stop * ?e" using stop(1) by (simp add: diff_mult_distrib)
    have fits: "stop * ?e \<le> length (t_bytes t)" using stop(2) same(3) by (simp add: mult_le_mono1)
    have bs: "length ?bs = (stop - offset) * ?e" using fits e by simp
    have written: "take (offset * ?e) (t_bytes b) @ ?bs = take (stop * ?e) (t_bytes t)"
      using 1(7) e by (simp add: take_add [symmetric])
    have "recv_chunks c b offset (send_chunks c t offset @ ms) = recv_chunks c ?b stop (send_chunks c t stop @ ms)"
      using True same(1,2) bs 1(5) by (subst recv_chunks.simps, subst send_chunks.simps) (simp add: Let_def stop_def)
    also have "\<dots> = Inr (?b\<lparr>t_bytes := t_bytes t\<rparr>, ms)"
    proof (rule 1(1) [OF True])
      show "take (stop * ?e) (t_bytes ?b) = take (stop * ?e) (t_bytes t)"
        using fits by (simp add: append_assoc [symmetric] written del: append_assoc)
      show "length (t_bytes ?b) = length (t_bytes t)"
        using fits 1(6) by (simp add: append_assoc [symmetric] written del: append_assoc)
    qed (use 1 stop stop_def in auto)
    finally show ?thesis by simp
  qed
qed


lemma recv_all_chunks:
  assumes "list_all2 (\<lambda>b t. tensor_ok t \<and> t_dtype b = t_dtype t \<and> t_shape b = t_shape t \<and>
      t_element_size b = t_element_size t \<and> length (t_bytes b) = length (t_bytes t)) bs ts"
  shows "recv_all (\<lambda>b ms. recv_chunks c b 0 ms) bs (concat (map (\<lambda>t. send_chunks c t 0) ts) @ ms) = Inr (ts, ms)"
  using assms
proof (induction bs ts rule: list_all2_induct)
  case (Cons b bs t ts)
  then have "b\<lparr>t_bytes := t_bytes t\<rparr> = t" by simp
  then show ?case using Cons recv_send_chunks [of t 0 b c] by simp
qed simp

lemma recv_all_whole:
  assumes "list_all2 (\<lambda>b t. tensor_ok t \<and> t_dtype b = t_dtype t \<and> t_shape b = t_shape t \<and>
      t_element_size b = t_element_size t \<and> length (t_bytes b) = length (t_bytes t)) bs ts"
  shows "recv_all recv_whole bs (map (\<lambda>t. DataMsg (t_bytes t)) ts @ ms) = Inr (ts, ms)"
  using assms
proof (induction bs ts rule: list_all2_induct)
  case (Cons b bs t ts)
  then have "b\<lparr>t_bytes := t_bytes t\<rparr> = t" by simp
  then show ?case using Cons by simp
qed simp

text \<open>A tensor as torch makes it: its size is that of its dtype and its bytes fill its shape.\<close>

definition torch_tensor :: "(string \<Rightarrow> nat option) \<Rightarrow> tensor \<Rightarrow> bool" where
  "torch_tensor dtype_size t \<longleftrightarrow> dtype_size (t_dtype t) = Some (t_element_size t) \<and> tensor_ok t"

lemma prepared_buffers:
  assumes "list_all (torch_tensor dsize) ts" "list_all (torch_tensor dsize) buffers" "\<And>n. length (fresh n) = n"
  shows "\<exists>bufs. prepare_receive_buffers dsize fresh buffers (tensor_layout ts) = Inr bufs \<and>
    list_all2 (\<lambda>b t. tensor_ok t \<and> t_dtype b = t_dtype t \<and> t_shape b = t_shape t \<and>
      t_element_size b = t_element_size t \<and> length (t_bytes b) = length (t_bytes t)) bufs ts"
proof (cases "tensor_layout buffers = tensor_layout ts")
  case True
  then have "length buffers = length ts" by (metis length_map tensor_layout_def)
  moreover have "t_dtype (buffers ! i) = t_dtype (ts ! i) \<and> t_shape (buffers ! i) = t_shape (ts ! i)"
    if "i < length ts" for i
    using arg_cong [OF True, of "\<lambda>l. l ! i"] that calculation by (simp add: tensor_layout_def)
  ultimately show ?thesis
    using assms(1,2) True
    by (auto simp: prepare_receive_buffers_def list_all2_conv_all_nth list_all_length torch_tensor_def tensor_ok_def numel_def)
next
  case False
  define make where "make t = \<lparr>t_dtype = t_dtype t, t_shape = t_shape t, t_element_size = t_element_size t,
    t_bytes = fresh (prod_list (t_shape t) * t_element_size t)\<rparr>" for t :: tensor
  have "prepare_receive_buffers dsize fresh buffers (tensor_layout ts) = Inr (map make ts)"
    using False assms(1) unfolding prepare_receive_buffers_def tensor_layout_def
    by (simp add: rmap_map) (rule rmap_Inr, auto simp: torch_tensor_def list_all_iff make_def)
  then show ?thesis
    using assms(1,3) by (auto simp: list_all2_conv_all_nth list_all_length torch_tensor_def tensor_ok_def numel_def make_def)
qed

lemma recv_header_sent:
  "recv_header dsize fresh buffers (send_header ts step meta @ ms) =
     rbind (prepare_receive_buffers dsize fresh buffers (tensor_layout ts)) (\<lambda>bufs. Inr ((step, meta, bufs), ms))"
  by (simp add: send_header_def send_bytes_def)

lemma send_chunks_size:
  "DataMsg bs \<in> set (send_chunks c t offset) \<Longrightarrow> length bs \<le> max c (t_element_size t)"
proof (induction c t offset rule: send_chunks.induct)
  case (1 c t offset)
  define stop where "stop = min (offset + chunk_elems c t) (numel t)"
  have "(stop - offset) * t_element_size t \<le> chunk_elems c t * t_element_size t"
    by (rule mult_le_mono1) (simp add: stop_def)
  also have "\<dots> \<le> max c (t_element_size t)"
  proof (cases "c div t_element_size t \<le> 1")
    case False
    then have "chunk_elems c t * t_element_size t = c div t_element_size t * t_element_size t" by (simp add: chunk_elems_def)
    then show ?thesis using div_times_less_eq_dividend [of c "t_element_size t"] by linarith
  qed (simp add: chunk_elems_def max_def)
  finally have "length (take ((stop - offset) * t_element_size t) (drop (offset * t_element_size t) (t_bytes t))) \<le> max c (t_element_size t)"
    by simp
  then show ?case
    using 1 by (cases "offset < numel t") (auto simp: send_chunks.simps [of c t offset] Let_def stop_def)
qed

text \<open>C36: Whatever a rank sends, in chunks or whole, its peer receives exactly: the same step, the same metadata
  and the same tensors, into buffers of any earlier layout, with nothing left over of the exchange; and no
  chunk is larger than the chunk size, single elements apart.\<close>

theorem replication_transfer_exact:
  assumes "list_all (torch_tensor dsize) ts" "list_all (torch_tensor dsize) buffers" "\<forall>n. length (fresh n) = n"
  shows "chunked_recv dsize fresh c buffers (chunked_send c ts step meta @ ms) = Inr ((step, meta, ts), ms) \<and>
    gloo_recv dsize fresh buffers (gloo_send ts step meta @ ms) = Inr ((step, meta, ts), ms) \<and>
    (\<forall>bs. DataMsg bs \<in> set (chunked_send c ts step meta) \<longrightarrow> (\<exists>t \<in> set ts. length bs \<le> max c (t_element_size t)))"
proof -
  have len: "length (fresh n) = n" for n using assms(3) by simp
  obtain bufs where bufs: "prepare_receive_buffers dsize fresh buffers (tensor_layout ts) = Inr bufs"
    and ok: "list_all2 (\<lambda>b t. tensor_ok t \<and> t_dtype b = t_dtype t \<and> t_shape b = t_shape t \<and>
      t_element_size b = t_element_size t \<and> length (t_bytes b) = length (t_bytes t)) bufs ts"
    using prepared_buffers [OF assms(1,2) len] by blast
  have "chunked_recv dsize fresh c buffers (chunked_send c ts step meta @ ms) = Inr ((step, meta, ts), ms)"
    using recv_all_chunks [OF ok, of c ms] by (simp add: chunked_recv_def chunked_send_def recv_header_sent bufs)
  moreover have "gloo_recv dsize fresh buffers (gloo_send ts step meta @ ms) = Inr ((step, meta, ts), ms)"
    using recv_all_whole [OF ok, of ms] by (simp add: gloo_recv_def gloo_send_def recv_header_sent bufs)
  ultimately show ?thesis
    by (auto simp: chunked_send_def send_header_def send_bytes_def dest!: send_chunks_size split: if_splits)
qed

section \<open>Driving one exchange\<close>

text \<open>
  \<open>PeerReplicator\<close>: the two background threads are represented by what they will leave behind. A
  thread that does not end before a bounded join is still \<open>Running\<close> then.
\<close>

datatype thread_state = NoThread | Running | Finished

record replicator =
  rp_enabled :: bool
  rp_peer_rank :: int
  rp_send :: thread_state
  rp_recv :: thread_state
  rp_send_error :: bool
  rp_recv_error :: bool
  rp_recv_step :: int
  rp_recv_meta :: string

definition init_replicator :: "gloo_backend option \<Rightarrow> bool \<Rightarrow> replicator" where
  "init_replicator backend enabled =
     \<lparr>rp_enabled = (enabled \<and> backend \<noteq> None),
      rp_peer_rank = (case backend of None \<Rightarrow> -1 | Some b \<Rightarrow> gb_peer_rank b),
      rp_send = NoThread, rp_recv = NoThread, rp_send_error = False, rp_recv_error = False,
      rp_recv_step = -1, rp_recv_meta = []\<rparr>"

definition in_flight :: "replicator \<Rightarrow> bool" where
  "in_flight rp = (rp_send rp = Running \<or> rp_recv rp = Running)"

text \<open>A thread runs to its end: with an error, or with what the backend returned.\<close>

definition send_ends :: "bool \<Rightarrow> replicator \<Rightarrow> replicator" where
  "send_ends ok rp = (if rp_send rp = Running then rp\<lparr>rp_send := Finished, rp_send_error := \<not> ok\<rparr> else rp)"

definition recv_ends :: "(int \<times> string) option \<Rightarrow> replicator \<Rightarrow> replicator" where
  "recv_ends received rp =
     (if rp_recv rp = Running
      then (case received of
              None \<Rightarrow> rp\<lparr>rp_recv := Finished, rp_recv_error := True\<rparr>
            | Some (step, meta) \<Rightarrow> rp\<lparr>rp_recv := Finished, rp_recv_step := step, rp_recv_meta := meta\<rparr>)
      else rp)"

text \<open>\<open>wait\<close> after the joins returned: a thread still running has exceeded the bound.\<close>

definition replicator_wait :: "replicator \<Rightarrow> (int \<times> string) \<times> replicator" where
  "replicator_wait rp =
     (let timed_out = in_flight rp; rp1 = rp\<lparr>rp_send := NoThread, rp_recv := NoThread\<rparr>
      in if timed_out \<or> rp_send_error rp \<or> rp_recv_error rp
         then ((-1, []), rp1\<lparr>rp_send_error := False, rp_recv_error := False\<rparr>)
         else ((rp_recv_step rp, rp_recv_meta rp), rp1))"

definition start_replication :: "replicator \<Rightarrow> replicator" where
  "start_replication rp =
     (if \<not> rp_enabled rp then rp
      else (snd (replicator_wait rp))
             \<lparr>rp_send_error := False, rp_recv_error := False, rp_recv_step := -1, rp_recv_meta := [],
              rp_send := Running, rp_recv := Running\<rparr>)"

lemma wait_after_start:
  assumes "rp_enabled rp"
  shows "fst (replicator_wait (recv_ends received (send_ends ok (start_replication rp)))) =
      (case received of Some m \<Rightarrow> if ok then m else (-1, []) | None \<Rightarrow> (-1, []))"
    and "fst (replicator_wait (send_ends ok (start_replication rp))) = (-1, [])"
    and "fst (replicator_wait (recv_ends received (start_replication rp))) = (-1, [])"
  using assms
  by (auto simp: replicator_wait_def recv_ends_def send_ends_def start_replication_def in_flight_def Let_def
      split: option.splits)

section \<open>Examples\<close>

definition example_dtype_size :: "string \<Rightarrow> nat option" where
  "example_dtype_size dtype = (if dtype = ''float16'' then Some 2 else None)"

definition example_half_tensor :: tensor where
  "example_half_tensor = \<lparr>t_dtype = ''float16'', t_shape = [3], t_element_size = 2, t_bytes = [1, 2, 3, 4, 5, 6]\<rparr>"

theorem replication_pairing_witness:
  "compute_peer_rank 2 (compute_peer_rank 2 5) = 5 \<and> (\<exists>b. init_backend 2 8 5 = Inr b \<and> gb_peer_rank b = 7)"
proof -
  have peer: "7 = compute_peer_rank 2 (5 :: int)" by (simp add: compute_peer_rank_def)
  from replication_pairing [of 2 8 5 7] peer show ?thesis by auto
qed

theorem replication_transfer_exact_witness:
  "chunked_recv example_dtype_size (\<lambda>n. replicate n 0) 4 [] (chunked_send 4 [example_half_tensor] 10 ''m'') =
     Inr ((10, ''m'', [example_half_tensor]), [])"
  using replication_transfer_exact [of example_dtype_size "[example_half_tensor]" "[]" "\<lambda>n. replicate n 0" 4 10 "''m''" "[]"]
  by (simp add: torch_tensor_def example_dtype_size_def example_half_tensor_def tensor_ok_def numel_def)

end
