(* ===== verification/Trust.thy ===== *)
theory Trust
  imports Replication Protocol
begin

text \<open>
  The trust metadata of \<open>lm_resiliency/checkpointing/disk.py\<close>: which step is the candidate, which steps are
  recovery-verified and which recovery mode a restart uses, persisted in one JSON file per rank. A
  directory maps file names to parsed contents; \<open>None\<close> is a file that stays unreadable until the
  read deadline. The conversions \<open>int(x)\<close> and \<open>str(x)\<close> of values that are neither integers nor
  strings are arguments. A number written with a fraction or an exponent is never equal to an
  integer here, where Python identifies \<open>2.0\<close> and \<open>2\<close>.
\<close>

record checkpoint_status =
  cs_candidate_step :: int
  cs_verified_step :: int
  cs_verified_steps :: "int list"
  cs_recovery_mode :: string

datatype status_error =
    BadVerifiedSteps
  | UnsupportedStatusSchema
  | IdentityMismatch
  | BadStatusField string
  | UnreadableStatus

definition status_post_init :: "checkpoint_status \<Rightarrow> status_error + checkpoint_status" where
  "status_post_init cs =
     (let verified = (if 0 < cs_verified_step cs then cs_verified_step cs # cs_verified_steps cs else cs_verified_steps cs)
      in if \<exists>step \<in> set verified. step < 1 then Inl BadVerifiedSteps
         else Inr (cs\<lparr>cs_verified_steps := sorted_set verified\<rparr>))"

definition empty_status :: checkpoint_status where
  "empty_status = \<lparr>cs_candidate_step = -1, cs_verified_step = -1, cs_verified_steps = [], cs_recovery_mode = ''latest''\<rparr>"

definition is_recovery_verified :: "checkpoint_status \<Rightarrow> int \<Rightarrow> bool" where
  "is_recovery_verified cs step = (step \<in> set (cs_verified_steps cs))"

definition status_to_dict :: "checkpoint_status \<Rightarrow> string \<Rightarrow> string \<Rightarrow> fields" where
  "status_to_dict cs run_id topology_id =
     [(''schema_version'', JInt 2), (''run_id'', JStr run_id), (''topology_id'', JStr topology_id),
      (''candidate_step'', JInt (cs_candidate_step cs)),
      (''recovery_verified_step'', JInt (cs_verified_step cs)),
      (''recovery_verified_steps'', JArr (map JInt (cs_verified_steps cs))),
      (''recovery_mode'', JStr (cs_recovery_mode cs))]"

record py_conv =
  conv_int :: "json \<Rightarrow> int option"
  conv_str :: "json \<Rightarrow> string"

definition py_int_of :: "py_conv \<Rightarrow> string \<Rightarrow> json \<Rightarrow> status_error + int" where
  "py_int_of cv name v =
     (case v of JInt i \<Rightarrow> Inr i
      | _ \<Rightarrow> (case conv_int cv v of Some i \<Rightarrow> Inr i | None \<Rightarrow> Inl (BadStatusField name)))"

definition py_str_of :: "py_conv \<Rightarrow> json \<Rightarrow> string" where
  "py_str_of cv v = (case v of JStr s \<Rightarrow> s | _ \<Rightarrow> conv_str cv v)"

definition get_default :: "fields \<Rightarrow> string \<Rightarrow> json \<Rightarrow> json" where
  "get_default kvs k dflt = (case map_of kvs k of Some v \<Rightarrow> v | None \<Rightarrow> dflt)"

definition verified_step_list :: "json \<Rightarrow> status_error + int list" where
  "verified_step_list v =
     (case v of
        JArr vs \<Rightarrow> rmap (\<lambda>v. case v of JInt i \<Rightarrow> Inr i | _ \<Rightarrow> Inl BadVerifiedSteps) vs
      | _ \<Rightarrow> Inl (BadStatusField ''recovery_verified_steps''))"

definition status_from_dict :: "py_conv \<Rightarrow> fields \<Rightarrow> string \<Rightarrow> string \<Rightarrow> status_error + checkpoint_status" where
  "status_from_dict cv kvs run_id topology_id =
     rbind (ensure (get_field kvs ''schema_version'' = JInt 2) UnsupportedStatusSchema) (\<lambda>_.
     rbind (ensure (get_field kvs ''run_id'' = JStr run_id \<and> get_field kvs ''topology_id'' = JStr topology_id) IdentityMismatch) (\<lambda>_.
     rbind (case get_default kvs ''recovery_verified_steps'' (JArr []) of JArr vs \<Rightarrow> Inr vs
              | _ \<Rightarrow> Inl (BadStatusField ''recovery_verified_steps'')) (\<lambda>verified.
     rbind (py_int_of cv ''candidate_step'' (get_default kvs ''candidate_step'' (JInt (-1)))) (\<lambda>candidate.
     rbind (py_int_of cv ''recovery_verified_step'' (get_default kvs ''recovery_verified_step'' (JInt (-1)))) (\<lambda>step.
     rbind (verified_step_list (JArr verified)) (\<lambda>steps.
     status_post_init \<lparr>cs_candidate_step = candidate, cs_verified_step = step, cs_verified_steps = steps,
       cs_recovery_mode = py_str_of cv (get_default kvs ''recovery_mode'' (JStr ''latest''))\<rparr>))))))"

section \<open>The store\<close>

type_synonym status_dir = "(string \<times> json option) list"

record status_store =
  st_rank :: "int option"
  st_run_id :: string
  st_topology_id :: string

definition status_file :: string where "status_file = ''GEMINI_CHECKPOINT_STATUS''"

definition status_filename :: "int option \<Rightarrow> string" where
  "status_filename rank = (case rank of None \<Rightarrow> status_file | Some r \<Rightarrow> status_file @ ''.rank-'' @ int_str r)"

definition read_status_path :: "py_conv \<Rightarrow> status_store \<Rightarrow> json option \<Rightarrow> status_error + checkpoint_status" where
  "read_status_path cv st content =
     (case content of
        None \<Rightarrow> Inl UnreadableStatus
      | Some (JObj kvs) \<Rightarrow> status_from_dict cv kvs (st_run_id st) (st_topology_id st)
      | Some _ \<Rightarrow> Inl (BadStatusField ''object''))"

definition read_eligible :: "py_conv \<Rightarrow> status_store \<Rightarrow> json option \<Rightarrow> status_error + checkpoint_status option" where
  "read_eligible cv st content =
     (case read_status_path cv st content of
        Inl IdentityMismatch \<Rightarrow> Inr None
      | Inl e \<Rightarrow> Inl e
      | Inr cs \<Rightarrow> Inr (Some cs))"

definition is_rank_file :: "string \<Rightarrow> bool" where
  "is_rank_file name = (take (length status_file + 6) name = status_file @ ''.rank-'')"

definition merge_peer_statuses :: "checkpoint_status list \<Rightarrow> status_error + checkpoint_status" where
  "merge_peer_statuses statuses =
     (if statuses = [] then Inr empty_status
      else let verified_steps = map cs_verified_step statuses
           in status_post_init
                \<lparr>cs_candidate_step = -1,
                 cs_verified_step = (if list_all (\<lambda>s. 0 < s) verified_steps then Min (set verified_steps) else -1),
                 cs_verified_steps = sorted_set (inter_all (map cs_verified_steps statuses)),
                 cs_recovery_mode = ''recovery_verified''\<rparr>)"

definition read_peer_fallback :: "py_conv \<Rightarrow> status_store \<Rightarrow> status_dir \<Rightarrow> status_error + checkpoint_status" where
  "read_peer_fallback cv st dir =
     (let names = sort (filter (\<lambda>n. is_rank_file n \<and> n \<noteq> status_filename (st_rank st)) (map fst dir))
      in rbind (rmap (\<lambda>n. read_eligible cv st (the (map_of dir n))) names) (\<lambda>statuses.
         merge_peer_statuses (List.map_filter (\<lambda>x. x) statuses)))"

definition read_status :: "py_conv \<Rightarrow> status_store \<Rightarrow> status_dir \<Rightarrow> status_error + checkpoint_status" where
  "read_status cv st dir =
     rbind (case map_of dir (status_filename (st_rank st)) of
              None \<Rightarrow> Inr None | Some content \<Rightarrow> read_eligible cv st content) (\<lambda>own.
     case own of
       Some cs \<Rightarrow> Inr cs
     | None \<Rightarrow>
         rbind (if st_rank st = None then Inr empty_status else read_peer_fallback cv st dir) (\<lambda>peer.
         if peer \<noteq> empty_status then Inr peer
         else rbind (case map_of dir status_file of None \<Rightarrow> Inr None | Some content \<Rightarrow> read_eligible cv st content) (\<lambda>legacy.
              case legacy of Some cs \<Rightarrow> Inr cs | None \<Rightarrow> Inr empty_status)))"

definition write_status :: "status_store \<Rightarrow> checkpoint_status \<Rightarrow> status_dir \<Rightarrow> status_dir" where
  "write_status st cs dir =
     AList.update (status_filename (st_rank st)) (Some (JObj (status_to_dict cs (st_run_id st) (st_topology_id st)))) dir"

end
