(* ===== verification/Manager.thy ===== *)
theory Manager
  imports Trust
begin

text \<open>
  \<open>lm_resiliency/checkpointing/manager.py\<close>: the in-memory checkpoint manager of one rank. The completion
  worker that waits for the device copy and the replication threads run concurrently with training;
  what they will leave behind is an argument of the operation that joins them. The slot the code
  keeps as \<open>_replication_source\<close> is always the current own slot, so a flag stands for it. A
  collective reduction is an argument giving the reduced value for a rank's contribution.
\<close>

record runtime =
  rt_conv :: py_conv
  rt_crc :: "8 word list \<Rightarrow> nat"
  rt_empty :: "tensor_entry \<Rightarrow> tensor"
  rt_skeleton :: "nat \<Rightarrow> string"
  rt_loads_meta :: "string \<Rightarrow> string option \<times> tensor_entry list option"

text \<open>How the joined threads ended: the device copy, the two transfer threads and the receive buffers.\<close>

record outcome =
  oc_copied :: bool
  oc_timed_out :: bool
  oc_sent :: bool
  oc_received :: "(int \<times> string) option"
  oc_tensors :: "tensor list"

datatype recovery_mode = LatestGemini | RecoveryVerified

definition mode_value :: "recovery_mode \<Rightarrow> string" where
  "mode_value m = (case m of LatestGemini \<Rightarrow> ''latest'' | RecoveryVerified \<Rightarrow> ''recovery_verified'')"

record manager =
  mg_rank :: int
  mg_flush_interval :: int
  mg_pool :: buffer_pool
  mg_replicator :: replicator
  mg_metadata :: "metadata option"
  mg_last_saved_step :: int
  mg_save_count :: nat
  mg_worker :: bool
  mg_worker_error :: bool
  mg_source :: bool
  mg_disk :: disk
  mg_status_store :: status_store
  mg_status_dir :: status_dir
  mg_exit_flush :: bool

datatype manager_error =
    CopyOrLaunchFailed
  | BeforeFirstSave
  | ReplicationIncomplete int
  | NotOnEveryRank int
  | NoPeerReplica int
  | StatusFailed status_error
  | DiskFailed disk_error
  | UnknownMode string

section \<open>The memory pipeline\<close>

definition own_current_update :: "(buffer_slot \<Rightarrow> buffer_slot) \<Rightarrow> manager \<Rightarrow> manager" where
  "own_current_update f mg = mg\<lparr>mg_pool := set_slot 0 f (mg_pool mg)\<rparr>"

definition peer_current_update :: "(buffer_slot \<Rightarrow> buffer_slot) \<Rightarrow> manager \<Rightarrow> manager" where
  "peer_current_update f mg = mg\<lparr>mg_pool := set_slot peer_offset f (mg_pool mg)\<rparr>"

definition complete_and_replicate :: "outcome \<Rightarrow> manager \<Rightarrow> manager" where
  "complete_and_replicate oc mg =
     (if \<not> oc_copied oc then mg\<lparr>mg_worker := False, mg_worker_error := True\<rparr>
      else let mg1 = own_current_update (\<lambda>slot. slot\<lparr>sl_state := Ready\<rparr>) (mg\<lparr>mg_worker := False\<rparr>)
           in if \<not> rp_enabled (mg_replicator mg) then mg1
              else if num_slots (mg_pool mg) < 4 then mg1\<lparr>mg_worker_error := True\<rparr>
              else own_current_update (\<lambda>slot. slot\<lparr>sl_state := Replicating\<rparr>)
                (peer_current_update (\<lambda>slot. slot\<lparr>sl_step := -1, sl_state := Empty, sl_non_tensor := None\<rparr>) mg1)
                \<lparr>mg_replicator := start_replication (mg_replicator mg), mg_source := True\<rparr>)"

definition wait_for_completion_worker :: "outcome \<Rightarrow> manager \<Rightarrow> (manager_error + unit) \<times> manager" where
  "wait_for_completion_worker oc mg =
     (let mg1 = (if mg_worker mg then complete_and_replicate oc mg else mg)
      in if mg_worker_error mg1 then (Inl CopyOrLaunchFailed, mg1\<lparr>mg_worker_error := False\<rparr>) else (Inr (), mg1))"

definition join_transfer :: "outcome \<Rightarrow> replicator \<Rightarrow> (int \<times> string) \<times> replicator" where
  "join_transfer oc rp =
     replicator_wait (if oc_timed_out oc then rp else recv_ends (oc_received oc) (send_ends (oc_sent oc) rp))"

definition finalize_replication :: "runtime \<Rightarrow> outcome \<Rightarrow> manager \<Rightarrow> (manager_error + bool) \<times> manager" where
  "finalize_replication rt oc mg =
     (case wait_for_completion_worker oc mg of
        (Inl e, mg1) \<Rightarrow> (Inl e, mg1)
      | (Inr _, mg1) \<Rightarrow>
          if \<not> rp_enabled (mg_replicator mg1) then (Inr True, mg1)
          else if \<not> mg_source mg1 then (Inr True, mg1)
          else let ((peer_step, peer_meta), rp) = join_transfer oc (mg_replicator mg1);
                   mg2 = (peer_current_update (\<lambda>slot. slot\<lparr>sl_tensors := oc_tensors oc\<rparr>) mg1)\<lparr>mg_replicator := rp\<rparr>;
                   replicated_step = sl_step (own_current (mg_pool mg2));
                   succeeded = (0 < peer_step \<and> peer_step = replicated_step);
                   (peer_non_tensor, peer_entries) = rt_loads_meta rt peer_meta;
                   mg3 = (if succeeded
                          then peer_current_update (\<lambda>slot. slot\<lparr>sl_step := peer_step, sl_non_tensor := peer_non_tensor,
                                 sl_entries := peer_entries, sl_state := Ready\<rparr>) mg2
                          else mg2);
                   mg4 = (if sl_state (own_current (mg_pool mg3)) = Replicating
                          then own_current_update (\<lambda>slot. slot\<lparr>sl_state := Ready\<rparr>) mg3 else mg3)
               in (Inr succeeded, mg4\<lparr>mg_source := False\<rparr>))"

definition prepare_next_capture :: "runtime \<Rightarrow> outcome \<Rightarrow> manager \<Rightarrow> (manager_error + unit) \<times> manager" where
  "prepare_next_capture rt oc mg =
     (if mg_save_count mg = 0 then (Inr (), mg)
      else case finalize_replication rt oc mg of
             (Inl e, mg1) \<Rightarrow> (Inl e, mg1)
           | (Inr succeeded, mg1) \<Rightarrow>
               if \<not> rp_enabled (mg_replicator mg1) \<or> succeeded then (Inr (), mg1\<lparr>mg_pool := rotate_pool (mg_pool mg1)\<rparr>)
               else let clear = (\<lambda>slot. slot\<lparr>sl_step := -1, sl_state := Empty, sl_non_tensor := None, sl_entries := None\<rparr>)
                    in (Inr (), peer_current_update clear (own_current_update clear mg1)))"

definition slot_metadata :: "metadata \<Rightarrow> buffer_slot \<Rightarrow> metadata" where
  "slot_metadata md slot =
     \<lparr>md_entries = (case sl_entries slot of Some (e # es) \<Rightarrow> e # es | _ \<Rightarrow> md_entries md),
      md_non_tensor = (case sl_non_tensor slot of Some nt \<Rightarrow> nt | None \<Rightarrow> md_non_tensor md)\<rparr>"

text \<open>\<open>written\<close> says whether the background write of a periodic flush succeeds.\<close>

definition finalize_save :: "runtime \<Rightarrow> bool \<Rightarrow> int \<Rightarrow> metadata \<Rightarrow> manager \<Rightarrow> (manager_error + unit) \<times> manager" where
  "finalize_save rt written step md mg =
     (let mg1 = mg\<lparr>mg_last_saved_step := step, mg_save_count := mg_save_count mg + 1, mg_metadata := Some md, mg_exit_flush := True\<rparr>;
          slot = own_previous (mg_pool mg1)
      in if 0 < mg_flush_interval mg \<and> step mod mg_flush_interval mg = 0 \<and> 0 < sl_step slot
         then case save_async (rt_crc rt) written (slot_metadata md slot) (sl_tensors slot) (sl_step slot) (mg_disk mg1) of
                (Inl e, d) \<Rightarrow> (Inl (DiskFailed e), mg1\<lparr>mg_disk := d\<rparr>)
              | (Inr _, d) \<Rightarrow> (Inr (), mg1\<lparr>mg_disk := d\<rparr>)
         else (Inr (), mg1))"

text \<open>The copied bytes are in the slot once it leaves \<open>Copying\<close>; nothing reads it before.\<close>

definition do_save ::
  "runtime \<Rightarrow> outcome \<Rightarrow> bool \<Rightarrow> tensor list \<Rightarrow> metadata \<Rightarrow> int \<Rightarrow> manager \<Rightarrow> (manager_error + unit) \<times> manager" where
  "do_save rt oc written tensors md step mg =
     (case prepare_next_capture rt oc mg of
        (Inl e, mg1) \<Rightarrow> (Inl e, mg1)
      | (Inr _, mg1) \<Rightarrow>
          let mg2 = own_current_update (\<lambda>slot. slot\<lparr>sl_tensors := tensors, sl_step := step, sl_state := Copying,
                sl_entries := Some (md_entries md), sl_non_tensor := Some (md_non_tensor md)\<rparr>) mg1
          in case finalize_save rt written step md mg2 of
               (Inl e, mg3) \<Rightarrow> (Inl e, mg3)
             | (Inr _, mg3) \<Rightarrow> (Inr (), mg3\<lparr>mg_worker := True, mg_worker_error := False\<rparr>))"

definition save_tensors ::
  "runtime \<Rightarrow> outcome \<Rightarrow> bool \<Rightarrow> tensor list \<Rightarrow> string \<Rightarrow> int \<Rightarrow> manager \<Rightarrow> (manager_error + unit) \<times> manager" where
  "save_tensors rt oc written tensors non_tensor step mg =
     (let entries = map (\<lambda>(i, t). \<lparr>te_key_path = [nat_str i], te_shape = t_shape t, te_dtype = t_dtype t\<rparr>) (enumerate 0 tensors);
          mg1 = (if bp_allocated (mg_pool mg) then mg
                 else mg\<lparr>mg_pool := allocate (rt_empty rt) entries (mg_pool mg),
                         mg_metadata := Some \<lparr>md_entries = entries, md_non_tensor = rt_skeleton rt (length tensors)\<rparr>\<rparr>)
      in do_save rt oc written tensors
           \<lparr>md_entries = (case mg_metadata mg1 of Some md \<Rightarrow> md_entries md | None \<Rightarrow> []), md_non_tensor = non_tensor\<rparr> step mg1)"

definition ready_slots :: "buffer_slot list \<Rightarrow> buffer_slot list" where
  "ready_slots slots = filter (\<lambda>slot. sl_state slot = Ready \<and> 0 < sl_step slot) slots"

definition flush_slots :: "runtime \<Rightarrow> outcome \<Rightarrow> manager \<Rightarrow> (manager_error + int) \<times> manager" where
  "flush_slots rt oc mg =
     (case mg_metadata mg of
        None \<Rightarrow> (Inr (-1), mg)
      | Some md \<Rightarrow>
          (case finalize_replication rt oc mg of
             (Inl e, mg1) \<Rightarrow> (Inl e, mg1)
           | (Inr _, mg1) \<Rightarrow>
               let own = ready_slots (own_slots (mg_pool mg1));
                   peer_rank = rp_peer_rank (mg_replicator mg1);
                   peer = (if 4 \<le> num_slots (mg_pool mg1) \<and> 0 \<le> peer_rank
                           then ready_slots (take 2 (drop peer_offset (bp_slots (mg_pool mg1)))) else []);
                   write = (\<lambda>rank slot d. save_sync (rt_crc rt) (slot_metadata md slot) (sl_tensors slot) (sl_step slot) rank d)
               in (Inr (foldl max (-1) (map sl_step own)),
                   mg1\<lparr>mg_disk := fold (write peer_rank) peer (fold (write (mg_rank mg1)) own (mg_disk mg1))\<rparr>)))"

definition flush_for_restart :: "runtime \<Rightarrow> outcome \<Rightarrow> manager \<Rightarrow> (manager_error + int) \<times> manager" where
  "flush_for_restart rt oc mg =
     (case flush_slots rt oc mg of
        (Inl e, mg1) \<Rightarrow> (Inl e, mg1)
      | (Inr step, mg1) \<Rightarrow> (Inr step, mg1\<lparr>mg_exit_flush := False\<rparr>))"

section \<open>Trust and recovery\<close>

definition read_trust :: "runtime \<Rightarrow> manager \<Rightarrow> manager_error + checkpoint_status" where
  "read_trust rt mg = rcatch StatusFailed (read_status (rt_conv rt) (mg_status_store mg) (mg_status_dir mg))"

definition write_trust :: "checkpoint_status \<Rightarrow> manager \<Rightarrow> manager" where
  "write_trust cs mg = mg\<lparr>mg_status_dir := write_status (mg_status_store mg) cs (mg_status_dir mg)\<rparr>"

definition update_trust ::
  "runtime \<Rightarrow> (checkpoint_status \<Rightarrow> checkpoint_status) \<Rightarrow> manager \<Rightarrow> (manager_error + checkpoint_status) \<times> manager" where
  "update_trust rt f mg =
     (case rbind (read_trust rt mg) (\<lambda>status. rcatch StatusFailed (status_post_init (f status))) of
        Inl e \<Rightarrow> (Inl e, mg)
      | Inr status \<Rightarrow> (Inr status, write_trust status mg))"

definition set_recovery_mode :: "runtime \<Rightarrow> recovery_mode \<Rightarrow> manager \<Rightarrow> (manager_error + checkpoint_status) \<times> manager" where
  "set_recovery_mode rt mode mg =
     update_trust rt (\<lambda>status. status\<lparr>cs_candidate_step := (if mode = RecoveryVerified then -1 else cs_candidate_step status),
       cs_recovery_mode := mode_value mode\<rparr>) mg"

definition clear_candidate :: "runtime \<Rightarrow> manager \<Rightarrow> (manager_error + checkpoint_status) \<times> manager" where
  "clear_candidate rt mg = update_trust rt (\<lambda>status. status\<lparr>cs_candidate_step := -1\<rparr>) mg"

definition reject_candidate :: "runtime \<Rightarrow> manager \<Rightarrow> (manager_error + checkpoint_status) \<times> manager" where
  "reject_candidate rt mg = set_recovery_mode rt RecoveryVerified mg"

definition boundary_status :: "int \<Rightarrow> bool \<Rightarrow> checkpoint_status \<Rightarrow> checkpoint_status" where
  "boundary_status step verify_current previous =
     \<lparr>cs_candidate_step = (if verify_current then -1 else step),
      cs_verified_step = (if verify_current then step
        else if 0 < cs_candidate_step previous then cs_candidate_step previous else cs_verified_step previous),
      cs_verified_steps = cs_verified_steps previous,
      cs_recovery_mode = mode_value LatestGemini\<rparr>"

text \<open>\<open>reduced\<close> is what \<open>_collective_min_step\<close> returns for this rank's contribution.\<close>

definition persist_boundary ::
  "runtime \<Rightarrow> outcome \<Rightarrow> (int \<Rightarrow> int) \<Rightarrow> int \<Rightarrow> bool \<Rightarrow> manager \<Rightarrow> (manager_error + checkpoint_status) \<times> manager" where
  "persist_boundary rt oc reduced step verify_current mg =
     (case mg_metadata mg of
        None \<Rightarrow> (Inl BeforeFirstSave, mg)
      | Some md \<Rightarrow>
          (case finalize_replication rt oc mg of
             (Inl e, mg1) \<Rightarrow> (Inl e, mg1)
           | (Inr succeeded, mg1) \<Rightarrow>
               if rp_enabled (mg_replicator mg1) \<and> \<not> succeeded then (Inl (ReplicationIncomplete step), mg1)
               else
                 let at_step = (\<lambda>slot. sl_step slot = step \<and> sl_state slot = Ready);
                     own = find at_step (own_slots (mg_pool mg1))
                 in if reduced (case own of Some slot \<Rightarrow> sl_step slot | None \<Rightarrow> -1) \<noteq> step
                    then (Inl (NotOnEveryRank step), mg1)
                    else
                      let write = (\<lambda>rank slot d. save_sync (rt_crc rt) (slot_metadata md slot) (sl_tensors slot) step rank d);
                          mg2 = (case own of Some slot \<Rightarrow> mg1\<lparr>mg_disk := write (mg_rank mg1) slot (mg_disk mg1)\<rparr> | None \<Rightarrow> mg1);
                          peer_rank = rp_peer_rank (mg_replicator mg1)
                      in if 4 \<le> num_slots (mg_pool mg1) \<and> 0 \<le> peer_rank
                         then case find at_step (take 2 (drop peer_offset (bp_slots (mg_pool mg1)))) of
                                None \<Rightarrow> (Inl (NoPeerReplica step), mg2)
                              | Some slot \<Rightarrow>
                                  update_trust rt (boundary_status step verify_current)
                                    (mg2\<lparr>mg_disk := write peer_rank slot (mg_disk mg2)\<rparr>)
                         else update_trust rt (boundary_status step verify_current) mg2))"

definition resolved_recovery_mode :: "runtime \<Rightarrow> recovery_mode option \<Rightarrow> manager \<Rightarrow> manager_error + recovery_mode" where
  "resolved_recovery_mode rt mode mg =
     (case mode of
        Some m \<Rightarrow> Inr m
      | None \<Rightarrow> rbind (read_trust rt mg) (\<lambda>status.
          Inr (if cs_recovery_mode status = mode_value LatestGemini then LatestGemini else RecoveryVerified)))"

definition activate_recovery_mode :: "runtime \<Rightarrow> recovery_mode option \<Rightarrow> manager \<Rightarrow> (manager_error + recovery_mode) \<times> manager" where
  "activate_recovery_mode rt mode mg =
     (case rbind (resolved_recovery_mode rt mode mg) (\<lambda>resolved. rbind (read_trust rt mg) (\<lambda>status. Inr (resolved, status))) of
        Inl e \<Rightarrow> (Inl e, mg)
      | Inr (resolved, status) \<Rightarrow>
          if cs_recovery_mode status \<noteq> mode_value resolved \<or> (resolved = RecoveryVerified \<and> 0 < cs_candidate_step status)
          then (case set_recovery_mode rt resolved mg of
                  (Inl e, mg1) \<Rightarrow> (Inl e, mg1) | (Inr _, mg1) \<Rightarrow> (Inr resolved, mg1))
          else (Inr resolved, mg))"

definition latest_memory_step :: "manager \<Rightarrow> int" where
  "latest_memory_step mg =
     (if mg_metadata mg = None \<or> \<not> bp_allocated (mg_pool mg) then -1
      else foldl max (-1) (map sl_step (filter (\<lambda>slot. complete_slot slot \<and> 0 < sl_step slot) (own_slots (mg_pool mg)))))"

definition memory_slot_by_step :: "manager \<Rightarrow> int \<Rightarrow> buffer_slot option" where
  "memory_slot_by_step mg step =
     (if mg_metadata mg = None \<or> \<not> bp_allocated (mg_pool mg) then None
      else find (\<lambda>slot. sl_step slot = step \<and> complete_slot slot) (own_slots (mg_pool mg)))"

definition local_recovery_step :: "runtime \<Rightarrow> recovery_mode option \<Rightarrow> manager \<Rightarrow> manager_error + int" where
  "local_recovery_step rt mode mg =
     rbind (resolved_recovery_mode rt mode mg) (\<lambda>resolved.
     if resolved = RecoveryVerified
     then rbind (read_trust rt mg) (\<lambda>status.
       let step = cs_verified_step status
       in Inr (if 0 < step \<and> has_rank step (mg_rank mg) (mg_disk mg) then step else -1))
     else let step = max (latest_memory_step mg) (find_latest_on_disk None (mg_disk mg))
          in Inr (if 0 < step then step else -1))"

section \<open>The replicated generation kept in memory\<close>

text \<open>The previous own and peer slots hold one complete generation; a capture is in progress.\<close>

definition previous_pair :: "int \<Rightarrow> manager \<Rightarrow> bool" where
  "previous_pair g mg \<longleftrightarrow> 0 < g \<and> num_slots (mg_pool mg) = 4 \<and> rp_enabled (mg_replicator mg) \<and>
     sl_step (own_previous (mg_pool mg)) = g \<and> sl_state (own_previous (mg_pool mg)) = Ready \<and>
     sl_step (bp_slots (mg_pool mg) ! 3) = g \<and> sl_state (bp_slots (mg_pool mg) ! 3) = Ready"

definition capturing :: "int \<Rightarrow> manager \<Rightarrow> bool" where
  "capturing s mg \<longleftrightarrow> mg_worker mg \<and> \<not> mg_worker_error mg \<and> \<not> mg_source mg \<and> 0 < mg_save_count mg \<and>
     sl_state (own_current (mg_pool mg)) = Copying \<and> sl_step (own_current (mg_pool mg)) = s"

text \<open>The peer's shard of the captured step arrived.\<close>

definition exchanged :: "outcome \<Rightarrow> int \<Rightarrow> bool" where
  "exchanged oc s \<longleftrightarrow> \<not> oc_timed_out oc \<and> oc_sent oc \<and> (\<exists>meta. oc_received oc = Some (s, meta)) \<and> 0 < s"

lemma four_slots: "length xs = 4 \<Longrightarrow> \<exists>a b c d. xs = [a, b, c, d]"
  by (auto simp: length_Suc_conv numeral_eq_Suc)

lemma join_started:
  "rp_enabled rp \<Longrightarrow> (fst (fst (join_transfer oc (start_replication rp))) = s \<and> 0 < s) = exchanged oc s"
  "rp_enabled (snd (join_transfer oc rp)) = rp_enabled rp"
  "rp_enabled (start_replication rp) = rp_enabled rp"
  by (auto simp: join_transfer_def exchanged_def replicator_wait_def recv_ends_def send_ends_def start_replication_def
      in_flight_def Let_def split: option.splits)

lemmas pipeline_defs = own_current_update_def peer_current_update_def set_slot_def own_current_def own_previous_def
  num_slots_def peer_offset_def rotate_pool_def swap_def

lemma finalize_capture:
  assumes "capturing s mg" "num_slots (mg_pool mg) = 4" "rp_enabled (mg_replicator mg)" "oc_copied oc"
  shows "\<exists>mg'. finalize_replication rt oc mg = (Inr (exchanged oc s), mg') \<and>
    rp_enabled (mg_replicator mg') \<and> \<not> mg_worker mg' \<and> \<not> mg_worker_error mg' \<and> \<not> mg_source mg' \<and>
    mg_save_count mg' = mg_save_count mg \<and>
    num_slots (mg_pool mg') = 4 \<and> bp_slots (mg_pool mg') ! 1 = bp_slots (mg_pool mg) ! 1 \<and>
    bp_slots (mg_pool mg') ! 3 = bp_slots (mg_pool mg) ! 3 \<and>
    sl_step (own_current (mg_pool mg')) = s \<and> sl_state (own_current (mg_pool mg')) = Ready \<and>
    (if exchanged oc s then sl_step (bp_slots (mg_pool mg') ! 2) = s \<and> sl_state (bp_slots (mg_pool mg') ! 2) = Ready
     else sl_step (bp_slots (mg_pool mg') ! 2) = -1 \<and> sl_state (bp_slots (mg_pool mg') ! 2) = Empty)"
proof -
  obtain a b c d where slots: "bp_slots (mg_pool mg) = [a, b, c, d]"
    using four_slots [OF assms(2) [unfolded num_slots_def]] by blast
  obtain ps pm rp where j: "join_transfer oc (start_replication (mg_replicator mg)) = ((ps, pm), rp)"
    by (metis prod.collapse)
  have ex: "exchanged oc s \<longleftrightarrow> 0 < ps \<and> ps = s" and en: "rp_enabled rp"
    using join_started(1) [OF assms(3), of oc s] join_started(2) [of oc "start_replication (mg_replicator mg)"]
      join_started(3) [of "mg_replicator mg"] assms(3) j by auto
  obtain pn pe where l: "rt_loads_meta rt pm = (pn, pe)" by force
  show ?thesis
    using assms slots
    by (auto simp: finalize_replication_def wait_for_completion_worker_def complete_and_replicate_def capturing_def
        pipeline_defs join_started j ex en l Let_def)
qed


lemma finalize_save_keeps:
  "finalize_save rt written step md mg = (r, mg') \<Longrightarrow>
     mg_pool mg' = mg_pool mg \<and> mg_replicator mg' = mg_replicator mg \<and> mg_source mg' = mg_source mg \<and> 0 < mg_save_count mg'"
  by (auto simp: finalize_save_def Let_def split: if_splits prod.splits sum.splits)

lemma prepare_capture:
  assumes "capturing s mg" "previous_pair g mg" "oc_copied oc"
  shows "\<exists>mg'. prepare_next_capture rt oc mg = (Inr (), mg') \<and>
    previous_pair (if exchanged oc s then s else g) mg' \<and> \<not> mg_source mg'"
proof -
  obtain mg' where f: "finalize_replication rt oc mg = (Inr (exchanged oc s), mg')" "rp_enabled (mg_replicator mg')"
    "\<not> mg_source mg'" "num_slots (mg_pool mg') = 4" "bp_slots (mg_pool mg') ! 1 = bp_slots (mg_pool mg) ! 1"
    "bp_slots (mg_pool mg') ! 3 = bp_slots (mg_pool mg) ! 3"
    "sl_step (own_current (mg_pool mg')) = s" "sl_state (own_current (mg_pool mg')) = Ready"
    "exchanged oc s \<Longrightarrow> sl_step (bp_slots (mg_pool mg') ! 2) = s \<and> sl_state (bp_slots (mg_pool mg') ! 2) = Ready"
    using finalize_capture [OF assms(1) _ _ assms(3), of rt] assms(2) by (auto simp: previous_pair_def)
  obtain a b c d where slots: "bp_slots (mg_pool mg') = [a, b, c, d]"
    using four_slots [OF f(4) [unfolded num_slots_def]] by blast
  have "0 < s" if "exchanged oc s" using that by (simp add: exchanged_def)
  then show ?thesis
    using f assms(1,2) slots
    by (auto simp: prepare_next_capture_def previous_pair_def capturing_def pipeline_defs Let_def)
qed

text \<open>One capture after another, until one fails.\<close>

record save_request =
  sr_outcome :: outcome
  sr_written :: bool
  sr_tensors :: "tensor list"
  sr_metadata :: metadata
  sr_step :: int

fun run_saves :: "runtime \<Rightarrow> save_request list \<Rightarrow> manager \<Rightarrow> (manager_error + unit) \<times> manager" where
  "run_saves rt [] mg = (Inr (), mg)"
| "run_saves rt (sr # srs) mg =
     (case do_save rt (sr_outcome sr) (sr_written sr) (sr_tensors sr) (sr_metadata sr) (sr_step sr) mg of
        (Inl e, mg1) \<Rightarrow> (Inl e, mg1)
      | (Inr _, mg1) \<Rightarrow> run_saves rt srs mg1)"

lemma do_save_keeps_pair:
  assumes "capturing s mg" "previous_pair g mg" "oc_copied oc"
    and "do_save rt oc written tensors md step mg = (r, mg')"
  shows "previous_pair (if exchanged oc s then s else g) mg' \<and> (r = Inr () \<longrightarrow> capturing step mg')"
proof -
  obtain mg1 where p: "prepare_next_capture rt oc mg = (Inr (), mg1)"
    "previous_pair (if exchanged oc s then s else g) mg1" "\<not> mg_source mg1"
    using prepare_capture [OF assms(1-3)] by blast
  obtain a b c d where slots: "bp_slots (mg_pool mg1) = [a, b, c, d]"
    using p(2) four_slots unfolding previous_pair_def num_slots_def by blast
  show ?thesis
    using assms(4) p slots
    by (auto simp: do_save_def previous_pair_def capturing_def pipeline_defs Let_def dest!: finalize_save_keeps
        split: prod.splits sum.splits)
qed

section \<open>Properties of the memory pipeline\<close>

text \<open>C12: While captures follow each other and their device copies complete, a replicated generation, once
  held in the previous own and peer slots, is never lost, however the exchanges with the peer end: after
  any number of saves the previous slots hold one complete generation of both ranks, the original one or
  one of the steps captured since.\<close>

theorem replicated_generation_survives:
  assumes "capturing s mg" "previous_pair g mg" "\<forall>sr \<in> set srs. oc_copied (sr_outcome sr)"
    and "run_saves rt srs mg = (r, mg')"
  shows "\<exists>g'. previous_pair g' mg' \<and> g' \<in> {g, s} \<union> sr_step ` set srs"
  using assms
proof (induction srs arbitrary: s g mg)
  case (Cons sr srs)
  obtain r1 mg1 where d: "do_save rt (sr_outcome sr) (sr_written sr) (sr_tensors sr) (sr_metadata sr) (sr_step sr) mg = (r1, mg1)"
    by force
  let ?g = "if exchanged (sr_outcome sr) s then s else g"
  have k: "previous_pair ?g mg1 \<and> (r1 = Inr () \<longrightarrow> capturing (sr_step sr) mg1)"
    using do_save_keeps_pair [OF Cons(2,3) _ d] Cons(4) by simp
  show ?case
  proof (cases r1)
    case Inl
    then show ?thesis using k Cons(5) d by (auto split: if_splits)
  next
    case (Inr u)
    then have "\<exists>g'. previous_pair g' mg' \<and> g' \<in> {?g, sr_step sr} \<union> sr_step ` set srs"
      using Cons(1) [of "sr_step sr" mg1 ?g] k Cons(4,5) d by simp
    then show ?thesis by (auto split: if_splits)
  qed
qed auto

text \<open>When a restart flush has retired a failed exchange, the next save treats it as a success: it rotates
  the unreplicated generation into the previous slots, and no generation is left in memory of which
  both the own and the peer shard are complete.\<close>

theorem flush_then_save_drops_pair:
  assumes "capturing s mg" "previous_pair g mg" "oc_copied oc" "\<not> exchanged oc s" "mg_metadata mg \<noteq> None"
    and "flush_for_restart rt oc mg = (r, mg1)" "do_save rt oc' written tensors md step mg1 = (r', mg2)" "g < s"
  shows "\<not> (\<exists>own \<in> set (own_slots (mg_pool mg2)). \<exists>peer \<in> set (drop 2 (bp_slots (mg_pool mg2))).
      complete_slot own \<and> complete_slot peer \<and> sl_step own = sl_step peer)"
proof -
  obtain mg0 where f: "finalize_replication rt oc mg = (Inr False, mg0)" "rp_enabled (mg_replicator mg0)" "\<not> mg_worker mg0"
    "\<not> mg_worker_error mg0" "\<not> mg_source mg0" "mg_save_count mg0 = mg_save_count mg" "num_slots (mg_pool mg0) = 4"
    "sl_state (bp_slots (mg_pool mg0) ! 2) = Empty" "bp_slots (mg_pool mg0) ! 3 = bp_slots (mg_pool mg) ! 3"
    "sl_step (own_current (mg_pool mg0)) = s" "sl_state (own_current (mg_pool mg0)) = Ready"
    using finalize_capture [OF assms(1) _ _ assms(3), of rt] assms(2,4) by (auto simp: previous_pair_def)
  have flushed: "mg_pool mg1 = mg_pool mg0" "mg_replicator mg1 = mg_replicator mg0" "\<not> mg_worker mg1" "\<not> mg_worker_error mg1"
    "\<not> mg_source mg1" "mg_save_count mg1 = mg_save_count mg"
    using assms(5,6) f by (auto simp: flush_for_restart_def flush_slots_def Let_def split: option.splits)
  obtain a b c d where slots: "bp_slots (mg_pool mg0) = [a, b, c, d]"
    using four_slots [OF f(7) [unfolded num_slots_def]] by blast
  have "prepare_next_capture rt oc' mg1 = (Inr (), mg1\<lparr>mg_pool := rotate_pool (mg_pool mg1)\<rparr>)"
    using flushed f assms(1)
    by (simp add: prepare_next_capture_def finalize_replication_def wait_for_completion_worker_def capturing_def)
  then have pool: "bp_slots (mg_pool mg2) = [b\<lparr>sl_tensors := tensors, sl_step := step, sl_state := Copying,
      sl_entries := Some (md_entries md), sl_non_tensor := Some (md_non_tensor md)\<rparr>, a, d, c]"
    using assms(7) slots flushed(1)
    by (auto simp: do_save_def pipeline_defs Let_def dest!: finalize_save_keeps split: prod.splits sum.splits)
  show ?thesis
    using f slots assms(2,8) by (auto simp: own_slots_def pool complete_slot_def previous_pair_def pipeline_defs)
qed


definition example_slot :: "int \<Rightarrow> slot_state \<Rightarrow> buffer_slot" where
  "example_slot step state = \<lparr>sl_tensors = [], sl_entries = Some [], sl_step = step, sl_state = state, sl_non_tensor = Some ''m''\<rparr>"

definition example_manager :: manager where
  "example_manager = \<lparr>mg_rank = 0, mg_flush_interval = 0,
     mg_pool = \<lparr>bp_slots = [example_slot 20 Copying, example_slot 10 Ready, example_slot (-1) Empty, example_slot 10 Ready],
       bp_allocated = True, bp_entries = Some []\<rparr>,
     mg_replicator = \<lparr>rp_enabled = True, rp_peer_rank = 1, rp_send = NoThread, rp_recv = NoThread, rp_send_error = False,
       rp_recv_error = False, rp_recv_step = -1, rp_recv_meta = []\<rparr>,
     mg_metadata = Some \<lparr>md_entries = [], md_non_tensor = ''m''\<rparr>, mg_last_saved_step = 20, mg_save_count = 2,
     mg_worker = True, mg_worker_error = False, mg_source = False, mg_disk = example_disk 0 [],
     mg_status_store = \<lparr>st_rank = Some 0, st_run_id = ''run'', st_topology_id = ''topology''\<rparr>, mg_status_dir = [],
     mg_exit_flush = True\<rparr>"

definition example_runtime :: runtime where
  "example_runtime = \<lparr>rt_conv = \<lparr>conv_int = (\<lambda>_. None), conv_str = (\<lambda>_. [])\<rparr>, rt_crc = length,
     rt_empty = (\<lambda>e. \<lparr>t_dtype = te_dtype e, t_shape = te_shape e, t_element_size = 0, t_bytes = []\<rparr>),
     rt_skeleton = (\<lambda>n. []), rt_loads_meta = (\<lambda>m. (Some m, Some []))\<rparr>"

definition failed_exchange :: outcome where
  "failed_exchange = \<lparr>oc_copied = True, oc_timed_out = True, oc_sent = False, oc_received = None, oc_tensors = []\<rparr>"

definition example_save :: "int \<Rightarrow> save_request" where
  "example_save step = \<lparr>sr_outcome = failed_exchange, sr_written = True, sr_tensors = [],
     sr_metadata = \<lparr>md_entries = [], md_non_tensor = ''n''\<rparr>, sr_step = step\<rparr>"

lemma example_manager_facts: "capturing 20 example_manager" "previous_pair 10 example_manager" "\<not> exchanged failed_exchange 20"
  by (simp_all add: capturing_def previous_pair_def exchanged_def example_manager_def example_slot_def failed_exchange_def pipeline_defs)

theorem replicated_generation_survives_witness:
  "\<exists>g'. previous_pair g' (snd (run_saves example_runtime [example_save 30, example_save 40] example_manager)) \<and> g' \<in> {10, 20, 30, 40}"
proof -
  have "\<forall>sr \<in> set [example_save 30, example_save 40]. oc_copied (sr_outcome sr)"
    by (simp add: example_save_def failed_exchange_def)
  from replicated_generation_survives [OF example_manager_facts(1,2) this prod.collapse [symmetric], of example_runtime]
  show ?thesis by (auto simp: example_save_def)
qed

theorem flush_then_save_drops_pair_witness:
  "\<exists>mg1 mg2. flush_for_restart example_runtime failed_exchange example_manager = (Inr 20, mg1) \<and>
     do_save example_runtime failed_exchange True [] \<lparr>md_entries = [], md_non_tensor = ''n''\<rparr> 30 mg1 = (Inr (), mg2) \<and>
     \<not> (\<exists>own \<in> set (own_slots (mg_pool mg2)). \<exists>peer \<in> set (drop 2 (bp_slots (mg_pool mg2))).
      complete_slot own \<and> complete_slot peer \<and> sl_step own = sl_step peer)"
proof -
  let ?md = "\<lparr>md_entries = [], md_non_tensor = ''n''\<rparr>"
  obtain r mg1 where f: "flush_for_restart example_runtime failed_exchange example_manager = (r, mg1)" by force
  obtain r' mg2 where s: "do_save example_runtime failed_exchange True [] ?md 30 mg1 = (r', mg2)" by force
  have "fst (flush_for_restart example_runtime failed_exchange example_manager) = Inr 20" by code_simp
  moreover have "fst (do_save example_runtime failed_exchange True [] ?md 30
      (snd (flush_for_restart example_runtime failed_exchange example_manager))) = Inr ()" by code_simp
  ultimately have "r = Inr 20" "r' = Inr ()" using f s by auto
  moreover have "\<not> (\<exists>own \<in> set (own_slots (mg_pool mg2)). \<exists>peer \<in> set (drop 2 (bp_slots (mg_pool mg2))).
      complete_slot own \<and> complete_slot peer \<and> sl_step own = sl_step peer)"
    by (rule flush_then_save_drops_pair [OF example_manager_facts(1,2) _ example_manager_facts(3) _ f s])
      (simp_all add: failed_exchange_def example_manager_def)
  ultimately show ?thesis using f s by blast
qed

end
