(* ===== verification/Durable.thy ===== *)
theory Durable
  imports Trust
begin

text \<open>
  \<open>lm_resiliency/checkpointing/durable.py\<close>: certification of framework-owned durable checkpoints. The
  manifest directory holds one record per candidate, a pointer to the latest validated one and a
  pending marker; every file is replaced atomically, so an operation is a sequence of such atomic
  actions and a crash performs a prefix of it. Framework callbacks, collectives and the outcome of
  writing checkpoint bytes are arguments; what the ranks gathered is a list with one entry per rank.
\<close>

section \<open>Records\<close>

record shape_validation =
  sv_shape_id :: string
  sv_step :: int

record durable_record =
  dr_checkpoint_id :: string
  dr_step :: int
  dr_validation_epoch :: int
  dr_shape_plan_id :: string
  dr_environment_id :: string
  dr_expected_shape_ids :: "string list"
  dr_checked_shapes :: "shape_validation list"
  dr_status :: string
  dr_verdict :: "string option"
  dr_completed_step :: "int option"
  dr_artifacts :: fields

datatype durable_error =
    BadManifest string
  | EmptyConfig string
  | WriterOutsideGroup
  | CandidatePending
  | ShapePlanDiffers
  | UnknownShape string
  | CandidateWriteFailed
  | MetadataNotPersisted
  | NotRecoveryVerified
  | IncompleteCoverage
  | LoadedStepDiffers

definition checked_shape_ids :: "durable_record \<Rightarrow> string list" where
  "checked_shape_ids r = map sv_shape_id (dr_checked_shapes r)"

definition record_complete :: "durable_record \<Rightarrow> bool" where
  "record_complete r = (checked_shape_ids r = dr_expected_shape_ids r)"

definition json_option :: "('a \<Rightarrow> json) \<Rightarrow> 'a option \<Rightarrow> json" where
  "json_option f v = (case v of None \<Rightarrow> JNull | Some x \<Rightarrow> f x)"

definition durable_to_dict :: "durable_record \<Rightarrow> fields" where
  "durable_to_dict r =
     [(''schema_version'', JInt 1), (''checkpoint_id'', JStr (dr_checkpoint_id r)), (''step'', JInt (dr_step r)),
      (''validation_epoch'', JInt (dr_validation_epoch r)), (''shape_plan_id'', JStr (dr_shape_plan_id r)),
      (''environment_id'', JStr (dr_environment_id r)),
      (''expected_shape_ids'', JArr (map JStr (dr_expected_shape_ids r))),
      (''checked_shapes'', JArr (map (\<lambda>v. JObj [(''shape_id'', JStr (sv_shape_id v)), (''step'', JInt (sv_step v))])
         (dr_checked_shapes r))),
      (''status'', JStr (dr_status r)), (''verdict'', json_option JStr (dr_verdict r)),
      (''completed_step'', json_option JInt (dr_completed_step r)), (''artifacts'', JObj (dr_artifacts r))]"

definition need :: "fields \<Rightarrow> string \<Rightarrow> durable_error + json" where
  "need kvs k = (case map_of kvs k of Some v \<Rightarrow> Inr v | None \<Rightarrow> Inl (BadManifest k))"

definition as_str :: "py_conv \<Rightarrow> fields \<Rightarrow> string \<Rightarrow> durable_error + string" where
  "as_str cv kvs k = rbind (need kvs k) (\<lambda>v. Inr (py_str_of cv v))"

definition as_int :: "py_conv \<Rightarrow> fields \<Rightarrow> string \<Rightarrow> durable_error + int" where
  "as_int cv kvs k = rbind (need kvs k) (\<lambda>v. rcatch (\<lambda>_. BadManifest k) (py_int_of cv k v))"

text \<open>Iteration over a parsed value: the elements, the characters of a string, the keys of an object.\<close>

definition as_list :: "json \<Rightarrow> durable_error + json list" where
  "as_list v =
     (case v of
        JArr vs \<Rightarrow> Inr vs
      | JStr s \<Rightarrow> Inr (map (\<lambda>c. JStr [c]) s)
      | JObj kvs \<Rightarrow> Inr (map (\<lambda>kv. JStr (fst kv)) kvs)
      | _ \<Rightarrow> Inl (BadManifest ''sequence''))"

definition as_shape :: "py_conv \<Rightarrow> json \<Rightarrow> durable_error + shape_validation" where
  "as_shape cv v =
     (case v of
        JObj kvs \<Rightarrow> rbind (as_str cv kvs ''shape_id'') (\<lambda>s. rbind (as_int cv kvs ''step'') (\<lambda>i.
          Inr \<lparr>sv_shape_id = s, sv_step = i\<rparr>))
      | _ \<Rightarrow> Inl (BadManifest ''checked_shapes''))"

text \<open>
  \<open>dict(value or {})\<close>: a falsy value is the empty dictionary. A list of pairs, which Python also accepts,
  is refused.
\<close>

definition as_fields :: "json \<Rightarrow> durable_error + fields" where
  "as_fields v =
     (case v of
        JObj kvs \<Rightarrow> Inr kvs
      | JFloat s \<Rightarrow> Inl (BadManifest ''artifacts'')
      | _ \<Rightarrow> if v \<in> {JNull, JBool False, JInt 0, JStr [], JArr []} then Inr [] else Inl (BadManifest ''artifacts''))"

definition durable_from_dict :: "py_conv \<Rightarrow> fields \<Rightarrow> durable_error + durable_record" where
  "durable_from_dict cv kvs =
     rbind (ensure (get_field kvs ''schema_version'' \<in> {JInt 1, JBool True}) (BadManifest ''schema_version'')) (\<lambda>_.
     rbind (as_str cv kvs ''checkpoint_id'') (\<lambda>checkpoint_id.
     rbind (as_int cv kvs ''step'') (\<lambda>step.
     rbind (as_int cv kvs ''validation_epoch'') (\<lambda>epoch.
     rbind (as_str cv kvs ''shape_plan_id'') (\<lambda>plan.
     rbind (as_str cv kvs ''environment_id'') (\<lambda>environment.
     rbind (rbind (need kvs ''expected_shape_ids'') as_list) (\<lambda>expected.
     rbind (as_list (get_default kvs ''checked_shapes'' (JArr []))) (\<lambda>checked.
     rbind (rmap (as_shape cv) checked) (\<lambda>shapes.
     rbind (as_str cv kvs ''status'') (\<lambda>status.
     rbind (case get_field kvs ''verdict'' of JNull \<Rightarrow> Inr None | v \<Rightarrow> Inr (Some (py_str_of cv v))) (\<lambda>verdict.
     rbind (case get_field kvs ''completed_step'' of JNull \<Rightarrow> Inr None
              | v \<Rightarrow> rbind (rcatch (\<lambda>_. BadManifest ''completed_step'') (py_int_of cv ''completed_step'' v)) (\<lambda>i. Inr (Some i))) (\<lambda>completed.
     rbind (as_fields (get_field kvs ''artifacts'')) (\<lambda>artifacts.
     rbind (ensure (checkpoint_id \<noteq> [] \<and> expected \<noteq> []) (BadManifest ''empty identity or shape plan'')) (\<lambda>_.
     Inr \<lparr>dr_checkpoint_id = checkpoint_id, dr_step = step, dr_validation_epoch = epoch, dr_shape_plan_id = plan,
          dr_environment_id = environment, dr_expected_shape_ids = map (py_str_of cv) expected,
          dr_checked_shapes = shapes, dr_status = status, dr_verdict = verdict, dr_completed_step = completed,
          dr_artifacts = artifacts\<rparr>))))))))))))))"

section \<open>The manifest directory\<close>

record manifests =
  mf_records :: "(string \<times> fields) list"
  mf_latest :: "fields option"
  mf_pending :: "fields option"

datatype manifest_write =
    WriteRecord durable_record
  | WriteLatest durable_record
  | WritePending durable_record
  | UnlinkPending

fun apply_write :: "manifest_write \<Rightarrow> manifests \<Rightarrow> manifests" where
  "apply_write (WriteRecord r) mf = mf\<lparr>mf_records := AList.update (dr_checkpoint_id r) (durable_to_dict r) (mf_records mf)\<rparr>"
| "apply_write (WriteLatest r) mf = mf\<lparr>mf_latest := Some (durable_to_dict r)\<rparr>"
| "apply_write (WritePending r) mf = mf\<lparr>mf_pending := Some (durable_to_dict r)\<rparr>"
| "apply_write UnlinkPending mf = mf\<lparr>mf_pending := None\<rparr>"

definition apply_writes :: "manifest_write list \<Rightarrow> manifests \<Rightarrow> manifests" where
  "apply_writes ws mf = fold apply_write ws mf"

definition store_write_pending :: "durable_record \<Rightarrow> manifest_write list" where
  "store_write_pending r = [WriteRecord r, WritePending r]"

definition store_commit :: "durable_record \<Rightarrow> manifest_write list" where
  "store_commit r = [WriteRecord r, WriteLatest r, UnlinkPending]"

definition store_reject :: "durable_record \<Rightarrow> manifest_write list" where
  "store_reject r = [WriteRecord r, UnlinkPending]"

definition read_manifest :: "py_conv \<Rightarrow> fields option \<Rightarrow> durable_error + durable_record option" where
  "read_manifest cv file =
     (case file of None \<Rightarrow> Inr None | Some kvs \<Rightarrow> rbind (durable_from_dict cv kvs) (\<lambda>r. Inr (Some r)))"

definition next_validation_epoch :: "py_conv \<Rightarrow> manifests \<Rightarrow> durable_error + int" where
  "next_validation_epoch cv mf =
     rbind (rmap (\<lambda>(name, kvs). durable_from_dict cv kvs) (mf_records mf)) (\<lambda>rs.
     Inr ((if rs = [] then 0 else Max (dr_validation_epoch ` set rs)) + 1))"

section \<open>The coordinator\<close>

record durable_config =
  dc_manifest_dir :: string
  dc_environment_id :: string
  dc_writer_rank :: int

definition durable_config_post_init :: "durable_config \<Rightarrow> durable_error + durable_config" where
  "durable_config_post_init dc =
     (if dc_manifest_dir dc = [] then Inl (EmptyConfig ''manifest_dir'')
      else if dc_environment_id dc = [] then Inl (EmptyConfig ''environment_id'')
      else if dc_writer_rank dc < 0 then Inl (EmptyConfig ''writer_rank'')
      else Inr dc)"

record durable =
  du_shape_plan_id :: string
  du_shape_ids :: "string list"
  du_environment_id :: string
  du_writer :: bool
  du_pending :: "durable_record option"
  du_latest :: "durable_record option"
  du_next_epoch :: int

datatype durable_event = NoEvent | Progress | Committed | Rejected

text \<open>What the coordinator reads of a replay result: whether it shows corruption, and the checked shapes.\<close>

record evidence =
  ev_sdc :: bool
  ev_checked :: "string list"

definition reject_record :: "durable_record \<Rightarrow> string \<Rightarrow> manifest_write list" where
  "reject_record candidate reason = store_reject (candidate\<lparr>dr_status := ''rejected'', dr_verdict := Some reason\<rparr>)"

definition is_certified_status :: "durable_record \<Rightarrow> bool" where
  "is_certified_status r = (dr_status r \<in> {''recovery_verified'', ''validated''} \<and> dr_verdict r = Some ''clean'')"

text \<open>The writes of a restarting coordinator for a pending marker it finds.\<close>

definition recover_pending :: "bool \<Rightarrow> durable_record option \<Rightarrow> durable_record option \<Rightarrow> manifest_write list" where
  "recover_pending writer stale latest =
     (case stale of
        None \<Rightarrow> []
      | Some s \<Rightarrow>
          if \<not> writer then []
          else if (case latest of None \<Rightarrow> False
                 | Some l \<Rightarrow> dr_checkpoint_id l = dr_checkpoint_id s \<and> is_certified_status l)
               then [UnlinkPending]
               else reject_record s ''validation incomplete when the checkpoint coordinator restarted'')"

definition init_durable ::
  "py_conv \<Rightarrow> durable_config \<Rightarrow> string \<Rightarrow> string list \<Rightarrow> string option \<Rightarrow> int \<Rightarrow> int \<Rightarrow> manifests \<Rightarrow>
     (durable_error + durable) \<times> manifests" where
  "init_durable cv dc shape_plan_id shape_ids topology_digest rank world_size mf =
     (case rbind (ensure (shape_plan_id \<noteq> []) (EmptyConfig ''shape_plan_id'')) (\<lambda>_.
           rbind (ensure (shape_ids \<noteq> [] \<and> distinct shape_ids) (EmptyConfig ''shape_ids'')) (\<lambda>_.
           rbind (ensure (topology_digest = None \<or> strip (the topology_digest) \<noteq> []) (EmptyConfig ''topology_digest'')) (\<lambda>_.
           rbind (ensure (dc_writer_rank dc < world_size) WriterOutsideGroup) (\<lambda>_.
           rbind (read_manifest cv (mf_pending mf)) (\<lambda>stale.
           rbind (read_manifest cv (mf_latest mf)) (\<lambda>latest.
           Inr (recover_pending (rank = dc_writer_rank dc) stale latest))))))) of
        Inl e \<Rightarrow> (Inl e, mf)
      | Inr ws \<Rightarrow>
          let mf1 = apply_writes ws mf
          in (rbind (read_manifest cv (mf_latest mf1)) (\<lambda>latest.
              rbind (next_validation_epoch cv mf1) (\<lambda>epoch.
              Inr \<lparr>du_shape_plan_id = shape_plan_id, du_shape_ids = shape_ids, du_environment_id = dc_environment_id dc,
                   du_writer = (rank = dc_writer_rank dc), du_pending = None, du_latest = latest, du_next_epoch = epoch\<rparr>)), mf1))"

definition rotate_shape_ids :: "string list \<Rightarrow> string \<Rightarrow> durable_error + string list" where
  "rotate_shape_ids shape_ids first_shape_id =
     (if first_shape_id \<notin> set shape_ids then Inl (UnknownShape first_shape_id)
      else let index = length (takeWhile (\<lambda>s. s \<noteq> first_shape_id) shape_ids)
           in Inr (drop index shape_ids @ take index shape_ids))"

definition candidate_id :: "int \<Rightarrow> int \<Rightarrow> string \<Rightarrow> string" where
  "candidate_id step epoch plan = ''scout-step-'' @ int_str step @ ''-epoch-'' @ int_str epoch @ ''-'' @ take 12 plan"

definition new_record :: "durable \<Rightarrow> int \<Rightarrow> string list \<Rightarrow> durable_record" where
  "new_record du step expected =
     \<lparr>dr_checkpoint_id = candidate_id step (du_next_epoch du) (du_shape_plan_id du), dr_step = step,
      dr_validation_epoch = du_next_epoch du, dr_shape_plan_id = du_shape_plan_id du,
      dr_environment_id = du_environment_id du, dr_expected_shape_ids = expected, dr_checked_shapes = [],
      dr_status = ''writing'', dr_verdict = None, dr_completed_step = None, dr_artifacts = []\<rparr>"

text \<open>
  \<open>starts\<close> is what the ranks gathered, \<open>artifacts\<close> what the local framework save returned, \<open>saved\<close> and
  \<open>persisted\<close> whether every rank's save and the writer's metadata write succeeded; a failed metadata
  write performed its first \<open>written\<close> atomic actions.
\<close>

definition begin_candidate ::
  "int \<Rightarrow> string \<Rightarrow> (string \<times> string list \<times> string \<times> string) list \<Rightarrow> fields \<Rightarrow> bool \<Rightarrow> bool \<Rightarrow> nat \<Rightarrow> durable \<Rightarrow>
     (durable_error + durable_record) \<times> durable \<times> manifest_write list" where
  "begin_candidate step first_shape_id starts artifacts saved persisted written du =
     (if du_pending du \<noteq> None then (Inl CandidatePending, du, [])
      else if \<exists>s \<in> set (tl starts). s \<noteq> hd starts then (Inl ShapePlanDiffers, du, [])
      else case rotate_shape_ids (du_shape_ids du) first_shape_id of
             Inl e \<Rightarrow> (Inl e, du, [])
           | Inr expected \<Rightarrow>
               let r = new_record du step expected;
                   own = (\<lambda>ws. if du_writer du then ws else []);
                   r1 = r\<lparr>dr_status := ''candidate'', dr_artifacts := (if du_writer du then artifacts else [])\<rparr>
               in if \<not> saved
                  then (Inl CandidateWriteFailed, du,
                        own (store_write_pending r @ reject_record r ''framework candidate checkpoint write failed''))
                  else if \<not> persisted
                  then (Inl MetadataNotPersisted, du,
                        own (store_write_pending r @ take written (store_write_pending r1) @
                             reject_record (r1\<lparr>dr_artifacts := []\<rparr>) ''candidate artifact metadata could not be persisted''))
                  else (Inr r1, du\<lparr>du_pending := Some r1, du_next_epoch := du_next_epoch du + 1\<rparr>,
                        own (store_write_pending r @ store_write_pending r1)))"

definition reject :: "string \<Rightarrow> durable \<Rightarrow> durable \<times> manifest_write list" where
  "reject reason du =
     (case du_pending du of
        None \<Rightarrow> (du, [])
      | Some candidate \<Rightarrow> (du\<lparr>du_pending := None\<rparr>, if du_writer du then reject_record candidate reason else []))"

definition commit :: "durable_record \<Rightarrow> int \<Rightarrow> durable \<Rightarrow> durable \<times> manifest_write list" where
  "commit candidate completed_step du =
     (let committed = candidate\<lparr>dr_status := ''recovery_verified'', dr_verdict := Some ''clean'',
            dr_completed_step := Some completed_step\<rparr>
      in (du\<lparr>du_latest := Some committed, du_pending := None\<rparr>, if du_writer du then store_commit committed else []))"

text \<open>The local reason for rejecting, and the shapes this rank checked.\<close>

definition local_observation :: "durable_record \<Rightarrow> evidence option \<Rightarrow> string option \<times> string list" where
  "local_observation candidate result =
     (case result of
        None \<Rightarrow> (Some ''scheduled SCOUT replay did not produce evidence'', [])
      | Some ev \<Rightarrow>
          if ev_sdc ev then (Some ''SCOUT detected numerical divergence'', [])
          else if ev_checked ev = [] then (Some ''SCOUT result did not identify any checked replay shape'', [])
          else let expected = take (length (ev_checked ev)) (drop (length (dr_checked_shapes candidate)) (dr_expected_shape_ids candidate))
               in (if ev_checked ev \<noteq> expected then Some ''SCOUT replay shape order differs from the candidate validation plan'' else None,
                   ev_checked ev))"

text \<open>\<open>gather\<close> gives what all ranks contributed, in rank order, for this rank's contribution.\<close>

definition observe ::
  "(string option \<times> string list \<Rightarrow> (string option \<times> string list) list) \<Rightarrow> evidence option \<Rightarrow> int \<Rightarrow> durable \<Rightarrow>
     durable_event \<times> durable \<times> manifest_write list" where
  "observe gather result step du =
     (case du_pending du of
        None \<Rightarrow> (NoEvent, du, [])
      | Some candidate \<Rightarrow>
          let (reason, checked) = local_observation candidate result;
              observations = gather (reason, checked)
          in case List.map_filter fst observations of
               rejection # _ \<Rightarrow> (case reject rejection du of (du1, ws) \<Rightarrow> (Rejected, du1, ws))
             | [] \<Rightarrow>
                 if \<exists>ob \<in> set observations. snd ob \<noteq> checked
                 then (case reject ''SCOUT checked different replay shapes across checkpoint ranks'' du of
                         (du1, ws) \<Rightarrow> (Rejected, du1, ws))
                 else let candidate1 = candidate\<lparr>dr_checked_shapes := dr_checked_shapes candidate @
                            map (\<lambda>s. \<lparr>sv_shape_id = s, sv_step = step\<rparr>) checked\<rparr>
                      in if record_complete candidate1
                         then (case commit candidate1 step (du\<lparr>du_pending := Some candidate1\<rparr>) of (du1, ws) \<Rightarrow> (Committed, du1, ws))
                         else (Progress, du\<lparr>du_pending := Some candidate1\<rparr>,
                               if du_writer du then store_write_pending candidate1 else []))"

text \<open>\<open>loaded\<close> is what the framework loader returns for the checkpoint.\<close>

definition load_latest_validated ::
  "py_conv \<Rightarrow> (durable_record \<Rightarrow> int option) \<Rightarrow> manifests \<Rightarrow> durable_error + int option" where
  "load_latest_validated cv loaded mf =
     rbind (read_manifest cv (mf_latest mf)) (\<lambda>latest.
     case latest of
       None \<Rightarrow> Inr None
     | Some r \<Rightarrow>
         rbind (ensure (is_certified_status r) NotRecoveryVerified) (\<lambda>_.
         rbind (ensure (record_complete r) IncompleteCoverage) (\<lambda>_.
         case loaded r of
           None \<Rightarrow> Inl LoadedStepDiffers
         | Some step \<Rightarrow> if step \<noteq> dr_step r then Inl LoadedStepDiffers else Inr (Some step))))"

end
