(* ===== verification/Certification.thy ===== *)
theory Certification
  imports Manager Durable Consensus
begin

text \<open>
  \<open>lm_resiliency/cadence.py\<close> and \<open>lm_resiliency/integrations/_checkpoint_certification.py\<close>: which training
  steps check and capture, and how one replay result, agreed on by all ranks, moves the trust in the
  in-memory checkpoint and the durable candidate. The operations are those of one rank; a maximum
  reduction of flags is the disjunction over the results of all ranks, which are an argument. Fault
  reporting, logging and the communication localizer have no effect on this state.
\<close>

section \<open>Cadence\<close>

record cadence =
  ca_interval :: int
  ca_checkpoint_enabled :: bool
  ca_detection_enabled :: bool

datatype cadence_error = IntervalNotPositive | IntervalsDiffer

definition cadence_post_init :: "cadence \<Rightarrow> cadence_error + cadence" where
  "cadence_post_init ca =
     (if (ca_checkpoint_enabled ca \<or> ca_detection_enabled ca) \<and> ca_interval ca \<le> 0 then Inl IntervalNotPositive else Inr ca)"

definition from_component_intervals :: "int \<Rightarrow> int \<Rightarrow> cadence_error + cadence" where
  "from_component_intervals checkpoint_interval detection_interval =
     (let enabled_intervals = remdups (filter (\<lambda>i. 0 < i) [checkpoint_interval, detection_interval])
      in if 1 < length enabled_intervals then Inl IntervalsDiffer
         else cadence_post_init
           \<lparr>ca_interval = (case enabled_intervals of [] \<Rightarrow> 0 | i # _ \<Rightarrow> i),
            ca_checkpoint_enabled = (0 < checkpoint_interval), ca_detection_enabled = (0 < detection_interval)\<rparr>)"

definition detection_due :: "cadence \<Rightarrow> int \<Rightarrow> bool" where
  "detection_due ca step = (ca_detection_enabled ca \<and> step mod ca_interval ca = 0)"

definition checkpoint_due :: "cadence \<Rightarrow> int \<Rightarrow> bool" where
  "checkpoint_due ca step = (if \<not> ca_checkpoint_enabled ca then False else step mod ca_interval ca = 0)"

section \<open>Replay results\<close>

text \<open>The part of a replay result that decides about checkpoints.\<close>

record replay_result =
  rr_sdc_bitmap :: "int list"
  rr_c3_statuses :: "c3_status list"
  rr_checked_shape_ids :: "string list"
  rr_completed_shape_cycle :: bool
  rr_completed_scheduled_cycle :: bool
  rr_dense_replay :: bool

definition replay_result_has_sdc :: "replay_result option \<Rightarrow> bool" where
  "replay_result_has_sdc result =
     (case result of
        None \<Rightarrow> False
      | Some r \<Rightarrow> if \<exists>bit \<in> set (rr_sdc_bitmap r). bit \<noteq> 0 then True else Inconclusive_c3 \<in> set (rr_c3_statuses r))"

definition replay_result_certifies_checkpoint :: "replay_result option \<Rightarrow> bool" where
  "replay_result_certifies_checkpoint result =
     (case result of None \<Rightarrow> False | Some r \<Rightarrow> rr_completed_shape_cycle r \<and> \<not> replay_result_has_sdc result)"

definition result_evidence :: "replay_result option \<Rightarrow> evidence option" where
  "result_evidence result =
     map_option (\<lambda>r. \<lparr>ev_sdc = replay_result_has_sdc result, ev_checked = rr_checked_shape_ids r\<rparr>) result"

record replay_consensus =
  rc_all_results_available :: bool
  rc_any_sdc :: bool
  rc_scheduled_cycles_agree :: bool
  rc_scheduled_cycle_complete :: bool
  rc_all_shape_cycles_complete :: bool

definition global_replay_consensus :: "replay_result option list \<Rightarrow> replay_consensus" where
  "global_replay_consensus results =
     (let flag = (\<lambda>p. \<exists>r \<in> set results. case r of None \<Rightarrow> False | Some x \<Rightarrow> p x);
          any_missing = (\<exists>r \<in> set results. r = None);
          any_sdc = (\<exists>r \<in> set results. replay_result_has_sdc r);
          any_scheduled_complete = flag rr_completed_scheduled_cycle;
          any_scheduled_incomplete = flag (\<lambda>r. \<not> rr_completed_scheduled_cycle r);
          any_shape_complete = flag rr_completed_shape_cycle;
          any_shape_incomplete = flag (\<lambda>r. \<not> rr_completed_shape_cycle r)
      in \<lparr>rc_all_results_available = (\<not> any_missing), rc_any_sdc = any_sdc,
          rc_scheduled_cycles_agree = (\<not> (any_scheduled_complete \<and> any_scheduled_incomplete)),
          rc_scheduled_cycle_complete = (any_scheduled_complete \<and> \<not> any_scheduled_incomplete),
          rc_all_shape_cycles_complete = (any_shape_complete \<and> \<not> any_shape_incomplete)\<rparr>)"

section \<open>The coordinator\<close>

datatype failure_kind = Hang | Sdc | Straggler | Uncertain | MachineUnavailable

fun failure_value :: "failure_kind \<Rightarrow> string" where
  "failure_value Hang = ''hang''"
| "failure_value Sdc = ''sdc''"
| "failure_value Straggler = ''straggler''"
| "failure_value Uncertain = ''uncertain''"
| "failure_value MachineUnavailable = ''machine_unavailable''"

record certification =
  ce_cadence :: cadence
  ce_manager :: "manager option"
  ce_durable :: "(durable \<times> manifests) option"

datatype certification_error =
    ManagerFailed manager_error
  | DurableFailed durable_error
  | CyclesDisagree
  | NoHarness
  | DenseNotCommitted
  | AssertionFailed

text \<open>
  What the surroundings contribute to one call: the framework's own save routine if there is one, the
  captured tensors, how joined threads end, the reductions and gathers, and what saving the durable
  candidate gives. \<open>en_first_shape\<close> is \<open>None\<close> when there is no replay harness.
\<close>

record surroundings =
  en_runtime :: runtime
  en_checkpoint_save :: "(manager \<Rightarrow> (manager_error + unit) \<times> manager) option"
  en_tensors :: "tensor list"
  en_non_tensor :: string
  en_flushed :: bool
  en_save_outcome :: outcome
  en_boundary_outcome :: outcome
  en_reduced :: "int \<Rightarrow> int"
  en_gather :: "string option \<times> string list \<Rightarrow> (string option \<times> string list) list"
  en_first_shape :: "string option"
  en_starts :: "(string \<times> string list \<times> string \<times> string) list"
  en_artifacts :: fields
  en_saved :: bool
  en_persisted :: bool
  en_written :: nat

definition lift_manager ::
  "(manager \<Rightarrow> (manager_error + 'a) \<times> manager) \<Rightarrow> certification \<Rightarrow> (certification_error + unit) \<times> certification" where
  "lift_manager f ce =
     (case ce_manager ce of
        None \<Rightarrow> (Inr (), ce)
      | Some mg \<Rightarrow> (case f mg of
            (Inl e, mg1) \<Rightarrow> (Inl (ManagerFailed e), ce\<lparr>ce_manager := Some mg1\<rparr>)
          | (Inr _, mg1) \<Rightarrow> (Inr (), ce\<lparr>ce_manager := Some mg1\<rparr>)))"

definition init_certification :: "surroundings \<Rightarrow> certification \<Rightarrow> (certification_error + unit) \<times> certification" where
  "init_certification en ce =
     (case (ce_manager ce, ce_durable ce) of
        (Some mg, durable) \<Rightarrow>
          (case read_trust (en_runtime en) mg of
             Inl e \<Rightarrow> (Inl (ManagerFailed e), ce)
           | Inr status \<Rightarrow>
               if (case durable of None \<Rightarrow> False | Some (du, _) \<Rightarrow> du_pending du = None) \<and> 0 < cs_candidate_step status
               then lift_manager (clear_candidate (en_runtime en)) ce
               else (Inr (), ce))
      | (None, _) \<Rightarrow> (Inr (), ce))"

definition save_checkpoint :: "surroundings \<Rightarrow> int \<Rightarrow> certification \<Rightarrow> (certification_error + unit) \<times> certification" where
  "save_checkpoint en step =
     lift_manager (case en_checkpoint_save en of
         Some save \<Rightarrow> save
       | None \<Rightarrow> save_tensors (en_runtime en) (en_save_outcome en) (en_flushed en) (en_tensors en) (en_non_tensor en) step)"

definition durable_reject :: "string \<Rightarrow> certification \<Rightarrow> certification" where
  "durable_reject reason ce =
     (case ce_durable ce of
        None \<Rightarrow> ce
      | Some (du, mf) \<Rightarrow> (case reject reason du of (du1, ws) \<Rightarrow> ce\<lparr>ce_durable := Some (du1, apply_writes ws mf)\<rparr>))"

definition cert_reject_candidate :: "surroundings \<Rightarrow> string \<Rightarrow> certification \<Rightarrow> (certification_error + unit) \<times> certification" where
  "cert_reject_candidate en reason ce = lift_manager (reject_candidate (en_runtime en)) (durable_reject reason ce)"

definition durable_observe :: "surroundings \<Rightarrow> replay_result option \<Rightarrow> int \<Rightarrow> certification \<Rightarrow> durable_event \<times> certification" where
  "durable_observe en result step ce =
     (case ce_durable ce of
        None \<Rightarrow> (NoEvent, ce)
      | Some (du, mf) \<Rightarrow> (case observe (en_gather en) (result_evidence result) step du of
            (event, du1, ws) \<Rightarrow> (event, ce\<lparr>ce_durable := Some (du1, apply_writes ws mf)\<rparr>)))"

definition durable_pending :: "certification \<Rightarrow> bool" where
  "durable_pending ce = (case ce_durable ce of None \<Rightarrow> False | Some (du, _) \<Rightarrow> du_pending du \<noteq> None)"

definition durable_begin :: "surroundings \<Rightarrow> int \<Rightarrow> string \<Rightarrow> certification \<Rightarrow> (certification_error + unit) \<times> certification" where
  "durable_begin en step shape ce =
     (case ce_durable ce of
        None \<Rightarrow> (Inr (), ce)
      | Some (du, mf) \<Rightarrow>
          (case begin_candidate step shape (en_starts en) (en_artifacts en) (en_saved en) (en_persisted en) (en_written en) du of
             (Inl e, du1, ws) \<Rightarrow> (Inl (DurableFailed e), ce\<lparr>ce_durable := Some (du1, apply_writes ws mf)\<rparr>)
           | (Inr _, du1, ws) \<Rightarrow> (Inr (), ce\<lparr>ce_durable := Some (du1, apply_writes ws mf)\<rparr>)))"

definition and_then ::
  "(certification_error + unit) \<times> certification \<Rightarrow> (certification \<Rightarrow> (certification_error + unit) \<times> certification) \<Rightarrow>
     (certification_error + unit) \<times> certification" where
  "and_then m f = (case m of (Inl e, ce) \<Rightarrow> (Inl e, ce) | (Inr _, ce) \<Rightarrow> f ce)"

text \<open>Starting the durable candidate, and its immediate commit for a dense replay.\<close>

definition start_durable :: "surroundings \<Rightarrow> replay_result \<Rightarrow> int \<Rightarrow> certification \<Rightarrow> (certification_error + unit) \<times> certification" where
  "start_durable en result step ce =
     (case en_first_shape en of
        None \<Rightarrow> (Inl NoHarness, ce)
      | Some shape \<Rightarrow>
          (case and_then (durable_begin en step shape ce) (\<lambda>ce1.
                  if rr_dense_replay result
                  then (case durable_observe en (Some result) step ce1 of
                          (event, ce2) \<Rightarrow> (if event \<noteq> Committed then Inl DenseNotCommitted else Inr (), ce2))
                  else (Inr (), ce1)) of
             (Inl e, ce1) \<Rightarrow> and_then (lift_manager (clear_candidate (en_runtime en)) ce1) (\<lambda>ce2. (Inl e, ce2))
           | (Inr _, ce1) \<Rightarrow> (Inr (), ce1)))"

text \<open>The end of a scheduled cycle with complete clean evidence.\<close>

definition cycle_boundary ::
  "surroundings \<Rightarrow> replay_result \<Rightarrow> bool \<Rightarrow> bool \<Rightarrow> int \<Rightarrow> certification \<Rightarrow> (certification_error + unit) \<times> certification" where
  "cycle_boundary en result should_save force_checkpoint step ce =
     and_then (if should_save
               then lift_manager (persist_boundary (en_runtime en) (en_boundary_outcome en) (en_reduced en) step (rr_dense_replay result)) ce
               else (Inr (), ce)) (\<lambda>ce1.
     if ce_durable ce1 \<noteq> None \<and>
        (force_checkpoint \<or> \<not> ca_checkpoint_enabled (ce_cadence ce1) \<or> checkpoint_due (ce_cadence ce1) step)
     then start_durable en result step ce1
     else (Inr (), ce1))"

text \<open>What follows the capture of an accepted round: durable evidence, then the cycle boundary.\<close>

definition settle_round ::
  "surroundings \<Rightarrow> bool \<Rightarrow> replay_result \<Rightarrow> bool \<Rightarrow> bool \<Rightarrow> int \<Rightarrow> certification \<Rightarrow> (certification_error + unit) \<times> certification" where
  "settle_round en cycle_complete result should_save force_checkpoint step ce =
     (case (if durable_pending ce then durable_observe en (Some result) step ce else (NoEvent, ce)) of (event, ce1) \<Rightarrow>
        if event = Rejected then lift_manager (reject_candidate (en_runtime en)) ce1
        else if \<not> cycle_complete then (Inr (), ce1)
        else if durable_pending ce1 \<and> event \<noteq> Committed
        then lift_manager (reject_candidate (en_runtime en))
               (durable_reject ''SCOUT scheduled cycle ended without complete candidate evidence'' ce1)
        else cycle_boundary en result should_save force_checkpoint step ce1)"

definition apply_result ::
  "surroundings \<Rightarrow> replay_result option list \<Rightarrow> int \<Rightarrow> replay_result option \<Rightarrow> bool \<Rightarrow> bool \<Rightarrow> certification \<Rightarrow>
     (certification_error + unit) \<times> certification" where
  "apply_result en results step replay_result force_checkpoint require_full_shape_cycle ce =
     (let consensus = global_replay_consensus results;
          should_save = (force_checkpoint \<or> checkpoint_due (ce_cadence ce) step)
      in if \<not> rc_all_results_available consensus then (Inr (), ce)
         else if rc_any_sdc consensus then cert_reject_candidate en ''SCOUT detected numerical divergence'' ce
         else if require_full_shape_cycle \<and> \<not> rc_all_shape_cycles_complete consensus then (Inr (), ce)
         else if \<not> rc_scheduled_cycles_agree consensus then (Inl CyclesDisagree, ce)
         else case replay_result of
           None \<Rightarrow> (Inl AssertionFailed, ce)
         | Some result \<Rightarrow>
             and_then (if should_save then save_checkpoint en step ce else (Inr (), ce))
               (settle_round en (rc_scheduled_cycle_complete consensus) result should_save force_checkpoint step))"

text \<open>\<open>replay_result\<close> is what the harness returned for this step, \<open>None\<close> also when there is no harness.\<close>

definition post_step ::
  "surroundings \<Rightarrow> replay_result option list \<Rightarrow> int \<Rightarrow> replay_result option \<Rightarrow> certification \<Rightarrow> (certification_error + unit) \<times> certification" where
  "post_step en results step replay_result ce =
     (if \<not> ca_detection_enabled (ce_cadence ce)
      then (if checkpoint_due (ce_cadence ce) step then save_checkpoint en step ce else (Inr (), ce))
      else if detection_due (ce_cadence ce) step \<or> replay_result \<noteq> None
      then apply_result en results step replay_result False False ce
      else (Inr (), ce))"

text \<open>\<open>results\<close> are those of all ranks after each has marked a complete sweep as the end of its cycle.\<close>

definition mark_swept :: "replay_result option \<Rightarrow> replay_result option" where
  "mark_swept = map_option (\<lambda>r. if rr_completed_shape_cycle r then r\<lparr>rr_completed_scheduled_cycle := True\<rparr> else r)"

definition save_now ::
  "surroundings \<Rightarrow> replay_result option list \<Rightarrow> int \<Rightarrow> replay_result option \<Rightarrow> certification \<Rightarrow> (certification_error + unit) \<times> certification" where
  "save_now en results step replay_result ce =
     (if ce_manager ce = None \<and> ce_durable ce = None then (Inr (), ce)
      else apply_result en (map mark_swept results) step (mark_swept replay_result) True True ce)"

text \<open>\<open>swept\<close> are the results of all ranks of the full sweep made when the kind of failure leaves the choice open.\<close>

definition recovery_mode_for :: "failure_kind \<Rightarrow> bool \<Rightarrow> replay_result option list \<Rightarrow> recovery_mode" where
  "recovery_mode_for failure all_ranks_accessible swept =
     (if \<not> all_ranks_accessible \<or> failure = MachineUnavailable then RecoveryVerified
      else if failure = Sdc then RecoveryVerified
      else if failure = Straggler then LatestGemini
      else let consensus = global_replay_consensus swept
           in if \<not> rc_all_results_available consensus \<or> \<not> rc_all_shape_cycles_complete consensus \<or> rc_any_sdc consensus
              then RecoveryVerified else LatestGemini)"

definition prepare_recovery ::
  "surroundings \<Rightarrow> failure_kind \<Rightarrow> bool \<Rightarrow> replay_result option list \<Rightarrow> certification \<Rightarrow>
     (certification_error + recovery_mode) \<times> certification" where
  "prepare_recovery en failure all_ranks_accessible swept ce =
     (let mode = recovery_mode_for failure all_ranks_accessible swept
      in case (if mode = RecoveryVerified then cert_reject_candidate en (failure_value failure @ '' recovery invalidated the current candidate'') ce
               else lift_manager (set_recovery_mode (en_runtime en) mode) ce) of
           (Inl e, ce1) \<Rightarrow> (Inl e, ce1)
         | (Inr _, ce1) \<Rightarrow> (Inr mode, ce1))"

end
