(* ===== verification/Durable_Laws.thy ===== *)
theory Durable_Laws
  imports Durable
begin

text \<open>
  Runs of the durable-checkpoint coordinator with crashes between any two atomic writes: what the published
  pointer of \<open>durable.py\<close> guarantees, that restarts always succeed, and that a clean replay cycle commits.
\<close>

section \<open>Runs with crashes\<close>

text \<open>
  An observation as the run logs it: the candidate, the training step, this rank's replay result and what
  all ranks contributed. The log is kept beside the program, which never reads it.
\<close>

record observation_entry =
  oe_checkpoint_id :: string
  oe_step :: int
  oe_result :: "evidence option"
  oe_gathered :: "(string option \<times> string list) list"

record durable_run =
  dn_files :: manifests
  dn_proc :: "durable option"
  dn_log :: "observation_entry list"

definition clean_evidence :: "observation_entry list \<Rightarrow> string \<Rightarrow> shape_validation \<Rightarrow> bool" where
  "clean_evidence hist i v \<longleftrightarrow> (\<exists>oe \<in> set hist. \<exists>ev. oe_checkpoint_id oe = i \<and> oe_step oe = sv_step v \<and>
     oe_result oe = Some ev \<and> \<not> ev_sdc ev \<and> sv_shape_id v \<in> set (ev_checked ev) \<and>
     (\<forall>ob \<in> set (oe_gathered oe). ob = (None, ev_checked ev)))"

text \<open>The calls of a live writer, each with the writes it makes. An all-gather includes the caller's value.\<close>

inductive durable_op :: "durable \<Rightarrow> observation_entry list \<Rightarrow> durable \<Rightarrow> manifest_write list \<Rightarrow> observation_entry list \<Rightarrow> bool" where
  begin_op: "begin_candidate step first starts artifacts saved persisted written du = (res, du', ws) \<Longrightarrow> durable_op du hist du' ws hist"
| reject_op: "reject reason du = (du', ws) \<Longrightarrow> durable_op du hist du' ws hist"
| idle_op: "du_pending du = None \<Longrightarrow> observe gather result step du = (event, du', ws) \<Longrightarrow> durable_op du hist du' ws hist"
| observe_op: "du_pending du = Some c \<Longrightarrow> own = local_observation c result \<Longrightarrow> own \<in> set (gather own) \<Longrightarrow>
    observe gather result step du = (event, du', ws) \<Longrightarrow>
    durable_op du hist du' ws (hist @ [\<lparr>oe_checkpoint_id = dr_checkpoint_id c, oe_step = step, oe_result = result, oe_gathered = gather own\<rparr>])"

text \<open>A call completes, or the process dies after some of its writes and is started again later.\<close>

inductive durable_step :: "py_conv \<Rightarrow> durable_run \<Rightarrow> durable_run \<Rightarrow> bool" for cv where
  call_step: "dn_proc s = Some du \<Longrightarrow> durable_op du (dn_log s) du' ws hist' \<Longrightarrow>
    durable_step cv s \<lparr>dn_files = apply_writes ws (dn_files s), dn_proc = Some du', dn_log = hist'\<rparr>"
| crash_step: "dn_proc s = Some du \<Longrightarrow> durable_op du (dn_log s) du' ws hist' \<Longrightarrow>
    durable_step cv s \<lparr>dn_files = apply_writes (take n ws) (dn_files s), dn_proc = None, dn_log = hist'\<rparr>"
| start_step: "dn_proc s = None \<Longrightarrow>
    init_durable cv dc plan ids digest (dc_writer_rank dc) world (dn_files s) = (Inr du, mf) \<Longrightarrow>
    durable_step cv s (s\<lparr>dn_files := mf, dn_proc := Some du\<rparr>)"
| start_crash_step: "dn_proc s = None \<Longrightarrow> read_manifest cv (mf_pending (dn_files s)) = Inr stale \<Longrightarrow>
    read_manifest cv (mf_latest (dn_files s)) = Inr latest \<Longrightarrow>
    durable_step cv s (s\<lparr>dn_files := apply_writes (take n (recover_pending True stale latest)) (dn_files s)\<rparr>)"

definition empty_run :: durable_run where
  "empty_run = \<lparr>dn_files = \<lparr>mf_records = [], mf_latest = None, mf_pending = None\<rparr>, dn_proc = None, dn_log = []\<rparr>"

inductive durable_reachable :: "py_conv \<Rightarrow> durable_run \<Rightarrow> bool" for cv where
  empty: "durable_reachable cv empty_run"
| step: "durable_reachable cv s \<Longrightarrow> durable_step cv s s' \<Longrightarrow> durable_reachable cv s'"

section \<open>Records and files\<close>

definition record_wf :: "durable_record \<Rightarrow> bool" where
  "record_wf r \<longleftrightarrow> dr_checkpoint_id r \<noteq> [] \<and> dr_expected_shape_ids r \<noteq> []"

lemma rmap_shapes:
  "rmap (as_shape cv) (map (\<lambda>v. JObj [(''shape_id'', JStr (sv_shape_id v)), (''step'', JInt (sv_step v))]) vs) = Inr vs"
  by (induction vs) (simp_all add: as_shape_def as_str_def as_int_def need_def py_str_of_def py_int_of_def)

lemma durable_round_trip: "record_wf r \<Longrightarrow> durable_from_dict cv (durable_to_dict r) = Inr r"
  by (cases "dr_verdict r"; cases "dr_completed_step r")
    (simp_all add: durable_from_dict_def durable_to_dict_def record_wf_def as_str_def as_int_def need_def py_str_of_def
      py_int_of_def get_field_def get_default_def as_list_def as_fields_def json_option_def rmap_shapes comp_def)

lemma durable_to_dict_eq: "durable_to_dict r = durable_to_dict r' \<Longrightarrow> record_wf r \<Longrightarrow> record_wf r' \<Longrightarrow> r = r'"
  by (metis durable_round_trip sum.inject(2))

definition certified :: "observation_entry list \<Rightarrow> durable_record \<Rightarrow> bool" where
  "certified hist r \<longleftrightarrow> is_certified_status r \<and> record_complete r \<and>
     (\<forall>v \<in> set (dr_checked_shapes r). clean_evidence hist (dr_checkpoint_id r) v)"

lemma clean_evidence_log: "clean_evidence hist i v \<Longrightarrow> clean_evidence (hist @ later) i v"
  unfolding clean_evidence_def by (metis UnCI set_append)

lemma certified_log: "certified hist r \<Longrightarrow> certified (hist @ later) r"
  by (auto simp: certified_def clean_evidence_log)

definition stored :: "(durable_record \<Rightarrow> bool) \<Rightarrow> fields \<Rightarrow> bool" where
  "stored P kvs \<longleftrightarrow> (\<exists>r. kvs = durable_to_dict r \<and> record_wf r \<and> P r)"

lemma stored_mono: "stored P kvs \<Longrightarrow> (\<And>r. P r \<Longrightarrow> Q r) \<Longrightarrow> stored Q kvs"
  by (auto simp: stored_def)

lemma stored_read: "stored P kvs \<Longrightarrow> \<exists>r. durable_from_dict cv kvs = Inr r \<and> kvs = durable_to_dict r \<and> record_wf r \<and> P r"
  by (auto simp: stored_def durable_round_trip)

definition has_epoch :: "int \<Rightarrow> manifests \<Rightarrow> bool" where
  "has_epoch e mf \<longleftrightarrow> (\<exists>kvs \<in> snd ` set (mf_records mf). stored (\<lambda>r. e \<le> dr_validation_epoch r) kvs)"

text \<open>Every file is a well-formed record of an epoch up to \<open>e\<close>; the pending marker, if any, is of epoch \<open>e\<close>.\<close>

definition files_ok :: "observation_entry list \<Rightarrow> int \<Rightarrow> manifests \<Rightarrow> bool" where
  "files_ok hist e mf \<longleftrightarrow>
     (\<forall>kvs \<in> snd ` set (mf_records mf). stored (\<lambda>r. dr_validation_epoch r \<le> e) kvs) \<and>
     (\<forall>kvs. mf_pending mf = Some kvs \<longrightarrow> stored (\<lambda>r. dr_validation_epoch r = e) kvs) \<and>
     (\<forall>kvs. mf_latest mf = Some kvs \<longrightarrow> stored (\<lambda>r. certified hist r \<and> has_epoch (dr_validation_epoch r) mf) kvs)"

fun write_ok :: "observation_entry list \<Rightarrow> int \<Rightarrow> manifests \<Rightarrow> manifest_write \<Rightarrow> bool" where
  "write_ok hist e mf (WriteRecord r) \<longleftrightarrow> record_wf r \<and> dr_validation_epoch r = e"
| "write_ok hist e mf (WritePending r) \<longleftrightarrow> record_wf r \<and> dr_validation_epoch r = e"
| "write_ok hist e mf (WriteLatest r) \<longleftrightarrow> record_wf r \<and> dr_validation_epoch r = e \<and> certified hist r \<and> has_epoch e mf"
| "write_ok hist e mf UnlinkPending \<longleftrightarrow> True"

lemma set_update: "set (AList.update k v al) \<subseteq> insert (k, v) (set al)"
  by (induction al) auto

lemma update_keeps:
  assumes "x \<in> snd ` set al" shows "x \<in> snd ` set (AList.update k v al) \<or> v \<in> snd ` set (AList.update k v al)"
  using assms by (induction al) auto

lemma update_has: "v \<in> snd ` set (AList.update k v al)"
  by (induction al) auto

lemma has_epoch_write:
  assumes "has_epoch e' mf" "write_ok hist e mf w" "e' \<le> e" shows "has_epoch e' (apply_write w mf)"
proof (cases w)
  case (WriteRecord r)
  then have "stored (\<lambda>r. e' \<le> dr_validation_epoch r) (durable_to_dict r)" using assms by (auto simp: stored_def)
  then show ?thesis unfolding has_epoch_def WriteRecord by (rule bexI) (simp add: update_has)
qed (use assms in \<open>auto simp: has_epoch_def\<close>)

lemma files_ok_has: "files_ok hist e mf \<Longrightarrow> has_epoch e' mf \<Longrightarrow> e' \<le> e"
  by (fastforce simp: files_ok_def has_epoch_def stored_def dest!: durable_to_dict_eq)

lemma files_ok_write:
  assumes ok: "files_ok hist e mf" and w: "write_ok hist e mf w"
  shows "files_ok hist e (apply_write w mf)"
proof -
  have latest: "\<forall>kvs. mf_latest mf = Some kvs \<longrightarrow>
      stored (\<lambda>r. certified hist r \<and> has_epoch (dr_validation_epoch r) (apply_write w mf)) kvs"
    using ok files_ok_has [OF ok] has_epoch_write [OF _ w] unfolding files_ok_def stored_def by metis
  show ?thesis
  proof (cases w)
    case (WriteRecord r)
    then show ?thesis
      using ok w latest set_update [of "dr_checkpoint_id r" "durable_to_dict r" "mf_records mf"]
      by (fastforce simp: files_ok_def stored_def)
  next
    case (WriteLatest r)
    have "has_epoch e (apply_write w mf)" using has_epoch_write [OF _ w] w WriteLatest by simp
    then show ?thesis using ok w WriteLatest by (auto simp: files_ok_def stored_def)
  qed (use ok w latest in \<open>auto simp: files_ok_def stored_def\<close>)
qed

text \<open>The writes of one call all concern one epoch, and a pointer is published only after its record.\<close>

definition writes_ok :: "observation_entry list \<Rightarrow> int \<Rightarrow> manifests \<Rightarrow> manifest_write list \<Rightarrow> bool" where
  "writes_ok hist e mf ws \<longleftrightarrow> (\<forall>w \<in> set ws. write_ok hist e mf w)"

lemma write_ok_later: "write_ok hist e mf w \<Longrightarrow> (has_epoch e mf \<Longrightarrow> has_epoch e mf') \<Longrightarrow> write_ok hist e mf' w"
  by (cases w) auto

lemma writes_ok_Cons: "writes_ok hist e mf (w # ws) \<Longrightarrow> write_ok hist e mf w \<and> writes_ok hist e (apply_write w mf) ws"
  using has_epoch_write [of e mf hist e w] write_ok_later [of hist e mf _ "apply_write w mf"] by (auto simp: writes_ok_def)

lemma files_ok_writes: "files_ok hist e mf \<Longrightarrow> writes_ok hist e mf ws \<Longrightarrow> files_ok hist e (apply_writes ws mf)"
proof (induction ws arbitrary: mf)
  case (Cons w ws)
  then show ?case using writes_ok_Cons [OF Cons.prems(2)] files_ok_write [OF Cons.prems(1)] by (simp add: apply_writes_def)
qed (simp add: apply_writes_def)

lemma has_epoch_writes: "has_epoch e mf \<Longrightarrow> writes_ok hist e mf ws \<Longrightarrow> has_epoch e (apply_writes ws mf)"
proof (induction ws arbitrary: mf)
  case (Cons w ws)
  then show ?case
    using writes_ok_Cons [OF Cons.prems(2)] has_epoch_write [OF Cons.prems(1), of hist e w] by (simp add: apply_writes_def)
qed (simp add: apply_writes_def)

lemma writes_ok_take: "writes_ok hist e mf ws \<Longrightarrow> writes_ok hist e mf (take n ws)"
  by (auto simp: writes_ok_def dest: in_set_takeD)

lemma files_ok_log: "files_ok hist e mf \<Longrightarrow> files_ok (hist @ later) e mf"
  using certified_log by (fastforce simp: files_ok_def stored_def)

section \<open>The invariant\<close>

definition proc_epoch :: "durable \<Rightarrow> int" where
  "proc_epoch du = (case du_pending du of None \<Rightarrow> du_next_epoch du | Some c \<Rightarrow> dr_validation_epoch c)"

definition pending_ok :: "observation_entry list \<Rightarrow> durable \<Rightarrow> manifests \<Rightarrow> bool" where
  "pending_ok hist du mf =
     (case du_pending du of
        None \<Rightarrow> mf_pending mf = None
      | Some c \<Rightarrow> record_wf c \<and> du_next_epoch du = dr_validation_epoch c + 1 \<and> has_epoch (dr_validation_epoch c) mf \<and>
          (\<forall>v \<in> set (dr_checked_shapes c). clean_evidence hist (dr_checkpoint_id c) v))"

definition proc_ok :: "observation_entry list \<Rightarrow> durable \<Rightarrow> manifests \<Rightarrow> bool" where
  "proc_ok hist du mf \<longleftrightarrow> du_writer du \<and> du_shape_ids du \<noteq> [] \<and> files_ok hist (proc_epoch du) mf \<and>
     mf_latest mf = map_option durable_to_dict (du_latest du) \<and>
     (\<forall>l. du_latest du = Some l \<longrightarrow> record_wf l \<and> dr_validation_epoch l < proc_epoch du) \<and> pending_ok hist du mf"

lemma files_ok_raise: "files_ok hist e mf \<Longrightarrow> mf_pending mf = None \<Longrightarrow> e \<le> e' \<Longrightarrow> files_ok hist e' mf"
  by (fastforce simp: files_ok_def stored_def)

lemma apply_writes_simps [simp]:
  "apply_writes [] mf = mf"
  "apply_writes (w # ws) mf = apply_writes ws (apply_write w mf)"
  "apply_writes (ws @ ws') mf = apply_writes ws' (apply_writes ws mf)"
  by (simp_all add: apply_writes_def)

lemma latest_kept: "\<forall>r. WriteLatest r \<notin> set ws \<Longrightarrow> mf_latest (apply_writes ws mf) = mf_latest mf"
proof (induction ws arbitrary: mf)
  case (Cons w ws) then show ?case by (cases w) auto
qed simp

text \<open>A call that leaves no candidate pending and publishes nothing.\<close>

lemma proc_ok_none:
  assumes ok: "proc_ok hist du mf" and ws: "writes_ok hist' (proc_epoch du) mf ws" "\<forall>r. WriteLatest r \<notin> set ws"
    and files: "files_ok hist' (proc_epoch du) mf"
    and pending: "mf_pending (apply_writes ws mf) = None" "du_pending du' = None"
    and same: "du_writer du'" "du_shape_ids du' = du_shape_ids du" "du_latest du' = du_latest du" "du_next_epoch du' = du_next_epoch du"
  shows "proc_ok hist' du' (apply_writes ws mf)"
proof -
  have le: "proc_epoch du \<le> proc_epoch du'"
    using ok pending same by (auto simp: proc_ok_def proc_epoch_def pending_ok_def split: option.splits)
  show ?thesis
    using ok latest_kept [OF ws(2)] files_ok_raise [OF files_ok_writes [OF files ws(1)] pending(1) le] pending same le
    by (auto simp: proc_ok_def pending_ok_def)
qed

lemma rotate_nonempty: "rotate_shape_ids ids first = Inr expected \<Longrightarrow> expected \<noteq> []"
  by (auto simp: rotate_shape_ids_def Let_def split: if_splits)

lemma new_record_simps [simp]:
  "dr_validation_epoch (new_record du step expected) = du_next_epoch du"
  "dr_expected_shape_ids (new_record du step expected) = expected"
  "dr_checked_shapes (new_record du step expected) = []"
  "dr_checkpoint_id (new_record du step expected) \<noteq> []"
  by (simp_all add: new_record_def candidate_id_def)

lemmas write_defs = store_write_pending_def store_commit_def store_reject_def reject_record_def

lemma record_wf_update [simp]:
  "record_wf (r\<lparr>dr_status := a\<rparr>) = record_wf r" "record_wf (r\<lparr>dr_verdict := b\<rparr>) = record_wf r"
  "record_wf (r\<lparr>dr_artifacts := c\<rparr>) = record_wf r" "record_wf (r\<lparr>dr_checked_shapes := d\<rparr>) = record_wf r"
  "record_wf (r\<lparr>dr_completed_step := f\<rparr>) = record_wf r"
  by (simp_all add: record_wf_def)

lemma has_epoch_updated: "record_wf r \<Longrightarrow> has_epoch (dr_validation_epoch r) (apply_write (WriteRecord r) mf)"
proof -
  assume "record_wf r"
  then have "stored (\<lambda>r'. dr_validation_epoch r \<le> dr_validation_epoch r') (durable_to_dict r)" by (auto simp: stored_def)
  then show ?thesis unfolding has_epoch_def by (rule bexI) (simp add: update_has)
qed

lemma begin_ok:
  assumes ok: "proc_ok hist du mf"
    and b: "begin_candidate step first starts artifacts saved persisted written du = (res, du', ws)"
  shows "writes_ok hist (proc_epoch du) mf ws \<and> proc_ok hist du' (apply_writes ws mf)"
proof (cases "du_pending du = None \<and> \<not> (\<exists>s \<in> set (tl starts). s \<noteq> hd starts) \<and> (\<exists>x. rotate_shape_ids (du_shape_ids du) first = Inr x)")
  case False
  then show ?thesis using ok b
    by (auto simp: begin_candidate_def writes_ok_def split: if_splits sum.splits)
next
  case True
  then obtain expected where e: "du_pending du = None" "\<not> (\<exists>s \<in> set (tl starts). s \<noteq> hd starts)"
    "rotate_shape_ids (du_shape_ids du) first = Inr expected" by blast
  let ?r = "new_record du step expected"
  have w: "du_writer du" and pe: "proc_epoch du = du_next_epoch du" and files: "files_ok hist (proc_epoch du) mf"
    using ok e by (auto simp: proc_ok_def proc_epoch_def)
  have wf: "record_wf ?r" using rotate_nonempty [OF e(3)] by (simp add: record_wf_def)
  have wok: "writes_ok hist (proc_epoch du) mf ws"
    using b e w wf pe
    by (auto simp: begin_candidate_def Let_def write_defs writes_ok_def split: if_splits dest!: in_set_takeD)
  have nl: "\<forall>r. WriteLatest r \<notin> set ws"
    using b e w by (auto simp: begin_candidate_def Let_def write_defs split: if_splits dest!: in_set_takeD)
  show ?thesis
  proof (cases "saved \<and> persisted")
    case False
    then have "du' = du" "mf_pending (apply_writes ws mf) = None"
      using b e w by (auto simp: begin_candidate_def Let_def write_defs split: if_splits)
    then show ?thesis using proc_ok_none [OF ok wok nl files] e w wok by simp
  next
    case True
    define r1 where "r1 = ?r\<lparr>dr_status := ''candidate'', dr_artifacts := artifacts\<rparr>"
    have s: "du' = du\<lparr>du_pending := Some r1, du_next_epoch := du_next_epoch du + 1\<rparr>"
      "ws = store_write_pending ?r @ store_write_pending r1"
      using True b e w by (auto simp: begin_candidate_def Let_def r1_def)
    have r1: "record_wf r1" "dr_validation_epoch r1 = du_next_epoch du" "dr_checked_shapes r1 = []"
      using wf by (auto simp: r1_def)
    have "writes_ok hist (proc_epoch du) (apply_write (WriteRecord ?r) mf) (tl ws)"
      using wok writes_ok_Cons [of hist "proc_epoch du" mf "WriteRecord ?r" "tl ws"] by (simp add: s write_defs)
    then have "has_epoch (du_next_epoch du) (apply_writes ws mf)"
      using has_epoch_writes [OF _ \<open>writes_ok hist (proc_epoch du) (apply_write (WriteRecord ?r) mf) (tl ws)\<close>]
        has_epoch_updated [OF wf] pe by (simp add: s write_defs)
    moreover have "proc_epoch du' = proc_epoch du" by (simp add: s proc_epoch_def r1 e)
    ultimately show ?thesis
      using ok latest_kept [OF nl, of mf] files_ok_writes [OF files wok] wok r1 pe
      by (auto simp: proc_ok_def pending_ok_def s)
  qed
qed

lemma reject_ok:
  assumes ok: "proc_ok hist du mf" and files: "files_ok hist' (proc_epoch du) mf" and r: "reject reason du = (du', ws)"
    and c: "du_pending du = Some c"
  shows "writes_ok hist' (proc_epoch du) mf ws \<and> proc_ok hist' du' (apply_writes ws mf)"
proof -
  have s: "du' = du\<lparr>du_pending := None\<rparr>" "ws = reject_record c reason" "du_writer du" "record_wf c" "proc_epoch du = dr_validation_epoch c"
    using r c ok by (auto simp: reject_def proc_ok_def pending_ok_def proc_epoch_def)
  have wok: "writes_ok hist' (proc_epoch du) mf ws" by (simp add: s write_defs writes_ok_def)
  show ?thesis
    using wok proc_ok_none [OF ok wok _ files, of du'] s by (simp add: write_defs)
qed

lemma local_clean:
  assumes "local_observation c result = (None, checked)"
  shows "\<exists>ev. result = Some ev \<and> \<not> ev_sdc ev \<and> ev_checked ev = checked \<and> checked \<noteq> []"
  using assms by (auto simp: local_observation_def Let_def split: option.splits if_splits)

lemma map_filter_Nil: "List.map_filter f xs = [] \<longleftrightarrow> (\<forall>x \<in> set xs. f x = None)"
  by (induction xs) (auto simp: List.map_filter_simps split: option.splits)

text \<open>The part of an observation that accepts the evidence.\<close>

lemma accepted_ok:
  assumes ok: "proc_ok hist du mf" and c: "du_pending du = Some c"
    and clean: "\<And>s. s \<in> set checked \<Longrightarrow> clean_evidence hist' (dr_checkpoint_id c) \<lparr>sv_shape_id = s, sv_step = step\<rparr>"
    and hist': "hist' = hist @ later"
    and c1: "c1 = c\<lparr>dr_checked_shapes := dr_checked_shapes c @ map (\<lambda>s. \<lparr>sv_shape_id = s, sv_step = step\<rparr>) checked\<rparr>"
    and r: "(if record_complete c1 then (case commit c1 step (du\<lparr>du_pending := Some c1\<rparr>) of (du1, ws) \<Rightarrow> (Committed, du1, ws))
             else (Progress, du\<lparr>du_pending := Some c1\<rparr>, if du_writer du then store_write_pending c1 else [])) = (ev, du', ws)"
  shows "writes_ok hist' (proc_epoch du) mf ws \<and> proc_ok hist' du' (apply_writes ws mf)"
proof -
  have files: "files_ok hist' (proc_epoch du) mf" using ok files_ok_log hist' by (auto simp: proc_ok_def)
  have w: "du_writer du" "proc_epoch du = dr_validation_epoch c" "record_wf c" "has_epoch (dr_validation_epoch c) mf"
    "du_next_epoch du = dr_validation_epoch c + 1"
    using ok c by (auto simp: proc_ok_def pending_ok_def proc_epoch_def)
  have shapes: "\<forall>v \<in> set (dr_checked_shapes c1). clean_evidence hist' (dr_checkpoint_id c1) v"
    using ok c clean by (auto simp: c1 proc_ok_def pending_ok_def hist' intro: clean_evidence_log)
  show ?thesis
  proof (cases "record_complete c1")
    case False
    then have s: "du' = du\<lparr>du_pending := Some c1\<rparr>" "ws = store_write_pending c1" using r w by auto
    have wok: "writes_ok hist' (proc_epoch du) mf ws" using w by (simp add: s write_defs writes_ok_def c1)
    have c1s: "dr_validation_epoch c1 = dr_validation_epoch c" "record_wf c1" using w by (simp_all add: c1)
    have he: "has_epoch (dr_validation_epoch c) (apply_writes ws mf)" using has_epoch_writes [OF w(4)] wok w(2) by simp
    have la: "mf_latest (apply_writes ws mf) = mf_latest mf" by (rule latest_kept) (simp add: s write_defs)
    have "proc_epoch du' = proc_epoch du" using w c1s by (simp add: s proc_epoch_def)
    then show ?thesis
      using ok w wok shapes files_ok_writes [OF files wok] he la c1s by (simp add: proc_ok_def pending_ok_def s(1))
  next
    case True
    define c2 where "c2 = c1\<lparr>dr_status := ''recovery_verified'', dr_verdict := Some ''clean'', dr_completed_step := Some step\<rparr>"
    have s: "du' = du\<lparr>du_latest := Some c2, du_pending := None\<rparr>" "ws = store_commit c2"
      using True r w by (auto simp: commit_def Let_def c2_def split: prod.splits)
    have c2: "record_wf c2" "dr_validation_epoch c2 = dr_validation_epoch c" using w by (auto simp: c2_def c1)
    have "certified hist' c2"
      using shapes True by (simp add: certified_def c2_def is_certified_status_def record_complete_def checked_shape_ids_def)
    then have wok: "writes_ok hist' (proc_epoch du) mf ws" using w c2 by (simp add: s write_defs writes_ok_def)
    have e: "proc_epoch du' = proc_epoch du + 1" using w by (simp add: s proc_epoch_def)
    have "files_ok hist' (proc_epoch du') (apply_writes ws mf)"
      using files_ok_raise [OF files_ok_writes [OF files wok], of "proc_epoch du'"] e by (simp add: s write_defs)
    then show ?thesis
      using ok w wok e c2 by (simp add: proc_ok_def pending_ok_def s) (simp add: write_defs)
  qed
qed

lemma observe_ok:
  assumes ok: "proc_ok hist du mf" and c: "du_pending du = Some c" and own: "own = local_observation c result" "own \<in> set (gather own)"
    and ob: "observe gather result step du = (event, du', ws)"
    and hist': "hist' = hist @ [\<lparr>oe_checkpoint_id = dr_checkpoint_id c, oe_step = step, oe_result = result, oe_gathered = gather own\<rparr>]"
  shows "writes_ok hist' (proc_epoch du) mf ws \<and> proc_ok hist' du' (apply_writes ws mf)"
proof -
  obtain reason checked where o: "own = (reason, checked)" by force
  have files: "files_ok hist' (proc_epoch du) mf" using ok files_ok_log hist' by (auto simp: proc_ok_def)
  show ?thesis
  proof (cases "List.map_filter fst (gather own) = [] \<and> (\<forall>ob \<in> set (gather own). snd ob = checked)")
    case False
    then obtain why where "reject why du = (du', ws)"
      using ob c o by (auto simp: observe_def own(1) [symmetric] Let_def split: list.splits prod.splits if_splits)
    then show ?thesis using reject_ok [OF ok files _ c] by blast
  next
    case True
    then have obs: "\<forall>ob \<in> set (gather own). ob = (None, checked)" by (auto simp: map_filter_Nil prod_eq_iff)
    then have "own = (None, checked)" using own(2) by blast
    then obtain ev where ev: "result = Some ev" "\<not> ev_sdc ev" "ev_checked ev = checked"
      using local_clean own(1) by metis
    have cl: "clean_evidence hist' (dr_checkpoint_id c) \<lparr>sv_shape_id = s, sv_step = step\<rparr>" if "s \<in> set checked" for s
      using that ev obs by (auto simp: clean_evidence_def hist')
    show ?thesis
      by (rule accepted_ok [OF ok c cl hist' refl])
        (use ob c o True in \<open>auto simp: observe_def own(1) [symmetric] Let_def\<close>)
  qed
qed

lemma op_ok:
  assumes "durable_op du hist du' ws hist'" "proc_ok hist du mf"
  shows "writes_ok hist' (proc_epoch du) mf ws \<and> proc_ok hist' du' (apply_writes ws mf)"
  using assms
proof cases
  case begin_op then show ?thesis using begin_ok assms by blast
next
  case (reject_op reason)
  then show ?thesis using assms reject_ok [OF assms(2), of hist reason du' ws]
    by (cases "du_pending du") (auto simp: reject_def writes_ok_def proc_ok_def)
next
  case idle_op then show ?thesis using assms by (auto simp: observe_def writes_ok_def)
next
  case (observe_op c own result gather step event) then show ?thesis using observe_ok [OF assms(2)] by blast
qed

lemma op_log: "durable_op du hist du' ws hist' \<Longrightarrow> \<exists>later. hist' = hist @ later"
  by (induction rule: durable_op.induct) auto

section \<open>Starting\<close>

lemma read_stored:
  "\<forall>kvs. content = Some kvs \<longrightarrow> stored P kvs \<Longrightarrow>
   \<exists>r. read_manifest cv content = Inr r \<and> content = map_option durable_to_dict r \<and> (\<forall>x. r = Some x \<longrightarrow> record_wf x \<and> P x)"
  by (cases content) (auto simp: read_manifest_def stored_def durable_round_trip)

lemma files_ok_pending:
  "files_ok hist e mf \<Longrightarrow> \<exists>r. read_manifest cv (mf_pending mf) = Inr r \<and> mf_pending mf = map_option durable_to_dict r \<and>
     (\<forall>x. r = Some x \<longrightarrow> record_wf x \<and> dr_validation_epoch x = e)"
  by (rule read_stored) (simp add: files_ok_def)

lemma files_ok_latest:
  "files_ok hist e mf \<Longrightarrow> \<exists>r. read_manifest cv (mf_latest mf) = Inr r \<and> mf_latest mf = map_option durable_to_dict r \<and>
     (\<forall>x. r = Some x \<longrightarrow> record_wf x \<and> certified hist x \<and> has_epoch (dr_validation_epoch x) mf)"
  by (rule read_stored) (simp add: files_ok_def)

lemma recover_writes:
  assumes ok: "files_ok hist e mf" and "read_manifest cv (mf_pending mf) = Inr stale"
  shows "writes_ok hist e mf (recover_pending True stale latest)"
    "mf_pending (apply_writes (recover_pending True stale latest) mf) = None"
    "\<forall>r. WriteLatest r \<notin> set (recover_pending True stale latest)"
proof -
  have st: "mf_pending mf = map_option durable_to_dict stale" "\<forall>x. stale = Some x \<longrightarrow> record_wf x \<and> dr_validation_epoch x = e"
    using files_ok_pending [OF ok, of cv] assms(2) by auto
  show "writes_ok hist e mf (recover_pending True stale latest)"
    using st by (auto simp: recover_pending_def writes_ok_def write_defs split: option.splits)
  show "mf_pending (apply_writes (recover_pending True stale latest) mf) = None"
    using st by (auto simp: recover_pending_def write_defs split: option.splits)
  show "\<forall>r. WriteLatest r \<notin> set (recover_pending True stale latest)"
    by (auto simp: recover_pending_def write_defs split: option.splits)
qed

lemma epochs_read:
  assumes "\<forall>kvs \<in> snd ` set recs. stored P kvs"
  shows "\<exists>rs. rmap (\<lambda>(name, kvs). durable_from_dict cv kvs) recs = Inr rs \<and> map durable_to_dict rs = map snd recs \<and>
    (\<forall>r \<in> set rs. record_wf r \<and> P r)"
  using assms
proof (induction recs)
  case (Cons x recs)
  then obtain rs where "rmap (\<lambda>(name, kvs). durable_from_dict cv kvs) recs = Inr rs" "map durable_to_dict rs = map snd recs"
    "\<forall>r \<in> set rs. record_wf r \<and> P r" by auto
  moreover obtain r where "durable_from_dict cv (snd x) = Inr r" "snd x = durable_to_dict r" "record_wf r" "P r"
    using Cons.prems stored_read [of P "snd x" cv] by auto
  ultimately show ?case by (cases x) (auto intro: exI [of _ "r # rs"])
qed simp

text \<open>A restart that rewrites a record writes one of the current epoch.\<close>

lemma recover_has_epoch:
  assumes ok: "files_ok hist e mf" and "read_manifest cv (mf_pending mf) = Inr stale"
  shows "mf_records (apply_writes (recover_pending True stale latest) mf) = mf_records mf \<or>
    has_epoch e (apply_writes (recover_pending True stale latest) mf)"
proof -
  have st: "\<forall>x. stale = Some x \<longrightarrow> record_wf x \<and> dr_validation_epoch x = e"
    using files_ok_pending [OF ok, of cv] assms(2) by auto
  consider "recover_pending True stale latest \<in> {[], [UnlinkPending]}" |
    r where "recover_pending True stale latest = [WriteRecord r, UnlinkPending]" "record_wf r" "dr_validation_epoch r = e"
  proof (cases stale)
    case (Some x)
    then have "record_wf x" "dr_validation_epoch x = e" using st by blast+
    then show thesis
      using that(1) that(2) [of "x\<lparr>dr_status := ''rejected'', dr_verdict := Some ''validation incomplete when the checkpoint coordinator restarted''\<rparr>"]
      by (cases "case latest of None \<Rightarrow> False | Some l \<Rightarrow> dr_checkpoint_id l = dr_checkpoint_id x \<and> is_certified_status l")
        (simp_all add: Some recover_pending_def write_defs)
  qed (simp add: recover_pending_def that(1))
  then show ?thesis
  proof cases
    case 2
    have "has_epoch e (apply_write (WriteRecord r) mf)"
      unfolding has_epoch_def by (rule bexI [of _ "durable_to_dict r"]) (use 2 in \<open>auto simp: update_has stored_def\<close>)
    then show ?thesis by (simp add: 2(1) has_epoch_def)
  qed auto
qed

lemma epoch_next:
  assumes ok: "files_ok hist e mf"
  shows "\<exists>n. next_validation_epoch cv mf = Inr n \<and> (\<forall>e'. has_epoch e' mf \<longrightarrow> e' < n) \<and>
    (\<forall>kvs \<in> snd ` set (mf_records mf). stored (\<lambda>r. dr_validation_epoch r < n) kvs)"
proof -
  obtain rs where rs: "rmap (\<lambda>(name, kvs). durable_from_dict cv kvs) (mf_records mf) = Inr rs"
    "map durable_to_dict rs = map snd (mf_records mf)" "\<forall>r \<in> set rs. record_wf r"
    using epochs_read [of "mf_records mf" "\<lambda>r. dr_validation_epoch r \<le> e" cv] ok by (auto simp: files_ok_def)
  have set: "snd ` set (mf_records mf) = durable_to_dict ` set rs" using arg_cong [OF rs(2), of set] by simp
  let ?n = "(if rs = [] then 0 else Max (dr_validation_epoch ` set rs)) + 1"
  have le: "dr_validation_epoch r < ?n" if "r \<in> set rs" for r
    using that Max_ge [of "dr_validation_epoch ` set rs" "dr_validation_epoch r"] by auto
  have "e' < ?n" if h: "has_epoch e' mf" for e'
  proof -
    obtain r where "r \<in> set rs" "e' \<le> dr_validation_epoch r"
      using h rs(3) durable_to_dict_eq unfolding has_epoch_def set stored_def by (metis imageE)
    then show ?thesis using le by fastforce
  qed
  moreover have "stored (\<lambda>r. dr_validation_epoch r < ?n) kvs" if "kvs \<in> snd ` set (mf_records mf)" for kvs
    using that rs(3) le unfolding set stored_def by (metis imageE)
  ultimately show ?thesis using rs(1) by (auto simp: next_validation_epoch_def)
qed

text \<open>A restart of the writer over well-formed files succeeds and starts with no candidate.\<close>

lemma start_ok:
  assumes ok: "files_ok hist e mf" and cfg: "plan \<noteq> []" "ids \<noteq> []" "distinct ids"
    "digest = None \<or> strip (the digest) \<noteq> []" "dc_writer_rank dc < world"
  shows "\<exists>du mf'. init_durable cv dc plan ids digest (dc_writer_rank dc) world mf = (Inr du, mf') \<and> proc_ok hist du mf' \<and>
    mf_latest mf' = mf_latest mf \<and>
    (\<forall>kvs \<in> snd ` set (mf_records mf) \<union> snd ` set (mf_records mf'). stored (\<lambda>r. dr_validation_epoch r < du_next_epoch du) kvs)"
proof -
  obtain stale where st: "read_manifest cv (mf_pending mf) = Inr stale"
    using files_ok_pending [OF ok] by blast
  obtain latest where la: "read_manifest cv (mf_latest mf) = Inr latest" "mf_latest mf = map_option durable_to_dict latest"
    "\<forall>x. latest = Some x \<longrightarrow> record_wf x"
    using files_ok_latest [OF ok] by blast
  define ws where "ws = recover_pending True stale latest"
  note rw = recover_writes [OF ok st, of latest, folded ws_def]
  define mf1 where "mf1 = apply_writes ws mf"
  have ok1: "files_ok hist e mf1" unfolding mf1_def by (rule files_ok_writes [OF ok rw(1)])
  have l1: "mf_latest mf1 = mf_latest mf" unfolding mf1_def by (rule latest_kept [OF rw(3)])
  obtain n where n: "next_validation_epoch cv mf1 = Inr n" "\<forall>e'. has_epoch e' mf1 \<longrightarrow> e' < n"
    "\<forall>kvs \<in> snd ` set (mf_records mf1). stored (\<lambda>r. dr_validation_epoch r < n) kvs"
    using epoch_next [OF ok1] by blast
  have le: "\<forall>kvs \<in> snd ` set (mf_records mf1). stored (\<lambda>r. dr_validation_epoch r \<le> n) kvs"
    using n(3) by (blast intro: stored_mono less_imp_le)
  have old: "stored (\<lambda>r. dr_validation_epoch r < n) kvs" if "kvs \<in> snd ` set (mf_records mf)" for kvs
  proof (cases "mf_records mf1 = mf_records mf")
    case False
    then have w: "has_epoch e mf1" using recover_has_epoch [OF ok st, of latest] by (auto simp: mf1_def ws_def)
    have "stored (\<lambda>r. dr_validation_epoch r \<le> e) kvs" using ok that unfolding files_ok_def by blast
    then show ?thesis using n(2) w by (auto elim!: stored_mono)
  qed (use n(3) that in metis)
  have below: "\<forall>l. latest = Some l \<longrightarrow> dr_validation_epoch l < n"
    using files_ok_latest [OF ok1, of cv] n(2) la(1) l1 by auto
  define du where "du = \<lparr>du_shape_plan_id = plan, du_shape_ids = ids, du_environment_id = dc_environment_id dc,
    du_writer = True, du_pending = None, du_latest = latest, du_next_epoch = n\<rparr>"
  have init: "init_durable cv dc plan ids digest (dc_writer_rank dc) world mf = (Inr du, mf1)"
    using cfg st la n l1 by (auto simp: init_durable_def ensure_def Let_def ws_def mf1_def du_def)
  have "proc_ok hist du mf1"
    using ok1 n(1,2) le l1 la below cfg rw(2)
    by (simp add: proc_ok_def pending_ok_def proc_epoch_def du_def files_ok_def mf1_def)
  moreover have "\<forall>kvs \<in> snd ` set (mf_records mf) \<union> snd ` set (mf_records mf1). stored (\<lambda>r. dr_validation_epoch r < du_next_epoch du) kvs"
    using old n(3) by (simp add: du_def ball_Un)
  ultimately show ?thesis using init l1 by blast
qed

definition run_ok :: "durable_run \<Rightarrow> bool" where
  "run_ok s = (case dn_proc s of None \<Rightarrow> \<exists>e. files_ok (dn_log s) e (dn_files s) | Some du \<Rightarrow> proc_ok (dn_log s) du (dn_files s))"

lemma init_success:
  "init_durable cv dc plan ids digest (dc_writer_rank dc) world mf = (Inr du, mf') \<Longrightarrow>
   plan \<noteq> [] \<and> ids \<noteq> [] \<and> distinct ids \<and> (digest = None \<or> strip (the digest) \<noteq> []) \<and> dc_writer_rank dc < world"
  by (auto simp: init_durable_def ensure_def rbind_Inr_iff split: sum.splits if_splits)

lemma step_ok:
  assumes "durable_step cv s s'" "run_ok s" shows "run_ok s'"
  using assms
proof cases
  case (call_step du du' ws hist')
  then show ?thesis using op_ok [of du "dn_log s" du' ws hist'] assms(2) by (simp add: run_ok_def)
next
  case (crash_step du du' ws hist' n)
  have p: "proc_ok (dn_log s) du (dn_files s)" using crash_step assms(2) by (simp add: run_ok_def)
  have "files_ok hist' (proc_epoch du) (dn_files s)"
    using p op_log [OF crash_step(3)] files_ok_log by (auto simp: proc_ok_def)
  then have "files_ok hist' (proc_epoch du) (apply_writes (take n ws) (dn_files s))"
    using op_ok [OF crash_step(3) p] files_ok_writes writes_ok_take by blast
  then show ?thesis using crash_step by (auto simp: run_ok_def)
next
  case (start_step dc plan ids digest world du mf)
  then obtain e where "files_ok (dn_log s) e (dn_files s)" using assms(2) by (auto simp: run_ok_def)
  then show ?thesis
    using start_ok [of "dn_log s" e "dn_files s" plan ids digest dc world cv] init_success [OF start_step(3)] start_step
    by (auto simp: run_ok_def)
next
  case (start_crash_step stale latest n)
  then obtain e where e: "files_ok (dn_log s) e (dn_files s)" using assms(2) by (auto simp: run_ok_def)
  show ?thesis
    using start_crash_step files_ok_writes [OF e writes_ok_take [OF recover_writes(1) [OF e start_crash_step(3)]], of n latest]
    by (auto simp: run_ok_def)
qed

lemma durable_run_ok: "durable_reachable cv s \<Longrightarrow> run_ok s"
proof (induction rule: durable_reachable.induct)
  case empty
  have "files_ok [] 0 (dn_files empty_run)" by (simp add: files_ok_def empty_run_def)
  then show ?case by (auto simp: run_ok_def empty_run_def)
qed (rule step_ok)

lemma run_ok_files: "run_ok s \<Longrightarrow> \<exists>e. files_ok (dn_log s) e (dn_files s)"
  by (auto simp: run_ok_def proc_ok_def split: option.splits)

text \<open>C6: At every moment of every run with crashes and restarts, the published pointer is readable and, when present,
  names a checkpoint certified clean whose shapes were checked exactly in the planned order, each in a clean
  replay on which all ranks agreed.\<close>

theorem durable_latest_certified:
  assumes "durable_reachable cv s"
  shows "case read_manifest cv (mf_latest (dn_files s)) of
      Inl _ \<Rightarrow> False
    | Inr None \<Rightarrow> True
    | Inr (Some r) \<Rightarrow> is_certified_status r \<and> checked_shape_ids r = dr_expected_shape_ids r \<and>
        (\<forall>v \<in> set (dr_checked_shapes r). clean_evidence (dn_log s) (dr_checkpoint_id r) v)"
proof -
  obtain e where "files_ok (dn_log s) e (dn_files s)" using run_ok_files [OF durable_run_ok [OF assms]] by blast
  then obtain r where "read_manifest cv (mf_latest (dn_files s)) = Inr r" "\<forall>x. r = Some x \<longrightarrow> certified (dn_log s) x"
    using files_ok_latest by blast
  then show ?thesis by (auto simp: certified_def record_complete_def split: option.splits)
qed

lemma step_publishes:
  assumes s: "durable_step cv s s'" and ok: "run_ok s"
  shows "mf_latest (dn_files s') = mf_latest (dn_files s) \<or>
    (\<exists>c. mf_latest (dn_files s') = Some (durable_to_dict c) \<and> record_wf c \<and>
       (\<forall>l. mf_latest (dn_files s) = Some (durable_to_dict l) \<and> record_wf l \<longrightarrow> dr_validation_epoch l < dr_validation_epoch c))"
proof -
  have pub: "mf_latest (apply_writes ws mf) = mf_latest mf \<or>
      (\<exists>c. mf_latest (apply_writes ws mf) = Some (durable_to_dict c) \<and> record_wf c \<and> dr_validation_epoch c = e)"
    if "writes_ok hist e mf ws" for hist e mf ws
    using that
  proof (induction ws arbitrary: mf)
    case (Cons w ws)
    then show ?case using writes_ok_Cons [OF Cons.prems] Cons.IH [of "apply_write w mf"] by (cases w) auto
  qed simp
  have call: ?thesis if "dn_proc s = Some du" "durable_op du (dn_log s) du' ws hist'" "dn_files s' = apply_writes (take n ws) (dn_files s)"
    for du du' ws hist' n
  proof -
    have p: "proc_ok (dn_log s) du (dn_files s)" using that(1) ok by (simp add: run_ok_def)
    have "dr_validation_epoch l < proc_epoch du" if "mf_latest (dn_files s) = Some (durable_to_dict l)" "record_wf l" for l
      using p that durable_to_dict_eq by (cases "du_latest du") (auto simp: proc_ok_def)
    then show ?thesis
      using pub [OF writes_ok_take [OF conjunct1 [OF op_ok [OF that(2) p]]], of n] that(3) by auto
  qed
  show ?thesis
    using s
  proof cases
    case (call_step du du' ws hist') then show ?thesis using call [of du du' ws hist' "length ws"] by simp
  next
    case (crash_step du du' ws hist' n) then show ?thesis using call by simp
  next
    case (start_step dc plan ids digest world du mf)
    then obtain e where "files_ok (dn_log s) e (dn_files s)" using ok by (auto simp: run_ok_def)
    then show ?thesis
      using start_ok [of "dn_log s" e "dn_files s" plan ids digest dc world cv] init_success [OF start_step(3)] start_step by auto
  next
    case (start_crash_step stale latest n)
    then obtain e where e: "files_ok (dn_log s) e (dn_files s)" using ok by (auto simp: run_ok_def)
    have "\<forall>r. WriteLatest r \<notin> set (take n (recover_pending True stale latest))"
      using recover_writes(3) [OF e start_crash_step(3)] by (auto dest: in_set_takeD)
    then show ?thesis using start_crash_step latest_kept by simp
  qed
qed

text \<open>C7: No call, crash or restart withdraws the published pointer or moves it back: it stays, or names a
  checkpoint of a strictly later validation epoch.\<close>

theorem durable_pointer_advances:
  assumes "durable_reachable cv s" "durable_step cv s s'"
    and "read_manifest cv (mf_latest (dn_files s)) = Inr (Some l)"
  shows "\<exists>l'. read_manifest cv (mf_latest (dn_files s')) = Inr (Some l') \<and>
    (l' = l \<or> dr_validation_epoch l < dr_validation_epoch l')"
proof -
  have ok: "run_ok s" by (rule durable_run_ok [OF assms(1)])
  have "mf_latest (dn_files s) = Some (durable_to_dict l)" "record_wf l"
    using run_ok_files [OF ok] files_ok_latest [of "dn_log s" _ "dn_files s" cv] assms(3) by fastforce+
  then show ?thesis
    using step_publishes [OF assms(2) ok] assms(3) by (auto simp: read_manifest_def durable_round_trip)
qed

text \<open>C9: After any crash the writer can always be started again: it finds the published pointer it left, no
  candidate is pending any more, and the epoch it will use next is larger than that of every record it finds and
  leaves in the directory, rejected ones included, and of the published one.\<close>

theorem durable_restart_succeeds:
  assumes "durable_reachable cv s" "dn_proc s = None" "plan \<noteq> []" "ids \<noteq> []" "distinct ids" "dc_writer_rank dc < world"
  shows "\<exists>du mf. init_durable cv dc plan ids None (dc_writer_rank dc) world (dn_files s) = (Inr du, mf) \<and>
    mf_pending mf = None \<and> mf_latest mf = mf_latest (dn_files s) \<and> du_pending du = None \<and>
    read_manifest cv (mf_latest mf) = Inr (du_latest du) \<and>
    pred_option (\<lambda>l. dr_validation_epoch l < du_next_epoch du) (du_latest du) \<and>
    list_all (\<lambda>(name, kvs). case durable_from_dict cv kvs of Inr r \<Rightarrow> dr_validation_epoch r < du_next_epoch du | Inl _ \<Rightarrow> False)
      (mf_records (dn_files s) @ mf_records mf)"
proof -
  obtain e where "files_ok (dn_log s) e (dn_files s)" using run_ok_files [OF durable_run_ok [OF assms(1)]] by blast
  from start_ok [OF this assms(3-5) _ assms(6), of None cv] obtain du mf where
    i: "init_durable cv dc plan ids None (dc_writer_rank dc) world (dn_files s) = (Inr du, mf)"
    and p: "proc_ok (dn_log s) du mf" and l: "mf_latest mf = mf_latest (dn_files s)"
    and e: "\<forall>kvs \<in> snd ` set (mf_records (dn_files s)) \<union> snd ` set (mf_records mf). stored (\<lambda>r. dr_validation_epoch r < du_next_epoch du) kvs"
    by auto
  have "list_all (\<lambda>(name, kvs). case durable_from_dict cv kvs of Inr r \<Rightarrow> dr_validation_epoch r < du_next_epoch du | Inl _ \<Rightarrow> False)
      (mf_records (dn_files s) @ mf_records mf)"
    using e by (force simp: list_all_iff dest!: bspec dest: stored_read [of _ _ cv])
  moreover have np: "du_pending du = None" using i by (auto simp: init_durable_def Let_def rbind_Inr_iff split: sum.splits)
  moreover have "read_manifest cv (mf_latest mf) = Inr (du_latest du)"
    using i by (auto simp: init_durable_def Let_def rbind_Inr_iff split: sum.splits)
  ultimately show ?thesis
    using i p l np by (auto simp: proc_ok_def pending_ok_def proc_epoch_def option.pred_set)
qed

section \<open>A clean cycle commits\<close>

text \<open>Consecutive replay results applied to the pending candidate.\<close>

fun observe_run ::
  "(string option \<times> string list \<Rightarrow> (string option \<times> string list) list) \<Rightarrow> (evidence \<times> int) list \<Rightarrow> durable \<Rightarrow>
     durable_event list \<times> durable \<times> manifest_write list" where
  "observe_run gather [] du = ([], du, [])"
| "observe_run gather ((ev, step) # rest) du =
     (case observe gather (Some ev) step du of
        (event, du1, ws) \<Rightarrow> (case observe_run gather rest du1 of (events, du2, ws2) \<Rightarrow> (event # events, du2, ws @ ws2)))"

text \<open>One result that is clean, in order and the same on every rank.\<close>

definition accept :: "durable_record \<Rightarrow> string list \<Rightarrow> int \<Rightarrow> durable_record" where
  "accept c checked step = c\<lparr>dr_checked_shapes := dr_checked_shapes c @ map (\<lambda>s. \<lparr>sv_shape_id = s, sv_step = step\<rparr>) checked\<rparr>"

lemma observe_clean:
  assumes c: "du_pending du = Some c" and w: "du_writer du" and ev: "\<not> ev_sdc ev" "ev_checked ev \<noteq> []"
    and ex: "dr_expected_shape_ids c = checked_shape_ids c @ ev_checked ev @ rest"
    and g: "\<And>x. set (gather x) = {x}"
  shows "observe gather (Some ev) step du =
    (if rest = [] then (case commit (accept c (ev_checked ev) step) step (du\<lparr>du_pending := Some (accept c (ev_checked ev) step)\<rparr>) of
       (du1, ws) \<Rightarrow> (Committed, du1, ws))
     else (Progress, du\<lparr>du_pending := Some (accept c (ev_checked ev) step)\<rparr>, store_write_pending (accept c (ev_checked ev) step)))"
proof -
  have n: "length (dr_checked_shapes c) = length (checked_shape_ids c)" by (simp add: checked_shape_ids_def)
  have own: "local_observation c (Some ev) = (None, ev_checked ev)"
    using ev by (simp add: local_observation_def ex n)
  have cl: "List.map_filter fst (gather (None, ev_checked ev)) = []" by (simp add: map_filter_Nil g)
  have rc: "record_complete (accept c (ev_checked ev) step) \<longleftrightarrow> rest = []"
    by (simp add: record_complete_def accept_def ex) (simp add: checked_shape_ids_def comp_def)
  show ?thesis using c w rc by (auto simp: observe_def own cl g accept_def Let_def split: prod.splits)
qed

lemma accept_simps [simp]:
  "checked_shape_ids (accept c checked step) = checked_shape_ids c @ checked"
  "dr_expected_shape_ids (accept c checked step) = dr_expected_shape_ids c"
  "dr_step (accept c checked step) = dr_step c" "dr_checkpoint_id (accept c checked step) = dr_checkpoint_id c"
  "dr_artifacts (accept c checked step) = dr_artifacts c"
  by (simp_all add: accept_def checked_shape_ids_def comp_def)

text \<open>C8: A pending candidate followed by clean replay results that cover the planned shapes in order on every
  rank is committed by the last of them: every earlier result is progress, the candidate's step and artifacts
  become the latest validated checkpoint in memory and in the published file, and nothing stays pending.\<close>

theorem clean_cycle_commits:
  assumes "du_pending du = Some c" "du_writer du" "results \<noteq> []"
    and "\<forall>(ev, step) \<in> set results. \<not> ev_sdc ev \<and> ev_checked ev \<noteq> []"
    and "dr_expected_shape_ids c = checked_shape_ids c @ concat (map (ev_checked \<circ> fst) results)"
    and "\<And>x. set (gather x) = {x}"
  shows "\<exists>du' ws r. observe_run gather results du = (replicate (length results - 1) Progress @ [Committed], du', ws) \<and>
    du_pending du' = None \<and> du_latest du' = Some r \<and> mf_latest (apply_writes ws mf) = Some (durable_to_dict r) \<and>
    mf_pending (apply_writes ws mf) = None \<and> is_certified_status r \<and> record_complete r \<and>
    dr_checkpoint_id r = dr_checkpoint_id c \<and> dr_step r = dr_step c \<and> dr_artifacts r = dr_artifacts c"
  using assms(1-5)
proof (induction results arbitrary: du c mf)
  case (Cons x results)
  obtain ev step where x: "x = (ev, step)" by force
  let ?a = "accept c (ev_checked ev) step"
  note ob = observe_clean [OF Cons.prems(1,2), of ev "concat (map (ev_checked \<circ> fst) results)" gather step, OF _ _ _ assms(6)]
  show ?case
  proof (cases "results = []")
    case True
    then show ?thesis
      using ob Cons.prems
      by (auto simp: x commit_def Let_def write_defs is_certified_status_def record_complete_def checked_shape_ids_def accept_def comp_def)
  next
    case False
    then have ne: "concat (map (ev_checked \<circ> fst) results) \<noteq> []" using Cons.prems(4) by (cases results) auto
    have ob1: "observe gather (Some ev) step du = (Progress, du\<lparr>du_pending := Some ?a\<rparr>, store_write_pending ?a)"
      using ob ne Cons.prems by (simp add: x comp_def)
    obtain du' ws r where r: "observe_run gather results (du\<lparr>du_pending := Some ?a\<rparr>) = (replicate (length results - 1) Progress @ [Committed], du', ws)"
      "du_pending du' = None" "du_latest du' = Some r" "is_certified_status r" "record_complete r"
      "mf_latest (apply_writes ws (apply_writes (store_write_pending ?a) mf)) = Some (durable_to_dict r)"
      "mf_pending (apply_writes ws (apply_writes (store_write_pending ?a) mf)) = None"
      "dr_checkpoint_id r = dr_checkpoint_id c" "dr_step r = dr_step c" "dr_artifacts r = dr_artifacts c"
      using Cons.IH [of "du\<lparr>du_pending := Some ?a\<rparr>" ?a "apply_writes (store_write_pending ?a) mf"] Cons.prems False
      by (auto simp: x)
    show ?thesis using r ob1 False by (cases results) (auto simp: x)
  qed
qed simp

section \<open>A concrete run\<close>

definition example_conv :: py_conv where
  "example_conv = \<lparr>conv_int = (\<lambda>_. None), conv_str = (\<lambda>_. [])\<rparr>"

definition example_dc :: durable_config where
  "example_dc = \<lparr>dc_manifest_dir = ''m'', dc_environment_id = ''env'', dc_writer_rank = 0\<rparr>"

definition example_du0 :: durable where
  "example_du0 = \<lparr>du_shape_plan_id = ''plan'', du_shape_ids = [''a'', ''b''], du_environment_id = ''env'', du_writer = True,
     du_pending = None, du_latest = None, du_next_epoch = 1\<rparr>"

definition example_begun :: "(durable_error + durable_record) \<times> durable \<times> manifest_write list" where
  "example_begun = begin_candidate 5 ''a'' [(''plan'', [''a'', ''b''], ''a'', ''env'')] [] True True 0 example_du0"

definition example_seen1 :: "durable_event \<times> durable \<times> manifest_write list" where
  "example_seen1 = observe (\<lambda>x. [x, x]) (Some \<lparr>ev_sdc = False, ev_checked = [''a'']\<rparr>) 6 (fst (snd example_begun))"

definition example_seen2 :: "durable_event \<times> durable \<times> manifest_write list" where
  "example_seen2 = observe (\<lambda>x. [x, x]) (Some \<lparr>ev_sdc = False, ev_checked = [''b'']\<rparr>) 7 (fst (snd example_seen1))"

definition example_log :: "observation_entry list" where
  "example_log =
     [\<lparr>oe_checkpoint_id = candidate_id 5 1 ''plan'', oe_step = 6, oe_result = Some \<lparr>ev_sdc = False, ev_checked = [''a'']\<rparr>,
       oe_gathered = [(None, [''a'']), (None, [''a''])]\<rparr>,
      \<lparr>oe_checkpoint_id = candidate_id 5 1 ''plan'', oe_step = 7, oe_result = Some \<lparr>ev_sdc = False, ev_checked = [''b'']\<rparr>,
       oe_gathered = [(None, [''b'']), (None, [''b''])]\<rparr>]"

definition example_durable_run :: durable_run where
  "example_durable_run =
     \<lparr>dn_files = apply_writes (snd (snd example_seen2)) (apply_writes (snd (snd example_seen1)) (apply_writes (snd (snd example_begun)) (dn_files empty_run))),
      dn_proc = Some (fst (snd example_seen2)), dn_log = example_log\<rparr>"

lemma example_reachable: "durable_reachable example_conv example_durable_run"
proof -
  let ?s0 = "empty_run\<lparr>dn_files := dn_files empty_run, dn_proc := Some example_du0\<rparr>"
  let ?s1 = "\<lparr>dn_files = apply_writes (snd (snd example_begun)) (dn_files ?s0), dn_proc = Some (fst (snd example_begun)), dn_log = []\<rparr>"
  let ?s2 = "\<lparr>dn_files = apply_writes (snd (snd example_seen1)) (dn_files ?s1), dn_proc = Some (fst (snd example_seen1)), dn_log = [hd example_log]\<rparr>"
  have "init_durable example_conv example_dc ''plan'' [''a'', ''b''] None (dc_writer_rank example_dc) 2 (dn_files empty_run) = (Inr example_du0, dn_files empty_run)"
    by code_simp
  then have s0: "durable_step example_conv empty_run ?s0" by (intro start_step) (auto simp: empty_run_def)
  have "durable_op example_du0 [] (fst (snd example_begun)) (snd (snd example_begun)) []"
    by (rule begin_op [of 5 "''a''" "[(''plan'', [''a'', ''b''], ''a'', ''env'')]" "[]" True True 0 _ "fst example_begun"])
      (simp add: example_begun_def)
  then have s1: "durable_step example_conv ?s0 ?s1"
    using call_step [of ?s0 example_du0 "fst (snd example_begun)" "snd (snd example_begun)" "[]" example_conv]
    by (simp add: empty_run_def)
  have "du_pending (fst (snd example_begun)) \<noteq> None \<and> dr_checkpoint_id (the (du_pending (fst (snd example_begun)))) = candidate_id 5 1 ''plan'' \<and>
      local_observation (the (du_pending (fst (snd example_begun)))) (Some \<lparr>ev_sdc = False, ev_checked = [''a'']\<rparr>) = (None, [''a''])"
    by code_simp
  then have "durable_op (fst (snd example_begun)) [] (fst (snd example_seen1)) (snd (snd example_seen1)) ([] @ [hd example_log])"
    using observe_op [of "fst (snd example_begun)" "the (du_pending (fst (snd example_begun)))" "(None, [''a''])"
        "Some \<lparr>ev_sdc = False, ev_checked = [''a'']\<rparr>" "\<lambda>x. [x, x]" 6 "fst example_seen1" "fst (snd example_seen1)" "snd (snd example_seen1)" "[]"]
    by (simp add: example_log_def flip: example_seen1_def)
  then have s2: "durable_step example_conv ?s1 ?s2" using call_step [of ?s1] by fastforce
  have "du_pending (fst (snd example_seen1)) \<noteq> None \<and> dr_checkpoint_id (the (du_pending (fst (snd example_seen1)))) = candidate_id 5 1 ''plan'' \<and>
      local_observation (the (du_pending (fst (snd example_seen1)))) (Some \<lparr>ev_sdc = False, ev_checked = [''b'']\<rparr>) = (None, [''b''])"
    by code_simp
  then have "durable_op (fst (snd example_seen1)) [hd example_log] (fst (snd example_seen2)) (snd (snd example_seen2)) example_log"
    using observe_op [of "fst (snd example_seen1)" "the (du_pending (fst (snd example_seen1)))" "(None, [''b''])"
        "Some \<lparr>ev_sdc = False, ev_checked = [''b'']\<rparr>" "\<lambda>x. [x, x]" 7 "fst example_seen2" "fst (snd example_seen2)" "snd (snd example_seen2)" "[hd example_log]"]
    by (simp add: example_log_def flip: example_seen2_def)
  then have "durable_step example_conv ?s2 example_durable_run"
    using call_step [of ?s2] unfolding example_durable_run_def by fastforce
  then show ?thesis using s0 s1 s2 durable_reachable.intros by metis
qed

lemma example_published:
  "\<exists>l. read_manifest example_conv (mf_latest (dn_files example_durable_run)) = Inr (Some l) \<and> dr_step l = 5"
proof -
  have "(case read_manifest example_conv (mf_latest (dn_files example_durable_run)) of Inr (Some r) \<Rightarrow> dr_step r = 5 | _ \<Rightarrow> False)"
    by code_simp
  then show ?thesis by (auto split: sum.splits option.splits)
qed

theorem durable_latest_certified_witness:
  "durable_reachable example_conv example_durable_run \<and>
   (\<exists>r. read_manifest example_conv (mf_latest (dn_files example_durable_run)) = Inr (Some r) \<and> dr_step r = 5 \<and>
      is_certified_status r \<and> (\<forall>v \<in> set (dr_checked_shapes r). clean_evidence example_log (dr_checkpoint_id r) v))"
  using durable_latest_certified [OF example_reachable] example_reachable example_published
  by (auto simp: example_durable_run_def)

theorem durable_pointer_advances_witness:
  "\<exists>l l' :: durable_record. durable_reachable example_conv example_durable_run \<and>
     read_manifest example_conv (mf_latest (dn_files example_durable_run)) = Inr (Some l) \<and>
     durable_step example_conv example_durable_run (example_durable_run\<lparr>dn_proc := None\<rparr>) \<and>
     read_manifest example_conv (mf_latest (dn_files (example_durable_run\<lparr>dn_proc := None\<rparr>))) = Inr (Some l') \<and>
     (l' = l \<or> dr_validation_epoch l < dr_validation_epoch l')"
proof -
  obtain l where l: "read_manifest example_conv (mf_latest (dn_files example_durable_run)) = Inr (Some l)"
    using example_published by blast
  have "durable_op (fst (snd example_seen2)) example_log (fst (reject [] (fst (snd example_seen2)))) (snd (reject [] (fst (snd example_seen2)))) example_log"
    by (rule reject_op) simp
  then have s: "durable_step example_conv example_durable_run (example_durable_run\<lparr>dn_proc := None\<rparr>)"
    using crash_step [of example_durable_run "fst (snd example_seen2)" _ _ example_log example_conv 0]
    by (fastforce simp: example_durable_run_def)
  show ?thesis using durable_pointer_advances [OF example_reachable s l] example_reachable s l by blast
qed

text \<open>After the commit a second candidate is written, and the process dies before any evidence for it.\<close>

definition example_begun2 :: "(durable_error + durable_record) \<times> durable \<times> manifest_write list" where
  "example_begun2 = begin_candidate 10 ''a'' [(''plan'', [''a'', ''b''], ''a'', ''env'')] [] True True 0 (fst (snd example_seen2))"

definition example_crashed :: durable_run where
  "example_crashed = \<lparr>dn_files = apply_writes (take 4 (snd (snd example_begun2))) (dn_files example_durable_run), dn_proc = None,
     dn_log = example_log\<rparr>"

lemma example_crashed_reachable: "durable_reachable example_conv example_crashed"
proof -
  have "durable_op (fst (snd example_seen2)) example_log (fst (snd example_begun2)) (snd (snd example_begun2)) example_log"
    by (rule begin_op [of 10 "''a''" "[(''plan'', [''a'', ''b''], ''a'', ''env'')]" "[]" True True 0 _ "fst example_begun2"])
      (simp add: example_begun2_def)
  then have "durable_step example_conv example_durable_run example_crashed"
    using crash_step [of example_durable_run "fst (snd example_seen2)" _ _ example_log example_conv 4]
    by (simp add: example_crashed_def example_durable_run_def)
  then show ?thesis using durable_reachable.step [OF example_reachable] by blast
qed

lemma example_crashed_files:
  "mf_latest (dn_files example_crashed) \<noteq> None" "mf_pending (dn_files example_crashed) \<noteq> None"
  "list_ex (\<lambda>(name, kvs). case durable_from_dict example_conv kvs of Inr r \<Rightarrow> dr_validation_epoch r = 2 | Inl _ \<Rightarrow> False)
     (mf_records (dn_files example_crashed))"
  by code_simp+

theorem durable_restart_succeeds_witness:
  "\<exists>du mf. durable_reachable example_conv example_crashed \<and> mf_latest (dn_files example_crashed) \<noteq> None \<and>
     mf_pending (dn_files example_crashed) \<noteq> None \<and>
     init_durable example_conv example_dc ''plan'' [''a'', ''b''] None (dc_writer_rank example_dc) 1 (dn_files example_crashed) = (Inr du, mf) \<and>
     mf_pending mf = None \<and> du_pending du = None \<and> mf_latest mf = mf_latest (dn_files example_crashed) \<and> 2 < du_next_epoch du"
proof -
  have "dn_proc example_crashed = None" by (simp add: example_crashed_def)
  from durable_restart_succeeds [OF example_crashed_reachable this, of "''plan''" "[''a'', ''b'']" example_dc 1] obtain du mf where
    d: "init_durable example_conv example_dc ''plan'' [''a'', ''b''] None (dc_writer_rank example_dc) 1 (dn_files example_crashed) = (Inr du, mf)"
      "mf_pending mf = None" "du_pending du = None" "mf_latest mf = mf_latest (dn_files example_crashed)"
    and l: "list_all (\<lambda>(name, kvs). case durable_from_dict example_conv kvs of Inr r \<Rightarrow> dr_validation_epoch r < du_next_epoch du | Inl _ \<Rightarrow> False)
      (mf_records (dn_files example_crashed))"
    by (auto simp: example_dc_def)
  obtain name kvs where kvs: "(name, kvs) \<in> set (mf_records (dn_files example_crashed))"
      "case durable_from_dict example_conv kvs of Inr r \<Rightarrow> dr_validation_epoch r = 2 | Inl _ \<Rightarrow> False"
    using example_crashed_files(3) by (auto simp: list_ex_iff)
  then have "2 < du_next_epoch du" using l by (cases "durable_from_dict example_conv kvs") (auto simp: list_all_iff)
  then show ?thesis using d example_crashed_reachable example_crashed_files(1,2) by blast
qed

theorem clean_cycle_commits_witness:
  "\<exists>(du' :: durable) ws r. observe_run (\<lambda>x. [x, x]) [(\<lparr>ev_sdc = False, ev_checked = [''a'']\<rparr>, 6), (\<lparr>ev_sdc = False, ev_checked = [''b'']\<rparr>, 7)]
       (fst (snd example_begun)) = ([Progress, Committed], du', ws) \<and> du_latest du' = Some r \<and> dr_step r = 5"
proof -
  have "(case du_pending (fst (snd example_begun)) of None \<Rightarrow> False | Some c \<Rightarrow> dr_expected_shape_ids c = [''a'', ''b''] \<and> dr_step c = 5 \<and> checked_shape_ids c = []) \<and>
      du_writer (fst (snd example_begun))"
    by code_simp
  then obtain c where c: "du_pending (fst (snd example_begun)) = Some c" "dr_expected_shape_ids c = [''a'', ''b'']" "dr_step c = 5"
    "checked_shape_ids c = []" "du_writer (fst (snd example_begun))" by (auto split: option.splits)
  show ?thesis
    using clean_cycle_commits [OF c(1) c(5), of "[(\<lparr>ev_sdc = False, ev_checked = [''a'']\<rparr>, 6), (\<lparr>ev_sdc = False, ev_checked = [''b'']\<rparr>, 7)]" "\<lambda>x. [x, x]" "dn_files empty_run"]
      c by auto
qed

end
