(* ===== verification/Certification_Laws.thy ===== *)
theory Certification_Laws
  imports Certification Durable_Laws
begin

text \<open>
  What a step recorded as recovery-verified has been through, how recovery decisions treat the candidate, and
  a round that leaves a candidate in place although a rank saw corruption.
\<close>

section \<open>The trust record survives the pipeline\<close>

definition status_normal :: "checkpoint_status \<Rightarrow> bool" where
  "status_normal cs \<longleftrightarrow> status_post_init cs = Inr cs"

lemma status_normal_iff:
  "status_normal cs \<longleftrightarrow> (\<forall>v \<in> set (cs_verified_steps cs). 0 < v) \<and>
     cs_verified_steps cs = sorted_set (if 0 < cs_verified_step cs then cs_verified_step cs # cs_verified_steps cs else cs_verified_steps cs)"
  (is "_ = ?r")
proof
  assume n: "status_normal cs"
  then have "cs\<lparr>cs_verified_steps := sorted_set (if 0 < cs_verified_step cs then cs_verified_step cs # cs_verified_steps cs else cs_verified_steps cs)\<rparr> = cs"
    "\<forall>v \<in> set (cs_verified_steps cs). 0 < v"
    by (auto simp: status_normal_def status_post_init_def Let_def split: if_splits)
  then show ?r by (metis checkpoint_status.select_convs(3) checkpoint_status.surjective checkpoint_status.update_convs(3))
next
  assume ?r
  then show "status_normal cs" by (auto simp: status_normal_def status_post_init_def Let_def)
qed

lemma post_init_step:
  assumes "\<forall>v \<in> set (cs_verified_steps cs). 0 < v"
  shows "\<exists>cs'. status_post_init cs = Inr cs' \<and> status_normal cs' \<and> cs_candidate_step cs' = cs_candidate_step cs \<and>
    cs_recovery_mode cs' = cs_recovery_mode cs \<and>
    set (cs_verified_steps cs') = set (cs_verified_steps cs) \<union> (if 0 < cs_verified_step cs then {cs_verified_step cs} else {})"
proof -
  let ?vs = "if 0 < cs_verified_step cs then cs_verified_step cs # cs_verified_steps cs else cs_verified_steps cs"
  have pos: "\<not> (\<exists>v \<in> set ?vs. v < 1)" using assms by (auto simp: int_one_le_iff_zero_less not_less)
  have "status_post_init cs = Inr (cs\<lparr>cs_verified_steps := sorted_set ?vs\<rparr>)"
    unfolding status_post_init_def Let_def using pos by (simp only: if_False)
  moreover have "status_normal (cs\<lparr>cs_verified_steps := sorted_set ?vs\<rparr>)"
    unfolding status_normal_iff using assms by (auto intro!: sorted_set_cong)
  ultimately show ?thesis by auto
qed

lemma rmap_ints: "rmap (\<lambda>v. case v of JInt i \<Rightarrow> Inr i | _ \<Rightarrow> Inl e) (map JInt is) = Inr is"
  by (induction "is") auto

lemma status_round_trip:
  "status_normal cs \<Longrightarrow> status_from_dict cv (status_to_dict cs run_id topology_id) run_id topology_id = Inr cs"
  by (cases cs) (simp add: status_from_dict_def status_to_dict_def get_field_def get_default_def py_int_of_def py_str_of_def
      verified_step_list_def rmap_ints status_normal_def)

lemma read_write_trust: "status_normal cs \<Longrightarrow> read_trust rt (write_trust cs mg) = Inr cs"
  by (simp add: read_trust_def write_trust_def read_status_def write_status_def update_conv read_eligible_def
      read_status_path_def status_round_trip)

definition same_trust :: "manager \<Rightarrow> manager \<Rightarrow> bool" where
  "same_trust mg mg' \<longleftrightarrow> mg_status_dir mg' = mg_status_dir mg \<and> mg_status_store mg' = mg_status_store mg"

lemma same_trust_refl [simp]: "same_trust mg mg"
  by (simp add: same_trust_def)

lemma same_trust_read: "same_trust mg mg' \<Longrightarrow> read_trust rt mg' = read_trust rt mg"
  by (simp add: same_trust_def read_trust_def)

lemma complete_trust: "same_trust mg (complete_and_replicate oc mg)"
  by (simp add: complete_and_replicate_def same_trust_def own_current_update_def peer_current_update_def Let_def)

lemma finalize_trust: "same_trust mg (snd (finalize_replication rt oc mg))"
  using complete_trust [of mg oc]
  by (auto simp: finalize_replication_def wait_for_completion_worker_def same_trust_def own_current_update_def
      peer_current_update_def Let_def split: sum.splits prod.splits if_splits)

lemma prepare_trust: "same_trust mg (snd (prepare_next_capture rt oc mg))"
  using finalize_trust [of mg rt oc]
  by (auto simp: prepare_next_capture_def same_trust_def own_current_update_def peer_current_update_def Let_def
      split: sum.splits prod.splits)

lemma finalize_save_trust: "same_trust mg (snd (finalize_save rt written step md mg))"
  by (auto simp: finalize_save_def same_trust_def Let_def split: sum.splits prod.splits)

lemma do_save_trust: "same_trust mg (snd (do_save rt oc written tensors md step mg))"
proof -
  obtain res mg1 where p: "prepare_next_capture rt oc mg = (res, mg1)" by force
  define mg2 where "mg2 = own_current_update (\<lambda>slot. slot\<lparr>sl_tensors := tensors, sl_step := step, sl_state := Copying,
    sl_entries := Some (md_entries md), sl_non_tensor := Some (md_non_tensor md)\<rparr>) mg1"
  have "same_trust mg mg2" using prepare_trust [of mg rt oc] p by (simp add: same_trust_def mg2_def own_current_update_def)
  then show ?thesis
    using prepare_trust [of mg rt oc] p finalize_save_trust [of mg2 rt written step md]
    by (auto simp: do_save_def same_trust_def Let_def mg2_def [symmetric] split: sum.splits prod.splits)
qed

lemma save_trust: "same_trust mg (snd (save_tensors rt oc written tensors non_tensor step mg))"
  using do_save_trust by (auto simp: save_tensors_def Let_def same_trust_def)

definition trusted :: "runtime \<Rightarrow> manager \<Rightarrow> checkpoint_status \<Rightarrow> bool" where
  "trusted rt mg cs \<longleftrightarrow> read_trust rt mg = Inr cs \<and> status_normal cs"

lemma update_trust_step:
  assumes t: "trusted rt mg cs" and f: "set (cs_verified_steps (f cs)) \<subseteq> set (cs_verified_steps cs)"
  shows "\<exists>cs' mg'. update_trust rt f mg = (Inr cs', mg') \<and> trusted rt mg' cs' \<and> cs_candidate_step cs' = cs_candidate_step (f cs) \<and>
    cs_recovery_mode cs' = cs_recovery_mode (f cs) \<and>
    set (cs_verified_steps cs') = set (cs_verified_steps (f cs)) \<union> (if 0 < cs_verified_step (f cs) then {cs_verified_step (f cs)} else {})"
proof -
  have "\<forall>v \<in> set (cs_verified_steps (f cs)). 0 < v" using t f by (auto simp: trusted_def status_normal_iff)
  then obtain cs' where c: "status_post_init (f cs) = Inr cs'" "status_normal cs'" "cs_candidate_step cs' = cs_candidate_step (f cs)"
    "cs_recovery_mode cs' = cs_recovery_mode (f cs)"
    "set (cs_verified_steps cs') = set (cs_verified_steps (f cs)) \<union> (if 0 < cs_verified_step (f cs) then {cs_verified_step (f cs)} else {})"
    using post_init_step by blast
  have "update_trust rt f mg = (Inr cs', write_trust cs' mg)" using t c(1) by (simp add: update_trust_def trusted_def)
  then show ?thesis using c read_write_trust [OF c(2)] unfolding trusted_def by blast
qed

lemma normal_verified:
  assumes "status_normal cs" "0 < cs_verified_step cs" shows "cs_verified_step cs \<in> set (cs_verified_steps cs)"
proof -
  have "cs_verified_steps cs = sorted_set (cs_verified_step cs # cs_verified_steps cs)"
    using assms by (simp add: status_normal_iff)
  then show ?thesis by (metis list.set_intros(1) set_sorted_set)
qed

lemma update_trust_keep:
  assumes t: "trusted rt mg cs" and f: "cs_verified_steps (f cs) = cs_verified_steps cs" "cs_verified_step (f cs) = cs_verified_step cs"
    "cs_candidate_step (f cs) = c" "cs_recovery_mode (f cs) = m"
  shows "\<exists>cs' mg'. update_trust rt f mg = (Inr cs', mg') \<and> trusted rt mg' cs' \<and> cs_recovery_mode cs' = m \<and>
    cs_candidate_step cs' = c \<and> set (cs_verified_steps cs') = set (cs_verified_steps cs)"
proof -
  obtain cs' mg' where u: "update_trust rt f mg = (Inr cs', mg')" "trusted rt mg' cs'" "cs_candidate_step cs' = c" "cs_recovery_mode cs' = m"
    "set (cs_verified_steps cs') = set (cs_verified_steps cs) \<union> (if 0 < cs_verified_step cs then {cs_verified_step cs} else {})"
    using update_trust_step [OF t, of f] f by auto
  then have "set (cs_verified_steps cs') = set (cs_verified_steps cs)"
    using normal_verified [of cs] t by (auto simp: trusted_def)
  then show ?thesis using u(1-4) by blast
qed

lemma set_mode_step:
  assumes "trusted rt mg cs"
  shows "\<exists>cs' mg'. set_recovery_mode rt mode mg = (Inr cs', mg') \<and> trusted rt mg' cs' \<and> cs_recovery_mode cs' = mode_value mode \<and>
    cs_candidate_step cs' = (if mode = RecoveryVerified then -1 else cs_candidate_step cs) \<and>
    set (cs_verified_steps cs') = set (cs_verified_steps cs)"
  unfolding set_recovery_mode_def by (rule update_trust_keep [OF assms]) simp_all

lemma clear_step:
  assumes "trusted rt mg cs"
  shows "\<exists>cs' mg'. clear_candidate rt mg = (Inr cs', mg') \<and> trusted rt mg' cs' \<and> cs_recovery_mode cs' = cs_recovery_mode cs \<and>
    cs_candidate_step cs' = -1 \<and> set (cs_verified_steps cs') = set (cs_verified_steps cs)"
  unfolding clear_candidate_def by (rule update_trust_keep [OF assms]) simp_all

text \<open>What a boundary may do to the trust record.\<close>

definition promotes :: "int \<Rightarrow> bool \<Rightarrow> checkpoint_status \<Rightarrow> checkpoint_status \<Rightarrow> bool" where
  "promotes step dense cs cs' \<longleftrightarrow> cs_candidate_step cs' = (if dense then -1 else step) \<and>
     set (cs_verified_steps cs') \<subseteq> set (cs_verified_steps cs) \<union>
       (if dense then {step} else if 0 < cs_candidate_step cs then {cs_candidate_step cs} else {})"

lemma boundary_step:
  assumes t: "trusted rt mg cs"
  shows "\<exists>cs'. trusted rt (snd (persist_boundary rt oc reduced step dense mg)) cs' \<and> (cs' = cs \<or> promotes step dense cs cs')"
proof -
  obtain res mg1 where f: "finalize_replication rt oc mg = (res, mg1)" by force
  have up: "\<exists>cs'. trusted rt (snd (update_trust rt (boundary_status step dense) mg2)) cs' \<and> (cs' = cs \<or> promotes step dense cs cs')"
    if "same_trust mg mg2" for mg2
  proof -
    have "trusted rt mg2 cs" using t same_trust_read [OF that] by (simp add: trusted_def)
    moreover have "set (cs_verified_steps (boundary_status step dense cs)) \<subseteq> set (cs_verified_steps cs)"
      by (simp add: boundary_status_def)
    ultimately obtain cs' mg' where "update_trust rt (boundary_status step dense) mg2 = (Inr cs', mg')" "trusted rt mg' cs'"
      "cs_candidate_step cs' = cs_candidate_step (boundary_status step dense cs)"
      "set (cs_verified_steps cs') = set (cs_verified_steps (boundary_status step dense cs)) \<union>
         (if 0 < cs_verified_step (boundary_status step dense cs) then {cs_verified_step (boundary_status step dense cs)} else {})"
      using update_trust_step by blast
    then show ?thesis
      using normal_verified [of cs] t by (auto simp: boundary_status_def promotes_def trusted_def split: if_splits)
  qed
  have s: "same_trust mg mg1" using finalize_trust [of mg rt oc] f by simp
  have keep: "trusted rt mg2 cs" if "same_trust mg mg2" for mg2 using t same_trust_read [OF that] by (simp add: trusted_def)
  have s2: "same_trust mg (mg1\<lparr>mg_disk := d\<rparr>)" for d using s by (simp add: same_trust_def)
  show ?thesis
    using up [OF s] up [OF s2] keep [OF s] keep [OF s2] t
    unfolding persist_boundary_def f Let_def
    by (cases "mg_metadata mg"; cases res) (auto split: option.splits)
qed


section \<open>How one call moves the trust record\<close>

definition ce_trusted :: "runtime \<Rightarrow> certification \<Rightarrow> checkpoint_status \<Rightarrow> bool" where
  "ce_trusted rt ce cs \<longleftrightarrow> (\<exists>mg. ce_manager ce = Some mg \<and> trusted rt mg cs)"

definition demotes :: "checkpoint_status \<Rightarrow> checkpoint_status \<Rightarrow> bool" where
  "demotes cs cs' \<longleftrightarrow> cs_candidate_step cs' = -1 \<and> set (cs_verified_steps cs') = set (cs_verified_steps cs)"

lemma durable_manager [simp]:
  "ce_manager (durable_reject reason ce) = ce_manager ce"
  "ce_manager (snd (durable_observe en result step ce)) = ce_manager ce"
  "ce_manager (snd (durable_begin en step shape ce)) = ce_manager ce"
  by (auto simp: durable_reject_def durable_observe_def durable_begin_def split: option.splits prod.splits sum.splits)

lemma ce_trusted_cong: "ce_manager ce' = ce_manager ce \<Longrightarrow> ce_trusted rt ce' cs = ce_trusted rt ce cs"
  by (simp add: ce_trusted_def)

lemma lift_manager_snd: "ce_manager ce = Some mg \<Longrightarrow> snd (lift_manager f ce) = ce\<lparr>ce_manager := Some (snd (f mg))\<rparr>"
  by (auto simp: lift_manager_def split: prod.splits sum.splits)

lemma lift_move:
  assumes t: "ce_trusted rt ce cs" and f: "\<And>mg. trusted rt mg cs \<Longrightarrow> \<exists>cs'. trusted rt (snd (f mg)) cs' \<and> P cs'"
  shows "\<exists>cs'. ce_trusted rt (snd (lift_manager f ce)) cs' \<and> P cs'"
proof -
  obtain mg where m: "ce_manager ce = Some mg" "trusted rt mg cs" using t by (auto simp: ce_trusted_def)
  then show ?thesis using f [OF m(2)] by (auto simp: ce_trusted_def lift_manager_snd)
qed

lemma lift_keep:
  assumes t: "ce_trusted rt ce cs" and f: "\<And>mg. same_trust mg (snd (f mg))"
  shows "ce_trusted rt (snd (lift_manager f ce)) cs"
  using lift_move [OF t, of f "\<lambda>cs'. cs' = cs"] same_trust_read [OF f] by (auto simp: trusted_def)

lemma lift_reject:
  "ce_trusted rt ce cs \<Longrightarrow> \<exists>cs'. ce_trusted rt (snd (lift_manager (reject_candidate rt) ce)) cs' \<and> demotes cs cs'"
  by (erule lift_move) (use set_mode_step [of rt _ cs RecoveryVerified] in \<open>force simp: reject_candidate_def demotes_def\<close>)

lemma lift_clear:
  "ce_trusted rt ce cs \<Longrightarrow> \<exists>cs'. ce_trusted rt (snd (lift_manager (clear_candidate rt) ce)) cs' \<and> demotes cs cs'"
  by (erule lift_move) (use clear_step [of rt _ cs] in \<open>force simp: demotes_def\<close>)

lemma and_then_trust:
  "\<exists>cs'. ce_trusted rt (snd m) cs' \<and> Q cs' \<Longrightarrow> \<exists>cs'. ce_trusted rt (snd (f (snd m))) cs' \<and> Q cs' \<Longrightarrow>
   \<exists>cs'. ce_trusted rt (snd (and_then m f)) cs' \<and> Q cs'"
  by (cases m) (auto simp: and_then_def split: sum.splits)

lemma and_then_manager:
  "ce_manager (snd m) = mg \<Longrightarrow> (\<And>ce. ce_manager ce = mg \<Longrightarrow> ce_manager (snd (f ce)) = mg) \<Longrightarrow> ce_manager (snd (and_then m f)) = mg"
  by (cases m) (auto simp: and_then_def split: sum.splits)

lemma start_durable_trust:
  assumes t: "ce_trusted rt ce cs" and rt: "en_runtime en = rt"
  shows "\<exists>cs'. ce_trusted rt (snd (start_durable en result step ce)) cs' \<and> (cs' = cs \<or> demotes cs cs')"
proof (cases "en_first_shape en")
  case (Some shape)
  let ?m = "and_then (durable_begin en step shape ce) (\<lambda>ce1.
      if rr_dense_replay result
      then (case durable_observe en (Some result) step ce1 of
              (event, ce2) \<Rightarrow> (if event \<noteq> Committed then Inl DenseNotCommitted else Inr (), ce2))
      else (Inr (), ce1))"
  have "ce_manager (snd ?m) = ce_manager ce"
    by (rule and_then_manager) (simp_all add: case_prod_beta)
  then have "ce_trusted rt (snd ?m) cs" using t ce_trusted_cong by blast
  then show ?thesis
    using lift_clear [of rt "snd ?m" cs] rt Some
    by (force simp: start_durable_def and_then_def split: sum.splits prod.splits)
qed (use t in \<open>auto simp: start_durable_def\<close>)

text \<open>The framework's own save routine leaves the trust record alone.\<close>

definition save_keeps_trust :: "surroundings \<Rightarrow> bool" where
  "save_keeps_trust en \<longleftrightarrow> (\<forall>save mg. en_checkpoint_save en = Some save \<longrightarrow> same_trust mg (snd (save mg)))"

lemma save_checkpoint_trust:
  "ce_trusted rt ce cs \<Longrightarrow> save_keeps_trust en \<Longrightarrow> ce_trusted rt (snd (save_checkpoint en step ce)) cs"
  unfolding save_checkpoint_def
  by (erule lift_keep) (auto simp: save_keeps_trust_def save_trust split: option.splits)

text \<open>At a boundary the previous candidate, or the boundary itself for a dense replay, may become verified.\<close>

definition boundary_move :: "int \<Rightarrow> bool \<Rightarrow> checkpoint_status \<Rightarrow> checkpoint_status \<Rightarrow> bool" where
  "boundary_move step dense cs cs' \<longleftrightarrow> cs_candidate_step cs' \<in> {-1, step} \<and>
     set (cs_verified_steps cs') \<subseteq> set (cs_verified_steps cs) \<union>
       (if dense then {step} else if 0 < cs_candidate_step cs then {cs_candidate_step cs} else {})"

lemma cycle_boundary_trust:
  assumes t: "ce_trusted rt ce cs" and rt: "en_runtime en = rt"
  shows "\<exists>cs'. ce_trusted rt (snd (cycle_boundary en result should_save force step ce)) cs' \<and>
    (cs' = cs \<or> demotes cs cs' \<or> boundary_move step (rr_dense_replay result) cs cs')"
proof -
  let ?m = "if should_save
    then lift_manager (persist_boundary (en_runtime en) (en_boundary_outcome en) (en_reduced en) step (rr_dense_replay result)) ce
    else (Inr (), ce)"
  have "\<exists>cs1. ce_trusted rt (snd ?m) cs1 \<and> (cs1 = cs \<or> promotes step (rr_dense_replay result) cs cs1)"
    using lift_move [OF t boundary_step] t by (auto simp: rt)
  then obtain cs1 where c1: "ce_trusted rt (snd ?m) cs1" "cs1 = cs \<or> promotes step (rr_dense_replay result) cs cs1" by blast
  have p: "demotes cs1 cs' \<Longrightarrow> demotes cs cs' \<or> boundary_move step (rr_dense_replay result) cs cs'"
    "cs1 = cs \<or> boundary_move step (rr_dense_replay result) cs cs1" for cs'
    using c1(2) by (auto simp: promotes_def boundary_move_def demotes_def split: if_splits)
  let ?Q = "\<lambda>cs'. cs' = cs \<or> demotes cs cs' \<or> boundary_move step (rr_dense_replay result) cs cs'"
  have stay: "\<exists>cs'. ce_trusted rt (snd ?m) cs' \<and> ?Q cs'" using c1(1) p(2) by blast
  have started: "\<exists>cs'. ce_trusted rt (snd (start_durable en result step (snd ?m))) cs' \<and> ?Q cs'"
    using start_durable_trust [OF c1(1) rt, of result step] p by blast
  show ?thesis
    unfolding cycle_boundary_def by (rule and_then_trust [OF stay]) (use stay started in \<open>simp split: if_splits\<close>)
qed

definition accepted :: "replay_consensus \<Rightarrow> bool" where
  "accepted c \<longleftrightarrow> rc_all_results_available c \<and> \<not> rc_any_sdc c"

definition moves :: "replay_consensus \<Rightarrow> int \<Rightarrow> bool \<Rightarrow> checkpoint_status \<Rightarrow> checkpoint_status \<Rightarrow> bool" where
  "moves c step dense cs cs' \<longleftrightarrow>
     (if rc_all_results_available c \<and> rc_any_sdc c then demotes cs cs'
      else cs' = cs \<or> demotes cs cs' \<or> accepted c \<and> rc_scheduled_cycle_complete c \<and> boundary_move step dense cs cs')"

definition is_dense :: "replay_result option \<Rightarrow> bool" where
  "is_dense result = (case result of None \<Rightarrow> False | Some r \<Rightarrow> rr_dense_replay r)"

lemma settle_trust:
  assumes t: "ce_trusted rt ce cs" and rt: "en_runtime en = rt"
  shows "\<exists>cs'. ce_trusted rt (snd (settle_round en whole result should_save force step ce)) cs' \<and>
    (cs' = cs \<or> demotes cs cs' \<or> whole \<and> boundary_move step (rr_dense_replay result) cs cs')"
proof -
  obtain event ce1 where ob: "(if durable_pending ce then durable_observe en (Some result) step ce else (NoEvent, ce)) = (event, ce1)"
    by force
  then have "ce_manager ce1 = ce_manager ce" by (metis durable_manager(2) snd_conv)
  then have t1: "ce_trusted rt ce1 cs" "\<And>reason. ce_trusted rt (durable_reject reason ce1) cs"
    using t ce_trusted_cong durable_manager(1) by blast+
  show ?thesis
    using t1(1) lift_reject [OF t1(1)] lift_reject [OF t1(2)] cycle_boundary_trust [OF t1(1) rt, of result should_save force step]
    unfolding settle_round_def ob prod.case rt by (simp only: snd_conv split: if_split) blast
qed

lemma apply_result_trust:
  assumes t: "ce_trusted rt ce cs" and rt: "en_runtime en = rt" and save: "save_keeps_trust en"
  shows "\<exists>cs'. ce_trusted rt (snd (apply_result en results step result force full ce)) cs' \<and>
    moves (global_replay_consensus results) step (is_dense result) cs cs'"
proof -
  let ?c = "global_replay_consensus results"
  have rj: "\<exists>cs'. ce_trusted rt (snd (cert_reject_candidate en reason ce)) cs' \<and> demotes cs cs'" for reason
    unfolding cert_reject_candidate_def rt using t lift_reject ce_trusted_cong [OF durable_manager(1)] by blast
  have settled: "\<exists>cs'. ce_trusted rt (snd (settle_round en (rc_scheduled_cycle_complete ?c) r (force \<or> checkpoint_due (ce_cadence ce) step) force step ce1)) cs' \<and>
      moves ?c step (rr_dense_replay r) cs cs'" if "ce_trusted rt ce1 cs" "accepted ?c" for r ce1
    using settle_trust [OF that(1) rt, of "rc_scheduled_cycle_complete ?c" r "force \<or> checkpoint_due (ce_cadence ce) step" force step] that(2)
    by (auto simp: moves_def accepted_def)
  have stay: "\<exists>cs'. ce_trusted rt ce1 cs' \<and> moves ?c step dense cs cs'" if "ce_trusted rt ce1 cs" "accepted ?c \<or> \<not> rc_all_results_available ?c" for dense ce1
    using that by (auto simp: moves_def accepted_def)
  have round: "\<exists>cs'. ce_trusted rt (snd (and_then (if force \<or> checkpoint_due (ce_cadence ce) step then save_checkpoint en step ce else (Inr (), ce))
      (settle_round en (rc_scheduled_cycle_complete ?c) r (force \<or> checkpoint_due (ce_cadence ce) step) force step))) cs' \<and>
      moves ?c step (rr_dense_replay r) cs cs'" if "accepted ?c" for r
    by (rule and_then_trust) (use t save_checkpoint_trust [OF t save] settled stay that in \<open>auto split: if_splits\<close>)
  show ?thesis
    using rj t stay [OF t] round
    by (auto simp: apply_result_def moves_def accepted_def is_dense_def Let_def split: option.splits)
qed

section \<open>Runs\<close>

text \<open>What happened, beside the program: a round at a step with what all ranks agreed on, or a recovery decision.\<close>

datatype cert_event = Round int replay_consensus bool | Recovery recovery_mode

definition post_events :: "cadence \<Rightarrow> replay_result option list \<Rightarrow> int \<Rightarrow> replay_result option \<Rightarrow> cert_event list" where
  "post_events ca results step result =
     (if ca_detection_enabled ca \<and> (detection_due ca step \<or> result \<noteq> None)
      then [Round step (global_replay_consensus results) (is_dense result)] else [])"

inductive cert_run :: "runtime \<Rightarrow> certification \<Rightarrow> cert_event list \<Rightarrow> certification \<Rightarrow> bool" for rt ce0 where
  initial: "cert_run rt ce0 [] ce0"
| trained: "cert_run rt ce0 h ce \<Longrightarrow> en_runtime en = rt \<Longrightarrow> save_keeps_trust en \<Longrightarrow> result \<in> set results \<Longrightarrow>
    post_step en results step result ce = (res, ce') \<Longrightarrow> cert_run rt ce0 (h @ post_events (ce_cadence ce) results step result) ce'"
| saved: "cert_run rt ce0 h ce \<Longrightarrow> en_runtime en = rt \<Longrightarrow> save_keeps_trust en \<Longrightarrow> result \<in> set results \<Longrightarrow>
    save_now en results step result ce = (res, ce') \<Longrightarrow>
    cert_run rt ce0 (h @ [Round step (global_replay_consensus (map mark_swept results)) (is_dense result)]) ce'"
| failed: "cert_run rt ce0 h ce \<Longrightarrow> en_runtime en = rt \<Longrightarrow>
    prepare_recovery en failure accessible swept ce = (mode, ce') \<Longrightarrow>
    cert_run rt ce0 (h @ [Recovery (recovery_mode_for failure accessible swept)]) ce'"

definition clean_boundary :: "int \<Rightarrow> bool \<Rightarrow> cert_event \<Rightarrow> bool" where
  "clean_boundary step dense e \<longleftrightarrow> (\<exists>c. e = Round step c dense \<and> accepted c \<and> rc_scheduled_cycle_complete c)"

text \<open>An event that invalidates the candidate: corruption seen with all results present, or a verified recovery.\<close>

fun rejecting :: "cert_event \<Rightarrow> bool" where
  "rejecting (Round step c dense) \<longleftrightarrow> rc_all_results_available c \<and> rc_any_sdc c"
| "rejecting (Recovery mode) \<longleftrightarrow> mode = RecoveryVerified"

definition candidate_since :: "cert_event list \<Rightarrow> int \<Rightarrow> bool" where
  "candidate_since h v \<longleftrightarrow> (\<exists>before e after. h = before @ e # after \<and> (\<exists>dense. clean_boundary v dense e) \<and> (\<forall>x \<in> set after. \<not> rejecting x))"

text \<open>Verified at once by a dense replay, or a candidate that reached the next clean boundary unrejected.\<close>

definition justified :: "cert_event list \<Rightarrow> int \<Rightarrow> bool" where
  "justified h v \<longleftrightarrow> (\<exists>before e after. h = before @ e # after \<and>
     (clean_boundary v True e \<or> candidate_since before v \<and> (\<exists>w dense. clean_boundary w dense e)))"

definition history_ok :: "cert_event list \<Rightarrow> checkpoint_status \<Rightarrow> bool" where
  "history_ok h cs \<longleftrightarrow> (0 < cs_candidate_step cs \<longrightarrow> candidate_since h (cs_candidate_step cs)) \<and>
     (\<forall>v \<in> set (cs_verified_steps cs). justified h v)"

lemma justified_later: "justified h v \<Longrightarrow> justified (h @ [e]) v"
  unfolding justified_def by (metis append_Cons append_assoc)

lemma candidate_later:
  assumes "candidate_since h v" "\<not> rejecting e" shows "candidate_since (h @ [e]) v"
proof -
  obtain before x after dense where "h = before @ x # after" "clean_boundary v dense x" "\<forall>x \<in> set after. \<not> rejecting x"
    using assms(1) by (auto simp: candidate_since_def)
  then have "h @ [e] = before @ x # (after @ [e])" "clean_boundary v dense x" "\<forall>x \<in> set (after @ [e]). \<not> rejecting x"
    using assms(2) by auto
  then show ?thesis unfolding candidate_since_def by blast
qed

lemma justified_now: "clean_boundary v True e \<or> candidate_since h v \<and> clean_boundary w dense e \<Longrightarrow> justified (h @ [e]) v"
  unfolding justified_def by (metis append_Nil)

lemma candidate_now: "clean_boundary v dense e \<Longrightarrow> candidate_since (h @ [e]) v"
  unfolding candidate_since_def by (metis empty_iff empty_set)

lemma demotes_history: "history_ok h cs \<Longrightarrow> demotes cs cs' \<Longrightarrow> history_ok (h @ [e]) cs'"
  by (auto simp: history_ok_def demotes_def justified_later)

lemma same_history: "history_ok h cs \<Longrightarrow> \<not> rejecting e \<Longrightarrow> history_ok (h @ [e]) cs"
  by (auto simp: history_ok_def justified_later candidate_later)

lemma boundary_history:
  assumes h: "history_ok h cs" and m: "boundary_move step dense cs cs'" and e: "clean_boundary step dense e"
  shows "history_ok (h @ [e]) cs'"
proof -
  have "justified (h @ [e]) v" if "v \<in> set (cs_verified_steps cs')" for v
  proof -
    have "v \<in> set (cs_verified_steps cs) \<or> dense \<and> v = step \<or> candidate_since h v"
      using that m h by (auto simp: boundary_move_def history_ok_def split: if_splits)
    moreover have "justified h v" if "v \<in> set (cs_verified_steps cs)" using that h by (simp add: history_ok_def)
    ultimately show ?thesis using justified_later [of h v e] justified_now [of v e h step dense] e by (cases dense) auto
  qed
  moreover have "candidate_since (h @ [e]) (cs_candidate_step cs')" if "0 < cs_candidate_step cs'"
    using that m candidate_now [OF e] by (auto simp: boundary_move_def)
  ultimately show ?thesis by (simp add: history_ok_def)
qed

lemma moves_history:
  assumes h: "history_ok h cs" and m: "moves c step dense cs cs'"
  shows "history_ok (h @ [Round step c dense]) cs'"
proof (cases "rc_all_results_available c \<and> rc_any_sdc c")
  case True
  then show ?thesis using m demotes_history [OF h] by (simp add: moves_def)
next
  case False
  then have "\<not> rejecting (Round step c dense)" by simp
  moreover have "clean_boundary step dense (Round step c dense)" if "accepted c" "rc_scheduled_cycle_complete c"
    using that by (simp add: clean_boundary_def)
  ultimately show ?thesis
    using m demotes_history [OF h] same_history [OF h] boundary_history [OF h] False by (auto simp: moves_def)
qed

lemma reject_mode: "reject_candidate rt = set_recovery_mode rt RecoveryVerified"
  by (rule ext) (simp add: reject_candidate_def)

lemma recovery_trust:
  assumes t: "ce_trusted rt ce cs" and rt: "en_runtime en = rt"
  shows "\<exists>ce' cs'. prepare_recovery en failure accessible swept ce = (Inr (recovery_mode_for failure accessible swept), ce') \<and>
    ce_trusted rt ce' cs' \<and> set (cs_verified_steps cs') = set (cs_verified_steps cs) \<and>
    cs_recovery_mode cs' = mode_value (recovery_mode_for failure accessible swept) \<and>
    cs_candidate_step cs' = (if recovery_mode_for failure accessible swept = RecoveryVerified then -1 else cs_candidate_step cs)"
proof -
  define mode where "mode = recovery_mode_for failure accessible swept"
  define ce1 where "ce1 = (if mode = RecoveryVerified
    then durable_reject (failure_value failure @ '' recovery invalidated the current candidate'') ce else ce)"
  have "ce_manager ce1 = ce_manager ce" by (simp add: ce1_def)
  then obtain mg where mg: "ce_manager ce1 = Some mg" "trusted rt mg cs" using t by (auto simp: ce_trusted_def)
  obtain cs' mg' where s: "set_recovery_mode rt mode mg = (Inr cs', mg')" "trusted rt mg' cs'" "cs_recovery_mode cs' = mode_value mode"
    "cs_candidate_step cs' = (if mode = RecoveryVerified then -1 else cs_candidate_step cs)"
    "set (cs_verified_steps cs') = set (cs_verified_steps cs)"
    using set_mode_step [OF mg(2)] by blast
  have "lift_manager (set_recovery_mode rt mode) ce1 = (Inr (), ce1\<lparr>ce_manager := Some mg'\<rparr>)"
    using mg s(1) by (simp add: lift_manager_def)
  then have "prepare_recovery en failure accessible swept ce = (Inr mode, ce1\<lparr>ce_manager := Some mg'\<rparr>)"
    by (auto simp: prepare_recovery_def mode_def [symmetric] cert_reject_candidate_def ce1_def reject_mode rt Let_def split: if_splits)
  then show ?thesis unfolding mode_def [symmetric] using s by (auto simp: ce_trusted_def)
qed

lemma is_dense_swept [simp]: "is_dense (mark_swept result) = is_dense result"
  by (cases result) (auto simp: is_dense_def mark_swept_def)

lemma run_history:
  assumes "cert_run rt ce0 h ce" "ce_trusted rt ce0 cs0" "history_ok [] cs0"
  shows "\<exists>cs. ce_trusted rt ce cs \<and> history_ok h cs"
  using assms(1)
proof (induction rule: cert_run.induct)
  case initial
  then show ?case using assms by blast
next
  case (trained h ce en result results step res ce')
  then obtain cs where cs: "ce_trusted rt ce cs" "history_ok h cs" by blast
  obtain cs' where "ce_trusted rt (snd (apply_result en results step result False False ce)) cs'"
    "moves (global_replay_consensus results) step (is_dense result) cs cs'"
    using apply_result_trust [OF cs(1) trained(2,3)] by blast
  then show ?case
    using trained cs moves_history [OF cs(2)] save_checkpoint_trust [OF cs(1) trained(3), of step]
    by (auto simp: post_step_def post_events_def split: if_splits)
next
  case (saved h ce en result results step res ce')
  then obtain cs where cs: "ce_trusted rt ce cs" "history_ok h cs" by blast
  obtain cs' where "ce_trusted rt (snd (apply_result en (map mark_swept results) step (mark_swept result) True True ce)) cs'"
    "moves (global_replay_consensus (map mark_swept results)) step (is_dense result) cs cs'"
    using apply_result_trust [OF cs(1) saved(2,3)] by (metis is_dense_swept)
  then show ?case using saved(5) cs moves_history [OF cs(2)] by (auto simp: save_now_def ce_trusted_def split: if_splits)
next
  case (failed h ce en failure accessible swept mode ce')
  then obtain cs where cs: "ce_trusted rt ce cs" "history_ok h cs" by blast
  obtain cs' where cs': "ce_trusted rt ce' cs'" "set (cs_verified_steps cs') = set (cs_verified_steps cs)"
    "cs_candidate_step cs' = (if recovery_mode_for failure accessible swept = RecoveryVerified then -1 else cs_candidate_step cs)"
    using recovery_trust [OF cs(1) failed(2), of failure accessible swept] failed(3) by auto
  have "history_ok (h @ [Recovery (recovery_mode_for failure accessible swept)]) cs'"
    using cs' cs(2) by (auto simp: history_ok_def justified_later intro!: candidate_later split: if_splits)
  then show ?case using cs'(1) by blast
qed

text \<open>C5: In every run of training steps, immediate saves and recovery decisions on a fresh trust record, whatever
  each call returned, each step recorded as recovery-verified was the end of a scheduled cycle that all
  ranks finished clean, and either that was a dense replay, or a later scheduled cycle also ended clean on
  all ranks, and in between there was no verified recovery and no round in which every rank had a result and one of
  them saw corruption.\<close>

theorem verified_steps_justified:
  assumes "cert_run rt ce0 h ce" "ce_manager ce0 = Some mg0" "read_trust rt mg0 = Inr empty_status"
  shows "\<exists>mg cs. ce_manager ce = Some mg \<and> read_trust rt mg = Inr cs \<and>
    list_all (\<lambda>v. \<exists>before e after. h = before @ e # after \<and>
      (clean_boundary v True e \<or> candidate_since before v \<and> (\<exists>w dense. clean_boundary w dense e))) (cs_verified_steps cs)"
proof -
  have "status_normal empty_status" by (simp add: status_normal_def empty_status_def status_post_init_def sorted_set_def)
  then have "ce_trusted rt ce0 empty_status" using assms by (simp add: ce_trusted_def trusted_def)
  moreover have "history_ok [] empty_status" by (simp add: history_ok_def empty_status_def)
  ultimately obtain cs where "ce_trusted rt ce cs" "history_ok h cs" using run_history [OF assms(1)] by blast
  then show ?thesis by (auto simp: ce_trusted_def trusted_def history_ok_def justified_def list_all_iff)
qed

section \<open>A round with a missing result\<close>







lemma sweep_certifies:
  assumes "rc_all_results_available (global_replay_consensus swept)" "rc_all_shape_cycles_complete (global_replay_consensus swept)"
    "\<not> rc_any_sdc (global_replay_consensus swept)"
  shows "swept \<noteq> [] \<and> list_all replay_result_certifies_checkpoint swept"
proof -
  have "replay_result_certifies_checkpoint r" if "r \<in> set swept" for r
    using assms that
    by (cases r) (auto simp: global_replay_consensus_def Let_def replay_result_certifies_checkpoint_def)
  moreover have "swept \<noteq> []" using assms(2) by (auto simp: global_replay_consensus_def)
  ultimately show ?thesis by (simp add: list_all_iff)
qed

text \<open>C11: A recovery decision always succeeds on a readable trust record. It is the latest-checkpoint mode only
  if all ranks are reachable and either the failure is a straggler, or it is a hang or unclear and every
  rank finished a full clean sweep; otherwise the candidate is withdrawn. The verified steps are kept and the
  mode is the one a restart reads back.\<close>

theorem recovery_decision_safe:
  assumes "ce_manager ce = Some mg" "read_trust (en_runtime en) mg = Inr cs" "status_post_init cs = Inr cs"
  shows "\<exists>mode ce' mg' cs'. prepare_recovery en failure accessible swept ce = (Inr mode, ce') \<and>
    (mode = RecoveryVerified \<or> accessible \<and>
       (failure = Straggler \<or> failure \<in> {Hang, Uncertain} \<and> swept \<noteq> [] \<and> list_all replay_result_certifies_checkpoint swept)) \<and>
    ce_manager ce' = Some mg' \<and> read_trust (en_runtime en) mg' = Inr cs' \<and>
    set (cs_verified_steps cs') = set (cs_verified_steps cs) \<and>
    resolved_recovery_mode (en_runtime en) None mg' = Inr mode \<and>
    cs_candidate_step cs' = (if mode = RecoveryVerified then -1 else cs_candidate_step cs)"
proof -
  let ?mode = "recovery_mode_for failure accessible swept"
  have "ce_trusted (en_runtime en) ce cs" using assms by (auto simp: ce_trusted_def trusted_def status_normal_def)
  from recovery_trust [OF this refl, of failure accessible swept] obtain ce' mg' cs' where
    p: "prepare_recovery en failure accessible swept ce = (Inr ?mode, ce')" "ce_manager ce' = Some mg'" "read_trust (en_runtime en) mg' = Inr cs'"
    "set (cs_verified_steps cs') = set (cs_verified_steps cs)" "cs_recovery_mode cs' = mode_value ?mode"
    "cs_candidate_step cs' = (if ?mode = RecoveryVerified then -1 else cs_candidate_step cs)"
    by (auto simp: ce_trusted_def trusted_def)
  have "?mode = RecoveryVerified \<or> accessible \<and>
      (failure = Straggler \<or> failure \<in> {Hang, Uncertain} \<and> swept \<noteq> [] \<and> list_all replay_result_certifies_checkpoint swept)"
    using sweep_certifies [of swept] by (cases failure) (simp_all add: recovery_mode_for_def Let_def)
  moreover have "resolved_recovery_mode (en_runtime en) None mg' = Inr ?mode"
    using p(3,5) by (cases ?mode) (simp_all add: resolved_recovery_mode_def mode_value_def)
  ultimately show ?thesis using p by blast
qed

section \<open>Concrete rounds\<close>

definition good_transfer :: outcome where
  "good_transfer = \<lparr>oc_copied = True, oc_timed_out = False, oc_sent = True, oc_received = None, oc_tensors = []\<rparr>"

definition example_surroundings :: surroundings where
  "example_surroundings = \<lparr>en_runtime = example_runtime, en_checkpoint_save = None, en_tensors = [], en_non_tensor = ''x'',
     en_flushed = True, en_save_outcome = good_transfer, en_boundary_outcome = good_transfer, en_reduced = (\<lambda>i. i),
     en_gather = (\<lambda>x. [x]), en_first_shape = None, en_starts = [], en_artifacts = [], en_saved = True, en_persisted = True,
     en_written = 0\<rparr>"

definition example_certification :: certification where
  "example_certification = \<lparr>ce_cadence = \<lparr>ca_interval = 5, ca_checkpoint_enabled = True, ca_detection_enabled = True\<rparr>,
     ce_manager = Some (example_manager\<lparr>
       mg_pool := \<lparr>bp_slots = [example_slot (-1) Empty, example_slot (-1) Empty], bp_allocated = True, bp_entries = Some []\<rparr>,
       mg_replicator := (mg_replicator example_manager)\<lparr>rp_enabled := False, rp_peer_rank := -1\<rparr>,
       mg_save_count := 0, mg_worker := False\<rparr>), ce_durable = None\<rparr>"

definition example_result :: "int \<Rightarrow> bool \<Rightarrow> replay_result option" where
  "example_result flag finished = Some \<lparr>rr_sdc_bitmap = [flag], rr_c3_statuses = [], rr_checked_shape_ids = [''a''],
     rr_completed_shape_cycle = True, rr_completed_scheduled_cycle = finished, rr_dense_replay = False\<rparr>"

definition example_round :: "replay_result option list \<Rightarrow> int \<Rightarrow> replay_result option \<Rightarrow> certification \<Rightarrow> certification" where
  "example_round results step result ce = snd (post_step example_surroundings results step result ce)"

definition example_trust :: "certification \<Rightarrow> manager_error + checkpoint_status" where
  "example_trust ce = read_trust example_runtime (the (ce_manager ce))"

lemma example_save_keeps: "save_keeps_trust example_surroundings"
  by (simp add: save_keeps_trust_def example_surroundings_def)



text \<open>Two clean boundaries: the first makes a candidate, the second verifies it.\<close>

theorem verified_steps_justified_witness:
  "\<exists>h ce mg cs. cert_run example_runtime example_certification h ce \<and> ce_manager ce = Some mg \<and>
    read_trust example_runtime mg = Inr cs \<and> cs_verified_steps cs = [10] \<and>
    (\<exists>before e after. h = before @ e # after \<and>
      (clean_boundary 10 True e \<or> candidate_since before 10 \<and> (\<exists>w dense. clean_boundary w dense e)))"
proof -
  let ?r = "example_result 0 True"
  have rt: "en_runtime example_surroundings = example_runtime" by (simp add: example_surroundings_def)
  let ?ce1 = "example_round [?r] 10 ?r example_certification" and ?ce2 = "example_round [?r] 20 ?r (example_round [?r] 10 ?r example_certification)"
  define h where "h = ([] @ post_events (ce_cadence example_certification) [?r] 10 ?r) @ post_events (ce_cadence ?ce1) [?r] 20 ?r"
  have run: "cert_run example_runtime example_certification h ?ce2"
    unfolding example_round_def h_def
    by (rule trained [OF trained [OF initial rt example_save_keeps _ prod.collapse [symmetric]] rt example_save_keeps _ prod.collapse [symmetric]]) simp_all
  have r0: "example_trust example_certification = Inr empty_status" by code_simp
  obtain mg0 where m0: "ce_manager example_certification = Some mg0" by (simp add: example_certification_def)
  then have "read_trust example_runtime mg0 = Inr empty_status" using r0 by (simp add: example_trust_def)
  from verified_steps_justified [OF run m0 this] obtain mg cs where m: "ce_manager ?ce2 = Some mg" "read_trust example_runtime mg = Inr cs"
    and j: "list_all (\<lambda>v. \<exists>before e after. h = before @ e # after \<and>
      (clean_boundary v True e \<or> candidate_since before v \<and> (\<exists>w dense. clean_boundary w dense e))) (cs_verified_steps cs)" by blast
  have "map_sum id cs_verified_steps (example_trust ?ce2) = Inr [10]" by code_simp
  then have "cs_verified_steps cs = [10]" using m by (simp add: example_trust_def)
  moreover from this j have "\<exists>before e after. h = before @ e # after \<and>
      (clean_boundary 10 True e \<or> candidate_since before 10 \<and> (\<exists>w dense. clean_boundary w dense e))" by simp
  ultimately show ?thesis using run m by blast
qed

theorem recovery_decision_safe_witness:
  "\<exists>mode ce'. prepare_recovery example_surroundings Hang True [example_result 1 True] example_certification = (Inr mode, ce') \<and>
     mode = RecoveryVerified"
proof -
  have "example_trust example_certification = Inr empty_status" "status_post_init empty_status = Inr empty_status" by code_simp+
  moreover obtain mg0 where "ce_manager example_certification = Some mg0" by (simp add: example_certification_def)
  ultimately show ?thesis
    using recovery_decision_safe [of example_certification mg0 example_surroundings empty_status Hang True "[example_result 1 True]"]
    by (auto simp: example_trust_def example_surroundings_def replay_result_certifies_checkpoint_def replay_result_has_sdc_def example_result_def)
qed

end
