(* ===== verification/Loading.thy ===== *)
theory Loading
  imports Manager
begin

text \<open>
  Collective loading of \<open>lm_resiliency/checkpointing/manager.py\<close>: the choice of a step and of valid shards by all ranks
  together. A rank is a resumption that stops at each reduction with its contribution and goes on with the reduced
  value; ranks run in lock step, and one that waits for a reduction the others do not join blocks. The manager is
  enabled, requested steps are integers and steps fit in the 64 bits of a reduced tensor. Logging is left out.
\<close>

section \<open>Ranks and their reductions\<close>

codatatype 'a collective =
    is_Finish: Finish (co_result: 'a)
  | is_MinStep: MinStep (co_offer: int) (co_resume: "int \<Rightarrow> 'a collective")
  | is_Bounds: Bounds (co_offers: "int list") (co_resume_bounds: "int list \<times> int list \<Rightarrow> 'a collective")

primcorec and_then :: "'a collective \<Rightarrow> ('a \<Rightarrow> 'b collective) \<Rightarrow> 'b collective" where
  "and_then m f = (case m of
     Finish x \<Rightarrow> (case f x of Finish y \<Rightarrow> Finish y | MinStep c k \<Rightarrow> MinStep c k | Bounds cs k \<Rightarrow> Bounds cs k)
   | MinStep c k \<Rightarrow> MinStep c (\<lambda>r. and_then (k r) f)
   | Bounds cs k \<Rightarrow> Bounds cs (\<lambda>b. and_then (k b) f))"

lemma and_then_simps [simp]:
  "and_then (Finish x) f = f x"
  "and_then (MinStep c k) f = MinStep c (\<lambda>r. and_then (k r) f)"
  "and_then (Bounds cs j) f = Bounds cs (\<lambda>b. and_then (j b) f)"
  by (subst and_then.code, simp split: collective.split)+

text \<open>The element-wise minimum and maximum of the tuples the ranks offer.\<close>

definition collective_int_bounds :: "int list list \<Rightarrow> int list \<times> int list" where
  "collective_int_bounds offers =
     (let columns = map (\<lambda>i. map (\<lambda>offer. offer ! i) offers) [0..<length (hd offers)]
      in (map collective_min_step columns, map (\<lambda>column. foldl max (hd column) (tl column)) columns))"

datatype 'a joint = Results "'a list" | Deadlock

partial_function (option) run_ranks :: "'a collective list \<Rightarrow> 'a joint option" where
  "run_ranks ranks =
     (if list_all is_Finish ranks then Some (Results (map co_result ranks))
      else if list_all is_MinStep ranks
        then run_ranks (map (\<lambda>rank. co_resume rank (collective_min_step (map co_offer ranks))) ranks)
      else if list_all is_Bounds ranks
        then run_ranks (map (\<lambda>rank. co_resume_bounds rank (collective_int_bounds (map co_offers ranks))) ranks)
      else Some Deadlock)"

lemma run_cong: "(\<And>x. x \<in> set xs \<Longrightarrow> p x = q x) \<Longrightarrow> run_ranks (map p xs) = run_ranks (map q xs)"
  by (simp cong: map_cong)

lemma run_Finish:
  assumes "\<And>x. x \<in> set xs \<Longrightarrow> p x = Finish (r x)"
  shows "run_ranks (map p xs) = Some (Results (map r xs))"
  using assms by (subst run_ranks.simps) (simp add: list_all_iff)

lemma run_MinStep:
  assumes "xs \<noteq> []" "\<And>x. x \<in> set xs \<Longrightarrow> p x = MinStep (c x) (k x)"
  shows "run_ranks (map p xs) = run_ranks (map (\<lambda>x. k x (collective_min_step (map c xs))) xs)"
proof -
  have m: "map co_offer (map p xs) = map c xs" "\<And>v. map (\<lambda>rank. co_resume rank v) (map p xs) = map (\<lambda>x. k x v) xs"
    "list_all is_MinStep (map p xs)" "\<not> list_all is_Finish (map p xs)"
    using assms by (cases xs; simp add: list_all_iff)+
  show ?thesis by (subst run_ranks.simps) (simp only: m if_True if_False simp_thms)
qed

lemma run_Bounds:
  assumes "xs \<noteq> []" "\<And>x. x \<in> set xs \<Longrightarrow> p x = Bounds (c x) (k x)"
  shows "run_ranks (map p xs) = run_ranks (map (\<lambda>x. k x (collective_int_bounds (map c xs))) xs)"
proof -
  have m: "map co_offers (map p xs) = map c xs" "\<And>v. map (\<lambda>rank. co_resume_bounds rank v) (map p xs) = map (\<lambda>x. k x v) xs"
    "list_all is_Bounds (map p xs)" "\<not> list_all is_Finish (map p xs)" "\<not> list_all is_MinStep (map p xs)"
    using assms by (cases xs; simp add: list_all_iff)+
  show ?thesis by (subst run_ranks.simps) (simp only: m if_True if_False simp_thms)
qed

lemma run_and_then_rec:
  assumes "run_ranks ps = Some res" "ps = map p xs" "res = Results (map r xs)"
  shows "run_ranks (map (\<lambda>x. and_then (p x) (f x)) xs) = run_ranks (map (\<lambda>x. f x (r x)) xs)"
  using assms
proof (induction ps res arbitrary: p rule: run_ranks.raw_induct [rotated, consumes 1, case_names step])
  case 1: (step rec ps res)
  have eqs: "ps = map p xs" "res = Results (map r xs)" by fact+
  consider "list_all is_Finish (map p xs)" "map co_result (map p xs) = map r xs"
    | "\<not> list_all is_Finish (map p xs)" "list_all is_MinStep (map p xs)"
        "rec (map (\<lambda>rank. co_resume rank (collective_min_step (map co_offer (map p xs)))) (map p xs)) = Some res"
    | "\<not> list_all is_Finish (map p xs)" "list_all is_Bounds (map p xs)"
        "rec (map (\<lambda>rank. co_resume_bounds rank (collective_int_bounds (map co_offers (map p xs)))) (map p xs)) = Some res"
    using 1(2) unfolding eqs by (simp split: if_split_asm)
  then show ?case
  proof cases
    case 1
    then have "p x = Finish (r x)" if "x \<in> set xs" for x
      using that by (auto simp: list_all_iff) (metis collective.collapse(1))
    then have "map (\<lambda>x. and_then (p x) (f x)) xs = map (\<lambda>x. f x (r x)) xs" by simp
    then show ?thesis by (rule arg_cong)
  next
    case 2
    let ?m = "collective_min_step (map co_offer (map p xs))"
    have ne: "xs \<noteq> []" using 2(1) by auto
    have m: "?m = collective_min_step (map (\<lambda>x. co_offer (p x)) xs)" by (simp add: comp_def)
    have "run_ranks (map (\<lambda>x. and_then (p x) (f x)) xs) = run_ranks (map (\<lambda>x. and_then (co_resume (p x) ?m) (f x)) xs)"
      unfolding m
    proof (rule run_MinStep [OF ne])
      show "and_then (p x) (f x) = MinStep (co_offer (p x)) (\<lambda>v. and_then (co_resume (p x) v) (f x))" if "x \<in> set xs" for x
        using 2(2) that by (cases "p x") (auto simp: list_all_iff)
    qed
    also have "\<dots> = run_ranks (map (\<lambda>x. f x (r x)) xs)" by (rule 1(1) [OF 2(3) _ eqs(2)]) simp
    finally show ?thesis .
  next
    case 3
    let ?m = "collective_int_bounds (map co_offers (map p xs))"
    have ne: "xs \<noteq> []" using 3(1) by auto
    have m: "?m = collective_int_bounds (map (\<lambda>x. co_offers (p x)) xs)" by (simp add: comp_def)
    have "run_ranks (map (\<lambda>x. and_then (p x) (f x)) xs) = run_ranks (map (\<lambda>x. and_then (co_resume_bounds (p x) ?m) (f x)) xs)"
      unfolding m
    proof (rule run_Bounds [OF ne])
      show "and_then (p x) (f x) = Bounds (co_offers (p x)) (\<lambda>v. and_then (co_resume_bounds (p x) v) (f x))" if "x \<in> set xs" for x
        using 3(2) that by (cases "p x") (auto simp: list_all_iff)
    qed
    also have "\<dots> = run_ranks (map (\<lambda>x. f x (r x)) xs)" by (rule 1(1) [OF 3(3) _ eqs(2)]) simp
    finally show ?thesis .
  qed
qed

lemma run_and_then:
  "run_ranks (map p xs) = Some (Results (map r xs)) \<Longrightarrow>
     run_ranks (map (\<lambda>x. and_then (p x) (f x)) xs) = run_ranks (map (\<lambda>x. f x (r x)) xs)"
  by (rule run_and_then_rec [OF _ refl refl])

section \<open>Agreeing on a step\<close>

text \<open>What a rank contributes while the ranks look for a generation all of them have.\<close>

definition step_vote :: "manager \<Rightarrow> int \<Rightarrow> int" where
  "step_vote mg candidate =
     (if has_rank candidate (mg_rank mg) (mg_disk mg) then candidate else find_latest_on_disk (Some candidate) (mg_disk mg))"

primcorec descend :: "manager \<Rightarrow> int \<Rightarrow> int collective" where
  "descend mg candidate =
     (if candidate \<le> 0 then Finish (-1)
      else MinStep (step_vote mg candidate) (\<lambda>agreed. if agreed = candidate then Finish candidate else descend mg agreed))"

definition rank_consistent_step :: "manager \<Rightarrow> int option \<Rightarrow> int collective" where
  "rank_consistent_step mg before_step = MinStep (find_latest_on_disk before_step (mg_disk mg)) (descend mg)"

definition consistent_memory_step :: "manager \<Rightarrow> int collective" where
  "consistent_memory_step mg =
     MinStep (latest_memory_step mg) (\<lambda>step.
       if step \<le> 0 then Finish (-1)
       else MinStep (if memory_slot_by_step mg step \<noteq> None then 1 else 0) (\<lambda>v. Finish (if v = 1 then step else -1)))"

definition latest_recovery_steps :: "manager \<Rightarrow> (int \<times> int) collective" where
  "latest_recovery_steps mg =
     and_then (consistent_memory_step mg) (\<lambda>memory_step.
     and_then (rank_consistent_step mg None) (\<lambda>disk_step. Finish (memory_step, disk_step)))"

datatype load_error =
    LoadFailed manager_error
  | BadStep int
  | InvalidExactRequest
  | RequestsDisagree

definition verified_disk_step :: "runtime \<Rightarrow> manager \<Rightarrow> (load_error + int) collective" where
  "verified_disk_step rt mg =
     (case read_trust rt mg of
        Inl e \<Rightarrow> Finish (Inl (LoadFailed e))
      | Inr status \<Rightarrow>
          let step = cs_verified_step status
          in MinStep (if 0 < step \<and> \<not> has_rank step (mg_rank mg) (mg_disk mg) then -1 else step) (\<lambda>v. Finish (Inr v)))"

definition recovery_steps :: "runtime \<Rightarrow> recovery_mode option \<Rightarrow> manager \<Rightarrow> (load_error + int \<times> int) collective" where
  "recovery_steps rt mode mg =
     (case resolved_recovery_mode rt mode mg of
        Inl e \<Rightarrow> Finish (Inl (LoadFailed e))
      | Inr RecoveryVerified \<Rightarrow> and_then (verified_disk_step rt mg) (\<lambda>r. Finish (rbind r (\<lambda>step. Inr (-1, step))))
      | Inr LatestGemini \<Rightarrow> and_then (latest_recovery_steps mg) (\<lambda>steps. Finish (Inr steps)))"

section \<open>Loading shards\<close>

type_synonym loaded = "metadata \<times> tensor list"

definition own_shard :: "runtime \<Rightarrow> int \<Rightarrow> manager \<Rightarrow> disk_error + loaded" where
  "own_shard rt step mg = load_shard (rt_crc rt) step (dk_rank (mg_disk mg)) (mg_disk mg)"

definition memory_shard :: "manager \<Rightarrow> int \<Rightarrow> loaded option" where
  "memory_shard mg step =
     (case (mg_metadata mg, memory_slot_by_step mg step) of
        (Some md, Some slot) \<Rightarrow> Some (slot_metadata md slot, sl_tensors slot)
      | _ \<Rightarrow> None)"

definition attempt :: "'e + 'a \<Rightarrow> 'a option" where
  "attempt r = (case r of Inl _ \<Rightarrow> None | Inr x \<Rightarrow> Some x)"

text \<open>Every rank votes whether it has its shard, and keeps it only when all do.\<close>

definition vote_on :: "'a option \<Rightarrow> 'a option collective" where
  "vote_on x = MinStep (if x \<noteq> None then 1 else 0) (\<lambda>v. Finish (if v = 1 then x else None))"

definition validated_disk_shard :: "runtime \<Rightarrow> int \<Rightarrow> manager \<Rightarrow> loaded option collective" where
  "validated_disk_shard rt step mg = vote_on (attempt (own_shard rt step mg))"

text \<open>
  \<open>_load_latest_collectively_validated_disk_shard\<close>, with the loop of \<open>_consistent_step\<close> inside its own: the point where the
  rank is in them.
\<close>

datatype load_pc = is_Validate: Validate (pc_candidate: int) | is_Scan: Scan (pc_candidate: int) | is_Descend: Descend (pc_candidate: int)

primcorec load_loop :: "runtime \<Rightarrow> bool \<Rightarrow> manager \<Rightarrow> load_pc \<Rightarrow> (loaded \<times> int) option collective" where
  "load_loop rt allow_older mg pc =
     (case pc of
        Validate candidate \<Rightarrow>
          if candidate \<le> 0 then Finish None
          else MinStep (if attempt (own_shard rt candidate mg) \<noteq> None then 1 else 0) (\<lambda>v.
            if v = 1 then Finish (map_option (\<lambda>shard. (shard, candidate)) (attempt (own_shard rt candidate mg)))
            else if \<not> allow_older then Finish None
            else load_loop rt allow_older mg (Scan candidate))
      | Scan candidate \<Rightarrow>
          MinStep (find_latest_on_disk (Some candidate) (mg_disk mg)) (\<lambda>v. load_loop rt allow_older mg (Descend v))
      | Descend candidate \<Rightarrow>
          if candidate \<le> 0 then Finish None
          else MinStep (step_vote mg candidate) (\<lambda>agreed.
            load_loop rt allow_older mg (if agreed = candidate then Validate candidate else Descend agreed)))"

definition latest_validated_shard :: "runtime \<Rightarrow> bool \<Rightarrow> int \<Rightarrow> manager \<Rightarrow> (loaded \<times> int) option collective" where
  "latest_validated_shard rt allow_older step mg = load_loop rt allow_older mg (Validate step)"

definition find_from :: "runtime \<Rightarrow> recovery_mode \<Rightarrow> manager \<Rightarrow> load_error + int \<times> int \<Rightarrow> (load_error + int) collective" where
  "find_from rt resolved mg steps =
     (case steps of
        Inl e \<Rightarrow> Finish (Inl e)
      | Inr (memory_step, disk_step) \<Rightarrow>
          and_then (if memory_step < disk_step
                    then and_then (latest_validated_shard rt (resolved = LatestGemini) disk_step mg)
                           (\<lambda>loaded. Finish (case loaded of Some (_, step) \<Rightarrow> step | None \<Rightarrow> -1))
                    else Finish disk_step) (\<lambda>disk_step.
          let step = max memory_step disk_step in Finish (Inr (if 0 < step then step else -1))))"

definition find_latest :: "runtime \<Rightarrow> recovery_mode option \<Rightarrow> manager \<Rightarrow> (load_error + int) collective" where
  "find_latest rt mode mg =
     (case resolved_recovery_mode rt mode mg of
        Inl e \<Rightarrow> Finish (Inl (LoadFailed e))
      | Inr resolved \<Rightarrow> and_then (recovery_steps rt (Some resolved) mg) (find_from rt resolved mg))"

type_synonym load_result = "(load_error + (loaded \<times> int) option) \<times> manager"

definition load_from :: "runtime \<Rightarrow> recovery_mode \<Rightarrow> manager \<Rightarrow> load_error + int \<times> int \<Rightarrow> load_result collective" where
  "load_from rt resolved mg steps =
     (case steps of
        Inl e \<Rightarrow> Finish (Inl e, mg)
      | Inr (memory_step, disk_step) \<Rightarrow>
          if memory_step \<le> 0 \<and> disk_step \<le> 0 then Finish (Inr None, mg)
          else case (if disk_step \<le> memory_step \<and> 0 < memory_step then memory_shard mg memory_step else None) of
            Some shard \<Rightarrow> Finish (Inr (Some (shard, memory_step)), mg)
          | None \<Rightarrow>
              if disk_step \<le> 0 then Finish (Inr None, mg)
              else and_then (latest_validated_shard rt (resolved = LatestGemini) disk_step mg) (\<lambda>loaded.
                case loaded of
                  None \<Rightarrow> Finish (Inr None, mg)
                | Some (shard, step) \<Rightarrow> Finish (Inr (Some (shard, step)), mg\<lparr>mg_metadata := Some (fst shard)\<rparr>)))"

definition load_latest :: "runtime \<Rightarrow> recovery_mode option \<Rightarrow> manager \<Rightarrow> load_result collective" where
  "load_latest rt mode mg =
     (case activate_recovery_mode rt mode mg of
        (Inl e, mg) \<Rightarrow> Finish (Inl (LoadFailed e), mg)
      | (Inr resolved, mg) \<Rightarrow> and_then (recovery_steps rt (Some resolved) mg) (load_from rt resolved mg))"

section \<open>Loading an exact step\<close>

definition activate_collectively :: "runtime \<Rightarrow> recovery_mode \<Rightarrow> manager \<Rightarrow> (recovery_mode option \<times> manager) collective" where
  "activate_collectively rt mode mg =
     (case activate_recovery_mode rt (Some mode) mg of (resolved, mg) \<Rightarrow>
        and_then (vote_on (attempt resolved)) (\<lambda>r. Finish (r, mg)))"

definition exact_request :: "runtime \<Rightarrow> int \<Rightarrow> recovery_mode option \<Rightarrow> manager \<Rightarrow> load_error + recovery_mode" where
  "exact_request rt step mode mg =
     rbind (ensure (1 \<le> step) (BadStep step)) (\<lambda>_. rcatch LoadFailed (resolved_recovery_mode rt mode mg))"

definition exact_offer :: "int \<Rightarrow> load_error + recovery_mode \<Rightarrow> int list" where
  "exact_offer step request = (case request of Inl _ \<Rightarrow> [0, -1, -1] | Inr m \<Rightarrow> [1, step, if m = LatestGemini then 0 else 1])"

text \<open>\<open>alone\<close> says that the process group has one rank.\<close>

definition exact_reply ::
  "runtime \<Rightarrow> bool \<Rightarrow> load_error + recovery_mode \<Rightarrow> manager \<Rightarrow> int list \<times> int list \<Rightarrow>
     ((load_error + (int \<times> recovery_mode) option) \<times> manager) collective" where
  "exact_reply rt alone request mg bounds =
     (case bounds of (lower, upper) \<Rightarrow>
        if lower ! 0 \<noteq> 1 \<or> upper ! 0 \<noteq> 1 then
          Finish (Inl (case request of Inl e \<Rightarrow> if alone then e else InvalidExactRequest | Inr _ \<Rightarrow> InvalidExactRequest), mg)
        else if tl lower \<noteq> tl upper then Finish (Inl RequestsDisagree, mg)
        else and_then (activate_collectively rt (if lower ! 2 = 0 then LatestGemini else RecoveryVerified) mg) (\<lambda>(activated, mg).
          Finish (Inr (map_option (\<lambda>m. (lower ! 1, m)) activated), mg)))"

definition agree_exact_request ::
  "runtime \<Rightarrow> bool \<Rightarrow> int \<Rightarrow> recovery_mode option \<Rightarrow> manager \<Rightarrow> ((load_error + (int \<times> recovery_mode) option) \<times> manager) collective" where
  "agree_exact_request rt alone step mode mg =
     (let request = exact_request rt step mode mg in Bounds (exact_offer step request) (exact_reply rt alone request mg))"

definition load_exact_shard :: "runtime \<Rightarrow> int \<Rightarrow> recovery_mode \<Rightarrow> manager \<Rightarrow> (load_error + loaded option) collective" where
  "load_exact_shard rt step mode mg =
     (if step < 1 then Finish (Inl (BadStep step))
      else case mode of
        RecoveryVerified \<Rightarrow>
          let eligible = (case read_trust rt mg of
                Inl _ \<Rightarrow> False
              | Inr status \<Rightarrow> is_recovery_verified status step \<and> has_rank step (mg_rank mg) (mg_disk mg))
          in MinStep (if eligible then 1 else 0) (\<lambda>v.
             if v \<noteq> 1 then Finish (Inr None)
             else and_then (validated_disk_shard rt step mg) (\<lambda>loaded. Finish (Inr loaded)))
      | LatestGemini \<Rightarrow>
          and_then (vote_on (case memory_shard mg step of Some shard \<Rightarrow> Some shard | None \<Rightarrow> attempt (own_shard rt step mg)))
            (\<lambda>loaded. Finish (Inr loaded)))"

definition load_exact :: "runtime \<Rightarrow> bool \<Rightarrow> int \<Rightarrow> recovery_mode option \<Rightarrow> manager \<Rightarrow> load_result collective" where
  "load_exact rt alone step mode mg =
     and_then (agree_exact_request rt alone step mode mg) (\<lambda>(request, mg).
     case request of
       Inl e \<Rightarrow> Finish (Inl e, mg)
     | Inr None \<Rightarrow> Finish (Inr None, mg)
     | Inr (Some (agreed_step, resolved)) \<Rightarrow>
         and_then (load_exact_shard rt agreed_step resolved mg) (\<lambda>loaded.
         case loaded of
           Inl e \<Rightarrow> Finish (Inl e, mg)
         | Inr None \<Rightarrow> Finish (Inr None, mg)
         | Inr (Some shard) \<Rightarrow> Finish (Inr (Some (shard, agreed_step)), mg\<lparr>mg_metadata := Some (fst shard)\<rparr>)))"

definition load_checkpoint :: "runtime \<Rightarrow> bool \<Rightarrow> int option \<Rightarrow> recovery_mode option \<Rightarrow> manager \<Rightarrow> load_result collective" where
  "load_checkpoint rt alone step mode mg =
     (case step of Some s \<Rightarrow> load_exact rt alone s mode mg | None \<Rightarrow> load_latest rt mode mg)"

section \<open>Votes and bounds of a group\<close>

lemma vote_all:
  "xs \<noteq> [] \<Longrightarrow> collective_min_step (map (\<lambda>x. if P x then 1 else 0) xs) = (if \<forall>x \<in> set xs. P x then 1 else 0)"
proof -
  assume xs: "xs \<noteq> []"
  let ?c = "map (\<lambda>x. if P x then 1 else 0 :: int) xs"
  have m: "collective_min_step ?c = Min (set ?c)" using xs by (intro collective_min_step_Min) simp
  show ?thesis
  proof (cases "\<forall>x \<in> set xs. P x")
    case True
    then have "set ?c = {1}" using xs by (cases xs) auto
    then show ?thesis using True m by simp
  next
    case False
    then have "Min (set ?c) = 0" by (intro Min_eqI) (auto split: if_splits)
    then show ?thesis using False m by simp
  qed
qed

lemma foldl_max: "foldl max (x :: int) xs = Max (insert x (set xs))"
proof (induction xs arbitrary: x)
  case (Cons a xs)
  then show ?case by (cases "xs = []") (auto simp: max.assoc)
qed simp

lemma bounds_three:
  assumes "xs \<noteq> []" "\<And>x. x \<in> set xs \<Longrightarrow> length (offer x) = 3"
  obtains lower upper where "collective_int_bounds (map offer xs) = (lower, upper)" "length lower = 3" "length upper = 3"
    "\<And>i x. i < 3 \<Longrightarrow> x \<in> set xs \<Longrightarrow> lower ! i \<le> offer x ! i \<and> offer x ! i \<le> upper ! i"
    "\<And>i. i < 3 \<Longrightarrow> \<exists>x \<in> set xs. lower ! i = offer x ! i" "\<And>i. i < 3 \<Longrightarrow> \<exists>x \<in> set xs. upper ! i = offer x ! i"
proof -
  let ?col = "\<lambda>i. map (\<lambda>x. offer x ! i) xs"
  define lower where "lower = map (\<lambda>i. Min (set (?col i))) [0..<3]"
  define upper where "upper = map (\<lambda>i. Max (set (?col i))) [0..<3]"
  have len: "length (hd (map offer xs)) = 3" using assms by (cases xs) auto
  have mx: "foldl max (hd (?col i)) (tl (?col i)) = Max (set (?col i))" for i
    using assms(1) by (cases xs) (simp_all add: foldl_max)
  have mn: "collective_min_step (?col i) = Min (set (?col i))" for i using assms(1) by (simp add: collective_min_step_Min)
  have eq: "collective_int_bounds (map offer xs) = (lower, upper)"
    unfolding collective_int_bounds_def Let_def len lower_def upper_def by (simp add: mn mx comp_def)
  have ex: "\<exists>x \<in> set xs. lower ! i = offer x ! i" "\<exists>x \<in> set xs. upper ! i = offer x ! i" if "i < 3" for i
    using that assms(1) Min_in [of "set (?col i)"] Max_in [of "set (?col i)"] by (auto simp: lower_def upper_def image_iff)
  have le: "lower ! i \<le> offer x ! i \<and> offer x ! i \<le> upper ! i" if "i < 3" "x \<in> set xs" for i x
    using that by (simp add: lower_def upper_def)
  have "length lower = 3" "length upper = 3" by (simp_all add: lower_def upper_def)
  from that [OF eq this le ex] show thesis .
qed

lemma run_vote:
  assumes "xs \<noteq> []"
  shows "run_ranks (map (\<lambda>x. vote_on (v x)) xs) =
    Some (Results (map (\<lambda>x. if \<forall>y \<in> set xs. v y \<noteq> None then v x else None) xs))"
proof -
  have "run_ranks (map (\<lambda>x. vote_on (v x)) xs) =
      run_ranks (map (\<lambda>x. Finish (if collective_min_step (map (\<lambda>x. if v x \<noteq> None then 1 else 0) xs) = 1 then v x else None)) xs)"
    by (rule run_MinStep [OF assms]) (simp add: vote_on_def)
  also have "\<dots> = Some (Results (map (\<lambda>x. if \<forall>y \<in> set xs. v y \<noteq> None then v x else None) xs))"
    unfolding vote_all [OF assms] by (rule run_Finish) fastforce
  finally show ?thesis .
qed

section \<open>The descent of a group is the descent on its disks\<close>

definition placed :: "manager \<Rightarrow> bool" where
  "placed mg \<longleftrightarrow> mg_rank mg = dk_rank (mg_disk mg)"

lemma step_votes:
  assumes "\<forall>x \<in> set xs. placed (g x)"
  shows "collective_min_step (map (\<lambda>x. step_vote (g x) c) xs) = agreed_below (map (\<lambda>x. mg_disk (g x)) xs) c"
proof -
  have "map (\<lambda>x. step_vote (g x) c) xs = map (\<lambda>d. if has_rank c (dk_rank d) d then c else find_latest_on_disk (Some c) d) (map (\<lambda>x. mg_disk (g x)) xs)"
    using assms by (simp add: step_vote_def placed_def)
  then show ?thesis by (simp only: agreed_below_def)
qed

lemma run_descend:
  assumes "xs \<noteq> []" "\<forall>x \<in> set xs. placed (g x)"
  shows "run_ranks (map (\<lambda>x. descend (g x) c) xs) =
    Some (Results (map (\<lambda>_. descend_to_common (map (\<lambda>x. mg_disk (g x)) xs) c) xs))"
proof (induction "map (\<lambda>x. mg_disk (g x)) xs" c rule: descend_to_common.induct)
  case (1 c)
  let ?disks = "map (\<lambda>x. mg_disk (g x)) xs"
  show ?case
  proof (cases "c \<le> 0")
    case True
    then show ?thesis by (intro run_Finish) (simp add: descend.code descend_to_common.simps)
  next
    case False
    then have "run_ranks (map (\<lambda>x. descend (g x) c) xs) =
        run_ranks (map (\<lambda>x. if agreed_below ?disks c = c then Finish c else descend (g x) (agreed_below ?disks c)) xs)"
      unfolding step_votes [OF assms(2), symmetric]
      by (intro run_MinStep [OF assms(1)]) (subst descend.code, simp)
    also have "\<dots> = Some (Results (map (\<lambda>_. descend_to_common ?disks c) xs))"
    proof (cases "agreed_below ?disks c = c")
      case True
      then show ?thesis using False by (intro run_Finish) (subst descend_to_common.simps, simp)
    next
      case differ: False
      have "descend_to_common ?disks c = descend_to_common ?disks (agreed_below ?disks c)"
        using False differ by (subst descend_to_common.simps) simp
      then show ?thesis using 1 [OF False refl differ] differ by simp
    qed
    finally show ?thesis .
  qed
qed

lemma run_consistent_step:
  assumes "xs \<noteq> []" "\<forall>x \<in> set xs. placed (g x)"
  shows "run_ranks (map (\<lambda>x. rank_consistent_step (g x) b) xs) =
    Some (Results (map (\<lambda>_. consistent_step (map (\<lambda>x. mg_disk (g x)) xs) b) xs))"
proof -
  have "run_ranks (map (\<lambda>x. rank_consistent_step (g x) b) xs) =
      run_ranks (map (\<lambda>x. descend (g x) (collective_min_step (map (\<lambda>x. find_latest_on_disk b (mg_disk (g x))) xs))) xs)"
    by (rule run_MinStep [OF assms(1)]) (simp add: rank_consistent_step_def)
  then show ?thesis unfolding run_descend [OF assms] by (simp add: consistent_step_def comp_def)
qed

definition common_memory_step :: "manager list \<Rightarrow> int" where
  "common_memory_step mgs =
     (let s = Min (latest_memory_step ` set mgs)
      in if 0 < s \<and> (\<forall>mg \<in> set mgs. memory_slot_by_step mg s \<noteq> None) then s else -1)"

lemma run_memory_step:
  assumes "xs \<noteq> []"
  shows "run_ranks (map (\<lambda>x. consistent_memory_step (g x)) xs) = Some (Results (map (\<lambda>_. common_memory_step (map g xs)) xs))"
proof -
  let ?s = "collective_min_step (map (\<lambda>x. latest_memory_step (g x)) xs)"
  have s: "Min (latest_memory_step ` set (map g xs)) = ?s" using assms by (subst collective_min_step_Min) (simp_all add: image_image)
  have "run_ranks (map (\<lambda>x. consistent_memory_step (g x)) xs) =
      run_ranks (map (\<lambda>x. if ?s \<le> 0 then Finish (-1)
        else MinStep (if memory_slot_by_step (g x) ?s \<noteq> None then 1 else 0) (\<lambda>v. Finish (if v = 1 then ?s else -1))) xs)"
    by (rule run_MinStep [OF assms]) (simp add: consistent_memory_step_def)
  also have "\<dots> = Some (Results (map (\<lambda>_. common_memory_step (map g xs)) xs))"
  proof (cases "?s \<le> 0")
    case True
    then show ?thesis unfolding common_memory_step_def s Let_def by (intro run_Finish) simp
  next
    case False
    then have "run_ranks (map (\<lambda>x. if ?s \<le> 0 then Finish (-1)
          else MinStep (if memory_slot_by_step (g x) ?s \<noteq> None then 1 else 0) (\<lambda>v. Finish (if v = 1 then ?s else -1))) xs) =
        run_ranks (map (\<lambda>x. Finish (if collective_min_step (map (\<lambda>x. if memory_slot_by_step (g x) ?s \<noteq> None then 1 else 0) xs) = 1 then ?s else -1)) xs)"
      by (intro run_MinStep [OF assms]) simp
    then show ?thesis
      unfolding common_memory_step_def s Let_def vote_all [OF assms] using False by (auto intro!: run_Finish)
  qed
  finally show ?thesis .
qed

section \<open>The newest valid generation\<close>

definition valid_everywhere :: "runtime \<Rightarrow> manager list \<Rightarrow> int \<Rightarrow> bool" where
  "valid_everywhere rt mgs s \<longleftrightarrow> 0 < s \<and> (\<forall>mg \<in> set mgs. attempt (own_shard rt s mg) \<noteq> None)"

definition newest_valid :: "runtime \<Rightarrow> manager list \<Rightarrow> int" where
  "newest_valid rt mgs = Max (insert (-1) {s. valid_everywhere rt mgs s})"

definition newest_valid_to :: "runtime \<Rightarrow> manager list \<Rightarrow> int \<Rightarrow> int" where
  "newest_valid_to rt mgs c = Max (insert (-1) {s. valid_everywhere rt mgs s \<and> s \<le> c})"

lemma valid_on_every_rank: "valid_everywhere rt mgs s \<Longrightarrow> on_every_rank (map mg_disk mgs) s"
  by (force simp: valid_everywhere_def on_every_rank_def own_shard_def attempt_def load_shard_def has_rank_def
      split: sum.splits option.splits)

lemma finite_valid: "mgs \<noteq> [] \<Longrightarrow> finite {s. valid_everywhere rt mgs s \<and> P s}"
  using finite_common [of "map mg_disk mgs"] valid_on_every_rank by (auto intro: finite_subset [rotated])

lemma consistent_step_Max:
  assumes "disks \<noteq> []"
  shows "consistent_step disks None = Max (insert (-1) {s. on_every_rank disks s})"
    "consistent_step disks (Some c) = Max (insert (-1) {s. on_every_rank disks s \<and> s < c})"
  using consistent_step_newest_common [OF assms, of None] consistent_step_newest_common [OF assms, of "Some c"]
  by (simp_all add: on_every_rank_def conj_ac)

lemma common_below:
  assumes "disks \<noteq> []"
  shows "consistent_step disks (Some c) \<in> insert (-1) {s. on_every_rank disks s \<and> s < c}"
proof -
  have "finite {s. on_every_rank disks s \<and> s < c}" using finite_common [OF assms] by (rule finite_subset [rotated]) auto
  then show ?thesis unfolding consistent_step_Max(2) [OF assms] by (intro Max_in) simp_all
qed

lemma newest_valid_to_common:
  assumes "mgs \<noteq> []"
  shows "newest_valid_to rt mgs (consistent_step (map mg_disk mgs) None) = newest_valid rt mgs"
proof -
  have "s \<le> consistent_step (map mg_disk mgs) None" if "valid_everywhere rt mgs s" for s
    using valid_on_every_rank [OF that] finite_common [of "map mg_disk mgs"] assms
    by (subst consistent_step_Max(1)) auto
  then have "{s. valid_everywhere rt mgs s \<and> s \<le> consistent_step (map mg_disk mgs) None} = {s. valid_everywhere rt mgs s}" by blast
  then show ?thesis by (simp add: newest_valid_to_def newest_valid_def)
qed

lemma newest_valid_here: "mgs \<noteq> [] \<Longrightarrow> valid_everywhere rt mgs c \<Longrightarrow> newest_valid_to rt mgs c = c"
  unfolding newest_valid_to_def using finite_valid [of mgs rt "\<lambda>s. s \<le> c"] valid_everywhere_def [of rt mgs c]
  by (intro Max_eqI) auto

lemma newest_valid_next:
  assumes "mgs \<noteq> []" "\<not> valid_everywhere rt mgs c"
  shows "newest_valid_to rt mgs (consistent_step (map mg_disk mgs) (Some c)) = newest_valid_to rt mgs c"
proof -
  let ?c = "consistent_step (map mg_disk mgs) (Some c)"
  have m: "?c = Max (insert (-1) {s. on_every_rank (map mg_disk mgs) s \<and> s < c})"
    using assms(1) by (intro consistent_step_Max(2)) simp
  have fin: "finite {s. on_every_rank (map mg_disk mgs) s \<and> s < c}"
    using finite_common [of "map mg_disk mgs"] assms(1) by (auto intro: finite_subset [rotated])
  have "?c \<in> insert (-1) {s. on_every_rank (map mg_disk mgs) s \<and> s < c}" by (rule common_below) (simp add: assms(1))
  moreover have "s \<le> ?c" if "valid_everywhere rt mgs s" "s < c" for s
    unfolding m using fin that valid_on_every_rank by (intro Max_ge) auto
  moreover have "0 < s" if "valid_everywhere rt mgs s" for s using that by (simp add: valid_everywhere_def)
  ultimately have "{s. valid_everywhere rt mgs s \<and> s \<le> ?c} = {s. valid_everywhere rt mgs s \<and> s \<le> c}"
    using assms(2) by (force simp: order_le_less)
  then show ?thesis by (simp add: newest_valid_to_def)
qed

lemma run_loop_descend:
  assumes "xs \<noteq> []" "\<forall>x \<in> set xs. placed (g x)"
  shows "run_ranks (map (\<lambda>x. load_loop rt older (g x) (Descend c)) xs) =
    run_ranks (map (\<lambda>x. load_loop rt older (g x) (Validate (descend_to_common (map (\<lambda>x. mg_disk (g x)) xs) c))) xs)"
proof (induction "map (\<lambda>x. mg_disk (g x)) xs" c rule: descend_to_common.induct)
  case (1 c)
  let ?disks = "map (\<lambda>x. mg_disk (g x)) xs"
  show ?case
  proof (cases "c \<le> 0")
    case True
    have "run_ranks (map (\<lambda>x. load_loop rt older (g x) (Descend c)) xs) = Some (Results (map (\<lambda>_. None) xs))"
      using True by (intro run_Finish) (simp add: load_loop.code)
    also have "\<dots> = run_ranks (map (\<lambda>x. load_loop rt older (g x) (Validate (descend_to_common ?disks c))) xs)"
      using True by (intro run_Finish [symmetric]) (simp add: load_loop.code descend_to_common.simps)
    finally show ?thesis .
  next
    case False
    then have "run_ranks (map (\<lambda>x. load_loop rt older (g x) (Descend c)) xs) =
        run_ranks (map (\<lambda>x. load_loop rt older (g x)
          (if agreed_below ?disks c = c then Validate c else Descend (agreed_below ?disks c))) xs)"
      unfolding step_votes [OF assms(2), symmetric]
      by (intro run_MinStep [OF assms(1)]) (subst load_loop.code, simp)
    also have "\<dots> = run_ranks (map (\<lambda>x. load_loop rt older (g x) (Validate (descend_to_common ?disks c))) xs)"
    proof (cases "agreed_below ?disks c = c")
      case True
      then have "descend_to_common ?disks c = c" using False by (subst descend_to_common.simps) simp
      then show ?thesis using True by simp
    next
      case differ: False
      have "descend_to_common ?disks c = descend_to_common ?disks (agreed_below ?disks c)"
        using False differ by (subst descend_to_common.simps) simp
      then show ?thesis using 1 [OF False refl differ] differ by simp
    qed
    finally show ?thesis .
  qed
qed

definition shard_at :: "runtime \<Rightarrow> int \<Rightarrow> manager \<Rightarrow> (loaded \<times> int) option" where
  "shard_at rt s mg = (if 0 < s then map_option (\<lambda>shard. (shard, s)) (attempt (own_shard rt s mg)) else None)"

lemma run_validate:
  assumes "xs \<noteq> []" "0 < c"
  shows "run_ranks (map (\<lambda>x. load_loop rt older (g x) (Validate c)) xs) =
    (if valid_everywhere rt (map g xs) c then Some (Results (map (\<lambda>x. shard_at rt c (g x)) xs))
     else if \<not> older then Some (Results (map (\<lambda>_. None) xs))
     else run_ranks (map (\<lambda>x. load_loop rt older (g x) (Scan c)) xs))"
proof -
  let ?P = "\<lambda>x. attempt (own_shard rt c (g x)) \<noteq> None"
  have v: "(\<forall>x \<in> set xs. ?P x) \<longleftrightarrow> valid_everywhere rt (map g xs) c" using assms(2) by (simp add: valid_everywhere_def)
  have "run_ranks (map (\<lambda>x. load_loop rt older (g x) (Validate c)) xs) =
      run_ranks (map (\<lambda>x. if collective_min_step (map (\<lambda>x. if ?P x then 1 else 0) xs) = 1
            then Finish (map_option (\<lambda>shard. (shard, c)) (attempt (own_shard rt c (g x))))
            else if \<not> older then Finish None else load_loop rt older (g x) (Scan c)) xs)"
    using assms(2) by (intro run_MinStep [OF assms(1)]) (subst load_loop.code, simp)
  then show ?thesis unfolding vote_all [OF assms(1)] v
    using assms(2) by (auto simp: shard_at_def intro!: run_Finish)
qed

lemma run_latest_valid:
  assumes "xs \<noteq> []" "\<forall>x \<in> set xs. placed (g x)"
  shows "run_ranks (map (\<lambda>x. latest_validated_shard rt True c (g x)) xs) =
    Some (Results (map (\<lambda>x. shard_at rt (newest_valid_to rt (map g xs) c) (g x)) xs))"
  unfolding latest_validated_shard_def
proof (induction "nat c" arbitrary: c rule: less_induct)
  case less
  have ne: "map g xs \<noteq> []" using assms(1) by simp
  show ?case
  proof (cases "c \<le> 0")
    case True
    then have none: "{s. valid_everywhere rt (map g xs) s \<and> s \<le> c} = {}" by (auto simp: valid_everywhere_def)
    have "newest_valid_to rt (map g xs) c = -1" unfolding newest_valid_to_def none by simp
    then show ?thesis using True by (intro run_Finish) (simp add: load_loop.code shard_at_def)
  next
    case False
    then have c: "0 < c" by simp
    show ?thesis
    proof (cases "valid_everywhere rt (map g xs) c")
      case True
      then show ?thesis unfolding run_validate [OF assms(1) c] by (simp add: newest_valid_here [OF ne True])
    next
      case invalid: False
      let ?disks = "map mg_disk (map g xs)" and ?c = "consistent_step (map mg_disk (map g xs)) (Some c)"
      have "run_ranks (map (\<lambda>x. load_loop rt True (g x) (Validate c)) xs) = run_ranks (map (\<lambda>x. load_loop rt True (g x) (Scan c)) xs)"
        unfolding run_validate [OF assms(1) c] using invalid by simp
      also have "\<dots> = run_ranks (map (\<lambda>x. load_loop rt True (g x)
          (Descend (collective_min_step (map (\<lambda>x. find_latest_on_disk (Some c) (mg_disk (g x))) xs)))) xs)"
        by (intro run_MinStep [OF assms(1)]) (subst load_loop.code, simp)
      also have "\<dots> = run_ranks (map (\<lambda>x. load_loop rt True (g x) (Validate ?c)) xs)"
        unfolding run_loop_descend [OF assms] by (simp add: consistent_step_def comp_def)
      also have "\<dots> = Some (Results (map (\<lambda>x. shard_at rt (newest_valid_to rt (map g xs) ?c) (g x)) xs))"
      proof (rule less)
        have "?c \<in> insert (-1) {s. on_every_rank ?disks s \<and> s < c}" by (rule common_below) (use ne in simp)
        then show "nat ?c < nat c" using c by (auto simp: on_every_rank_def)
      qed
      finally show ?thesis unfolding newest_valid_next [OF ne invalid] .
    qed
  qed
qed

lemma run_verified_shard:
  assumes "xs \<noteq> []"
  shows "run_ranks (map (\<lambda>x. latest_validated_shard rt False c (g x)) xs) =
    Some (Results (map (\<lambda>x. if valid_everywhere rt (map g xs) c then shard_at rt c (g x) else None) xs))"
proof (cases "0 < c")
  case True
  then show ?thesis unfolding latest_validated_shard_def run_validate [OF assms True] by simp
next
  case False
  then show ?thesis unfolding latest_validated_shard_def
    by (intro run_Finish) (simp add: load_loop.code shard_at_def)
qed

section \<open>Loading the latest generation\<close>

lemma activate_keeps:
  assumes "activate_recovery_mode rt mode mg = (r, mg1)"
  shows "mg_disk mg1 = mg_disk mg" "mg_rank mg1 = mg_rank mg" "mg_pool mg1 = mg_pool mg" "mg_metadata mg1 = mg_metadata mg"
    "r = Inr m \<Longrightarrow> resolved_recovery_mode rt mode mg = Inr m"
  using assms
  by (auto simp: activate_recovery_mode_def set_recovery_mode_def update_trust_def write_trust_def rbind_Inr_iff
      split: sum.splits if_splits prod.splits)

definition activated :: "runtime \<Rightarrow> recovery_mode option \<Rightarrow> manager \<Rightarrow> manager" where
  "activated rt mode mg = snd (activate_recovery_mode rt mode mg)"

lemma activated_keeps [simp]:
  "own_shard rt' s (activated rt mode mg) = own_shard rt' s mg" "memory_shard (activated rt mode mg) s = memory_shard mg s"
  "memory_slot_by_step (activated rt mode mg) s = memory_slot_by_step mg s"
  "latest_memory_step (activated rt mode mg) = latest_memory_step mg" "placed (activated rt mode mg) = placed mg"
  "mg_disk (activated rt mode mg) = mg_disk mg" "mg_rank (activated rt mode mg) = mg_rank mg"
proof -
  have k: "mg_disk (activated rt mode mg) = mg_disk mg" "mg_rank (activated rt mode mg) = mg_rank mg"
    "mg_pool (activated rt mode mg) = mg_pool mg" "mg_metadata (activated rt mode mg) = mg_metadata mg"
    using activate_keeps [of rt mode mg "fst (activate_recovery_mode rt mode mg)"] by (simp_all add: activated_def)
  note defs = own_shard_def memory_shard_def slot_metadata_def memory_slot_by_step_def latest_memory_step_def placed_def
  show "own_shard rt' s (activated rt mode mg) = own_shard rt' s mg" "memory_shard (activated rt mode mg) s = memory_shard mg s"
    "memory_slot_by_step (activated rt mode mg) s = memory_slot_by_step mg s"
    "latest_memory_step (activated rt mode mg) = latest_memory_step mg" "placed (activated rt mode mg) = placed mg"
    "mg_disk (activated rt mode mg) = mg_disk mg" "mg_rank (activated rt mode mg) = mg_rank mg"
    unfolding defs k by (rule refl)+
qed

lemma activated_lists [simp]:
  "common_memory_step (map (activated rt mode) mgs) = common_memory_step mgs"
  "valid_everywhere rt' (map (activated rt mode) mgs) = valid_everywhere rt' mgs"
  "newest_valid_to rt' (map (activated rt mode) mgs) = newest_valid_to rt' mgs"
  by (auto simp: common_memory_step_def valid_everywhere_def newest_valid_to_def image_image fun_eq_iff cong: image_cong)

lemma memory_shard_iff: "memory_slot_by_step mg s \<noteq> None \<longleftrightarrow> (\<exists>shard. memory_shard mg s = Some shard)"
  by (auto simp: memory_shard_def memory_slot_by_step_def split: option.splits)

lemma run_recovery_steps:
  assumes "xs \<noteq> []" "\<forall>x \<in> set xs. placed (g x)"
  shows "run_ranks (map (\<lambda>x. recovery_steps rt (Some LatestGemini) (g x)) xs) =
    Some (Results (map (\<lambda>_. Inr (common_memory_step (map g xs), consistent_step (map (\<lambda>x. mg_disk (g x)) xs) None)) xs))"
proof -
  let ?m = "common_memory_step (map g xs)" and ?d = "consistent_step (map (\<lambda>x. mg_disk (g x)) xs) None"
  have "run_ranks (map (\<lambda>x. latest_recovery_steps (g x)) xs) =
      run_ranks (map (\<lambda>x. and_then (rank_consistent_step (g x) None) (\<lambda>disk_step. Finish (?m, disk_step))) xs)"
    unfolding latest_recovery_steps_def by (rule run_and_then [OF run_memory_step [OF assms(1)]])
  also have "\<dots> = run_ranks (map (\<lambda>x. Finish (?m, ?d)) xs)"
    by (rule run_and_then [OF run_consistent_step [OF assms]])
  also have "\<dots> = Some (Results (map (\<lambda>_. (?m, ?d)) xs))" by (rule run_Finish) simp
  finally have "run_ranks (map (\<lambda>x. and_then (latest_recovery_steps (g x)) (\<lambda>steps. Finish (Inr steps))) xs) =
      run_ranks (map (\<lambda>x. Finish (Inr (?m, ?d))) xs)"
    by (rule run_and_then)
  also have "\<dots> = Some (Results (map (\<lambda>_. Inr (?m, ?d)) xs))" by (rule run_Finish) simp
  finally show ?thesis by (simp add: recovery_steps_def resolved_recovery_mode_def)
qed

lemma results_of:
  assumes "run = Some (Results (map f xs))" "\<And>x. x \<in> set xs \<Longrightarrow> R x (f x)"
  shows "\<exists>rs. run = Some (Results rs) \<and> list_all2 R xs rs"
  using assms by (auto simp: list_all2_map2 intro: list.rel_refl_strong)

definition load_source :: "runtime \<Rightarrow> manager list \<Rightarrow> (int \<times> bool) option" where
  "load_source rt mgs =
     (let m = common_memory_step mgs; d = consistent_step (map mg_disk mgs) None; v = newest_valid rt mgs
      in if 0 < m \<and> d \<le> m then Some (m, True) else if 0 < v then Some (v, False) else None)"

text \<open>C14: When the ranks agree on latest recovery, a collective load never blocks and ends on every rank with the same step:
  the common step in memory when no newer generation is on every disk, otherwise the newest generation whose shard every
  rank can read and validate, and nothing when there is none. Each rank gets its own shard of that step.\<close>

theorem latest_load_newest:
  assumes "mgs \<noteq> []" "\<forall>mg \<in> set mgs. mg_rank mg = dk_rank (mg_disk mg)"
    and "\<forall>mg \<in> set mgs. fst (activate_recovery_mode rt mode mg) = Inr LatestGemini"
  shows "\<exists>rs. run_ranks (map (load_latest rt mode) mgs) = Some (Results rs) \<and>
    list_all2 (\<lambda>mg r. case load_source rt mgs of
        Some (s, in_memory) \<Rightarrow> \<exists>shard. fst r = Inr (Some (shard, s)) \<and>
          (if in_memory then memory_shard mg s = Some shard else own_shard rt s mg = Inr shard)
      | None \<Rightarrow> fst r = Inr None) mgs rs"
proof -
  let ?m = "common_memory_step mgs" and ?d = "consistent_step (map mg_disk mgs) None" and ?v = "newest_valid rt mgs"
  let ?g = "activated rt mode"
  have placed: "\<forall>mg \<in> set mgs. placed (?g mg)" using assms(2) by (simp add: placed_def)
  have "load_latest rt mode mg = and_then (recovery_steps rt (Some LatestGemini) (?g mg)) (load_from rt LatestGemini (?g mg))"
    if "mg \<in> set mgs" for mg
    using assms(3) that by (auto simp: load_latest_def activated_def split: prod.splits)
  then have "run_ranks (map (load_latest rt mode) mgs) =
      run_ranks (map (\<lambda>mg. and_then (recovery_steps rt (Some LatestGemini) (?g mg)) (load_from rt LatestGemini (?g mg))) mgs)"
    by (rule run_cong)
  also have "\<dots> = run_ranks (map (\<lambda>mg. load_from rt LatestGemini (?g mg) (Inr (?m, ?d))) mgs)"
    using run_and_then [OF run_recovery_steps [OF assms(1) placed, of rt], of "\<lambda>mg. load_from rt LatestGemini (?g mg)"] by simp
  finally have run: "run_ranks (map (load_latest rt mode) mgs) = run_ranks (map (\<lambda>mg. load_from rt LatestGemini (?g mg) (Inr (?m, ?d))) mgs)" .
  have v: "?v = newest_valid_to rt mgs ?d" by (rule newest_valid_to_common [OF assms(1), symmetric])
  have vd: "0 < ?v \<Longrightarrow> 0 < ?d \<and> valid_everywhere rt mgs ?v"
  proof -
    assume p: "0 < ?v"
    have "?v \<in> insert (-1) {s. valid_everywhere rt mgs s \<and> s \<le> ?d}"
      unfolding v newest_valid_to_def using finite_valid [OF assms(1)] by (intro Max_in) simp_all
    then show ?thesis using p by auto
  qed
  consider "?m \<le> 0 \<and> ?d \<le> 0" | "0 < ?m \<and> ?d \<le> ?m" | "0 < ?d \<and> \<not> (0 < ?m \<and> ?d \<le> ?m)" by linarith
  then show ?thesis
  proof cases
    case 1
    then have "load_source rt mgs = None" using vd by (auto simp: load_source_def Let_def)
    moreover have "run_ranks (map (load_latest rt mode) mgs) = Some (Results (map (\<lambda>mg. (Inr None, ?g mg)) mgs))"
      unfolding run using 1 by (intro run_Finish) (simp add: load_from_def)
    ultimately show ?thesis by (intro results_of) auto
  next
    case 2
    then have source: "load_source rt mgs = Some (?m, True)" by (simp add: load_source_def Let_def)
    have slot: "\<exists>shard. memory_shard mg ?m = Some shard" if "mg \<in> set mgs" for mg
      unfolding memory_shard_iff [symmetric] using 2 that by (auto simp: common_memory_step_def Let_def split: if_splits)
    have "run_ranks (map (load_latest rt mode) mgs) =
        Some (Results (map (\<lambda>mg. (Inr (Some (the (memory_shard mg ?m), ?m)), ?g mg)) mgs))"
      unfolding run using 2 slot by (intro run_Finish) (fastforce simp: load_from_def)
    then show ?thesis unfolding source by (rule results_of) (use slot in fastforce)
  next
    case 3
    have ov: "run_ranks (map (\<lambda>mg. latest_validated_shard rt True ?d (?g mg)) mgs) =
        Some (Results (map (\<lambda>mg. shard_at rt ?v (?g mg)) mgs))"
      unfolding v using run_latest_valid [OF assms(1) placed, of rt ?d] by simp
    have "load_from rt LatestGemini (?g mg) (Inr (?m, ?d)) = and_then (latest_validated_shard rt True ?d (?g mg)) (\<lambda>loaded.
        case loaded of None \<Rightarrow> Finish (Inr None, ?g mg)
        | Some (shard, step) \<Rightarrow> Finish (Inr (Some (shard, step)), (?g mg)\<lparr>mg_metadata := Some (fst shard)\<rparr>))" for mg
      using 3 by (auto simp: load_from_def)
    then have "run_ranks (map (load_latest rt mode) mgs) = run_ranks (map (\<lambda>mg. case shard_at rt ?v (?g mg) of None \<Rightarrow> Finish (Inr None, ?g mg)
        | Some (shard, step) \<Rightarrow> Finish (Inr (Some (shard, step)), (?g mg)\<lparr>mg_metadata := Some (fst shard)\<rparr>)) mgs)"
      unfolding run using run_and_then [OF ov] by simp
    also have "\<dots> = Some (Results (map (\<lambda>mg. case shard_at rt ?v (?g mg) of None \<Rightarrow> (Inr None, ?g mg)
        | Some (shard, step) \<Rightarrow> (Inr (Some (shard, step)), (?g mg)\<lparr>mg_metadata := Some (fst shard)\<rparr>)) mgs))"
      by (rule run_Finish) (simp split: option.splits)
    finally have r: "run_ranks (map (load_latest rt mode) mgs) = \<dots>" .
    have src: "load_source rt mgs = (if 0 < ?v then Some (?v, False) else None)" using 3 by (auto simp: load_source_def Let_def)
    show ?thesis
    proof (cases "0 < ?v")
      case True
      then have "\<exists>shard. own_shard rt ?v mg = Inr shard" if "mg \<in> set mgs" for mg
        using vd [OF True] that by (cases "own_shard rt ?v mg") (auto simp: valid_everywhere_def attempt_def)
      then show ?thesis unfolding src using True by (intro results_of [OF r]) (fastforce simp: shard_at_def attempt_def)
    next
      case False
      then show ?thesis unfolding src by (intro results_of [OF r]) (simp add: shard_at_def)
    qed
  qed
qed

section \<open>Loading an exact step\<close>

record exact_call =
  ec_manager :: manager
  ec_step :: int
  ec_mode :: "recovery_mode option"

definition request_of :: "runtime \<Rightarrow> exact_call \<Rightarrow> load_error + recovery_mode" where
  "request_of rt ec = exact_request rt (ec_step ec) (ec_mode ec) (ec_manager ec)"

lemma agree_exact:
  fixes rt alone
  assumes "ecs \<noteq> []"
  defines "agree \<equiv> \<lambda>ec. agree_exact_request rt alone (ec_step ec) (ec_mode ec) (ec_manager ec)"
  obtains (refused) r where "run_ranks (map agree ecs) = Some (Results (map r ecs))" "\<forall>ec \<in> set ecs. \<exists>e. fst (r ec) = Inl e"
  | (agreed) s m where "1 \<le> s" "\<forall>ec \<in> set ecs. ec_step ec = s \<and> request_of rt ec = Inr m"
      "run_ranks (map agree ecs) = run_ranks (map (\<lambda>ec. and_then (activate_collectively rt m (ec_manager ec))
         (\<lambda>(activated, mg). Finish (Inr (map_option (\<lambda>m. (s, m)) activated), mg))) ecs)"
proof -
  let ?offer = "\<lambda>ec. exact_offer (ec_step ec) (request_of rt ec)"
  have three: "length (?offer ec) = 3" for ec by (simp add: exact_offer_def split: sum.splits)
  obtain lower upper where b: "collective_int_bounds (map ?offer ecs) = (lower, upper)" "length lower = 3" "length upper = 3"
    and le: "\<And>i ec. i < 3 \<Longrightarrow> ec \<in> set ecs \<Longrightarrow> lower ! i \<le> ?offer ec ! i \<and> ?offer ec ! i \<le> upper ! i"
    by (rule bounds_three [of ecs ?offer, OF assms(1) three]) blast
  have run: "run_ranks (map agree ecs) = run_ranks (map (\<lambda>ec. exact_reply rt alone (request_of rt ec) (ec_manager ec) (lower, upper)) ecs)"
    unfolding b(1) [symmetric]
    by (rule run_Bounds [OF assms(1)]) (simp add: agree_def agree_exact_request_def request_of_def Let_def)
  show thesis
  proof (cases "(lower ! 0 \<noteq> 1 \<or> upper ! 0 \<noteq> 1) \<or> tl lower \<noteq> tl upper")
    case True
    show thesis
      by (rule refused, unfold run, rule run_Finish [where r = "\<lambda>ec. (Inl (if lower ! 0 \<noteq> 1 \<or> upper ! 0 \<noteq> 1
        then (case request_of rt ec of Inl e \<Rightarrow> if alone then e else InvalidExactRequest | Inr _ \<Rightarrow> InvalidExactRequest)
        else RequestsDisagree), ec_manager ec)"]) (use True in \<open>auto simp: exact_reply_def\<close>)
  next
    case False
    let ?m = "if lower ! 2 = 0 then LatestGemini else RecoveryVerified"
    have same: "lower ! 1 = upper ! 1" "lower ! 2 = upper ! 2"
      using False b(2,3) nth_tl [of 0 lower] nth_tl [of 1 lower] nth_tl [of 0 upper] nth_tl [of 1 upper] by (simp_all add: numeral_2_eq_2)
    have each: "ec_step ec = lower ! 1 \<and> request_of rt ec = Inr ?m" if "ec \<in> set ecs" for ec
    proof -
      have o: "?offer ec ! 0 = 1" "?offer ec ! 1 = lower ! 1" "?offer ec ! 2 = lower ! 2"
        using le [OF _ that, of 0] le [OF _ that, of 1] le [OF _ that, of 2] False same by auto
      then obtain m where m: "request_of rt ec = Inr m" by (auto simp: exact_offer_def split: sum.splits)
      then show ?thesis using o by (cases m) (auto simp: exact_offer_def)
    qed
    moreover obtain ec where "ec \<in> set ecs" using assms(1) by (cases ecs) auto
    ultimately have "1 \<le> lower ! 1" by (force simp: request_of_def exact_request_def rbind_Inr_iff)
    moreover have "run_ranks (map agree ecs) = run_ranks (map (\<lambda>ec. and_then (activate_collectively rt ?m (ec_manager ec))
        (\<lambda>(activated, mg). Finish (Inr (map_option (\<lambda>m. (lower ! 1, m)) activated), mg))) ecs)"
      unfolding run exact_reply_def using False by simp
    ultimately show thesis using each by (intro agreed [of "lower ! 1" ?m]) blast+
  qed
qed

lemma run_activate:
  fixes rt m
  assumes "ecs \<noteq> []"
  defines "act \<equiv> \<lambda>ec. activate_recovery_mode rt (Some m) (ec_manager ec)"
  shows "run_ranks (map (\<lambda>ec. and_then (activate_collectively rt m (ec_manager ec))
      (\<lambda>(activated, mg). Finish (Inr (map_option (\<lambda>m. (s, m)) activated), mg))) ecs) =
    Some (Results (map (\<lambda>ec. (Inr (if \<forall>ec \<in> set ecs. attempt (fst (act ec)) \<noteq> None then Some (s, m) else None), snd (act ec))) ecs))"
proof -
  let ?ok = "\<forall>ec \<in> set ecs. attempt (fst (act ec)) \<noteq> None"
  have "run_ranks (map (\<lambda>ec. activate_collectively rt m (ec_manager ec)) ecs) =
      run_ranks (map (\<lambda>ec. and_then (vote_on (attempt (fst (act ec)))) (\<lambda>r. Finish (r, snd (act ec)))) ecs)"
    by (rule run_cong) (simp add: activate_collectively_def act_def split_beta)
  also have "\<dots> = run_ranks (map (\<lambda>ec. Finish (if ?ok then attempt (fst (act ec)) else None, snd (act ec))) ecs)"
    by (rule run_and_then [OF run_vote [OF assms(1)]])
  also have "\<dots> = Some (Results (map (\<lambda>ec. (if ?ok then attempt (fst (act ec)) else None, snd (act ec))) ecs))"
    by (rule run_Finish) simp
  finally have "run_ranks (map (\<lambda>ec. and_then (activate_collectively rt m (ec_manager ec))
      (\<lambda>(activated, mg). Finish (Inr (map_option (\<lambda>m. (s, m)) activated), mg))) ecs) =
    run_ranks (map (\<lambda>ec. (\<lambda>(activated, mg). Finish (Inr (map_option (\<lambda>m. (s, m)) activated), mg))
      (if ?ok then attempt (fst (act ec)) else None, snd (act ec))) ecs)"
    by (rule run_and_then)
  also have "\<dots> = Some (Results (map (\<lambda>ec. (Inr (if ?ok then Some (s, m) else None), snd (act ec))) ecs))"
  proof (rule run_Finish)
    fix ec assume "ec \<in> set ecs"
    moreover have "attempt (fst (act ec)) = Some m" if ok: "attempt (fst (act ec)) \<noteq> None"
    proof -
      obtain r mg1 where a: "act ec = (r, mg1)" by force
      then obtain m' where r: "r = Inr m'" using ok by (auto simp: attempt_def split: sum.splits)
      then have "resolved_recovery_mode rt (Some m) (ec_manager ec) = Inr m'" using activate_keeps(5) a unfolding act_def by blast
      then show ?thesis using a r by (simp add: resolved_recovery_mode_def attempt_def)
    qed
    ultimately show "(\<lambda>(activated, mg). Finish (Inr (map_option (\<lambda>m. (s, m)) activated), mg))
        (if ?ok then attempt (fst (act ec)) else None, snd (act ec)) = Finish (Inr (if ?ok then Some (s, m) else None), snd (act ec))"
      by auto
  qed
  finally show ?thesis .
qed

text \<open>What a rank may hand out for an exact request: a valid shard of its own of the step, and for verified recovery only
  a step its trust record names.\<close>

definition exact_shard :: "runtime \<Rightarrow> int \<Rightarrow> recovery_mode \<Rightarrow> manager \<Rightarrow> loaded \<Rightarrow> bool" where
  "exact_shard rt s m mg shard \<longleftrightarrow>
     (own_shard rt s mg = Inr shard \<or> m = LatestGemini \<and> memory_shard mg s = Some shard) \<and>
     (m = RecoveryVerified \<longrightarrow> (\<exists>status. read_trust rt mg = Inr status \<and> is_recovery_verified status s))"

lemma attempt_Some: "attempt r = Some x \<longleftrightarrow> r = Inr x"
  by (simp add: attempt_def split: sum.splits)

lemma kept_votes:
  assumes "\<And>x shard. x \<in> set xs \<Longrightarrow> v x = Some shard \<Longrightarrow> P x shard"
  shows "(\<forall>x \<in> set xs. (if \<forall>y \<in> set xs. v y \<noteq> None then v x else None) = None) \<or>
    (\<forall>x \<in> set xs. \<exists>shard. (if \<forall>y \<in> set xs. v y \<noteq> None then v x else None) = Some shard \<and> P x shard)"
proof (cases "\<forall>y \<in> set xs. v y \<noteq> None")
  case True
  then show ?thesis using assms by (intro disjI2) fastforce
qed auto

lemma run_exact_shard:
  assumes "xs \<noteq> []" "1 \<le> s"
  obtains r where "run_ranks (map (\<lambda>x. load_exact_shard rt s m (g x)) xs) = Some (Results (map (\<lambda>x. Inr (r x)) xs))"
    "(\<forall>x \<in> set xs. r x = None) \<or> (\<forall>x \<in> set xs. \<exists>shard. r x = Some shard \<and> exact_shard rt s m (g x) shard)"
proof -
  have lift: "run_ranks (map (\<lambda>x. and_then (vote_on (v x)) (\<lambda>loaded. Finish (Inr loaded))) xs) =
      Some (Results (map (\<lambda>x. Inr (if \<forall>y \<in> set xs. v y \<noteq> None then v x else None)) xs))" for v :: "'a \<Rightarrow> loaded option"
    unfolding run_and_then [OF run_vote [OF assms(1)]] by (rule run_Finish) simp
  show thesis
  proof (cases m)
    case LatestGemini
    let ?v = "\<lambda>x. case memory_shard (g x) s of Some shard \<Rightarrow> Some shard | None \<Rightarrow> attempt (own_shard rt s (g x))"
    have "run_ranks (map (\<lambda>x. load_exact_shard rt s m (g x)) xs) =
        run_ranks (map (\<lambda>x. and_then (vote_on (?v x)) (\<lambda>loaded. Finish (Inr loaded))) xs)"
      using assms(2) LatestGemini by (intro run_cong) (simp add: load_exact_shard_def)
    moreover have good: "exact_shard rt s m (g x) shard" if "?v x = Some shard" for x shard
      using that LatestGemini by (auto simp: exact_shard_def attempt_Some split: option.splits)
    ultimately show thesis unfolding lift by (intro that [OF _ kept_votes [where v = ?v]]) blast+
  next
    case RecoveryVerified
    define ok where "ok x \<longleftrightarrow> (case read_trust rt (g x) of Inl _ \<Rightarrow> False
      | Inr status \<Rightarrow> is_recovery_verified status s \<and> has_rank s (mg_rank (g x)) (mg_disk (g x)))" for x
    have run: "run_ranks (map (\<lambda>x. load_exact_shard rt s m (g x)) xs) =
        run_ranks (map (\<lambda>x. if collective_min_step (map (\<lambda>x. if ok x then 1 else 0) xs) \<noteq> 1 then Finish (Inr None)
          else and_then (vote_on (attempt (own_shard rt s (g x)))) (\<lambda>loaded. Finish (Inr loaded))) xs)"
      using assms(2) RecoveryVerified
      by (intro run_MinStep [OF assms(1)]) (simp add: load_exact_shard_def validated_disk_shard_def ok_def Let_def cong: if_cong)
    show thesis
    proof (cases "\<forall>x \<in> set xs. ok x")
      case True
      have good: "exact_shard rt s m (g x) shard" if "x \<in> set xs" "attempt (own_shard rt s (g x)) = Some shard" for x shard
        using True that RecoveryVerified by (cases "read_trust rt (g x)") (auto simp: exact_shard_def attempt_Some ok_def)
      moreover have "run_ranks (map (\<lambda>x. load_exact_shard rt s m (g x)) xs) = Some (Results (map (\<lambda>x. Inr
          (if \<forall>y \<in> set xs. attempt (own_shard rt s (g y)) \<noteq> None then attempt (own_shard rt s (g x)) else None)) xs))"
        unfolding run vote_all [OF assms(1)] if_P [OF True] lift [symmetric] by simp
      ultimately show thesis by (intro that [OF _ kept_votes [where v = "\<lambda>x. attempt (own_shard rt s (g x))"]]) blast+
    next
      case False
      show thesis
        by (rule that [of "\<lambda>_. None"], unfold run vote_all [OF assms(1)] if_not_P [OF False]) (auto intro!: run_Finish)
    qed
  qed
qed

text \<open>C13: An exact load is all or nothing. Whatever the ranks request and whatever is in their memories, on their disks and in
  their trust records, the ranks never block: either every rank raises, or every rank gets nothing, or all requested the
  same step in the same mode and every rank gets its own valid shard of exactly that step, in verified mode only if its
  trust record names the step.\<close>

theorem exact_load_all_or_nothing:
  fixes ecs :: "exact_call list"
  assumes "ecs \<noteq> []"
  shows "\<exists>rs. run_ranks (map (\<lambda>ec. load_exact rt (length ecs = 1) (ec_step ec) (ec_mode ec) (ec_manager ec)) ecs) = Some (Results rs) \<and>
    (list_all2 (\<lambda>ec r. \<exists>e. fst r = Inl e) ecs rs \<or> list_all2 (\<lambda>ec r. fst r = Inr None) ecs rs \<or>
     (\<exists>s m. 1 \<le> s \<and> list_all2 (\<lambda>ec r. ec_step ec = s \<and> resolved_recovery_mode rt (ec_mode ec) (ec_manager ec) = Inr m \<and>
        (\<exists>shard. fst r = Inr (Some (shard, s)) \<and> exact_shard rt s m (activated rt (Some m) (ec_manager ec)) shard)) ecs rs))"
proof -
  let ?agree = "\<lambda>ec. agree_exact_request rt (length ecs = 1) (ec_step ec) (ec_mode ec) (ec_manager ec)"
  let ?run = "run_ranks (map (\<lambda>ec. load_exact rt (length ecs = 1) (ec_step ec) (ec_mode ec) (ec_manager ec)) ecs)"
  define next_step where "next_step = (\<lambda>(request :: load_error + (int \<times> recovery_mode) option, mg). case request of
       Inl e \<Rightarrow> Finish (Inl e, mg)
     | Inr None \<Rightarrow> Finish (Inr None, mg)
     | Inr (Some (agreed_step, resolved)) \<Rightarrow>
         and_then (load_exact_shard rt agreed_step resolved mg) (\<lambda>loaded.
         case loaded of
           Inl e \<Rightarrow> Finish (Inl e, mg)
         | Inr None \<Rightarrow> Finish (Inr None, mg)
         | Inr (Some shard) \<Rightarrow> Finish (Inr (Some (shard, agreed_step)), mg\<lparr>mg_metadata := Some (fst shard)\<rparr>)))"
  have run: "?run = run_ranks (map (\<lambda>ec. and_then (?agree ec) next_step) ecs)"
    by (rule run_cong) (simp add: load_exact_def next_step_def)
  show ?thesis
  proof (cases rule: agree_exact [OF assms, of rt "length ecs = 1"])
    case (1 r)
    have "?run = run_ranks (map (\<lambda>ec. next_step (r ec)) ecs)" unfolding run by (rule run_and_then [OF 1(1)])
    also have "\<dots> = Some (Results (map (\<lambda>ec. (map_sum id (\<lambda>_. None) (fst (r ec)), snd (r ec))) ecs))"
      using 1(2) by (intro run_Finish) (fastforce simp: next_step_def split_beta)
    finally show ?thesis using 1(2) by (intro exI conjI disjI1) (assumption, fastforce simp: list_all2_map2 intro!: list.rel_refl_strong)
  next
    case (2 s m)
    let ?g = "\<lambda>ec. activated rt (Some m) (ec_manager ec)"
    define ok where "ok \<longleftrightarrow> (\<forall>ec \<in> set ecs. attempt (fst (activate_recovery_mode rt (Some m) (ec_manager ec))) \<noteq> None)"
    have act: "run_ranks (map ?agree ecs) = Some (Results (map (\<lambda>ec. (Inr (if ok then Some (s, m) else None), ?g ec)) ecs))"
      unfolding 2(3) run_activate [OF assms] ok_def activated_def ..
    have run2: "?run = run_ranks (map (\<lambda>ec. next_step (Inr (if ok then Some (s, m) else None), ?g ec)) ecs)"
      unfolding run by (rule run_and_then [OF act])
    show ?thesis
    proof (cases ok)
      case False
      then have "?run = Some (Results (map (\<lambda>ec. (Inr None, ?g ec)) ecs))"
        unfolding run2 by (intro run_Finish) (simp add: next_step_def)
      then show ?thesis by (intro exI conjI disjI2 disjI1) (assumption, simp add: list_all2_map2 list.rel_refl_strong)
    next
      case True
      obtain r where r: "run_ranks (map (\<lambda>ec. load_exact_shard rt s m (?g ec)) ecs) = Some (Results (map (\<lambda>ec. Inr (r ec)) ecs))"
        "(\<forall>ec \<in> set ecs. r ec = None) \<or> (\<forall>ec \<in> set ecs. \<exists>shard. r ec = Some shard \<and> exact_shard rt s m (?g ec) shard)"
        by (rule run_exact_shard [OF assms 2(1), where g = ?g])
      have "?run = run_ranks (map (\<lambda>ec. case r ec of None \<Rightarrow> Finish (Inr None, ?g ec)
          | Some shard \<Rightarrow> Finish (Inr (Some (shard, s)), (?g ec)\<lparr>mg_metadata := Some (fst shard)\<rparr>)) ecs)"
        unfolding run2 using True by (simp add: next_step_def run_and_then [OF r(1)])
      also have "\<dots> = Some (Results (map (\<lambda>ec. case r ec of None \<Rightarrow> (Inr None, ?g ec)
          | Some shard \<Rightarrow> (Inr (Some (shard, s)), (?g ec)\<lparr>mg_metadata := Some (fst shard)\<rparr>)) ecs))"
        by (rule run_Finish) (simp split: option.splits)
      finally have fin: "?run = \<dots>" .
      from r(2) show ?thesis
      proof
        assume "\<forall>ec \<in> set ecs. r ec = None"
        then show ?thesis using fin
          by (intro exI conjI disjI2 disjI1) (assumption, simp add: list_all2_map2 list.rel_refl_strong)
      next
        assume some: "\<forall>ec \<in> set ecs. \<exists>shard. r ec = Some shard \<and> exact_shard rt s m (?g ec) shard"
        have "resolved_recovery_mode rt (ec_mode ec) (ec_manager ec) = Inr m" if "ec \<in> set ecs" for ec
          using 2(2) that by (auto simp: request_of_def exact_request_def res_simps)
        then show ?thesis using fin some 2(1,2)
          by (intro exI conjI disjI2) (assumption, fastforce, fastforce simp: list_all2_map2 intro!: list.rel_refl_strong)
      qed
    qed
  qed
qed

section \<open>Where latest loading falls short\<close>

text \<open>
  \<open>find_latest\<close> falls back to the common step in memory when the newer generations on disk are invalid; \<open>load\<close> does not,
  and hands out an older generation or nothing.
\<close>

lemma run_find_latest:
  assumes "mgs \<noteq> []" "\<forall>mg \<in> set mgs. placed mg" "\<forall>mg \<in> set mgs. resolved_recovery_mode rt mode mg = Inr LatestGemini"
  defines "m \<equiv> common_memory_step mgs" and "d \<equiv> consistent_step (map mg_disk mgs) None"
  shows "run_ranks (map (find_latest rt mode) mgs) =
    Some (Results (map (\<lambda>_. Inr (let s = max m (if m < d then newest_valid rt mgs else d) in if 0 < s then s else -1)) mgs))"
proof -
  let ?v = "newest_valid rt mgs"
  define pick where "pick = (\<lambda>mg. if m < d then and_then (latest_validated_shard rt True d mg)
      (\<lambda>loaded. Finish (case loaded of Some (_, step) \<Rightarrow> step | None \<Rightarrow> -1)) else Finish d)"
  let ?report = "\<lambda>disk_step. let step = max m disk_step in Inr (if 0 < step then step else -1) :: load_error + int"
  have "run_ranks (map (find_latest rt mode) mgs) =
      run_ranks (map (\<lambda>mg. and_then (recovery_steps rt (Some LatestGemini) mg) (find_from rt LatestGemini mg)) mgs)"
    using assms(3) by (intro run_cong) (simp add: find_latest_def)
  also have "\<dots> = run_ranks (map (\<lambda>mg. find_from rt LatestGemini mg (Inr (m, d))) mgs)"
    using run_and_then [OF run_recovery_steps [OF assms(1), of "\<lambda>x. x" rt]] assms(2) by (simp add: m_def d_def)
  also have "\<dots> = run_ranks (map (\<lambda>mg. and_then (pick mg) (\<lambda>disk_step. Finish (?report disk_step))) mgs)"
    by (rule run_cong) (simp add: find_from_def pick_def Let_def)
  also have "\<dots> = run_ranks (map (\<lambda>mg. Finish (?report (if m < d then ?v else d))) mgs)"
  proof (rule run_and_then)
    show "run_ranks (map pick mgs) = Some (Results (map (\<lambda>_. if m < d then ?v else d) mgs))"
    proof (cases "m < d")
      case True
      have v: "newest_valid_to rt mgs d = ?v" unfolding d_def by (rule newest_valid_to_common [OF assms(1)])
      have "run_ranks (map (\<lambda>mg. latest_validated_shard rt True d mg) mgs) = Some (Results (map (\<lambda>mg. shard_at rt ?v mg) mgs))"
        using run_latest_valid [OF assms(1), of "\<lambda>x. x" rt d] assms(2) by (simp add: v)
      from run_and_then [OF this] have "run_ranks (map pick mgs) =
          run_ranks (map (\<lambda>mg. Finish (case shard_at rt ?v mg of Some (_, step) \<Rightarrow> step | None \<Rightarrow> -1)) mgs)"
        using True by (simp add: pick_def)
      also have "\<dots> = Some (Results (map (\<lambda>_. if m < d then ?v else d) mgs))"
      proof (rule run_Finish)
        fix mg assume mg: "mg \<in> set mgs"
        have "?v \<in> insert (-1) {s. valid_everywhere rt mgs s}"
          unfolding newest_valid_def using finite_valid [OF assms(1), of rt "\<lambda>_. True"] by (intro Max_in) simp_all
        then show "Finish (case shard_at rt ?v mg of Some (_, step) \<Rightarrow> step | None \<Rightarrow> -1) = Finish (if m < d then ?v else d)"
          using mg True by (auto simp: shard_at_def valid_everywhere_def split: option.splits)
      qed
      finally show ?thesis .
    next
      case False
      then show ?thesis by (intro run_Finish) (simp add: pick_def)
    qed
  qed
  also have "\<dots> = Some (Results (map (\<lambda>_. ?report (if m < d then ?v else d)) mgs))" by (rule run_Finish) simp
  finally show ?thesis by (simp add: Let_def)
qed

lemma load_misses_memory:
  assumes "mgs \<noteq> []" "\<forall>mg \<in> set mgs. placed mg" "\<forall>mg \<in> set mgs. fst (activate_recovery_mode rt mode mg) = Inr LatestGemini"
    and "0 < common_memory_step mgs" "common_memory_step mgs < consistent_step (map mg_disk mgs) None"
    and "newest_valid rt mgs < common_memory_step mgs"
  shows "run_ranks (map (find_latest rt mode) mgs) = Some (Results (map (\<lambda>_. Inr (common_memory_step mgs)) mgs))"
    "load_source rt mgs \<noteq> Some (common_memory_step mgs, True)"
proof -
  have "\<forall>mg \<in> set mgs. resolved_recovery_mode rt mode mg = Inr LatestGemini"
    using assms(3) activate_keeps(5) by (metis prod.collapse)
  then show "run_ranks (map (find_latest rt mode) mgs) = Some (Results (map (\<lambda>_. Inr (common_memory_step mgs)) mgs))"
    using run_find_latest [OF assms(1,2)] assms(4-6) by (simp add: Let_def)
  show "load_source rt mgs \<noteq> Some (common_memory_step mgs, True)" using assms(5,6) by (simp add: load_source_def Let_def)
qed

text \<open>
  The mode of a latest load is each rank's own: a rank whose record asks for verified recovery, but names no step, leaves
  while a rank in the latest mode waits for its next reduction.
\<close>

lemma mixed_modes_block:
  assumes "activate_recovery_mode rt None a = (Inr RecoveryVerified, a')" "read_trust rt a' = Inr status" "cs_verified_step status \<le> 0"
    and "activate_recovery_mode rt None b = (Inr LatestGemini, b')"
  shows "run_ranks (map (load_latest rt None) [a, b]) = Some Deadlock"
proof -
  let ?r = "collective_min_step [cs_verified_step status, latest_memory_step b']"
  have r: "?r \<le> 0" using assms(3) by (simp add: collective_min_step_def)
  have a: "load_latest rt None a = MinStep (cs_verified_step status)
      (\<lambda>v. and_then (Finish (Inr (-1, v))) (load_from rt RecoveryVerified a'))"
    using assms(1-3) by (simp add: load_latest_def recovery_steps_def resolved_recovery_mode_def verified_disk_step_def)
  let ?rest = "and_then (and_then (and_then (rank_consistent_step b' None) (\<lambda>d. Finish (-1, d))) (\<lambda>s. Finish (Inr s))) (load_from rt LatestGemini b')"
  have "\<exists>k. load_latest rt None b = MinStep (latest_memory_step b') k \<and> (\<forall>r \<le> 0. k r = ?rest)"
    using assms(4) by (simp add: load_latest_def recovery_steps_def resolved_recovery_mode_def latest_recovery_steps_def consistent_memory_step_def)
  then obtain k where b: "load_latest rt None b = MinStep (latest_memory_step b') k" "\<forall>r \<le> 0. k r = ?rest" by blast
  have "run_ranks (map (load_latest rt None) [a, b]) =
      run_ranks [load_from rt RecoveryVerified a' (Inr (-1, ?r)),
        ?rest]"
    by (subst run_ranks.simps) (use r in \<open>simp add: a b\<close>)
  also have "\<dots> = Some Deadlock"
    by (subst run_ranks.simps) (use r in \<open>simp add: load_from_def rank_consistent_step_def\<close>)
  finally show ?thesis .
qed

section \<open>Examples\<close>

definition example_rank :: "int \<Rightarrow> int list \<Rightarrow> status_dir \<Rightarrow> manager" where
  "example_rank r steps dir = example_manager\<lparr>mg_rank := r, mg_disk := example_disk r steps, mg_status_dir := dir,
     mg_status_store := \<lparr>st_rank = Some r, st_run_id = ''run'', st_topology_id = ''topology''\<rparr>\<rparr>"

lemma example_rank_latest:
  "fst (activate_recovery_mode example_runtime None (example_rank r steps [])) = Inr LatestGemini"
  by (simp add: activate_recovery_mode_def resolved_recovery_mode_def read_trust_def read_status_def example_rank_def
      example_manager_def read_peer_fallback_def merge_peer_statuses_def empty_status_def mode_value_def List.map_filter_def)

lemma example_memory: "common_memory_step [example_rank 0 xs d, example_rank 1 ys e] = 10"
proof -
  have m: "latest_memory_step (example_rank r zs f) = 10 \<and> memory_slot_by_step (example_rank r zs f) 10 \<noteq> None" for r zs f
    by (simp add: latest_memory_step_def memory_slot_by_step_def example_rank_def example_manager_def example_slot_def own_slots_def
        num_slots_def complete_slot_def)
  show ?thesis by (simp add: common_memory_step_def m [THEN conjunct1] m [THEN conjunct2, simplified])
qed

theorem latest_load_newest_witness:
  "\<exists>rs. run_ranks (map (load_latest example_runtime None) [example_rank 0 [] [], example_rank 1 [] []]) = Some (Results rs) \<and>
    list_all2 (\<lambda>mg r. \<exists>shard. fst r = Inr (Some (shard, 10)) \<and> memory_shard mg 10 = Some shard)
      [example_rank 0 [] [], example_rank 1 [] []] rs"
proof -
  let ?mgs = "[example_rank 0 [] [], example_rank 1 [] []]"
  have p: "?mgs \<noteq> []" "\<forall>mg \<in> set ?mgs. mg_rank mg = dk_rank (mg_disk mg)"
    "\<forall>mg \<in> set ?mgs. fst (activate_recovery_mode example_runtime None mg) = Inr LatestGemini"
    by (simp_all add: example_rank_latest) (simp_all add: example_rank_def example_disk_def)
  have "consistent_step (map mg_disk ?mgs) None = -1" by code_simp
  then have s: "load_source example_runtime ?mgs = Some (10, True)" by (simp add: load_source_def example_memory)
  show ?thesis using latest_load_newest [OF p] unfolding s by simp
qed

theorem exact_load_all_or_nothing_witness:
  "let ecs = map (\<lambda>r. \<lparr>ec_manager = example_rank r [] [], ec_step = 10, ec_mode = Some LatestGemini\<rparr>) [0, 1];
       run = run_ranks (map (\<lambda>ec. load_exact example_runtime (length ecs = 1) (ec_step ec) (ec_mode ec) (ec_manager ec)) ecs)
   in \<exists>rs. run = Some (Results rs) \<and> length rs = 2"
proof -
  let ?ecs = "map (\<lambda>r. \<lparr>ec_manager = example_rank r [] [], ec_step = 10, ec_mode = Some LatestGemini\<rparr>) [0, 1]"
  have "?ecs \<noteq> []" by simp
  from exact_load_all_or_nothing [OF this, of example_runtime] show ?thesis
    by (fastforce simp: Let_def dest: list_all2_lengthD)
qed

text \<open>Both shortfalls occur: shards of step 20 that are unreadable, and one rank whose record asks for verified recovery.\<close>

lemma example_load_misses_memory:
  "let mgs = [example_rank 0 [20] [], example_rank 1 [20] []]
   in run_ranks (map (find_latest example_runtime None) mgs) = Some (Results [Inr 10, Inr 10]) \<and> load_source example_runtime mgs = None"
proof -
  let ?mgs = "[example_rank 0 [20] [], example_rank 1 [20] []]"
  have p: "?mgs \<noteq> []" "\<forall>mg \<in> set ?mgs. placed mg"
    "\<forall>mg \<in> set ?mgs. fst (activate_recovery_mode example_runtime None mg) = Inr LatestGemini"
    by (simp_all add: example_rank_latest) (simp_all add: placed_def example_rank_def example_disk_def)
  have d: "consistent_step (map mg_disk ?mgs) None = 20" by code_simp
  have "attempt (own_shard example_runtime s (example_rank r [20] [])) = None" for s r
    by (simp add: own_shard_def load_shard_def example_rank_def example_disk_def attempt_def)
  then have none: "{s. valid_everywhere example_runtime ?mgs s} = {}" by (simp add: valid_everywhere_def)
  have v: "newest_valid example_runtime ?mgs = -1" unfolding newest_valid_def none by simp
  have "run_ranks (map (find_latest example_runtime None) ?mgs) = Some (Results [Inr 10, Inr 10])"
    using load_misses_memory(1) [OF p, unfolded example_memory d v] by simp
  moreover have "load_source example_runtime ?mgs = None" unfolding load_source_def example_memory d v by simp
  ultimately show ?thesis by (simp add: Let_def)
qed

lemma example_mixed_modes_block:
  "run_ranks (map (load_latest example_runtime None)
     [example_rank 0 [] [(''GEMINI_CHECKPOINT_STATUS.rank-0'',
        Some (JObj (status_to_dict (empty_status\<lparr>cs_recovery_mode := ''recovery_verified''\<rparr>) ''run'' ''topology'')))],
      example_rank 1 [] []]) = Some Deadlock"
proof -
  define a where "a = example_rank 0 [] [(''GEMINI_CHECKPOINT_STATUS.rank-0'',
     Some (JObj (status_to_dict (empty_status\<lparr>cs_recovery_mode := ''recovery_verified''\<rparr>) ''run'' ''topology'')))]"
  have r: "read_trust example_runtime a = Inr (empty_status\<lparr>cs_recovery_mode := ''recovery_verified''\<rparr>)" unfolding a_def by code_simp
  then have "activate_recovery_mode example_runtime None a = (Inr RecoveryVerified, a)"
    by (simp add: activate_recovery_mode_def resolved_recovery_mode_def mode_value_def empty_status_def)
  moreover obtain b' where "activate_recovery_mode example_runtime None (example_rank 1 [] []) = (Inr LatestGemini, b')"
    using example_rank_latest [of 1 "[]"] by (cases "activate_recovery_mode example_runtime None (example_rank 1 [] [])") simp
  ultimately show ?thesis using mixed_modes_block r unfolding a_def [symmetric] by (simp add: empty_status_def)
qed

end
