(* ===== verification/Base64.thy ===== *)
theory Base64
  imports Prelude "HOL-Library.Word"
begin

text \<open>
  Base 64 as \<open>base64.b64encode\<close> and \<open>base64.b64decode(validate=True)\<close> use it, and the notion of a codec that the
  encodings of checkpoint metadata share.
\<close>

section \<open>Codecs\<close>

text \<open>An encoder that may refuse, and a decoder that gives back what was encoded.\<close>

locale codec =
  fixes valid :: "'a \<Rightarrow> bool"
    and enc :: "'a \<Rightarrow> 'e + 'c"
    and dec :: "'c \<Rightarrow> 'e + 'a"
  assumes round_trip: "valid x \<Longrightarrow> enc x = Inr y \<Longrightarrow> dec y = Inr x"
begin

lemma enc_inj: "valid x \<Longrightarrow> valid x' \<Longrightarrow> enc x = Inr y \<Longrightarrow> enc x' = Inr y \<Longrightarrow> x = x'"
  using round_trip [of x y] round_trip [of x' y] by simp

lemma enc_list: "list_all valid xs \<Longrightarrow> rmap enc xs = Inr ys \<Longrightarrow> rmap dec ys = Inr xs"
proof (induction xs arbitrary: ys)
  case (Cons x xs)
  then show ?case using round_trip by (auto simp: rbind_Inr_iff)
qed simp

end

section \<open>Base 64\<close>

definition b64_alphabet :: string where
  "b64_alphabet = ''ABCDEFGHIJKLMNOPQRSTUVWXYZabcdefghijklmnopqrstuvwxyz0123456789+/''"

definition b64_digit :: "nat \<Rightarrow> char" where
  "b64_digit d = b64_alphabet ! d"

definition b64_val :: "char \<Rightarrow> nat option" where
  "b64_val c = (let i = length (takeWhile (\<lambda>a. a \<noteq> c) b64_alphabet) in if i < 64 then Some i else None)"

fun b64_encode :: "8 word list \<Rightarrow> string" where
  "b64_encode [] = []"
| "b64_encode [a] = [b64_digit (unat a div 4), b64_digit (unat a mod 4 * 16), CHR ''='', CHR ''='']"
| "b64_encode [a, b] =
     [b64_digit (unat a div 4), b64_digit (unat a mod 4 * 16 + unat b div 16), b64_digit (unat b mod 16 * 4), CHR ''='']"
| "b64_encode (a # b # c # rest) =
     b64_digit (unat a div 4) # b64_digit (unat a mod 4 * 16 + unat b div 16) #
     b64_digit (unat b mod 16 * 4 + unat c div 64) # b64_digit (unat c mod 64) # b64_encode rest"

definition quad :: "nat \<Rightarrow> nat \<Rightarrow> nat \<Rightarrow> nat \<Rightarrow> 8 word list" where
  "quad w x y z = [of_nat (w * 4 + x div 16), of_nat (x mod 16 * 16 + y div 4), of_nat (y mod 4 * 64 + z)]"

text \<open>Groups of four digits; padding only at the end. The bits a padded group leaves over are ignored.\<close>

fun b64_decode :: "string \<Rightarrow> 8 word list option" where
  "b64_decode [] = Some []"
| "b64_decode (w # x # y # z # rest) =
     (case (b64_val w, b64_val x) of
        (Some dw, Some dx) \<Rightarrow>
          if z = CHR ''='' then
            if rest \<noteq> [] then None
            else if y = CHR ''='' then Some (take 1 (quad dw dx 0 0))
            else map_option (\<lambda>dy. take 2 (quad dw dx dy 0)) (b64_val y)
          else
            (case (b64_val y, b64_val z, b64_decode rest) of
               (Some dy, Some dz, Some bs) \<Rightarrow> Some (quad dw dx dy dz @ bs)
             | _ \<Rightarrow> None)
      | _ \<Rightarrow> None)"
| "b64_decode _ = None"

lemma b64_table: "list_all (\<lambda>d. b64_val (b64_digit d) = Some d \<and> b64_digit d \<noteq> CHR ''='') [0..<64]"
  by code_simp

lemma b64_val_digit [simp]: "d < 64 \<Longrightarrow> b64_val (b64_digit d) = Some d" "d < 64 \<Longrightarrow> b64_digit d \<noteq> CHR ''=''"
  using b64_table by (simp_all add: list_all_iff)

lemma byte_lt: "unat (a :: 8 word) < 256"
  using unsigned_less [of a] by simp

lemma quad_bytes:
  fixes a b c :: "8 word"
  shows "quad (unat a div 4) (unat a mod 4 * 16 + unat b div 16) (unat b mod 16 * 4 + unat c div 64) (unat c mod 64) = [a, b, c]"
    "take 2 (quad (unat a div 4) (unat a mod 4 * 16 + unat b div 16) (unat b mod 16 * 4) 0) = [a, b]"
    "take (Suc 0) (quad (unat a div 4) (unat a mod 4 * 16) 0 0) = [a]"
proof -
  have s: "m div n * n + m mod n = (m :: nat)" for m n by simp
  have a: "unat a div 4 * 4 + (unat a mod 4 * 16 + y) div 16 = unat a" if "y < 16" for y
    using that s [of "unat a" 4] by simp
  have b: "(unat a mod 4 * 16 + unat b div 16) mod 16 * 16 + (unat b mod 16 * 4 + y) div 4 = unat b" if "y < 4" for y
    using that s [of "unat b" 16] byte_lt [of b] by simp
  have c: "(unat b mod 16 * 4 + unat c div 64) mod 4 * 64 + unat c mod 64 = unat c"
    using s [of "unat c" 64] byte_lt [of c] by simp
  show "quad (unat a div 4) (unat a mod 4 * 16 + unat b div 16) (unat b mod 16 * 4 + unat c div 64) (unat c mod 64) = [a, b, c]"
    using a [of "unat b div 16"] b [of "unat c div 64"] c byte_lt [of b] byte_lt [of c] by (simp add: quad_def del: of_nat_add)
  show "take 2 (quad (unat a div 4) (unat a mod 4 * 16 + unat b div 16) (unat b mod 16 * 4) 0) = [a, b]"
    using a [of "unat b div 16"] b [of 0] byte_lt [of b] by (simp add: quad_def del: of_nat_add)
  show "take (Suc 0) (quad (unat a div 4) (unat a mod 4 * 16) 0 0) = [a]"
    using a [of 0] by (simp add: quad_def del: of_nat_add)
qed

lemma b64_round_trip: "b64_decode (b64_encode bs) = Some bs"
proof (induction bs rule: b64_encode.induct)
  case (2 a)
  then show ?case using byte_lt [of a] by (simp add: quad_bytes less_mult_imp_div_less)
next
  case (3 a b)
  then show ?case using byte_lt [of a] byte_lt [of b] by (simp add: quad_bytes less_mult_imp_div_less)
next
  case (4 a b c rest)
  then show ?case using byte_lt [of a] byte_lt [of b] byte_lt [of c] by (simp add: quad_bytes less_mult_imp_div_less)
qed simp

end
