(* ===== verification/Format.thy ===== *)
theory Format
  imports Protocol Base64
begin

text \<open>
  The node-local checkpoint format of \<open>lm_resiliency/checkpointing/_disk_format.py\<close> and the flattening of state
  dictionaries in \<open>state_dict.py\<close>: Python values with tensors among them, their skeletons with tensor entries, and the
  JSON metadata they are stored as. What torch and numpy know about dtypes and devices, and the equality of
  dictionary keys, are fields of an environment. A float is the text of its \<open>repr\<close>, a set the list of its elements in
  iteration order; containers are of the built-in types and not shared.
\<close>

section \<open>Values\<close>

record np_dtype =
  nd_str :: string
  nd_itemsize :: nat
  nd_object :: bool
  nd_plain :: bool

record ptensor =
  pt_dtype :: string
  pt_shape :: "int list"
  pt_device :: string
  pt_requires_grad :: bool
  pt_dense :: bool
  pt_data :: "8 word list"

datatype pyval =
    PNone
  | PBool bool
  | PInt int
  | PFloat string
  | PComplex string string
  | PStr string
  | PBytes "8 word list"
  | PByteArray "8 word list"
  | PSize "int list"
  | PDtype string
  | PDevice string
  | PTensor ptensor
  | PNdarray np_dtype "int list" "8 word list"
  | PScalar np_dtype "8 word list"
  | PDict "(pyval \<times> pyval) list"
  | PList "pyval list"
  | PTuple "pyval list"
  | PSet "pyval list"
  | PFrozenset "pyval list"
  | POther string

record format_env =
  fe_dtype :: "string \<Rightarrow> bool"
  fe_element_size :: "string \<Rightarrow> nat option"
  fe_device :: "string \<Rightarrow> string option"
  fe_np_dtype :: "string \<Rightarrow> np_dtype option"
  fe_float :: "int \<Rightarrow> string option"
  fe_same :: "pyval \<Rightarrow> pyval \<Rightarrow> bool"

datatype format_error = UnsupportedValue | BadFormat | OtherFailure

fun hashable :: "pyval \<Rightarrow> bool" where
  "hashable (PByteArray _) = False"
| "hashable (PNdarray _ _ _) = False"
| "hashable (PDict _) = False"
| "hashable (PList _) = False"
| "hashable (PSet _) = False"
| "hashable (PTuple vs) = list_all hashable vs"
| "hashable _ = True"

definition max_metadata_bytes :: nat where "max_metadata_bytes = 64 * 1024 * 1024"
definition max_metadata_depth :: nat where "max_metadata_depth = 100"
definition max_container_items :: nat where "max_container_items = 1000000"

section \<open>Encoding values\<close>

definition tagged :: "string \<Rightarrow> (string \<times> json) list \<Rightarrow> json" where
  "tagged kind kvs = JObj ((''kind'', JStr kind) # kvs)"

definition data_text :: "8 word list \<Rightarrow> json" where
  "data_text bs = JStr (b64_encode bs)"

definition ints :: "int list \<Rightarrow> json" where
  "ints xs = JArr (map JInt xs)"

definition device_type :: "string \<Rightarrow> string" where
  "device_type d = takeWhile (\<lambda>c. c \<noteq> CHR '':'') d"

definition encode_tensor :: "ptensor \<Rightarrow> format_error + json" where
  "encode_tensor t =
     (if device_type (pt_device t) \<noteq> ''cpu'' \<or> pt_requires_grad t \<or> \<not> pt_dense t then Inl UnsupportedValue
      else Inr (tagged ''torch_tensor'' [(''dtype'', JStr (pt_dtype t)), (''shape'', ints (pt_shape t)), (''data'', data_text (pt_data t))]))"

definition plain_numpy :: "np_dtype \<Rightarrow> format_error + unit" where
  "plain_numpy d = ensure (\<not> nd_object d \<and> nd_plain d) UnsupportedValue"

text \<open>\<open>np.ascontiguousarray\<close> returns an array of at least one dimension.\<close>

definition contiguous_shape :: "int list \<Rightarrow> int list" where
  "contiguous_shape shape = (if shape = [] then [1] else shape)"

fun encode_leaf :: "pyval \<Rightarrow> format_error + json" where
  "encode_leaf PNone = Inr (tagged ''none'' [])"
| "encode_leaf (PBool b) = Inr (tagged ''bool'' [(''value'', JBool b)])"
| "encode_leaf (PInt i) = Inr (tagged ''int'' [(''value'', JInt i)])"
| "encode_leaf (PFloat l) = Inr (tagged ''float'' [(''value'', JFloat l)])"
| "encode_leaf (PComplex a b) = Inr (tagged ''complex'' [(''value'', JArr [JFloat a, JFloat b])])"
| "encode_leaf (PStr s) = Inr (tagged ''str'' [(''value'', JStr s)])"
| "encode_leaf (PBytes bs) = Inr (tagged ''bytes'' [(''value'', data_text bs)])"
| "encode_leaf (PByteArray bs) = Inr (tagged ''bytearray'' [(''value'', data_text bs)])"
| "encode_leaf (PSize xs) =
     (if list_all (\<lambda>x. 0 \<le> x) xs then Inr (tagged ''torch_size'' [(''value'', ints xs)]) else Inl UnsupportedValue)"
| "encode_leaf (PDtype d) = Inr (tagged ''torch_dtype'' [(''value'', JStr d)])"
| "encode_leaf (PDevice d) = Inr (tagged ''torch_device'' [(''value'', JStr d)])"
| "encode_leaf (PTensor t) = encode_tensor t"
| "encode_leaf (PNdarray d shape bs) = rbind (plain_numpy d) (\<lambda>_.
     Inr (tagged ''numpy_array'' [(''dtype'', JStr (nd_str d)), (''shape'', ints (contiguous_shape shape)), (''data'', data_text bs)]))"
| "encode_leaf (PScalar d bs) = rbind (plain_numpy d) (\<lambda>_.
     Inr (tagged ''numpy_scalar'' [(''dtype'', JStr (nd_str d)), (''data'', data_text bs)]))"
| "encode_leaf _ = Inl UnsupportedValue"

definition check_depth :: "nat \<Rightarrow> format_error \<Rightarrow> format_error + unit" where
  "check_depth depth e = ensure (depth \<le> max_metadata_depth) e"

definition check_container_size :: "'a list \<Rightarrow> format_error + unit" where
  "check_container_size xs = ensure (length xs \<le> max_container_items) BadFormat"

definition container :: "string \<Rightarrow> json list \<Rightarrow> json" where
  "container kind items = tagged kind [(''items'', JArr items)]"

lemma size_pair_in [termination_simp]:
  "(k, v) \<in> set kvs \<Longrightarrow> size k < Suc (size_list (size_prod size size) kvs)"
  "(k, v) \<in> set kvs \<Longrightarrow> size v < Suc (size_list (size_prod size size) kvs)"
  by (induction kvs) auto

fun encode_value :: "nat \<Rightarrow> pyval \<Rightarrow> format_error + json" where
  "encode_value depth (PDict kvs) =
     rbind (check_depth depth UnsupportedValue) (\<lambda>_.
     rbind (check_container_size kvs) (\<lambda>_.
     rbind (rmap (\<lambda>(k, v). rbind (encode_value (depth + 1) k) (\<lambda>jk. rbind (encode_value (depth + 1) v) (\<lambda>jv. Inr (JArr [jk, jv])))) kvs)
       (\<lambda>items. Inr (container ''dict'' items))))"
| "encode_value depth (PList vs) =
     rbind (check_depth depth UnsupportedValue) (\<lambda>_.
     rbind (check_container_size vs) (\<lambda>_.
     rbind (rmap (encode_value (depth + 1)) vs) (\<lambda>items. Inr (container ''list'' items))))"
| "encode_value depth (PTuple vs) =
     rbind (check_depth depth UnsupportedValue) (\<lambda>_.
     rbind (check_container_size vs) (\<lambda>_.
     rbind (rmap (encode_value (depth + 1)) vs) (\<lambda>items. Inr (container ''tuple'' items))))"
| "encode_value depth (PSet vs) =
     rbind (check_depth depth UnsupportedValue) (\<lambda>_.
     rbind (check_container_size vs) (\<lambda>_.
     rbind (rmap (encode_value (depth + 1)) vs) (\<lambda>items. Inr (container ''set'' items))))"
| "encode_value depth (PFrozenset vs) =
     rbind (check_depth depth UnsupportedValue) (\<lambda>_.
     rbind (check_container_size vs) (\<lambda>_.
     rbind (rmap (encode_value (depth + 1)) vs) (\<lambda>items. Inr (container ''frozenset'' items))))"
| "encode_value depth v = rbind (check_depth depth UnsupportedValue) (\<lambda>_. encode_leaf v)"

section \<open>Decoding values\<close>

definition exact_keys :: "(string \<times> json) list \<Rightarrow> string list \<Rightarrow> format_error + unit" where
  "exact_keys kvs expected = ensure (set (map fst kvs) = set expected) BadFormat"

definition fld :: "(string \<times> json) list \<Rightarrow> string \<Rightarrow> json" where
  "fld kvs k = (case map_of kvs k of Some v \<Rightarrow> v | None \<Rightarrow> JNull)"

definition decode_data :: "json \<Rightarrow> format_error + 8 word list" where
  "decode_data j = (case j of JStr s \<Rightarrow> (case b64_decode s of Some bs \<Rightarrow> Inr bs | None \<Rightarrow> Inl BadFormat) | _ \<Rightarrow> Inl BadFormat)"

definition decode_dtype :: "format_env \<Rightarrow> json \<Rightarrow> format_error + string" where
  "decode_dtype env j =
     (case j of JStr s \<Rightarrow> if s = [] \<or> CHR ''.'' \<in> set s \<or> \<not> fe_dtype env s then Inl BadFormat else Inr s | _ \<Rightarrow> Inl BadFormat)"

definition decode_device :: "format_env \<Rightarrow> json \<Rightarrow> format_error + string" where
  "decode_device env j =
     (case j of JStr s \<Rightarrow> (case fe_device env s of Some d \<Rightarrow> Inr d | None \<Rightarrow> Inl BadFormat) | _ \<Rightarrow> Inl BadFormat)"

definition decode_shape :: "json \<Rightarrow> format_error + int list" where
  "decode_shape j =
     (case j of JArr js \<Rightarrow> rmap (\<lambda>j. case j of JInt i \<Rightarrow> if 0 \<le> i then Inr i else Inl BadFormat | _ \<Rightarrow> Inl BadFormat) js
      | _ \<Rightarrow> Inl BadFormat)"

definition decode_numpy_dtype :: "format_env \<Rightarrow> json \<Rightarrow> format_error + np_dtype" where
  "decode_numpy_dtype env j =
     (case j of
        JStr s \<Rightarrow> if 64 < length s then Inl BadFormat
                  else (case fe_np_dtype env s of Some d \<Rightarrow> if nd_object d then Inl BadFormat else Inr d | None \<Rightarrow> Inl BadFormat)
      | _ \<Rightarrow> Inl BadFormat)"

definition decode_component :: "format_env \<Rightarrow> json \<Rightarrow> format_error + string" where
  "decode_component env j =
     (case j of JFloat l \<Rightarrow> Inr l | JInt i \<Rightarrow> (case fe_float env i of Some l \<Rightarrow> Inr l | None \<Rightarrow> Inl OtherFailure) | _ \<Rightarrow> Inl BadFormat)"

definition complex_parts :: "json \<Rightarrow> format_error + json \<times> json" where
  "complex_parts j =
     (case j of
        JArr [a, b] \<Rightarrow> (case (a, b) of
            (JInt _, JInt _) \<Rightarrow> Inr (a, b) | (JInt _, JFloat _) \<Rightarrow> Inr (a, b)
          | (JFloat _, JInt _) \<Rightarrow> Inr (a, b) | (JFloat _, JFloat _) \<Rightarrow> Inr (a, b) | _ \<Rightarrow> Inl BadFormat)
      | _ \<Rightarrow> Inl BadFormat)"

definition decode_leaf :: "format_env \<Rightarrow> string \<Rightarrow> (string \<times> json) list \<Rightarrow> format_error + pyval" where
  "decode_leaf env kind kvs =
     (let value = fld kvs ''value'' in
      if kind = ''none'' then rbind (exact_keys kvs [''kind'']) (\<lambda>_. Inr PNone)
      else if kind \<in> {''bool'', ''int'', ''float'', ''str''} then
        rbind (exact_keys kvs [''kind'', ''value'']) (\<lambda>_.
        case (kind, value) of
          (_, JBool b) \<Rightarrow> if kind = ''bool'' then Inr (PBool b) else Inl BadFormat
        | (_, JInt i) \<Rightarrow> if kind = ''int'' then Inr (PInt i) else Inl BadFormat
        | (_, JFloat l) \<Rightarrow> if kind = ''float'' then Inr (PFloat l) else Inl BadFormat
        | (_, JStr s) \<Rightarrow> if kind = ''str'' then Inr (PStr s) else Inl BadFormat
        | _ \<Rightarrow> Inl BadFormat)
      else if kind = ''complex'' then
        rbind (exact_keys kvs [''kind'', ''value'']) (\<lambda>_.
        rbind (complex_parts value) (\<lambda>(a, b).
        rbind (decode_component env a) (\<lambda>x. rbind (decode_component env b) (\<lambda>y. Inr (PComplex x y)))))
      else if kind \<in> {''bytes'', ''bytearray''} then
        rbind (exact_keys kvs [''kind'', ''value'']) (\<lambda>_.
        rbind (decode_data value) (\<lambda>bs. Inr (if kind = ''bytes'' then PBytes bs else PByteArray bs)))
      else if kind = ''torch_size'' then
        rbind (exact_keys kvs [''kind'', ''value'']) (\<lambda>_. rbind (decode_shape value) (\<lambda>xs. Inr (PSize xs)))
      else if kind = ''torch_dtype'' then
        rbind (exact_keys kvs [''kind'', ''value'']) (\<lambda>_. rbind (decode_dtype env value) (\<lambda>d. Inr (PDtype d)))
      else if kind = ''torch_device'' then
        rbind (exact_keys kvs [''kind'', ''value'']) (\<lambda>_. rbind (decode_device env value) (\<lambda>d. Inr (PDevice d)))
      else if kind = ''torch_tensor'' then
        rbind (exact_keys kvs [''kind'', ''dtype'', ''shape'', ''data'']) (\<lambda>_.
        rbind (decode_dtype env (fld kvs ''dtype'')) (\<lambda>dtype.
        rbind (decode_shape (fld kvs ''shape'')) (\<lambda>shape.
        rbind (decode_data (fld kvs ''data'')) (\<lambda>bs.
        case fe_element_size env dtype of
          None \<Rightarrow> Inl BadFormat
        | Some n \<Rightarrow>
            if int (length bs) \<noteq> prod_list shape * int n then Inl BadFormat
            else Inr (PTensor \<lparr>pt_dtype = dtype, pt_shape = shape, pt_device = ''cpu'', pt_requires_grad = False,
              pt_dense = True, pt_data = bs\<rparr>)))))
      else if kind = ''numpy_scalar'' then
        rbind (exact_keys kvs [''kind'', ''dtype'', ''data'']) (\<lambda>_.
        rbind (decode_numpy_dtype env (fld kvs ''dtype'')) (\<lambda>d.
        rbind (decode_data (fld kvs ''data'')) (\<lambda>bs.
        if length bs \<noteq> nd_itemsize d then Inl BadFormat
        else if nd_itemsize d = 0 then Inl OtherFailure
        else Inr (PScalar d bs))))
      else if kind = ''numpy_array'' then
        rbind (exact_keys kvs [''kind'', ''dtype'', ''data'', ''shape'']) (\<lambda>_.
        rbind (decode_numpy_dtype env (fld kvs ''dtype'')) (\<lambda>d.
        rbind (decode_data (fld kvs ''data'')) (\<lambda>bs.
        rbind (decode_shape (fld kvs ''shape'')) (\<lambda>shape.
        if int (length bs) \<noteq> prod_list shape * int (nd_itemsize d) then Inl BadFormat
        else if nd_itemsize d = 0 then Inl OtherFailure
        else Inr (PNdarray d shape bs)))))
      else Inl BadFormat)"

text \<open>A set keeps the first of equal elements.\<close>

definition dedup :: "(pyval \<Rightarrow> pyval \<Rightarrow> bool) \<Rightarrow> pyval list \<Rightarrow> pyval list" where
  "dedup same vs = fold (\<lambda>v acc. if \<exists>w \<in> set acc. same w v then acc else acc @ [v]) vs []"

definition make_container :: "format_env \<Rightarrow> string \<Rightarrow> pyval list \<Rightarrow> format_error + pyval" where
  "make_container env kind vs =
     (if kind = ''list'' then Inr (PList vs)
      else if kind = ''tuple'' then Inr (PTuple vs)
      else if \<not> list_all hashable vs then Inl BadFormat
      else if kind = ''set'' then Inr (PSet (dedup (fe_same env) vs))
      else Inr (PFrozenset (dedup (fe_same env) vs)))"

lemma map_of_size: "map_of kvs k = Some v \<Longrightarrow> size v < Suc (size_list (size_prod (\<lambda>_. 0) size) kvs)"
  by (induction kvs) (auto split: if_splits)

lemma elem_size: "x \<in> set xs \<Longrightarrow> size x \<le> size_list size xs"
  by (induction xs) auto

function (sequential) decode_value :: "format_env \<Rightarrow> nat \<Rightarrow> json \<Rightarrow> format_error + pyval"
  and decode_pairs :: "format_env \<Rightarrow> nat \<Rightarrow> json list \<Rightarrow> (pyval \<times> pyval) list \<Rightarrow> format_error + pyval"
where
  "decode_value env depth (JObj kvs) =
     rbind (check_depth depth BadFormat) (\<lambda>_.
     case map_of kvs ''kind'' of
       Some (JStr kind) \<Rightarrow>
         if kind \<in> {''dict'', ''list'', ''tuple'', ''set'', ''frozenset''} then
           rbind (exact_keys kvs [''kind'', ''items'']) (\<lambda>_.
           case map_of kvs ''items'' of
             Some (JArr items) \<Rightarrow>
               rbind (check_container_size items) (\<lambda>_.
               if kind = ''dict'' then decode_pairs env depth items []
               else rbind (rmap (decode_value env (depth + 1)) items) (make_container env kind))
           | _ \<Rightarrow> Inl BadFormat)
         else decode_leaf env kind kvs
     | _ \<Rightarrow> Inl BadFormat)"
| "decode_value env depth _ = Inl BadFormat"
| "decode_pairs env depth [] acc = Inr (PDict acc)"
| "decode_pairs env depth (JArr [jk, jv] # rest) acc =
     rbind (decode_value env (depth + 1) jk) (\<lambda>k.
     if \<not> hashable k \<or> (\<exists>kv \<in> set acc. fe_same env (fst kv) k) then Inl BadFormat
     else rbind (decode_value env (depth + 1) jv) (\<lambda>v. decode_pairs env depth rest (acc @ [(k, v)])))"
| "decode_pairs env depth (_ # rest) acc = Inl BadFormat"
  by pat_completeness auto
termination
proof (relation "measure (\<lambda>x. case x of Inl (env, depth, j) \<Rightarrow> size j | Inr (env, depth, items, acc) \<Rightarrow> size_list size items)", goal_cases)
  case 2
  then show ?case using map_of_size [of _ "''items''"] by fastforce
next
  case (3 env depth kvs)
  then show ?case by (auto dest!: map_of_size [of _ "''items''"] simp: less_Suc_eq_le dest: elem_size)
qed auto

section \<open>Values as Python has them\<close>

definition distinct_under :: "('a \<Rightarrow> 'a \<Rightarrow> bool) \<Rightarrow> 'a list \<Rightarrow> bool" where
  "distinct_under same xs = sorted_wrt (\<lambda>x y. \<not> same x y) xs"

definition wf_dtype :: "format_env \<Rightarrow> string \<Rightarrow> bool" where
  "wf_dtype env d \<longleftrightarrow> fe_dtype env d \<and> d \<noteq> [] \<and> CHR ''.'' \<notin> set d"

definition wf_numpy :: "format_env \<Rightarrow> np_dtype \<Rightarrow> bool" where
  "wf_numpy env d \<longleftrightarrow> (nd_plain d \<and> \<not> nd_object d \<longrightarrow>
     fe_np_dtype env (nd_str d) = Some d \<and> length (nd_str d) \<le> 64 \<and> 0 < nd_itemsize d)"

definition wf_tensor :: "format_env \<Rightarrow> ptensor \<Rightarrow> bool" where
  "wf_tensor env t \<longleftrightarrow> wf_dtype env (pt_dtype t) \<and> list_all (\<lambda>x. 0 \<le> x) (pt_shape t) \<and>
     fe_device env (pt_device t) = Some (pt_device t) \<and> (device_type (pt_device t) = ''cpu'' \<longrightarrow> pt_device t = ''cpu'') \<and>
     (\<exists>n. fe_element_size env (pt_dtype t) = Some n \<and> int (length (pt_data t)) = prod_list (pt_shape t) * int n)"

fun wf_value :: "format_env \<Rightarrow> pyval \<Rightarrow> bool" where
  "wf_value env (PFloat l) = float_text l"
| "wf_value env (PComplex a b) = (float_text a \<and> float_text b)"
| "wf_value env (PDtype d) = wf_dtype env d"
| "wf_value env (PDevice d) = (fe_device env d = Some d)"
| "wf_value env (PTensor t) = wf_tensor env t"
| "wf_value env (PNdarray d shape bs) =
     (wf_numpy env d \<and> list_all (\<lambda>x. 0 \<le> x) shape \<and> int (length bs) = prod_list shape * int (nd_itemsize d))"
| "wf_value env (PScalar d bs) = (wf_numpy env d \<and> length bs = nd_itemsize d)"
| "wf_value env (PDict kvs) =
     ((\<forall>(k, v) \<in> set kvs. wf_value env k \<and> wf_value env v \<and> hashable k) \<and> distinct_under (fe_same env) (map fst kvs))"
| "wf_value env (PList vs) = (\<forall>v \<in> set vs. wf_value env v)"
| "wf_value env (PTuple vs) = (\<forall>v \<in> set vs. wf_value env v)"
| "wf_value env (PSet vs) = ((\<forall>v \<in> set vs. wf_value env v \<and> hashable v) \<and> distinct_under (fe_same env) vs)"
| "wf_value env (PFrozenset vs) = ((\<forall>v \<in> set vs. wf_value env v \<and> hashable v) \<and> distinct_under (fe_same env) vs)"
| "wf_value env _ = True"

text \<open>What a value becomes when it is stored: an array with no dimensions gets one.\<close>

fun at_least_1d :: "pyval \<Rightarrow> pyval" where
  "at_least_1d (PNdarray d shape bs) = PNdarray d (contiguous_shape shape) bs"
| "at_least_1d (PDict kvs) = PDict (map (\<lambda>(k, v). (k, at_least_1d v)) kvs)"
| "at_least_1d (PList vs) = PList (map at_least_1d vs)"
| "at_least_1d (PTuple vs) = PTuple (map at_least_1d vs)"
| "at_least_1d v = v"

lemma contiguous_shape_simps [simp]:
  "contiguous_shape (contiguous_shape shape) = contiguous_shape shape"
  "list_all (\<lambda>x. 0 \<le> x) (contiguous_shape shape) = list_all (\<lambda>x. 0 \<le> x) shape"
  "prod_list (contiguous_shape shape) = prod_list shape"
  by (simp_all add: contiguous_shape_def)

lemma map_same_iff: "map f xs = xs \<longleftrightarrow> (\<forall>x \<in> set xs. f x = x)"
  by (induction xs) auto

lemma hashable_at_least_1d: "hashable v \<Longrightarrow> at_least_1d v = v"
  by (induction v rule: hashable.induct) (auto simp: list_all_iff map_idI)

lemma at_least_1d_idem [simp]: "at_least_1d (at_least_1d v) = at_least_1d v"
  by (induction v rule: at_least_1d.induct) auto

lemma wf_at_least_1d: "wf_value env v \<Longrightarrow> wf_value env (at_least_1d v)"
proof (induction v rule: at_least_1d.induct)
  case (2 kvs)
  then show ?case by (auto simp: comp_def split_beta)
qed auto

lemma encode_at_least_1d: "encode_value depth (at_least_1d v) = encode_value depth v"
proof (induction depth v rule: encode_value.induct)
  case (1 depth kvs)
  have "rmap (\<lambda>(k, v). rbind (encode_value (depth + 1) k) (\<lambda>jk. rbind (encode_value (depth + 1) v) (\<lambda>jv. Inr (JArr [jk, jv]))))
      (map (\<lambda>(k, v). (k, at_least_1d v)) kvs) =
    rmap (\<lambda>(k, v). rbind (encode_value (depth + 1) k) (\<lambda>jk. rbind (encode_value (depth + 1) v) (\<lambda>jv. Inr (JArr [jk, jv])))) kvs"
    if "check_depth depth UnsupportedValue = Inr ()" "check_container_size kvs = Inr ()"
    using 1(2) that by (auto simp: rmap_map comp_def intro!: rmap_cong)
  then show ?case by (cases "check_depth depth UnsupportedValue"; cases "check_container_size kvs") (simp_all add: check_container_size_def)
next
  case (2 depth vs)
  then show ?case by (cases "check_depth depth UnsupportedValue"; cases "check_container_size vs")
      (simp_all add: check_container_size_def rmap_map comp_def cong: rmap_cong)
next
  case (3 depth vs)
  then show ?case by (cases "check_depth depth UnsupportedValue"; cases "check_container_size vs")
      (simp_all add: check_container_size_def rmap_map comp_def cong: rmap_cong)
qed simp_all

section \<open>Decoding what was encoded\<close>

text \<open>Decoding sees the fields of a parsed object, not their order.\<close>

definition parsed :: "string \<Rightarrow> (string \<times> json) list \<Rightarrow> (string \<times> json) list" where
  "parsed kind kvs = (''kind'', JStr kind) # map (\<lambda>(k, v). (k, canon v)) kvs"

lemma canon_tagged:
  assumes "distinct (''kind'' # map fst kvs)"
  obtains kvs' where "canon (tagged kind kvs) = JObj kvs'" "map_of kvs' = map_of (parsed kind kvs)"
    "set (map fst kvs') = set (map fst (parsed kind kvs))"
proof -
  have d: "distinct (map fst (parsed kind kvs))" using assms by (auto simp: parsed_def comp_def split_beta)
  have "canon (tagged kind kvs) = JObj (sort_key fst (parsed kind kvs))" by (simp add: tagged_def parsed_def)
  then show thesis using sort_key_map_of [OF d] by (intro that [of "sort_key fst (parsed kind kvs)"]) (auto simp: fun_eq_iff)
qed

lemma decode_leaf_fields:
  assumes "map_of kvs' = map_of kvs" "set (map fst kvs') = set (map fst kvs)"
  shows "decode_leaf env kind kvs' = decode_leaf env kind kvs"
proof -
  have "fld kvs' = fld kvs" "exact_keys kvs' = exact_keys kvs"
    using assms by (simp_all add: fun_eq_iff fld_def exact_keys_def)
  then show ?thesis unfolding decode_leaf_def by (simp only:)
qed

lemma decode_tagged:
  assumes "distinct (''kind'' # map fst kvs)" "kind \<notin> {''dict'', ''list'', ''tuple'', ''set'', ''frozenset''}" "depth \<le> max_metadata_depth"
  shows "decode_value env depth (canon (tagged kind kvs)) = decode_leaf env kind (parsed kind kvs)"
proof -
  obtain kvs' where k: "canon (tagged kind kvs) = JObj kvs'" "map_of kvs' = map_of (parsed kind kvs)"
    "set (map fst kvs') = set (map fst (parsed kind kvs))"
    using canon_tagged [OF assms(1)] .
  have "map_of kvs' ''kind'' = Some (JStr kind)" unfolding k(2) by (simp add: parsed_def)
  then show ?thesis using assms(2,3) decode_leaf_fields [OF k(2,3)] by (simp add: k(1) check_depth_def)
qed

lemma decode_container:
  assumes "kind \<in> {''dict'', ''list'', ''tuple'', ''set'', ''frozenset''}" "depth \<le> max_metadata_depth" "length items \<le> max_container_items"
  shows "decode_value env depth (canon (container kind items)) =
    (if kind = ''dict'' then decode_pairs env depth (map canon items) []
     else rbind (rmap (decode_value env (depth + 1)) (map canon items)) (make_container env kind))"
proof -
  have d: "distinct (''kind'' # map fst [(''items'', JArr items)])" by simp
  obtain kvs' where k: "canon (tagged kind [(''items'', JArr items)]) = JObj kvs'" "map_of kvs' = map_of (parsed kind [(''items'', JArr items)])"
    "set (map fst kvs') = set (map fst (parsed kind [(''items'', JArr items)]))"
    using canon_tagged [OF d] .
  have "map_of kvs' ''kind'' = Some (JStr kind)" "map_of kvs' ''items'' = Some (JArr (map canon items))" unfolding k(2) by (simp_all add: parsed_def)
  moreover have "exact_keys kvs' [''kind'', ''items''] = Inr ()" unfolding exact_keys_def k(3) by (simp add: parsed_def)
  ultimately show ?thesis using assms by (simp add: container_def k(1) check_depth_def check_container_size_def)
qed

lemma decode_ints: "list_all (\<lambda>x. 0 \<le> x) xs \<Longrightarrow> decode_shape (canon (ints xs)) = Inr xs"
  by (auto simp: ints_def decode_shape_def comp_def list_all_iff intro!: rmap_Inr [where g = "\<lambda>j. case j of JInt i \<Rightarrow> i", THEN trans] map_idI)

lemma decode_data_text: "decode_data (canon (data_text bs)) = Inr bs"
  by (simp add: data_text_def decode_data_def b64_round_trip)

lemmas decode_leaf_simps = decode_leaf_def parsed_def fld_def exact_keys_def insert_commute decode_ints decode_data_text

lemma leaf_round_trip:
  assumes "wf_value env v" "encode_leaf v = Inr j" "depth \<le> max_metadata_depth" "at_least_1d v = v"
  shows "decode_value env depth (canon j) = Inr v"
proof (cases v)
  case (PComplex a b)
  then show ?thesis using assms
    by (auto simp: decode_tagged decode_leaf_simps complex_parts_def decode_component_def)
next
  case (PTensor t)
  then have "j = tagged ''torch_tensor'' [(''dtype'', JStr (pt_dtype t)), (''shape'', ints (pt_shape t)), (''data'', data_text (pt_data t))]"
    "device_type (pt_device t) = ''cpu''" "\<not> pt_requires_grad t" "pt_dense t"
    using assms(2) by (auto simp: encode_tensor_def split: if_splits)
  then show ?thesis using PTensor assms(1,3)
    by (cases t) (auto simp: decode_tagged decode_leaf_simps wf_tensor_def wf_dtype_def decode_dtype_def)
next
  case (PNdarray d shape bs)
  then have "j = tagged ''numpy_array'' [(''dtype'', JStr (nd_str d)), (''shape'', ints shape), (''data'', data_text bs)]"
    "\<not> nd_object d" "nd_plain d"
    using assms(2,4) by (auto simp: plain_numpy_def rbind_Inr_iff)
  then show ?thesis using PNdarray assms(1,3)
    by (auto simp: decode_tagged decode_leaf_simps wf_numpy_def decode_numpy_dtype_def)
next
  case (PScalar d bs)
  then have "j = tagged ''numpy_scalar'' [(''dtype'', JStr (nd_str d)), (''data'', data_text bs)]" "\<not> nd_object d" "nd_plain d"
    using assms(2) by (auto simp: plain_numpy_def rbind_Inr_iff)
  then show ?thesis using PScalar assms(1,3)
    by (auto simp: decode_tagged decode_leaf_simps wf_numpy_def decode_numpy_dtype_def)
next
  case (PSize xs)
  then show ?thesis using assms by (auto simp: decode_tagged decode_leaf_simps split: if_splits)
next
  case (PDtype d)
  then show ?thesis using assms by (auto simp: decode_tagged decode_leaf_simps decode_dtype_def wf_dtype_def)
next
  case (PDevice d)
  then show ?thesis using assms by (auto simp: decode_tagged decode_leaf_simps decode_device_def)
qed (use assms in \<open>auto simp: decode_tagged decode_leaf_simps\<close>)

lemma dedup_distinct: "distinct_under same vs \<Longrightarrow> dedup same vs = vs"
proof -
  have "distinct_under same (acc @ vs) \<Longrightarrow> fold (\<lambda>v acc. if \<exists>w \<in> set acc. same w v then acc else acc @ [v]) vs acc = acc @ vs" for acc
  proof (induction vs arbitrary: acc)
    case (Cons v vs)
    have "\<not> (\<exists>w \<in> set acc. same w v)" using Cons.prems by (auto simp: distinct_under_def sorted_wrt_append)
    then show ?case using Cons.IH [of "acc @ [v]"] Cons.prems by simp
  qed simp
  from this [of "[]"] show "distinct_under same vs \<Longrightarrow> dedup same vs = vs" by (simp add: dedup_def)
qed

definition encode_pair :: "nat \<Rightarrow> pyval \<times> pyval \<Rightarrow> format_error + json" where
  "encode_pair depth = (\<lambda>(k, v). rbind (encode_value depth k) (\<lambda>jk. rbind (encode_value depth v) (\<lambda>jv. Inr (JArr [jk, jv]))))"

lemma decode_pairs_back:
  assumes "rmap (encode_pair (depth + 1)) kvs = Inr items" "distinct_under (fe_same env) (map fst (acc @ kvs))"
    "\<And>kv. kv \<in> set kvs \<Longrightarrow> hashable (fst kv)"
    "\<And>kv j. kv \<in> set kvs \<Longrightarrow> encode_value (depth + 1) (fst kv) = Inr j \<Longrightarrow> decode_value env (depth + 1) (canon j) = Inr (fst kv)"
    "\<And>kv j. kv \<in> set kvs \<Longrightarrow> encode_value (depth + 1) (snd kv) = Inr j \<Longrightarrow> decode_value env (depth + 1) (canon j) = Inr (snd kv)"
  shows "decode_pairs env depth (map canon items) acc = Inr (PDict (acc @ kvs))"
  using assms
proof (induction kvs arbitrary: items acc)
  case (Cons kv kvs)
  obtain k v where kv: "kv = (k, v)" by (cases kv)
  from Cons.prems(1) obtain jk jv items' where j: "encode_value (depth + 1) k = Inr jk" "encode_value (depth + 1) v = Inr jv"
    "rmap (encode_pair (depth + 1)) kvs = Inr items'" "items = JArr [jk, jv] # items'"
    by (auto simp: kv encode_pair_def rbind_Inr_iff)
  have new: "\<not> (\<exists>x \<in> set acc. fe_same env (fst x) k)"
    using Cons.prems(2) by (auto simp: kv distinct_under_def sorted_wrt_append)
  have "decode_pairs env depth (map canon items') (acc @ [kv]) = Inr (PDict ((acc @ [kv]) @ kvs))"
    by (rule Cons.IH) (use j(3) Cons.prems in auto)
  moreover have "decode_value env (depth + 1) (canon jk) = Inr k" "hashable k" "decode_value env (depth + 1) (canon jv) = Inr v"
    using Cons.prems(3-5) [of kv] j(1,2) by (simp_all add: kv)
  ultimately show ?case using new by (simp add: j(4) kv)
qed simp

lemma container_round_trip:
  assumes "rbind (check_depth depth UnsupportedValue) (\<lambda>_. rbind (check_container_size vs) (\<lambda>_.
      rbind (rmap (encode_value (depth + 1)) vs) (\<lambda>items. Inr (container kind items)))) = Inr j"
    and "\<And>v j. v \<in> set vs \<Longrightarrow> encode_value (depth + 1) v = Inr j \<Longrightarrow> decode_value env (depth + 1) (canon j) = Inr v"
    and "kind \<in> {''list'', ''tuple'', ''set'', ''frozenset''}" "make_container env kind vs = Inr v"
  shows "decode_value env depth (canon j) = Inr v"
proof -
  obtain items where i: "depth \<le> max_metadata_depth" "length vs \<le> max_container_items"
    "rmap (encode_value (depth + 1)) vs = Inr items" "j = container kind items"
    using assms(1) by (auto simp: rbind_Inr_iff check_depth_def check_container_size_def ensure_def split: if_splits)
  have "rmap (decode_value env (depth + 1)) (map canon items) = Inr vs" by (rule rmap_back [OF i(3)]) (rule assms(2))
  moreover have "length items \<le> max_container_items" using i(2) rmap_length [OF i(3)] by simp
  ultimately show ?thesis using assms(3,4) i(1) by (auto simp: i(4) decode_container)
qed

lemma stored_round_trip:
  assumes "encode_value depth v = Inr j" "wf_value env v" "at_least_1d v = v"
  shows "decode_value env depth (canon j) = Inr v"
  using assms
proof (induction depth v arbitrary: j rule: encode_value.induct)
  case (1 depth kvs)
  note m = encode_pair_def [of "depth + 1", symmetric]
  obtain items where i: "depth \<le> max_metadata_depth" "length kvs \<le> max_container_items"
    "rmap (encode_pair (depth + 1)) kvs = Inr items" "j = container ''dict'' items"
    using 1(3) unfolding encode_value.simps m by (auto simp: rbind_Inr_iff check_depth_def check_container_size_def ensure_def split: if_splits)
  have l: "length items \<le> max_container_items" using i(2) rmap_length [OF i(3)] by simp
  have s: "at_least_1d (fst kv) = fst kv" "at_least_1d (snd kv) = snd kv" if "kv \<in> set kvs" for kv
    using 1(4,5) that hashable_at_least_1d [of "fst kv"] by (cases kv; auto simp: map_same_iff dest!: bspec)+
  have "decode_pairs env depth (map canon items) [] = Inr (PDict ([] @ kvs))"
    using 1(1,2,4) i s by (intro decode_pairs_back) (auto simp: check_depth_def check_container_size_def ensure_def)
  then show ?case using i(1) l by (simp add: i(4) decode_container)
next
  case (2 depth vs)
  then show ?case by (intro container_round_trip [of depth vs "''list''" j])
      (auto simp: make_container_def map_same_iff check_depth_def check_container_size_def ensure_def rbind_Inr_iff split: if_splits)
next
  case (3 depth vs)
  then show ?case by (intro container_round_trip [of depth vs "''tuple''" j])
      (auto simp: make_container_def map_same_iff check_depth_def check_container_size_def ensure_def rbind_Inr_iff split: if_splits)
next
  case (4 depth vs)
  then show ?case by (intro container_round_trip [of depth vs "''set''" j])
      (auto simp: make_container_def hashable_at_least_1d list_all_iff dedup_distinct check_depth_def check_container_size_def ensure_def rbind_Inr_iff split: if_splits)
next
  case (5 depth vs)
  then show ?case by (intro container_round_trip [of depth vs "''frozenset''" j])
      (auto simp: make_container_def hashable_at_least_1d list_all_iff dedup_distinct check_depth_def check_container_size_def ensure_def rbind_Inr_iff split: if_splits)
qed (auto simp del: encode_leaf.simps decode_value.simps wf_value.simps simp: rbind_Inr_iff check_depth_def ensure_def split: if_splits intro!: leaf_round_trip)

text \<open>Any well-formed value is read back as the value it becomes when it is stored.\<close>

theorem value_round_trip:
  assumes "encode_value depth v = Inr j" "wf_value env v"
  shows "decode_value env depth (canon j) = Inr (at_least_1d v)"
  by (rule stored_round_trip) (use assms in \<open>simp_all add: encode_at_least_1d wf_at_least_1d\<close>)

text \<open>What the encoder produces can be written as JSON.\<close>

lemma leaf_dumpable: "wf_value env v \<Longrightarrow> encode_leaf v = Inr j \<Longrightarrow> dumpable j"
  by (cases v)
    (auto simp: tagged_def data_text_def ints_def list_all_iff encode_tensor_def plain_numpy_def rbind_Inr_iff split: if_splits)

lemma container_dumpable: "list_all dumpable items \<Longrightarrow> dumpable (container kind items)"
  by (simp add: container_def tagged_def)

lemma value_dumpable: "encode_value depth v = Inr j \<Longrightarrow> wf_value env v \<Longrightarrow> dumpable j"
proof (induction depth v arbitrary: j rule: encode_value.induct)
  case (1 depth kvs)
  note c = check_depth_def check_container_size_def ensure_def
  obtain items where i: "depth \<le> max_metadata_depth" "length kvs \<le> max_container_items"
    "rmap (encode_pair (depth + 1)) kvs = Inr items" "j = container ''dict'' items"
    using 1(3) unfolding encode_value.simps encode_pair_def [of "depth + 1", symmetric]
    by (auto simp: rbind_Inr_iff c split: if_splits)
  have "list_all dumpable items"
    by (rule rmap_all [OF i(3)]) (use 1(1,2,4) i(1,2) in \<open>fastforce simp: encode_pair_def rbind_Inr_iff c\<close>)
  then show ?case by (simp add: i(4) container_dumpable)
qed (auto simp del: encode_leaf.simps simp: rbind_Inr_iff check_depth_def check_container_size_def ensure_def
    split: if_splits intro!: container_dumpable elim!: rmap_all dest: leaf_dumpable [of env, rotated])

end
