(* ===== verification/State_Dict.thy ===== *)
theory State_Dict
  imports Format
begin

text \<open>
  Flattening of \<open>lm_resiliency/checkpointing/state_dict.py\<close>: the tensors of a nested state dictionary are taken out
  in traversal order, \<open>None\<close> is left in their place, and each is described by the keys and indices that lead to it.
  A skeleton is a tree (\<open>flatten\<close> and the decoder build every container anew), so \<open>_set_nested\<close>, which assigns in
  place, is the function that returns the changed value. What an index into anything but a dictionary, a list or a
  tuple does is not modelled: it is an error here.
\<close>

section \<open>Flattening\<close>

record flat_entry =
  te_path :: "pyval list"
  te_shape :: "int list"
  te_dtype :: string
  te_device :: string

record flat_metadata =
  fm_entries :: "flat_entry list"
  fm_skeleton :: pyval

definition entry_of :: "pyval list \<Rightarrow> ptensor \<Rightarrow> flat_entry" where
  "entry_of path t = \<lparr>te_path = path, te_shape = pt_shape t, te_dtype = pt_dtype t, te_device = pt_device t\<rparr>"

lemma size_enumerate [termination_simp]: "(i, v) \<in> set (enumerate n vs) \<Longrightarrow> size v < Suc (size_list size vs)"
  by (auto simp: enumerate_eq_zip less_Suc_eq_le dest!: set_zip_rightD intro: elem_size)

fun flatten_value :: "pyval list \<Rightarrow> pyval \<Rightarrow> (flat_entry \<times> ptensor) list \<times> pyval" where
  "flatten_value path (PTensor t) = ([(entry_of path t, t)], PNone)"
| "flatten_value path (PDict kvs) =
     (let rs = map (\<lambda>(k, v). (k, flatten_value (path @ [k]) v)) kvs in
      (concat (map (\<lambda>(_, r). fst r) rs), PDict (map (\<lambda>(k, r). (k, snd r)) rs)))"
| "flatten_value path (PList vs) =
     (let rs = map (\<lambda>(i, v). flatten_value (path @ [PInt (int i)]) v) (enumerate 0 vs) in
      (concat (map fst rs), PList (map snd rs)))"
| "flatten_value path (PTuple vs) =
     (let rs = map (\<lambda>(i, v). flatten_value (path @ [PInt (int i)]) v) (enumerate 0 vs) in
      (concat (map fst rs), PTuple (map snd rs)))"
| "flatten_value path v = ([], v)"

definition flatten :: "pyval \<Rightarrow> flat_metadata \<times> ptensor list" where
  "flatten sd = (let (found, skeleton) = flatten_value [] sd in
     (\<lparr>fm_entries = map fst found, fm_skeleton = skeleton\<rparr>, map snd found))"

section \<open>Putting the tensors back\<close>

datatype unflatten_error = CountMismatch | BadPath

fun dict_get :: "(pyval \<Rightarrow> pyval \<Rightarrow> bool) \<Rightarrow> (pyval \<times> pyval) list \<Rightarrow> pyval \<Rightarrow> pyval option" where
  "dict_get same [] k = None"
| "dict_get same ((k', v) # kvs) k = (if same k' k then Some v else dict_get same kvs k)"

fun dict_set :: "(pyval \<Rightarrow> pyval \<Rightarrow> bool) \<Rightarrow> (pyval \<times> pyval) list \<Rightarrow> pyval \<Rightarrow> pyval \<Rightarrow> (pyval \<times> pyval) list" where
  "dict_set same [] k w = [(k, w)]"
| "dict_set same ((k', v) # kvs) k w = (if same k' k then (k', w) # kvs else (k', v) # dict_set same kvs k w)"

text \<open>Negative indices count from the end; a \<open>bool\<close> is an index too.\<close>

definition list_index :: "pyval \<Rightarrow> nat \<Rightarrow> nat option" where
  "list_index key n =
     (case (case key of PInt i \<Rightarrow> Some i | PBool b \<Rightarrow> Some (of_bool b) | _ \<Rightarrow> None) of
        Some i \<Rightarrow> if 0 \<le> i \<and> i < int n then Some (nat i) else if i < 0 \<and> - int n \<le> i then Some (nat (i + int n)) else None
      | None \<Rightarrow> None)"

definition child :: "format_env \<Rightarrow> pyval \<Rightarrow> pyval \<Rightarrow> pyval option" where
  "child env obj key =
     (case obj of
        PDict kvs \<Rightarrow> if hashable key then dict_get (fe_same env) kvs key else None
      | PList vs \<Rightarrow> map_option (\<lambda>i. vs ! i) (list_index key (length vs))
      | PTuple vs \<Rightarrow> map_option (\<lambda>i. vs ! i) (list_index key (length vs))
      | _ \<Rightarrow> None)"

text \<open>The container once what was found under a key has changed.\<close>

definition with_child :: "format_env \<Rightarrow> pyval \<Rightarrow> pyval \<Rightarrow> pyval \<Rightarrow> pyval" where
  "with_child env obj key w =
     (case obj of
        PDict kvs \<Rightarrow> PDict (dict_set (fe_same env) kvs key w)
      | PList vs \<Rightarrow> (case list_index key (length vs) of Some i \<Rightarrow> PList (vs[i := w]) | None \<Rightarrow> obj)
      | PTuple vs \<Rightarrow> (case list_index key (length vs) of Some i \<Rightarrow> PTuple (vs[i := w]) | None \<Rightarrow> obj)
      | _ \<Rightarrow> obj)"

definition assign :: "format_env \<Rightarrow> pyval \<Rightarrow> pyval \<Rightarrow> pyval \<Rightarrow> unflatten_error + pyval" where
  "assign env obj key w =
     (case obj of
        PDict kvs \<Rightarrow> if hashable key then Inr (with_child env obj key w) else Inl BadPath
      | PList vs \<Rightarrow> if list_index key (length vs) \<noteq> None then Inr (with_child env obj key w) else Inl BadPath
      | _ \<Rightarrow> Inl BadPath)"

fun set_nested :: "format_env \<Rightarrow> pyval \<Rightarrow> pyval list \<Rightarrow> pyval \<Rightarrow> unflatten_error + pyval" where
  "set_nested env obj [] w = Inl BadPath"
| "set_nested env obj [key] w = assign env obj key w"
| "set_nested env obj (key # rest) w =
     (case child env obj key of
        None \<Rightarrow> Inl BadPath
      | Some c \<Rightarrow> rbind (set_nested env c rest w) (\<lambda>c'. Inr (with_child env obj key c')))"

fun set_all :: "format_env \<Rightarrow> pyval \<Rightarrow> (pyval list \<times> ptensor) list \<Rightarrow> unflatten_error + pyval" where
  "set_all env obj [] = Inr obj"
| "set_all env obj ((path, t) # rest) = rbind (set_nested env obj path (PTensor t)) (\<lambda>obj'. set_all env obj' rest)"

definition unflatten :: "format_env \<Rightarrow> flat_metadata \<Rightarrow> ptensor list \<Rightarrow> unflatten_error + pyval" where
  "unflatten env m ts =
     (if length ts \<noteq> length (fm_entries m) then Inl CountMismatch
      else set_all env (fm_skeleton m) (zip (map te_path (fm_entries m)) ts))"

section \<open>Paths relative to the value they are in\<close>

definition prefixed :: "pyval list \<Rightarrow> (flat_entry \<times> ptensor) list \<Rightarrow> (flat_entry \<times> ptensor) list" where
  "prefixed p = map (\<lambda>(e, t). (e\<lparr>te_path := p @ te_path e\<rparr>, t))"

lemma prefixed_simps [simp]:
  "prefixed p [] = []" "prefixed p (xs @ ys) = prefixed p xs @ prefixed p ys"
  "prefixed p (prefixed q xs) = prefixed (p @ q) xs" "prefixed p (concat xss) = concat (map (prefixed p) xss)"
  by (auto simp: prefixed_def map_concat)

lemma flatten_prefix: "flatten_value (p @ q) v = (prefixed p (fst (flatten_value q v)), snd (flatten_value q v))"
proof (induction q v rule: flatten_value.induct)
  case (2 path kvs)
  then show ?case by (auto simp: comp_def split_beta Let_def intro!: arg_cong [where f = concat])
next
  case (3 path vs)
  then show ?case by (auto simp: comp_def split_beta Let_def intro!: arg_cong [where f = concat] dest: in_set_enumerate_eq [THEN iffD1])
next
  case (4 path vs)
  then show ?case by (auto simp: comp_def split_beta Let_def intro!: arg_cong [where f = concat])
qed (simp_all add: prefixed_def entry_of_def)

lemma flatten_at: "flatten_value [k] v = (prefixed [k] (fst (flatten_value [] v)), snd (flatten_value [] v))"
  using flatten_prefix [of "[k]" "[]" v] by simp

text \<open>What a state dictionary becomes when it is stored holds the same tensors at the same places.\<close>

lemma flatten_at_least_1d: "flatten_value p (at_least_1d v) = (fst (flatten_value p v), at_least_1d (snd (flatten_value p v)))"
proof (induction p v rule: flatten_value.induct)
  case (2 path kvs)
  then show ?case by (auto simp: comp_def split_beta Let_def intro!: arg_cong [where f = concat])
next
  case (3 path vs)
  have "map (\<lambda>(i, v). flatten_value (path @ [PInt (int i)]) v) (enumerate n (map at_least_1d vs)) =
      map (\<lambda>(i, v). (fst (flatten_value (path @ [PInt (int i)]) v), at_least_1d (snd (flatten_value (path @ [PInt (int i)]) v)))) (enumerate n vs)"
    if "\<And>i v. (i, v) \<in> set (enumerate n vs) \<Longrightarrow> flatten_value (path @ [PInt (int i)]) (at_least_1d v) =
      (fst (flatten_value (path @ [PInt (int i)]) v), at_least_1d (snd (flatten_value (path @ [PInt (int i)]) v)))" for n
    using that by (induction vs arbitrary: n) auto
  from this [of 0] 3 show ?case by (simp add: comp_def split_beta Let_def)
next
  case (4 path vs)
  have "map (\<lambda>(i, v). flatten_value (path @ [PInt (int i)]) v) (enumerate n (map at_least_1d vs)) =
      map (\<lambda>(i, v). (fst (flatten_value (path @ [PInt (int i)]) v), at_least_1d (snd (flatten_value (path @ [PInt (int i)]) v)))) (enumerate n vs)"
    if "\<And>i v. (i, v) \<in> set (enumerate n vs) \<Longrightarrow> flatten_value (path @ [PInt (int i)]) (at_least_1d v) =
      (fst (flatten_value (path @ [PInt (int i)]) v), at_least_1d (snd (flatten_value (path @ [PInt (int i)]) v)))" for n
    using that by (induction vs arbitrary: n) auto
  from this [of 0] 4 show ?case by (simp add: comp_def split_beta Let_def)
qed simp_all

section \<open>Flattening loses nothing\<close>

text \<open>A tensor directly inside a tuple has no place it can be assigned to.\<close>

definition is_tensor :: "pyval \<Rightarrow> bool" where
  "is_tensor v = (case v of PTensor _ \<Rightarrow> True | _ \<Rightarrow> False)"

fun savable :: "pyval \<Rightarrow> bool" where
  "savable (PDict kvs) = (\<forall>(k, v) \<in> set kvs. savable v)"
| "savable (PList vs) = (\<forall>v \<in> set vs. savable v)"
| "savable (PTuple vs) = (\<forall>v \<in> set vs. savable v \<and> \<not> is_tensor v)"
| "savable _ = True"

lemma savable_at_least_1d: "savable (at_least_1d v) = savable v"
proof -
  have t: "is_tensor (at_least_1d w) = is_tensor w" for w by (cases w) (simp_all add: is_tensor_def)
  show ?thesis by (induction v rule: savable.induct) (auto simp: t)
qed

fun plain_key :: "pyval \<Rightarrow> bool" where
  "plain_key (PStr _) = True"
| "plain_key (PInt _) = True"
| "plain_key _ = False"

definition plain_keys :: "format_env \<Rightarrow> bool" where
  "plain_keys env \<longleftrightarrow> (\<forall>s. fe_same env (PStr s) (PStr s)) \<and> (\<forall>i. fe_same env (PInt i) (PInt i))"

lemma plain_key_same: "plain_keys env \<Longrightarrow> plain_key k \<Longrightarrow> fe_same env k k \<and> hashable k"
  by (cases k) (auto simp: plain_keys_def)

lemma dict_at:
  assumes "distinct_under same (map fst (pre @ (k, c) # post))" "same k k"
  shows "dict_get same (pre @ (k, c) # post) k = Some c"
    and "dict_set same (pre @ (k, c) # post) k w = pre @ (k, w) # post"
  using assms by (induction pre) (auto simp: distinct_under_def)

text \<open>Assignment of several tensors, at paths that may be empty.\<close>

fun put_all :: "format_env \<Rightarrow> pyval \<Rightarrow> (flat_entry \<times> ptensor) list \<Rightarrow> unflatten_error + pyval" where
  "put_all env obj [] = Inr obj"
| "put_all env obj ((e, t) # rest) =
     rbind (if te_path e = [] then Inr (PTensor t) else set_nested env obj (te_path e) (PTensor t)) (\<lambda>obj'. put_all env obj' rest)"

lemma put_all_append: "put_all env obj (xs @ ys) = rbind (put_all env obj xs) (\<lambda>obj'. put_all env obj' ys)"
  by (induction xs arbitrary: obj) (auto simp: rbind_rbind)

lemma set_all_put_all:
  "list_all (\<lambda>(e, t). te_path e \<noteq> []) xs \<Longrightarrow> set_all env obj (map (\<lambda>(e, t). (te_path e, t)) xs) = put_all env obj xs"
  by (induction xs arbitrary: obj) (auto intro!: arg_cong2 [where f = rbind])

lemma set_nested_Cons:
  "set_nested env obj (key # p) w =
    (if p = [] then assign env obj key w
     else case child env obj key of None \<Rightarrow> Inl BadPath | Some c \<Rightarrow> rbind (set_nested env c p w) (\<lambda>c'. Inr (with_child env obj key c')))"
  by (cases p) auto

text \<open>What is assigned below a key changes only what that key holds.\<close>

lemma put_all_below:
  assumes "put_all env c xs = Inr c'"
    and "\<And>c. child env (obj c) key = Some c" "\<And>c w. with_child env (obj c) key w = obj w"
    and "\<And>c w. list_all (\<lambda>(e, t). te_path e \<noteq> []) xs \<or> assign env (obj c) key w = Inr (obj w)"
  shows "put_all env (obj c) (prefixed [key] xs) = Inr (obj c')"
  using assms(1,4)
proof (induction xs arbitrary: c)
  case (Cons x xs)
  obtain e t where x: "x = (e, t)" by (cases x)
  obtain d where d: "(if te_path e = [] then Inr (PTensor t) else set_nested env c (te_path e) (PTensor t)) = Inr d" "put_all env d xs = Inr c'"
    using Cons.prems(1) by (auto simp: x rbind_Inr_iff simp del: set_nested.simps)
  have "set_nested env (obj c) (key # te_path e) (PTensor t) = Inr (obj d)"
    using d(1) assms(2,3) Cons.prems(2) by (auto simp: x set_nested_Cons simp del: set_nested.simps split: if_splits)
  moreover have "put_all env (obj d) (prefixed [key] xs) = Inr (obj c')"
    by (rule Cons.IH [OF d(2)]) (use Cons.prems(2) in auto)
  ultimately show ?case by (simp add: x prefixed_def del: set_nested.simps)
qed (simp add: prefixed_def)

abbreviation found :: "pyval \<Rightarrow> (flat_entry \<times> ptensor) list" where "found v \<equiv> fst (flatten_value [] v)"
abbreviation skeleton :: "pyval \<Rightarrow> pyval" where "skeleton v \<equiv> snd (flatten_value [] v)"

lemma flatten_containers:
  "flatten_value [] (PDict kvs) =
    (concat (map (\<lambda>(k, v). prefixed [k] (found v)) kvs), PDict (map (\<lambda>(k, v). (k, skeleton v)) kvs))"
  "flatten_value [] (PList vs) =
    (concat (map (\<lambda>(i, v). prefixed [PInt (int i)] (found v)) (enumerate 0 vs)), PList (map skeleton vs))"
  "flatten_value [] (PTuple vs) =
    (concat (map (\<lambda>(i, v). prefixed [PInt (int i)] (found v)) (enumerate 0 vs)), PTuple (map skeleton vs))"
proof -
  have m: "map snd (map (\<lambda>(i, v). flatten_value [PInt (int i)] v) (enumerate n vs)) = map skeleton vs" for n vs
    by (induction vs arbitrary: n) (simp_all add: flatten_at)
  show "flatten_value [] (PDict kvs) =
    (concat (map (\<lambda>(k, v). prefixed [k] (found v)) kvs), PDict (map (\<lambda>(k, v). (k, skeleton v)) kvs))"
    by (simp add: flatten_at comp_def case_prod_unfold)
  show "flatten_value [] (PList vs) =
    (concat (map (\<lambda>(i, v). prefixed [PInt (int i)] (found v)) (enumerate 0 vs)), PList (map skeleton vs))"
    "flatten_value [] (PTuple vs) =
    (concat (map (\<lambda>(i, v). prefixed [PInt (int i)] (found v)) (enumerate 0 vs)), PTuple (map skeleton vs))"
    using m [of 0 vs] by (simp_all add: Let_def) (simp_all add: flatten_at comp_def case_prod_unfold)
qed

lemma prefixed_path: "x \<in> set (prefixed p xs) \<Longrightarrow> \<exists>(e, t) \<in> set xs. x = (e\<lparr>te_path := p @ te_path e\<rparr>, t)"
  by (auto simp: prefixed_def)

lemma found_nonempty: "\<not> is_tensor v \<Longrightarrow> list_all (\<lambda>(e, t). te_path e \<noteq> []) (found v)"
  by (cases v) (auto simp: is_tensor_def flatten_containers list_all_iff prefixed_def simp del: flatten_value.simps(2-4))

lemma put_all_dict:
  assumes "distinct_under (fe_same env) (map fst (pre @ kvs))"
    and "\<And>k v. (k, v) \<in> set kvs \<Longrightarrow> put_all env (skeleton v) (found v) = Inr v"
    and "\<And>k v. (k, v) \<in> set kvs \<Longrightarrow> found v \<noteq> [] \<Longrightarrow> fe_same env k k \<and> hashable k"
  shows "put_all env (PDict (pre @ map (\<lambda>(k, v). (k, skeleton v)) kvs)) (concat (map (\<lambda>(k, v). prefixed [k] (found v)) kvs)) =
    Inr (PDict (pre @ kvs))"
  using assms
proof (induction kvs arbitrary: pre)
  case (Cons kv kvs)
  obtain k v where kv: "kv = (k, v)" by (cases kv)
  define obj where "obj c = PDict (pre @ (k, c) # map (\<lambda>(k, v). (k, skeleton v)) kvs)" for c
  have d: "distinct_under (fe_same env) (map fst (pre @ (k, c) # map (\<lambda>(k, v). (k, skeleton v)) kvs))" for c
    using Cons.prems(1) by (simp add: kv comp_def split_beta)
  have "put_all env (obj (skeleton v)) (prefixed [k] (found v)) = Inr (obj v)"
  proof (cases "found v = []")
    case True
    then show ?thesis using Cons.prems(2) [of k v] by (simp add: kv)
  next
    case False
    then have k: "fe_same env k k" "hashable k" using Cons.prems(3) [of k v] by (simp_all add: kv)
    show ?thesis
      by (rule put_all_below) (use Cons.prems(2) [of k v] k dict_at [OF d k(1)] in \<open>auto simp: kv obj_def child_def with_child_def assign_def\<close>)
  qed
  moreover have "put_all env (PDict ((pre @ [kv]) @ map (\<lambda>(k, v). (k, skeleton v)) kvs)) (concat (map (\<lambda>(k, v). prefixed [k] (found v)) kvs)) =
      Inr (PDict ((pre @ [kv]) @ kvs))"
    by (rule Cons.IH) (use Cons.prems in auto)
  ultimately show ?case by (simp add: put_all_append kv obj_def)
qed simp

lemma list_index_nth: "list_index (PInt (int i)) n = (if i < n then Some i else None)"
  by (simp add: list_index_def)

lemma put_all_seq:
  assumes "con = PList \<or> con = PTuple \<and> (\<forall>v \<in> set vs. \<not> is_tensor v)"
    and "\<And>v. v \<in> set vs \<Longrightarrow> put_all env (skeleton v) (found v) = Inr v"
  shows "put_all env (con (pre @ map skeleton vs)) (concat (map (\<lambda>(i, v). prefixed [PInt (int i)] (found v)) (enumerate (length pre) vs))) =
    Inr (con (pre @ vs))"
  using assms
proof (induction vs arbitrary: pre)
  case (Cons v vs)
  define obj where "obj c = con (pre @ c # map skeleton vs)" for c
  have "put_all env (obj (skeleton v)) (prefixed [PInt (int (length pre))] (found v)) = Inr (obj v)"
    by (rule put_all_below)
      (use Cons.prems found_nonempty [of v] in \<open>auto simp: obj_def child_def with_child_def assign_def list_index_nth\<close>)
  moreover have "put_all env (con ((pre @ [v]) @ map skeleton vs)) (concat (map (\<lambda>(i, v). prefixed [PInt (int i)] (found v)) (enumerate (length (pre @ [v])) vs))) =
      Inr (con ((pre @ [v]) @ vs))"
    by (rule Cons.IH) (use Cons.prems in auto)
  ultimately show ?case by (simp add: put_all_append obj_def)
qed simp

lemma prefixed_plain:
  "list_all (\<lambda>(e, t). list_all plain_key (te_path e)) (prefixed [k] xs) \<longleftrightarrow>
    (xs \<noteq> [] \<longrightarrow> plain_key k) \<and> list_all (\<lambda>(e, t). list_all plain_key (te_path e)) xs"
  by (induction xs) (auto simp: prefixed_def)

definition plain_paths :: "(flat_entry \<times> ptensor) list \<Rightarrow> bool" where
  "plain_paths xs = list_all (\<lambda>(e, t). list_all plain_key (te_path e)) xs"

lemma plain_paths_prefixed: "plain_paths (prefixed [k] xs) \<longleftrightarrow> (xs \<noteq> [] \<longrightarrow> plain_key k) \<and> plain_paths xs"
  by (simp only: plain_paths_def prefixed_plain)

lemma plain_paths_concat: "plain_paths (concat xss) \<longleftrightarrow> (\<forall>xs \<in> set xss. plain_paths xs)"
  by (simp add: plain_paths_def list_all_concat)

lemma plain_paths_simps [simp]: "plain_paths []" "plain_paths (xs @ ys) \<longleftrightarrow> plain_paths xs \<and> plain_paths ys"
  by (simp_all add: plain_paths_def)

lemma plain_paths_enumerate:
  "plain_paths (concat (map (\<lambda>(i, v). prefixed [PInt (int i)] (found v)) (enumerate n vs))) \<longleftrightarrow> (\<forall>v \<in> set vs. plain_paths (found v))"
  by (induction vs arbitrary: n) (auto simp: plain_paths_prefixed)

lemma flatten_put_all:
  assumes "wf_value env v" "savable v" "plain_keys env" "plain_paths (found v)"
  shows "put_all env (skeleton v) (found v) = Inr v"
  using assms(1,2,4)
proof (induction v)
  case (PDict kvs)
  have "put_all env (PDict ([] @ map (\<lambda>(k, v). (k, skeleton v)) kvs)) (concat (map (\<lambda>(k, v). prefixed [k] (found v)) kvs)) =
    Inr (PDict ([] @ kvs))"
    by (rule put_all_dict)
      (use PDict plain_key_same [OF assms(3)] in \<open>fastforce simp: flatten_containers plain_paths_concat plain_paths_prefixed simp del: flatten_value.simps(2-4)\<close>)+
  then show ?case by (simp add: flatten_containers del: flatten_value.simps(2-4))
next
  case (PList vs)
  have "put_all env (PList ([] @ map skeleton vs)) (concat (map (\<lambda>(i, v). prefixed [PInt (int i)] (found v)) (enumerate (length ([] :: pyval list)) vs))) =
    Inr (PList ([] @ vs))"
    by (rule put_all_seq [where con = PList and pre = "[]"]) (use PList in \<open>auto simp: flatten_containers plain_paths_enumerate simp del: flatten_value.simps(2-4)\<close>)
  then show ?case by (simp add: flatten_containers del: flatten_value.simps(2-4))
next
  case (PTuple vs)
  have "put_all env (PTuple ([] @ map skeleton vs)) (concat (map (\<lambda>(i, v). prefixed [PInt (int i)] (found v)) (enumerate (length ([] :: pyval list)) vs))) =
    Inr (PTuple ([] @ vs))"
    by (rule put_all_seq [where con = PTuple and pre = "[]"]) (use PTuple in \<open>auto simp: flatten_containers plain_paths_enumerate simp del: flatten_value.simps(2-4)\<close>)
  then show ?case by (simp add: flatten_containers del: flatten_value.simps(2-4))
qed (simp_all add: entry_of_def)

theorem unflatten_flatten:
  assumes "wf_value env (PDict kvs)" "savable (PDict kvs)" "plain_keys env" "plain_paths (found (PDict kvs))"
    and "flatten (PDict kvs) = (m, ts)"
  shows "unflatten env m ts = Inr (PDict kvs)"
proof -
  have m: "m = \<lparr>fm_entries = map fst (found (PDict kvs)), fm_skeleton = skeleton (PDict kvs)\<rparr>" "ts = map snd (found (PDict kvs))"
    using assms(5) by (auto simp: flatten_def split_beta simp del: flatten_value.simps)
  have "zip (map te_path (map fst xs)) (map snd xs) = map (\<lambda>(e, t). (te_path e, t)) xs" for xs :: "(flat_entry \<times> ptensor) list"
    by (induction xs) auto
  then show ?thesis
    using flatten_put_all [OF assms(1-4)] found_nonempty [of "PDict kvs"]
    by (simp add: m unflatten_def set_all_put_all is_tensor_def del: flatten_value.simps)
qed

end
