(* ===== verification/Metadata.thy ===== *)
theory Metadata
  imports State_Dict
begin

text \<open>
  The reconstruction metadata of a node-local checkpoint as text (\<open>encode_metadata\<close>, \<open>decode_metadata\<close> of
  \<open>lm_resiliency/checkpointing/_disk_format.py\<close>) and the payload around it (\<open>validate_payload\<close>, with
  \<open>_checkpoint_payload\<close> of \<open>disk.py\<close>).
\<close>

section \<open>Encoding\<close>

definition encode_path_key :: "pyval \<Rightarrow> format_error + json" where
  "encode_path_key k = (case k of PStr s \<Rightarrow> Inr (JStr s) | PInt i \<Rightarrow> Inr (JInt i) | _ \<Rightarrow> Inl UnsupportedValue)"

definition encode_entry :: "flat_entry \<Rightarrow> format_error + json" where
  "encode_entry e =
     rbind (rmap encode_path_key (te_path e)) (\<lambda>path.
     if list_ex (\<lambda>x. x < 0) (te_shape e) then Inl UnsupportedValue
     else Inr (JObj [(''key_path'', JArr path), (''shape'', ints (te_shape e)), (''dtype'', JStr (te_dtype e)), (''device'', JStr (te_device e))]))"

definition document :: "json list \<Rightarrow> json \<Rightarrow> json" where
  "document entries data = JObj [(''schema_version'', JInt 1), (''tensor_entries'', JArr entries), (''non_tensor_data'', data)]"

definition encode_metadata :: "flat_metadata \<Rightarrow> format_error + string" where
  "encode_metadata m =
     rbind (rmap encode_entry (fm_entries m)) (\<lambda>entries.
     rbind (encode_value 0 (fm_skeleton m)) (\<lambda>data.
     let encoded = dumps (document entries data) in
     if max_metadata_bytes < length encoded then Inl UnsupportedValue else Inr encoded))"

section \<open>Decoding\<close>

text \<open>The length of the UTF-8 encoding; the model's characters are the first 256 code points.\<close>

definition utf8_length :: "string \<Rightarrow> nat" where
  "utf8_length s = sum_list (map (\<lambda>c. if (of_char c :: nat) < 128 then 1 else 2) s)"

definition decode_path_key :: "json \<Rightarrow> format_error + pyval" where
  "decode_path_key j = (case j of JStr s \<Rightarrow> Inr (PStr s) | JInt i \<Rightarrow> Inr (PInt i) | _ \<Rightarrow> Inl BadFormat)"

definition decode_path :: "json \<Rightarrow> format_error + pyval list" where
  "decode_path j = (case j of JArr js \<Rightarrow> rmap decode_path_key js | _ \<Rightarrow> Inl BadFormat)"

definition decode_entry :: "format_env \<Rightarrow> pyval list set \<Rightarrow> json \<Rightarrow> format_error + flat_entry" where
  "decode_entry env seen j =
     (case j of
        JObj kvs \<Rightarrow>
          rbind (exact_keys kvs [''key_path'', ''shape'', ''dtype'', ''device'']) (\<lambda>_.
          rbind (decode_path (fld kvs ''key_path'')) (\<lambda>path.
          if path \<in> seen then Inl BadFormat
          else rbind (decode_shape (fld kvs ''shape'')) (\<lambda>shape.
            rbind (decode_device env (fld kvs ''device'')) (\<lambda>device.
            rbind (decode_dtype env (fld kvs ''dtype'')) (\<lambda>dtype.
            Inr \<lparr>te_path = path, te_shape = shape, te_dtype = dtype, te_device = device\<rparr>)))))
      | _ \<Rightarrow> Inl BadFormat)"

fun decode_entries :: "format_env \<Rightarrow> pyval list set \<Rightarrow> json list \<Rightarrow> format_error + flat_entry list" where
  "decode_entries env seen [] = Inr []"
| "decode_entries env seen (j # js) =
     rbind (decode_entry env seen j) (\<lambda>e.
     rbind (decode_entries env (insert (te_path e) seen) js) (\<lambda>es. Inr (e # es)))"

text \<open>\<open>_validate_tensor_paths\<close>: the path is followed from \<open>current\<close>, and ends at a placeholder.\<close>

fun check_path :: "format_env \<Rightarrow> pyval \<Rightarrow> pyval list \<Rightarrow> format_error + unit" where
  "check_path env current [] = Inl BadFormat"
| "check_path env current (key # rest) =
     rbind (case current of
              PDict kvs \<Rightarrow> (case dict_get (fe_same env) kvs key of Some c \<Rightarrow> Inr c | None \<Rightarrow> Inl BadFormat)
            | PList vs \<Rightarrow> (case key of PInt i \<Rightarrow> if 0 \<le> i \<and> i < int (length vs) then Inr (vs ! nat i) else Inl BadFormat | _ \<Rightarrow> Inl BadFormat)
            | PTuple vs \<Rightarrow> (case key of PInt i \<Rightarrow> if 0 \<le> i \<and> i < int (length vs) \<and> rest \<noteq> [] then Inr (vs ! nat i) else Inl BadFormat
                                     | _ \<Rightarrow> Inl BadFormat)
            | _ \<Rightarrow> Inl BadFormat)
       (\<lambda>c. if rest = [] then ensure (c = PNone) BadFormat else check_path env c rest)"

definition validate_tensor_paths :: "format_env \<Rightarrow> pyval \<Rightarrow> flat_entry list \<Rightarrow> format_error + unit" where
  "validate_tensor_paths env sk entries = rbind (rmap (\<lambda>e. check_path env sk (te_path e)) entries) (\<lambda>_. Inr ())"

text \<open>\<open>!=\<close> between a decoded JSON value and a Python one; an array or an object equals no number.\<close>

definition json_same :: "format_env \<Rightarrow> json \<Rightarrow> pyval \<Rightarrow> bool" where
  "json_same env j v =
     (case j of
        JNull \<Rightarrow> fe_same env PNone v
      | JBool b \<Rightarrow> fe_same env (PBool b) v
      | JInt i \<Rightarrow> fe_same env (PInt i) v
      | JFloat l \<Rightarrow> fe_same env (PFloat l) v
      | JStr s \<Rightarrow> fe_same env (PStr s) v
      | _ \<Rightarrow> False)"

definition is_dict :: "pyval \<Rightarrow> bool" where
  "is_dict v = (case v of PDict _ \<Rightarrow> True | _ \<Rightarrow> False)"

definition decode_metadata :: "format_env \<Rightarrow> string \<Rightarrow> format_error + flat_metadata" where
  "decode_metadata env encoded =
     (if max_metadata_bytes < utf8_length encoded then Inl BadFormat
      else case plain_loads encoded of
        Inr (JObj kvs) \<Rightarrow>
          rbind (exact_keys kvs [''schema_version'', ''tensor_entries'', ''non_tensor_data'']) (\<lambda>_.
          if \<not> json_same env (fld kvs ''schema_version'') (PInt 1) then Inl BadFormat
          else case fld kvs ''tensor_entries'' of
            JArr raw \<Rightarrow>
              rbind (check_container_size raw) (\<lambda>_.
              rbind (decode_entries env {} raw) (\<lambda>entries.
              rbind (decode_value env 0 (fld kvs ''non_tensor_data'')) (\<lambda>data.
              if \<not> is_dict data then Inl BadFormat
              else rbind (validate_tensor_paths env data entries) (\<lambda>_.
                Inr \<lparr>fm_entries = entries, fm_skeleton = data\<rparr>))))
          | _ \<Rightarrow> Inl BadFormat)
      | _ \<Rightarrow> Inl BadFormat)"

section \<open>What is accepted can be put back together\<close>

text \<open>A value that differs from a skeleton only by tensors in place of \<open>None\<close>.\<close>

inductive filled :: "pyval \<Rightarrow> pyval \<Rightarrow> bool" where
  same: "filled v v"
| slot: "filled PNone (PTensor t)"
| dict: "list_all2 (rel_prod (=) filled) kvs kvs' \<Longrightarrow> filled (PDict kvs) (PDict kvs')"
| list: "list_all2 filled vs ws \<Longrightarrow> filled (PList vs) (PList ws)"
| tuple: "list_all2 filled vs ws \<Longrightarrow> filled (PTuple vs) (PTuple ws)"

lemma filled_refl [simp]: "filled v v" "list_all2 filled vs vs" "list_all2 (rel_prod (=) filled) kvs kvs"
  by (simp_all add: filled.same list_all2_refl prod.rel_refl)

lemma filled_containers:
  "filled (PDict kvs) w \<longleftrightarrow> (\<exists>kvs'. w = PDict kvs' \<and> list_all2 (rel_prod (=) filled) kvs kvs')"
  "filled (PList vs) w \<longleftrightarrow> (\<exists>ws. w = PList ws \<and> list_all2 filled vs ws)"
  "filled (PTuple vs) w \<longleftrightarrow> (\<exists>ws. w = PTuple ws \<and> list_all2 filled vs ws)"
  by (auto elim: filled.cases intro: filled.intros)

lemma dict_filled:
  assumes "list_all2 (rel_prod (=) filled) kvs kvs'" "dict_get eq kvs key = Some c"
  obtains c' where "dict_get eq kvs' key = Some c'" "filled c c'"
    "\<forall>w. filled c w \<longrightarrow> list_all2 (rel_prod (=) filled) kvs (dict_set eq kvs' key w)"
  using assms
proof (induction kvs kvs' arbitrary: thesis rule: list_all2_induct)
  case (Cons kv kvs kv' kvs')
  then show ?case by (cases kv; cases kv') (fastforce split: if_splits)
qed simp

lemma check_path_settable:
  assumes "check_path env sk p = Inr ()" "filled sk cur" "list_all plain_key p"
  shows "\<exists>cur'. set_nested env cur p (PTensor t) = Inr cur' \<and> filled sk cur'"
  using assms
proof (induction p arbitrary: sk cur)
  case (Cons key rest)
  have h: "hashable key" using Cons.prems(3) by (cases key) auto
  have below: "\<exists>cur'. set_nested env cur (key # rest) (PTensor t) = Inr cur' \<and> filled sk cur'"
    if c: "child env cur key = Some c'" "filled c c'" "\<And>w. filled c w \<Longrightarrow> filled sk (with_child env cur key w)"
      "rest = [] \<Longrightarrow> assign env cur key (PTensor t) = Inr (with_child env cur key (PTensor t))"
      and v: "if rest = [] then c = PNone else check_path env c rest = Inr ()" for c c'
  proof (cases "rest = []")
    case False
    then obtain d where "set_nested env c' rest (PTensor t) = Inr d" "filled c d"
      using Cons.IH [of c c'] v c(2) Cons.prems(3) by auto
    then show ?thesis using False c by (simp add: set_nested_Cons del: set_nested.simps)
  qed (use c v filled.slot in auto)
  show ?case
  proof (cases sk)
    case (PDict kvs)
    then obtain c where c: "dict_get (fe_same env) kvs key = Some c" "if rest = [] then c = PNone else check_path env c rest = Inr ()"
      using Cons.prems(1) by (auto simp: rbind_Inr_iff split: option.splits if_splits)
    obtain kvs' where k: "cur = PDict kvs'" "list_all2 (rel_prod (=) filled) kvs kvs'"
      using Cons.prems(2) by (auto simp: PDict filled_containers)
    obtain c' where d: "dict_get (fe_same env) kvs' key = Some c'" "filled c c'"
      "\<forall>w. filled c w \<longrightarrow> list_all2 (rel_prod (=) filled) kvs (dict_set (fe_same env) kvs' key w)"
      using dict_filled [OF k(2) c(1)] .
    show ?thesis by (rule below [OF _ d(2) _ _ c(2)]) (use h d in \<open>auto simp: PDict k(1) child_def with_child_def assign_def filled_containers\<close>)
  next
    case (PList vs)
    then obtain i where i: "key = PInt (int i)" "i < length vs" "if rest = [] then vs ! i = PNone else check_path env (vs ! i) rest = Inr ()"
      using Cons.prems(1) by (auto simp: rbind_Inr_iff split: pyval.splits if_splits dest: zero_le_imp_eq_int)
    obtain ws where w: "cur = PList ws" "list_all2 filled vs ws" using Cons.prems(2) by (auto simp: PList filled_containers)
    show ?thesis
      by (rule below [of "ws ! i" "vs ! i"])
        (use i w list_all2_lengthD [OF w(2)] in \<open>auto simp: PList child_def with_child_def assign_def filled_containers list_index_nth
          list_all2_conv_all_nth nth_list_update\<close>)
  next
    case (PTuple vs)
    then obtain i where i: "key = PInt (int i)" "i < length vs" "rest \<noteq> []" "check_path env (vs ! i) rest = Inr ()"
      using Cons.prems(1) by (auto simp: rbind_Inr_iff split: pyval.splits if_splits dest: zero_le_imp_eq_int)
    obtain ws where w: "cur = PTuple ws" "list_all2 filled vs ws" using Cons.prems(2) by (auto simp: PTuple filled_containers)
    show ?thesis
      by (rule below [of "ws ! i" "vs ! i"])
        (use i w list_all2_lengthD [OF w(2)] in \<open>auto simp: PTuple child_def with_child_def filled_containers list_index_nth
          list_all2_conv_all_nth nth_list_update\<close>)
  qed (use Cons.prems(1) in auto)
qed simp

lemma decoded_paths: "decode_entries env seen js = Inr es \<Longrightarrow> list_all (\<lambda>e. list_all plain_key (te_path e)) es"
proof (induction js arbitrary: seen es)
  case (Cons j js)
  have "list_all plain_key ks" if "rmap decode_path_key js = Inr ks" for js ks
    by (rule rmap_all [OF that]) (auto simp: decode_path_key_def split: json.splits)
  then have "list_all plain_key (te_path e)" if "decode_entry env seen j = Inr e" for e
    using that by (auto simp: decode_entry_def decode_path_def rbind_Inr_iff split: json.splits if_splits)
  then show ?case using Cons by (auto simp: rbind_Inr_iff)
qed simp

lemma set_all_filled:
  assumes "list_all (\<lambda>(p, t). check_path env sk p = Inr () \<and> list_all plain_key p) xs" "filled sk cur"
  shows "\<exists>v. set_all env cur xs = Inr v \<and> filled sk v"
  using assms
proof (induction xs arbitrary: cur)
  case (Cons x xs)
  obtain p t where x: "x = (p, t)" by (cases x)
  obtain cur' where "set_nested env cur p (PTensor t) = Inr cur'" "filled sk cur'"
    using check_path_settable Cons.prems by (force simp: x)
  then show ?case using Cons by (simp add: x del: set_nested.simps)
qed simp

lemma accepted_metadata_unflattens:
  assumes "decode_metadata env encoded = Inr m" "length ts = length (fm_entries m)"
  shows "\<exists>v. unflatten env m ts = Inr v \<and> filled (fm_skeleton m) v"
proof -
  obtain raw us where d: "decode_entries env {} raw = Inr (fm_entries m)"
    "rmap (\<lambda>e. check_path env (fm_skeleton m) (te_path e)) (fm_entries m) = Inr us"
    using assms(1) by (auto simp: decode_metadata_def validate_tensor_paths_def rbind_Inr_iff split: sum.splits json.splits if_splits)
  have "list_all (\<lambda>e. check_path env (fm_skeleton m) (te_path e) = Inr () \<and> list_all plain_key (te_path e)) (fm_entries m)"
    using decoded_paths [OF d(1)] rmap_Inr_iff [THEN iffD1, OF d(2)] by (auto simp: list_all_iff list_all2_conv_all_nth in_set_conv_nth)
  then have "list_all (\<lambda>(p, t). check_path env (fm_skeleton m) p = Inr () \<and> list_all plain_key p) (zip (map te_path (fm_entries m)) ts)"
    by (fastforce simp: list_all_iff dest: set_zip_leftD)
  from set_all_filled [OF this filled_refl(1)] show ?thesis using assms(2) by (simp add: unflatten_def)
qed

section \<open>What was saved comes back\<close>

lemma canon_fields:
  assumes "distinct (map fst kvs)"
  obtains kvs' where "canon (JObj kvs) = JObj kvs'" "map_of kvs' = map_of (map (\<lambda>(k, v). (k, canon v)) kvs)"
    "set (map fst kvs') = set (map fst kvs)"
proof -
  let ?kvs = "map (\<lambda>(k, v). (k, canon v)) kvs"
  have "distinct (map fst ?kvs)" using assms by (simp add: comp_def split_beta)
  from sort_key_map_of [OF this] show thesis
    by (intro that [of "sort_key fst ?kvs"]) (auto simp: fun_eq_iff image_image split_beta)
qed

lemma keys_plain: "rmap encode_path_key p = Inr js \<Longrightarrow> list_all plain_key p"
  by (induction p arbitrary: js) (auto simp: rbind_Inr_iff encode_path_key_def split: pyval.splits)

lemma path_key_back: "encode_path_key k = Inr j \<Longrightarrow> decode_path_key (canon j) = Inr k \<and> dumpable j"
  by (auto simp: encode_path_key_def decode_path_key_def split: pyval.splits)

lemma decode_path_back: "rmap encode_path_key p = Inr js \<Longrightarrow> decode_path (canon (JArr js)) = Inr p"
    "rmap encode_path_key p = Inr js \<Longrightarrow> list_all dumpable js"
  using path_key_back by (auto simp: decode_path_def intro!: rmap_back elim!: rmap_all)

definition wf_entry :: "format_env \<Rightarrow> flat_entry \<Rightarrow> bool" where
  "wf_entry env e \<longleftrightarrow> wf_dtype env (te_dtype e) \<and> fe_device env (te_device e) = Some (te_device e)"

lemma entry_round_trip:
  assumes "encode_entry e = Inr j" "wf_entry env e"
  shows "decode_entry env seen (canon j) = (if te_path e \<in> seen then Inl BadFormat else Inr e)" "dumpable j" "list_all plain_key (te_path e)"
proof -
  obtain path where p: "rmap encode_path_key (te_path e) = Inr path" "list_all (\<lambda>x. 0 \<le> x) (te_shape e)"
    and j: "j = JObj [(''key_path'', JArr path), (''shape'', ints (te_shape e)), (''dtype'', JStr (te_dtype e)), (''device'', JStr (te_device e))]"
      (is "j = JObj ?fs")
    using assms(1) by (auto simp: encode_entry_def rbind_Inr_iff list_ex_iff list_all_iff not_less split: if_splits)
  have d: "distinct (map fst ?fs)" by simp
  obtain kvs where k: "canon (JObj ?fs) = JObj kvs" "map_of kvs = map_of (map (\<lambda>(k, v). (k, canon v)) ?fs)"
    "set (map fst kvs) = set (map fst ?fs)"
    using canon_fields [OF d] .
  have f: "fld kvs ''key_path'' = canon (JArr path)" "fld kvs ''shape'' = canon (ints (te_shape e))"
    "fld kvs ''dtype'' = JStr (te_dtype e)" "fld kvs ''device'' = JStr (te_device e)"
    unfolding fld_def k(2) by (simp_all del: canon.simps(1))
  have "exact_keys kvs [''key_path'', ''shape'', ''dtype'', ''device''] = Inr ()" unfolding exact_keys_def k(3) by simp
  then show "decode_entry env seen (canon j) = (if te_path e \<in> seen then Inl BadFormat else Inr e)"
    using decode_path_back [OF p(1)] decode_ints [OF p(2)] assms(2)
    by (simp add: decode_entry_def j k(1) f decode_device_def decode_dtype_def wf_entry_def wf_dtype_def del: canon.simps)
  show "dumpable j" "list_all plain_key (te_path e)"
    using decode_path_back [OF p(1)] keys_plain [OF p(1)] by (auto simp: j ints_def list_all_iff)
qed

lemma entries_round_trip:
  assumes "rmap encode_entry es = Inr js" "list_all (wf_entry env) es" "distinct (map te_path es)" "te_path ` set es \<inter> seen = {}"
  shows "decode_entries env seen (map canon js) = Inr es"
  using assms
proof (induction es arbitrary: js seen)
  case (Cons e es)
  obtain j js' where j: "encode_entry e = Inr j" "rmap encode_entry es = Inr js'" "js = j # js'"
    using Cons.prems(1) by (auto simp: rbind_Inr_iff)
  have "decode_entries env (insert (te_path e) seen) (map canon js') = Inr es"
    by (rule Cons.IH [OF j(2)]) (use Cons.prems in auto)
  then show ?case using entry_round_trip(1) [OF j(1), of env seen] Cons.prems by (simp add: j(3))
qed simp

lemma decode_encoded:
  assumes "encode_metadata m = Inr encoded" "list_all (wf_entry env) (fm_entries m)" "distinct (map te_path (fm_entries m))"
    "wf_value env (fm_skeleton m)" "is_dict (fm_skeleton m)" "length (fm_entries m) \<le> max_container_items" "plain_keys env"
  shows "decode_metadata env encoded = rbind (validate_tensor_paths env (at_least_1d (fm_skeleton m)) (fm_entries m))
    (\<lambda>_. Inr (m\<lparr>fm_skeleton := at_least_1d (fm_skeleton m)\<rparr>))"
proof -
  obtain es d where e: "rmap encode_entry (fm_entries m) = Inr es" "encode_value 0 (fm_skeleton m) = Inr d"
    "length encoded \<le> max_metadata_bytes" "encoded = dumps (document es d)"
    using assms(1) by (auto simp: encode_metadata_def rbind_Inr_iff Let_def split: if_splits)
  let ?fs = "[(''schema_version'', JInt 1), (''tensor_entries'', JArr es), (''non_tensor_data'', d)]"
  have "distinct (map fst ?fs)" by simp
  from canon_fields [OF this]
  obtain kvs where k: "canon (JObj ?fs) = JObj kvs" "map_of kvs = map_of (map (\<lambda>(k, v). (k, canon v)) ?fs)"
    "set (map fst kvs) = set (map fst ?fs)" .
  have f: "fld kvs ''schema_version'' = JInt 1" "fld kvs ''tensor_entries'' = JArr (map canon es)" "fld kvs ''non_tensor_data'' = canon d"
    unfolding fld_def k(2) by simp_all
  have x: "exact_keys kvs [''schema_version'', ''tensor_entries'', ''non_tensor_data''] = Inr ()" unfolding exact_keys_def k(3) by simp
  have "list_all dumpable es" by (rule rmap_all [OF e(1)]) (use entry_round_trip(2) assms(2) in \<open>auto simp: list_all_iff\<close>)
  then have d: "dumpable (document es d)" using value_dumpable [OF e(2) assms(4)] by (simp add: document_def)
  have "utf8_length s = length s" if "list_all printable s" for s
    using that by (induction s) (auto simp: utf8_length_def printable_def)
  then have u: "utf8_length encoded = length encoded" using printable_dumps [OF d] by (simp add: e(4))
  have l: "length es = length (fm_entries m)" using rmap_length [OF e(1)] .
  have "decode_entries env {} (map canon es) = Inr (fm_entries m)" by (rule entries_round_trip [OF e(1)]) (use assms in auto)
  moreover have "decode_value env 0 (canon d) = Inr (at_least_1d (fm_skeleton m))" by (rule value_round_trip [OF e(2) assms(4)])
  moreover have "is_dict (at_least_1d (fm_skeleton m))" using assms(5) by (cases "fm_skeleton m") (simp_all add: is_dict_def)
  moreover have "plain_loads encoded = Inr (JObj kvs)" using plain_loads_dumps [OF d] by (simp only: e(4) document_def k(1))
  moreover have "fe_same env (PInt 1) (PInt 1)" using assms(7) by (simp add: plain_keys_def)
  ultimately show ?thesis using assms(5,6) e(3) l by (cases m) (simp add: decode_metadata_def u f x check_container_size_def json_same_def)
qed

section \<open>The payload\<close>

definition format_name :: string where "format_name = ''lm-resiliency.gemini.node-local''"
definition format_version :: int where "format_version = 3"

definition identity_value :: "string \<Rightarrow> string \<Rightarrow> int \<Rightarrow> int \<Rightarrow> (string \<times> pyval) list" where
  "identity_value run_id topology_id owner_rank step =
     [(''run_id'', PStr run_id), (''topology_id'', PStr topology_id), (''owner_rank'', PInt owner_rank), (''step'', PInt step)]"

definition str_dict :: "(string \<times> pyval) list \<Rightarrow> pyval" where
  "str_dict kvs = PDict (map (\<lambda>(k, v). (PStr k, v)) kvs)"

definition payload_value ::
  "flat_metadata \<Rightarrow> ptensor list \<Rightarrow> int list option \<Rightarrow> string \<Rightarrow> string \<Rightarrow> int \<Rightarrow> int \<Rightarrow> format_error + pyval" where
  "payload_value m ts checksums run_id topology_id owner_rank step =
     rbind (encode_metadata m) (\<lambda>encoded. Inr (str_dict
       [(''format'', PStr format_name), (''version'', PInt format_version),
        (''identity'', str_dict (identity_value run_id topology_id owner_rank step)),
        (''metadata_json'', PStr encoded), (''tensors'', PList (map PTensor ts)),
        (''checksums'', case checksums of None \<Rightarrow> PNone | Some cs \<Rightarrow> PList (map PInt cs))]))"

text \<open>\<open>_require_mapping\<close> and \<open>_require_exact_keys\<close> on a Python dictionary: its fields by name.\<close>

definition py_fields :: "pyval \<Rightarrow> string list \<Rightarrow> format_error + (string \<Rightarrow> pyval)" where
  "py_fields v expected =
     (case v of
        PDict kvs \<Rightarrow>
          rbind (rmap (\<lambda>(k, v). case k of PStr s \<Rightarrow> Inr (s, v) | _ \<Rightarrow> Inl BadFormat) kvs) (\<lambda>fs.
          if set (map fst fs) \<noteq> set expected then Inl BadFormat
          else Inr (\<lambda>k. case map_of fs k of Some v \<Rightarrow> v | None \<Rightarrow> PNone))
      | _ \<Rightarrow> Inl BadFormat)"

definition nonblank :: "pyval \<Rightarrow> bool" where
  "nonblank v = (case v of PStr s \<Rightarrow> strip s \<noteq> [] | _ \<Rightarrow> False)"

definition int_in :: "int \<Rightarrow> int option \<Rightarrow> pyval \<Rightarrow> bool" where
  "int_in lo hi v = (case v of PInt i \<Rightarrow> lo \<le> i \<and> (case hi of Some h \<Rightarrow> i \<le> h | None \<Rightarrow> True) | _ \<Rightarrow> False)"

definition tensors_of :: "pyval \<Rightarrow> format_error + ptensor list" where
  "tensors_of v = (case v of PList vs \<Rightarrow> rmap (\<lambda>v. case v of PTensor t \<Rightarrow> Inr t | _ \<Rightarrow> Inl BadFormat) vs | _ \<Rightarrow> Inl BadFormat)"

definition checksums_of :: "pyval \<Rightarrow> format_error + int list option" where
  "checksums_of v =
     (case v of
        PNone \<Rightarrow> Inr None
      | PList vs \<Rightarrow> rbind (rmap (\<lambda>v. case v of PInt i \<Rightarrow> if int_in 0 (Some 0xFFFFFFFF) v then Inr i else Inl BadFormat | _ \<Rightarrow> Inl BadFormat) vs)
          (\<lambda>cs. Inr (Some cs))
      | _ \<Rightarrow> Inl BadFormat)"

definition validate_payload ::
  "format_env \<Rightarrow> pyval \<Rightarrow> format_error + flat_metadata \<times> ptensor list \<times> int list option \<times> (string \<times> pyval) list" where
  "validate_payload env v =
     rbind (py_fields v [''format'', ''version'', ''identity'', ''metadata_json'', ''tensors'', ''checksums'']) (\<lambda>payload.
     rbind (ensure (fe_same env (payload ''format'') (PStr format_name)) BadFormat) (\<lambda>_.
     rbind (ensure (fe_same env (payload ''version'') (PInt format_version)) BadFormat) (\<lambda>_.
     rbind (py_fields (payload ''identity'') [''run_id'', ''topology_id'', ''owner_rank'', ''step'']) (\<lambda>identity.
     rbind (ensure (nonblank (identity ''run_id'') \<and> nonblank (identity ''topology_id'')) BadFormat) (\<lambda>_.
     rbind (ensure (int_in 0 None (identity ''owner_rank'') \<and> int_in 0 None (identity ''step'')) BadFormat) (\<lambda>_.
     rbind (case payload ''metadata_json'' of PStr s \<Rightarrow> decode_metadata env s | _ \<Rightarrow> Inl BadFormat) (\<lambda>m.
     rbind (tensors_of (payload ''tensors'')) (\<lambda>ts.
     rbind (ensure (list_all2 (\<lambda>t e. pt_shape t = te_shape e \<and> pt_dtype t = te_dtype e) ts (fm_entries m)) BadFormat) (\<lambda>_.
     rbind (checksums_of (payload ''checksums'')) (\<lambda>cs.
     Inr (m, ts, cs, map (\<lambda>k. (k, identity k)) [''run_id'', ''topology_id'', ''owner_rank'', ''step''])))))))))))"

lemma py_fields_str_dict:
  "py_fields (str_dict kvs) expected =
    (if set (map fst kvs) = set expected then Inr (\<lambda>k. case map_of kvs k of Some v \<Rightarrow> v | None \<Rightarrow> PNone) else Inl BadFormat)"
proof -
  have "rmap (\<lambda>(k, v). case k of PStr s \<Rightarrow> Inr (s, v) | _ \<Rightarrow> Inl BadFormat) (map (\<lambda>(k, v). (PStr k, v)) kvs) = Inr kvs"
    by (induction kvs) auto
  then show ?thesis by (simp add: py_fields_def str_dict_def)
qed

lemma tensors_of_list: "tensors_of (PList (map PTensor ts)) = Inr ts"
  by (auto simp: tensors_of_def rmap_map comp_def intro!: rmap_Inr [where g = id, THEN trans])

lemma checksums_of_list:
  "list_all (\<lambda>c. 0 \<le> c \<and> c \<le> 0xFFFFFFFF) cs \<Longrightarrow> checksums_of (PList (map PInt cs)) = Inr (Some cs)"
  by (induction cs) (auto simp: checksums_of_def int_in_def rbind_Inr_iff)

lemma payload_decoded:
  assumes "payload_value m ts cs run_id topology_id owner_rank step = Inr p"
    and "plain_keys env" "strip run_id \<noteq> []" "strip topology_id \<noteq> []" "0 \<le> owner_rank" "0 \<le> step"
    and "list_all2 (\<lambda>t e. pt_shape t = te_shape e \<and> pt_dtype t = te_dtype e) ts (fm_entries m)"
    and "\<forall>xs. cs = Some xs \<longrightarrow> list_all (\<lambda>c. 0 \<le> c \<and> c \<le> 0xFFFFFFFF) xs"
    and "encode_metadata m = Inr encoded" "decode_metadata env encoded = rbind check (\<lambda>_. Inr m')" "fm_entries m' = fm_entries m"
  shows "validate_payload env p = rbind check (\<lambda>_. Inr (m', ts, cs, identity_value run_id topology_id owner_rank step))"
proof -
  have "fe_same env (PStr format_name) (PStr format_name)" "fe_same env (PInt format_version) (PInt format_version)"
    using assms(2) by (simp_all add: plain_keys_def)
  moreover have "checksums_of (case cs of None \<Rightarrow> PNone | Some cs \<Rightarrow> PList (map PInt cs)) = Inr cs"
    using assms(8) checksums_of_list by (cases cs) (auto simp: checksums_of_def)
  moreover have "p = str_dict
       [(''format'', PStr format_name), (''version'', PInt format_version),
        (''identity'', str_dict (identity_value run_id topology_id owner_rank step)),
        (''metadata_json'', PStr encoded), (''tensors'', PList (map PTensor ts)),
        (''checksums'', case cs of None \<Rightarrow> PNone | Some cs \<Rightarrow> PList (map PInt cs))]"
    using assms(1,9) by (simp add: payload_value_def)
  ultimately show ?thesis using assms(3-7,10,11)
    by (cases check) (simp_all add: validate_payload_def py_fields_str_dict tensors_of_list identity_value_def nonblank_def int_in_def insert_commute)
qed

end
