(* ===== verification/Metadata_Laws.thy ===== *)
theory Metadata_Laws
  imports Metadata
begin

text \<open>
  What a saved checkpoint promises: the metadata and payload of a flattened state dictionary are read back as they
  were written, except that a NumPy array without dimensions gains one, exactly when no tensor is directly in a tuple, and whatever payload is accepted can be put back
  together.
\<close>

section \<open>Flattened state dictionaries are encodable\<close>

lemma found_cases [consumes 1, case_names tensor entry item]:
  assumes "(e, t) \<in> set (found v)"
  obtains "v = PTensor t" "e = entry_of [] t"
  | kvs k w e' where "v = PDict kvs" "(k, w) \<in> set kvs" "(e', t) \<in> set (found w)" "e = e'\<lparr>te_path := k # te_path e'\<rparr>"
  | vs i e' where "v = PList vs \<or> v = PTuple vs" "i < length vs" "(e', t) \<in> set (found (vs ! i))" "e = e'\<lparr>te_path := PInt (int i) # te_path e'\<rparr>"
  using assms
  by (cases v)
    (fastforce simp: flatten_containers prefixed_def enumerate_eq_zip in_set_zip simp del: flatten_value.simps(2-4))+

lemma found_wf: "wf_value env v \<Longrightarrow> (e, t) \<in> set (found v) \<Longrightarrow> wf_entry env e"
proof (induction "size v" arbitrary: v e rule: less_induct)
  case less
  have sub: "wf_entry env (e'\<lparr>te_path := p\<rparr>)" if "size w < size v" "wf_value env w" "(e', t) \<in> set (found w)" for w e' p
    using less.hyps [OF that] by (simp add: wf_entry_def)
  from less.prems(2) show ?case
  proof (cases rule: found_cases)
    case tensor
    then show ?thesis using less.prems(1) by (simp add: entry_of_def wf_entry_def wf_tensor_def)
  next
    case (entry kvs k w e')
    then have "size w < size v" "wf_value env w" using less.prems(1) size_pair_in(2) [OF entry(2)] by auto
    from sub [OF this entry(3)] show ?thesis by (simp add: entry(4))
  next
    case (item vs i e')
    then have "vs ! i \<in> set vs" by simp
    then show ?thesis using item less.prems(1) sub [of "vs ! i" e'] elem_size [of "vs ! i" vs] by auto
  qed
qed

lemma skeleton_wf: "wf_value env v \<Longrightarrow> wf_value env (skeleton v)"
proof (induction v)
  case (PDict kvs)
  have "map fst (map (\<lambda>(k, v). (k, skeleton v)) kvs) = map fst kvs" by auto
  moreover have "wf_value env (skeleton w)" if "(k, w) \<in> set kvs" for k w
    using PDict.IH(2) [OF that] PDict.prems that by auto
  ultimately show ?case using PDict.prems
    by (auto simp: flatten_containers simp del: flatten_value.simps(2-4) map_map)
qed (auto simp: flatten_containers simp del: flatten_value.simps(2-4))

text \<open>Every path leads to the placeholder that was left.\<close>

lemma found_path:
  assumes "wf_value env v" "savable v" "plain_keys env" "(e, t) \<in> set (found v)" "list_all plain_key (te_path e)"
  shows "if te_path e = [] then skeleton v = PNone else check_path env (skeleton v) (te_path e) = Inr ()"
  using assms(1,2,4,5)
proof (induction v arbitrary: e)
  case (PDict kvs)
  from PDict.prems(3) show ?case
  proof (cases rule: found_cases)
    case (entry kvs' k w e')
    obtain pre post where p: "kvs = pre @ (k, w) # post" using entry by (auto dest: split_list)
    have k: "fe_same env k k" using PDict.prems(4) entry(4) plain_key_same [OF assms(3), of k] by simp
    have "distinct_under (fe_same env) (map fst (map (\<lambda>(k, v). (k, skeleton v)) pre @ (k, skeleton w) # map (\<lambda>(k, v). (k, skeleton v)) post))"
      using PDict.prems(1) by (simp add: p comp_def split_beta)
    from dict_at(1) [OF this k] have g: "dict_get (fe_same env) (map (\<lambda>(k, v). (k, skeleton v)) kvs) k = Some (skeleton w)" by (simp add: p)
    have "if te_path e' = [] then skeleton w = PNone else check_path env (skeleton w) (te_path e') = Inr ()"
      by (rule PDict.IH(2) [of "(k, w)"]) (use entry PDict.prems in \<open>auto simp: p\<close>)
    then show ?thesis using entry(4) g by (simp add: flatten_containers del: flatten_value.simps(2-4) split: if_splits)
  qed simp_all
next
  case (PList vs)
  from PList.prems(3) show ?case
  proof (cases rule: found_cases)
    case (item vs' i e')
    have "if te_path e' = [] then skeleton (vs ! i) = PNone else check_path env (skeleton (vs ! i)) (te_path e') = Inr ()"
      by (rule PList.IH) (use item PList.prems in auto)
    then show ?thesis using item by (simp add: flatten_containers del: flatten_value.simps(2-4) split: if_splits)
  qed simp_all
next
  case (PTuple vs)
  from PTuple.prems(3) show ?case
  proof (cases rule: found_cases)
    case (item vs' i e')
    have i: "vs ! i \<in> set vs" "\<not> is_tensor (vs ! i)" using item PTuple.prems(2) by auto
    have "te_path e' \<noteq> []" using found_nonempty [OF i(2)] item by (auto simp: list_all_iff)
    moreover have "if te_path e' = [] then skeleton (vs ! i) = PNone else check_path env (skeleton (vs ! i)) (te_path e') = Inr ()"
      by (rule PTuple.IH) (use item PTuple.prems i in auto)
    ultimately show ?thesis using item by (simp add: flatten_containers del: flatten_value.simps(2-4))
  qed simp_all
qed (auto simp: entry_of_def)

text \<open>No two tensors have the same path.\<close>

abbreviation paths :: "(flat_entry \<times> ptensor) list \<Rightarrow> pyval list list" where
  "paths xs \<equiv> map (\<lambda>x. te_path (fst x)) xs"

lemma paths_prefixed: "paths (prefixed p xs) = map ((@) p) (paths xs)"
  by (auto simp: prefixed_def)

lemma distinct_prefixed: "distinct (paths (prefixed [k] xs)) \<longleftrightarrow> distinct (paths xs)"
  unfolding paths_prefixed distinct_map by (simp add: inj_on_def)

lemma distinct_blocks:
  assumes "\<And>b. b \<in> set bs \<Longrightarrow> distinct (paths (snd b))" "distinct (map fst (filter (\<lambda>b. snd b \<noteq> []) bs))"
  shows "distinct (paths (concat (map (\<lambda>(k, xs). prefixed [k] xs) bs)))"
  using assms
proof (induction bs)
  case (Cons b bs)
  obtain k xs where b: "b = (k, xs)" by (cases b)
  let ?rest = "concat (map (\<lambda>(k, xs). prefixed [k] xs) bs)"
  have "set (paths (prefixed [k] xs)) \<inter> set (paths ?rest) = {}"
  proof (rule ccontr)
    assume "\<not> ?thesis"
    then obtain p where p: "p \<in> set (paths (prefixed [k] xs))" "p \<in> set (paths ?rest)" by blast
    have "hd p = k" "xs \<noteq> []" using p(1) by (auto simp: prefixed_def)
    moreover obtain c where "c \<in> set bs" "hd p = fst c" "snd c \<noteq> []" using p(2) by (force simp: prefixed_def)
    ultimately show False using Cons.prems(2) by (auto simp: b)
  qed
  moreover have "distinct (paths (prefixed [k] xs))" using Cons.prems(1) [of b] distinct_prefixed by (simp add: b)
  moreover have "distinct (paths ?rest)" by (rule Cons.IH) (use Cons.prems in \<open>auto split: if_splits\<close>)
  ultimately show ?case by (simp add: b)
qed simp

lemma distinct_under_plain:
  assumes "plain_keys env" "distinct_under (fe_same env) (map fst bs)" "\<forall>b \<in> set bs. snd b \<noteq> [] \<longrightarrow> plain_key (fst b)"
  shows "distinct (map fst (filter (\<lambda>b. snd b \<noteq> []) bs))"
  using assms(2,3)
proof (induction bs)
  case (Cons b bs)
  have "fst b \<notin> fst ` set bs" if "snd b \<noteq> []"
    using Cons.prems plain_key_same [OF assms(1), of "fst b"] that by (auto simp: distinct_under_def)
  then show ?case using Cons by (auto simp: distinct_under_def)
qed simp

definition indexed :: "pyval list \<Rightarrow> (pyval \<times> (flat_entry \<times> ptensor) list) list" where
  "indexed vs = map (\<lambda>(i, v). (PInt (int i), found v)) (enumerate 0 vs)"

lemma indexed_found:
  "concat (map (\<lambda>(i, v). prefixed [PInt (int i)] (found v)) (enumerate 0 vs)) = concat (map (\<lambda>(k, xs). prefixed [k] xs) (indexed vs))"
  by (simp add: indexed_def comp_def case_prod_unfold)

lemma indexed_distinct: "distinct (map fst (filter (\<lambda>b. snd b \<noteq> []) (indexed vs)))"
proof (rule distinct_map_filter)
  have "map fst (indexed vs) = map (\<lambda>i. PInt (int i)) [0..<length vs]"
    by (rule nth_equalityI) (simp_all add: indexed_def nth_enumerate_eq)
  then show "distinct (map fst (indexed vs))" by (simp add: distinct_map inj_on_def)
qed

lemma found_indexed: "b \<in> set (indexed vs) \<Longrightarrow> \<exists>v \<in> set vs. snd b = found v"
  by (auto simp: indexed_def enumerate_eq_zip dest!: set_zip_rightD)

lemma distinct_indexed: "(\<And>v. v \<in> set vs \<Longrightarrow> distinct (paths (found v))) \<Longrightarrow> distinct (paths (concat (map (\<lambda>(k, xs). prefixed [k] xs) (indexed vs))))"
  using found_indexed indexed_distinct by (intro distinct_blocks) fastforce+

lemma found_distinct:
  assumes "plain_keys env" "wf_value env v" "plain_paths (found v)"
  shows "distinct (paths (found v))"
  using assms(2,3)
proof (induction v)
  case (PDict kvs)
  let ?bs = "map (\<lambda>(k, v). (k, found v)) kvs"
  have f: "found (PDict kvs) = concat (map (\<lambda>(k, xs). prefixed [k] xs) ?bs)"
    by (simp add: flatten_containers comp_def case_prod_unfold del: flatten_value.simps(2-4))
  have "distinct (paths (concat (map (\<lambda>(k, xs). prefixed [k] xs) ?bs)))"
  proof (rule distinct_blocks)
    have "map fst ?bs = map fst kvs" by (simp add: comp_def case_prod_unfold)
    then have d: "distinct_under (fe_same env) (map fst ?bs)" using PDict.prems(1) by (simp only: wf_value.simps)
    have "\<forall>b \<in> set ?bs. snd b \<noteq> [] \<longrightarrow> plain_key (fst b)"
      using PDict.prems(2) by (auto simp: f plain_paths_concat plain_paths_prefixed simp del: flatten_value.simps)
    from distinct_under_plain [OF assms(1) d this] show "distinct (map fst (filter (\<lambda>b. snd b \<noteq> []) ?bs))" .
    show "distinct (paths (snd b))" if b: "b \<in> set ?bs" for b
    proof -
      obtain k w where "(k, w) \<in> set kvs" "b = (k, found w)" using b by auto
      then show ?thesis using PDict.IH(2) [of "(k, w)" w] PDict.prems
        by (fastforce simp: f plain_paths_concat plain_paths_prefixed simp del: flatten_value.simps)
    qed
  qed
  then show ?case by (simp only: f)
next
  case (PList vs)
  have "distinct (paths (concat (map (\<lambda>(k, xs). prefixed [k] xs) (indexed vs))))"
    by (rule distinct_indexed) (use PList in \<open>simp add: flatten_containers plain_paths_enumerate del: flatten_value.simps(2-4)\<close>)
  then show ?case by (simp add: flatten_containers indexed_found del: flatten_value.simps(2-4))
next
  case (PTuple vs)
  have "distinct (paths (concat (map (\<lambda>(k, xs). prefixed [k] xs) (indexed vs))))"
    by (rule distinct_indexed) (use PTuple in \<open>simp add: flatten_containers plain_paths_enumerate del: flatten_value.simps(2-4)\<close>)
  then show ?case by (simp add: flatten_containers indexed_found del: flatten_value.simps(2-4))
qed auto

lemma encoded_plain_paths: "rmap encode_entry es = Inr js \<Longrightarrow> list_all (\<lambda>e. list_all plain_key (te_path e)) es"
  using keys_plain by (induction es arbitrary: js) (auto simp: encode_entry_def rbind_Inr_iff)

lemma flatten_fields:
  "flatten v = (m, ts) \<Longrightarrow> fm_entries m = map fst (found v) \<and> fm_skeleton m = skeleton v \<and> ts = map snd (found v)"
  by (auto simp: flatten_def split_beta simp del: flatten_value.simps)

lemma encoded_found:
  assumes "flatten v = (m, ts)" "encode_metadata m = Inr encoded"
  shows "plain_paths (found v)"
proof -
  obtain js where "rmap encode_entry (fm_entries m) = Inr js" using assms(2) by (auto simp: encode_metadata_def rbind_Inr_iff)
  from encoded_plain_paths [OF this] show ?thesis
    using flatten_fields [OF assms(1)] by (auto simp: plain_paths_def list_all_iff simp del: flatten_value.simps)
qed

definition stored_metadata :: "flat_metadata \<Rightarrow> flat_metadata" where
  "stored_metadata m = m\<lparr>fm_skeleton := at_least_1d (fm_skeleton m)\<rparr>"

lemma stored_entries: "fm_entries (stored_metadata m) = fm_entries m"
  by (simp add: stored_metadata_def)

lemma flatten_stored: "flatten v = (m, ts) \<Longrightarrow> flatten (at_least_1d v) = (stored_metadata m, ts)"
  by (auto simp: flatten_def flatten_at_least_1d split_beta stored_metadata_def)

lemma decode_flattened:
  assumes "plain_keys env" "wf_value env (PDict kvs)" "flatten (PDict kvs) = (m, ts)" "length ts \<le> max_container_items"
    "encode_metadata m = Inr encoded"
  shows "decode_metadata env encoded = rbind (validate_tensor_paths env (at_least_1d (fm_skeleton m)) (fm_entries m)) (\<lambda>_. Inr (stored_metadata m))"
  unfolding stored_metadata_def
proof (rule decode_encoded [OF assms(5)])
  note m = flatten_fields [OF assms(3)] and p = encoded_found [OF assms(3,5)]
  show "list_all (wf_entry env) (fm_entries m)" using found_wf [OF assms(2)] by (auto simp: m list_all_iff simp del: flatten_value.simps)
  show "distinct (map te_path (fm_entries m))" using found_distinct [OF assms(1,2) p] by (simp add: m comp_def del: flatten_value.simps)
  show "wf_value env (fm_skeleton m)" using skeleton_wf [OF assms(2)] by (simp add: m del: flatten_value.simps)
  show "is_dict (fm_skeleton m)" by (simp add: m is_dict_def)
  show "length (fm_entries m) \<le> max_container_items" using assms(4) by (simp add: m del: flatten_value.simps)
qed (rule assms(1))

text \<open>The paths are accepted exactly when no tensor is directly in a tuple.\<close>

lemma check_path_error: "check_path env cur p = Inl e \<Longrightarrow> e = BadFormat"
  by (induction env cur p rule: check_path.induct)
    (auto simp: rbind_Inl_iff split: pyval.splits option.splits if_splits)

lemma unsavable_path:
  assumes "wf_value env v" "\<not> savable v" "plain_keys env" "plain_paths (found v)"
  shows "\<exists>x \<in> set (found v). te_path (fst x) \<noteq> [] \<and> check_path env (skeleton v) (te_path (fst x)) \<noteq> Inr ()"
  using assms(1,2,4)
proof (induction v)
  case (PDict kvs)
  then obtain k w where w: "(k, w) \<in> set kvs" "\<not> savable w" by auto
  obtain pre post where p: "kvs = pre @ (k, w) # post" using split_list [OF w(1)] by blast
  have pw: "plain_paths (found w)" "found w \<noteq> [] \<longrightarrow> plain_key k"
    using PDict.prems(3) by (auto simp: p flatten_containers plain_paths_prefixed simp del: flatten_value.simps)
  obtain e t where e: "(e, t) \<in> set (found w)" "te_path e \<noteq> []" "check_path env (skeleton w) (te_path e) \<noteq> Inr ()"
    using PDict.IH(2) [of "(k, w)" w] PDict.prems(1) w pw(1) by (fastforce simp: p)
  have "plain_key k" using pw(2) e(1) by auto
  then have k: "fe_same env k k" using plain_key_same [OF assms(3)] by blast
  have "distinct_under (fe_same env) (map fst (map (\<lambda>(k, v). (k, skeleton v)) pre @ (k, skeleton w) # map (\<lambda>(k, v). (k, skeleton v)) post))"
    using PDict.prems(1) by (simp add: p comp_def split_beta)
  from dict_at(1) [OF this k] have "check_path env (skeleton (PDict kvs)) (k # te_path e) \<noteq> Inr ()"
    using e(2,3) by (simp add: flatten_containers p del: flatten_value.simps)
  moreover have "(e\<lparr>te_path := k # te_path e\<rparr>, t) \<in> set (found (PDict kvs))"
    using e(1) by (force simp: p flatten_containers prefixed_def simp del: flatten_value.simps)
  ultimately show ?case by (intro bexI [of _ "(e\<lparr>te_path := k # te_path e\<rparr>, t)"]) simp_all
next
  case (PList vs)
  then obtain i where i: "i < length vs" "\<not> savable (vs ! i)" by (auto simp: in_set_conv_nth)
  have "plain_paths (found (vs ! i))" using PList.prems(3) i(1)
    by (simp add: flatten_containers plain_paths_enumerate del: flatten_value.simps)
  then obtain e t where e: "(e, t) \<in> set (found (vs ! i))" "te_path e \<noteq> []" "check_path env (skeleton (vs ! i)) (te_path e) \<noteq> Inr ()"
    using PList.IH [of "vs ! i"] PList.prems(1) i by fastforce
  have "(e\<lparr>te_path := PInt (int i) # te_path e\<rparr>, t) \<in> set (found (PList vs))"
    using e(1) i(1) by (force simp: flatten_containers prefixed_def enumerate_eq_zip in_set_zip simp del: flatten_value.simps)
  then show ?case using e(2,3) i(1)
    by (intro bexI [of _ "(e\<lparr>te_path := PInt (int i) # te_path e\<rparr>, t)"]) (simp_all add: flatten_containers del: flatten_value.simps)
next
  case (PTuple vs)
  then obtain i where i: "i < length vs" "\<not> savable (vs ! i) \<or> is_tensor (vs ! i)" by (auto simp: in_set_conv_nth)
  have p: "plain_paths (found (vs ! i))" using PTuple.prems(3) i(1)
    by (simp add: flatten_containers plain_paths_enumerate del: flatten_value.simps)
  have "\<exists>e t. (e, t) \<in> set (found (vs ! i)) \<and> (te_path e = [] \<or> check_path env (skeleton (vs ! i)) (te_path e) \<noteq> Inr ())"
  proof (cases "is_tensor (vs ! i)")
    case True
    then show ?thesis by (auto simp: is_tensor_def entry_of_def split: pyval.splits)
  next
    case False
    then show ?thesis using PTuple.IH [of "vs ! i"] PTuple.prems(1) i p by fastforce
  qed
  then obtain e t where e: "(e, t) \<in> set (found (vs ! i))" "te_path e = [] \<or> check_path env (skeleton (vs ! i)) (te_path e) \<noteq> Inr ()" by blast
  have "(e\<lparr>te_path := PInt (int i) # te_path e\<rparr>, t) \<in> set (found (PTuple vs))"
    using e(1) i(1) by (force simp: flatten_containers prefixed_def enumerate_eq_zip in_set_zip simp del: flatten_value.simps)
  then show ?case using e(2) i(1)
    by (intro bexI [of _ "(e\<lparr>te_path := PInt (int i) # te_path e\<rparr>, t)"]) (auto simp: flatten_containers simp del: flatten_value.simps)
qed auto

lemma savable_path:
  assumes "wf_value env (PDict kvs)" "savable (PDict kvs)" "plain_keys env" "plain_paths (found (PDict kvs))" "(e, t) \<in> set (found (PDict kvs))"
  shows "check_path env (skeleton (PDict kvs)) (te_path e) = Inr ()"
proof -
  have "te_path e \<noteq> []" using found_nonempty [of "PDict kvs"] assms(5) by (auto simp: is_tensor_def list_all_iff simp del: flatten_value.simps)
  moreover have "list_all plain_key (te_path e)" using assms(4,5) by (auto simp: plain_paths_def list_all_iff simp del: flatten_value.simps)
  ultimately show ?thesis using found_path [OF assms(1,2,3,5)] by simp
qed

lemma validate_found:
  assumes "plain_keys env" "wf_value env (PDict kvs)" "flatten (PDict kvs) = (m, ts)" "plain_paths (found (PDict kvs))"
  shows "validate_tensor_paths env (fm_skeleton m) (fm_entries m) = ensure (savable (PDict kvs)) BadFormat"
proof (cases "rmap (\<lambda>e. check_path env (fm_skeleton m) (te_path e)) (fm_entries m)")
  case (Inl err)
  from rmap_cases_Inl [OF Inl] obtain e t where e: "(e, t) \<in> set (found (PDict kvs))" "check_path env (skeleton (PDict kvs)) (te_path e) = Inl err"
    using flatten_fields [OF assms(3)] by (auto simp del: flatten_value.simps)
  then have "\<not> savable (PDict kvs)" using savable_path [OF assms(2) _ assms(1,4) e(1)] by auto
  then show ?thesis using check_path_error [OF e(2)] by (simp add: validate_tensor_paths_def Inl ensure_def)
next
  case (Inr us)
  have "check_path env (skeleton (PDict kvs)) (te_path (fst x)) = Inr ()" if "x \<in> set (found (PDict kvs))" for x
    using Inr that flatten_fields [OF assms(3)]
    by (auto simp: rmap_Inr_iff list_all2_conv_all_nth in_set_conv_nth simp del: flatten_value.simps)
  then have "savable (PDict kvs)" using unsavable_path [OF assms(2) _ assms(1,4)] by blast
  then show ?thesis by (simp add: validate_tensor_paths_def Inr)
qed

section \<open>Checkpoints on disk\<close>

definition plain_identity :: "string \<Rightarrow> string \<Rightarrow> int \<Rightarrow> int \<Rightarrow> bool" where
  "plain_identity run_id topology_id owner_rank step \<longleftrightarrow>
     strip run_id \<noteq> [] \<and> strip topology_id \<noteq> [] \<and> 0 \<le> owner_rank \<and> 0 \<le> step"

definition crc_values :: "int list option \<Rightarrow> bool" where
  "crc_values cs = (case cs of None \<Rightarrow> True | Some xs \<Rightarrow> list_all (\<lambda>c. 0 \<le> c \<and> c \<le> 0xFFFFFFFF) xs)"

lemma found_shapes: "(e, t) \<in> set (found v) \<Longrightarrow> te_shape e = pt_shape t \<and> te_dtype e = pt_dtype t"
proof (induction "size v" arbitrary: v e rule: less_induct)
  case less
  have sub: "te_shape e' = pt_shape t \<and> te_dtype e' = pt_dtype t" if "size w < size v" "(e', t) \<in> set (found w)" for w e'
    using less.hyps [OF that] .
  from less.prems show ?case
  proof (cases rule: found_cases)
    case (entry kvs k w e')
    then show ?thesis using sub [of w e'] size_pair_in(2) [OF entry(2)] by simp
  next
    case (item vs i e')
    then show ?thesis using sub [of "vs ! i" e'] elem_size [of "vs ! i" vs] by auto
  qed (simp add: entry_of_def)
qed

lemma payload_of_flattened:
  assumes "plain_keys env" "wf_value env (PDict kvs)" "flatten (PDict kvs) = (m, ts)" "length ts \<le> max_container_items"
    and "payload_value m ts cs run_id topology_id owner_rank step = Inr p" "plain_identity run_id topology_id owner_rank step" "crc_values cs"
  shows "validate_payload env p =
    (if savable (PDict kvs) then Inr (stored_metadata m, ts, cs, identity_value run_id topology_id owner_rank step) else Inl BadFormat)"
proof -
  obtain encoded where e: "encode_metadata m = Inr encoded" using assms(5) by (auto simp: payload_value_def rbind_Inr_iff)
  note m = flatten_fields [OF assms(3)]
  have "list_all2 (\<lambda>t e. pt_shape t = te_shape e \<and> pt_dtype t = te_dtype e) ts (fm_entries m)"
    using found_shapes [of _ _ "PDict kvs"]
    by (auto simp: m list_all2_conv_all_nth simp del: flatten_value.simps) (metis nth_mem prod.collapse)+
  from payload_decoded [OF assms(5,1) _ _ _ _ this _ e decode_flattened [OF assms(1-4) e]] assms(6,7) stored_entries
  have v: "validate_payload env p = rbind (validate_tensor_paths env (at_least_1d (fm_skeleton m)) (fm_entries m))
      (\<lambda>_. Inr (stored_metadata m, ts, cs, identity_value run_id topology_id owner_rank step))"
    by (simp add: plain_identity_def crc_values_def split: option.splits)
  have "validate_tensor_paths env (at_least_1d (fm_skeleton m)) (fm_entries m) = ensure (savable (PDict kvs)) BadFormat"
    using validate_found [OF assms(1) _ flatten_stored [OF assms(3), simplified]] wf_at_least_1d [OF assms(2)]
      encoded_found [OF assms(3) e] savable_at_least_1d [of "PDict kvs"] flatten_at_least_1d [of "[]" "PDict kvs"]
    by (simp add: stored_metadata_def del: flatten_value.simps savable.simps)
  then show ?thesis using v by (simp add: ensure_def)
qed

text \<open>C15: A state dictionary with no tensor directly in a tuple, flattened and written as a checkpoint payload, is
  accepted again with the same tensors, checksums and identity, and putting the tensors back gives the state dictionary,
  except that each NumPy array without dimensions has become an array of one element.\<close>

theorem saved_state_restored:
  assumes "plain_keys env" "wf_value env (PDict kvs)" "savable (PDict kvs)"
    and "flatten (PDict kvs) = (m, ts)" "length ts \<le> max_container_items"
    and "payload_value m ts cs run_id topology_id owner_rank step = Inr p" "plain_identity run_id topology_id owner_rank step" "crc_values cs"
  shows "validate_payload env p = Inr (stored_metadata m, ts, cs, identity_value run_id topology_id owner_rank step) \<and>
    unflatten env (stored_metadata m) ts = Inr (at_least_1d (PDict kvs))"
proof
  obtain encoded where e: "encode_metadata m = Inr encoded" using assms(6) by (auto simp: payload_value_def rbind_Inr_iff)
  show "validate_payload env p = Inr (stored_metadata m, ts, cs, identity_value run_id topology_id owner_rank step)"
    using payload_of_flattened [OF assms(1,2,4-8)] assms(3) by simp
  have "plain_paths (found (at_least_1d (PDict kvs)))"
    using encoded_found [OF assms(4) e] flatten_at_least_1d [of "[]" "PDict kvs"] by (simp del: flatten_value.simps at_least_1d.simps)
  then show "unflatten env (stored_metadata m) ts = Inr (at_least_1d (PDict kvs))"
    using unflatten_flatten [OF _ _ assms(1) _ flatten_stored [OF assms(4), simplified]] wf_at_least_1d [OF assms(2)] assms(3)
      savable_at_least_1d [of "PDict kvs"]
    by (simp del: savable.simps wf_value.simps flatten_value.simps)
qed

text \<open>C38: A state dictionary with a tensor directly in a tuple can be flattened and written, but what was written is
  refused when it is read.\<close>

theorem tensor_in_tuple_not_loadable:
  assumes "plain_keys env" "wf_value env (PDict kvs)" "\<not> savable (PDict kvs)"
    and "flatten (PDict kvs) = (m, ts)" "length ts \<le> max_container_items"
    and "payload_value m ts cs run_id topology_id owner_rank step = Inr p" "plain_identity run_id topology_id owner_rank step" "crc_values cs"
  shows "validate_payload env p = Inl BadFormat"
  using payload_of_flattened [OF assms(1,2,4-8)] assms(3) by simp

text \<open>C16: Whatever payload is accepted, its tensors can be put back without an error, and they only take the places
  the skeleton leaves open.\<close>

theorem accepted_payload_unflattens:
  assumes "validate_payload env v = Inr (m, ts, cs, identity)"
  shows "\<exists>w. unflatten env m ts = Inr w \<and> filled (fm_skeleton m) w"
proof -
  obtain j where j: "(case j of PStr s \<Rightarrow> decode_metadata env s | _ \<Rightarrow> Inl BadFormat) = Inr m" "length ts = length (fm_entries m)"
    using assms by (auto simp: validate_payload_def rbind_Inr_iff dest!: list_all2_lengthD)
  from j(1) obtain s where "decode_metadata env s = Inr m" by (cases j) auto
  then show ?thesis using j(2) by (rule accepted_metadata_unflattens)
qed

text \<open>The encodings as codecs: different values are never written as the same text.\<close>

interpretation base64: codec "\<lambda>_. True" "\<lambda>bs. Inr (b64_encode bs) :: format_error + string"
    "\<lambda>s. case b64_decode s of Some bs \<Rightarrow> Inr bs | None \<Rightarrow> Inl BadFormat"
  by unfold_locales (auto simp: b64_round_trip)

definition value_json :: "pyval \<Rightarrow> format_error + json" where
  "value_json v = rbind (encode_value 0 v) (\<lambda>j. Inr (canon j))"

interpretation value_codec: codec "\<lambda>v. wf_value env v \<and> at_least_1d v = v" value_json "decode_value env 0" for env
  by unfold_locales (auto simp: value_json_def rbind_Inr_iff value_round_trip)

definition storable :: "format_env \<Rightarrow> flat_metadata \<Rightarrow> bool" where
  "storable env m \<longleftrightarrow> plain_keys env \<and> list_all (wf_entry env) (fm_entries m) \<and> distinct (map te_path (fm_entries m)) \<and>
     wf_value env (fm_skeleton m) \<and> at_least_1d (fm_skeleton m) = fm_skeleton m \<and> is_dict (fm_skeleton m) \<and> length (fm_entries m) \<le> max_container_items \<and>
     validate_tensor_paths env (fm_skeleton m) (fm_entries m) = Inr ()"

interpretation metadata_codec: codec "storable env" encode_metadata "decode_metadata env" for env
  by unfold_locales (simp add: storable_def decode_encoded)

lemmas metadata_distinguished = metadata_codec.enc_inj

section \<open>Examples\<close>

definition demo_dtype :: np_dtype where
  "demo_dtype = \<lparr>nd_str = ''<f4'', nd_itemsize = 4, nd_object = False, nd_plain = True\<rparr>"

definition demo_format :: format_env where
  "demo_format = \<lparr>fe_dtype = (\<lambda>d. d = ''float32''), fe_element_size = (\<lambda>d. if d = ''float32'' then Some 4 else None),
     fe_device = Some, fe_np_dtype = (\<lambda>s. if s = ''<f4'' then Some demo_dtype else None), fe_float = (\<lambda>_. None), fe_same = (=)\<rparr>"

definition demo_tensor :: ptensor where
  "demo_tensor = \<lparr>pt_dtype = ''float32'', pt_shape = [1], pt_device = ''cpu'', pt_requires_grad = False, pt_dense = True,
     pt_data = [0, 0, 128, 63]\<rparr>"

text \<open>\<open>x\<close> is a NumPy array of the given shape.\<close>

definition demo_shaped :: "int list \<Rightarrow> (pyval \<times> pyval) list" where
  "demo_shaped shape = [(PStr ''step'', PInt 7), (PStr ''w'', PList [PTensor demo_tensor, PBytes [1, 2]]),
     (PStr ''x'', PNdarray demo_dtype shape [0, 0, 128, 63])]"

definition demo_state :: "(pyval \<times> pyval) list" where
  "demo_state = demo_shaped []"

definition demo_tuple_state :: "(pyval \<times> pyval) list" where
  "demo_tuple_state = [(PStr ''w'', PTuple [PTensor demo_tensor])]"

definition demo_payload :: "(pyval \<times> pyval) list \<Rightarrow> pyval" where
  "demo_payload kvs = (case flatten (PDict kvs) of (m, ts) \<Rightarrow>
     (case payload_value m ts (Some [7]) ''run'' ''topology'' 0 5 of Inr p \<Rightarrow> p | Inl _ \<Rightarrow> PNone))"

text \<open>A bound for the length of JSON text: a character takes at most six.\<close>

fun text_bound :: "json \<Rightarrow> nat" where
  "text_bound (JStr s) = 6 * length s + 2"
| "text_bound (JArr vs) = 2 + sum_list (map (\<lambda>v. text_bound v + 1) vs)"
| "text_bound (JObj kvs) = 2 + sum_list (map (\<lambda>(k, v). 6 * length k + text_bound v + 4) kvs)"
| "text_bound v = length (dumps v)"

lemma length_commas: "length (commas ts) \<le> sum_list (map (\<lambda>t. length t + 1) ts)"
  by (induction ts rule: commas.induct) auto

lemma length_dump_str: "length (dump_str s) \<le> 6 * length s + 2"
proof -
  have "length (esc_char c) \<le> 6" for c by (auto simp: esc_char_def Let_def)
  then have "length (concat (map esc_char s)) \<le> 6 * length s"
    by (induction s) (auto intro: add_mono order_trans [OF add_le_mono])
  then show ?thesis by (simp add: dump_str_def)
qed

lemma text_bound: "length (dumps v) \<le> text_bound v"
proof (induction v)
  case (JArr vs)
  have "sum_list (map (\<lambda>t. length t + 1) (map dumps vs)) \<le> sum_list (map (\<lambda>v. text_bound v + 1) vs)"
    using JArr by (simp add: comp_def) (intro sum_list_mono, simp)
  then show ?case using length_commas [of "map dumps vs"] by simp
next
  case (JObj kvs)
  have l: "length (member_text kv) + 1 \<le> (case kv of (k, v) \<Rightarrow> 6 * length k + text_bound v + 4)" if "kv \<in> set kvs" for kv
    using JObj that length_dump_str [of "fst kv"] by (cases kv) (force simp: member_text_def)
  have "sum_list (map (\<lambda>t. length t + 1) (map member_text (sort_key fst kvs))) = sum_list (map (\<lambda>kv. length (member_text kv) + 1) kvs)"
    by (metis (no_types, lifting) comp_apply map_eq_conv map_map mset_map mset_sort sum_mset_sum_list)
  also have "\<dots> \<le> sum_list (map (\<lambda>(k, v). 6 * length k + text_bound v + 4) kvs)"
    using l by (intro sum_list_mono) auto
  finally show ?case using length_commas [of "map member_text (sort_key fst kvs)"] unfolding dumps_obj by simp
qed (use length_dump_str in auto)

lemma encode_small:
  assumes "rmap encode_entry (fm_entries m) = Inr es" "encode_value 0 (fm_skeleton m) = Inr d" "text_bound (document es d) \<le> max_metadata_bytes"
  shows "encode_metadata m = Inr (dumps (document es d))"
  using assms text_bound [of "document es d"] by (simp add: encode_metadata_def)

lemmas demo_simps = flatten_def demo_state_def demo_tuple_state_def demo_tensor_def entry_of_def encode_entry_def encode_path_key_def
  check_depth_def check_container_size_def max_metadata_depth_def max_container_items_def document_def tagged_def container_def
  Let_def ints_def data_text_def max_metadata_bytes_def demo_shaped_def demo_dtype_def plain_numpy_def contiguous_shape_def ensure_def

lemma demo_digits: "length (int_str 0) = 1" "length (int_str 1) = 1" "length (int_str 7) = 1"
  by (simp_all add: int_str_def nat_str.simps)

lemma demo_encoded:
  "\<exists>s. encode_metadata (fst (flatten (PDict demo_state))) = Inr s"
  "\<exists>s. encode_metadata (fst (flatten (PDict demo_tuple_state))) = Inr s"
proof -
  show "\<exists>s. encode_metadata (fst (flatten (PDict demo_state))) = Inr s"
    by (rule exI, rule encode_small, simp add: demo_simps, simp add: demo_simps) (simp add: demo_simps, simp add: demo_digits)
  show "\<exists>s. encode_metadata (fst (flatten (PDict demo_tuple_state))) = Inr s"
    by (rule exI, rule encode_small, simp add: demo_simps, simp add: demo_simps) (simp add: demo_simps, simp add: demo_digits)
qed

lemma demo_payloads:
  assumes "kvs = demo_state \<or> kvs = demo_tuple_state"
  shows "payload_value (fst (flatten (PDict kvs))) [demo_tensor] (Some [7]) ''run'' ''topology'' 0 5 = Inr (demo_payload kvs)"
    "flatten (PDict kvs) = (fst (flatten (PDict kvs)), [demo_tensor])" "plain_keys demo_format" "wf_value demo_format (PDict kvs)"
    "length [demo_tensor] \<le> max_container_items" "plain_identity ''run'' ''topology'' 0 5" "crc_values (Some [7])"
proof -
  show f: "flatten (PDict kvs) = (fst (flatten (PDict kvs)), [demo_tensor])" using assms by (auto simp: demo_simps)
  show "payload_value (fst (flatten (PDict kvs))) [demo_tensor] (Some [7]) ''run'' ''topology'' 0 5 = Inr (demo_payload kvs)"
    using assms demo_encoded arg_cong [OF f, of snd]
    by (auto simp: demo_payload_def payload_value_def split_beta simp del: flatten_value.simps)
  show "plain_keys demo_format" "wf_value demo_format (PDict kvs)" "length [demo_tensor] \<le> max_container_items"
    "crc_values (Some [7])"
    using assms
    by (auto simp: plain_keys_def demo_format_def demo_state_def demo_tuple_state_def demo_tensor_def distinct_under_def wf_tensor_def
        wf_dtype_def device_type_def max_container_items_def crc_values_def demo_shaped_def demo_dtype_def wf_numpy_def)
  show "plain_identity ''run'' ''topology'' 0 5" by (simp add: plain_identity_def strip_def py_space_def)
qed

theorem saved_state_restored_witness:
  "\<exists>m ts identity. validate_payload demo_format (demo_payload demo_state) = Inr (m, ts, Some [7], identity) \<and>
    unflatten demo_format m ts = Inr (PDict (demo_shaped [1]))"
proof -
  have "savable (PDict demo_state)" and "at_least_1d (PDict demo_state) = PDict (demo_shaped [1])"
    by (simp_all add: demo_state_def demo_shaped_def contiguous_shape_def)
  with saved_state_restored [OF demo_payloads(3,4) this(1) demo_payloads(2,5,1,6,7)] show ?thesis by metis
qed

theorem tensor_in_tuple_not_loadable_witness: "validate_payload demo_format (demo_payload demo_tuple_state) = Inl BadFormat"
proof -
  have "\<not> savable (PDict demo_tuple_state)" by (simp add: demo_tuple_state_def is_tensor_def)
  from tensor_in_tuple_not_loadable [OF demo_payloads(3,4) this demo_payloads(2,5,1,6,7)] show ?thesis by blast
qed

lemma demo_accepted: "\<exists>m ts cs identity. validate_payload demo_format (demo_payload demo_state) = Inr (m, ts, cs, identity)"
proof -
  have "savable (PDict demo_state)" by (simp add: demo_state_def demo_shaped_def)
  moreover note p = demo_payloads [OF disjI1 [OF refl]]
  ultimately show ?thesis using payload_of_flattened [OF p(3,4,2,5,1,6,7)] by simp
qed

theorem accepted_payload_unflattens_witness:
  "\<exists>m ts cs identity w. validate_payload demo_format (demo_payload demo_state) = Inr (m, ts, cs, identity) \<and>
    unflatten demo_format m ts = Inr w \<and> filled (fm_skeleton m) w"
  using demo_accepted accepted_payload_unflattens by blast

end
