(* ===== verification/Fabric.thy ===== *)
theory Fabric
  imports Switch Json
begin

text \<open>
  \<open>lm_resiliency/detection/ib_topology.py\<close>: the text of \<open>ibnetdiscover\<close> is parsed into a graph of switches, and a
  breadth-first search gives the spine between two leaves, from which the topology of \<open>Switch\<close> is built. Sets are
  lists without duplicates; the regular expressions are spelt out, white space and digits below code point 256.
\<close>

section \<open>Breadth-first search\<close>

type_synonym switch_graph = "(string \<times> string list) list"
type_synonym predecessors = "(string \<times> string option) list"

definition neighbours :: "switch_graph \<Rightarrow> string \<Rightarrow> string list" where
  "neighbours adjacency u = (case map_of adjacency u of Some vs \<Rightarrow> sorted_set vs | None \<Rightarrow> [])"

text \<open>\<open>cur = prev[cur]\<close> until \<open>None\<close>; \<open>None\<close> is also the result for a switch that is not in \<open>prev\<close>.\<close>

partial_function (option) trace_back :: "predecessors \<Rightarrow> string \<Rightarrow> string list \<Rightarrow> string list option" where
  "trace_back prev cur path =
     (case map_of prev cur of
        None \<Rightarrow> None
      | Some None \<Rightarrow> Some (cur # path)
      | Some (Some p) \<Rightarrow> trace_back prev p (cur # path))"

text \<open>The loop over the neighbours of one switch: the destination is found, or the queue has grown.\<close>

fun visit :: "string \<Rightarrow> string \<Rightarrow> string list \<Rightarrow> predecessors \<Rightarrow> string list \<Rightarrow> predecessors + predecessors \<times> string list" where
  "visit dst u [] prev q = Inr (prev, q)"
| "visit dst u (v # vs) prev q =
     (if v \<in> fst ` set prev then visit dst u vs prev q
      else if v = dst then Inl ((v, Some u) # prev)
      else visit dst u vs ((v, Some u) # prev) (q @ [v]))"

definition known :: "switch_graph \<Rightarrow> string set" where
  "known adjacency = (\<Union>(_, vs) \<in> set adjacency. set vs)"

lemma finite_known [simp]: "finite (known adjacency)"
  by (auto simp: known_def)

lemma neighbours_known: "v \<in> set (neighbours adjacency u) \<Longrightarrow> v \<in> known adjacency"
  by (cases "map_of adjacency u") (force simp: neighbours_def known_def dest: map_of_SomeD)+

lemma visit_measure:
  assumes "visit dst u vs prev q = Inr (prev', q')" "set vs \<subseteq> known adjacency"
  shows "card (known adjacency - fst ` set prev') + length q' \<le> card (known adjacency - fst ` set prev) + length q"
  using assms
proof (induction vs arbitrary: prev q)
  case (Cons v vs)
  show ?case
  proof (cases "v \<in> fst ` set prev")
    case True
    then show ?thesis using Cons by simp
  next
    case False
    let ?prev = "(v, Some u) # prev"
    have "known adjacency - fst ` set ?prev = (known adjacency - fst ` set prev) - {v}" by auto
    moreover have "v \<in> known adjacency - fst ` set prev" using False Cons.prems(2) by simp
    ultimately have "Suc (card (known adjacency - fst ` set ?prev)) = card (known adjacency - fst ` set prev)"
      by (simp only: card_Suc_Diff1 finite_Diff finite_known)
    moreover have "card (known adjacency - fst ` set prev') + length q' \<le> card (known adjacency - fst ` set ?prev) + length (q @ [v])"
      by (rule Cons.IH) (use Cons.prems False in \<open>auto split: if_splits\<close>)
    ultimately show ?thesis by simp
  qed
qed simp

function bfs :: "switch_graph \<Rightarrow> string \<Rightarrow> predecessors \<Rightarrow> string list \<Rightarrow> string list option" where
  "bfs adjacency dst prev [] = Some []"
| "bfs adjacency dst prev (u # q) =
     (case visit dst u (neighbours adjacency u) prev q of
        Inl prev' \<Rightarrow> trace_back prev' dst []
      | Inr (prev', q') \<Rightarrow> bfs adjacency dst prev' q')"
  by pat_completeness auto
termination
proof (relation "measure (\<lambda>(adjacency, dst, prev, q). card (known adjacency - fst ` set prev) + length q)", goal_cases)
  case (2 adjacency dst prev u q r prev' q')
  then show ?case using visit_measure [of dst u "neighbours adjacency u" prev q prev' q' adjacency] neighbours_known by fastforce
qed simp

definition shortest_path :: "switch_graph \<Rightarrow> string \<Rightarrow> string \<Rightarrow> string list option" where
  "shortest_path adjacency src dst = (if src = dst then Some [src] else bfs adjacency dst [(src, None)] [src])"

section \<open>Shortest routes\<close>

fun walk :: "switch_graph \<Rightarrow> string list \<Rightarrow> bool" where
  "walk adjacency [] = False"
| "walk adjacency [u] = True"
| "walk adjacency (u # v # p) = (v \<in> set (neighbours adjacency u) \<and> walk adjacency (v # p))"

definition route :: "switch_graph \<Rightarrow> string \<Rightarrow> string \<Rightarrow> string list \<Rightarrow> bool" where
  "route adjacency src dst p \<longleftrightarrow> walk adjacency p \<and> hd p = src \<and> last p = dst"

lemma walk_snoc: "walk adjacency (p @ [u]) \<Longrightarrow> v \<in> set (neighbours adjacency u) \<Longrightarrow> walk adjacency (p @ [u, v])"
  by (induction p rule: walk.induct) auto

text \<open>The recorded predecessors, newest first, are a tree.\<close>

fun tree :: "switch_graph \<Rightarrow> string \<Rightarrow> predecessors \<Rightarrow> bool" where
  "tree adjacency src [] = False"
| "tree adjacency src ((v, None) # prev) = (v = src \<and> prev = [])"
| "tree adjacency src ((v, Some u) # prev) =
     (v \<notin> fst ` set prev \<and> u \<in> fst ` set prev \<and> v \<in> set (neighbours adjacency u) \<and> tree adjacency src prev)"

fun path_to :: "predecessors \<Rightarrow> string \<Rightarrow> string list" where
  "path_to [] v = []"
| "path_to ((w, p) # prev) v =
     (if v = w then (case p of None \<Rightarrow> [w] | Some u \<Rightarrow> path_to prev u @ [w]) else path_to prev v)"

lemma path_to_route: "tree adjacency src prev \<Longrightarrow> v \<in> fst ` set prev \<Longrightarrow> route adjacency src v (path_to prev v)"
proof (induction prev arbitrary: v rule: tree.induct)
  case (3 adjacency src w u prev)
  show ?case
  proof (cases "v = w")
    case True
    have r: "route adjacency src u (path_to prev u)" using 3 by simp
    then obtain p where p: "path_to prev u = p @ [u]"
      by (cases "path_to prev u" rule: rev_cases) (auto simp: route_def)
    show ?thesis using 3(2) r walk_snoc [of adjacency p u w] by (cases p) (auto simp: True p route_def)
  qed (use 3 in auto)
qed (auto simp: route_def)

lemma tree_root: "tree adjacency src prev \<Longrightarrow> src \<in> fst ` set prev"
  by (induction prev rule: tree.induct) auto

lemma trace_back_path:
  assumes "tree adjacency src prev" "v \<in> fst ` set prev" "\<forall>w \<in> fst ` set prev. map_of full w = map_of prev w"
  shows "trace_back full v path = Some (path_to prev v @ path)"
  using assms
proof (induction prev arbitrary: v path rule: tree.induct)
  case (2 adjacency src w prev)
  then show ?case by (simp add: trace_back.simps [of full])
next
  case (3 adjacency src w u prev)
  have "\<forall>x \<in> fst ` set prev. map_of full x = map_of prev x" using 3(2,4) by auto
  note ih = 3(1) [OF _ _ this]
  show ?case
  proof (cases "v = w")
    case True
    have "map_of full v = Some (Some u)" using 3(4) True by simp
    then show ?thesis using ih [of u "v # path"] 3(2) True by (subst trace_back.simps) simp
  qed (use ih 3(2,3) in auto)
qed simp

text \<open>The invariant of the search.\<close>

definition shortest :: "switch_graph \<Rightarrow> string \<Rightarrow> predecessors \<Rightarrow> string \<Rightarrow> bool" where
  "shortest adjacency src prev v \<longleftrightarrow> (\<forall>p. route adjacency src v p \<longrightarrow> length (path_to prev v) \<le> length p)"

abbreviation depth :: "predecessors \<Rightarrow> string \<Rightarrow> nat" where
  "depth prev v \<equiv> length (path_to prev v)"

definition search_inv :: "switch_graph \<Rightarrow> string \<Rightarrow> string \<Rightarrow> predecessors \<Rightarrow> string list \<Rightarrow> bool" where
  "search_inv adjacency src dst prev q \<longleftrightarrow>
     tree adjacency src prev \<and> dst \<notin> fst ` set prev \<and> set q \<subseteq> fst ` set prev \<and>
     sorted (map (depth prev) q) \<and> (\<forall>v \<in> set q. depth prev v \<le> depth prev (hd q) + 1) \<and>
     (\<forall>v \<in> fst ` set prev - set q. set (neighbours adjacency v) \<subseteq> fst ` set prev) \<and>
     (\<forall>v \<in> fst ` set prev. shortest adjacency src prev v)"

text \<open>A walk that leaves the visited switches does so from the queue.\<close>

lemma leaving:
  assumes "walk adjacency p" "hd p \<in> V" "last p \<notin> V"
  obtains a x y b where "p = a @ x # y # b" "x \<in> V" "y \<notin> V" "y \<in> set (neighbours adjacency x)" "walk adjacency (a @ [x])"
  using assms
proof (induction p arbitrary: thesis rule: walk.induct)
  case (3 adjacency u v p)
  show ?case
  proof (cases "v \<in> V")
    case True
    obtain a x y b where i: "v # p = a @ x # y # b" "x \<in> V" "y \<notin> V" "y \<in> set (neighbours adjacency x)" "walk adjacency (a @ [x])"
      by (rule 3(1)) (use 3(3-5) True in auto)
    have "walk adjacency (u # a @ [x])" using i(1,5) 3(3) by (cases a) auto
    then show ?thesis using i by (intro 3(2) [of "u # a" x y b]) auto
  qed (use 3 in \<open>auto intro: 3(2) [of "[]"]\<close>)
qed auto

lemma leaves_from_queue:
  assumes "search_inv adjacency src dst prev q" "route adjacency src w p" "w \<notin> fst ` set prev"
  obtains x where "x \<in> set q" "depth prev x + 1 \<le> length p"
proof -
  have t: "tree adjacency src prev" using assms(1) by (simp add: search_inv_def)
  obtain a x y b where l: "p = a @ x # y # b" "x \<in> fst ` set prev" "y \<notin> fst ` set prev" "y \<in> set (neighbours adjacency x)" "walk adjacency (a @ [x])"
    by (rule leaving [of adjacency p "fst ` set prev"]) (use assms(2,3) tree_root [OF t] in \<open>auto simp: route_def\<close>)
  have q: "x \<in> set q" using l(2-4) assms(1) unfolding search_inv_def by blast
  have "route adjacency src x (a @ [x])" using l(1,5) assms(2) by (cases a) (auto simp: route_def)
  moreover have "shortest adjacency src prev x" using assms(1) l(2) unfolding search_inv_def by blast
  ultimately have "depth prev x \<le> length (a @ [x])" unfolding shortest_def by blast
  then show thesis using l(1) q that by simp
qed

lemma path_to_new [simp]: "v \<in> fst ` set prev \<Longrightarrow> w \<notin> fst ` set prev \<Longrightarrow> path_to ((w, p) # prev) v = path_to prev v"
  by auto

lemma search_inv_visit:
  assumes "search_inv adjacency src dst prev (u # q)" "v \<in> set (neighbours adjacency u)" "v \<notin> fst ` set prev"
  shows "tree adjacency src ((v, Some u) # prev)" "shortest adjacency src ((v, Some u) # prev) v"
    "v \<noteq> dst \<Longrightarrow> search_inv adjacency src dst ((v, Some u) # prev) (u # q @ [v])"
proof -
  let ?prev = "(v, Some u) # prev"
  have i: "tree adjacency src prev" "set (u # q) \<subseteq> fst ` set prev" "sorted (map (depth prev) (u # q))"
    "\<forall>w \<in> set (u # q). depth prev w \<le> depth prev u + 1"
    "\<forall>w \<in> fst ` set prev - set (u # q). set (neighbours adjacency w) \<subseteq> fst ` set prev"
    "\<forall>w \<in> fst ` set prev. shortest adjacency src prev w" "dst \<notin> fst ` set prev"
    using assms(1) by (simp_all add: search_inv_def)
  show t: "tree adjacency src ?prev" using assms(2,3) i(1,2) by simp
  have d: "depth ?prev w = depth prev w" if "w \<in> fst ` set prev" for w using that assms(3) by auto
  have dv: "depth ?prev v = depth prev u + 1" by simp
  show s: "shortest adjacency src ?prev v"
    unfolding shortest_def dv
  proof (intro allI impI)
    fix p assume "route adjacency src v p"
    then obtain x where "x \<in> set (u # q)" "depth prev x + 1 \<le> length p" using leaves_from_queue [OF assms(1) _ assms(3)] by blast
    then show "depth prev u + 1 \<le> length p" using i(3) by auto
  qed
  show "search_inv adjacency src dst ?prev (u # q @ [v])" if "v \<noteq> dst"
    unfolding search_inv_def
  proof (intro conjI)
    have "map (depth ?prev) (u # q) = map (depth prev) (u # q)" by (rule map_cong) (use d i(2) in blast)+
    then have m: "map (depth ?prev) (u # q @ [v]) = map (depth prev) (u # q) @ [depth prev u + 1]" by simp
    show "sorted (map (depth ?prev) (u # q @ [v]))" unfolding m using i(3,4) by (auto simp: sorted_append)
    have "depth ?prev u = depth prev u" using d i(2) by simp
    moreover have "depth ?prev w = depth prev w" if "w \<in> set (u # q)" for w using d i(2) that by blast
    ultimately show "\<forall>w \<in> set (u # q @ [v]). depth ?prev w \<le> depth ?prev (hd (u # q @ [v])) + 1" using i(4) dv by fastforce
    show "\<forall>w \<in> fst ` set ?prev - set (u # q @ [v]). set (neighbours adjacency w) \<subseteq> fst ` set ?prev" using i(5) by auto
    show "\<forall>w \<in> fst ` set ?prev. shortest adjacency src ?prev w" using i(6) s d by (auto simp: shortest_def)
  qed (use i that t in auto)
qed

lemma visit_search_inv:
  assumes "search_inv adjacency src dst prev (u # q)" "set vs \<subseteq> set (neighbours adjacency u)"
  shows "case visit dst u vs prev q of
      Inl prev' \<Rightarrow> tree adjacency src prev' \<and> dst \<in> fst ` set prev' \<and> shortest adjacency src prev' dst
    | Inr (prev', q') \<Rightarrow> search_inv adjacency src dst prev' (u # q') \<and> set vs \<subseteq> fst ` set prev' \<and> fst ` set prev \<subseteq> fst ` set prev'"
  using assms
proof (induction vs arbitrary: prev q)
  case (Cons v vs)
  consider "v \<in> fst ` set prev" | "v \<notin> fst ` set prev" "v = dst" | "v \<notin> fst ` set prev" "v \<noteq> dst" by blast
  then show ?case
  proof cases
    case 1
    then show ?thesis using Cons.IH [OF Cons.prems(1)] Cons.prems(2)
      by (cases "visit dst u vs prev q") auto
  next
    case 2
    then show ?thesis using search_inv_visit [OF Cons.prems(1), of v] Cons.prems(2) by simp
  next
    case 3
    then have "search_inv adjacency src dst ((v, Some u) # prev) (u # (q @ [v]))"
      using search_inv_visit(3) [OF Cons.prems(1), of v] Cons.prems(2) by simp
    from Cons.IH [OF this] show ?thesis using Cons.prems(2) 3
      by (cases "visit dst u vs ((v, Some u) # prev) (q @ [v])") auto
  qed
qed simp

lemma search_inv_pop:
  assumes "search_inv adjacency src dst prev (u # q)" "set (neighbours adjacency u) \<subseteq> fst ` set prev"
  shows "search_inv adjacency src dst prev q"
proof -
  have "depth prev v \<le> depth prev (hd q) + 1" if "v \<in> set q" for v
  proof -
    have "depth prev v \<le> depth prev u + 1" using assms(1) that by (simp add: search_inv_def)
    also have "depth prev u \<le> depth prev (hd q)" using assms(1) that by (cases q) (auto simp: search_inv_def)
    finally show ?thesis by simp
  qed
  moreover have "\<forall>v \<in> fst ` set prev - set q. set (neighbours adjacency v) \<subseteq> fst ` set prev"
    using assms by (metis DiffD1 DiffD2 DiffI search_inv_def set_ConsD)
  ultimately show ?thesis using assms(1) by (simp add: search_inv_def)
qed

lemma bfs_shortest:
  assumes "search_inv adjacency src dst prev q"
  shows "\<exists>p. bfs adjacency dst prev q = Some p \<and> (if p = [] then \<forall>p'. \<not> route adjacency src dst p'
    else route adjacency src dst p \<and> (\<forall>p'. route adjacency src dst p' \<longrightarrow> length p \<le> length p'))"
  using assms
proof (induction adjacency dst prev q rule: bfs.induct)
  case (1 adjacency dst prev)
  have "\<not> route adjacency src dst p" for p
    using leaves_from_queue [OF 1(1)] 1(1) by (fastforce simp: search_inv_def)
  then show ?case by simp
next
  case (2 adjacency dst prev u q)
  note v = visit_search_inv [OF 2(2) subset_refl]
  show ?case
  proof (cases "visit dst u (neighbours adjacency u) prev q")
    case (Inl prev')
    then have t: "tree adjacency src prev'" "dst \<in> fst ` set prev'" "shortest adjacency src prev' dst" using v by simp_all
    have "route adjacency src dst (path_to prev' dst)" by (rule path_to_route [OF t(1,2)])
    moreover from this have "path_to prev' dst \<noteq> []" by (auto simp: route_def)
    ultimately show ?thesis using trace_back_path [OF t(1,2), of prev' "[]"] t(3) by (simp add: Inl shortest_def)
  next
    case (Inr r)
    obtain prev' q' where r: "r = (prev', q')" by (cases r)
    have "search_inv adjacency src dst prev' q'" using v by (auto simp: Inr r intro: search_inv_pop)
    from 2(1) [OF Inr r [symmetric] this] show ?thesis by (simp add: Inr r)
  qed
qed

lemma shortest_path_correct:
  "\<exists>p. shortest_path adjacency src dst = Some p \<and> (if p = [] then \<forall>p'. \<not> route adjacency src dst p'
    else route adjacency src dst p \<and> (\<forall>p'. route adjacency src dst p' \<longrightarrow> length p \<le> length p'))"
proof (cases "src = dst")
  case True
  have "Suc 0 \<le> length p" if "route adjacency dst dst p" for p using that by (cases p) (auto simp: route_def)
  then show ?thesis by (simp add: shortest_path_def True route_def)
next
  case False
  have "Suc 0 \<le> length p" if "route adjacency src v p" for p v using that by (cases p) (auto simp: route_def)
  then have "search_inv adjacency src dst [(src, None)] [src]" using False by (auto simp: search_inv_def shortest_def)
  from bfs_shortest [OF this] False show ?thesis by (simp add: shortest_path_def)
qed

section \<open>Parsing \<open>ibnetdiscover\<close>\<close>

text \<open>\<open>str.splitlines()\<close> below code point 256.\<close>

definition line_break :: "char \<Rightarrow> bool" where
  "line_break c \<longleftrightarrow> c \<in> {CHR 0x0A, CHR 0x0B, CHR 0x0C, CHR 0x0D, CHR 0x1C, CHR 0x1D, CHR 0x1E, CHR 0x85}"

fun str_lines :: "string \<Rightarrow> string \<Rightarrow> string list" where
  "str_lines cur [] = (if cur = [] then [] else [rev cur])"
| "str_lines cur (c # d # cs) =
     (if c = CHR 0x0D \<and> d = CHR 0x0A then rev cur # str_lines [] cs
      else if line_break c then rev cur # str_lines [] (d # cs)
      else str_lines (c # cur) (d # cs))"
| "str_lines cur [c] = (if line_break c then [rev cur] else [rev (c # cur)])"

text \<open>The pieces of the two regular expressions: at least one character of a class, and a quoted text.\<close>

definition many :: "(char \<Rightarrow> bool) \<Rightarrow> string \<Rightarrow> string option" where
  "many P s = (case s of c # r \<Rightarrow> if P c then Some (dropWhile P r) else None | [] \<Rightarrow> None)"

definition quoted :: "string \<Rightarrow> (string \<times> string) option" where
  "quoted s =
     (case s of
        c # r \<Rightarrow>
          if c \<noteq> CHR 0x22 then None
          else (case dropWhile (\<lambda>d. d \<noteq> CHR 0x22) r of
                  [] \<Rightarrow> None
                | _ # rest \<Rightarrow> Some (takeWhile (\<lambda>d. d \<noteq> CHR 0x22) r, rest))
      | [] \<Rightarrow> None)"

fun description :: "string \<Rightarrow> string" where
  "description [] = []"
| "description (c # cs) =
     (if c = CHR 0x23 then (case quoted (dropWhile py_space cs) of Some (d, _) \<Rightarrow> d | None \<Rightarrow> description cs)
      else description cs)"

datatype block = SwitchBlock string | CaBlock string

definition guid_of :: "string \<Rightarrow> (string \<times> string) option" where
  "guid_of s =
     Option.bind (many py_space s) (\<lambda>s. Option.bind (many is_digit s) (\<lambda>s. Option.bind (many py_space s) (\<lambda>s.
     Option.bind (quoted s) (\<lambda>(g, rest). if g = [] then None else Some (g, rest)))))"

definition header :: "string \<Rightarrow> (block \<times> string) option" where
  "header line =
     (case strip_prefix ''Switch'' line of
        Some s \<Rightarrow> map_option (\<lambda>(g, rest). (SwitchBlock g, description rest)) (guid_of s)
      | None \<Rightarrow>
          (case strip_prefix ''Ca'' line of
             Some s \<Rightarrow> map_option (\<lambda>(g, rest). (CaBlock g, description rest)) (guid_of s)
           | None \<Rightarrow> None))"

definition link_peer :: "string \<Rightarrow> string option" where
  "link_peer line =
     Option.bind (strip_prefix ''['' line) (\<lambda>s. Option.bind (many is_digit s) (\<lambda>s. Option.bind (strip_prefix '']'' s) (\<lambda>s.
     Option.bind (case s of
        c # r \<Rightarrow> if c = CHR ''('' then (case dropWhile (\<lambda>d. d \<noteq> CHR '')'') r of [] \<Rightarrow> None | _ # rest \<Rightarrow> Some rest) else Some s
      | [] \<Rightarrow> Some s) (\<lambda>s. Option.bind (many py_space s) (\<lambda>s.
     Option.bind (quoted s) (\<lambda>(peer, _). if peer = [] then None else Some peer))))))"

record fabric =
  fb_switch_guids :: "string list"
  fb_ca_host :: "(string \<times> string) list"
  fb_node_leaf :: "(string \<times> string) list"
  fb_adjacency :: switch_graph
  fb_leaf_guids :: "string list"
  fb_switch_name :: "(string \<times> string) list"

definition empty_fabric :: fabric where
  "empty_fabric = \<lparr>fb_switch_guids = [], fb_ca_host = [], fb_node_leaf = [], fb_adjacency = [], fb_leaf_guids = [], fb_switch_name = []\<rparr>"

definition first_word :: "string \<Rightarrow> string" where
  "first_word s = takeWhile (\<lambda>c. \<not> py_space c) (dropWhile py_space s)"

definition links_of :: "switch_graph \<Rightarrow> string \<Rightarrow> string list" where
  "links_of adjacency u = (case map_of adjacency u of Some vs \<Rightarrow> vs | None \<Rightarrow> [])"

text \<open>Pass 1: the headers.\<close>

definition collect_header :: "string \<Rightarrow> fabric \<Rightarrow> fabric" where
  "collect_header line fab =
     (case header (strip line) of
        None \<Rightarrow> fab
      | Some (SwitchBlock guid, desc) \<Rightarrow>
          fab\<lparr>fb_switch_guids := List.insert guid (fb_switch_guids fab),
              fb_switch_name := AList.update guid (strip desc) (fb_switch_name fab),
              fb_adjacency := AList.update guid (links_of (fb_adjacency fab) guid) (fb_adjacency fab)\<rparr>
      | Some (CaBlock guid, desc) \<Rightarrow>
          fab\<lparr>fb_ca_host := AList.update guid (if first_word desc = [] then guid else first_word desc) (fb_ca_host fab)\<rparr>)"

text \<open>Pass 2: the links of the block the line is in.\<close>

definition add_link :: "string \<Rightarrow> string \<Rightarrow> switch_graph \<Rightarrow> switch_graph" where
  "add_link u v adjacency = AList.update u (List.insert v (links_of adjacency u)) adjacency"

definition wire_link :: "string \<Rightarrow> string \<Rightarrow> fabric \<Rightarrow> fabric" where
  "wire_link guid peer fab =
     (case map_of (fb_ca_host fab) peer of
        Some host \<Rightarrow>
          fab\<lparr>fb_leaf_guids := List.insert guid (fb_leaf_guids fab), fb_node_leaf := AList.update host guid (fb_node_leaf fab)\<rparr>
      | None \<Rightarrow>
          if peer \<in> set (fb_switch_guids fab) then fab\<lparr>fb_adjacency := add_link peer guid (add_link guid peer (fb_adjacency fab))\<rparr>
          else fab)"

fun wire_line :: "string \<Rightarrow> block option \<times> fabric \<Rightarrow> block option \<times> fabric" where
  "wire_line line (current, fab) =
     (case header (strip line) of
        Some (block, _) \<Rightarrow> (Some block, fab)
      | None \<Rightarrow>
          (case (link_peer (strip line), current) of
             (Some peer, Some (SwitchBlock guid)) \<Rightarrow> (current, wire_link guid peer fab)
           | _ \<Rightarrow> (current, fab)))"

definition parse_ibnetdiscover :: "string \<Rightarrow> fabric" where
  "parse_ibnetdiscover text =
     (let lines = str_lines [] text in snd (fold wire_line lines (None, fold collect_header lines empty_fabric)))"

definition spine_guids :: "fabric \<Rightarrow> string list" where
  "spine_guids fab = filter (\<lambda>s. s \<notin> set (fb_leaf_guids fab)) (fb_switch_guids fab)"

section \<open>The topology\<close>

text \<open>The first spine on the path between two leaves.\<close>

definition route_spine :: "fabric \<Rightarrow> string \<Rightarrow> string \<Rightarrow> string option" where
  "route_spine fab a b = Option.bind (shortest_path (fb_adjacency fab) a b) (find (\<lambda>s. s \<in> set (spine_guids fab)))"

definition to_topology :: "fabric \<Rightarrow> fabric_topology" where
  "to_topology fab =
     \<lparr>ft_node_leaf = fb_node_leaf fab,
      ft_spine_route = List.map_filter (\<lambda>(a, b). map_option (\<lambda>s. (sorted_set [a, b], s)) (route_spine fab a b))
        (leaf_pairs (sorted_set (fb_leaf_guids fab))),
      ft_default_spine = (case sorted_set (spine_guids fab) of [] \<Rightarrow> [] | s # _ \<Rightarrow> s)\<rparr>"

definition build_fabric_topology :: "string \<Rightarrow> fabric_topology" where
  "build_fabric_topology text = to_topology (parse_ibnetdiscover text)"

section \<open>What the parser builds\<close>

definition fabric_ok :: "fabric \<Rightarrow> bool" where
  "fabric_ok fab \<longleftrightarrow>
     (\<forall>u v. v \<in> set (links_of (fb_adjacency fab) u) \<longrightarrow> u \<in> set (links_of (fb_adjacency fab) v) \<and> v \<in> set (fb_switch_guids fab)) \<and>
     set (fb_leaf_guids fab) \<subseteq> set (fb_switch_guids fab) \<and> snd ` set (fb_node_leaf fab) \<subseteq> set (fb_leaf_guids fab)"

lemma links_of_update: "links_of (AList.update k vs adjacency) u = (if u = k then vs else links_of adjacency u)"
  by (simp add: links_of_def update_conv')

lemma links_of_add: "set (links_of (add_link u v adjacency) w) = set (links_of adjacency w) \<union> (if w = u then {v} else {})"
  by (auto simp: add_link_def links_of_update)

lemma neighbours_links: "set (neighbours adjacency u) = set (links_of adjacency u)"
  by (auto simp: neighbours_def links_of_def split: option.splits)

lemma update_ran: "snd ` set (AList.update k v xs) \<subseteq> insert v (snd ` set xs)"
  by (induction xs) auto

lemma collect_ok: "fabric_ok fab \<and> fb_node_leaf fab = [] \<Longrightarrow> fabric_ok (collect_header line fab) \<and> fb_node_leaf (collect_header line fab) = []"
  by (auto simp: collect_header_def fabric_ok_def links_of_update split: option.splits block.splits)

lemma collect_guid: "set (fb_switch_guids fab) \<subseteq> set (fb_switch_guids (collect_header line fab))"
  by (auto simp: collect_header_def split: option.splits block.splits)

lemma collect_all:
  "set (fb_switch_guids fab) \<subseteq> set (fb_switch_guids (fold collect_header lines fab))"
  "line \<in> set lines \<Longrightarrow> header (strip line) = Some (SwitchBlock g, d) \<Longrightarrow> g \<in> set (fb_switch_guids (fold collect_header lines fab))"
proof (induction lines arbitrary: fab)
  case (Cons l ls)
  { case 1 show ?case using Cons.IH(1) [of "collect_header l fab"] collect_guid [of fab l] by auto }
  { case 2 show ?case
    proof (cases "line = l")
      case True
      then have "g \<in> set (fb_switch_guids (collect_header l fab))" using 2(2) by (simp add: collect_header_def)
      then show ?thesis using Cons.IH(1) [of "collect_header l fab"] by auto
    qed (use 2 Cons.IH(2) in simp) }
qed simp_all

lemma wire_ok: "fabric_ok fab \<Longrightarrow> g \<in> set (fb_switch_guids fab) \<Longrightarrow> fabric_ok (wire_link g peer fab) \<and> fb_switch_guids (wire_link g peer fab) = fb_switch_guids fab"
proof (cases "map_of (fb_ca_host fab) peer")
  case None
  show "fabric_ok fab \<Longrightarrow> g \<in> set (fb_switch_guids fab) \<Longrightarrow> ?thesis"
    by (auto simp: wire_link_def None fabric_ok_def links_of_add split: if_splits)
next
  case (Some host)
  show "fabric_ok fab \<Longrightarrow> g \<in> set (fb_switch_guids fab) \<Longrightarrow> ?thesis"
    using update_ran [of host g "fb_node_leaf fab"] by (fastforce simp: wire_link_def Some fabric_ok_def)
qed

definition in_block :: "fabric \<Rightarrow> block option \<Rightarrow> bool" where
  "in_block fab current = (case current of Some (SwitchBlock g) \<Rightarrow> g \<in> set (fb_switch_guids fab) | _ \<Rightarrow> True)"

lemma wire_lines_ok:
  assumes "fabric_ok fab" "in_block fab current"
    and "\<And>line g d. line \<in> set lines \<Longrightarrow> header (strip line) = Some (SwitchBlock g, d) \<Longrightarrow> g \<in> set (fb_switch_guids fab)"
  shows "fabric_ok (snd (fold wire_line lines (current, fab)))"
  using assms
proof (induction lines arbitrary: current fab)
  case (Cons l ls)
  obtain current' fab' where w: "wire_line l (current, fab) = (current', fab')" by (cases "wire_line l (current, fab)")
  have "fabric_ok fab' \<and> fb_switch_guids fab' = fb_switch_guids fab \<and> in_block fab' current'"
  proof (cases "header (strip l)")
    case None
    show ?thesis
    proof (cases "link_peer (strip l) = None \<or> (\<forall>g. current \<noteq> Some (SwitchBlock g))")
      case True
      then show ?thesis using w Cons.prems(1,2) None by (auto split: option.splits block.splits)
    next
      case False
      then show ?thesis using w Cons.prems(1,2) None wire_ok by (fastforce simp: in_block_def)
    qed
  next
    case (Some h)
    obtain block d where h: "h = (block, d)" by (cases h)
    have "block = SwitchBlock g \<Longrightarrow> g \<in> set (fb_switch_guids fab)" for g using Cons.prems(3) [of l g d] Some h by simp
    then show ?thesis using w Cons.prems(1) Some by (auto simp: h in_block_def split: block.splits)
  qed
  then show ?case using Cons.IH [of fab' current'] Cons.prems(3) by (auto simp: w simp del: wire_line.simps)
qed simp

lemma parsed_fabric_ok: "fabric_ok (parse_ibnetdiscover text)"
proof -
  let ?lines = "str_lines [] text"
  have "fabric_ok (fold collect_header ls fab) \<and> fb_node_leaf (fold collect_header ls fab) = []"
    if "fabric_ok fab \<and> fb_node_leaf fab = []" for ls fab
    using that collect_ok by (induction ls arbitrary: fab) auto
  moreover have "fabric_ok empty_fabric \<and> fb_node_leaf empty_fabric = []" by (simp add: empty_fabric_def fabric_ok_def links_of_def)
  ultimately have c: "fabric_ok (fold collect_header ?lines empty_fabric)" by blast
  then have "fabric_ok (snd (fold wire_line ?lines (None, fold collect_header ?lines empty_fabric)))"
    by (rule wire_lines_ok) (auto simp: in_block_def intro: collect_all(2))
  then show ?thesis by (simp add: parse_ibnetdiscover_def Let_def)
qed

section \<open>The switches of a group\<close>

text \<open>In a fabric of two tiers no leaf is linked to a leaf.\<close>

definition two_tier :: "fabric \<Rightarrow> bool" where
  "two_tier fab \<longleftrightarrow> (\<forall>a \<in> set (fb_leaf_guids fab). \<forall>b \<in> set (fb_leaf_guids fab). b \<notin> set (links_of (fb_adjacency fab) a))"

lemma leaf_pairs_mem: "sorted_wrt (<) xs \<Longrightarrow> (a, b) \<in> set (leaf_pairs xs) \<longleftrightarrow> a \<in> set xs \<and> b \<in> set xs \<and> a < (b :: 'a::linorder)"
  by (induction xs) auto

lemma sorted_pair: "a < b \<Longrightarrow> sorted_set [a, b] = [a, b :: 'a::linorder]"
  by (auto simp: sorted_set_def)

lemma map_of_map_filter:
  assumes "x \<in> set xs" "g x = Some (k, v)" "\<And>y k' v'. y \<in> set xs \<Longrightarrow> g y = Some (k', v') \<Longrightarrow> k' = k \<Longrightarrow> y = x"
  shows "map_of (List.map_filter g xs) k = Some v"
  using assms
proof (induction xs)
  case (Cons y ys)
  have ih: "map_of (List.map_filter g ys) k = Some v" if "x \<noteq> y"
    by (rule Cons.IH [OF _ Cons.prems(2)]) (use that Cons.prems(1) in simp, rule Cons.prems(3), simp_all)
  show ?case
  proof (cases "g y")
    case None
    then have "x \<noteq> y" using Cons.prems(2) by auto
    then show ?thesis using ih None by (simp add: map_filter_simps)
  next
    case (Some kv)
    obtain k' v' where kv: "kv = (k', v')" by (cases kv)
    show ?thesis
    proof (cases "x = y")
      case True
      then show ?thesis using Cons.prems(2) by (simp add: map_filter_simps)
    next
      case False
      then have "k' \<noteq> k" using Cons.prems(3) [of y k' v'] Some kv by auto
      then show ?thesis using ih [OF False] Some kv by (simp add: map_filter_simps)
    qed
  qed
qed simp

lemma spine_between_leaves:
  assumes "a \<in> set (fb_leaf_guids fab)" "b \<in> set (fb_leaf_guids fab)" "a < b" "route_spine fab a b = Some s"
  shows "spine_between (to_topology fab) a b = s"
proof -
  let ?pairs = "leaf_pairs (sorted_set (fb_leaf_guids fab))"
  have w: "sorted_wrt (<) (sorted_set (fb_leaf_guids fab))" by (simp add: strict_sorted_iff)
  have "map_of (ft_spine_route (to_topology fab)) (sorted_set [a, b]) = Some s"
    unfolding to_topology_def fabric_topology.simps
  proof (rule map_of_map_filter [where x = "(a, b)"])
    fix y k' v'
    assume y: "y \<in> set ?pairs" "(case y of (a, b) \<Rightarrow> map_option (\<lambda>s. (sorted_set [a, b], s)) (route_spine fab a b)) = Some (k', v')" "k' = sorted_set [a, b]"
    obtain c d where cd: "y = (c, d)" by (cases y)
    then have "c < d" using y(1) leaf_pairs_mem [OF w] by simp
    moreover have "sorted_set [c, d] = sorted_set [a, b]" using y(2,3) by (auto simp: cd)
    ultimately show "y = (a, b)" using assms(3) by (simp add: cd sorted_pair)
  qed (use assms leaf_pairs_mem [OF w] in auto)
  then show ?thesis by (simp add: spine_between_def)
qed

lemma two_tier_route:
  assumes "fabric_ok fab" "two_tier fab" "a \<in> set (fb_leaf_guids fab)" "b \<in> set (fb_leaf_guids fab)" "a \<noteq> b" "route (fb_adjacency fab) a b p"
  shows "3 \<le> length p"
  using assms by (cases p rule: remdups_adj.cases) (auto simp: route_def two_tier_def neighbours_links Suc_le_eq)

lemma two_tier_spine:
  assumes "fabric_ok fab" "two_tier fab" "a \<in> set (fb_leaf_guids fab)" "b \<in> set (fb_leaf_guids fab)" "a \<noteq> b"
    and "route (fb_adjacency fab) a b [a, s0, b]"
  obtains s where "route_spine fab a b = Some s" "route (fb_adjacency fab) a b [a, s, b]" "route (fb_adjacency fab) b a [b, s, a]"
proof -
  obtain p where p: "shortest_path (fb_adjacency fab) a b = Some p" "route (fb_adjacency fab) a b p" "length p \<le> length [a, s0, b]"
    using shortest_path_correct [of "fb_adjacency fab" a b] assms(6) by (metis (no_types, lifting))
  moreover have "3 \<le> length p" by (rule two_tier_route [OF assms(1-5) p(2)])
  ultimately have "length p = 3" by simp
  then obtain u s v where "p = [u, s, v]" by (auto simp: numeral_3_eq_3 length_Suc_conv)
  then have p3: "p = [a, s, b]" using p(2) by (simp add: route_def)
  then have l: "s \<in> set (links_of (fb_adjacency fab) a)" "b \<in> set (links_of (fb_adjacency fab) s)"
    using p(2) by (simp_all add: route_def neighbours_links)
  then have b: "a \<in> set (links_of (fb_adjacency fab) s)" "s \<in> set (links_of (fb_adjacency fab) b)" "s \<in> set (fb_switch_guids fab)"
    using assms(1) by (auto simp: fabric_ok_def)
  have "s \<notin> set (fb_leaf_guids fab)" using assms(2,3) l(1) by (auto simp: two_tier_def)
  then have "route_spine fab a b = Some s" using p(1) b(3) assms(3) by (simp add: route_spine_def p3 spine_guids_def)
  then show thesis using that p(2) b by (simp add: p3 route_def neighbours_links)
qed

lemma two_tier_group:
  assumes "fabric_ok fab" "two_tier fab" "map_of (fb_node_leaf fab) m = Some a" "map_of (fb_node_leaf fab) n = Some b" "a < b"
    and "route (fb_adjacency fab) a b [a, s0, b]"
  shows "\<exists>s ss. switches_on_path (to_topology fab) [m, n] = Inr ss \<and> switches_on_path (to_topology fab) [n, m] = Inr ss \<and> set ss = {a, s, b} \<and>
    route (fb_adjacency fab) a b [a, s, b] \<and> route (fb_adjacency fab) b a [b, s, a]"
proof -
  have l: "a \<in> set (fb_leaf_guids fab)" "b \<in> set (fb_leaf_guids fab)"
    using assms(1,3,4) by (force simp: fabric_ok_def dest: map_of_SomeD)+
  obtain s where s: "route_spine fab a b = Some s" "route (fb_adjacency fab) a b [a, s, b]" "route (fb_adjacency fab) b a [b, s, a]"
    using two_tier_spine [OF assms(1,2) l _ assms(6)] assms(5) by blast
  have b: "spine_between (to_topology fab) a b = s" by (rule spine_between_leaves [OF l assms(5) s(1)])
  have "sorted_set [a, b] = [a, b]" "sorted_set [b, a] = [a, b]" using assms(5) by (auto simp: sorted_set_def)
  then show ?thesis using assms(3,4) b s
    by (intro exI [of _ s]) (auto simp: switches_on_path_def leaf_of_def Let_def, auto simp: to_topology_def)
qed

text \<open>C24: In a fabric of two tiers, two nodes on different leaves that some switch links are reported to use exactly
  their two leaves and one switch on a route between them, and no route between the leaves is shorter.\<close>

theorem two_tier_path_exact:
  assumes "fab = parse_ibnetdiscover text" "two_tier fab"
    and "map_of (fb_node_leaf fab) m = Some a" "map_of (fb_node_leaf fab) n = Some b" "a \<noteq> b"
    and "route (fb_adjacency fab) a b [a, s0, b]"
  shows "\<exists>s ss. switches_on_path (build_fabric_topology text) [m, n] = Inr ss \<and> set ss = {a, s, b} \<and>
    route (fb_adjacency fab) a b [a, s, b] \<and> (\<forall>p. route (fb_adjacency fab) a b p \<longrightarrow> 3 \<le> length p)"
proof -
  have ok: "fabric_ok fab" using parsed_fabric_ok assms(1) by simp
  have l: "a \<in> set (fb_leaf_guids fab)" "b \<in> set (fb_leaf_guids fab)"
    using ok assms(3,4) by (force simp: fabric_ok_def dest: map_of_SomeD)+
  have "route (fb_adjacency fab) b a [b, s0, a]"
    using assms(6) ok by (auto simp: route_def neighbours_links fabric_ok_def)
  then have "\<exists>s ss. switches_on_path (to_topology fab) [m, n] = Inr ss \<and> set ss = {a, s, b} \<and> route (fb_adjacency fab) a b [a, s, b]"
    using two_tier_group [OF ok assms(2,3,4)] two_tier_group [OF ok assms(2,4,3)] assms(5,6) by (cases "a < b") fastforce+
  then show ?thesis using two_tier_route [OF ok assms(2) l assms(5)] by (auto simp: build_fabric_topology_def assms(1))
qed

text \<open>C25: The search for a route terminates and gives a shortest route, or nothing exactly when there is none.\<close>

theorem fabric_route_shortest:
  "\<exists>p. shortest_path adjacency src dst = Some p \<and> (if p = [] then \<forall>p'. \<not> route adjacency src dst p'
    else route adjacency src dst p \<and> (\<forall>p'. route adjacency src dst p' \<longrightarrow> length p \<le> length p'))"
  by (rule shortest_path_correct)

section \<open>Examples\<close>

text \<open>Leaves that are linked directly have no spine between them: the smallest spine of the fabric is reported
  instead, wherever it is.\<close>

lemma linked_leaves_default:
  assumes "a \<in> set (fb_leaf_guids fab)" "b \<in> set (fb_leaf_guids fab)" "a < b" "route_spine fab a b = None"
  shows "spine_between (to_topology fab) a b = ft_default_spine (to_topology fab)"
proof -
  have w: "sorted_wrt (<) (sorted_set (fb_leaf_guids fab))" by (simp add: strict_sorted_iff)
  have "map_of (ft_spine_route (to_topology fab)) (sorted_set [a, b]) = None"
    using assms leaf_pairs_mem [OF w]
    by (fastforce simp: to_topology_def map_of_eq_None_iff map_filter_def sorted_pair)
  then show ?thesis by (simp add: spine_between_def)
qed

definition example_fabric :: string where
  "example_fabric = concat (map (\<lambda>l. l @ [CHR 0x0A])
     [''Switch 2 \"A\" # \"leaf a\"'', ''[1] \"h1\"[1](0x10)'', ''[2] \"S\"[1]'', ''Switch 2 \"B\"'', ''[1](0x2) \"h2\"'', ''[2] \"S\"'', ''Switch 2 \"S\"'',
      ''Ca 1 \"h1\" # \"n1 mlx5_0\"'', ''Ca 1 \"h2\" # \"n2 mlx5_0\"''])"

lemma example_fabric_facts:
  "map_of (fb_node_leaf (parse_ibnetdiscover example_fabric)) ''n1'' = Some ''A''"
  "map_of (fb_node_leaf (parse_ibnetdiscover example_fabric)) ''n2'' = Some ''B''"
  "two_tier (parse_ibnetdiscover example_fabric)"
  "route (fb_adjacency (parse_ibnetdiscover example_fabric)) ''A'' ''B'' [''A'', ''S'', ''B'']"
  by code_simp+

theorem two_tier_path_exact_witness:
  "\<exists>s ss. switches_on_path (build_fabric_topology example_fabric) [''n1'', ''n2''] = Inr ss \<and> set ss = {''A'', s, ''B''}"
  using two_tier_path_exact [OF refl example_fabric_facts(3,1,2) _ example_fabric_facts(4)] by (auto dest: char.inject [THEN iffD1])

theorem fabric_route_shortest_witness:
  "\<exists>p. shortest_path [(''A'', [''S'']), (''S'', [''A'', ''B'']), (''B'', [''S''])] ''A'' ''B'' = Some p \<and> length p = 3"
proof -
  let ?g = "[(''A'', [''S'']), (''S'', [''A'', ''B'']), (''B'', [''S''])]"
  have r: "route ?g ''A'' ''B'' [''A'', ''S'', ''B'']" by code_simp
  obtain p where p: "shortest_path ?g ''A'' ''B'' = Some p"
      "if p = [] then \<forall>p'. \<not> route ?g ''A'' ''B'' p' else route ?g ''A'' ''B'' p \<and> (\<forall>p'. route ?g ''A'' ''B'' p' \<longrightarrow> length p \<le> length p')"
    using fabric_route_shortest [of ?g "''A''" "''B''"] by blast
  then have l: "route ?g ''A'' ''B'' p" "length p \<le> 3" using r by (auto split: if_splits)
  have "2 < length p" using l(1) by (cases p rule: remdups_adj.cases) (auto simp: route_def neighbours_def sorted_set_def)
  with p(1) l(2) show ?thesis by (intro exI [of _ p]) simp
qed

end
