(* ===== verification/Health.thy ===== *)
theory Health
  imports Prelude
begin

text \<open>
  \<open>lm_resiliency/detection/health\<close>: the telemetry source of one GPU and the monitor that classifies its readings and
  reports each fatal one once. Counters and temperatures are real numbers; a query of the driver library that raises is
  \<open>None\<close>; the texts of messages are left out.
\<close>

section \<open>Telemetry\<close>

record health_reading =
  hg_source :: string
  hg_device :: int
  hg_metric :: string
  hg_value :: real

text \<open>What the driver answers in one poll. A link is its recovery and its CRC counter.\<close>

record nvml_answers =
  na_ecc_uncorrected :: "real option"
  na_ecc_corrected :: "real option"
  na_remapped_rows :: "(bool \<times> bool) option"
  na_links :: "(real option \<times> real option) list"
  na_temperature :: "real option"
  na_shutdown :: "real option"

definition reading :: "int \<Rightarrow> string \<Rightarrow> real \<Rightarrow> health_reading" where
  "reading dev metric v = \<lparr>hg_source = ''nvml'', hg_device = dev, hg_metric = metric, hg_value = v\<rparr>"

definition ecc_readings :: "int \<Rightarrow> nvml_answers \<Rightarrow> health_reading list" where
  "ecc_readings dev a =
     (case na_ecc_uncorrected a of
        None \<Rightarrow> []
      | Some u \<Rightarrow> reading dev ''ecc_uncorrectable'' u #
          (case na_ecc_corrected a of None \<Rightarrow> [] | Some c \<Rightarrow> [reading dev ''ecc_correctable'' c]))"

definition remap_readings :: "int \<Rightarrow> nvml_answers \<Rightarrow> health_reading list" where
  "remap_readings dev a =
     (case na_remapped_rows a of
        None \<Rightarrow> []
      | Some (pending, failure) \<Rightarrow> [reading dev ''remap_pending'' (of_bool pending), reading dev ''remap_failure'' (of_bool failure)])"

text \<open>The loop over the links ends at the first query that raises; what was added stays.\<close>

fun link_errors :: "(real option \<times> real option) list \<Rightarrow> real \<Rightarrow> real" where
  "link_errors [] n = n"
| "link_errors ((None, _) # ls) n = n"
| "link_errors ((Some r, None) # ls) n = n + r"
| "link_errors ((Some r, Some c) # ls) n = link_errors ls (n + r + c)"

definition temperature_readings :: "int \<Rightarrow> nvml_answers \<Rightarrow> health_reading list" where
  "temperature_readings dev a =
     (case (na_temperature a, na_shutdown a) of
        (Some t, Some s) \<Rightarrow> [reading dev ''temperature'' t, reading dev ''temp_shutdown_limit'' s]
      | _ \<Rightarrow> [])"

definition nvml_read :: "int \<Rightarrow> nvml_answers option \<Rightarrow> health_reading list" where
  "nvml_read dev answers =
     (case answers of
        None \<Rightarrow> []
      | Some a \<Rightarrow>
          let out = ecc_readings dev a @ remap_readings dev a @ [reading dev ''nvlink_errors'' (link_errors (na_links a) 0)] @
            temperature_readings dev a
          in if out = [] then [reading dev ''device_lost'' 1] else out)"

section \<open>Classification\<close>

record health_config =
  hc_enable :: bool
  hc_fatal_on_uncorrectable_ecc :: bool
  hc_correctable_ecc_warn_rate :: int
  hc_fatal_on_remap_failure :: bool
  hc_nvlink_error_warn :: int
  hc_nvlink_error_fatal :: int
  hc_temp_warn_c :: int
  hc_temp_fatal_margin_c :: int
  hc_fatal_xids :: "int list"

definition default_health_config :: health_config where
  "default_health_config = \<lparr>hc_enable = True, hc_fatal_on_uncorrectable_ecc = True, hc_correctable_ecc_warn_rate = 100,
     hc_fatal_on_remap_failure = True, hc_nvlink_error_warn = 100, hc_nvlink_error_fatal = 10000, hc_temp_warn_c = 88,
     hc_temp_fatal_margin_c = 2, hc_fatal_xids = [48, 63, 64, 74, 79, 94, 95]\<rparr>"

datatype health_severity = HealthOk | HealthWarn | HealthFatal

type_synonym health_key = "int \<times> string"

record health_event =
  he_device :: int
  he_metric :: string
  he_value :: real

record health_monitor =
  hm_cfg :: health_config
  hm_prev :: "health_key \<Rightarrow> real option"
  hm_fired :: "health_key list"
  hm_warned :: "health_key list"

definition init_health_monitor :: "health_config \<Rightarrow> health_monitor" where
  "init_health_monitor cfg = \<lparr>hm_cfg = cfg, hm_prev = Map.empty, hm_fired = [], hm_warned = []\<rparr>"

definition reading_key :: "health_reading \<Rightarrow> health_key" where
  "reading_key r = (hg_device r, hg_metric r)"

definition event_key :: "health_event \<Rightarrow> health_key" where
  "event_key ev = (he_device ev, he_metric ev)"

text \<open>The increase since the last poll; none at the first one.\<close>

definition health_delta :: "health_monitor \<Rightarrow> health_reading \<Rightarrow> real" where
  "health_delta hm r = hg_value r - (case hm_prev hm (reading_key r) of Some p \<Rightarrow> p | None \<Rightarrow> hg_value r)"

definition shutdown_limits :: "health_reading list \<Rightarrow> int \<Rightarrow> real option" where
  "shutdown_limits rs = map_of (rev (map (\<lambda>r. (hg_device r, hg_value r)) (filter (\<lambda>r. hg_metric r = ''temp_shutdown_limit'') rs)))"

definition classify_reading :: "health_monitor \<Rightarrow> (int \<Rightarrow> real option) \<Rightarrow> health_reading \<Rightarrow> health_severity" where
  "classify_reading hm limits r =
     (let c = hm_cfg hm; v = hg_value r; m = hg_metric r; delta = health_delta hm r in
      if m = ''ecc_uncorrectable'' \<and> 0 < v \<and> hc_fatal_on_uncorrectable_ecc c then HealthFatal
      else if m = ''remap_failure'' \<and> 0 < v \<and> hc_fatal_on_remap_failure c then HealthFatal
      else if m = ''device_lost'' then HealthFatal
      else if m = ''xid'' then (if py_trunc v \<in> set (hc_fatal_xids c) then HealthFatal else HealthWarn)
      else if m = ''remap_pending'' \<and> 0 < v then HealthWarn
      else if m = ''nvlink_errors'' \<and> hc_nvlink_error_fatal c \<le> delta then HealthFatal
      else if m = ''nvlink_errors'' \<and> hc_nvlink_error_warn c \<le> delta then HealthWarn
      else if m = ''ecc_correctable'' \<and> hc_correctable_ecc_warn_rate c \<le> delta then HealthWarn
      else if m = ''temperature'' \<and> (case limits (hg_device r) of None \<Rightarrow> False | Some l \<Rightarrow> l \<noteq> 0 \<and> l - hc_temp_fatal_margin_c c \<le> v)
        then HealthFatal
      else if m = ''temperature'' \<and> hc_temp_warn_c c \<le> v then HealthWarn
      else HealthOk)"

section \<open>Polling\<close>

definition make_event :: "health_reading \<Rightarrow> health_event" where
  "make_event r = \<lparr>he_device = hg_device r, he_metric = hg_metric r, he_value = hg_value r\<rparr>"

text \<open>One reading: the monitor, and the event that is new. \<open>on_event\<close> tells whether the callback returns.\<close>

definition handle_reading :: "(int \<Rightarrow> real option) \<Rightarrow> health_reading \<Rightarrow> health_monitor \<Rightarrow> health_monitor \<times> health_event option" where
  "handle_reading limits r hm =
     (case classify_reading hm limits r of
        HealthOk \<Rightarrow> (hm, None)
      | HealthFatal \<Rightarrow>
          if reading_key r \<in> set (hm_fired hm) then (hm, None)
          else (hm\<lparr>hm_fired := hm_fired hm @ [reading_key r]\<rparr>, Some (make_event r))
      | HealthWarn \<Rightarrow>
          if reading_key r \<in> set (hm_warned hm) then (hm, None)
          else (hm\<lparr>hm_warned := hm_warned hm @ [reading_key r]\<rparr>, None))"

text \<open>The loop over the readings: the new events, and whether a callback raised, which ends the poll.\<close>

fun poll_readings ::
  "(health_event \<Rightarrow> bool) \<Rightarrow> (int \<Rightarrow> real option) \<Rightarrow> health_reading list \<Rightarrow> health_monitor \<Rightarrow> health_event list \<times> bool \<times> health_monitor" where
  "poll_readings on_event limits [] hm = ([], False, hm)"
| "poll_readings on_event limits (r # rs) hm =
     (case handle_reading limits r hm of
        (hm1, None) \<Rightarrow> poll_readings on_event limits rs hm1
      | (hm1, Some ev) \<Rightarrow>
          if \<not> on_event ev then ([ev], True, hm1)
          else let (evs, raised, hm2) = poll_readings on_event limits rs hm1 in (ev # evs, raised, hm2))"

definition keep_counters :: "health_reading list \<Rightarrow> health_monitor \<Rightarrow> health_monitor" where
  "keep_counters rs hm = hm\<lparr>hm_prev := fold (\<lambda>r prev. if hg_metric r \<in> {''ecc_correctable'', ''nvlink_errors''}
     then prev(reading_key r \<mapsto> hg_value r) else prev) rs (hm_prev hm)\<rparr>"

text \<open>A source that raises gives no readings.\<close>

definition poll_once ::
  "(health_event \<Rightarrow> bool) \<Rightarrow> health_reading list option list \<Rightarrow> health_monitor \<Rightarrow> health_event list \<times> bool \<times> health_monitor" where
  "poll_once on_event sources hm =
     (let rs = concat (map (\<lambda>s. case s of Some rs \<Rightarrow> rs | None \<Rightarrow> []) sources);
          (evs, raised, hm1) = poll_readings on_event (shutdown_limits rs) rs hm
      in (evs, raised, if raised then hm1 else keep_counters rs hm1))"

text \<open>The thread polls again and again; what a poll raises is logged.\<close>

fun poll_all :: "(health_event \<Rightarrow> bool) \<Rightarrow> health_reading list option list list \<Rightarrow> health_monitor \<Rightarrow> health_event list \<times> health_monitor" where
  "poll_all on_event [] hm = ([], hm)"
| "poll_all on_event (p # ps) hm =
     (let (evs, _, hm1) = poll_once on_event p hm; (evs', hm2) = poll_all on_event ps hm1 in (evs @ evs', hm2))"

section \<open>Every fault once\<close>

lemma handle_cases:
  assumes "handle_reading limits r hm = (hm', e)"
  shows "hm_cfg hm' = hm_cfg hm" "hm_prev hm' = hm_prev hm"
    "hm_fired hm' = hm_fired hm @ (case e of None \<Rightarrow> [] | Some ev \<Rightarrow> [event_key ev])"
    "e = Some ev \<Longrightarrow> ev = make_event r \<and> reading_key r \<notin> set (hm_fired hm) \<and> classify_reading hm limits r = HealthFatal"
    "classify_reading hm limits r = HealthFatal \<Longrightarrow> reading_key r \<in> set (hm_fired hm')"
  using assms by (auto simp: handle_reading_def event_key_def reading_key_def make_event_def split: health_severity.splits if_splits)

lemma classify_cong: "hm_cfg hm = hm_cfg hm' \<Longrightarrow> hm_prev hm = hm_prev hm' \<Longrightarrow> classify_reading hm limits r = classify_reading hm' limits r"
  by (simp add: classify_reading_def health_delta_def)

lemma poll_readings_events:
  assumes "poll_readings on_event limits rs hm = (evs, raised, hm')"
  shows "hm_cfg hm' = hm_cfg hm \<and> hm_prev hm' = hm_prev hm \<and> hm_fired hm' = hm_fired hm @ map event_key evs \<and>
    (distinct (hm_fired hm) \<longrightarrow> distinct (hm_fired hm @ map event_key evs)) \<and>
    (\<forall>ev \<in> set evs. \<exists>r \<in> set rs. ev = make_event r \<and> classify_reading hm limits r = HealthFatal) \<and>
    (\<not> raised \<longrightarrow> (\<forall>r \<in> set rs. classify_reading hm limits r = HealthFatal \<longrightarrow> reading_key r \<in> set (hm_fired hm')))"
  using assms
proof (induction rs arbitrary: hm evs raised)
  case (Cons r rs)
  obtain hm1 e where h: "handle_reading limits r hm = (hm1, e)" by (cases "handle_reading limits r hm")
  note c = handle_cases [OF h]
  have eq: "classify_reading hm1 limits x = classify_reading hm limits x" for x using classify_cong c(1,2) by metis
  show ?case
  proof (cases e)
    case None
    then have "poll_readings on_event limits rs hm1 = (evs, raised, hm')" using Cons.prems h by simp
    from Cons.IH [OF this] show ?thesis using c(1-3,5) None by (auto simp: eq simp del: distinct_append)
  next
    case (Some ev)
    note n = c(4) [OF Some]
    show ?thesis
    proof (cases "on_event ev")
      case True
      then obtain evs' where p: "poll_readings on_event limits rs hm1 = (evs', raised, hm')" "evs = ev # evs'"
        using Cons.prems h Some by (auto split: prod.splits)
      from Cons.IH [OF p(1)] show ?thesis using c n Some p(2)
        by (auto simp: eq event_key_def make_event_def reading_key_def)
    next
      case False
      then show ?thesis using Cons.prems h Some c n by (auto simp: event_key_def make_event_def reading_key_def)
    qed
  qed
qed simp

section \<open>Runs of polls\<close>

text \<open>The counters do not depend on what was reported: a poll that no callback cuts short is one step of them.\<close>

definition readings_of :: "health_reading list option list \<Rightarrow> health_reading list" where
  "readings_of p = concat (map (\<lambda>s. case s of Some rs \<Rightarrow> rs | None \<Rightarrow> []) p)"

definition counters_after :: "health_reading list option list list \<Rightarrow> health_config \<Rightarrow> health_monitor" where
  "counters_after ps cfg = fold (\<lambda>p. keep_counters (readings_of p)) ps (init_health_monitor cfg)"

text \<open>A poll in which a device shows a fatal value of a metric, against the counters of the polls before it.\<close>

definition fatal_at :: "health_config \<Rightarrow> health_reading list option list list \<Rightarrow> nat \<Rightarrow> health_key \<Rightarrow> bool" where
  "fatal_at cfg ps i key \<longleftrightarrow> (\<exists>r \<in> set (readings_of (ps ! i)). reading_key r = key \<and>
     classify_reading (counters_after (take i ps) cfg) (shutdown_limits (readings_of (ps ! i))) r = HealthFatal)"

lemma poll_once_readings:
  "poll_once on_event p hm = (let rs = readings_of p; (evs, raised, hm1) = poll_readings on_event (shutdown_limits rs) rs hm
      in (evs, raised, if raised then hm1 else keep_counters rs hm1))"
  by (simp add: poll_once_def readings_of_def)

lemma event_key_make [simp]: "event_key (make_event r) = reading_key r"
  by (simp add: event_key_def make_event_def reading_key_def)

lemma poll_all_distinct:
  assumes "poll_all on_event ps hm = (evs, hm')" "distinct (hm_fired hm)"
  shows "hm_fired hm' = hm_fired hm @ map event_key evs \<and> distinct (hm_fired hm')"
  using assms
proof (induction ps arbitrary: hm evs)
  case (Cons p ps)
  obtain evs1 raised hm1 where r: "poll_readings on_event (shutdown_limits (readings_of p)) (readings_of p) hm = (evs1, raised, hm1)"
    by (cases "poll_readings on_event (shutdown_limits (readings_of p)) (readings_of p) hm")
  obtain evs2 where a: "poll_all on_event ps (if raised then hm1 else keep_counters (readings_of p) hm1) = (evs2, hm')" "evs = evs1 @ evs2"
    using Cons.prems(1) by (auto simp: poll_once_readings r Let_def split: prod.splits)
  have "hm_fired hm1 = hm_fired hm @ map event_key evs1" "distinct (hm_fired hm1)"
    using poll_readings_events [OF r] Cons.prems(2) by (simp_all del: distinct_append)
  moreover have "hm_fired (if raised then hm1 else keep_counters (readings_of p) hm1) = hm_fired hm1" by (simp add: keep_counters_def)
  ultimately show ?case using Cons.IH [OF a(1)] by (auto simp: a(2) simp del: distinct_append)
qed simp

text \<open>Whatever the sources deliver and whichever callbacks raise, a fault of a device is handed to the callback at
  most once.\<close>

lemma health_fault_reported_once:
  "distinct (map event_key (fst (poll_all on_event ps (init_health_monitor cfg))))"
proof -
  obtain evs hm' where p: "poll_all on_event ps (init_health_monitor cfg) = (evs, hm')" by (cases "poll_all on_event ps (init_health_monitor cfg)")
  have "hm_fired (init_health_monitor cfg) = []" by (simp add: init_health_monitor_def)
  with poll_all_distinct [OF p] show ?thesis by (auto simp: p)
qed

lemma poll_quiet:
  assumes "\<forall>ev. on_event ev" "poll_readings on_event limits rs hm = (evs, raised, hm')"
  shows "\<not> raised"
  using assms(2)
proof (induction rs arbitrary: hm evs)
  case (Cons r rs)
  then show ?case using assms(1) by (auto split: prod.splits option.splits)
qed simp

definition same_counters :: "health_monitor \<Rightarrow> health_monitor \<Rightarrow> bool" where
  "same_counters hm hm' \<longleftrightarrow> hm_cfg hm = hm_cfg hm' \<and> hm_prev hm = hm_prev hm'"

lemma poll_all_snoc:
  assumes "\<forall>ev. on_event ev"
  shows "poll_all on_event (ps @ [p]) hm = (let (evs, hm1) = poll_all on_event ps hm; (evs', _, hm2) = poll_once on_event p hm1 in (evs @ evs', hm2))"
  by (induction ps arbitrary: hm) (auto simp: Let_def split: prod.splits)

lemma fatal_at_snoc: "i < length ps \<Longrightarrow> fatal_at cfg (ps @ [p]) i key \<longleftrightarrow> fatal_at cfg ps i key"
  by (simp add: fatal_at_def nth_append)

lemma poll_all_fatal:
  assumes "\<forall>ev. on_event ev" "poll_all on_event ps (init_health_monitor cfg) = (evs, hm')"
  shows "same_counters hm' (counters_after ps cfg) \<and> (key \<in> event_key ` set evs \<longleftrightarrow> (\<exists>i < length ps. fatal_at cfg ps i key))"
  using assms(2)
proof (induction ps arbitrary: evs hm' rule: rev_induct)
  case Nil
  then show ?case by (simp add: same_counters_def counters_after_def)
next
  case (snoc p ps)
  obtain evs1 hm1 where a: "poll_all on_event ps (init_health_monitor cfg) = (evs1, hm1)" by (cases "poll_all on_event ps (init_health_monitor cfg)")
  let ?rs = "readings_of p"
  obtain evs2 raised hm2 where r: "poll_readings on_event (shutdown_limits ?rs) ?rs hm1 = (evs2, raised, hm2)"
    by (cases "poll_readings on_event (shutdown_limits ?rs) ?rs hm1")
  have e: "evs = evs1 @ evs2" "hm' = keep_counters ?rs hm2"
    using snoc.prems poll_quiet [OF assms(1) r] by (auto simp: poll_all_snoc [OF assms(1)] a poll_once_readings r Let_def)
  note ih = snoc.IH [OF a] and pr = poll_readings_events [OF r]
  have "same_counters hm1 (counters_after ps cfg)" using ih by simp
  then have c: "classify_reading hm1 limits x = classify_reading (counters_after ps cfg) limits x" for limits x
    by (intro classify_cong) (simp_all add: same_counters_def)
  have f: "hm_fired hm1 = map event_key evs1" using poll_all_distinct [OF a] by (simp add: init_health_monitor_def)
  have new: "fatal_at cfg (ps @ [p]) (length ps) key \<longleftrightarrow> (\<exists>r \<in> set ?rs. reading_key r = key \<and> classify_reading hm1 (shutdown_limits ?rs) r = HealthFatal)"
    by (simp add: fatal_at_def c)
  have "key \<in> event_key ` set evs \<longleftrightarrow> key \<in> event_key ` set evs1 \<or> fatal_at cfg (ps @ [p]) (length ps) key"
  proof
    assume "key \<in> event_key ` set evs"
    then consider "key \<in> event_key ` set evs1" | ev where "ev \<in> set evs2" "key = event_key ev" by (auto simp: e(1))
    then show "key \<in> event_key ` set evs1 \<or> fatal_at cfg (ps @ [p]) (length ps) key"
    proof cases
      case 2
      then obtain r where "r \<in> set ?rs" "ev = make_event r" "classify_reading hm1 (shutdown_limits ?rs) r = HealthFatal" using pr by blast
      then show ?thesis using 2(2) unfolding new by auto
    qed simp
  next
    assume "key \<in> event_key ` set evs1 \<or> fatal_at cfg (ps @ [p]) (length ps) key"
    moreover have "hm_fired hm2 = map event_key evs" using pr f by (simp add: e(1))
    then have k: "set (hm_fired hm2) = event_key ` set evs" by simp
    moreover have "key \<in> set (hm_fired hm2)" if "fatal_at cfg (ps @ [p]) (length ps) key"
      using pr poll_quiet [OF assms(1) r] that unfolding new by blast
    ultimately show "key \<in> event_key ` set evs" by (auto simp: e(1))
  qed
  also have "\<dots> \<longleftrightarrow> (\<exists>i < length (ps @ [p]). fatal_at cfg (ps @ [p]) i key)"
    using ih fatal_at_snoc [of _ ps cfg p key] by (auto simp: less_Suc_eq)
  finally have "key \<in> event_key ` set evs \<longleftrightarrow> (\<exists>i < length (ps @ [p]). fatal_at cfg (ps @ [p]) i key)" .
  moreover have "same_counters hm' (counters_after (ps @ [p]) cfg)"
    using ih pr by (auto simp: e(2) same_counters_def counters_after_def keep_counters_def)
  ultimately show ?case by simp
qed

text \<open>C26: With callbacks that return, the faults reported are exactly those that were fatal in some poll, measured
  against the counters of the poll before, and each is reported once.\<close>

theorem health_faults_exact:
  assumes "\<forall>ev. on_event ev"
  shows "distinct (map event_key (fst (poll_all on_event ps (init_health_monitor cfg)))) \<and>
    event_key ` set (fst (poll_all on_event ps (init_health_monitor cfg))) = {key. \<exists>i < length ps. fatal_at cfg ps i key}"
proof -
  obtain evs hm' where p: "poll_all on_event ps (init_health_monitor cfg) = (evs, hm')" by (cases "poll_all on_event ps (init_health_monitor cfg)")
  from poll_all_fatal [OF assms p] health_fault_reported_once [of on_event ps cfg] show ?thesis by (auto simp: p)
qed

section \<open>A device that is gone\<close>

text \<open>The telemetry source never reports a device as lost, also when every query fails: the sum over the links, which
  swallows its failures, is always there.\<close>

lemma device_lost_never_read: "''device_lost'' \<notin> hg_metric ` set (nvml_read dev answers)"
  by (auto simp: nvml_read_def ecc_readings_def remap_readings_def temperature_readings_def reading_def Let_def split: option.splits)

section \<open>Examples\<close>

text \<open>A lost device shows as a counter that falls to zero, and its return as errors that all happened at once.\<close>

definition lost_answers :: nvml_answers where
  "lost_answers = \<lparr>na_ecc_uncorrected = None, na_ecc_corrected = None, na_remapped_rows = None, na_links = [(None, None)],
     na_temperature = None, na_shutdown = None\<rparr>"

definition link_answers :: "real \<Rightarrow> nvml_answers" where
  "link_answers n = \<lparr>na_ecc_uncorrected = None, na_ecc_corrected = None, na_remapped_rows = None, na_links = [(Some n, Some 0)],
     na_temperature = None, na_shutdown = None\<rparr>"

lemma lost_and_back:
  "map event_key (fst (poll_all (\<lambda>_. True) (map (\<lambda>a. [Some (nvml_read 0 (Some a))]) [link_answers 20000, lost_answers])
     (init_health_monitor default_health_config))) = []"
  "map event_key (fst (poll_all (\<lambda>_. True) (map (\<lambda>a. [Some (nvml_read 0 (Some a))]) [link_answers 20000, lost_answers, link_answers 20000])
     (init_health_monitor default_health_config))) = [(0, ''nvlink_errors'')]"
  by (simp_all add: poll_once_def nvml_read_def ecc_readings_def remap_readings_def temperature_readings_def link_answers_def lost_answers_def
      handle_reading_def classify_reading_def health_delta_def reading_key_def event_key_def make_event_def keep_counters_def reading_def
      init_health_monitor_def default_health_config_def Let_def)

theorem health_faults_exact_witness:
  "(0, ''nvlink_errors'') \<in> {key. \<exists>i < 3. fatal_at default_health_config
     (map (\<lambda>a. [Some (nvml_read 0 (Some a))]) [link_answers 20000, lost_answers, link_answers 20000]) i key}"
proof -
  let ?ps = "map (\<lambda>a. [Some (nvml_read 0 (Some a))]) [link_answers 20000, lost_answers, link_answers 20000]"
  have "event_key ` set (fst (poll_all (\<lambda>_. True) ?ps (init_health_monitor default_health_config))) =
      {key. \<exists>i < length ?ps. fatal_at default_health_config ?ps i key}"
    by (rule health_faults_exact [THEN conjunct2]) simp
  moreover have "(0, ''nvlink_errors'') \<in> event_key ` set (fst (poll_all (\<lambda>_. True) ?ps (init_health_monitor default_health_config)))"
    unfolding set_map [symmetric] lost_and_back(2) by simp
  moreover have "length ?ps = 3" by simp
  ultimately show ?thesis by metis
qed

end
