(* ===== verification/Temporal.thy ===== *)
theory Temporal
  imports Prelude "HOL-Library.AList"
begin

text \<open>
  Bounded baselines of replay timings (\<open>TemporalBaselineStore\<close> in \<open>lm_resiliency/detection/temporal.py\<close>). The ordered
  dictionary is a list of pairs, oldest first. Times are finite; the key of a baseline is opaque, its hash is not modelled.
\<close>

section \<open>The baseline store\<close>

record baseline =
  bl_peers :: "real list list"
  bl_group :: "real list"

record temporal =
  tp_window_size :: nat
  tp_min_samples :: nat
  tp_slowdown_ratio :: real
  tp_threshold_sigma :: real
  tp_max_keys :: int
  tp_baselines :: "(string \<times> baseline) list"

datatype temporal_error = TemporalValue string | PopFromEmpty | NoItems

definition init_temporal :: "nat \<Rightarrow> nat \<Rightarrow> real \<Rightarrow> real \<Rightarrow> int \<Rightarrow> temporal_error + temporal" where
  "init_temporal window_size min_samples slowdown_ratio threshold_sigma max_keys =
     (if window_size < 1 then Inl (TemporalValue ''window_size'')
      else if min_samples < 1 \<or> window_size < min_samples then Inl (TemporalValue ''min_samples'')
      else if slowdown_ratio \<le> 1 then Inl (TemporalValue ''slowdown_ratio'')
      else Inr \<lparr>tp_window_size = window_size, tp_min_samples = min_samples, tp_slowdown_ratio = slowdown_ratio,
                tp_threshold_sigma = threshold_sigma, tp_max_keys = max_keys, tp_baselines = []\<rparr>)"

text \<open>\<open>xs[-n:]\<close> for any integer \<open>n\<close>.\<close>

definition slice_last :: "int \<Rightarrow> 'a list \<Rightarrow> 'a list" where
  "slice_last n xs = (if 0 < n then drop (length xs - nat n) xs else drop (nat (- n)) xs)"

abbreviation recent :: "nat \<Rightarrow> 'a list \<Rightarrow> 'a list" where
  "recent n xs \<equiv> slice_last (int n) xs"

definition the_median :: "real list \<Rightarrow> real" where
  "the_median xs = (case median xs of None \<Rightarrow> 0 | Some m \<Rightarrow> m)"

definition is_slow_value :: "temporal \<Rightarrow> real \<Rightarrow> real list \<Rightarrow> bool" where
  "is_slow_value tp v history =
     (if length history < tp_min_samples tp then False
      else
        let center = the_median history;
            mad = the_median (map (\<lambda>sample. \<bar>sample - center\<bar>) history);
            robust_sigma = 14826 / 10000 * mad
        in max (center * tp_slowdown_ratio tp) (center + tp_threshold_sigma tp * robust_sigma) < v)"

record assessment =
  as_rank_bitmap :: "nat list"
  as_group_slowdown :: bool

definition assess :: "temporal \<Rightarrow> string \<Rightarrow> real list \<Rightarrow> assessment" where
  "assess tp key times_ms =
     (case map_of (tp_baselines tp) key of
        None \<Rightarrow> \<lparr>as_rank_bitmap = replicate (length times_ms) 0, as_group_slowdown = False\<rparr>
      | Some b \<Rightarrow>
          if length (bl_peers b) \<noteq> length times_ms
          then \<lparr>as_rank_bitmap = replicate (length times_ms) 0, as_group_slowdown = False\<rparr>
          else \<lparr>as_rank_bitmap = map (\<lambda>(v, history). if is_slow_value tp v history then 1 else 0) (zip times_ms (bl_peers b)),
                as_group_slowdown = is_slow_value tp (the_median times_ms) (bl_group b)\<rparr>)"

definition extend_baseline :: "nat \<Rightarrow> real list \<Rightarrow> baseline \<Rightarrow> baseline" where
  "extend_baseline w times_ms b =
     \<lparr>bl_peers = map (\<lambda>(history, v). recent w (history @ [v])) (zip (bl_peers b) times_ms),
      bl_group = recent w (bl_group b @ [the_median times_ms])\<rparr>"

definition observe_clean :: "string \<Rightarrow> real list \<Rightarrow> temporal \<Rightarrow> temporal_error + temporal" where
  "observe_clean key times_ms tp =
     (if times_ms = [] \<or> \<not> list_all (\<lambda>v. 0 \<le> v) times_ms then Inr tp
      else
        let b = (case map_of (tp_baselines tp) key of
                   Some b \<Rightarrow> if length (bl_peers b) \<noteq> length times_ms then \<lparr>bl_peers = map (\<lambda>_. []) times_ms, bl_group = []\<rparr> else b
                 | None \<Rightarrow> \<lparr>bl_peers = map (\<lambda>_. []) times_ms, bl_group = []\<rparr>);
            moved = AList.delete key (tp_baselines tp) @ [(key, extend_baseline (tp_window_size tp) times_ms b)]
        in if tp_max_keys tp < 0 then Inl PopFromEmpty
           else Inr (tp\<lparr>tp_baselines := drop (length moved - nat (tp_max_keys tp)) moved\<rparr>))"

section \<open>Saving and restoring\<close>

text \<open>A restored state is arbitrary data: finite numbers (a boolean is one), \<open>None\<close>, lists, dictionaries, or anything else.\<close>

datatype raw = RNone | RNum real | RList "raw list" | RDict "(string \<times> raw) list" | ROther

definition temporal_state_version :: real where "temporal_state_version = 1"

definition baseline_state :: "nat \<Rightarrow> baseline \<Rightarrow> raw" where
  "baseline_state w b = RDict
     [(''peers'', RList (map (\<lambda>history. RList (map RNum (recent w history))) (bl_peers b))),
      (''group'', RList (map RNum (recent w (bl_group b))))]"

definition temporal_state_dict :: "temporal \<Rightarrow> (string \<times> raw) list" where
  "temporal_state_dict tp =
     [(''version'', RNum temporal_state_version),
      (''baselines'', RDict (map (\<lambda>(key, b). (key, baseline_state (tp_window_size tp) b)) (tp_baselines tp)))]"

definition valid_history :: "nat \<Rightarrow> raw \<Rightarrow> real list" where
  "valid_history w v =
     (case v of RList vs \<Rightarrow> concat (map (\<lambda>x. case x of RNum r \<Rightarrow> if 0 \<le> r then [r] else [] | _ \<Rightarrow> []) (recent w vs)) | _ \<Rightarrow> [])"

definition restored_baseline :: "nat \<Rightarrow> raw \<Rightarrow> baseline option" where
  "restored_baseline w v =
     (case v of
        RDict kvs \<Rightarrow>
          (case (map_of kvs ''peers'', map_of kvs ''group'') of
             (Some (RList peers), Some (RList g)) \<Rightarrow>
               Some \<lparr>bl_peers = map (valid_history w) peers, bl_group = valid_history w (RList g)\<rparr>
           | _ \<Rightarrow> None)
      | _ \<Rightarrow> None)"

text \<open>The falsy values \<open>or\<close> replaces by an empty dictionary.\<close>

definition falsy :: "raw option \<Rightarrow> bool" where
  "falsy v = (case v of None \<Rightarrow> True | Some RNone \<Rightarrow> True | Some (RNum r) \<Rightarrow> r = 0 | Some (RList vs) \<Rightarrow> vs = [] | Some (RDict kvs) \<Rightarrow> kvs = [] | Some ROther \<Rightarrow> False)"

definition load_temporal_state :: "(string \<times> raw) list option \<Rightarrow> temporal \<Rightarrow> temporal_error + temporal" where
  "load_temporal_state state tp =
     (case state of
        None \<Rightarrow> Inr tp
      | Some kvs \<Rightarrow>
          if kvs = [] \<or> map_of kvs ''version'' \<noteq> Some (RNum temporal_state_version) then Inr tp
          else
            rbind (if falsy (map_of kvs ''baselines'') then Inr []
                   else case map_of kvs ''baselines'' of Some (RDict items) \<Rightarrow> Inr items | _ \<Rightarrow> Inl NoItems) (\<lambda>items.
            Inr (tp\<lparr>tp_baselines := concat (map (\<lambda>(key, v). case restored_baseline (tp_window_size tp) v of None \<Rightarrow> [] | Some b \<Rightarrow> [(key, b)])
              (slice_last (tp_max_keys tp) items))\<rparr>)))"

section \<open>The windows hold exactly the recent clean observations\<close>

text \<open>
  The observations that count for a key: those since the number of peers last changed. A round with no peers or a negative
  time counts for nothing.
\<close>

definition clean :: "real list \<Rightarrow> bool" where
  "clean ts \<longleftrightarrow> ts \<noteq> [] \<and> list_all (\<lambda>v. 0 \<le> v) ts"

fun current_run :: "real list list \<Rightarrow> real list list \<Rightarrow> real list list" where
  "current_run acc [] = acc"
| "current_run acc (ts # rest) =
     current_run (if \<not> clean ts then acc else if acc \<noteq> [] \<and> length (last acc) = length ts then acc @ [ts] else [ts]) rest"

definition window_of :: "nat \<Rightarrow> real list list \<Rightarrow> baseline" where
  "window_of w run =
     \<lparr>bl_peers = map (\<lambda>i. recent w (map (\<lambda>ts. ts ! i) run)) [0..<length (last run)],
      bl_group = recent w (map the_median run)\<rparr>"

definition rounds_of :: "string \<Rightarrow> (string \<times> real list) list \<Rightarrow> real list list" where
  "rounds_of key obs = map snd (filter (\<lambda>(k, ts). k = key) obs)"

fun observe_all :: "(string \<times> real list) list \<Rightarrow> temporal \<Rightarrow> temporal_error + temporal" where
  "observe_all [] tp = Inr tp"
| "observe_all ((key, ts) # obs) tp = rbind (observe_clean key ts tp) (observe_all obs)"

lemma recent_snoc: "recent w (recent w xs @ [x]) = recent w (xs @ [x])"
  by (cases "w \<le> length xs") (auto simp: slice_last_def Suc_diff_le)

lemma recent_length: "length (recent w xs) \<le> w \<or> w = 0"
  unfolding slice_last_def by simp arith

lemma recent_recent: "recent w (recent w xs) = recent w xs"
  by (auto simp: slice_last_def)

lemma window_extend:
  assumes "run \<noteq> []" "\<forall>us \<in> set run. length us = length ts"
  shows "extend_baseline w ts (window_of w run) = window_of w (run @ [ts])"
proof -
  have l: "length (last run) = length ts" using assms by simp
  have "map (\<lambda>(history, v). recent w (history @ [v])) (zip (map (\<lambda>i. recent w (map (\<lambda>ts. ts ! i) run)) [0..<length ts]) ts) =
      map (\<lambda>i. recent w (map (\<lambda>us. us ! i) (run @ [ts]))) [0..<length ts]"
    by (rule nth_equalityI) (simp_all add: recent_snoc)
  then show ?thesis by (simp add: extend_baseline_def window_of_def l recent_snoc)
qed

lemma window_single:
  "extend_baseline w ts \<lparr>bl_peers = map (\<lambda>_. []) ts, bl_group = []\<rparr> = window_of w [ts]"
proof -
  have "map (\<lambda>(history, v). recent w (history @ [v])) (zip (map (\<lambda>_. []) ts) ts) = map (\<lambda>i. recent w [ts ! i]) [0..<length ts]"
    by (rule nth_equalityI) simp_all
  then show ?thesis by (simp add: extend_baseline_def window_of_def)
qed

lemma current_run_snoc:
  "current_run acc (xs @ [ts]) = (let run = current_run acc xs in
     if \<not> clean ts then run else if run \<noteq> [] \<and> length (last run) = length ts then run @ [ts] else [ts])"
  by (induction xs arbitrary: acc) (simp_all add: Let_def)

lemma current_run_same_length:
  "\<forall>us \<in> set (current_run [] xs). length us = length (last (current_run [] xs)) \<and> clean us"
  by (induction xs rule: rev_induct) (auto simp: current_run_snoc Let_def)

lemma rounds_of_snoc: "rounds_of k (obs @ [(key, ts)]) = rounds_of k obs @ (if key = k then [ts] else [])"
  by (simp add: rounds_of_def)

lemma observe_all_append: "observe_all (xs @ ys) tp = rbind (observe_all xs tp) (observe_all ys)"
proof (induction xs tp rule: observe_all.induct)
  case (2 key ts obs tp)
  then show ?case by (cases "observe_clean key ts tp") simp_all
qed simp

text \<open>The configuration and the content of the store after clean rounds that fit.\<close>

definition tracks :: "(string \<times> real list) list \<Rightarrow> temporal \<Rightarrow> temporal \<Rightarrow> bool" where
  "tracks obs tp0 tp \<longleftrightarrow> tp\<lparr>tp_baselines := tp_baselines tp0\<rparr> = tp0 \<and> distinct (map fst (tp_baselines tp)) \<and>
     fst ` set (tp_baselines tp) = {k. current_run [] (rounds_of k obs) \<noteq> []} \<and>
     (\<forall>k b. map_of (tp_baselines tp) k = Some b \<longrightarrow> b = window_of (tp_window_size tp) (current_run [] (rounds_of k obs)))"

lemma current_run_Nil_iff: "current_run [] xs = [] \<longleftrightarrow> (\<forall>ts \<in> set xs. \<not> clean ts)"
  by (induction xs rule: rev_induct) (auto simp: current_run_snoc Let_def)

lemma tracks_step:
  assumes t: "tracks obs tp0 tp" and bound: "int (card {k. current_run [] (rounds_of k (obs @ [(key, ts)])) \<noteq> []}) \<le> tp_max_keys tp0"
  shows "\<exists>tp'. observe_clean key ts tp = Inr tp' \<and> tracks (obs @ [(key, ts)]) tp0 tp'"
proof (cases "clean ts")
  case False
  then have "observe_clean key ts tp = Inr tp" by (auto simp: observe_clean_def clean_def)
  moreover have "current_run [] (rounds_of k (obs @ [(key, ts)])) = current_run [] (rounds_of k obs)" for k
    using False by (simp add: rounds_of_snoc current_run_snoc)
  ultimately show ?thesis using t by (simp add: tracks_def)
next
  case True
  let ?run = "current_run [] (rounds_of key obs)" and ?new = "current_run [] (rounds_of key (obs @ [(key, ts)]))"
  let ?w = "tp_window_size tp" and ?e = "\<lparr>bl_peers = map (\<lambda>_. []) ts, bl_group = []\<rparr>"
  have cfg: "tp\<lparr>tp_baselines := tp_baselines tp0\<rparr> = tp0" and d: "distinct (map fst (tp_baselines tp))"
    and dom: "fst ` set (tp_baselines tp) = {k. current_run [] (rounds_of k obs) \<noteq> []}"
    and val: "map_of (tp_baselines tp) k = Some b \<Longrightarrow> b = window_of ?w (current_run [] (rounds_of k obs))" for k b
    using t by (simp_all add: tracks_def)
  define b where "b = (case map_of (tp_baselines tp) key of
      Some b \<Rightarrow> if length (bl_peers b) \<noteq> length ts then ?e else b | None \<Rightarrow> ?e)"
  have new: "?new = (if ?run \<noteq> [] \<and> length (last ?run) = length ts then ?run @ [ts] else [ts])"
    using True by (simp add: rounds_of_snoc current_run_snoc Let_def)
  have ext: "extend_baseline ?w ts b = window_of ?w ?new"
  proof (cases "map_of (tp_baselines tp) key")
    case None
    then have "?run = []" using dom by (auto simp: map_of_eq_None_iff)
    then show ?thesis using None by (simp add: b_def new window_single)
  next
    case (Some c)
    then have c: "c = window_of ?w ?run" using val by blast
    have "key \<in> fst ` set (tp_baselines tp)" using Some by (force dest: map_of_SomeD)
    then have "?run \<noteq> []" unfolding dom by simp
    have lc: "length (bl_peers c) = length (last ?run)" by (simp add: c window_of_def)
    show ?thesis
    proof (cases "length (last ?run) = length ts")
      case True
      have "\<forall>us \<in> set ?run. length us = length ts" using current_run_same_length [of "rounds_of key obs"] True by metis
      then have "extend_baseline ?w ts c = window_of ?w (?run @ [ts])" unfolding c by (rule window_extend [OF \<open>?run \<noteq> []\<close>])
      then show ?thesis unfolding new b_def Some using lc True \<open>?run \<noteq> []\<close> by simp
    next
      case False
      then show ?thesis unfolding new b_def Some using lc window_single by simp
    qed
  qed
  define moved where "moved = AList.delete key (tp_baselines tp) @ [(key, window_of ?w ?new)]"
  have keys: "fst ` set moved = {k. current_run [] (rounds_of k (obs @ [(key, ts)])) \<noteq> []}"
  proof -
    have "set (map fst moved) = insert key (set (map fst (tp_baselines tp)))" by (auto simp: moved_def delete_keys)
    moreover have "current_run [] (rounds_of k (obs @ [(key, ts)])) = current_run [] (rounds_of k obs)" if "k \<noteq> key" for k
      using that by (simp add: rounds_of_snoc)
    moreover have "?new \<noteq> []" unfolding new by simp
    ultimately show ?thesis using dom by (auto simp del: map_append) metis+
  qed
  have dm: "distinct (map fst moved)"
    using d distinct_delete [of "tp_baselines tp" key] by (simp add: moved_def delete_keys)
  have "length moved = card (fst ` set moved)" using dm distinct_card [of "map fst moved"] by simp
  then have len: "int (length moved) \<le> tp_max_keys tp"
    using bound cfg unfolding keys by (metis temporal.select_convs(5) temporal.surjective temporal.update_convs(6))
  then have o: "observe_clean key ts tp = Inr (tp\<lparr>tp_baselines := moved\<rparr>)"
    using True ext by (auto simp: observe_clean_def clean_def Let_def b_def [symmetric] moved_def)
  have "b' = window_of ?w (current_run [] (rounds_of k (obs @ [(key, ts)])))" if "map_of moved k = Some b'" for k b'
  proof (cases "k = key")
    case True
    then have "map_of (AList.delete key (tp_baselines tp)) k = None" by (simp add: delete_conv')
    then show ?thesis using that True by (simp add: moved_def map_add_def)
  next
    case False
    then show ?thesis using that val [of k b'] by (simp add: moved_def map_add_def delete_conv' rounds_of_snoc split: if_splits option.splits)
  qed
  then show ?thesis using o cfg dm keys by (simp add: tracks_def) 
qed

lemma tracks_all:
  assumes "int (card (fst ` set obs)) \<le> tp_max_keys tp0" "tp_baselines tp0 = []"
  shows "\<exists>tp. observe_all obs tp0 = Inr tp \<and> tracks obs tp0 tp"
  using assms(1)
proof (induction obs rule: rev_induct)
  case Nil
  then show ?case using assms(2) by (simp add: tracks_def rounds_of_def)
next
  case (snoc x obs)
  obtain key ts where x: "x = (key, ts)" by force
  have "card (fst ` set obs) \<le> card (fst ` set (obs @ [x]))" by (intro card_mono) auto
  then obtain tp where tp: "observe_all obs tp0 = Inr tp" "tracks obs tp0 tp" using snoc by fastforce
  have "{k. current_run [] (rounds_of k (obs @ [(key, ts)])) \<noteq> []} \<subseteq> fst ` set (obs @ [x])"
    by (force simp: current_run_Nil_iff rounds_of_def x)
  then have "card {k. current_run [] (rounds_of k (obs @ [(key, ts)])) \<noteq> []} \<le> card (fst ` set (obs @ [x]))" by (intro card_mono) auto
  then have "int (card {k. current_run [] (rounds_of k (obs @ [(key, ts)])) \<noteq> []}) \<le> tp_max_keys tp0" using snoc.prems by linarith
  from tracks_step [OF tp(2) this] show ?case using tp(1) by (auto simp: observe_all_append x)
qed

lemma init_temporal_Inr: "init_temporal w m r s mk = Inr tp0 \<Longrightarrow>
    tp_baselines tp0 = [] \<and> tp_max_keys tp0 = mk \<and> tp_window_size tp0 = w \<and> 1 \<le> w"
  by (auto simp: init_temporal_def split: if_splits)

lemma tracks_config: "tracks obs tp0 tp \<Longrightarrow> tp_window_size tp = tp_window_size tp0 \<and> tp_max_keys tp = tp_max_keys tp0"
  by (cases tp; cases tp0) (simp add: tracks_def)

text \<open>C27: As long as no more keys are observed than the store keeps, the history of a key is exactly the last window of its
  clean rounds since its number of peers last changed, peer by peer and for the group median.\<close>

theorem temporal_windows_exact:
  assumes "init_temporal w m r s mk = Inr tp0" "int (card (fst ` set obs)) \<le> mk"
  shows "\<exists>tp. observe_all obs tp0 = Inr tp \<and>
    (\<forall>key. map_of (tp_baselines tp) key =
       (let run = current_run [] (rounds_of key obs) in if run = [] then None else Some (window_of w run)))"
proof -
  note i = init_temporal_Inr [OF assms(1)]
  obtain tp where tp: "observe_all obs tp0 = Inr tp" "tracks obs tp0 tp" using tracks_all assms(2) i by metis
  have "map_of (tp_baselines tp) key = (let run = current_run [] (rounds_of key obs) in if run = [] then None else Some (window_of w run))"
    for key
  proof (cases "map_of (tp_baselines tp) key")
    case None
    then have "key \<notin> fst ` set (tp_baselines tp)" by (simp add: map_of_eq_None_iff)
    then show ?thesis using tp(2) None by (simp add: tracks_def)
  next
    case (Some b)
    then have "key \<in> fst ` set (tp_baselines tp)" by (force dest: map_of_SomeD)
    then have "current_run [] (rounds_of key obs) \<noteq> []" using tp(2) by (simp add: tracks_def)
    moreover have "b = window_of w (current_run [] (rounds_of key obs))" using tp(2) Some tracks_config [OF tp(2)] i by (simp add: tracks_def)
    ultimately show ?thesis using Some by (simp add: Let_def)
  qed
  then show ?thesis using tp(1) by blast
qed

lemma valid_history_numbers:
  assumes "list_all (\<lambda>v. 0 \<le> v) vs"
  shows "valid_history w (RList (map RNum (recent w vs))) = recent w vs"
proof -
  have "list_all (\<lambda>v. 0 \<le> v) (recent w vs)" using assms by (auto simp: slice_last_def list_all_iff dest: in_set_dropD)
  moreover have "recent w (map RNum (recent w vs)) = map RNum (recent w vs)"
    by (simp add: slice_last_def drop_map [symmetric] del: drop_map) 
  moreover have "concat (map (\<lambda>x. case x of RNum r \<Rightarrow> if 0 \<le> r then [r] else [] | _ \<Rightarrow> []) (map RNum us)) = us"
    if "list_all (\<lambda>v. 0 \<le> v) us" for us
    using that by (induction us) auto
  ultimately show ?thesis by (simp add: valid_history_def)
qed

lemma window_nonneg:
  assumes "\<forall>us \<in> set run. length us = length (last run) \<and> clean us" "run \<noteq> []"
  shows "h \<in> set (bl_peers (window_of w run)) \<or> h = bl_group (window_of w run) \<Longrightarrow> list_all (\<lambda>v. 0 \<le> v) h \<and> recent w h = h"
proof -
  have med: "0 \<le> the_median us" if "clean us" for us
  proof -
    have "us \<noteq> []" using that by (simp add: clean_def)
    then obtain m where m: "median us = Some m" by (metis median_None_iff option.exhaust)
    moreover have "0 \<le> m" using median_bounds [OF m, of 0 "Max (set us)"] that by (auto simp: clean_def list_all_iff)
    ultimately show ?thesis by (simp add: the_median_def)
  qed
  have sub: "set (recent w xs) \<subseteq> set xs" for xs :: "real list" by (auto simp: slice_last_def dest: in_set_dropD)
  assume "h \<in> set (bl_peers (window_of w run)) \<or> h = bl_group (window_of w run)"
  then consider i where "i < length (last run)" "h = recent w (map (\<lambda>ts. ts ! i) run)" | "h = recent w (map the_median run)"
    by (auto simp: window_of_def)
  then show ?thesis
  proof cases
    case 1
    have "0 \<le> us ! i" if us: "us \<in> set run" for us
    proof -
      have "length us = length (last run)" "clean us" using assms(1) us by blast+
      then have "i < length us" "list_all (\<lambda>v. 0 \<le> v) us" using 1(1) by (simp_all add: clean_def)
      then show ?thesis by (simp add: list_all_length)
    qed
    then have "set (map (\<lambda>ts. ts ! i) run) \<subseteq> {v. 0 \<le> v}" by auto
    then have "set h \<subseteq> {v. 0 \<le> v}" unfolding 1(2) using sub by (rule subset_trans [rotated])
    then show ?thesis using 1(2) by (auto simp: list_all_iff recent_recent)
  next
    case 2
    have "set (map the_median run) \<subseteq> {v. 0 \<le> v}" using assms med by auto
    then have "set h \<subseteq> {v. 0 \<le> v}" unfolding 2 using sub by (rule subset_trans [rotated])
    then show ?thesis using 2 by (auto simp: list_all_iff recent_recent)
  qed
qed

lemma restored_window:
  assumes "\<And>h. h \<in> set (bl_peers b) \<or> h = bl_group b \<Longrightarrow> list_all (\<lambda>v. 0 \<le> v) h \<and> recent w h = h"
  shows "restored_baseline w (baseline_state w b) = Some b"
proof -
  have "valid_history w (RList (map RNum (recent w h))) = h" if "h \<in> set (bl_peers b) \<or> h = bl_group b" for h
    using valid_history_numbers assms [OF that] by metis
  then have "map (\<lambda>history. valid_history w (RList (map RNum (recent w history)))) (bl_peers b) = bl_peers b"
    "valid_history w (RList (map RNum (recent w (bl_group b)))) = bl_group b"
    by (auto intro: map_idI)
  then show ?thesis by (simp add: restored_baseline_def baseline_state_def comp_def)
qed

text \<open>A store saved after any such sequence of rounds and loaded into a fresh store of the same configuration is the
  same store: every later assessment and observation is the one it would have been without the restart.\<close>

theorem temporal_state_round_trip:
  assumes "init_temporal w m r s mk = Inr tp0" "int (card (fst ` set obs)) \<le> mk" "observe_all obs tp0 = Inr tp"
  shows "load_temporal_state (Some (temporal_state_dict tp)) tp0 = Inr tp"
proof -
  note i = init_temporal_Inr [OF assms(1)]
  have t: "tracks obs tp0 tp" using tracks_all [of obs tp0] assms(2,3) i by auto
  note c = tracks_config [OF t]
  have len: "int (length (tp_baselines tp)) \<le> mk"
  proof -
    have d: "distinct (map fst (tp_baselines tp))" and dom: "fst ` set (tp_baselines tp) = {k. current_run [] (rounds_of k obs) \<noteq> []}"
      using t by (simp_all add: tracks_def)
    have "fst ` set (tp_baselines tp) \<subseteq> fst ` set obs" unfolding dom by (force simp: current_run_Nil_iff rounds_of_def)
    then have "card (fst ` set (tp_baselines tp)) \<le> card (fst ` set obs)" by (intro card_mono) auto
    then show ?thesis using assms(2) distinct_card [OF d] by simp
  qed
  have "restored_baseline w (baseline_state w b) = Some b" if "(k, b) \<in> set (tp_baselines tp)" for k b
  proof (rule restored_window)
    have m: "map_of (tp_baselines tp) k = Some b" using t that by (simp add: tracks_def)
    then have b: "b = window_of w (current_run [] (rounds_of k obs))" using t c i by (simp add: tracks_def)
    have "k \<in> fst ` set (tp_baselines tp)" using that by force
    then have ne: "current_run [] (rounds_of k obs) \<noteq> []" using t by (simp add: tracks_def)
    show "list_all (\<lambda>v. 0 \<le> v) h \<and> recent w h = h" if "h \<in> set (bl_peers b) \<or> h = bl_group b" for h
      using window_nonneg [OF current_run_same_length ne] that unfolding b by blast
  qed
  then have "concat (map (\<lambda>(key, v). case restored_baseline w v of None \<Rightarrow> [] | Some b \<Rightarrow> [(key, b)])
      (map (\<lambda>(key, b). (key, baseline_state w b)) bs)) = bs" if "set bs \<subseteq> set (tp_baselines tp)" for bs
    using that by (induction bs) (auto split: option.splits)
  moreover have "slice_last mk xs = xs" if "length xs = length (tp_baselines tp)" for xs :: "(string \<times> raw) list"
    using len that by (simp add: slice_last_def)
  ultimately have r: "concat (map (\<lambda>(key, v). case restored_baseline w v of None \<Rightarrow> [] | Some b \<Rightarrow> [(key, b)])
      (slice_last mk (map (\<lambda>(key, b). (key, baseline_state w b)) (tp_baselines tp)))) = tp_baselines tp"
    by simp
  have "tp0\<lparr>tp_baselines := tp_baselines tp\<rparr> = tp" using t by (cases tp; cases tp0) (simp add: tracks_def)
  moreover have "slice_last mk [] = ([] :: (string \<times> raw) list)" by (simp add: slice_last_def)
  ultimately show ?thesis
    using r c i by (auto simp: load_temporal_state_def temporal_state_dict_def falsy_def temporal_state_version_def)
qed

theorem temporal_windows_exact_witness:
  "\<exists>tp0 tp. init_temporal 2 1 2 4 8 = Inr tp0 \<and>
     observe_all [(''k'', [1, 9]), (''k'', [2, 8]), (''k'', [-1, 7]), (''k'', [3, 7])] tp0 = Inr tp \<and>
     map_of (tp_baselines tp) ''k'' = Some \<lparr>bl_peers = [[2, 3], [8, 7]], bl_group = [5, 5]\<rparr>"
proof -
  let ?obs = "[(''k'', [1, 9]), (''k'', [2, 8]), (''k'', [-1, 7]), (''k'', [3, 7])] :: (string \<times> real list) list"
  obtain tp0 where i: "init_temporal 2 1 2 4 8 = Inr tp0" by (simp add: init_temporal_def)
  have "int (card (fst ` set ?obs)) \<le> 8" by simp
  from temporal_windows_exact [OF i this] obtain tp where tp: "observe_all ?obs tp0 = Inr tp"
    "map_of (tp_baselines tp) ''k'' = (let run = current_run [] (rounds_of ''k'' ?obs) in if run = [] then None else Some (window_of 2 run))"
    by blast
  have "window_of 2 (current_run [] (rounds_of ''k'' ?obs)) = \<lparr>bl_peers = [[2, 3], [8, 7]], bl_group = [5, 5]\<rparr>" by code_simp
  moreover have "current_run [] (rounds_of ''k'' ?obs) \<noteq> []" by (simp add: rounds_of_def clean_def)
  ultimately show ?thesis using i tp by (simp add: Let_def)
qed

theorem temporal_state_round_trip_witness:
  "\<exists>tp0 tp. observe_all [(''k'', [1, 9]), (''k'', [2, 8])] tp0 = Inr tp \<and> tp_baselines tp \<noteq> [] \<and>
     load_temporal_state (Some (temporal_state_dict tp)) tp0 = Inr tp"
proof -
  let ?obs = "[(''k'', [1, 9]), (''k'', [2, 8])] :: (string \<times> real list) list"
  obtain tp0 where i: "init_temporal 2 1 2 4 8 = Inr tp0" by (simp add: init_temporal_def)
  have n: "int (card (fst ` set ?obs)) \<le> 8" by simp
  obtain tp where tp: "observe_all ?obs tp0 = Inr tp" "tracks ?obs tp0 tp" using tracks_all [of ?obs tp0] init_temporal_Inr [OF i] n by auto
  have "current_run [] (rounds_of ''k'' ?obs) \<noteq> []" by (simp add: rounds_of_def clean_def)
  then have "''k'' \<in> fst ` set (tp_baselines tp)" using tp(2) unfolding tracks_def by blast
  then have "tp_baselines tp \<noteq> []" by auto
  then show ?thesis using temporal_state_round_trip [OF i n tp(1)] tp(1) by blast
qed

end
