(* ===== verification/Op_Tracker.thy ===== *)
theory Op_Tracker
  imports Prelude "HOL-Library.Product_Lexorder"
begin

text \<open>
  The progress a training process publishes in shared memory (\<open>lm_resiliency/detection/op_tracker.py\<close>): the calls of
  \<open>OpTracker\<close> with the snapshot they pack, and who may own a channel. Packing refuses a field outside 64 bits.
\<close>

section \<open>What the training process publishes\<close>

datatype diagnostic_stage = NoStage | DataLoading | CheckpointRead | CheckpointWrite

definition stage_value :: "diagnostic_stage \<Rightarrow> int" where
  "stage_value s = (case s of NoStage \<Rightarrow> 0 | DataLoading \<Rightarrow> 1 | CheckpointRead \<Rightarrow> 2 | CheckpointWrite \<Rightarrow> 3)"

definition stage_of :: "int \<Rightarrow> diagnostic_stage" where
  "stage_of v = (if v = 1 then DataLoading else if v = 2 then CheckpointRead else if v = 3 then CheckpointWrite else NoStage)"

record stage_token =
  st_kind :: diagnostic_stage
  st_key :: int
  st_sequence :: int
  st_started_ns :: int

record snapshot =
  sn_op_id :: int
  sn_heartbeat :: real
  sn_step :: int
  sn_metadata :: int
  sn_active :: stage_token
  sn_completed :: stage_token

text \<open>In \<open>sn_completed\<close> the last field is the duration of the stage.\<close>

definition no_token :: stage_token where
  "no_token = \<lparr>st_kind = NoStage, st_key = 0, st_sequence = 0, st_started_ns = 0\<rparr>"

datatype tracker_error = StructError | NotMeasurable | AlreadyActive | TokenMismatch | ChannelExists | BadToken | BadLayout

record tracker =
  tk_op_id :: int
  tk_step :: int
  tk_metadata :: int
  tk_stage_counts :: "diagnostic_stage \<times> int \<Rightarrow> int"
  tk_active :: stage_token
  tk_completed :: stage_token
  tk_last_signal_ns :: int
  tk_signalled :: bool
  tk_shm :: snapshot

definition int64_range :: "int \<Rightarrow> bool" where
  "int64_range i = (- (2 ^ 63) \<le> i \<and> i < 2 ^ 63)"

definition progress_signal_interval_ns :: int where
  "progress_signal_interval_ns = 500000000"

definition signal_progress :: "bool \<Rightarrow> int \<Rightarrow> tracker \<Rightarrow> tracker" where
  "signal_progress force now_ns tk =
     (if force \<or> progress_signal_interval_ns \<le> now_ns - tk_last_signal_ns tk
      then tk\<lparr>tk_signalled := True, tk_last_signal_ns := now_ns\<rparr> else tk)"

definition packed :: "real \<Rightarrow> tracker \<Rightarrow> snapshot" where
  "packed heartbeat tk =
     \<lparr>sn_op_id = tk_op_id tk, sn_heartbeat = heartbeat, sn_step = tk_step tk, sn_metadata = tk_metadata tk,
      sn_active = tk_active tk, sn_completed = tk_completed tk\<rparr>"

definition packable :: "tracker \<Rightarrow> bool" where
  "packable tk = list_all int64_range
     [tk_op_id tk, tk_step tk, tk_metadata tk,
      st_key (tk_active tk), st_sequence (tk_active tk), st_started_ns (tk_active tk),
      st_key (tk_completed tk), st_sequence (tk_completed tk), st_started_ns (tk_completed tk)]"

text \<open>\<open>clock\<close> is what \<open>time.time()\<close> and \<open>time.monotonic_ns()\<close> return while the call runs.\<close>

type_synonym clock = "real \<times> int"

definition write_progress :: "bool \<Rightarrow> clock \<Rightarrow> tracker \<Rightarrow> (tracker_error + unit) \<times> tracker" where
  "write_progress force clk tk =
     (if packable tk then (Inr (), signal_progress force (snd clk) (tk\<lparr>tk_shm := packed (fst clk) tk\<rparr>))
      else (Inl StructError, tk))"

definition advance :: "int \<Rightarrow> bool \<Rightarrow> clock \<Rightarrow> tracker \<Rightarrow> (tracker_error + unit) \<times> tracker" where
  "advance fingerprint force clk tk =
     write_progress (force \<or> fingerprint \<noteq> 0) clk (tk\<lparr>tk_op_id := tk_op_id tk + 1, tk_metadata := fingerprint\<rparr>)"

definition step_boundary :: "clock \<Rightarrow> tracker \<Rightarrow> (tracker_error + unit) \<times> tracker" where
  "step_boundary clk tk =
     write_progress True clk (tk\<lparr>tk_step := tk_step tk + 1, tk_op_id := 0, tk_metadata := 0\<rparr>)"

definition stage_started :: "diagnostic_stage \<Rightarrow> int \<Rightarrow> clock \<Rightarrow> tracker \<Rightarrow> (tracker_error + stage_token) \<times> tracker" where
  "stage_started kind key clk tk =
     (if kind = NoStage then (Inl NotMeasurable, tk)
      else if st_kind (tk_active tk) \<noteq> NoStage then (Inl AlreadyActive, tk)
      else
        let sequence = tk_stage_counts tk (kind, key) + 1;
            token = \<lparr>st_kind = kind, st_key = key, st_sequence = sequence, st_started_ns = snd clk\<rparr>;
            (r, tk') = write_progress True clk
              (tk\<lparr>tk_stage_counts := (tk_stage_counts tk)((kind, key) := sequence), tk_active := token,
                  tk_metadata := 0, tk_op_id := tk_op_id tk + 1\<rparr>)
        in (rbind r (\<lambda>_. Inr token), tk'))"

definition stage_finished :: "stage_token \<Rightarrow> clock \<Rightarrow> tracker \<Rightarrow> (tracker_error + int) \<times> tracker" where
  "stage_finished token clk tk =
     (if tk_active tk \<noteq> token then (Inl TokenMismatch, tk)
      else
        let duration_ns = max 0 (snd clk - st_started_ns token);
            (r, tk') = write_progress True clk
              (tk\<lparr>tk_completed := token\<lparr>st_started_ns := duration_ns\<rparr>, tk_active := no_token, tk_op_id := tk_op_id tk + 1\<rparr>)
        in (rbind r (\<lambda>_. Inr duration_ns), tk'))"

definition init_tracker :: "clock \<Rightarrow> tracker" where
  "init_tracker clk =
     (let tk = \<lparr>tk_op_id = 0, tk_step = 0, tk_metadata = 0, tk_stage_counts = (\<lambda>_. 0), tk_active = no_token,
                tk_completed = no_token, tk_last_signal_ns = 0, tk_signalled = False,
                tk_shm = \<lparr>sn_op_id = 0, sn_heartbeat = 0, sn_step = 0, sn_metadata = 0, sn_active = no_token, sn_completed = no_token\<rparr>\<rparr>
      in signal_progress True (snd clk) (tk\<lparr>tk_shm := packed (fst clk) tk\<rparr>))"

section \<open>The shared-memory channel\<close>

text \<open>A segment is its size, the owner's process and token; segments live in a name space of the machine.\<close>

record segment =
  sg_size :: nat
  sg_owner_pid :: int
  sg_token :: bytes

definition owner_size :: nat where "owner_size = 24"
definition shm_size :: nat where "shm_size = owner_size + 96"

type_synonym segments = "string \<Rightarrow> segment option"

definition claim_channel ::
  "(int \<Rightarrow> bool) \<Rightarrow> string \<Rightarrow> int \<Rightarrow> bytes \<Rightarrow> segments \<Rightarrow> tracker_error + segments" where
  "claim_channel pid_is_alive name pid token sg =
     (if length token \<noteq> 16 then Inl BadToken
      else rbind (case sg name of
             None \<Rightarrow> Inr ()
           | Some existing \<Rightarrow>
               if sg_size existing < owner_size then Inl ChannelExists
               else if pid_is_alive (sg_owner_pid existing) then Inl ChannelExists
               else Inr ())
        (\<lambda>_. Inr (sg(name \<mapsto> \<lparr>sg_size = shm_size, sg_owner_pid = pid, sg_token = token\<rparr>))))"

definition release_channel :: "string \<Rightarrow> bytes \<Rightarrow> segments \<Rightarrow> segments" where
  "release_channel name token sg =
     (case sg name of
        None \<Rightarrow> sg
      | Some current \<Rightarrow> if sg_token current = token then sg(name := None) else sg)"

definition attach_reader :: "string \<Rightarrow> bytes \<Rightarrow> segments \<Rightarrow> tracker_error + bool" where
  "attach_reader name token sg =
     (case sg name of
        None \<Rightarrow> Inr False
      | Some candidate \<Rightarrow>
          if sg_size candidate < shm_size then Inl BadLayout
          else if sg_token candidate \<noteq> token then Inl TokenMismatch
          else Inr True)"

text \<open>A reader that has no segment sees this.\<close>

definition unattached_snapshot :: snapshot where
  "unattached_snapshot = \<lparr>sn_op_id = -1, sn_heartbeat = 0, sn_step = -1, sn_metadata = 0, sn_active = no_token, sn_completed = no_token\<rparr>"

section \<open>Every call publishes new progress\<close>

datatype tracker_call = Advance int bool | StepBoundary | StageStarted diagnostic_stage int | StageFinished stage_token

definition run_tracker_call :: "tracker_call \<Rightarrow> clock \<Rightarrow> tracker \<Rightarrow> (tracker_error + unit) \<times> tracker" where
  "run_tracker_call c clk tk =
     (case c of
        Advance fingerprint force \<Rightarrow> advance fingerprint force clk tk
      | StepBoundary \<Rightarrow> step_boundary clk tk
      | StageStarted kind key \<Rightarrow> (case stage_started kind key clk tk of (r, tk') \<Rightarrow> (rbind r (\<lambda>_. Inr ()), tk'))
      | StageFinished token \<Rightarrow> (case stage_finished token clk tk of (r, tk') \<Rightarrow> (rbind r (\<lambda>_. Inr ()), tk')))"

definition progress_of :: "snapshot \<Rightarrow> int \<times> int" where
  "progress_of sn = (sn_step sn, sn_op_id sn)"

definition tracker_inv :: "tracker \<Rightarrow> bool" where
  "tracker_inv tk \<longleftrightarrow> 0 \<le> tk_op_id tk \<and> 0 \<le> sn_op_id (tk_shm tk) \<and> progress_of (tk_shm tk) \<le> (tk_step tk, tk_op_id tk)"

lemma init_tracker_inv: "tracker_inv (init_tracker clk)"
  by (simp add: init_tracker_def signal_progress_def tracker_inv_def packed_def progress_of_def)

lemma write_progress_cases:
  assumes "write_progress force clk tk = (r, tk')"
  obtains (written) "r = Inr ()" "tk_shm tk' = packed (fst clk) tk'" "packed (fst clk) tk' = packed (fst clk) tk"
  | (refused) e where "r = Inl e" "tk' = tk"
proof (cases "packable tk")
  case True
  then have "r = Inr ()" "tk' = signal_progress force (snd clk) (tk\<lparr>tk_shm := packed (fst clk) tk\<rparr>)"
    using assms by (simp_all add: write_progress_def)
  then show thesis by (intro written) (simp_all add: signal_progress_def packed_def)
next
  case False
  then have "r = Inl StructError" "tk' = tk" using assms by (simp_all add: write_progress_def)
  then show thesis by (rule refused)
qed

lemma packed_fields: "packed h tk' = packed h tk \<Longrightarrow> tk_op_id tk' = tk_op_id tk \<and> tk_step tk' = tk_step tk"
  by (simp add: packed_def)

text \<open>The state a call writes has new progress; a call that is refused earlier changes nothing.\<close>

lemma tracker_call_progress:
  assumes "run_tracker_call c clk tk = (r, tk')" "tracker_inv tk"
  shows "tracker_inv tk' \<and>
    (case r of Inr _ \<Rightarrow> progress_of (tk_shm tk) < progress_of (tk_shm tk') \<and> tk_shm tk' = packed (fst clk) tk'
     | Inl _ \<Rightarrow> tk_shm tk' = tk_shm tk)"
proof -
  have "r \<noteq> Inr () \<and> tk' = tk \<or> (\<exists>force tk1. write_progress force clk tk1 = (r, tk') \<and> tk_shm tk1 = tk_shm tk \<and> 0 \<le> tk_op_id tk1 \<and>
      (tk_step tk, tk_op_id tk) < (tk_step tk1, tk_op_id tk1))"
  proof (cases c)
    case (Advance fp force)
    then show ?thesis using assms
      by (intro disjI2 exI [of _ "force \<or> fp \<noteq> 0"] exI [of _ "tk\<lparr>tk_op_id := tk_op_id tk + 1, tk_metadata := fp\<rparr>"])
        (simp add: run_tracker_call_def advance_def tracker_inv_def)
  next
    case StepBoundary
    then show ?thesis using assms
      by (intro disjI2 exI [of _ True] exI [of _ "tk\<lparr>tk_step := tk_step tk + 1, tk_op_id := 0, tk_metadata := 0\<rparr>"])
        (simp add: run_tracker_call_def step_boundary_def)
  next
    case (StageStarted kind key)
    let ?tk1 = "tk\<lparr>tk_stage_counts := (tk_stage_counts tk)((kind, key) := tk_stage_counts tk (kind, key) + 1),
      tk_active := \<lparr>st_kind = kind, st_key = key, st_sequence = tk_stage_counts tk (kind, key) + 1, st_started_ns = snd clk\<rparr>,
      tk_metadata := 0, tk_op_id := tk_op_id tk + 1\<rparr>"
    show ?thesis
    proof (cases "kind = NoStage \<or> st_kind (tk_active tk) \<noteq> NoStage")
      case True then show ?thesis using assms StageStarted by (intro disjI1) (auto simp: run_tracker_call_def stage_started_def split: if_splits)
    next
      case False
      obtain r1 tk1' where w: "write_progress True clk ?tk1 = (r1, tk1')" by force
      then have "write_progress True clk ?tk1 = (r, tk')"
        using assms(1) StageStarted False by (cases r1) (auto simp: run_tracker_call_def stage_started_def Let_def)
      then show ?thesis using assms(2) by (intro disjI2 exI [of _ True] exI [of _ ?tk1]) (simp add: tracker_inv_def)
    qed
  next
    case (StageFinished token)
    let ?tk1 = "tk\<lparr>tk_completed := token\<lparr>st_started_ns := max 0 (snd clk - st_started_ns token)\<rparr>, tk_active := no_token,
      tk_op_id := tk_op_id tk + 1\<rparr>"
    show ?thesis
    proof (cases "tk_active tk = token")
      case False then show ?thesis using assms StageFinished by (intro disjI1) (auto simp: run_tracker_call_def stage_finished_def)
    next
      case True
      obtain r1 tk1' where w: "write_progress True clk ?tk1 = (r1, tk1')" by force
      then have "write_progress True clk ?tk1 = (r, tk')"
        using assms(1) StageFinished True by (cases r1) (auto simp: run_tracker_call_def stage_finished_def Let_def)
      then show ?thesis using assms(2) by (intro disjI2 exI [of _ True] exI [of _ ?tk1]) (simp add: tracker_inv_def)
    qed
  qed
  then show ?thesis
  proof (elim disjE exE conjE)
    assume "r \<noteq> Inr ()" "tk' = tk"
    then show ?thesis using assms(2) by (cases r) auto
  next
    fix force tk1 assume w: "write_progress force clk tk1 = (r, tk')" and t: "tk_shm tk1 = tk_shm tk" "0 \<le> tk_op_id tk1"
      "(tk_step tk, tk_op_id tk) < (tk_step tk1, tk_op_id tk1)"
    have p: "progress_of (tk_shm tk) < (tk_step tk1, tk_op_id tk1)" using assms(2) t(3) le_less_trans unfolding tracker_inv_def by blast
    from w show ?thesis
    proof (cases rule: write_progress_cases)
      case written
      then have "progress_of (tk_shm tk') = (tk_step tk1, tk_op_id tk1)" by (simp add: packed_def progress_of_def)
      then show ?thesis using p written packed_fields [OF written(3)] t(2) by (simp add: tracker_inv_def packed_def)
    next
      case (refused e)
      then show ?thesis using p t assms(2) by (simp add: tracker_inv_def)
    qed
  qed
qed

end
