(* ===== verification/Hang.thy ===== *)
theory Hang
  imports Op_Tracker Consensus_Laws Persistence "HOL-Library.Word"
begin

text \<open>
  Out-of-band hang detection (\<open>lm_resiliency/detection/hang_detector.py\<close> and the report of \<open>oob_service.py\<close>). A round gets the
  rows all ranks contributed, which is what the gather operations return; clock readings are arguments. The message of a value
  error is the name of the refused setting. The loop is cut at its waits: \<open>wake_up\<close> up to the decision to run a round, and
  \<open>check_round\<close> for the round.
\<close>

unbundle bit_operations_syntax

section \<open>One consensus round\<close>

record hang_config =
  hc_stall_threshold :: real
  hc_confirmation_interval :: real
  hc_peer_ranks :: "int list"
  hc_dataloader_threshold :: real
  hc_dataloader_ratio :: real
  hc_dataloader_rounds :: nat
  hc_checkpoint_threshold :: real
  hc_checkpoint_ratio :: real
  hc_checkpoint_rounds :: nat

datatype hang_error = HangValue string | HangOverflow | HangConsensus c3_error

definition hang_config_post_init :: "hang_config \<Rightarrow> hang_error + hang_config" where
  "hang_config_post_init hc =
     (if hc_dataloader_threshold hc \<le> 0 then Inl (HangValue ''dataloader_latency_threshold_s'')
      else if hc_dataloader_ratio hc \<le> 1 then Inl (HangValue ''dataloader_min_slowdown_ratio'')
      else if hc_dataloader_rounds hc < 1 then Inl (HangValue ''dataloader_confirmation_rounds'')
      else if hc_checkpoint_threshold hc \<le> 0 then Inl (HangValue ''checkpoint_io_latency_threshold_s'')
      else if hc_checkpoint_ratio hc \<le> 1 then Inl (HangValue ''checkpoint_io_min_slowdown_ratio'')
      else if hc_checkpoint_rounds hc < 1 then Inl (HangValue ''checkpoint_io_confirmation_rounds'')
      else if hc_confirmation_interval hc \<le> 0 then Inl (HangValue ''confirmation_interval_s'')
      else Inr hc)"

definition trigger_threshold :: "hang_config \<Rightarrow> real" where
  "trigger_threshold hc = min (hc_stall_threshold hc) (min (hc_dataloader_threshold hc) (hc_checkpoint_threshold hc))"

text \<open>What every rank contributes: its snapshot and how long its active stage has run.\<close>

record peer_row =
  pr_op_id :: int
  pr_step :: int
  pr_metadata :: int
  pr_active_stage :: int
  pr_active_key :: int
  pr_active_sequence :: int
  pr_active_elapsed_ns :: int
  pr_completed_stage :: int
  pr_completed_key :: int
  pr_completed_sequence :: int
  pr_completed_duration_ns :: int

definition active_stage_elapsed_ns :: "int \<Rightarrow> snapshot \<Rightarrow> int" where
  "active_stage_elapsed_ns now_ns sn =
     (if st_kind (sn_active sn) = NoStage \<or> st_started_ns (sn_active sn) \<le> 0 then 0
      else max 0 (now_ns - st_started_ns (sn_active sn)))"

definition local_row :: "int \<Rightarrow> snapshot \<Rightarrow> peer_row" where
  "local_row now_ns sn =
     \<lparr>pr_op_id = sn_op_id sn, pr_step = sn_step sn, pr_metadata = sn_metadata sn,
      pr_active_stage = stage_value (st_kind (sn_active sn)), pr_active_key = st_key (sn_active sn),
      pr_active_sequence = st_sequence (sn_active sn), pr_active_elapsed_ns = active_stage_elapsed_ns now_ns sn,
      pr_completed_stage = stage_value (st_kind (sn_completed sn)), pr_completed_key = st_key (sn_completed sn),
      pr_completed_sequence = st_sequence (sn_completed sn), pr_completed_duration_ns = st_started_ns (sn_completed sn)\<rparr>"

definition progress_id :: "int \<Rightarrow> int \<Rightarrow> int" where
  "progress_id step op_id = push_bit 32 step OR (op_id AND 0xFFFFFFFF)"

definition matching_stage_duration_ns :: "diagnostic_stage \<Rightarrow> int \<Rightarrow> int \<Rightarrow> peer_row \<Rightarrow> int" where
  "matching_stage_duration_ns kind key sequence row =
     (if (pr_active_stage row, pr_active_key row, pr_active_sequence row) = (stage_value kind, key, sequence)
      then pr_active_elapsed_ns row
      else if (pr_completed_stage row, pr_completed_key row, pr_completed_sequence row) = (stage_value kind, key, sequence)
      then pr_completed_duration_ns row
      else 0)"

text \<open>\<open>max(candidates)\<close>: the longest elapsed time, then the largest index, which no two candidates share.\<close>

definition longest_stage :: "peer_row list \<Rightarrow> (int \<times> nat) option" where
  "longest_stage rows =
     (let cs = map (\<lambda>(index, row). (pr_active_elapsed_ns row, index))
                 (filter (\<lambda>(index, row). stage_of (pr_active_stage row) \<noteq> NoStage \<and> 0 < pr_active_elapsed_ns row) (enumerate 0 rows))
      in if cs = [] then None else Some (Max (set cs)))"

record stage_comparison =
  sc_stage :: diagnostic_stage
  sc_key :: int
  sc_sequence :: int
  sc_bitmap :: "nat list"
  sc_latencies :: "real list"

definition compare_stage_latency :: "hang_config \<Rightarrow> peer_row list \<Rightarrow> hang_error + stage_comparison" where
  "compare_stage_latency hc rows =
     (case longest_stage rows of
        None \<Rightarrow> Inr \<lparr>sc_stage = NoStage, sc_key = 0, sc_sequence = 0, sc_bitmap = replicate (length rows) 0, sc_latencies = []\<rparr>
      | Some (_, index) \<Rightarrow>
          let top = rows ! index; kind = stage_of (pr_active_stage top);
              duration_ms = map (\<lambda>row. real_of_int (matching_stage_duration_ns kind (pr_active_key top) (pr_active_sequence top) row) / 1000000) rows
          in rbind (rcatch HangConsensus (classify_evidence duration_ms Statistical 3)) (\<lambda>timing.
               let values_ms = c3_evidence timing;
                   center = (case median values_ms of None \<Rightarrow> 0 | Some m \<Rightarrow> m);
                   (threshold_ms, ratio) =
                     (if kind = DataLoading then (hc_dataloader_threshold hc * 1000, hc_dataloader_ratio hc)
                      else (hc_checkpoint_threshold hc * 1000, hc_checkpoint_ratio hc));
                   threshold = max threshold_ms (center * ratio)
               in Inr \<lparr>sc_stage = kind, sc_key = pr_active_key top, sc_sequence = pr_active_sequence top,
                       sc_bitmap = map (\<lambda>(flagged, v). if flagged \<noteq> 0 \<and> threshold < v then 1 else 0) (zip (c3_bitmap timing) values_ms),
                       sc_latencies = values_ms\<rparr>))"

definition sole_stage :: "diagnostic_stage list \<Rightarrow> diagnostic_stage" where
  "sole_stage states = (case remdups states of [s] \<Rightarrow> s | _ \<Rightarrow> NoStage)"

definition common_active_stage :: "peer_row list \<Rightarrow> diagnostic_stage" where
  "common_active_stage rows = sole_stage (map (\<lambda>row. stage_of (pr_active_stage row)) rows)"

text \<open>Culprits are given by their positions in the group, which the code finds back with \<open>peer_ranks.index\<close>.\<close>

definition rank_index :: "int list \<Rightarrow> int \<Rightarrow> nat" where
  "rank_index ranks r = length (takeWhile (\<lambda>x. x \<noteq> r) ranks)"

definition active_stage_for_culprits :: "peer_row list \<Rightarrow> int list \<Rightarrow> int list \<Rightarrow> diagnostic_stage" where
  "active_stage_for_culprits rows culprits peer_ranks =
     sole_stage (map (\<lambda>r. stage_of (pr_active_stage (rows ! rank_index peer_ranks r))) (filter (\<lambda>r. r \<in> set peer_ranks) culprits))"

definition flagged_ranks :: "int list \<Rightarrow> nat list \<Rightarrow> int list" where
  "flagged_ranks ranks bitmap = map (\<lambda>(index, b). ranks ! index) (filter (\<lambda>(index, b). b \<noteq> 0) (enumerate 0 bitmap))"

datatype mismatch = ProgressMismatch | MetadataMismatch | StageLatency diagnostic_stage

text \<open>The localization part of a round: which peers differ, and in what.\<close>

definition localize_mismatch :: "int list \<Rightarrow> peer_row list \<Rightarrow> hang_error + (mismatch option \<times> nat list \<times> int list)" where
  "localize_mismatch peer_ranks rows =
     (if \<not> list_all int64_range (map (\<lambda>row. progress_id (pr_step row) (pr_op_id row)) rows) then Inl HangOverflow
      else rbind (rcatch HangConsensus (classify_evidence (map (\<lambda>row. real_of_int (progress_id (pr_step row) (pr_op_id row))) rows) Exact 3)) (\<lambda>progress.
        let bitmap = c3_bitmap progress; metadata = map pr_metadata rows
        in if \<exists>b \<in> set bitmap. b = 1 then Inr (Some ProgressMismatch, bitmap, flagged_ranks peer_ranks bitmap)
           else if length (remdups (map (\<lambda>row. (pr_step row, pr_op_id row)) rows)) = 1 \<and> 1 < length (remdups metadata) then
             (case most_common (counter metadata) of (majority, n) \<Rightarrow>
               if length rows div 2 < n then
                 let bitmap = map (\<lambda>fp. if fp \<noteq> majority then 1 else 0) metadata
                 in Inr (Some MetadataMismatch, bitmap, flagged_ranks peer_ranks bitmap)
               else Inr (None, bitmap, []))
           else Inr (None, bitmap, [])))"

record hang_result =
  hr_is_hang :: bool
  hr_culprit_rank :: "int option"
  hr_bitmap :: "nat list"
  hr_op_ids :: "int list"
  hr_local_op_id :: int
  hr_stall_duration :: real
  hr_steps :: "int list"
  hr_local_step :: int
  hr_metadata :: "int list"
  hr_local_metadata :: int
  hr_mismatch_kind :: "mismatch option"
  hr_culprit_ranks :: "int list"
  hr_is_dataloader_straggler :: bool
  hr_dataloader_active :: bool
  hr_dataloader_key :: int
  hr_dataloader_sequence :: int
  hr_dataloader_bitmap :: "nat list"
  hr_dataloader_culprits :: "int list"
  hr_dataloader_latencies :: "real list"
  hr_dataloader_confirmations :: nat
  hr_is_stage_straggler :: bool
  hr_stage_active :: bool
  hr_stage_kind :: "diagnostic_stage option"
  hr_stage_key :: int
  hr_stage_sequence :: int
  hr_stage_bitmap :: "nat list"
  hr_stage_culprits :: "int list"
  hr_stage_latencies :: "real list"
  hr_stage_confirmations :: nat

type_synonym stage_event = "diagnostic_stage option \<times> int \<times> int \<times> int list"

record daemon =
  dm_last_op_id :: int
  dm_last_step :: int
  dm_last_change :: real
  dm_reported_progress :: "(int \<times> int) option"
  dm_reported_stage :: "stage_event option"
  dm_candidate :: "stage_event option"
  dm_confirmations :: nat

definition start_daemon :: "snapshot \<Rightarrow> real \<Rightarrow> daemon" where
  "start_daemon sn now =
     \<lparr>dm_last_op_id = sn_op_id sn, dm_last_step = sn_step sn, dm_last_change = now, dm_reported_progress = None,
      dm_reported_stage = None, dm_candidate = None, dm_confirmations = 0\<rparr>"

definition observe_stall :: "snapshot \<Rightarrow> real \<Rightarrow> daemon \<Rightarrow> real \<times> daemon" where
  "observe_stall sn now dm =
     (if sn_op_id sn = -1 then (0, dm)
      else if (sn_step sn, sn_op_id sn) \<noteq> (dm_last_step dm, dm_last_op_id dm)
      then (0, dm\<lparr>dm_last_op_id := sn_op_id sn, dm_last_step := sn_step sn, dm_last_change := now, dm_reported_progress := None\<rparr>)
      else (now - dm_last_change dm, dm))"

definition check_once :: "hang_config \<Rightarrow> snapshot \<Rightarrow> real \<Rightarrow> peer_row list \<Rightarrow> daemon \<Rightarrow> hang_error + hang_result" where
  "check_once hc sn now rows dm =
     (let stall = (if (sn_step sn, sn_op_id sn) = (dm_last_step dm, dm_last_op_id dm) then now - dm_last_change dm else 0);
          zeros = replicate (length rows) 0
      in rbind (localize_mismatch (hc_peer_ranks hc) rows) (\<lambda>(kind, bitmap, culprits).
         rbind (compare_stage_latency hc rows) (\<lambda>sc.
         let stage_culprits = flagged_ranks (hc_peer_ranks hc) (sc_bitmap sc);
             straggler = (stage_culprits \<noteq> []);
             culprit = (case culprits @ stage_culprits of [] \<Rightarrow> None | c # _ \<Rightarrow> Some c);
             associated = (if culprits \<noteq> [] then active_stage_for_culprits rows culprits (hc_peer_ranks hc)
                           else if \<not> straggler then common_active_stage rows else sc_stage sc);
             stage_active = (associated \<noteq> NoStage);
             dataloader = (stage_active \<and> associated = DataLoading)
         in Inr \<lparr>hr_is_hang = (hc_stall_threshold hc < stall), hr_culprit_rank = culprit, hr_bitmap = bitmap,
              hr_op_ids = map pr_op_id rows, hr_local_op_id = sn_op_id sn, hr_stall_duration = stall,
              hr_steps = map pr_step rows, hr_local_step = sn_step sn, hr_metadata = map pr_metadata rows,
              hr_local_metadata = sn_metadata sn,
              hr_mismatch_kind = (case kind of Some k \<Rightarrow> Some k | None \<Rightarrow> if straggler then Some (StageLatency (sc_stage sc)) else None),
              hr_culprit_ranks = culprits,
              hr_is_dataloader_straggler = (sc_stage sc = DataLoading \<and> straggler), hr_dataloader_active = dataloader,
              hr_dataloader_key = (if dataloader then sc_key sc else 0),
              hr_dataloader_sequence = (if dataloader then sc_sequence sc else 0),
              hr_dataloader_bitmap = (if dataloader then sc_bitmap sc else zeros),
              hr_dataloader_culprits = (if dataloader then stage_culprits else []),
              hr_dataloader_latencies = (if dataloader then sc_latencies sc else []),
              hr_dataloader_confirmations = 0,
              hr_is_stage_straggler = straggler, hr_stage_active = stage_active,
              hr_stage_kind = (if sc_stage sc \<noteq> NoStage then Some (sc_stage sc) else None),
              hr_stage_key = sc_key sc, hr_stage_sequence = sc_sequence sc, hr_stage_bitmap = sc_bitmap sc,
              hr_stage_culprits = stage_culprits, hr_stage_latencies = sc_latencies sc, hr_stage_confirmations = 0\<rparr>)))"

section \<open>The daemon's loop\<close>

definition stage_event_of :: "hang_result \<Rightarrow> stage_event" where
  "stage_event_of r = (hr_stage_kind r, hr_stage_key r, hr_stage_sequence r, hr_stage_culprits r)"

definition required_confirmations :: "hang_config \<Rightarrow> diagnostic_stage option \<Rightarrow> nat" where
  "required_confirmations hc kind =
     (if kind = Some DataLoading then hc_dataloader_rounds hc else hc_checkpoint_rounds hc)"

definition count_confirmation :: "hang_result \<Rightarrow> daemon \<Rightarrow> daemon" where
  "count_confirmation r dm =
     (if hr_is_stage_straggler r then
        if Some (stage_event_of r) = dm_candidate dm then dm\<lparr>dm_confirmations := dm_confirmations dm + 1\<rparr>
        else dm\<lparr>dm_candidate := Some (stage_event_of r), dm_confirmations := 1\<rparr>
      else dm\<lparr>dm_candidate := None, dm_confirmations := 0\<rparr>)"

record round_outcome =
  ro_result :: hang_result
  ro_stage_confirmed :: bool
  ro_report_hang :: bool
  ro_report_stage :: bool

text \<open>The part of a turn after the stall has lasted long enough: one consensus round and what is reported.\<close>

definition check_round :: "hang_config \<Rightarrow> snapshot \<Rightarrow> real \<Rightarrow> peer_row list \<Rightarrow> daemon \<Rightarrow> (hang_error + round_outcome) \<times> daemon" where
  "check_round hc sn now rows dm =
     (case check_once hc sn now rows dm of
        Inl e \<Rightarrow> (Inl e, dm)
      | Inr r \<Rightarrow>
          let progress = (hr_local_step r, hr_local_op_id r);
              dm = count_confirmation r dm;
              result = r\<lparr>hr_stage_confirmations := dm_confirmations dm,
                hr_dataloader_confirmations := (if hr_stage_kind r = Some DataLoading then dm_confirmations dm else hr_dataloader_confirmations r)\<rparr>;
              confirmed = (hr_is_stage_straggler r \<and> required_confirmations hc (hr_stage_kind r) \<le> dm_confirmations dm);
              report_hang = (hr_is_hang r \<and> Some progress \<noteq> dm_reported_progress dm);
              report_stage = (confirmed \<and> Some (stage_event_of r) \<noteq> dm_reported_stage dm \<and> \<not> hr_is_hang r);
              dm = (if report_hang then dm\<lparr>dm_reported_progress := Some progress\<rparr> else dm);
              dm = (if report_stage then dm\<lparr>dm_reported_stage := Some (stage_event_of r)\<rparr> else dm)
          in (Inr \<lparr>ro_result = result, ro_stage_confirmed = confirmed, ro_report_hang = report_hang, ro_report_stage = report_stage\<rparr>, dm))"

text \<open>A wake-up of the loop: by a progress event, or by the timeout. It gives the next timeout, or goes on to a round.\<close>

datatype wake = WaitFor real | CheckNow

definition wake_up :: "hang_config \<Rightarrow> bool \<Rightarrow> snapshot \<Rightarrow> real \<Rightarrow> daemon \<Rightarrow> wake \<times> daemon" where
  "wake_up hc progressed sn now dm =
     (case observe_stall sn now dm of (stall, dm) \<Rightarrow>
        if progressed then (WaitFor (trigger_threshold hc), dm)
        else if stall < trigger_threshold hc then (WaitFor (max (trigger_threshold hc - stall) (1 / 1000)), dm)
        else (CheckNow, dm))"

section \<open>The report of a group\<close>

datatype stall_kind = HangStall | DataStall | CheckpointStall

record hang_report =
  hp_failed_ranks :: "int list"
  hp_kind :: stall_kind
  hp_whole_group :: bool

definition make_report :: "int list \<Rightarrow> hang_result \<Rightarrow> hang_report" where
  "make_report peer_ranks r =
     (let failed = (if hr_is_hang r \<and> hr_culprit_ranks r \<noteq> [] then hr_culprit_ranks r
                    else if hr_stage_culprits r \<noteq> [] then hr_stage_culprits r
                    else if hr_culprit_ranks r \<noteq> [] then hr_culprit_ranks r
                    else case hr_culprit_rank r of Some c \<Rightarrow> [c] | None \<Rightarrow> peer_ranks)
      in \<lparr>hp_failed_ranks = failed,
          hp_kind = (if hr_stage_active r \<and> hr_stage_kind r \<in> {Some CheckpointRead, Some CheckpointWrite} then CheckpointStall
                     else if hr_dataloader_active r then DataStall else HangStall),
          hp_whole_group = (length peer_ranks \<le> length failed)\<rparr>)"

section \<open>Progress identifiers\<close>

lemma progress_id_eq: "progress_id s i = s * 2 ^ 32 + i mod 2 ^ 32"
proof -
  have "i AND 0xFFFFFFFF = take_bit 32 i" by (simp add: take_bit_eq_mask mask_eq_exp_minus_1)
  then have "progress_id s i = take_bit 32 i OR push_bit 32 s" by (simp add: progress_id_def or.commute)
  also have "\<dots> = take_bit 32 i + push_bit 32 s"
    by (subst disjunctive_add) (auto simp: bit_simps)
  finally show ?thesis by (simp add: push_bit_eq_mult take_bit_eq_mod)
qed

definition op_in_range :: "peer_row \<Rightarrow> bool" where
  "op_in_range row \<longleftrightarrow> - 1 \<le> pr_op_id row \<and> pr_op_id row < 2 ^ 32 - 1"

definition row_progress :: "peer_row \<Rightarrow> int \<times> int" where
  "row_progress row = (pr_step row, pr_op_id row)"

lemma progress_id_inj:
  assumes "op_in_range a" "op_in_range b"
  shows "progress_id (pr_step a) (pr_op_id a) = progress_id (pr_step b) (pr_op_id b) \<longleftrightarrow> row_progress a = row_progress b"
proof
  let ?m = "2 ^ 32 :: int"
  assume e: "progress_id (pr_step a) (pr_op_id a) = progress_id (pr_step b) (pr_op_id b)"
  then have "(pr_step a * ?m + pr_op_id a mod ?m) mod ?m = (pr_step b * ?m + pr_op_id b mod ?m) mod ?m"
    unfolding progress_id_eq by simp
  then have m: "pr_op_id a mod ?m = pr_op_id b mod ?m" by simp
  then have "pr_step a = pr_step b" using e unfolding progress_id_eq by simp
  moreover have "pr_op_id a = pr_op_id b"
  proof -
    have "(pr_op_id a + 1) mod ?m = (pr_op_id b + 1) mod ?m" using m by (metis mod_add_cong)
    then show ?thesis using assms by (simp add: op_in_range_def)
  qed
  ultimately show "row_progress a = row_progress b" by (simp add: row_progress_def)
qed (simp add: row_progress_def)

section \<open>Culprits\<close>

lemma flagged_ranks_map:
  assumes "length ranks = length rows"
  shows "flagged_ranks ranks (map (\<lambda>row. if P row then 1 else 0) rows) = map fst (filter (\<lambda>(r, row). P row) (zip ranks rows))"
  using assms
proof (induction ranks rows rule: rev_induct2)
  case (4 r ranks row rows)
  have "flagged_ranks (ranks @ [r]) (bs @ [b]) = flagged_ranks ranks bs @ (if b \<noteq> 0 then [r] else [])"
    if "length bs = length ranks" for bs :: "nat list" and b
  proof -
    have "map (\<lambda>(i, b). (ranks @ [r]) ! i) (filter (\<lambda>(i, b). b \<noteq> 0) (enumerate 0 bs)) =
        map (\<lambda>(i, b). ranks ! i) (filter (\<lambda>(i, b). b \<noteq> 0) (enumerate 0 bs))"
      using that by (intro map_cong) (auto simp: in_set_enumerate_eq nth_append)
    then show ?thesis using that by (simp add: flagged_ranks_def enumerate_append_eq)
  qed
  then show ?case using 4 by simp
qed (simp_all add: flagged_ranks_def)

definition strict_majority :: "'a \<Rightarrow> 'a list \<Rightarrow> bool" where
  "strict_majority x xs \<longleftrightarrow> length xs < 2 * count_list xs x"

definition differing :: "int list \<Rightarrow> (peer_row \<Rightarrow> bool) \<Rightarrow> peer_row list \<Rightarrow> int list" where
  "differing ranks P rows = map fst (filter (\<lambda>(r, row). P row) (zip ranks rows))"

lemma differing_Nil: "length ranks = length rows \<Longrightarrow> differing ranks P rows = [] \<longleftrightarrow> (\<forall>row \<in> set rows. \<not> P row)"
  by (induction ranks rows rule: list_induct2) (auto simp: differing_def)

lemma count_list_map_inj:
  assumes "\<And>y. y \<in> set xs \<Longrightarrow> f y = f x \<longleftrightarrow> g y = g x"
  shows "count_list (map f xs) (f x) = count_list (map g xs) (g x)"
  using assms by (induction xs) auto

text \<open>The exact verdict on encoded progress is the exact verdict on progress.\<close>

lemma progress_verdict:
  assumes rows: "rows \<noteq> []" "\<forall>row \<in> set rows. op_in_range row"
  defines "ids \<equiv> map (\<lambda>row. real_of_int (progress_id (pr_step row) (pr_op_id row))) rows"
  obtains r where "classify_evidence ids Exact s = Inr r"
    "\<And>p. strict_majority p (map row_progress rows) \<Longrightarrow> c3_bitmap r = map (\<lambda>row. if row_progress row \<noteq> p then 1 else 0) rows"
    "(\<forall>p. \<not> strict_majority p (map row_progress rows)) \<Longrightarrow> c3_bitmap r = map (\<lambda>_. 0) rows"
proof -
  let ?f = "\<lambda>row. real_of_int (progress_id (pr_step row) (pr_op_id row))"
  have inj: "?f a = ?f b \<longleftrightarrow> row_progress a = row_progress b" if "a \<in> set rows" "b \<in> set rows" for a b
    using progress_id_inj [of a b] rows(2) that by simp
  have cnt: "count_list ids (?f x) = count_list (map row_progress rows) (row_progress x)" if "x \<in> set rows" for x
    unfolding ids_def using inj that by (intro count_list_map_inj) auto
  have ne: "ids \<noteq> []" using rows(1) by (simp add: ids_def)
  obtain r where r: "classify_evidence ids Exact s = Inr r"
    and m: "\<And>m. length ids < 2 * count_list ids m \<Longrightarrow> c3_bitmap r = map (\<lambda>v. if v = m then 0 else 1) ids"
    and n: "(\<forall>m. 2 * count_list ids m \<le> length ids) \<Longrightarrow> c3_bitmap r = map (\<lambda>v. 0) ids"
    using exact_classification [OF ne, of s] by blast
  have len: "length ids = length (map row_progress rows)" by (simp add: ids_def)
  have mem: "\<exists>x \<in> set rows. f x = m" if "0 < count_list (map f rows) m" for f :: "peer_row \<Rightarrow> 'b" and m
  proof -
    have "m \<in> set (map f rows)" using that by (metis count_list_0_iff less_numeral_extra(3))
    then show ?thesis by auto
  qed
  show thesis
  proof (rule that [OF r])
    fix p assume p: "strict_majority p (map row_progress rows)"
    then obtain x where x: "x \<in> set rows" "row_progress x = p" using mem [of row_progress p] by (auto simp: strict_majority_def)
    then have "length ids < 2 * count_list ids (?f x)" using p cnt [OF x(1)] len by (simp add: strict_majority_def)
    from m [OF this] show "c3_bitmap r = map (\<lambda>row. if row_progress row \<noteq> p then 1 else 0) rows"
      using inj x by (auto simp: ids_def)
  next
    assume none: "\<forall>p. \<not> strict_majority p (map row_progress rows)"
    have "2 * count_list ids m \<le> length ids" for m
    proof (rule ccontr)
      assume a: "\<not> 2 * count_list ids m \<le> length ids"
      then obtain x where x: "x \<in> set rows" "?f x = m" using mem [of ?f m] by (auto simp: ids_def)
      then have "strict_majority (row_progress x) (map row_progress rows)" using a cnt [OF x(1)] len by (simp add: strict_majority_def)
      then show False using none by blast
    qed
    then show "c3_bitmap r = map (\<lambda>_. 0) rows" using n by (simp add: ids_def comp_def)
  qed
qed

lemma all_same: "length (remdups xs) = 1 \<longleftrightarrow> xs \<noteq> [] \<and> (\<forall>x \<in> set xs. x = hd xs)"
proof -
  have "length (remdups xs) = 1 \<longleftrightarrow> xs \<noteq> [] \<and> length (remdups xs) \<le> Suc 0" by (cases "remdups xs") auto
  then show ?thesis using card_le_Suc0_iff_eq [of "set xs"] by (auto simp: length_remdups_card_conv) (metis hd_in_set)+
qed

lemma all_same_map: "rows \<noteq> [] \<Longrightarrow> length (remdups (map f rows)) = 1 \<longleftrightarrow> (\<forall>row \<in> set rows. f row = f (hd rows))"
  unfolding all_same by (simp add: hd_map)

lemma one_majority: "xs \<noteq> [] \<Longrightarrow> \<forall>x \<in> set xs. x = y \<Longrightarrow> strict_majority y xs"
proof -
  assume "xs \<noteq> []" "\<forall>x \<in> set xs. x = y"
  then have "count_list xs y = length xs" by (simp add: count_list_eq_length_filter filter_id_conv)
  then show ?thesis using \<open>xs \<noteq> []\<close> by (simp add: strict_majority_def)
qed

lemma majority_unique: "strict_majority x xs \<Longrightarrow> strict_majority y xs \<Longrightarrow> x = y"
  using count_pair [of x y xs] by (fastforce simp: strict_majority_def)

lemma localize_cases:
  assumes l: "localize_mismatch ranks rows = Inr (kind, bitmap, culprits)" "length ranks = length rows"
    and rows: "rows \<noteq> []" "\<forall>row \<in> set rows. op_in_range row"
  obtains (progress) p where "kind = Some ProgressMismatch" "strict_majority p (map row_progress rows)"
      "culprits = differing ranks (\<lambda>row. row_progress row \<noteq> p) rows" "culprits \<noteq> []"
  | (collective) m where "kind = Some MetadataMismatch" "\<forall>row \<in> set rows. row_progress row = row_progress (hd rows)"
      "strict_majority m (map pr_metadata rows)" "culprits = differing ranks (\<lambda>row. pr_metadata row \<noteq> m) rows" "culprits \<noteq> []"
  | (clear) "kind = None" "culprits = []"
      "\<forall>p. strict_majority p (map row_progress rows) \<longrightarrow> (\<forall>row \<in> set rows. row_progress row = p)"
      "(\<forall>row \<in> set rows. row_progress row = row_progress (hd rows)) \<longrightarrow>
         (\<forall>m. strict_majority m (map pr_metadata rows) \<longrightarrow> (\<forall>row \<in> set rows. pr_metadata row = m))"
proof -
  obtain r where r: "classify_evidence (map (\<lambda>row. real_of_int (progress_id (pr_step row) (pr_op_id row))) rows) Exact 3 = Inr r"
    and maj: "\<And>p. strict_majority p (map row_progress rows) \<Longrightarrow> c3_bitmap r = map (\<lambda>row. if row_progress row \<noteq> p then 1 else 0) rows"
    and no: "(\<forall>p. \<not> strict_majority p (map row_progress rows)) \<Longrightarrow> c3_bitmap r = map (\<lambda>_. 0) rows"
    using progress_verdict [OF rows, of 3] by blast
  have fold_progress: "(\<lambda>row. (pr_step row, pr_op_id row)) = row_progress" by (simp add: row_progress_def fun_eq_iff)
  have res: "(let bitmap = c3_bitmap r; metadata = map pr_metadata rows
        in if \<exists>b \<in> set bitmap. b = 1 then Inr (Some ProgressMismatch, bitmap, flagged_ranks ranks bitmap)
           else if length (remdups (map row_progress rows)) = 1 \<and> 1 < length (remdups metadata) then
             (case most_common (counter metadata) of (majority, n) \<Rightarrow>
               if length rows div 2 < n then
                 let bitmap = map (\<lambda>fp. if fp \<noteq> majority then 1 else 0) metadata
                 in Inr (Some MetadataMismatch, bitmap, flagged_ranks ranks bitmap)
               else Inr (None, bitmap, []))
           else Inr (None, bitmap, [])) = (Inr (kind, bitmap, culprits) :: hang_error + _)"
    using l(1) unfolding localize_mismatch_def r fold_progress by (simp split: if_split_asm)
  have ne: "map pr_metadata rows \<noteq> []" using rows(1) by simp
  obtain m where mc: "most_common (counter (map pr_metadata rows)) = (m, count_list (map pr_metadata rows) m)" "m \<in> set (map pr_metadata rows)"
    and top: "\<forall>x. count_list (map pr_metadata rows) x \<le> count_list (map pr_metadata rows) m"
    using most_common_counter [OF ne] by blast
  have half: "length rows div 2 < c \<longleftrightarrow> length (map pr_metadata rows) < 2 * c" for c by auto
  show thesis
  proof (cases "\<exists>b \<in> set (c3_bitmap r). b = 1")
    case True
    then obtain p where p: "strict_majority p (map row_progress rows)" using no by fastforce
    have k: "kind = Some ProgressMismatch" "culprits = flagged_ranks ranks (c3_bitmap r)"
      using res True by (auto simp: Let_def)
    have c: "culprits = differing ranks (\<lambda>row. row_progress row \<noteq> p) rows"
      unfolding k(2) maj [OF p] flagged_ranks_map [OF l(2)] differing_def ..
    moreover have "culprits \<noteq> []"
      using True maj [OF p] unfolding c differing_Nil [OF l(2)] by auto
    ultimately show thesis using progress k(1) p by blast
  next
    case False
    have maj_all: "\<forall>row \<in> set rows. row_progress row = p" if "strict_majority p (map row_progress rows)" for p
      using False maj [OF that] by auto
    show thesis
    proof (cases "(\<forall>row \<in> set rows. row_progress row = row_progress (hd rows)) \<and> strict_majority m (map pr_metadata rows) \<and> (\<exists>row \<in> set rows. pr_metadata row \<noteq> m)")
      case True
      then have one: "length (remdups (map row_progress rows)) = 1" unfolding all_same_map [OF rows(1)] by blast
      obtain row where row: "row \<in> set rows" "pr_metadata row \<noteq> m" using True by blast
      have "\<not> length (remdups (map pr_metadata rows)) \<le> 1"
      proof
        assume "length (remdups (map pr_metadata rows)) \<le> 1"
        then have "card (set (map pr_metadata rows)) \<le> Suc 0" by (simp add: length_remdups_card_conv)
        then show False using card_le_Suc0_iff_eq [of "set (map pr_metadata rows)"] mc(2) row by (metis List.finite_set image_eqI set_map)
      qed
      then have "kind = Some MetadataMismatch \<and> culprits = flagged_ranks ranks (map (\<lambda>fp. if fp \<noteq> m then 1 else 0) (map pr_metadata rows))"
      proof -
        assume "\<not> length (remdups (map pr_metadata rows)) \<le> 1"
        then have c: "length (remdups (map row_progress rows)) = 1 \<and> 1 < length (remdups (map pr_metadata rows))" using one by linarith
        have h: "length rows div 2 < count_list (map pr_metadata rows) m" using True unfolding half strict_majority_def by blast
        show ?thesis using res unfolding Let_def mc(1) if_not_P [OF False] if_P [OF c] prod.case if_P [OF h] by blast
      qed
      then have k: "kind = Some MetadataMismatch" "culprits = flagged_ranks ranks (map (\<lambda>row. if pr_metadata row \<noteq> m then 1 else 0) rows)"
        by (auto simp: comp_def)
      have c: "culprits = differing ranks (\<lambda>row. pr_metadata row \<noteq> m) rows"
        unfolding k(2) flagged_ranks_map [OF l(2)] differing_def ..
      moreover have "culprits \<noteq> []" using row unfolding c differing_Nil [OF l(2)] by blast
      ultimately show thesis using collective k(1) True by blast
    next
      case quiet: False
      have "kind = None \<and> culprits = []"
      proof (cases "length (remdups (map row_progress rows)) = 1 \<and> 1 < length (remdups (map pr_metadata rows))")
        case True
        then have same: "\<forall>row \<in> set rows. row_progress row = row_progress (hd rows)" unfolding all_same_map [OF rows(1)] by blast
        have "\<not> strict_majority m (map pr_metadata rows)"
        proof
          assume "strict_majority m (map pr_metadata rows)"
          then have "\<forall>x \<in> set (map pr_metadata rows). x = m" using quiet same by auto
          then have "length (remdups (map pr_metadata rows)) \<le> 1"
            unfolding length_remdups_card_conv using card_le_Suc0_iff_eq [of "set (map pr_metadata rows)"] by fastforce
          then show False using True by simp
        qed
        then show ?thesis
          using res unfolding Let_def mc(1) if_not_P [OF False] if_P [OF True] prod.case strict_majority_def half by simp
      next
        case h: False
        then show ?thesis using res unfolding Let_def if_not_P [OF False] if_not_P [OF h] by simp
      qed
      moreover have eq: "m' = m \<and> strict_majority m (map pr_metadata rows)" if "strict_majority m' (map pr_metadata rows)" for m'
      proof -
        have sm: "strict_majority m (map pr_metadata rows)"
        proof -
          have "count_list (map pr_metadata rows) m' \<le> count_list (map pr_metadata rows) m" using top by blast
          then show ?thesis using that unfolding strict_majority_def by linarith
        qed
        show ?thesis using majority_unique [OF that sm] sm by simp
      qed
      moreover have "\<forall>m'. strict_majority m' (map pr_metadata rows) \<longrightarrow> (\<forall>row \<in> set rows. pr_metadata row = m')"
        if "\<forall>row \<in> set rows. row_progress row = row_progress (hd rows)"
        using quiet that eq by metis
      ultimately show thesis using maj_all by (intro clear) blast+
    qed
  qed
qed

section \<open>The rounds of the daemon\<close>

lemma check_once_Inr:
  assumes "check_once hc sn now rows dm = Inr r"
  obtains kind bitmap sc where "localize_mismatch (hc_peer_ranks hc) rows = Inr (kind, bitmap, hr_culprit_ranks r)"
    "compare_stage_latency hc rows = Inr sc"
    "hr_mismatch_kind r = (case kind of Some k \<Rightarrow> Some k | None \<Rightarrow> if hr_is_stage_straggler r then Some (StageLatency (sc_stage sc)) else None)"
    "hr_stage_culprits r = flagged_ranks (hc_peer_ranks hc) (sc_bitmap sc)"
    "hr_is_hang r \<longleftrightarrow> hc_stall_threshold hc <
       (if (sn_step sn, sn_op_id sn) = (dm_last_step dm, dm_last_op_id dm) then now - dm_last_change dm else 0)"
    "hr_local_step r = sn_step sn" "hr_local_op_id r = sn_op_id sn"
proof -
  obtain kind bitmap culprits sc where l: "localize_mismatch (hc_peer_ranks hc) rows = Inr (kind, bitmap, culprits)"
    and s: "compare_stage_latency hc rows = Inr sc"
    using assms by (auto simp: check_once_def Let_def rbind_Inr_iff)
  have "hr_culprit_ranks r = culprits" "hr_local_step r = sn_step sn" "hr_local_op_id r = sn_op_id sn"
    "hr_stage_culprits r = flagged_ranks (hc_peer_ranks hc) (sc_bitmap sc)"
    "hr_mismatch_kind r = (case kind of Some k \<Rightarrow> Some k | None \<Rightarrow> if hr_is_stage_straggler r then Some (StageLatency (sc_stage sc)) else None)"
    "hr_is_hang r \<longleftrightarrow> hc_stall_threshold hc <
       (if (sn_step sn, sn_op_id sn) = (dm_last_step dm, dm_last_op_id dm) then now - dm_last_change dm else 0)"
    unfolding assms [unfolded check_once_def l s rbind.simps prod.case Let_def sum.inject, symmetric]
    by (simp_all only: hang_result.simps)
  then show thesis using that l s by blast
qed

text \<open>C20: A consensus round names as culprits exactly the ranks whose progress differs from that of a strict majority, or
  when all progress agrees exactly those whose pending collective differs from that of a strict majority; otherwise it
  names none, and then no such majority has a dissenter.\<close>

theorem hang_culprits_exact:
  assumes "check_once hc sn now rows dm = Inr r" "length (hc_peer_ranks hc) = length rows" "rows \<noteq> []"
    and "list_all op_in_range rows"
  shows "case hr_mismatch_kind r of
      Some ProgressMismatch \<Rightarrow> hr_culprit_ranks r \<noteq> [] \<and>
        (\<exists>p. strict_majority p (map row_progress rows) \<and>
             hr_culprit_ranks r = differing (hc_peer_ranks hc) (\<lambda>row. row_progress row \<noteq> p) rows)
    | Some MetadataMismatch \<Rightarrow> hr_culprit_ranks r \<noteq> [] \<and> (\<forall>row \<in> set rows. row_progress row = row_progress (hd rows)) \<and>
        (\<exists>m. strict_majority m (map pr_metadata rows) \<and>
             hr_culprit_ranks r = differing (hc_peer_ranks hc) (\<lambda>row. pr_metadata row \<noteq> m) rows)
    | _ \<Rightarrow> hr_culprit_ranks r = [] \<and>
        (\<forall>p. strict_majority p (map row_progress rows) \<longrightarrow> (\<forall>row \<in> set rows. row_progress row = p)) \<and>
        ((\<forall>row \<in> set rows. row_progress row = row_progress (hd rows)) \<longrightarrow>
           (\<forall>m. strict_majority m (map pr_metadata rows) \<longrightarrow> (\<forall>row \<in> set rows. pr_metadata row = m)))"
proof -
  have rows: "\<forall>row \<in> set rows. op_in_range row" using assms(4) by (simp add: list_all_iff)
  from assms(1) show ?thesis
  proof (cases rule: check_once_Inr)
    case (1 kind bitmap sc)
    note c = 1(1,3)
    from c(1) assms(2,3) rows show ?thesis
  proof (cases rule: localize_cases)
    case (progress p)
    have k: "hr_mismatch_kind r = Some ProgressMismatch" using c(2) progress(1) by simp
    show ?thesis unfolding k option.case mismatch.case by (intro conjI exI [of _ p]) (fact progress)+
  next
    case (collective m)
    have k: "hr_mismatch_kind r = Some MetadataMismatch" using c(2) collective(1) by simp
    show ?thesis unfolding k option.case mismatch.case by (intro conjI exI [of _ m]) (fact collective)+
  next
    case clear
    have k: "hr_mismatch_kind r = None \<or> (\<exists>s. hr_mismatch_kind r = Some (StageLatency s))" using c(2) clear(1) by simp
    show ?thesis using k
    proof (elim disjE exE)
      assume k: "hr_mismatch_kind r = None"
      show ?thesis unfolding k option.case by (intro conjI) (fact clear)+
    next
      fix s assume k: "hr_mismatch_kind r = Some (StageLatency s)"
      show ?thesis unfolding k option.case mismatch.case by (intro conjI) (fact clear)+
    qed
  qed
  qed
qed

definition round_suspect :: "hang_error + round_outcome \<Rightarrow> stage_event option" where
  "round_suspect v = (case v of Inl _ \<Rightarrow> None
     | Inr ro \<Rightarrow> if hr_is_stage_straggler (ro_result ro) then Some (stage_event_of (ro_result ro)) else None)"

definition round_confirmed :: "hang_error + round_outcome \<Rightarrow> bool" where
  "round_confirmed v = (case v of Inl _ \<Rightarrow> False | Inr ro \<Rightarrow> ro_stage_confirmed ro)"

lemma stage_event_confirmations [simp]:
  "stage_event_of (r\<lparr>hr_stage_confirmations := n, hr_dataloader_confirmations := m\<rparr>) = stage_event_of r"
  by (simp add: stage_event_of_def)

lemma count_confirmation_kept [simp]:
  "dm_last_op_id (count_confirmation r dm) = dm_last_op_id dm" "dm_last_step (count_confirmation r dm) = dm_last_step dm"
  "dm_last_change (count_confirmation r dm) = dm_last_change dm" "dm_reported_progress (count_confirmation r dm) = dm_reported_progress dm"
  "dm_reported_stage (count_confirmation r dm) = dm_reported_stage dm"
  by (simp_all add: count_confirmation_def)

lemma check_round_cases:
  assumes "check_round hc sn now rows dm = (v, dm')"
  obtains (raised) e where "v = Inl e" "dm' = dm"
  | (settled) r ro where "check_once hc sn now rows dm = Inr r" "v = Inr ro"
      "hr_is_stage_straggler (ro_result ro) = hr_is_stage_straggler r" "stage_event_of (ro_result ro) = stage_event_of r"
      "dm_candidate dm' = dm_candidate (count_confirmation r dm)" "dm_confirmations dm' = dm_confirmations (count_confirmation r dm)"
      "ro_stage_confirmed ro \<longleftrightarrow> hr_is_stage_straggler r \<and> required_confirmations hc (fst (stage_event_of r)) \<le> dm_confirmations dm'"
      "ro_report_hang ro \<longleftrightarrow> hr_is_hang r \<and> Some (sn_step sn, sn_op_id sn) \<noteq> dm_reported_progress dm"
      "dm_last_op_id dm' = dm_last_op_id dm" "dm_last_step dm' = dm_last_step dm" "dm_last_change dm' = dm_last_change dm"
      "dm_reported_progress dm' = (if ro_report_hang ro then Some (sn_step sn, sn_op_id sn) else dm_reported_progress dm)"
proof (cases "check_once hc sn now rows dm")
  case (Inl e)
  then show thesis using assms by (intro raised [of e]) (simp_all add: check_round_def)
next
  case (Inr r)
  have l: "hr_local_step r = sn_step sn" "hr_local_op_id r = sn_op_id sn"
    by (rule check_once_Inr [OF Inr], assumption)+
  define c where "c = count_confirmation r dm"
  define conf where "conf \<longleftrightarrow> hr_is_stage_straggler r \<and> required_confirmations hc (hr_stage_kind r) \<le> dm_confirmations c"
  define rh where "rh \<longleftrightarrow> hr_is_hang r \<and> Some (sn_step sn, sn_op_id sn) \<noteq> dm_reported_progress dm"
  define rs where "rs \<longleftrightarrow> conf \<and> Some (stage_event_of r) \<noteq> dm_reported_stage dm \<and> \<not> hr_is_hang r"
  define d1 where "d1 = (if rh then c\<lparr>dm_reported_progress := Some (sn_step sn, sn_op_id sn)\<rparr> else c)"
  define d2 where "d2 = (if rs then d1\<lparr>dm_reported_stage := Some (stage_event_of r)\<rparr> else d1)"
  define ro where "ro = \<lparr>ro_result = r\<lparr>hr_stage_confirmations := dm_confirmations c,
      hr_dataloader_confirmations := (if hr_stage_kind r = Some DataLoading then dm_confirmations c else hr_dataloader_confirmations r)\<rparr>,
    ro_stage_confirmed = conf, ro_report_hang = rh, ro_report_stage = rs\<rparr>"
  have kept: "dm_reported_progress c = dm_reported_progress dm" "dm_reported_stage c = dm_reported_stage dm"
    "dm_last_op_id c = dm_last_op_id dm" "dm_last_step c = dm_last_step dm" "dm_last_change c = dm_last_change dm"
    by (simp_all add: c_def)
  have d1: "dm_reported_stage d1 = dm_reported_stage dm" using kept by (simp add: d1_def)
  have eq: "v = Inr ro" "dm' = d2"
    using assms unfolding check_round_def Inr sum.case Let_def l c_def [symmetric] kept conf_def [symmetric] rh_def [symmetric]
      d1_def [symmetric] d1 rs_def [symmetric] d2_def [symmetric] ro_def [symmetric] by simp_all
  have d2: "dm_candidate d2 = dm_candidate c" "dm_confirmations d2 = dm_confirmations c" "dm_last_op_id d2 = dm_last_op_id dm"
    "dm_last_step d2 = dm_last_step dm" "dm_last_change d2 = dm_last_change dm"
    "dm_reported_progress d2 = (if rh then Some (sn_step sn, sn_op_id sn) else dm_reported_progress dm)"
    using kept by (simp_all add: d2_def d1_def)
  have ro: "hr_is_stage_straggler (ro_result ro) = hr_is_stage_straggler r" "stage_event_of (ro_result ro) = stage_event_of r"
    "ro_stage_confirmed ro = conf" "ro_report_hang ro = rh"
    by (simp_all add: ro_def)
  show thesis
    by (rule settled [OF Inr eq(1) ro(1,2)]) (simp_all add: eq(2) d2 ro c_def [symmetric] conf_def rh_def stage_event_of_def)
qed

interpretation hd: persistent_suspect "\<lambda>dm (sn, now, rows). check_round hc sn now rows dm" isl round_suspect round_confirmed
  dm_candidate dm_confirmations "\<lambda>_ event. required_confirmations hc (fst event)" for hc
proof
  fix dm i v dm' assume "(case i of (sn, now, rows) \<Rightarrow> check_round hc sn now rows dm) = (v, dm')"
  then obtain sn now rows where o: "check_round hc sn now rows dm = (v, dm')" by (cases i) auto
  show "dm' = dm \<and> round_suspect v = None \<and> \<not> round_confirmed v" if "isl v"
    using o that by (cases rule: check_round_cases) (simp_all add: round_suspect_def round_confirmed_def)
  show "dm_candidate dm' = Some k \<and> dm_confirmations dm' = (if dm_candidate dm = Some k then Suc (dm_confirmations dm) else 1)"
    if "round_suspect v = Some k" for k
    using o
  proof (cases rule: check_round_cases)
    case (settled r ro)
    then show ?thesis using that by (auto simp: round_suspect_def count_confirmation_def split: if_splits)
  qed (use that in \<open>simp add: round_suspect_def\<close>)
  show "dm_candidate dm' = None \<and> dm_confirmations dm' = 0" if "\<not> isl v" "round_suspect v = None"
    using o
  proof (cases rule: check_round_cases)
    case (settled r ro)
    then show ?thesis using that by (simp add: round_suspect_def count_confirmation_def split: if_splits)
  qed (use that in simp)
  show "round_confirmed v \<longleftrightarrow> (\<exists>k. round_suspect v = Some k \<and> required_confirmations hc (fst k) \<le> dm_confirmations dm')"
    using o by (cases rule: check_round_cases) (simp_all add: round_suspect_def round_confirmed_def del: split_paired_Ex)
qed simp

section \<open>The training process and its daemon together\<close>

text \<open>
  The tracker and the daemon share the published snapshot. Training calls interleave with the wake-ups and rounds of the
  daemon in any way. The log records what an observer sees: calls that published, the moments at which the daemon saw new
  progress, and its rounds with whether it reported a hang. A snapshot is read in one piece here.
\<close>

datatype watch_log = Published | SawProgress real | Round real bool

record watch =
  wt_tracker :: tracker
  wt_daemon :: daemon
  wt_checking :: bool
  wt_log :: "watch_log list"

inductive watch_step :: "hang_config \<Rightarrow> watch \<Rightarrow> watch \<Rightarrow> bool" for hc where
  trains: "run_tracker_call c clk (wt_tracker w) = (r, tk) \<Longrightarrow>
    watch_step hc w (w\<lparr>wt_tracker := tk, wt_log := wt_log w @ (if isl r then [] else [Published])\<rparr>)"
| wakes: "\<not> wt_checking w \<Longrightarrow> wake_up hc progressed (tk_shm (wt_tracker w)) now (wt_daemon w) = (out, dm) \<Longrightarrow>
    watch_step hc w (w\<lparr>wt_daemon := dm, wt_checking := (out = CheckNow),
      wt_log := wt_log w @ (if progress_of (tk_shm (wt_tracker w)) = (dm_last_step (wt_daemon w), dm_last_op_id (wt_daemon w)) then []
                            else [SawProgress now])\<rparr>)"
| checks: "wt_checking w \<Longrightarrow> check_round hc (tk_shm (wt_tracker w)) now rows (wt_daemon w) = (Inr ro, dm) \<Longrightarrow>
    watch_step hc w (w\<lparr>wt_daemon := dm, wt_checking := False, wt_log := wt_log w @ [Round now (ro_report_hang ro)]\<rparr>)"

definition start_watch :: "clock \<Rightarrow> real \<Rightarrow> watch" where
  "start_watch clk now =
     \<lparr>wt_tracker = init_tracker clk, wt_daemon = start_daemon (tk_shm (init_tracker clk)) now, wt_checking = False,
      wt_log = [SawProgress now]\<rparr>"

definition last_seen :: "daemon \<Rightarrow> int \<times> int" where
  "last_seen dm = (dm_last_step dm, dm_last_op_id dm)"

definition watch_inv :: "watch \<Rightarrow> bool" where
  "watch_inv w \<longleftrightarrow> tracker_inv (wt_tracker w) \<and>
     last_seen (wt_daemon w) \<le> progress_of (tk_shm (wt_tracker w)) \<and>
     (\<exists>pre post. wt_log w = pre @ SawProgress (dm_last_change (wt_daemon w)) # post \<and>
        (Published \<in> set post \<longleftrightarrow> last_seen (wt_daemon w) \<noteq> progress_of (tk_shm (wt_tracker w)))) \<and>
     (\<forall>pre t post. wt_log w = pre @ Round t True # post \<longrightarrow> Published \<notin> set post \<longrightarrow>
        dm_reported_progress (wt_daemon w) = Some (progress_of (tk_shm (wt_tracker w))) \<and>
        last_seen (wt_daemon w) = progress_of (tk_shm (wt_tracker w)))"

lemma wake_up_daemon: "wake_up hc progressed sn now dm = (out, dm') \<Longrightarrow> dm' = snd (observe_stall sn now dm)"
  by (auto simp: wake_up_def split: prod.splits if_splits)

lemma snoc_split: "xs @ [x] = pre @ y # post \<longleftrightarrow> (post = [] \<and> x = y \<and> xs = pre) \<or> (\<exists>post'. post = post' @ [x] \<and> xs = pre @ y # post')"
  by (cases post rule: rev_cases) auto

lemma watch_inv_start: "watch_inv (start_watch clk now)"
  by (auto simp: watch_inv_def start_watch_def init_tracker_inv start_daemon_def last_seen_def progress_of_def Cons_eq_append_conv
      intro!: exI [of _ "[]"])

lemma watch_inv_step:
  assumes "watch_step hc w w'" "watch_inv w" "0 \<le> hc_stall_threshold hc"
  shows "watch_inv w'"
  using assms(1,2)
proof (induction rule: watch_step.induct)
  case (trains c clk w r tk)
  have inv: "tracker_inv (wt_tracker w)" "last_seen (wt_daemon w) \<le> progress_of (tk_shm (wt_tracker w))"
    using trains(2) by (simp_all add: watch_inv_def)
  note p = tracker_call_progress [OF trains(1) inv(1)]
  obtain pre post where sp: "wt_log w = pre @ SawProgress (dm_last_change (wt_daemon w)) # post"
    "Published \<in> set post \<longleftrightarrow> last_seen (wt_daemon w) \<noteq> progress_of (tk_shm (wt_tracker w))"
    using trains(2) by (auto simp: watch_inv_def)
  show ?case
  proof (cases r)
    case (Inl e)
    then show ?thesis using trains(2) p by (simp add: watch_inv_def)
  next
    case (Inr u)
    then have lt: "progress_of (tk_shm (wt_tracker w)) < progress_of (tk_shm tk)" "tracker_inv tk" using p by auto
    then have "last_seen (wt_daemon w) < progress_of (tk_shm tk)" using inv(2) le_less_trans by blast
    then have ls: "last_seen (wt_daemon w) \<le> progress_of (tk_shm tk)" "last_seen (wt_daemon w) \<noteq> progress_of (tk_shm tk)"
      by (simp_all add: less_le)
    have a: "\<exists>pre post. wt_log w @ [Published] = pre @ SawProgress (dm_last_change (wt_daemon w)) # post \<and>
        (Published \<in> set post \<longleftrightarrow> last_seen (wt_daemon w) \<noteq> progress_of (tk_shm tk))"
      using sp(1) ls(2) by (intro exI [of _ pre] exI [of _ "post @ [Published]"]) simp
    have b: "Published \<in> set post'" if "wt_log w @ [Published] = pre' @ Round t True # post'" for pre' t post'
      using that unfolding snoc_split by auto
    show ?thesis using lt(2) ls(1) a b Inr by (auto simp: watch_inv_def)
  qed
next
  case (wakes w progressed now out dm)
  let ?sn = "tk_shm (wt_tracker w)"
  have op: "sn_op_id ?sn \<noteq> - 1" using wakes(3) by (auto simp: watch_inv_def tracker_inv_def)
  have dm: "dm = snd (observe_stall ?sn now (wt_daemon w))" by (rule wake_up_daemon [OF wakes(2)])
  show ?case
  proof (cases "progress_of ?sn = last_seen (wt_daemon w)")
    case True
    then have "dm = wt_daemon w" using op dm by (simp add: observe_stall_def progress_of_def last_seen_def)
    then show ?thesis using wakes(3) True by (simp add: watch_inv_def last_seen_def)
  next
    case False
    then have d: "dm_last_change dm = now" "last_seen dm = progress_of ?sn"
      using op dm by (simp_all add: observe_stall_def progress_of_def last_seen_def)
    have "\<exists>pre post. wt_log w @ [SawProgress now] = pre @ SawProgress now # post \<and> (Published \<in> set post \<longleftrightarrow> last_seen dm \<noteq> progress_of ?sn)"
      using d(2) by (intro exI [of _ "wt_log w"] exI [of _ "[]"]) simp
    moreover have "Published \<in> set post" if h: "wt_log w @ [SawProgress now] = pre @ Round t True # post" for pre t post
    proof -
      obtain post' where "post = post' @ [SawProgress now]" "wt_log w = pre @ Round t True # post'"
        using h unfolding snoc_split by auto
      then show ?thesis using wakes(3) False by (auto simp: watch_inv_def)
    qed
    ultimately show ?thesis using wakes(3) d False by (auto simp: watch_inv_def last_seen_def)
  qed
next
  case (checks w now rows ro dm)
  let ?sn = "tk_shm (wt_tracker w)"
  from checks(2) show ?case
  proof (cases rule: check_round_cases)
    case (settled r ro')
    have ro: "ro' = ro" using settled(2) by simp
    have same: "last_seen dm = last_seen (wt_daemon w)" "dm_last_change dm = dm_last_change (wt_daemon w)"
      using settled by (simp_all add: last_seen_def)
    have hang: "last_seen (wt_daemon w) = progress_of ?sn" if "ro_report_hang ro"
      using check_once_Inr [OF settled(1)] settled(8) that assms(3) unfolding ro
      by (fastforce simp: last_seen_def progress_of_def split: if_splits)
    obtain pre post where sp: "wt_log w = pre @ SawProgress (dm_last_change (wt_daemon w)) # post"
      "Published \<in> set post \<longleftrightarrow> last_seen (wt_daemon w) \<noteq> progress_of ?sn"
      using checks(3) by (auto simp: watch_inv_def)
    have a: "\<exists>pre post. wt_log w @ [Round now (ro_report_hang ro)] = pre @ SawProgress (dm_last_change dm) # post \<and>
        (Published \<in> set post \<longleftrightarrow> last_seen dm \<noteq> progress_of ?sn)"
      using sp same by (intro exI [of _ pre] exI [of _ "post @ [Round now (ro_report_hang ro)]"]) simp
    have b: "dm_reported_progress dm = Some (progress_of ?sn) \<and> last_seen dm = progress_of ?sn"
      if e: "wt_log w @ [Round now (ro_report_hang ro)] = pre @ Round t True # post" and n: "Published \<notin> set post" for pre t post
    proof (cases "ro_report_hang ro")
      case True
      then show ?thesis using hang settled(12) same unfolding ro by (simp add: progress_of_def)
    next
      case False
      then obtain post' where "wt_log w = pre @ Round t True # post'" "Published \<notin> set post'"
        using e n unfolding snoc_split by auto
      then have "dm_reported_progress (wt_daemon w) = Some (progress_of ?sn) \<and> last_seen (wt_daemon w) = progress_of ?sn"
        using checks(3) by (auto simp: watch_inv_def)
      then show ?thesis using settled(12) same False unfolding ro by simp
    qed
    show ?thesis using checks(3) a b same by (auto simp: watch_inv_def)
  qed simp
qed

text \<open>C21: Whatever the interleaving of training calls, wake-ups and consensus rounds, a reported hang means that the
  daemon saw progress longer ago than the stall threshold and the training process has published nothing since, and two
  hang reports are separated by published progress.\<close>

theorem hang_report_justified:
  assumes "(watch_step hc)\<^sup>*\<^sup>* (start_watch clk t0) w" "0 \<le> hc_stall_threshold hc"
    and "watch_step hc w w'" "wt_log w' = wt_log w @ [Round t True]"
  shows "(\<exists>pre seen post. wt_log w = pre @ SawProgress seen # post \<and> hc_stall_threshold hc < t - seen \<and> Published \<notin> set post) \<and>
    (\<forall>pre s post. wt_log w = pre @ Round s True # post \<longrightarrow> Published \<in> set post)"
proof -
  have inv: "watch_inv w" using assms(1)
    by (induction rule: rtranclp_induct) (use watch_inv_start watch_inv_step assms(2) in blast)+
  obtain rows ro dm where c: "check_round hc (tk_shm (wt_tracker w)) t rows (wt_daemon w) = (Inr ro, dm)" "ro_report_hang ro"
    using assms(3,4) by (cases rule: watch_step.cases) (auto split: if_splits)
  from c(1) show ?thesis
  proof (cases rule: check_round_cases)
    case (settled r ro')
    then have h: "hr_is_hang r" "Some (progress_of (tk_shm (wt_tracker w))) \<noteq> dm_reported_progress (wt_daemon w)"
      using c(2) by (auto simp: progress_of_def)
    have "progress_of (tk_shm (wt_tracker w)) = last_seen (wt_daemon w) \<and> hc_stall_threshold hc < t - dm_last_change (wt_daemon w)"
      using check_once_Inr [OF settled(1)] h(1) assms(2) by (fastforce simp: last_seen_def progress_of_def split: if_splits)
    then show ?thesis using inv h(2) unfolding watch_inv_def by metis
  qed simp
qed

text \<open>A confirmed stage straggler was the same event in each of the required last rounds.\<close>

lemma stage_straggler_held:
  assumes "hd.rounds hc dm (is @ [i]) = (vs @ [v], dm')" "dm_candidate dm = None" "round_confirmed v"
  shows "\<exists>e. round_suspect v = Some e \<and> required_confirmations hc (fst e) \<le> length (hd.settled (vs @ [v])) \<and>
    (\<forall>u \<in> set (drop (length (hd.settled (vs @ [v])) - required_confirmations hc (fst e)) (hd.settled (vs @ [v]))).
       round_suspect u = Some e)"
  using hd.confirmed_held [OF assms] unfolding hd.held_def by blast

section \<open>The report names ranks of the group\<close>

lemma differing_subset: "set (differing ranks P rows) \<subseteq> set ranks"
  by (auto simp: differing_def dest: set_zip_leftD)

lemma flagged_subset: "length bitmap \<le> length ranks \<Longrightarrow> set (flagged_ranks ranks bitmap) \<subseteq> set ranks"
  by (auto simp: flagged_ranks_def in_set_enumerate_eq)

definition example_hang_config :: hang_config where
  "example_hang_config = \<lparr>hc_stall_threshold = 30, hc_confirmation_interval = 1, hc_peer_ranks = [4, 5, 6],
     hc_dataloader_threshold = 5, hc_dataloader_ratio = 2, hc_dataloader_rounds = 2,
     hc_checkpoint_threshold = 30, hc_checkpoint_ratio = 2, hc_checkpoint_rounds = 2\<rparr>"

definition example_row :: "int \<Rightarrow> int \<Rightarrow> int \<Rightarrow> peer_row" where
  "example_row op_id stage elapsed = \<lparr>pr_op_id = op_id, pr_step = 5, pr_metadata = 0, pr_active_stage = stage, pr_active_key = 0,
     pr_active_sequence = 1, pr_active_elapsed_ns = elapsed, pr_completed_stage = 0, pr_completed_key = 0, pr_completed_sequence = 0,
     pr_completed_duration_ns = 0\<rparr>"

definition example_snapshot :: "int \<Rightarrow> snapshot" where
  "example_snapshot op_id = \<lparr>sn_op_id = op_id, sn_heartbeat = 0, sn_step = 5, sn_metadata = 0, sn_active = no_token, sn_completed = no_token\<rparr>"

theorem hang_culprits_exact_witness:
  "\<exists>r. check_once example_hang_config (example_snapshot 7) 100 [example_row 7 0 0, example_row 7 0 0, example_row 6 0 0]
     (start_daemon (example_snapshot 7) 0) = Inr r \<and> hr_culprit_ranks r = [6] \<and> hr_is_hang r"
proof -
  let ?rows = "[example_row 7 0 0, example_row 7 0 0, example_row 6 0 0]"
  let ?c = "check_once example_hang_config (example_snapshot 7) 100 ?rows (start_daemon (example_snapshot 7) 0)"
  have e: "map_sum id (\<lambda>r. (hr_mismatch_kind r, hr_is_hang r)) ?c = Inr (Some ProgressMismatch, True)" by code_simp
  then obtain r where r: "?c = Inr r" "hr_mismatch_kind r = Some ProgressMismatch" "hr_is_hang r" by (cases ?c) auto
  have ops: "list_all op_in_range ?rows" by (simp add: op_in_range_def example_row_def)
  have "length (hc_peer_ranks example_hang_config) = length ?rows" by (simp add: example_hang_config_def)
  from hang_culprits_exact [OF r(1) this _ ops] r(2) obtain p where p: "strict_majority p (map row_progress ?rows)"
    "hr_culprit_ranks r = differing (hc_peer_ranks example_hang_config) (\<lambda>row. row_progress row \<noteq> p) ?rows" by auto
  have "p = (5, 7)" using p(1) by (auto simp: strict_majority_def row_progress_def example_row_def split: if_splits)
  then have "hr_culprit_ranks r = [6]" unfolding p(2) by (simp add: differing_def example_hang_config_def row_progress_def example_row_def)
  then show ?thesis using r by blast
qed

theorem hang_report_justified_witness:
  "\<exists>w w'. (watch_step example_hang_config)\<^sup>*\<^sup>* (start_watch (0, 0) 0) w \<and> watch_step example_hang_config w w' \<and>
     wt_log w' = wt_log w @ [Round 40 True] \<and>
     (\<exists>pre seen post. wt_log w = pre @ SawProgress seen # post \<and> 30 < 40 - seen \<and> Published \<notin> set post)"
proof -
  let ?hc = example_hang_config and ?rows = "[example_row 0 0 0, example_row 0 0 0, example_row 0 0 0]"
  let ?w0 = "start_watch (0, 0) 0"
  let ?sn = "tk_shm (init_tracker (0, 0))"
  have wk: "wake_up ?hc False ?sn 40 (start_daemon ?sn 0) = (CheckNow, start_daemon ?sn 0)"
    by (simp add: wake_up_def observe_stall_def start_daemon_def init_tracker_def signal_progress_def packed_def trigger_threshold_def
        example_hang_config_def)
  obtain w1 where w1: "watch_step ?hc ?w0 w1" "wt_daemon w1 = start_daemon ?sn 0" "wt_checking w1" "wt_tracker w1 = init_tracker (0, 0)"
    "wt_log w1 = [SawProgress 0]"
    by (rule that, rule watch_step.wakes [where progressed = False and now = 40 and out = CheckNow and dm = "start_daemon ?sn 0"])
      (simp_all add: start_watch_def wk, simp_all add: start_daemon_def progress_of_def)
  have "map_sum id ro_report_hang (fst (check_round ?hc ?sn 40 ?rows (start_daemon ?sn 0))) = Inr True" by code_simp
  then obtain ro dm where ro: "check_round ?hc ?sn 40 ?rows (start_daemon ?sn 0) = (Inr ro, dm)" "ro_report_hang ro"
    by (cases "check_round ?hc ?sn 40 ?rows (start_daemon ?sn 0)"; cases "fst (check_round ?hc ?sn 40 ?rows (start_daemon ?sn 0))") auto
  obtain w2 where w2: "watch_step ?hc w1 w2" "wt_log w2 = wt_log w1 @ [Round 40 True]"
    by (rule that, rule watch_step.checks [where now = 40 and rows = ?rows and ro = ro and dm = dm]) (use w1 ro in simp_all)
  have r: "(watch_step ?hc)\<^sup>*\<^sup>* ?w0 w1" using w1(1) by blast
  have "0 \<le> hc_stall_threshold ?hc" by (simp add: example_hang_config_def)
  note j = conjunct1 [OF hang_report_justified [OF r this w2]]
  have "hc_stall_threshold ?hc = 30" by (simp add: example_hang_config_def)
  then show ?thesis using j by (intro exI [of _ w1] exI [of _ w2] conjI r w2) simp
qed

text \<open>
  The kind of a report is that of the longest active stage of any rank, not of the culprits' stage: with rank 6 behind in
  its data loader and rank 4 longer in a checkpoint read, the hang of rank 6 is reported as a checkpoint stall.
\<close>

lemma stage_of_another_rank_reported:
  "map_sum id (\<lambda>r. (hr_culprit_ranks r, hr_dataloader_active r, hp_kind (make_report [4, 5, 6] r)))
     (check_once example_hang_config (example_snapshot 7) 100
        [example_row 7 2 9000000, example_row 7 0 0, example_row 6 1 8000000] (start_daemon (example_snapshot 7) 0)) =
   Inr ([6], True, CheckpointStall)"
proof -
  let ?rows = "[example_row 7 2 9000000, example_row 7 0 0, example_row 6 1 8000000]"
  have l: "localize_mismatch [4, 5, 6] ?rows = Inr (Some ProgressMismatch, [0, 0, 1], [6])" by code_simp
  have ls: "longest_stage ?rows = Some (9000000, 0)" by code_simp
  have d: "map (\<lambda>row. real_of_int (matching_stage_duration_ns (stage_of (pr_active_stage (?rows ! 0))) (pr_active_key (?rows ! 0))
      (pr_active_sequence (?rows ! 0)) row) / 1000000) ?rows = [9, 0, 0]"
    by (simp add: matching_stage_duration_ns_def example_row_def stage_of_def stage_value_def)
  have cl: "classify_evidence [9, 0, 0] Statistical 3 = Inr \<lparr>c3_verdict = Agree, c3_bitmap = [0, 0, 0], c3_evidence = [9, 0, 0]\<rparr>" by code_simp
  have c: "compare_stage_latency example_hang_config ?rows =
    Inr \<lparr>sc_stage = CheckpointRead, sc_key = 0, sc_sequence = 1, sc_bitmap = [0, 0, 0], sc_latencies = [9, 0, 0]\<rparr>"
    unfolding compare_stage_latency_def ls option.case prod.case Let_def d cl rcatch.simps rbind.simps
    by (simp add: example_row_def stage_of_def example_hang_config_def)
  have p: "hc_peer_ranks example_hang_config = [4, 5, 6]" by (simp add: example_hang_config_def)
  show ?thesis
    unfolding check_once_def Let_def p l c rbind.simps prod.case
    by (simp add: flagged_ranks_def active_stage_for_culprits_def sole_stage_def rank_index_def make_report_def
        example_row_def stage_of_def)
qed

end
