(* ===== verification/Reports.thy ===== *)
theory Reports
  imports Certification Cross_PG Temporal Hang
begin

text \<open>
  From a replay result to the decision an external manager receives: the merging of confirmation rounds
  (\<open>lm_resiliency/detection/replay_analysis.py\<close>), fault reports (\<open>reports.py\<close>), the checkpoint a recovery decision names
  (\<open>recovery.py\<close>, \<open>handle.py\<close>) and the hooks that publish it (\<open>orchestration.py\<close>). A replay result extends the one of
  \<open>Certification\<close> by what these read; the names of its C3 results are a list beside their statuses. Logging,
  the topology digest of a decision, the restart destination of the hooks and what a report of a node adds about its groups
  are left out.
\<close>

section \<open>Replay results\<close>

record full_result = replay_result +
  fr_straggler_bitmap :: "int list"
  fr_spatial_bitmap :: "int list"
  fr_temporal_bitmap :: "int list"
  fr_confirmations :: int
  fr_group_slowdown :: bool
  fr_source_bitmaps :: "(string \<times> int list) list"
  fr_sdc_sources :: "string list"
  fr_c3_names :: "string list"
  fr_replay_time_ms :: real
  fr_replay_times_ms :: "real list"
  fr_layer_id :: int
  fr_peer_ranks :: "int list"
  fr_straggler_type :: "string option"
  fr_cross_pg :: "cross_pg_result option"

definition plain_result :: "full_result \<Rightarrow> replay_result" where
  "plain_result r = replay_result.truncate r"

definition has_sdc :: "full_result \<Rightarrow> bool" where
  "has_sdc r = replay_result_has_sdc (Some (plain_result r))"

definition any_bit :: "int list \<Rightarrow> bool" where
  "any_bit bits = list_ex (\<lambda>b. b \<noteq> 0) bits"

definition cross_pg_found :: "full_result \<Rightarrow> bool" where
  "cross_pg_found r = (case fr_cross_pg r of None \<Rightarrow> False | Some x \<Rightarrow> cross_pg_confirmed x)"

definition replay_result_has_fault :: "full_result option \<Rightarrow> bool" where
  "replay_result_has_fault result =
     (case result of
        None \<Rightarrow> False
      | Some r \<Rightarrow> has_sdc r \<or> any_bit (fr_straggler_bitmap r) \<or> fr_group_slowdown r \<or> cross_pg_found r)"

section \<open>Merging confirmation rounds\<close>

datatype merge_error = BitmapTooShort | NoRounds | WidthsDiffer

definition straggler_bits :: "full_result \<Rightarrow> int list" where
  "straggler_bits r = (if fr_spatial_bitmap r \<noteq> [] then fr_spatial_bitmap r else fr_straggler_bitmap r)"

definition has_timing_candidate :: "full_result \<Rightarrow> assessment \<Rightarrow> bool" where
  "has_timing_candidate r a =
     (any_bit (straggler_bits r) \<or> list_ex (\<lambda>b. b \<noteq> 0) (as_rank_bitmap a) \<or> as_group_slowdown a)"

definition merge_sdc_source_bitmaps :: "(string \<times> int list) list \<Rightarrow> full_result \<Rightarrow> merge_error + full_result" where
  "merge_sdc_source_bitmaps source_bitmaps r =
     (let width = length (rr_sdc_bitmap r) in
      if source_bitmaps = [] then Inr r
      else if list_ex (\<lambda>(_, bits). length bits \<noteq> width) source_bitmaps then Inl WidthsDiffer
      else
        let all_sources = fold (\<lambda>(k, bits). AList.update k bits) source_bitmaps (fr_source_bitmaps r) in
        if list_ex (\<lambda>(_, bits). length bits < width) all_sources then Inl BitmapTooShort
        else Inr (r\<lparr>fr_source_bitmaps := all_sources,
          rr_sdc_bitmap := map (\<lambda>i. of_bool (\<exists>b \<in> set all_sources. snd b ! i \<noteq> 0)) [0..<width],
          fr_sdc_sources := map fst (filter (\<lambda>b. any_bit (snd b)) all_sources)\<rparr>))"

fun count_flags :: "int list \<Rightarrow> bool list \<Rightarrow> merge_error + int list" where
  "count_flags counts [] = Inr counts"
| "count_flags [] (f # fs) = Inl BitmapTooShort"
| "count_flags (c # cs) (f # fs) = rbind (count_flags cs fs) (\<lambda>cs'. Inr ((c + of_bool f) # cs'))"

fun count_rounds :: "int list \<Rightarrow> bool list list \<Rightarrow> merge_error + int list" where
  "count_rounds counts [] = Inr counts"
| "count_rounds counts (b # bs) = rbind (count_flags counts b) (\<lambda>counts'. count_rounds counts' bs)"

text \<open>\<open>any(... for replay in rounds)\<close> at one index stops at the first bit that is set.\<close>

fun any_at :: "nat \<Rightarrow> int list list \<Rightarrow> merge_error + bool" where
  "any_at i [] = Inr False"
| "any_at i (b # bs) = (if length b \<le> i then Inl BitmapTooShort else if b ! i \<noteq> 0 then Inr True else any_at i bs)"

definition source_bits :: "nat \<Rightarrow> string \<Rightarrow> full_result \<Rightarrow> int list" where
  "source_bits width name r = (case map_of (fr_source_bitmaps r) name of Some bits \<Rightarrow> bits | None \<Rightarrow> replicate width 0)"

definition merged_source :: "nat \<Rightarrow> full_result list \<Rightarrow> string \<Rightarrow> merge_error + string \<times> int list" where
  "merged_source width rounds name =
     rbind (rmap (\<lambda>i. rbind (any_at i (map (source_bits width name) rounds)) (\<lambda>b. Inr (of_bool b))) [0..<width])
       (\<lambda>bits. Inr (name, bits))"

definition source_names :: "full_result list \<Rightarrow> string list" where
  "source_names rounds = remdups (concat (map (\<lambda>r. map fst (fr_source_bitmaps r)) rounds))"

definition merge_replay_rounds :: "full_result list \<Rightarrow> assessment list \<Rightarrow> int \<Rightarrow> merge_error + full_result" where
  "merge_replay_rounds rounds assessments required =
     (case rounds of
        [] \<Rightarrow> Inl NoRounds
      | result # _ \<Rightarrow>
          let width = length (fr_straggler_bitmap result);
              pairs = zip rounds assessments
          in
          rbind (count_rounds (replicate width 0) (map (\<lambda>(r, a). map (\<lambda>b. b \<noteq> 0) (straggler_bits r)) pairs)) (\<lambda>spatial.
          rbind (count_rounds (replicate width 0) (map (\<lambda>(r, a). map (\<lambda>b. b \<noteq> 0) (as_rank_bitmap a)) pairs)) (\<lambda>temporal.
          rbind (rmap (merged_source width rounds) (source_names rounds)) (\<lambda>sources.
          let spatial_bits = map (\<lambda>c. of_bool (required \<le> c)) spatial;
              temporal_bits = map (\<lambda>c. of_bool (required \<le> c)) temporal;
              group_count = sum_list (map (\<lambda>a. of_bool (as_group_slowdown a)) assessments);
              vectors = filter (\<lambda>v. length v = width) (map fr_replay_times_ms rounds)
          in Inr (result\<lparr>
               fr_spatial_bitmap := spatial_bits,
               fr_temporal_bitmap := temporal_bits,
               fr_straggler_bitmap := map (\<lambda>(s, t). of_bool (s \<noteq> 0 \<or> t \<noteq> 0)) (zip spatial_bits temporal_bits),
               fr_group_slowdown := required \<le> group_count,
               fr_confirmations := foldl max group_count (spatial @ temporal),
               fr_source_bitmaps := sources,
               rr_sdc_bitmap := map (\<lambda>i. of_bool (\<exists>b \<in> set sources. snd b ! i \<noteq> 0)) [0..<width],
               fr_sdc_sources := map fst (filter (\<lambda>b. any_bit (snd b)) sources),
               fr_replay_times_ms := (if vectors = [] then fr_replay_times_ms result
                 else map (\<lambda>i. the_median (map (\<lambda>v. v ! i) vectors)) [0..<width]),
               fr_replay_time_ms := the_median (map fr_replay_time_ms rounds)\<rparr>)))))"

section \<open>Fault reports\<close>

datatype fault_scope = RankScope | PeerGroupScope | NodeScope

record fault_report =
  fp_failed_ranks :: "int list"
  fp_layer_id :: int
  fp_sdc :: bool
  fp_scope :: fault_scope
  fp_sources :: "string list"
  fp_straggler_type :: "string option"
  fp_confirmations :: int

definition global_rank :: "int list \<Rightarrow> nat \<Rightarrow> int" where
  "global_rank peer_ranks i = (if i < length peer_ranks then peer_ranks ! i else int i)"

definition flagged :: "int list \<Rightarrow> int list \<Rightarrow> int list" where
  "flagged peer_ranks bits = sorted_set (map (global_rank peer_ranks) (filter (\<lambda>i. bits ! i \<noteq> 0) [0..<length bits]))"

definition whole_group :: "int list \<Rightarrow> int list \<Rightarrow> int list" where
  "whole_group peer_ranks bits = (if peer_ranks \<noteq> [] then peer_ranks else map int [0..<length bits])"

definition sdc_report :: "full_result \<Rightarrow> fault_report list" where
  "sdc_report r =
     (let ranks = flagged (fr_peer_ranks r) (rr_sdc_bitmap r);
          inconclusive = map fst (filter (\<lambda>c. snd c = Inconclusive_c3) (zip (fr_c3_names r) (rr_c3_statuses r)))
      in if \<not> has_sdc r then []
         else [\<lparr>fp_failed_ranks = (if ranks = [] then whole_group (fr_peer_ranks r) (rr_sdc_bitmap r) else ranks),
                fp_layer_id = fr_layer_id r, fp_sdc = True,
                fp_scope = (if any_bit (rr_sdc_bitmap r) then RankScope else PeerGroupScope),
                fp_sources = sorted_set (fr_sdc_sources r @ inconclusive), fp_straggler_type = None, fp_confirmations = 0\<rparr>])"

definition straggler_report :: "full_result \<Rightarrow> fault_report list" where
  "straggler_report r =
     (let ranks1 = (case fr_cross_pg r of
            Some x \<Rightarrow> if cross_pg_confirmed x then xr_failed_ranks x else flagged (fr_peer_ranks r) (fr_straggler_bitmap r)
          | None \<Rightarrow> flagged (fr_peer_ranks r) (fr_straggler_bitmap r));
          ranks = (if fr_group_slowdown r \<and> ranks1 = [] then whole_group (fr_peer_ranks r) (fr_straggler_bitmap r) else ranks1)
      in if ranks = [] then []
         else [\<lparr>fp_failed_ranks = ranks, fp_layer_id = fr_layer_id r, fp_sdc = False,
                fp_scope = (if cross_pg_found r then NodeScope else if fr_group_slowdown r then PeerGroupScope else RankScope),
                fp_sources = [], fp_straggler_type = Some (if cross_pg_found r then ''communication''
                  else case fr_straggler_type r of Some t \<Rightarrow> t | None \<Rightarrow> ''unknown''), fp_confirmations = fr_confirmations r\<rparr>])"

definition replay_fault_reports :: "full_result \<Rightarrow> fault_report list" where
  "replay_fault_reports r = sdc_report r @ straggler_report r"

section \<open>Recovery decisions\<close>

datatype checkpoint_source = FromGemini | FromDurable | NoSource

record recovery_decision =
  rd_failure_kind :: string
  rd_mode :: recovery_mode
  rd_source :: checkpoint_source
  rd_step :: int
  rd_checkpoint_id :: "string option"
  rd_accessible :: bool
  rd_available :: bool
  rd_reason :: string

text \<open>\<open>collective\<close> is what \<open>find_latest\<close> returned, when a collective is allowed.\<close>

definition build_recovery_decision ::
  "runtime \<Rightarrow> string \<Rightarrow> recovery_mode \<Rightarrow> bool \<Rightarrow> string \<Rightarrow> manager option \<Rightarrow> durable option \<Rightarrow>
     (manager_error + int) option \<Rightarrow> manager_error + recovery_decision" where
  "build_recovery_decision rt failure mode accessible reason mgr dur collective =
     rbind (case mgr of
              None \<Rightarrow> Inr (-1)
            | Some mg \<Rightarrow> (case collective of Some r \<Rightarrow> r | None \<Rightarrow> local_recovery_step rt (Some mode) mg)) (\<lambda>gemini.
     let record = (if 0 < gemini then None else Option.bind dur du_latest);
         step = (case record of Some rec \<Rightarrow> dr_step rec | None \<Rightarrow> gemini)
     in Inr \<lparr>rd_failure_kind = failure, rd_mode = mode,
          rd_source = (if 0 < gemini then FromGemini else if record \<noteq> None then FromDurable else NoSource),
          rd_step = step, rd_checkpoint_id = map_option dr_checkpoint_id record,
          rd_accessible = accessible, rd_available = (0 < step), rd_reason = reason\<rparr>)"

definition recovery_decision_reason :: "string \<Rightarrow> recovery_mode \<Rightarrow> bool \<Rightarrow> string" where
  "recovery_decision_reason failure mode accessible =
     (if \<not> accessible \<or> failure = ''machine_unavailable'' then ''required_machine_unavailable''
      else if failure = ''sdc'' then ''sdc_detected''
      else if failure = ''straggler'' then ''accessible_straggler''
      else if mode = LatestGemini then ''full_catalog_replay_clean''
      else ''full_catalog_replay_incomplete_or_sdc'')"

section \<open>The handle\<close>

text \<open>\<open>rl_published\<close> keeps what the callback of the external manager was called with.\<close>

record handle =
  rl_manager :: "manager option"
  rl_durable :: "durable option"
  rl_callback :: bool
  rl_last :: "recovery_decision option"
  rl_published :: "recovery_decision list"

datatype handle_error = DecisionFailed manager_error | CallbackRaised

definition describe_recovery ::
  "runtime \<Rightarrow> string \<Rightarrow> recovery_mode \<Rightarrow> bool \<Rightarrow> string \<Rightarrow> (manager_error + int) option \<Rightarrow> handle \<Rightarrow> manager_error + recovery_decision" where
  "describe_recovery rt failure mode accessible reason collective h =
     build_recovery_decision rt failure mode accessible reason (rl_manager h) (rl_durable h) collective"

definition publish_recovery_decision ::
  "runtime \<Rightarrow> (recovery_decision \<Rightarrow> bool) \<Rightarrow> string \<Rightarrow> recovery_mode \<Rightarrow> bool \<Rightarrow> string option \<Rightarrow> handle \<Rightarrow>
     (handle_error + recovery_decision) \<times> handle" where
  "publish_recovery_decision rt returns failure mode accessible reason h =
     (case describe_recovery rt failure mode accessible
             (case reason of Some r \<Rightarrow> if r = [] then recovery_decision_reason failure mode accessible else r
              | None \<Rightarrow> recovery_decision_reason failure mode accessible) None h of
        Inl e \<Rightarrow> (Inl (DecisionFailed e), h)
      | Inr d \<Rightarrow>
          let h1 = h\<lparr>rl_last := Some d\<rparr> in
          if \<not> rl_callback h then (Inr d, h1)
          else (if returns d then Inr d else Inl CallbackRaised, h1\<lparr>rl_published := rl_published h @ [d]\<rparr>))"

text \<open>\<open>prepare\<close> is the callback an integration registers; it selects and persists a mode.\<close>

definition handle_prepare_recovery ::
  "runtime \<Rightarrow> (recovery_decision \<Rightarrow> bool) \<Rightarrow> (string \<Rightarrow> bool \<Rightarrow> handle \<Rightarrow> (handle_error + recovery_mode) \<times> handle) option \<Rightarrow>
     string \<Rightarrow> bool \<Rightarrow> handle \<Rightarrow> (handle_error + recovery_mode) \<times> handle" where
  "handle_prepare_recovery rt returns prepare failure accessible h =
     (let (selected, h1) =
        (case prepare of
           Some f \<Rightarrow> f failure accessible h
         | None \<Rightarrow>
             let mode = (if failure = ''straggler'' \<and> accessible then LatestGemini else RecoveryVerified) in
             case rl_manager h of
               None \<Rightarrow> (Inr mode, h)
             | Some mg \<Rightarrow>
                 (case set_recovery_mode rt mode mg of
                    (Inl e, mg1) \<Rightarrow> (Inl (DecisionFailed e), h\<lparr>rl_manager := Some mg1\<rparr>)
                  | (Inr _, mg1) \<Rightarrow> (Inr mode, h\<lparr>rl_manager := Some mg1\<rparr>)))
      in case selected of
           Inl e \<Rightarrow> (Inl e, h1)
         | Inr mode \<Rightarrow>
             (case publish_recovery_decision rt returns failure mode accessible None h1 of
                (Inl e, h2) \<Rightarrow> (Inl e, h2)
              | (Inr _, h2) \<Rightarrow> (Inr mode, h2)))"

section \<open>Orchestration hooks\<close>

record hooks =
  ok_report_fault :: bool
  ok_report_recovery :: bool
  ok_bound :: bool

text \<open>What the publication raises is logged; the handle keeps what it changed before.\<close>

definition replay_fault_callback ::
  "runtime \<Rightarrow> (recovery_decision \<Rightarrow> bool) \<Rightarrow> hooks \<Rightarrow> full_result \<Rightarrow> handle \<Rightarrow> handle \<times> fault_report list" where
  "replay_fault_callback rt returns ok r h =
     (let h1 = (if ok_report_recovery ok \<and> ok_bound ok \<and> replay_result_has_fault (Some r)
                then snd (publish_recovery_decision rt returns (if has_sdc r then ''sdc'' else ''straggler'')
                  (if has_sdc r then RecoveryVerified else LatestGemini) True
                  (Some (if has_sdc r then ''replay_sdc_requires_verified_recovery'' else ''replay_straggler_allows_latest_recovery'')) h)
                else h)
      in (h1, if ok_report_fault ok then replay_fault_reports r else []))"

definition stall_value :: "stall_kind \<Rightarrow> string" where
  "stall_value k = (case k of HangStall \<Rightarrow> ''hang'' | DataStall \<Rightarrow> ''data_stall'' | CheckpointStall \<Rightarrow> ''checkpoint_stall'')"

definition oob_fault_callback ::
  "runtime \<Rightarrow> (recovery_decision \<Rightarrow> bool) \<Rightarrow> hooks \<Rightarrow> hang_report \<Rightarrow> handle \<Rightarrow> handle \<times> hang_report list" where
  "oob_fault_callback rt returns ok report h =
     (let is_hang = (hp_kind report = HangStall);
          h1 = (if ok_report_recovery ok \<and> ok_bound ok
                then snd (publish_recovery_decision rt returns (stall_value (hp_kind report))
                  (if is_hang then RecoveryVerified else LatestGemini) (\<not> is_hang)
                  (Some (if is_hang then ''oob_hang_requires_conservative_recovery''
                         else if hp_kind report = CheckpointStall then ''checkpoint_io_stall_allows_latest_recovery''
                         else ''dataloader_stall_allows_latest_recovery'')) h)
                else h)
      in (h1, if ok_report_fault ok then [report] else []))"

definition bind_hooks :: "hooks \<Rightarrow> handle \<Rightarrow> hooks \<times> handle" where
  "bind_hooks ok h = (ok\<lparr>ok_bound := True\<rparr>, if ok_report_recovery ok then h\<lparr>rl_callback := True\<rparr> else h)"

section \<open>Merged rounds\<close>

lemma count_flags_Inr: "length fs \<le> length cs \<Longrightarrow> \<exists>cs'. count_flags cs fs = Inr cs' \<and> length cs' = length cs \<and>
    (\<forall>i < length cs. cs' ! i = cs ! i + of_bool (i < length fs \<and> fs ! i))"
proof (induction cs fs rule: count_flags.induct)
  case (3 c cs f fs)
  then obtain cs' where "count_flags cs fs = Inr cs'" "length cs' = length cs" "\<forall>i < length cs. cs' ! i = cs ! i + of_bool (i < length fs \<and> fs ! i)" by auto
  then show ?case by (auto simp: nth_Cons split: nat.splits)
qed auto

lemma count_rounds_Inr: "\<forall>b \<in> set bs. length b = length cs \<Longrightarrow> \<exists>cs'. count_rounds cs bs = Inr cs' \<and> length cs' = length cs \<and>
    (\<forall>i < length cs. cs' ! i = cs ! i + int (length (filter (\<lambda>b. b ! i) bs)))"
proof (induction bs arbitrary: cs)
  case (Cons b bs)
  obtain cs1 where c: "count_flags cs b = Inr cs1" "length cs1 = length cs" "\<forall>i < length cs. cs1 ! i = cs ! i + of_bool (i < length b \<and> b ! i)"
    using count_flags_Inr [of b cs] Cons.prems by auto
  obtain cs2 where "count_rounds cs1 bs = Inr cs2" "length cs2 = length cs1" "\<forall>i < length cs1. cs2 ! i = cs1 ! i + int (length (filter (\<lambda>b. b ! i) bs))"
    using Cons.IH [of cs1] Cons.prems c(2) by auto
  then show ?case using c Cons.prems by auto
qed simp

lemma any_at_Inr: "\<forall>b \<in> set bs. i < length b \<Longrightarrow> any_at i bs = Inr (\<exists>b \<in> set bs. b ! i \<noteq> 0)"
  by (induction bs) auto

text \<open>The rounds and assessments of one peer group.\<close>

definition uniform_rounds :: "nat \<Rightarrow> full_result list \<Rightarrow> assessment list \<Rightarrow> bool" where
  "uniform_rounds w rounds assessments \<longleftrightarrow> rounds \<noteq> [] \<and> length assessments = length rounds \<and>
     (\<forall>r \<in> set rounds. length (fr_straggler_bitmap r) = w \<and> length (straggler_bits r) = w \<and> distinct (map fst (fr_source_bitmaps r)) \<and>
       (\<forall>b \<in> set (fr_source_bitmaps r). length (snd b) = w)) \<and>
     (\<forall>a \<in> set assessments. length (as_rank_bitmap a) = w)"

definition rounds_flagging :: "('a \<Rightarrow> bool) \<Rightarrow> 'a list \<Rightarrow> int" where
  "rounds_flagging p xs = int (length (filter p xs))"

lemma source_bits_length: "\<forall>b \<in> set (fr_source_bitmaps r). length (snd b) = w \<Longrightarrow> length (source_bits w name r) = w"
  by (cases "map_of (fr_source_bitmaps r) name") (force simp: source_bits_def dest: map_of_SomeD)+

lemma merged_source_Inr:
  assumes "\<forall>r \<in> set rounds. \<forall>b \<in> set (fr_source_bitmaps r). length (snd b) = w"
  shows "merged_source w rounds name = Inr (name, map (\<lambda>i. of_bool (\<exists>r \<in> set rounds. source_bits w name r ! i \<noteq> 0)) [0..<w])"
proof -
  have "any_at i (map (source_bits w name) rounds) = Inr (\<exists>r \<in> set rounds. source_bits w name r ! i \<noteq> 0)" if "i < w" for i
    using any_at_Inr [of "map (source_bits w name) rounds" i] assms source_bits_length that by simp
  then have "rmap (\<lambda>i. rbind (any_at i (map (source_bits w name) rounds)) (\<lambda>b. Inr (of_bool b))) [0..<w] =
      (Inr (map (\<lambda>i. of_bool (\<exists>r \<in> set rounds. source_bits w name r ! i \<noteq> 0)) [0..<w]) :: merge_error + int list)"
    by (intro rmap_Inr) simp
  then show ?thesis by (simp add: merged_source_def)
qed

lemma source_bits_flag:
  assumes "distinct (map fst (fr_source_bitmaps r))" "i < w"
  shows "(\<exists>name. source_bits w name r ! i \<noteq> 0) \<longleftrightarrow> (\<exists>b \<in> set (fr_source_bitmaps r). snd b ! i \<noteq> 0)"
proof
  assume "\<exists>name. source_bits w name r ! i \<noteq> 0"
  then show "\<exists>b \<in> set (fr_source_bitmaps r). snd b ! i \<noteq> 0"
    using assms(2) by (force simp: source_bits_def split: option.splits dest: map_of_SomeD)
next
  assume "\<exists>b \<in> set (fr_source_bitmaps r). snd b ! i \<noteq> 0"
  then obtain name bits where "(name, bits) \<in> set (fr_source_bitmaps r)" "bits ! i \<noteq> 0" by auto
  then show "\<exists>name. source_bits w name r ! i \<noteq> 0" using assms(1) by (intro exI [of _ name]) (simp add: source_bits_def)
qed

lemma source_bits_named: "source_bits w name r ! i \<noteq> 0 \<Longrightarrow> i < w \<Longrightarrow> name \<in> fst ` set (fr_source_bitmaps r)"
  by (cases "map_of (fr_source_bitmaps r) name") (force simp: source_bits_def dest: map_of_SomeD)+

lemma zip_map_fst: "length as = length rs \<Longrightarrow> map (\<lambda>(r, a). f r) (zip rs as) = map f rs"
  by (induction rs as rule: list_induct2') auto

lemma zip_map_snd: "length as = length rs \<Longrightarrow> map (\<lambda>(r, a). f a) (zip rs as) = map f as"
  by (induction rs as rule: list_induct2') auto

lemma count_flagging:
  assumes "\<forall>x \<in> set xs. length (f x) = w"
  shows "\<exists>counts. count_rounds (replicate w 0) (map (\<lambda>x. map (\<lambda>b. b \<noteq> (0 :: 'b :: zero)) (f x)) xs) = Inr counts \<and> length counts = w \<and>
    (\<forall>i < w. counts ! i = rounds_flagging (\<lambda>x. f x ! i \<noteq> 0) xs)"
proof -
  have n: "length (filter (\<lambda>b. b ! i) (map (\<lambda>x. map (\<lambda>b. b \<noteq> 0) (f x)) xs)) = length (filter (\<lambda>x. f x ! i \<noteq> 0) xs)" if "i < w" for i
    using assms that by (induction xs) auto
  have "\<forall>b \<in> set (map (\<lambda>x. map (\<lambda>b. b \<noteq> 0) (f x)) xs). length b = length (replicate w (0 :: int))" using assms by auto
  from count_rounds_Inr [OF this] n show ?thesis by (auto simp: rounds_flagging_def)
qed

definition merged_bits :: "int \<Rightarrow> int list \<Rightarrow> int list \<Rightarrow> int list" where
  "merged_bits required spatial temporal = map (\<lambda>(s, t). of_bool (s \<noteq> 0 \<or> t \<noteq> 0))
     (zip (map (\<lambda>c. of_bool (required \<le> c) :: int) spatial) (map (\<lambda>c. of_bool (required \<le> c) :: int) temporal))"

definition merged_corrupt :: "nat \<Rightarrow> full_result list \<Rightarrow> nat \<Rightarrow> bool" where
  "merged_corrupt w rounds i = (\<exists>name \<in> set (source_names rounds). \<exists>r \<in> set rounds. source_bits w name r ! i \<noteq> 0)"

lemma merge_fields:
  assumes "uniform_rounds w rounds assessments"
  shows "\<exists>spatial temporal m. merge_replay_rounds rounds assessments required = Inr m \<and> length spatial = w \<and> length temporal = w \<and>
    (\<forall>i < w. spatial ! i = rounds_flagging (\<lambda>r. straggler_bits r ! i \<noteq> 0) rounds) \<and>
    (\<forall>i < w. temporal ! i = rounds_flagging (\<lambda>a. as_rank_bitmap a ! i \<noteq> 0) assessments) \<and>
    fr_straggler_bitmap m = merged_bits required spatial temporal \<and>
    rr_sdc_bitmap m = map (\<lambda>i. of_bool (merged_corrupt w rounds i)) [0..<w] \<and>
    rr_c3_statuses m = rr_c3_statuses (hd rounds) \<and> rr_completed_shape_cycle m = rr_completed_shape_cycle (hd rounds)"
proof -
  note u = assms [unfolded uniform_rounds_def]
  have ne: "rounds \<noteq> []" and l: "length assessments = length rounds" using u by simp_all
  then have w: "length (fr_straggler_bitmap (hd rounds)) = w" using u hd_in_set by blast
  obtain spatial where s: "count_rounds (replicate w 0) (map (\<lambda>r. map (\<lambda>b. b \<noteq> 0) (straggler_bits r)) rounds) = Inr spatial" "length spatial = w"
      "\<forall>i < w. spatial ! i = rounds_flagging (\<lambda>r. straggler_bits r ! i \<noteq> 0) rounds"
    using count_flagging [of rounds straggler_bits w] u by blast
  obtain temporal where t: "count_rounds (replicate w 0) (map (\<lambda>a. map (\<lambda>b. b \<noteq> 0) (as_rank_bitmap a)) assessments) = Inr temporal"
      "length temporal = w" "\<forall>i < w. temporal ! i = rounds_flagging (\<lambda>a. as_rank_bitmap a ! i \<noteq> 0) assessments"
    using count_flagging [of assessments as_rank_bitmap w] u by blast
  let ?bits = "\<lambda>name. map (\<lambda>i. of_bool (\<exists>r \<in> set rounds. source_bits w name r ! i \<noteq> 0) :: int) [0..<w]"
  have x: "rmap (merged_source w rounds) (source_names rounds) = Inr (map (\<lambda>name. (name, ?bits name)) (source_names rounds))"
    using u by (intro rmap_Inr) (simp add: merged_source_Inr)
  have "\<exists>m. merge_replay_rounds rounds assessments required = Inr m \<and> fr_straggler_bitmap m = merged_bits required spatial temporal \<and>
      rr_sdc_bitmap m = map (\<lambda>i. of_bool (merged_corrupt w rounds i)) [0..<w] \<and>
      rr_c3_statuses m = rr_c3_statuses (hd rounds) \<and> rr_completed_shape_cycle m = rr_completed_shape_cycle (hd rounds)"
    unfolding merge_replay_rounds_def zip_map_fst [OF l] zip_map_snd [OF l] list.case_eq_if Let_def w
    using s(1) t(1) x ne by (simp add: merged_bits_def merged_corrupt_def)
  then show ?thesis using s(2,3) t(2,3) by blast
qed

text \<open>C22: After confirmation a rank is a straggler exactly when enough rounds flagged it against its peers or enough
  flagged it against its own history, and it is corrupt exactly when some source of some round said so.\<close>

theorem merged_rounds_exact:
  assumes "uniform_rounds w rounds assessments" "i < w"
  shows "\<exists>m. merge_replay_rounds rounds assessments required = Inr m \<and>
    (fr_straggler_bitmap m ! i \<noteq> 0 \<longleftrightarrow>
       required \<le> rounds_flagging (\<lambda>r. straggler_bits r ! i \<noteq> 0) rounds \<or> required \<le> rounds_flagging (\<lambda>a. as_rank_bitmap a ! i \<noteq> 0) assessments) \<and>
    (rr_sdc_bitmap m ! i \<noteq> 0 \<longleftrightarrow> (\<exists>r \<in> set rounds. \<exists>b \<in> set (fr_source_bitmaps r). snd b ! i \<noteq> 0))"
proof -
  obtain spatial temporal m where m: "merge_replay_rounds rounds assessments required = Inr m" "length spatial = w" "length temporal = w"
      "spatial ! i = rounds_flagging (\<lambda>r. straggler_bits r ! i \<noteq> 0) rounds"
      "temporal ! i = rounds_flagging (\<lambda>a. as_rank_bitmap a ! i \<noteq> 0) assessments"
      "fr_straggler_bitmap m = merged_bits required spatial temporal"
      "rr_sdc_bitmap m = map (\<lambda>i. of_bool (merged_corrupt w rounds i)) [0..<w]"
    using merge_fields [OF assms(1), of required] assms(2) by auto
  have "merged_corrupt w rounds i \<longleftrightarrow> (\<exists>r \<in> set rounds. \<exists>name. source_bits w name r ! i \<noteq> 0)"
    unfolding merged_corrupt_def source_names_def using source_bits_named [OF _ assms(2)] by (simp add: image_iff) blast
  also have "\<dots> \<longleftrightarrow> (\<exists>r \<in> set rounds. \<exists>b \<in> set (fr_source_bitmaps r). snd b ! i \<noteq> 0)"
    using assms by (intro bex_cong refl source_bits_flag) (auto simp: uniform_rounds_def)
  finally show ?thesis using m assms(2) by (auto simp: merged_bits_def)
qed


section \<open>Decisions\<close>

text \<open>C23: When a replay result shows corruption, the decision that is published asks for a verified checkpoint, and the
  in-memory tier is named exactly when the trust record has a verified step of which this rank has a shard on disk, and
  with that step; otherwise the latest validated durable checkpoint is named if there is one, and else none.\<close>

theorem sdc_decision_verified:
  assumes "ok_report_recovery ok" "ok_bound ok" "rl_manager h = Some mg" "read_trust rt mg = Inr cs" "has_sdc r"
  shows "\<exists>d. rl_last (fst (replay_fault_callback rt returns ok r h)) = Some d \<and> rd_mode d = RecoveryVerified \<and>
    (rd_source d = FromGemini \<longleftrightarrow> 0 < cs_verified_step cs \<and> has_rank (cs_verified_step cs) (mg_rank mg) (mg_disk mg)) \<and>
    (rd_source d = FromGemini \<longrightarrow> rd_step d = cs_verified_step cs \<and> 0 < rd_step d \<and> has_rank (rd_step d) (mg_rank mg) (mg_disk mg)) \<and>
    (rd_source d = FromDurable \<longrightarrow> (\<exists>du rec. rl_durable h = Some du \<and> du_latest du = Some rec \<and> rd_step d = dr_step rec \<and>
       rd_checkpoint_id d = Some (dr_checkpoint_id rec))) \<and>
    (rd_source d = NoSource \<longrightarrow> \<not> rd_available d \<and> Option.bind (rl_durable h) du_latest = None)"
proof -
  let ?g = "if 0 < cs_verified_step cs \<and> has_rank (cs_verified_step cs) (mg_rank mg) (mg_disk mg) then cs_verified_step cs else -1"
  have l: "local_recovery_step rt (Some RecoveryVerified) mg = Inr ?g"
    using assms(4) by (simp add: local_recovery_step_def resolved_recovery_mode_def Let_def)
  have f: "replay_result_has_fault (Some r)" using assms(5) by (simp add: replay_result_has_fault_def)
  obtain d where d: "build_recovery_decision rt ''sdc'' RecoveryVerified True ''replay_sdc_requires_verified_recovery'' (rl_manager h) (rl_durable h) None = Inr d"
    "rl_last (fst (replay_fault_callback rt returns ok r h)) = Some d"
    using assms(1,2,3,5) f
    by (simp add: replay_fault_callback_def publish_recovery_decision_def describe_recovery_def build_recovery_decision_def l Let_def split: sum.splits)
  show ?thesis
    using d assms(3) by (cases "rl_durable h") (auto simp: build_recovery_decision_def l Let_def split: if_splits option.splits)
qed

section \<open>Examples\<close>

definition example_full :: "int list \<Rightarrow> int list \<Rightarrow> c3_status list \<Rightarrow> full_result" where
  "example_full slow corrupt statuses = \<lparr>rr_sdc_bitmap = corrupt, rr_c3_statuses = statuses, rr_checked_shape_ids = [''a''],
     rr_completed_shape_cycle = True, rr_completed_scheduled_cycle = True, rr_dense_replay = False,
     fr_straggler_bitmap = slow, fr_spatial_bitmap = slow, fr_temporal_bitmap = [0, 0], fr_confirmations = 0,
     fr_group_slowdown = False, fr_source_bitmaps = [(''layer'', corrupt)], fr_sdc_sources = [], fr_c3_names = map (\<lambda>_. ''layer'') statuses,
     fr_replay_time_ms = 1, fr_replay_times_ms = [1, 2], fr_layer_id = 3, fr_peer_ranks = [4, 5], fr_straggler_type = None,
     fr_cross_pg = None\<rparr>"

definition quiet :: assessment where
  "quiet = \<lparr>as_rank_bitmap = [0, 0], as_group_slowdown = False\<rparr>"

text \<open>Rank 1 is slow in two rounds of three and corrupt in one.\<close>

theorem merged_rounds_exact_witness:
  "let rounds = [example_full [1, 1] [0, 0] [], example_full [0, 1] [0, 1] [], example_full [0, 0] [0, 0] []]
   in \<exists>m. merge_replay_rounds rounds [quiet, quiet, quiet] 2 = Inr m \<and> fr_straggler_bitmap m ! 1 \<noteq> 0 \<and> rr_sdc_bitmap m ! 1 \<noteq> 0"
proof -
  let ?rounds = "[example_full [1, 1] [0, 0] [], example_full [0, 1] [0, 1] [], example_full [0, 0] [0, 0] []]"
  have "uniform_rounds 2 ?rounds [quiet, quiet, quiet]"
    by (simp add: uniform_rounds_def example_full_def quiet_def straggler_bits_def)
  from merged_rounds_exact [OF this, of 1 2] show ?thesis
    by (auto simp: example_full_def straggler_bits_def rounds_flagging_def Let_def)
qed


text \<open>A rank with shards of steps 10 and 20, of which 10 is verified.\<close>

definition example_handle :: handle where
  "example_handle = \<lparr>rl_manager = Some (write_trust
       \<lparr>cs_candidate_step = 20, cs_verified_step = 10, cs_verified_steps = [10], cs_recovery_mode = ''latest''\<rparr>
       (example_manager\<lparr>mg_disk := example_disk 0 [10, 20]\<rparr>)),
     rl_durable = None, rl_callback = True, rl_last = None, rl_published = []\<rparr>"

theorem sdc_decision_verified_witness:
  "\<exists>d. rl_last (fst (replay_fault_callback example_runtime (\<lambda>_. True) \<lparr>ok_report_fault = True, ok_report_recovery = True, ok_bound = True\<rparr>
      (example_full [0, 0] [0, 1] []) example_handle)) = Some d \<and> rd_source d = FromGemini \<and> rd_step d = 10 \<and> rd_mode d = RecoveryVerified"
proof -
  let ?cs = "\<lparr>cs_candidate_step = 20, cs_verified_step = 10, cs_verified_steps = [10], cs_recovery_mode = ''latest''\<rparr>"
  let ?mg = "write_trust ?cs (example_manager\<lparr>mg_disk := example_disk 0 [10, 20]\<rparr>)"
  let ?ok = "\<lparr>ok_report_fault = True, ok_report_recovery = True, ok_bound = True\<rparr>"
  let ?h = "fst (replay_fault_callback example_runtime (\<lambda>_. True) ?ok (example_full [0, 0] [0, 1] []) example_handle)"
  have h: "rl_manager example_handle = Some ?mg" by (simp add: example_handle_def)
  have t: "read_trust example_runtime ?mg = Inr ?cs" by code_simp
  have s: "has_sdc (example_full [0, 0] [0, 1] [])"
    by (simp add: has_sdc_def replay_result_has_sdc_def plain_result_def replay_result.truncate_def example_full_def)
  obtain d where "rl_last ?h = Some d" "rd_mode d = RecoveryVerified" "rd_source d = FromGemini \<longrightarrow> rd_step d = 10"
    using sdc_decision_verified [OF _ _ h t s, of ?ok "\<lambda>_. True"] by auto
  moreover have "map_option rd_source (rl_last ?h) = Some FromGemini" by code_simp
  ultimately show ?thesis by auto
qed

end
