(* ===== verification/Schedule.thy ===== *)
theory Schedule
  imports Prelude "HOL-Library.Product_Lexorder"
begin

text \<open>
  When fault-injection incidents fire: the triggers and lifetimes of
  \<open>lm_resiliency/fault_injection/config.py\<close> and the lazy schedule of \<open>injector.py\<close>, a heap of the next
  trigger of every incident with a small cache in front. \<open>heapq\<close> is a sorted list, \<open>bisect_left\<close> on a
  sorted sequence the number of smaller elements; a probability is a real number.
\<close>

section \<open>Triggers and lifetimes\<close>

datatype config_error = ConfigError string

record iteration_range =
  ir_start :: int
  ir_end :: int
  ir_every :: int

definition range_post_init :: "iteration_range \<Rightarrow> config_error + iteration_range" where
  "range_post_init r =
     (if ir_start r \<le> 0 then Inl (ConfigError ''start'')
      else if ir_end r < ir_start r then Inl (ConfigError ''end'')
      else if ir_every r \<le> 0 then Inl (ConfigError ''every'')
      else Inr r)"

definition range_matches :: "iteration_range \<Rightarrow> int \<Rightarrow> bool" where
  "range_matches r iteration =
     (ir_start r \<le> iteration \<and> iteration \<le> ir_end r \<and> (iteration - ir_start r) mod ir_every r = 0)"

record incident_trigger =
  tr_at :: "int list"
  tr_range :: "iteration_range option"
  tr_probability :: real

definition trigger_post_init :: "incident_trigger \<Rightarrow> config_error + incident_trigger" where
  "trigger_post_init tr =
     (if (tr_at tr \<noteq> []) = (tr_range tr \<noteq> None) then Inl (ConfigError ''exactly one of at or range'')
      else if \<exists>iteration \<in> set (tr_at tr). iteration \<le> 0 then Inl (ConfigError ''positive'')
      else if \<not> distinct (tr_at tr) then Inl (ConfigError ''duplicates'')
      else if sort (tr_at tr) \<noteq> tr_at tr then Inl (ConfigError ''sorted'')
      else if \<not> (0 \<le> tr_probability tr \<and> tr_probability tr \<le> 1) then Inl (ConfigError ''probability'')
      else Inr tr)"

definition bisect_left :: "int list \<Rightarrow> int \<Rightarrow> nat" where
  "bisect_left xs x = length (takeWhile (\<lambda>y. y < x) xs)"

definition has_multiple_candidates :: "incident_trigger \<Rightarrow> bool" where
  "has_multiple_candidates tr =
     (case tr_range tr of
        Some r \<Rightarrow> 1 < 1 + (ir_end r - ir_start r) div ir_every r
      | None \<Rightarrow> 1 < length (tr_at tr))"

definition trigger_matches :: "incident_trigger \<Rightarrow> int \<Rightarrow> bool" where
  "trigger_matches tr iteration =
     (case tr_range tr of
        Some r \<Rightarrow> range_matches r iteration
      | None \<Rightarrow> let position = bisect_left (tr_at tr) iteration
                in position < length (tr_at tr) \<and> tr_at tr ! position = iteration)"

record incident_lifetime =
  li_matching_calls :: "int option"
  li_iterations :: "int option"
  li_until :: "string option"

definition lifetime_post_init :: "incident_lifetime \<Rightarrow> config_error + incident_lifetime" where
  "lifetime_post_init li =
     (if length (filter (\<lambda>b. b) [li_matching_calls li \<noteq> None, li_iterations li \<noteq> None, li_until li \<noteq> None]) \<noteq> 1
      then Inl (ConfigError ''exactly one lifetime'')
      else if (case li_matching_calls li of None \<Rightarrow> False | Some n \<Rightarrow> n \<le> 0) then Inl (ConfigError ''matching_calls'')
      else if (case li_iterations li of None \<Rightarrow> False | Some n \<Rightarrow> n \<le> 0) then Inl (ConfigError ''iterations'')
      else if li_until li \<notin> {None, Some ''recovery'', Some ''replacement'', Some ''campaign_end''} then Inl (ConfigError ''until'')
      else Inr li)"

definition permanent :: "incident_lifetime \<Rightarrow> bool" where
  "permanent li = (li_until li \<noteq> None)"

section \<open>Incidents\<close>

datatype retrigger_policy = Once | EveryAttempt | MaxOccurrences

record fault_spec =
  fa_id :: string
  fa_surface :: string

record incident =
  in_id :: string
  in_trigger :: incident_trigger
  in_lifetime :: incident_lifetime
  in_faults :: "fault_spec list"
  in_retrigger :: retrigger_policy
  in_max_occurrences :: "int option"

definition occurrences_overlap :: "incident \<Rightarrow> bool" where
  "occurrences_overlap inc =
     (case li_iterations (in_lifetime inc) of
        None \<Rightarrow> False
      | Some n \<Rightarrow> 1 < n \<and>
          (case tr_range (in_trigger inc) of
             Some r \<Rightarrow> has_multiple_candidates (in_trigger inc) \<and> ir_every r < n
           | None \<Rightarrow> \<exists>(earlier, later) \<in> set (zip (tr_at (in_trigger inc)) (tl (tr_at (in_trigger inc)))). later - earlier < n))"

definition incident_post_init :: "incident \<Rightarrow> config_error + incident" where
  "incident_post_init inc =
     (if strip (in_id inc) = [] then Inl (ConfigError ''incident_id'')
      else if in_faults inc = [] then Inl (ConfigError ''faults'')
      else if \<not> distinct (map fa_id (in_faults inc)) then Inl (ConfigError ''fault_id'')
      else if in_retrigger inc = MaxOccurrences \<and> (case in_max_occurrences inc of None \<Rightarrow> True | Some n \<Rightarrow> n \<le> 0)
        then Inl (ConfigError ''max_occurrences'')
      else if in_retrigger inc \<noteq> MaxOccurrences \<and> in_max_occurrences inc \<noteq> None then Inl (ConfigError ''max_occurrences'')
      else if permanent (in_lifetime inc) \<and> has_multiple_candidates (in_trigger inc) then Inl (ConfigError ''permanent'')
      else if occurrences_overlap inc then Inl (ConfigError ''overlap'')
      else if li_matching_calls (in_lifetime inc) \<noteq> None \<and>
          (\<exists>f \<in> set (in_faults inc). fa_surface f \<in> {''weight'', ''bias'', ''optimizer_state''})
        then Inl (ConfigError ''surface'')
      else Inr inc)"

section \<open>The schedule\<close>

text \<open>A range is only constructed with a positive step; for any other there is no next trigger here.\<close>

definition next_trigger :: "incident \<Rightarrow> int \<Rightarrow> int option" where
  "next_trigger inc iteration =
     (case tr_range (in_trigger inc) of
        None \<Rightarrow>
          let position = bisect_left (tr_at (in_trigger inc)) iteration
          in if position = length (tr_at (in_trigger inc)) then None else Some (tr_at (in_trigger inc) ! position)
      | Some r \<Rightarrow>
          if iteration \<le> ir_start r then Some (ir_start r)
          else if ir_every r \<le> 0 then None
          else let steps = (iteration - ir_start r + ir_every r - 1) div ir_every r;
                   candidate = ir_start r + steps * ir_every r
               in if candidate \<le> ir_end r then Some candidate else None)"

type_synonym heap_entry = "int \<times> nat \<times> int"

record cursor =
  cu_incidents :: "incident list"
  cu_expiration :: bool
  cu_heap :: "heap_entry list"
  cu_cache :: "(int \<times> (incident \<times> int) list) list"
  cu_high_water :: int

definition heappush :: "heap_entry \<Rightarrow> heap_entry list \<Rightarrow> heap_entry list" where
  "heappush x heap = insort x heap"

definition skipped :: "bool \<Rightarrow> incident \<Rightarrow> bool" where
  "skipped expiration inc = (expiration \<and> li_iterations (in_lifetime inc) = None)"

definition cursor_offset :: "bool \<Rightarrow> incident \<Rightarrow> int" where
  "cursor_offset expiration inc =
     (if expiration then (case li_iterations (in_lifetime inc) of None \<Rightarrow> 0 | Some n \<Rightarrow> n) - 1 else 0)"

definition push_first :: "bool \<Rightarrow> nat \<times> incident \<Rightarrow> heap_entry list \<Rightarrow> heap_entry list" where
  "push_first expiration oi heap =
     (case oi of (order, inc) \<Rightarrow>
        if skipped expiration inc then heap
        else case next_trigger inc 1 of
               None \<Rightarrow> heap
             | Some first \<Rightarrow> heappush (first + cursor_offset expiration inc, order, cursor_offset expiration inc) heap)"

definition init_cursor :: "incident list \<Rightarrow> bool \<Rightarrow> cursor" where
  "init_cursor incidents expiration =
     \<lparr>cu_incidents = incidents, cu_expiration = expiration,
      cu_heap = fold (push_first expiration) (enumerate 0 incidents) [], cu_cache = [], cu_high_water = 0\<rparr>"

text \<open>The direct answer, which \<open>at\<close> uses for iterations that lie behind.\<close>

definition scheduled_at :: "incident list \<Rightarrow> bool \<Rightarrow> int \<Rightarrow> (incident \<times> int) list" where
  "scheduled_at incidents expiration iteration =
     map (\<lambda>inc. (inc, iteration - cursor_offset expiration inc))
       (filter (\<lambda>inc. \<not> skipped expiration inc \<and> 0 < iteration - cursor_offset expiration inc \<and>
          trigger_matches (in_trigger inc) (iteration - cursor_offset expiration inc)) incidents)"

lemma next_trigger_ge: "next_trigger inc i = Some t \<Longrightarrow> i \<le> t"
proof (cases "tr_range (in_trigger inc)")
  case None
  assume "next_trigger inc i = Some t"
  then have "bisect_left (tr_at (in_trigger inc)) i < length (tr_at (in_trigger inc))"
    "t = tr_at (in_trigger inc) ! bisect_left (tr_at (in_trigger inc)) i"
    using None length_takeWhile_le [of "\<lambda>y. y < i" "tr_at (in_trigger inc)"]
    by (auto simp: next_trigger_def bisect_left_def Let_def split: if_splits)
  then show ?thesis using nth_length_takeWhile [of "\<lambda>y. y < i" "tr_at (in_trigger inc)"] by (simp add: bisect_left_def)
next
  case (Some r)
  assume n: "next_trigger inc i = Some t"
  have "i - ir_start r \<le> ((i - ir_start r + ir_every r - 1) div ir_every r) * ir_every r" if "0 < ir_every r"
    using that div_mult_mod_eq [of "i - ir_start r + ir_every r - 1" "ir_every r"]
      pos_mod_bound [OF that, of "i - ir_start r + ir_every r - 1"] by linarith
  then show ?thesis using n Some by (auto simp: next_trigger_def Let_def split: if_splits)
qed

lemma filter_heappush: "\<not> P x \<Longrightarrow> filter P (heappush x heap) = filter P heap"
  unfolding heappush_def by (induction heap) auto

function drain :: "incident list \<Rightarrow> int \<Rightarrow> heap_entry list \<Rightarrow> heap_entry list" where
  "drain incidents iteration heap =
     (case heap of
        [] \<Rightarrow> []
      | (scheduled, order, offset) # rest \<Rightarrow>
          if scheduled < iteration
          then drain incidents iteration
                 (case next_trigger (incidents ! order) (iteration - offset) of
                    None \<Rightarrow> rest
                  | Some next_start \<Rightarrow> heappush (next_start + offset, order, offset) rest)
          else heap)"
  by pat_completeness auto
termination
proof (relation "measure (\<lambda>(incidents, iteration, heap). length (filter (\<lambda>(s, order, offset). s < iteration) heap))")
  fix incidents :: "incident list" and iteration scheduled offset :: int and order :: nat and rest heap rest1
    and x y z
  assume "heap = x # rest" "(scheduled, z) = x" "(order, offset) = z" "scheduled < iteration"
  moreover have "length (filter (\<lambda>(s, order, offset). s < iteration)
      (case next_trigger (incidents ! order) (iteration - offset) of None \<Rightarrow> rest
       | Some n \<Rightarrow> heappush (n + offset, order, offset) rest)) \<le> length (filter (\<lambda>(s, order, offset). s < iteration) rest)"
    by (auto simp: filter_heappush split: option.splits dest: next_trigger_ge)
  ultimately show "((incidents, iteration, case next_trigger (incidents ! order) (iteration - offset) of None \<Rightarrow> rest
       | Some n \<Rightarrow> heappush (n + offset, order, offset) rest), incidents, iteration, heap)
     \<in> measure (\<lambda>(incidents, iteration, heap). length (filter (\<lambda>(s, order, offset). s < iteration) heap))"
    by auto
qed simp

declare drain.simps [simp del]

definition cursor_at :: "cursor \<Rightarrow> int \<Rightarrow> (incident \<times> int) list \<times> cursor" where
  "cursor_at cu iteration =
     (case map_of (cu_cache cu) iteration of
        Some cached \<Rightarrow> (cached, cu)
      | None \<Rightarrow>
          if iteration < cu_high_water cu then (scheduled_at (cu_incidents cu) (cu_expiration cu) iteration, cu)
          else
            let heap = drain (cu_incidents cu) iteration (cu_heap cu);
                matched = takeWhile (\<lambda>(scheduled, order, offset). scheduled = iteration) heap;
                result = map (\<lambda>(scheduled, order, offset). (cu_incidents cu ! order, iteration - offset)) matched;
                cache = cu_cache cu @ [(iteration, result)]
            in (result,
                cu\<lparr>cu_heap := fold heappush matched (drop (length matched) heap), cu_high_water := iteration,
                   cu_cache := drop (length cache - 8) cache\<rparr>))"

record campaign_schedule =
  sc_candidates :: cursor
  sc_expirations :: cursor

definition init_schedule :: "incident list \<Rightarrow> campaign_schedule" where
  "init_schedule incidents = \<lparr>sc_candidates = init_cursor incidents False, sc_expirations = init_cursor incidents True\<rparr>"

definition schedule_candidates :: "campaign_schedule \<Rightarrow> int \<Rightarrow> incident list \<times> campaign_schedule" where
  "schedule_candidates sc iteration =
     (case cursor_at (sc_candidates sc) iteration of (rs, cu) \<Rightarrow> (map fst rs, sc\<lparr>sc_candidates := cu\<rparr>))"

definition schedule_expirations :: "campaign_schedule \<Rightarrow> int \<Rightarrow> (incident \<times> int) list \<times> campaign_schedule" where
  "schedule_expirations sc iteration =
     (case cursor_at (sc_expirations sc) iteration of (rs, cu) \<Rightarrow> (rs, sc\<lparr>sc_expirations := cu\<rparr>))"

section \<open>The next trigger\<close>

definition trigger_wf :: "incident_trigger \<Rightarrow> bool" where
  "trigger_wf tr \<longleftrightarrow> trigger_post_init tr = Inr tr \<and> pred_option (\<lambda>r. range_post_init r = Inr r) (tr_range tr)"

lemma bisect_left_sorted:
  assumes "sorted xs" "i < length xs"
  shows "i < bisect_left xs x \<longleftrightarrow> xs ! i < x"
proof
  assume "i < bisect_left xs x"
  then show "xs ! i < x" unfolding bisect_left_def by (metis nth_mem set_takeWhileD takeWhile_nth)
next
  assume "xs ! i < x"
  then have "\<forall>j \<le> i. xs ! j < x" using assms sorted_nth_mono by fastforce
  then show "i < bisect_left xs x"
    unfolding bisect_left_def
    by (metis assms(2) leI nth_length_takeWhile order_le_less_trans)
qed

lemma at_matches:
  assumes "sorted xs"
  shows "(bisect_left xs x < length xs \<and> xs ! bisect_left xs x = x) \<longleftrightarrow> x \<in> set xs"
proof
  assume "x \<in> set xs"
  then obtain i where i: "i < length xs" "xs ! i = x" by (auto simp: in_set_conv_nth)
  then have le: "bisect_left xs x \<le> i" using bisect_left_sorted [OF assms i(1), of x] by simp
  then have b: "bisect_left xs x < length xs" using i by simp
  then have "\<not> xs ! bisect_left xs x < x" using bisect_left_sorted [OF assms b, of x] by simp
  moreover have "xs ! bisect_left xs x \<le> x" using sorted_nth_mono [OF assms le i(1)] i(2) by simp
  ultimately show "bisect_left xs x < length xs \<and> xs ! bisect_left xs x = x" using b by simp
qed (metis nth_mem)

lemma at_next:
  assumes "sorted xs"
  shows "bisect_left xs i < length xs \<Longrightarrow> i \<le> xs ! bisect_left xs i \<and> (\<forall>u \<in> set xs. i \<le> u \<longrightarrow> xs ! bisect_left xs i \<le> u)"
    "bisect_left xs i = length xs \<Longrightarrow> \<forall>u \<in> set xs. u < i"
proof -
  assume b: "bisect_left xs i < length xs"
  have "xs ! bisect_left xs i \<le> u" if u: "u \<in> set xs" "i \<le> u" for u
  proof -
    obtain j where j: "j < length xs" "xs ! j = u" using u by (auto simp: in_set_conv_nth)
    then have "bisect_left xs i \<le> j" using bisect_left_sorted [OF assms j(1), of i] u by simp
    then show ?thesis using sorted_nth_mono [OF assms _ j(1)] j by simp
  qed
  then show "i \<le> xs ! bisect_left xs i \<and> (\<forall>u \<in> set xs. i \<le> u \<longrightarrow> xs ! bisect_left xs i \<le> u)"
    using bisect_left_sorted [OF assms b, of i] by simp
next
  assume "bisect_left xs i = length xs"
  then show "\<forall>u \<in> set xs. u < i" using bisect_left_sorted [OF assms, of _ i] by (auto simp: in_set_conv_nth)
qed

lemma range_next:
  assumes r: "range_post_init r = Inr r" and i: "ir_start r < i"
  defines "c \<equiv> ir_start r + ((i - ir_start r + ir_every r - 1) div ir_every r) * ir_every r"
  shows "(c - ir_start r) mod ir_every r = 0" "i \<le> c" "range_matches r u \<Longrightarrow> i \<le> u \<Longrightarrow> c \<le> u" "ir_start r \<le> c"
proof -
  have e: "0 < ir_every r" using r by (auto simp: range_post_init_def split: if_splits)
  let ?x = "i - ir_start r + ir_every r - 1"
  have d: "?x div ir_every r * ir_every r + ?x mod ir_every r = ?x" "0 \<le> ?x mod ir_every r" "?x mod ir_every r < ir_every r"
    using e by simp_all
  show "(c - ir_start r) mod ir_every r = 0" by (simp add: c_def)
  show "i \<le> c" unfolding c_def using d by linarith
  then show "ir_start r \<le> c" using i by simp
  assume u: "range_matches r u" "i \<le> u"
  then obtain k where k: "u - ir_start r = ir_every r * k" by (auto simp: range_matches_def dvd_def mod_eq_0_iff_dvd)
  have "?x div ir_every r < k + 1"
  proof (rule ccontr)
    assume "\<not> ?x div ir_every r < k + 1"
    then have "(k + 1) * ir_every r \<le> ?x div ir_every r * ir_every r" using e by (simp add: mult_right_mono)
    then have "ir_every r * k + ir_every r \<le> ?x div ir_every r * ir_every r" by (simp add: algebra_simps)
    then show False using d u(2) k by linarith
  qed
  then have "?x div ir_every r * ir_every r \<le> k * ir_every r" using e by simp
  then show "c \<le> u" using k by (simp add: c_def algebra_simps)
qed

lemma trigger_sorted: "trigger_wf tr \<Longrightarrow> sorted (tr_at tr)"
proof -
  assume "trigger_wf tr"
  then have "sort (tr_at tr) = tr_at tr" by (auto simp: trigger_wf_def trigger_post_init_def split: if_splits)
  then show ?thesis by (metis sorted_sort)
qed

lemma next_trigger_Some:
  assumes wf: "trigger_wf (in_trigger inc)" and n: "next_trigger inc i = Some t"
  shows "trigger_matches (in_trigger inc) t" "trigger_matches (in_trigger inc) u \<Longrightarrow> i \<le> u \<Longrightarrow> t \<le> u"
proof -
  have "trigger_matches (in_trigger inc) t \<and> (trigger_matches (in_trigger inc) u \<longrightarrow> i \<le> u \<longrightarrow> t \<le> u)"
  proof (cases "tr_range (in_trigger inc)")
    case None
    have s: "sorted (tr_at (in_trigger inc))" by (rule trigger_sorted [OF wf])
    have "bisect_left (tr_at (in_trigger inc)) i < length (tr_at (in_trigger inc))"
      "t = tr_at (in_trigger inc) ! bisect_left (tr_at (in_trigger inc)) i"
      using n None length_takeWhile_le [of "\<lambda>y. y < i" "tr_at (in_trigger inc)"]
      by (auto simp: next_trigger_def bisect_left_def Let_def split: if_splits)
    then show ?thesis using None at_next(1) [OF s] at_matches [OF s] by (auto simp: trigger_matches_def Let_def)
  next
    case (Some r)
    then have r: "range_post_init r = Inr r" using wf by (simp add: trigger_wf_def)
    then have e: "0 < ir_every r" "ir_start r \<le> ir_end r" by (auto simp: range_post_init_def split: if_splits)
    show ?thesis
      using n Some e range_next [OF r, of i] by (auto simp: next_trigger_def trigger_matches_def range_matches_def Let_def split: if_splits)
  qed
  then show "trigger_matches (in_trigger inc) t" "trigger_matches (in_trigger inc) u \<Longrightarrow> i \<le> u \<Longrightarrow> t \<le> u" by auto
qed

lemma next_trigger_None:
  assumes wf: "trigger_wf (in_trigger inc)" and n: "next_trigger inc i = None" and u: "trigger_matches (in_trigger inc) u"
  shows "u < i"
proof (cases "tr_range (in_trigger inc)")
  case None
  have s: "sorted (tr_at (in_trigger inc))" by (rule trigger_sorted [OF wf])
  show ?thesis
    using n None u at_next(2) [OF s] at_matches [OF s] by (auto simp: next_trigger_def trigger_matches_def Let_def split: if_splits)
next
  case (Some r)
  then have r: "range_post_init r = Inr r" using wf by (simp add: trigger_wf_def)
  then have e: "0 < ir_every r" by (auto simp: range_post_init_def split: if_splits)
  show ?thesis
  proof (rule ccontr)
    assume u': "\<not> u < i"
    have m: "range_matches r u" using u Some by (simp add: trigger_matches_def)
    have i: "ir_start r < i" using n Some by (auto simp: next_trigger_def split: if_splits)
    show False
      using n Some e m i u' range_next(3) [OF r i m]
      by (auto simp: next_trigger_def Let_def range_matches_def split: if_splits)
  qed
qed

lemma trigger_positive: "trigger_wf tr \<Longrightarrow> trigger_matches tr t \<Longrightarrow> 0 < t"
proof -
  assume wf: "trigger_wf tr" and t: "trigger_matches tr t"
  have "0 < x" if "x \<in> set (tr_at tr)" for x
    using wf that by (auto simp: trigger_wf_def trigger_post_init_def split: if_splits)
  moreover have "0 < ir_start r" if "tr_range tr = Some r" for r
    using wf that by (auto simp: trigger_wf_def range_post_init_def split: if_splits)
  ultimately show ?thesis
    using t at_matches [OF trigger_sorted [OF wf], of t] by (fastforce simp: trigger_matches_def range_matches_def Let_def split: option.splits)
qed

section \<open>The heap\<close>

text \<open>
  Every entry is a trigger of its incident, no incident has two, and from iteration \<open>lo\<close> on no trigger is missed:
  the entry of its incident is not later.
\<close>

definition heap_ok :: "incident list \<Rightarrow> bool \<Rightarrow> int \<Rightarrow> heap_entry list \<Rightarrow> bool" where
  "heap_ok incs ex lo heap \<longleftrightarrow> sorted heap \<and> distinct (map (\<lambda>x. fst (snd x)) heap) \<and>
     (\<forall>(s, k, off) \<in> set heap. k < length incs \<and> \<not> skipped ex (incs ! k) \<and> off = cursor_offset ex (incs ! k) \<and>
        trigger_matches (in_trigger (incs ! k)) (s - off)) \<and>
     (\<forall>k t. k < length incs \<and> \<not> skipped ex (incs ! k) \<and> trigger_matches (in_trigger (incs ! k)) t \<and>
        lo \<le> t + cursor_offset ex (incs ! k) \<longrightarrow>
        (\<exists>s. (s, k, cursor_offset ex (incs ! k)) \<in> set heap \<and> s \<le> t + cursor_offset ex (incs ! k)))"

lemma heap_ok_mono: "heap_ok incs ex lo heap \<Longrightarrow> lo \<le> lo' \<Longrightarrow> heap_ok incs ex lo' heap"
  unfolding heap_ok_def by (meson order_trans)

lemma set_heappush [simp]: "set (heappush x heap) = insert x (set heap)"
  by (simp add: heappush_def set_insort_key)

lemma sorted_heappush: "sorted heap \<Longrightarrow> sorted (heappush x heap)"
  by (simp add: heappush_def sorted_insort)

lemma distinct_heappush:
  "distinct (map (\<lambda>x. fst (snd x)) (heappush x heap)) \<longleftrightarrow> fst (snd x) \<notin> (\<lambda>x. fst (snd x)) ` set heap \<and> distinct (map (\<lambda>x. fst (snd x)) heap)"
  unfolding heappush_def by (induction heap) (auto simp: set_insort_key)

lemma pop_ok:
  assumes wf: "\<forall>inc \<in> set incs. trigger_wf (in_trigger inc)"
    and h: "heap_ok incs ex i ((s, k, off) # rest)" and s: "s < i"
  shows "heap_ok incs ex i (case next_trigger (incs ! k) (i - off) of None \<Rightarrow> rest | Some n \<Rightarrow> heappush (n + off, k, off) rest)"
proof -
  have k: "k < length incs" "\<not> skipped ex (incs ! k)" "off = cursor_offset ex (incs ! k)" "k \<notin> (\<lambda>x. fst (snd x)) ` set rest"
    using h by (auto simp: heap_ok_def)
  have w: "trigger_wf (in_trigger (incs ! k))" using wf k(1) by simp
  have rest: "sorted rest" "distinct (map (\<lambda>x. fst (snd x)) rest)"
    "\<forall>(s, k, off) \<in> set rest. k < length incs \<and> \<not> skipped ex (incs ! k) \<and> off = cursor_offset ex (incs ! k) \<and>
        trigger_matches (in_trigger (incs ! k)) (s - off)"
    using h by (auto simp: heap_ok_def)
  have other: "\<exists>s. (s, j, cursor_offset ex (incs ! j)) \<in> set rest \<and> s \<le> t + cursor_offset ex (incs ! j)"
    if "j < length incs" "\<not> skipped ex (incs ! j)" "trigger_matches (in_trigger (incs ! j)) t" "i \<le> t + cursor_offset ex (incs ! j)"
      "j \<noteq> k" for j t
    using h that unfolding heap_ok_def by fastforce
  show ?thesis
  proof (cases "next_trigger (incs ! k) (i - off)")
    case None
    have "j \<noteq> k" if "trigger_matches (in_trigger (incs ! j)) t" "i \<le> t + cursor_offset ex (incs ! j)" for j t
      using next_trigger_None [OF w None, of t] that k(3) by force
    then show ?thesis using None rest other unfolding heap_ok_def by auto
  next
    case (Some n)
    have "n + off \<le> t + off" if "trigger_matches (in_trigger (incs ! k)) t" "i \<le> t + cursor_offset ex (incs ! k)" for t
      using next_trigger_Some(2) [OF w Some that(1)] that(2) k(3) by simp
    then have all: "\<exists>s. (s, j, cursor_offset ex (incs ! j)) \<in> set (heappush (n + off, k, off) rest) \<and> s \<le> t + cursor_offset ex (incs ! j)"
      if "j < length incs" "\<not> skipped ex (incs ! j)" "trigger_matches (in_trigger (incs ! j)) t" "i \<le> t + cursor_offset ex (incs ! j)" for j t
      using other [OF that] that k(3) by (cases "j = k") auto
    show ?thesis
      using Some rest k next_trigger_Some(1) [OF w Some] all unfolding heap_ok_def
      by (simp add: sorted_heappush distinct_heappush)
  qed
qed

lemma drain_ok:
  assumes "\<forall>inc \<in> set incs. trigger_wf (in_trigger inc)" "heap_ok incs ex i heap"
  shows "heap_ok incs ex i (drain incs i heap) \<and> (\<forall>x \<in> set (drain incs i heap). i \<le> fst x)"
  using assms
proof (induction incs i heap rule: drain.induct)
  case (1 incs i heap)
  show ?case
  proof (cases heap)
    case (Cons x rest)
    obtain s k off where x: "x = (s, k, off)" by (cases x)
    show ?thesis
    proof (cases "s < i")
      case True
      then show ?thesis
        using 1(1) [OF Cons x [symmetric] refl True 1(2)] pop_ok [OF 1(2), of ex i s k off rest] 1(3) Cons x
        by (simp add: drain.simps [of incs i "(s, k, off) # rest"])
    next
      case False
      have "s \<le> fst y" if "y \<in> set rest" for y
      proof -
        have "sorted ((s, k, off) # rest)" using 1(3) unfolding Cons x heap_ok_def by blast
        then have "(s, k, off) \<le> y" using that by simp
        then show ?thesis by (auto simp: less_eq_prod_def)
      qed
      then have "\<forall>y \<in> set heap. i \<le> fst y" using False unfolding Cons x by fastforce
      moreover have "drain incs i heap = heap" using False by (subst drain.simps) (simp add: Cons x)
      ultimately show ?thesis using 1(3) by simp
    qed
  next
    case Nil
    then have "drain incs i heap = []" by (subst drain.simps) simp
    then show ?thesis using 1(3) Nil by simp
  qed
qed

section \<open>The cursor answers as the direct scan\<close>

definition cursor_ok :: "cursor \<Rightarrow> bool" where
  "cursor_ok cu \<longleftrightarrow> heap_ok (cu_incidents cu) (cu_expiration cu) (cu_high_water cu) (cu_heap cu) \<and>
     (\<forall>(i, r) \<in> set (cu_cache cu). r = scheduled_at (cu_incidents cu) (cu_expiration cu) i)"

lemma sorted_entries:
  assumes "sorted (xs :: heap_entry list)" "\<forall>x \<in> set xs. fst x = i" "distinct (map (\<lambda>x. fst (snd x)) xs)"
  shows "sorted (map (\<lambda>x. fst (snd x)) xs)"
proof -
  have "fst (snd x) \<le> fst (snd y)" if "x \<le> y" "fst x = i" "fst y = i" for x y :: heap_entry
    using that by (auto simp: less_eq_prod_def)
  then show ?thesis
    using assms(1,2) by (induction xs) auto
qed

lemma takeWhile_all_eq:
  assumes "sorted (xs :: heap_entry list)" "\<forall>x \<in> set xs. i \<le> fst x"
  shows "set (takeWhile (\<lambda>(s, k, off). s = i) xs) = {x \<in> set xs. fst x = i}"
  using assms
proof (induction xs)
  case (Cons x xs)
  have "fst x = i" if "y \<in> set xs" "fst y = i" for y
  proof -
    have "x \<le> y" using Cons.prems(1) that(1) by simp
    then have "fst x \<le> fst y" by (auto simp: less_eq_prod_def)
    then show ?thesis using Cons.prems(2) that(2) by force
  qed
  then show ?case using Cons by (cases x) auto
qed simp

lemma matched_orders:
  assumes wf: "\<forall>inc \<in> set incs. trigger_wf (in_trigger inc)"
    and h: "heap_ok incs ex i heap" and ge: "\<forall>x \<in> set heap. i \<le> fst x"
  shows "map (\<lambda>x. fst (snd x)) (takeWhile (\<lambda>(s, k, off). s = i) heap) =
    filter (\<lambda>k. \<not> skipped ex (incs ! k) \<and> trigger_matches (in_trigger (incs ! k)) (i - cursor_offset ex (incs ! k))) [0..<length incs]"
    (is "map _ ?m = filter ?P _")
proof (rule sorted_distinct_set_unique)
  have s: "sorted heap" "distinct (map (\<lambda>x. fst (snd x)) heap)" using h by (auto simp: heap_ok_def)
  have set: "set ?m = {x \<in> set heap. fst x = i}" by (rule takeWhile_all_eq [OF s(1) ge])
  have d: "distinct (map (\<lambda>x. fst (snd x)) ?m)"
    using s(2) by (metis distinct_append map_append takeWhile_dropWhile_id)
  then show "distinct (map (\<lambda>x. fst (snd x)) ?m)" .
  have sm: "sorted ?m" using s(1) by (metis sorted_append takeWhile_dropWhile_id)
  show "sorted (map (\<lambda>x. fst (snd x)) ?m)" by (rule sorted_entries [OF sm _ d]) (use set in auto)
  show "sorted (filter ?P [0..<length incs])" "distinct (filter ?P [0..<length incs])"
    by (simp_all add: sorted_wrt_filter)
  show "set (map (\<lambda>x. fst (snd x)) ?m) = set (filter ?P [0..<length incs])"
  proof (intro equalityI subsetI)
    fix k assume "k \<in> set (map (\<lambda>x. fst (snd x)) ?m)"
    then obtain off where "(i, k, off) \<in> set heap" using set by auto
    then show "k \<in> set (filter ?P [0..<length incs])" using h by (auto simp: heap_ok_def)
  next
    fix k assume "k \<in> set (filter ?P [0..<length incs])"
    then have k: "k < length incs" "?P k" by auto
    then obtain s where "(s, k, cursor_offset ex (incs ! k)) \<in> set heap" "s \<le> i"
    proof -
      have "i \<le> (i - cursor_offset ex (incs ! k)) + cursor_offset ex (incs ! k)" by simp
      then have "\<exists>s. (s, k, cursor_offset ex (incs ! k)) \<in> set heap \<and> s \<le> (i - cursor_offset ex (incs ! k)) + cursor_offset ex (incs ! k)"
        using h k unfolding heap_ok_def by blast
      then show ?thesis using that by auto
    qed
    then have "(i, k, cursor_offset ex (incs ! k)) \<in> set ?m" using ge set by fastforce
    then show "k \<in> set (map (\<lambda>x. fst (snd x)) ?m)" by force
  qed
qed

lemma scheduled_at_indices:
  assumes wf: "\<forall>inc \<in> set incs. trigger_wf (in_trigger inc)"
  shows "scheduled_at incs ex i = map (\<lambda>k. (incs ! k, i - cursor_offset ex (incs ! k)))
    (filter (\<lambda>k. \<not> skipped ex (incs ! k) \<and> trigger_matches (in_trigger (incs ! k)) (i - cursor_offset ex (incs ! k))) [0..<length incs])"
proof -
  let ?Q = "\<lambda>inc. \<not> skipped ex inc \<and> 0 < i - cursor_offset ex inc \<and> trigger_matches (in_trigger inc) (i - cursor_offset ex inc)"
  have "filter ?Q incs = map ((!) incs) (filter (\<lambda>k. ?Q (incs ! k)) [0..<length incs])"
    using filter_map [of ?Q "(!) incs" "[0..<length incs]"] by (simp add: map_nth comp_def)
  moreover have "filter (\<lambda>k. ?Q (incs ! k)) [0..<length incs] =
      filter (\<lambda>k. \<not> skipped ex (incs ! k) \<and> trigger_matches (in_trigger (incs ! k)) (i - cursor_offset ex (incs ! k))) [0..<length incs]"
    using wf trigger_positive by (intro filter_cong) force+
  ultimately show ?thesis by (simp add: scheduled_at_def)
qed

lemma repush: "sorted ys \<Longrightarrow> mset (fold heappush xs ys) = mset xs + mset ys \<and> sorted (fold heappush xs ys)"
  by (induction xs arbitrary: ys) (simp_all add: heappush_def sorted_insort)

lemma repush_same: "sorted heap \<Longrightarrow> fold heappush (takeWhile P heap) (drop (length (takeWhile P heap)) heap) = heap"
proof -
  assume s: "sorted heap"
  have e: "takeWhile P heap @ drop (length (takeWhile P heap)) heap = heap"
    by (metis append_take_drop_id takeWhile_eq_take)
  then have "mset (takeWhile P heap) + mset (drop (length (takeWhile P heap)) heap) = mset heap" by (metis mset_append)
  moreover have "sorted (drop (length (takeWhile P heap)) heap)" using s by (rule sorted_wrt_drop)
  ultimately have "sort heap = fold heappush (takeWhile P heap) (drop (length (takeWhile P heap)) heap)"
    using repush [of "drop (length (takeWhile P heap)) heap" "takeWhile P heap"] by (intro properties_for_sort) auto
  then show ?thesis using sorted_sort_id [OF s] by simp
qed

lemma cursor_step:
  assumes ok: "cursor_ok cu" and wf: "\<forall>inc \<in> set (cu_incidents cu). trigger_wf (in_trigger inc)"
    and at: "cursor_at cu i = (r, cu')"
  shows "r = scheduled_at (cu_incidents cu) (cu_expiration cu) i \<and> cursor_ok cu' \<and>
    cu_incidents cu' = cu_incidents cu \<and> cu_expiration cu' = cu_expiration cu"
proof (cases "map_of (cu_cache cu) i")
  case (Some c)
  then have "c = scheduled_at (cu_incidents cu) (cu_expiration cu) i" using ok map_of_SomeD by (fastforce simp: cursor_ok_def)
  then show ?thesis using at ok Some by (auto simp: cursor_at_def)
next
  case None
  show ?thesis
  proof (cases "i < cu_high_water cu")
    case True then show ?thesis using at ok None by (auto simp: cursor_at_def)
  next
    case False
    let ?h = "drain (cu_incidents cu) i (cu_heap cu)" and ?m = "takeWhile (\<lambda>(s, k, off). s = i)"
    have "heap_ok (cu_incidents cu) (cu_expiration cu) i (cu_heap cu)"
      using ok False heap_ok_mono by (auto simp: cursor_ok_def)
    from drain_ok [OF wf this] have h: "heap_ok (cu_incidents cu) (cu_expiration cu) i ?h" "\<forall>x \<in> set ?h. i \<le> fst x" by auto
    have off: "off = cursor_offset (cu_expiration cu) (cu_incidents cu ! k)" if "(s, k, off) \<in> set (?m ?h)" for s k off
      using that h(1) set_takeWhileD by (fastforce simp: heap_ok_def)
    have "map (\<lambda>(s, k, off). (cu_incidents cu ! k, i - off)) (?m ?h) =
        map (\<lambda>k. (cu_incidents cu ! k, i - cursor_offset (cu_expiration cu) (cu_incidents cu ! k))) (map (\<lambda>x. fst (snd x)) (?m ?h))"
      using off by (auto simp: comp_def)
    also have "\<dots> = scheduled_at (cu_incidents cu) (cu_expiration cu) i"
      unfolding matched_orders [OF wf h] scheduled_at_indices [OF wf] ..
    finally have res: "map (\<lambda>(s, k, off). (cu_incidents cu ! k, i - off)) (?m ?h) = scheduled_at (cu_incidents cu) (cu_expiration cu) i" .
    have same: "fold heappush (?m ?h) (drop (length (?m ?h)) ?h) = ?h" using h(1) repush_same by (simp add: heap_ok_def)
    have cu': "r = scheduled_at (cu_incidents cu) (cu_expiration cu) i"
      "cu' = cu\<lparr>cu_heap := ?h, cu_high_water := i, cu_cache := drop (length (cu_cache cu @ [(i, r)]) - 8) (cu_cache cu @ [(i, r)])\<rparr>"
      using at None False by (auto simp: cursor_at_def Let_def res same)
    have "cursor_ok cu'"
      using ok h cu' by (auto simp: cursor_ok_def dest!: in_set_dropD)
    then show ?thesis using cu' by simp
  qed
qed

text \<open>Consecutive queries.\<close>

fun cursor_run :: "cursor \<Rightarrow> int list \<Rightarrow> (incident \<times> int) list list" where
  "cursor_run cu [] = []"
| "cursor_run cu (i # is) = (case cursor_at cu i of (r, cu') \<Rightarrow> r # cursor_run cu' is)"

lemma cursor_run_ok:
  "cursor_ok cu \<Longrightarrow> \<forall>inc \<in> set (cu_incidents cu). trigger_wf (in_trigger inc) \<Longrightarrow>
   cursor_run cu is = map (scheduled_at (cu_incidents cu) (cu_expiration cu)) is"
proof (induction "is" arbitrary: cu)
  case (Cons i "is")
  obtain r cu' where at: "cursor_at cu i = (r, cu')" by force
  show ?case using cursor_step [OF Cons.prems at] Cons.IH [of cu'] Cons.prems(2) at by simp
qed simp

lemma init_heap_ok:
  assumes wf: "\<forall>inc \<in> set incs. trigger_wf (in_trigger inc)" and len: "n \<le> length incs"
  shows "sorted (fold (push_first ex) (enumerate 0 (take n incs)) []) \<and>
    distinct (map (\<lambda>x. fst (snd x)) (fold (push_first ex) (enumerate 0 (take n incs)) [])) \<and>
    set (fold (push_first ex) (enumerate 0 (take n incs)) []) =
      {(t + cursor_offset ex (incs ! k), k, cursor_offset ex (incs ! k)) | t k. k < n \<and> \<not> skipped ex (incs ! k) \<and> next_trigger (incs ! k) 1 = Some t}"
  using len
proof (induction n)
  case (Suc n)
  define h where "h = fold (push_first ex) (enumerate 0 (take n incs)) []"
  have step: "fold (push_first ex) (enumerate 0 (take (Suc n) incs)) [] = push_first ex (n, incs ! n) h"
    using Suc.prems by (simp add: take_Suc_conv_app_nth enumerate_append_eq h_def)
  have ih: "sorted h" "distinct (map (\<lambda>x. fst (snd x)) h)"
    "set h = {(t + cursor_offset ex (incs ! k), k, cursor_offset ex (incs ! k)) | t k. k < n \<and> \<not> skipped ex (incs ! k) \<and> next_trigger (incs ! k) 1 = Some t}"
    using Suc by (auto simp: h_def)
  have new: "n \<notin> (\<lambda>x. fst (snd x)) ` set h" unfolding ih(3) by auto
  show ?case
    unfolding step
    by (cases "skipped ex (incs ! n)"; cases "next_trigger (incs ! n) 1")
      (use ih new in \<open>auto simp: push_first_def sorted_heappush distinct_heappush less_Suc_eq\<close>)
qed simp

lemma init_cursor_ok:
  assumes wf: "\<forall>inc \<in> set incs. trigger_wf (in_trigger inc)"
  shows "cursor_ok (init_cursor incs ex)"
proof -
  let ?h = "fold (push_first ex) (enumerate 0 incs) []"
  have h: "sorted ?h" "distinct (map (\<lambda>x. fst (snd x)) ?h)"
    "set ?h = {(t + cursor_offset ex (incs ! k), k, cursor_offset ex (incs ! k)) | t k. k < length incs \<and> \<not> skipped ex (incs ! k) \<and> next_trigger (incs ! k) 1 = Some t}"
    using init_heap_ok [OF wf order_refl] by simp_all
  have w: "trigger_wf (in_trigger (incs ! k))" if "k < length incs" for k using wf that by simp
  have complete_h: "\<exists>s. (s, k, cursor_offset ex (incs ! k)) \<in> set ?h \<and> s \<le> t + cursor_offset ex (incs ! k)"
    if k: "k < length incs" "\<not> skipped ex (incs ! k)" and t: "trigger_matches (in_trigger (incs ! k)) t" for k t
  proof -
    have "1 \<le> t" using trigger_positive [OF w [OF k(1)] t] by simp
    then obtain f where "next_trigger (incs ! k) 1 = Some f" "f \<le> t"
      using next_trigger_None [OF w [OF k(1)] _ t, of 1] next_trigger_Some(2) [OF w [OF k(1)] _ t, of 1]
      by (cases "next_trigger (incs ! k) 1") auto
    then show ?thesis unfolding h(3) using k by auto
  qed
  have "heap_ok incs ex 0 ?h"
    unfolding heap_ok_def using h complete_h next_trigger_Some(1) [OF w] by auto
  then show ?thesis by (simp add: cursor_ok_def init_cursor_def)
qed

text \<open>C19: For incidents with valid triggers, the lazy heap and its cache answer every sequence of queries, in any order
  of iterations and with repetitions, exactly as the direct scan of all incidents does, for candidates and for
  expirations.\<close>

theorem schedule_equals_scan:
  assumes "list_all (\<lambda>inc. trigger_post_init (in_trigger inc) = Inr (in_trigger inc) \<and>
    pred_option (\<lambda>r. range_post_init r = Inr r) (tr_range (in_trigger inc))) incidents"
  shows "cursor_run (init_cursor incidents expiration) iterations = map (scheduled_at incidents expiration) iterations"
proof -
  have wf: "\<forall>inc \<in> set (cu_incidents (init_cursor incidents expiration)). trigger_wf (in_trigger inc)"
    using assms by (simp add: list_all_iff trigger_wf_def init_cursor_def)
  then have "cursor_ok (init_cursor incidents expiration)" by (intro init_cursor_ok) (simp add: init_cursor_def)
  from cursor_run_ok [OF this wf] show ?thesis by (simp add: init_cursor_def)
qed

definition example_incident :: "string \<Rightarrow> int list \<Rightarrow> iteration_range option \<Rightarrow> incident" where
  "example_incident i ats r = \<lparr>in_id = i, in_trigger = \<lparr>tr_at = ats, tr_range = r, tr_probability = 1\<rparr>,
     in_lifetime = \<lparr>li_matching_calls = None, li_iterations = Some 2, li_until = None\<rparr>,
     in_faults = [\<lparr>fa_id = ''f'', fa_surface = ''compute''\<rparr>], in_retrigger = Once, in_max_occurrences = None\<rparr>"

theorem schedule_equals_scan_witness:
  "map (map (\<lambda>(inc, start). (in_id inc, start)))
     (cursor_run (init_cursor [example_incident ''a'' [3, 7] None, example_incident ''b'' [] (Some \<lparr>ir_start = 1, ir_end = 9, ir_every = 3\<rparr>)] True)
        [2, 5, 8, 4]) =
   [[(''b'', 1)], [(''b'', 4)], [(''a'', 7), (''b'', 7)], [(''a'', 3)]]"
proof -
  let ?is = "[example_incident ''a'' [3, 7] None, example_incident ''b'' [] (Some \<lparr>ir_start = 1, ir_end = 9, ir_every = 3\<rparr>)]"
  have "list_all (\<lambda>inc. trigger_post_init (in_trigger inc) = Inr (in_trigger inc) \<and>
    pred_option (\<lambda>r. range_post_init r = Inr r) (tr_range (in_trigger inc))) ?is"
    by (simp add: example_incident_def trigger_post_init_def range_post_init_def)
  from schedule_equals_scan [OF this, of True "[2, 5, 8, 4]"] show ?thesis
    by (simp add: scheduled_at_def example_incident_def skipped_def cursor_offset_def trigger_matches_def bisect_left_def range_matches_def)
qed

end
