(* ===== verification/Campaign.thy ===== *)
theory Campaign
  imports Schedule Protocol "HOL-Library.AList"
begin

text \<open>
  Who may fire an incident: the campaign journal and its two state stores (\<open>lm_resiliency/fault_injection/state.py\<close>) and the
  part of \<open>FaultInjectionSession\<close> that binds the journal, claims the occurrences of an iteration by compare-and-swap and
  rolls a claim back (\<open>injector.py\<close>). A store operation runs under its lock and is one step. \<open>draw\<close> stands for the number
  the seeded generator returns for an incident and an iteration.
\<close>

section \<open>The journal\<close>

datatype campaign_error = CampaignValue string | CampaignType string | CampaignRuntime string

record journal =
  cj_campaign :: string
  cj_manifest :: "string option"
  cj_attempts :: "(string \<times> int) list"

text \<open>\<open>str.rpartition(''@'')\<close>: the text before the last at sign and the text after it.\<close>

definition rpartition_at :: "string \<Rightarrow> (string \<times> string) option" where
  "rpartition_at s =
     (if CHR ''@'' \<in> set s
      then Some (rev (tl (dropWhile (\<lambda>c. c \<noteq> CHR ''@'') (rev s))), rev (takeWhile (\<lambda>c. c \<noteq> CHR ''@'') (rev s)))
      else None)"

definition journal_candidate_key :: "string \<Rightarrow> int \<Rightarrow> string" where
  "journal_candidate_key incident_id iteration = incident_id @ CHR ''@'' # int_str iteration"

definition valid_candidate_key :: "string \<Rightarrow> bool" where
  "valid_candidate_key key =
     (case rpartition_at key of
        None \<Rightarrow> False
      | Some (incident_id, iteration) \<Rightarrow>
          incident_id \<noteq> [] \<and> isdecimal iteration \<and> 0 < digits_val iteration \<and> iteration = int_str (int (digits_val iteration)))"

definition bad_key :: campaign_error where
  "bad_key = CampaignValue ''campaign state attempt keys must use <incident_id>@<positive_iteration>''"

definition journal_post_init :: "journal \<Rightarrow> campaign_error + journal" where
  "journal_post_init j =
     (if cj_campaign j = [] then Inl (CampaignValue ''campaign state campaign must be a non-empty string'')
      else if cj_manifest j = Some [] then Inl (CampaignValue ''campaign state manifest_identity must be a non-empty string'')
      else rbind (rmap (\<lambda>(key, count). rbind (ensure (valid_candidate_key key) bad_key)
                    (\<lambda>_. ensure (0 < count) (CampaignValue ''campaign state attempt counts must be positive''))) (cj_attempts j))
             (\<lambda>_. Inr j))"

definition new_journal :: "string \<Rightarrow> campaign_error + journal" where
  "new_journal campaign = journal_post_init \<lparr>cj_campaign = campaign, cj_manifest = None, cj_attempts = []\<rparr>"

definition bind_manifest :: "string \<Rightarrow> journal \<Rightarrow> campaign_error + journal" where
  "bind_manifest manifest j =
     (if manifest = [] then Inl (CampaignValue ''campaign manifest identity must be non-empty'')
      else case cj_manifest j of
        None \<Rightarrow> if cj_attempts j \<noteq> [] then Inl (CampaignValue ''campaign state contains attempts without a manifest identity'')
                 else Inr (j\<lparr>cj_manifest := Some manifest\<rparr>)
      | Some m \<Rightarrow> if m \<noteq> manifest then Inl (CampaignValue ''campaign state manifest identity does not match the current campaign'')
                  else Inr j)"

definition key_count :: "(string \<times> int) list \<Rightarrow> string \<Rightarrow> int" where
  "key_count attempts key = (case map_of attempts key of None \<Rightarrow> 0 | Some n \<Rightarrow> n)"

definition attempt_count :: "journal \<Rightarrow> string \<Rightarrow> int \<Rightarrow> int" where
  "attempt_count j incident_id iteration = key_count (cj_attempts j) (journal_candidate_key incident_id iteration)"

definition record_attempt :: "string \<Rightarrow> int \<Rightarrow> journal \<Rightarrow> campaign_error + (int \<times> journal)" where
  "record_attempt incident_id iteration j =
     (let key = journal_candidate_key incident_id iteration;
          attempt = key_count (cj_attempts j) key + 1
      in if \<not> valid_candidate_key key then Inl bad_key
         else Inr (attempt, j\<lparr>cj_attempts := AList.update key attempt (cj_attempts j)\<rparr>))"

definition journal_to_dict :: "journal \<Rightarrow> json" where
  "journal_to_dict j = JObj
     [(''campaign'', JStr (cj_campaign j)),
      (''manifest_identity'', case cj_manifest j of None \<Rightarrow> JNull | Some m \<Rightarrow> JStr m),
      (''attempts'', JObj (map (\<lambda>(k, n). (k, JInt n)) (sort_key fst (cj_attempts j))))]"

definition attempt_value :: "string \<times> json \<Rightarrow> campaign_error + (string \<times> int)" where
  "attempt_value kv =
     (case kv of (k, v) \<Rightarrow> rbind (ensure (valid_candidate_key k) bad_key)
        (\<lambda>_. case v of JInt n \<Rightarrow> rbind (ensure (0 < n) (CampaignValue ''campaign state attempt counts must be positive'')) (\<lambda>_. Inr (k, n)) | _ \<Rightarrow> Inl (CampaignType ''campaign state attempt counts must be integers'')))"

definition journal_from_dict :: "json \<Rightarrow> campaign_error + journal" where
  "journal_from_dict value =
     (case value of
        JObj kvs \<Rightarrow>
          if unknown_fields [''campaign'', ''manifest_identity'', ''attempts''] kvs \<noteq> []
          then Inl (CampaignValue ''campaign state contains unknown fields'')
          else if missing_fields [''campaign'', ''manifest_identity'', ''attempts''] kvs \<noteq> []
          then Inl (CampaignValue ''campaign state is missing required fields'')
          else (case map_of kvs ''campaign'' of
             Some (JStr campaign) \<Rightarrow>
               rbind (case map_of kvs ''manifest_identity'' of
                        Some JNull \<Rightarrow> Inr None
                      | Some (JStr m) \<Rightarrow> Inr (Some m)
                      | _ \<Rightarrow> Inl (CampaignType ''campaign state manifest_identity must be a string''))
                 (\<lambda>manifest. case map_of kvs ''attempts'' of
                    Some (JObj attempts) \<Rightarrow>
                      if campaign = [] then Inl (CampaignValue ''campaign state campaign must be a non-empty string'')
                      else if manifest = Some [] then Inl (CampaignValue ''campaign state manifest_identity must be a non-empty string'')
                      else rbind (rmap attempt_value attempts)
                        (\<lambda>counts. journal_post_init \<lparr>cj_campaign = campaign, cj_manifest = manifest, cj_attempts = counts\<rparr>)
                  | _ \<Rightarrow> Inl (CampaignType ''campaign state attempts must be an object''))
           | _ \<Rightarrow> Inl (CampaignType ''campaign state campaign must be a string''))
      | _ \<Rightarrow> Inl (CampaignType ''campaign state must be an object''))"

definition copy_journal :: "journal \<Rightarrow> campaign_error + journal" where
  "copy_journal j = journal_from_dict (journal_to_dict j)"

section \<open>The state stores\<close>

text \<open>The memory store is its dictionary of journals, the JSON store the value its file parses to, if there is one.\<close>

type_synonym memory_store = "string \<Rightarrow> journal option"
type_synonym json_store = "json option"

definition one_campaign :: "journal \<Rightarrow> journal \<Rightarrow> campaign_error + unit" where
  "one_campaign expected updated =
     ensure (cj_campaign expected = cj_campaign updated) (CampaignValue ''campaign state compare-and-swap requires one campaign'')"

definition memory_load :: "memory_store \<Rightarrow> string \<Rightarrow> campaign_error + journal" where
  "memory_load st campaign = (case st campaign of None \<Rightarrow> new_journal campaign | Some j \<Rightarrow> copy_journal j)"

definition memory_save :: "journal \<Rightarrow> memory_store \<Rightarrow> campaign_error + memory_store" where
  "memory_save j st = rbind (copy_journal j) (\<lambda>c. Inr (st(cj_campaign j \<mapsto> c)))"

definition memory_cas :: "journal \<Rightarrow> journal \<Rightarrow> memory_store \<Rightarrow> campaign_error + (bool \<times> memory_store)" where
  "memory_cas expected updated st =
     rbind (one_campaign expected updated) (\<lambda>_.
     rbind (case st (cj_campaign expected) of None \<Rightarrow> new_journal (cj_campaign expected) | Some j \<Rightarrow> Inr j) (\<lambda>current.
       if journal_to_dict current \<noteq> journal_to_dict expected then Inr (False, st)
       else rbind (memory_save updated st) (\<lambda>st'. Inr (True, st'))))"

definition json_load :: "json_store \<Rightarrow> string \<Rightarrow> campaign_error + journal" where
  "json_load st campaign =
     (case st of
        None \<Rightarrow> new_journal campaign
      | Some value \<Rightarrow>
          rbind (ensure (case value of JObj _ \<Rightarrow> True | _ \<Rightarrow> False) (CampaignValue ''campaign state JSON must contain an object'')) (\<lambda>_.
          rbind (journal_from_dict value) (\<lambda>j.
            if cj_campaign j \<noteq> campaign then Inl (CampaignValue ''campaign state belongs to another campaign'') else Inr j)))"

definition json_save :: "journal \<Rightarrow> json_store \<Rightarrow> json_store" where
  "json_save j st = Some (journal_to_dict j)"

definition json_cas :: "journal \<Rightarrow> journal \<Rightarrow> json_store \<Rightarrow> campaign_error + (bool \<times> json_store)" where
  "json_cas expected updated st =
     rbind (one_campaign expected updated) (\<lambda>_.
     rbind (json_load st (cj_campaign expected)) (\<lambda>current.
       Inr (if journal_to_dict current \<noteq> journal_to_dict expected then (False, st) else (True, json_save updated st))))"

section \<open>Sessions\<close>

text \<open>
  The parts of \<open>FaultInjectionSession\<close> that concern the journal. \<open>ses_previous\<close> holds \<open>previous_attempts\<close> between the
  staging of an iteration and its rollback.
\<close>

record session =
  ses_base :: journal
  ses_journal :: journal
  ses_committed :: bool
  ses_previous :: "(string \<times> int) list option"

definition open_session :: "(string \<Rightarrow> campaign_error + journal) \<Rightarrow> string \<Rightarrow> string \<Rightarrow> campaign_error + session" where
  "open_session load campaign manifest =
     rbind (load campaign) (\<lambda>loaded.
     rbind (copy_journal loaded) (\<lambda>base.
     rbind (bind_manifest manifest base) (\<lambda>j.
       Inr \<lparr>ses_base = base, ses_journal = j, ses_committed = False, ses_previous = None\<rparr>)))"

definition commit_binding ::
  "('s \<Rightarrow> string \<Rightarrow> campaign_error + journal) \<Rightarrow> (journal \<Rightarrow> journal \<Rightarrow> 's \<Rightarrow> campaign_error + (bool \<times> 's)) \<Rightarrow> string \<Rightarrow>
   session \<Rightarrow> 's \<Rightarrow> campaign_error + (session \<times> 's)" where
  "commit_binding load cas campaign ses st =
     (if ses_committed ses then Inr (ses, st)
      else rbind (cas (ses_base ses) (ses_journal ses) st) (\<lambda>(swapped, st').
        rbind (if swapped then Inr ()
               else rbind (load st' campaign) (\<lambda>current.
                      ensure (journal_to_dict current = journal_to_dict (ses_journal ses))
                        (CampaignRuntime ''campaign state changed concurrently during manifest binding''))) (\<lambda>_.
        rbind (copy_journal (ses_journal ses)) (\<lambda>base.
          Inr (ses\<lparr>ses_base := base, ses_committed := True\<rparr>, st')))))"

text \<open>\<open>draw\<close> is \<open>random.Random(seed).random()\<close> for the seed of an incident and an iteration.\<close>

definition probability_selected :: "(string \<Rightarrow> int \<Rightarrow> real) \<Rightarrow> incident \<Rightarrow> int \<Rightarrow> bool" where
  "probability_selected draw inc iteration =
     (let p = tr_probability (in_trigger inc)
      in if 1 \<le> p then True else if p \<le> 0 then False else draw (in_id inc) iteration < p)"

definition may_fire :: "incident \<Rightarrow> int \<Rightarrow> bool" where
  "may_fire inc attempts =
     (\<not> (in_retrigger inc = Once \<and> 1 \<le> attempts) \<and>
      \<not> (in_retrigger inc = MaxOccurrences \<and> (case in_max_occurrences inc of None \<Rightarrow> 0 | Some n \<Rightarrow> n) \<le> attempts))"

definition candidate_incidents :: "incident list \<Rightarrow> journal \<Rightarrow> int \<Rightarrow> (incident \<times> int) list" where
  "candidate_incidents scheduled j iteration =
     map (\<lambda>inc. (inc, attempt_count j (in_id inc) iteration + 1))
       (filter (\<lambda>inc. may_fire inc (attempt_count j (in_id inc) iteration)) scheduled)"

definition occurrence_id :: "incident \<Rightarrow> int \<Rightarrow> int \<Rightarrow> string" where
  "occurrence_id inc iteration attempt =
     (let base = in_id inc @ CHR ''@'' # int_str iteration
      in if attempt = 1 then base else base @ CHR ''#'' # int_str attempt)"

record staged_incident =
  sg_incident :: incident
  sg_attempt :: int
  sg_occurrence_id :: string
  sg_selected :: bool

definition staged_as :: "incident \<Rightarrow> int \<Rightarrow> int \<Rightarrow> bool \<Rightarrow> staged_incident" where
  "staged_as inc iteration attempt selected =
     \<lparr>sg_incident = inc, sg_attempt = attempt, sg_occurrence_id = occurrence_id inc iteration attempt, sg_selected = selected\<rparr>"

fun claim_selected :: "int \<Rightarrow> (incident \<times> int \<times> bool) list \<Rightarrow> journal \<Rightarrow> campaign_error + (staged_incident list \<times> journal)" where
  "claim_selected iteration [] updated = Inr ([], updated)"
| "claim_selected iteration ((inc, expected, selected) # rest) updated =
     rbind (if selected
            then rbind (record_attempt (in_id inc) iteration updated) (\<lambda>(attempt, updated').
                   if attempt \<noteq> expected then Inl (CampaignRuntime ''campaign journal attempt changed during staging'')
                   else Inr (attempt, updated'))
            else Inr (expected, updated)) (\<lambda>(attempt, updated').
     rbind (claim_selected iteration rest updated') (\<lambda>(staged, updated'').
       Inr (staged_as inc iteration attempt selected # staged, updated'')))"

definition stage_iteration ::
  "(journal \<Rightarrow> journal \<Rightarrow> 's \<Rightarrow> campaign_error + (bool \<times> 's)) \<Rightarrow> (string \<Rightarrow> int \<Rightarrow> real) \<Rightarrow> int \<Rightarrow> (incident \<times> int) list \<Rightarrow>
   session \<Rightarrow> 's \<Rightarrow> campaign_error + (staged_incident list \<times> session \<times> 's)" where
  "stage_iteration cas draw iteration candidates ses st =
     (let selections = map (\<lambda>(inc, expected). (inc, expected, probability_selected draw inc iteration)) candidates
      in if \<not> (\<exists>(inc, expected, selected) \<in> set selections. selected)
         then Inr (map (\<lambda>(inc, expected, selected). staged_as inc iteration expected False) selections, ses, st)
         else rbind (copy_journal (ses_journal ses)) (\<lambda>previous.
              rbind (copy_journal (ses_journal ses)) (\<lambda>updated.
              rbind (claim_selected iteration selections updated) (\<lambda>(staged, updated').
              rbind (cas previous updated' st) (\<lambda>(swapped, st').
                if \<not> swapped then Inl (CampaignRuntime ''campaign state changed concurrently while claiming occurrences'')
                else Inr (staged, ses\<lparr>ses_journal := updated'\<rparr>, st'))))))"

definition restore_attempts ::
  "(journal \<Rightarrow> journal \<Rightarrow> 's \<Rightarrow> campaign_error + (bool \<times> 's)) \<Rightarrow> (string \<times> int) list \<Rightarrow> session \<Rightarrow> 's \<Rightarrow>
   campaign_error + (session \<times> 's)" where
  "restore_attempts cas attempts ses st =
     rbind (copy_journal (ses_journal ses)) (\<lambda>current.
     rbind (copy_journal (ses_journal ses)) (\<lambda>copied.
     let restored = copied\<lparr>cj_attempts := attempts\<rparr> in
     rbind (cas current restored st) (\<lambda>(swapped, st').
       if \<not> swapped then Inl (CampaignRuntime ''campaign state changed concurrently during attempt rollback'')
       else Inr (ses\<lparr>ses_journal := restored\<rparr>, st'))))"

section \<open>Any number of sessions over one store\<close>

text \<open>
  A claim is the owner, the incident, the iteration and the attempt of an occurrence that a successful staging handed out.
  The claims and the last staging of each process are observations of the run: no operation reads them. A process stages an
  iteration, may then roll it back, and may be replaced by a new session at any time.
\<close>

type_synonym claim = "nat \<times> string \<times> int \<times> int"

record 's campaign_world =
  cw_store :: 's
  cw_sessions :: "nat \<Rightarrow> session option"
  cw_last :: "nat \<Rightarrow> claim list"
  cw_claims :: "claim list"

definition staged_claims :: "nat \<Rightarrow> int \<Rightarrow> staged_incident list \<Rightarrow> claim list" where
  "staged_claims p iteration staged =
     map (\<lambda>sg. (p, in_id (sg_incident sg), iteration, sg_attempt sg)) (filter sg_selected staged)"

inductive campaign_step ::
  "('s \<Rightarrow> string \<Rightarrow> campaign_error + journal) \<Rightarrow> (journal \<Rightarrow> journal \<Rightarrow> 's \<Rightarrow> campaign_error + (bool \<times> 's)) \<Rightarrow>
   string \<Rightarrow> string \<Rightarrow> incident list \<Rightarrow> (string \<Rightarrow> int \<Rightarrow> real) \<Rightarrow> 's campaign_world \<Rightarrow> 's campaign_world \<Rightarrow> bool"
  for load cas campaign manifest incidents draw where
  opens: "open_session (load (cw_store w)) campaign manifest = Inr ses \<Longrightarrow>
    campaign_step load cas campaign manifest incidents draw w
      (w\<lparr>cw_sessions := (cw_sessions w)(p \<mapsto> ses), cw_last := (cw_last w)(p := [])\<rparr>)"
| commits: "cw_sessions w p = Some ses \<Longrightarrow> commit_binding load cas campaign ses (cw_store w) = Inr (ses', st) \<Longrightarrow>
    campaign_step load cas campaign manifest incidents draw w
      (w\<lparr>cw_store := st, cw_sessions := (cw_sessions w)(p \<mapsto> ses')\<rparr>)"
| stages: "cw_sessions w p = Some ses \<Longrightarrow> ses_committed ses \<Longrightarrow>
    stage_iteration cas draw iteration
      (candidate_incidents (map fst (scheduled_at incidents False iteration)) (ses_journal ses) iteration) ses (cw_store w)
      = Inr (staged, ses', st) \<Longrightarrow>
    campaign_step load cas campaign manifest incidents draw w
      (w\<lparr>cw_store := st,
         cw_sessions := (cw_sessions w)(p \<mapsto> ses'\<lparr>ses_previous := Some (cj_attempts (ses_journal ses))\<rparr>),
         cw_last := (cw_last w)(p := staged_claims p iteration staged),
         cw_claims := cw_claims w @ staged_claims p iteration staged\<rparr>)"
| refused: "cw_sessions w p = Some ses \<Longrightarrow> ses_committed ses \<Longrightarrow>
    stage_iteration cas draw iteration
      (candidate_incidents (map fst (scheduled_at incidents False iteration)) (ses_journal ses) iteration) ses (cw_store w)
      = Inl e \<Longrightarrow>
    campaign_step load cas campaign manifest incidents draw w
      (w\<lparr>cw_sessions := (cw_sessions w)(p \<mapsto> ses\<lparr>ses_previous := Some (cj_attempts (ses_journal ses))\<rparr>),
         cw_last := (cw_last w)(p := [])\<rparr>)"
| rolls: "cw_sessions w p = Some ses \<Longrightarrow> ses_previous ses = Some attempts \<Longrightarrow>
    restore_attempts cas attempts ses (cw_store w) = Inr (ses', st) \<Longrightarrow>
    campaign_step load cas campaign manifest incidents draw w
      (w\<lparr>cw_store := st, cw_sessions := (cw_sessions w)(p \<mapsto> ses'\<lparr>ses_previous := None\<rparr>),
         cw_last := (cw_last w)(p := []),
         cw_claims := filter (\<lambda>c. c \<notin> set (cw_last w p)) (cw_claims w)\<rparr>)"

definition init_campaign_world :: "'s \<Rightarrow> 's campaign_world" where
  "init_campaign_world st = \<lparr>cw_store = st, cw_sessions = (\<lambda>_. None), cw_last = (\<lambda>_. []), cw_claims = []\<rparr>"

section \<open>Journals and their dictionaries\<close>

definition journal_wf :: "journal \<Rightarrow> bool" where
  "journal_wf j \<longleftrightarrow> journal_post_init j = Inr j \<and> distinct (map fst (cj_attempts j))"

definition canon_journal :: "journal \<Rightarrow> journal" where
  "canon_journal j = j\<lparr>cj_attempts := sort_key fst (cj_attempts j)\<rparr>"

lemma rmap_ok: "(\<exists>ys. rmap f xs = Inr ys) \<longleftrightarrow> (\<forall>x \<in> set xs. \<exists>y. f x = Inr y)"
  by (induction xs) (auto simp: rbind_Inr_iff)

lemma journal_post_init_Inr:
  "journal_post_init j = Inr j' \<longleftrightarrow>
     j' = j \<and> cj_campaign j \<noteq> [] \<and> cj_manifest j \<noteq> Some [] \<and>
     (\<forall>(k, n) \<in> set (cj_attempts j). valid_candidate_key k \<and> 0 < n)"
  using rmap_ok [of "\<lambda>(key, count). rbind (ensure (valid_candidate_key key) bad_key)
      (\<lambda>_. ensure (0 < count) (CampaignValue ''campaign state attempt counts must be positive''))" "cj_attempts j"]
  by (auto simp: journal_post_init_def rbind_Inr_iff split_def)

lemma journal_wf_iff:
  "journal_wf j \<longleftrightarrow> cj_campaign j \<noteq> [] \<and> cj_manifest j \<noteq> Some [] \<and>
     (\<forall>(k, n) \<in> set (cj_attempts j). valid_candidate_key k \<and> 0 < n) \<and> distinct (map fst (cj_attempts j))"
  by (auto simp: journal_wf_def journal_post_init_Inr)

lemma distinct_fst_sort_key: "distinct (map fst (sort_key fst xs)) = distinct (map fst xs)"
proof -
  have "mset (map fst (sort_key fst xs)) = mset (map fst xs)" by (metis mset_map mset_sort)
  then show ?thesis by (metis mset_eq_imp_distinct_iff)
qed

lemma canon_wf [simp]: "journal_wf (canon_journal j) = journal_wf j"
  by (simp add: journal_wf_iff canon_journal_def distinct_fst_sort_key)

lemma canon_simps [simp]: "cj_campaign (canon_journal j) = cj_campaign j" "cj_manifest (canon_journal j) = cj_manifest j" "canon_journal (canon_journal j) = canon_journal j"
  by (simp_all add: canon_journal_def sort_key_simps)

lemma canon_count: "journal_wf j \<Longrightarrow> key_count (cj_attempts (canon_journal j)) = key_count (cj_attempts j)"
  by (simp add: journal_wf_iff canon_journal_def key_count_def sort_key_map_of fun_eq_iff)

lemma to_dict_canon [simp]: "journal_to_dict (canon_journal j) = journal_to_dict j"
  by (simp add: journal_to_dict_def canon_journal_def)

lemma to_dict_eq: "journal_to_dict j = journal_to_dict j' \<longleftrightarrow> canon_journal j = canon_journal j'"
proof -
  have inj: "inj (\<lambda>(k :: string, n). (k, JInt n))" by (auto simp: inj_def)
  show ?thesis
    by (cases j; cases j') (auto simp: journal_to_dict_def canon_journal_def inj_map_eq_map [OF inj] split: option.splits)
qed

lemma copy_journal: "journal_wf j \<Longrightarrow> copy_journal j = Inr (canon_journal j)"
proof -
  assume wf: "journal_wf j"
  have counts: "rmap attempt_value (map (\<lambda>(k, n). (k, JInt n)) (sort_key fst (cj_attempts j))) = Inr (sort_key fst (cj_attempts j))"
    using wf by (auto simp: rmap_map attempt_value_def journal_wf_iff ensure_def intro!: rmap_Inr [where g = "\<lambda>x. x", simplified])
  have "journal_wf (canon_journal j)" using wf by simp
  then have "journal_post_init (canon_journal j) = Inr (canon_journal j)" by (simp add: journal_wf_def)
  then have post: "journal_post_init \<lparr>cj_campaign = cj_campaign j, cj_manifest = cj_manifest j, cj_attempts = sort_key fst (cj_attempts j)\<rparr> = Inr (canon_journal j)"
    by (cases j) (simp add: canon_journal_def)
  show ?thesis
    using wf post by (cases "cj_manifest j") (simp_all add: copy_journal_def journal_from_dict_def journal_to_dict_def missing_fields_Nil
        unknown_fields_Nil field_names_def counts journal_wf_iff)
qed

lemma new_journal: "new_journal c = (if c = [] then new_journal c else Inr \<lparr>cj_campaign = c, cj_manifest = None, cj_attempts = []\<rparr>)"
  by (simp add: new_journal_def journal_post_init_def)

lemma new_journal_Inr: "new_journal c = Inr j \<Longrightarrow> journal_wf j \<and> cj_campaign j = c \<and> cj_attempts j = []"
  by (auto simp: new_journal_def journal_post_init_Inr journal_wf_iff)

lemma bind_manifest_Inr:
  "bind_manifest m j = Inr j' \<Longrightarrow> journal_wf j \<Longrightarrow>
     journal_wf j' \<and> cj_attempts j' = cj_attempts j \<and> cj_campaign j' = cj_campaign j \<and> cj_manifest j' = Some m"
  by (auto simp: bind_manifest_def journal_wf_iff split: if_splits option.splits)

section \<open>Keys\<close>

lemma nat_str_no_at: "CHR ''@'' \<notin> set (nat_str n)"
  using nat_str_digits [of n] by (auto simp: list_all_iff is_digit_def)

lemma int_str_no_at: "CHR ''@'' \<notin> set (int_str i)"
  using nat_str_no_at by (auto simp: int_str_def)

lemma journal_candidate_key_inj: "journal_candidate_key i m = journal_candidate_key i' m' \<longleftrightarrow> i = i' \<and> m = m'"
proof
  assume "journal_candidate_key i m = journal_candidate_key i' m'"
  then have r: "rev (int_str m) @ CHR ''@'' # rev i = rev (int_str m') @ CHR ''@'' # rev i'"
    unfolding journal_candidate_key_def by (metis append.assoc append_Cons append_Nil rev.simps(2) rev_append)
  have no: "CHR ''@'' \<notin> set (rev (int_str x))" for x using int_str_no_at by simp
  have "takeWhile (\<lambda>c. c \<noteq> CHR ''@'') (rev (int_str x) @ CHR ''@'' # y) = rev (int_str x)"
    "dropWhile (\<lambda>c. c \<noteq> CHR ''@'') (rev (int_str x) @ CHR ''@'' # y) = CHR ''@'' # y" for x y
    using no [of x] by (subst takeWhile_append2 dropWhile_append2; auto)+
  with r have "rev (int_str m) = rev (int_str m')" "CHR ''@'' # rev i = CHR ''@'' # rev i'" by metis+
  then show "i = i' \<and> m = m'" by simp
qed simp

lemma key_count_update: "key_count (AList.update k n xs) k' = (if k' = k then n else key_count xs k')"
  by (simp add: key_count_def update_conv)

lemma record_attempt_Inr:
  assumes "record_attempt i m j = Inr (a, j')" "journal_wf j"
  shows "journal_wf j' \<and> a = attempt_count j i m + 1 \<and> cj_campaign j' = cj_campaign j \<and> cj_manifest j' = cj_manifest j \<and>
    key_count (cj_attempts j') = (key_count (cj_attempts j))(journal_candidate_key i m := a)"
proof -
  have pos: "0 \<le> key_count (cj_attempts j) k" for k
    using assms(2) by (auto simp: key_count_def journal_wf_iff split: option.splits dest!: map_of_SomeD)
  have "set (AList.update k n xs) \<subseteq> insert (k, n) (set xs)" for k :: string and n :: int and xs
    by (induction xs) auto
  then show ?thesis
    using assms pos [of "journal_candidate_key i m"]
    by (fastforce simp: record_attempt_def Let_def journal_wf_iff attempt_count_def key_count_update fun_eq_iff distinct_update
        split: if_splits)
qed

section \<open>Claiming candidates\<close>

lemma occurrence_claims:
  assumes "claim_selected iteration sel j = Inr (staged, j')" "journal_wf j"
    and "distinct (map (\<lambda>x. in_id (fst x)) sel)"
  shows "journal_wf j' \<and> cj_campaign j' = cj_campaign j \<and> cj_manifest j' = cj_manifest j \<and>
    map (\<lambda>sg. (sg_incident sg, sg_attempt sg, sg_selected sg)) staged = sel \<and>
    (\<forall>(inc, e, s) \<in> set sel. s \<longrightarrow> e = attempt_count j (in_id inc) iteration + 1) \<and>
    (\<forall>k. key_count (cj_attempts j') k = key_count (cj_attempts j) k +
      (if \<exists>(inc, e, s) \<in> set sel. s \<and> k = journal_candidate_key (in_id inc) iteration then 1 else 0))"
  using assms
proof (induction sel arbitrary: j staged j')
  case (Cons x rest)
  obtain inc expected selected where x: "x = (inc, expected, selected)" by (cases x) auto
  show ?case
  proof (cases selected)
    case True
    then obtain j1 staged1 where c: "record_attempt (in_id inc) iteration j = Inr (expected, j1)"
      "claim_selected iteration rest j1 = Inr (staged1, j')" "staged = staged_as inc iteration expected True # staged1"
      using Cons.prems(1) x by (auto simp: rbind_Inr_iff split: if_splits)
    note r = record_attempt_Inr [OF c(1) Cons.prems(2)]
    have k1: "key_count (cj_attempts j1) k = key_count (cj_attempts j) k + (if k = journal_candidate_key (in_id inc) iteration then 1 else 0)" for k
      using r by (simp add: attempt_count_def)
    have ih: "journal_wf j' \<and> cj_campaign j' = cj_campaign j1 \<and> cj_manifest j' = cj_manifest j1 \<and>
      map (\<lambda>sg. (sg_incident sg, sg_attempt sg, sg_selected sg)) staged1 = rest \<and>
      (\<forall>(inc, e, s) \<in> set rest. s \<longrightarrow> e = attempt_count j1 (in_id inc) iteration + 1) \<and>
      (\<forall>k. key_count (cj_attempts j') k = key_count (cj_attempts j1) k +
        (if \<exists>(inc, e, s) \<in> set rest. s \<and> k = journal_candidate_key (in_id inc) iteration then 1 else 0))"
      using Cons.IH [of j1 staged1 j'] True c r Cons.prems(3) x by simp
    have other: "in_id inc' \<noteq> in_id inc" if "(inc', e, s) \<in> set rest" for inc' e s
      using that Cons.prems(3) x by force
    have "key_count (cj_attempts j') k = key_count (cj_attempts j) k +
      (if \<exists>(inc', e, s) \<in> set (x # rest). s \<and> k = journal_candidate_key (in_id inc') iteration then 1 else 0)" for k
    proof (cases "k = journal_candidate_key (in_id inc) iteration")
      case k: True
      have "\<not> (\<exists>(inc', e, s) \<in> set rest. s \<and> k = journal_candidate_key (in_id inc') iteration)"
        using other unfolding k by (fastforce simp: journal_candidate_key_inj)
      then show ?thesis using ih k1 [of k] k True x by simp
    next
      case False then show ?thesis using ih k1 [of k] x by simp
    qed
    moreover have "e = attempt_count j (in_id inc') iteration + 1" if "(inc', e, s) \<in> set rest" s for inc' e s
      using ih k1 [of "journal_candidate_key (in_id inc') iteration"] other [OF that(1)] that by (fastforce simp: attempt_count_def journal_candidate_key_inj)
    ultimately show ?thesis using ih r c(3) True x by (auto simp: staged_as_def)
  next
    case False
    then obtain staged1 where c: "claim_selected iteration rest j = Inr (staged1, j')" "staged = staged_as inc iteration expected False # staged1"
      using Cons.prems(1) x by (auto simp: rbind_Inr_iff)
    have "distinct (map (\<lambda>x. in_id (fst x)) rest)" using Cons.prems(3) by simp
    from Cons.IH [OF c(1) Cons.prems(2) this] show ?thesis using x False c(2) by (simp add: staged_as_def)
  qed
qed simp

definition fire_limit :: "incident \<Rightarrow> int option" where
  "fire_limit inc =
     (case in_retrigger inc of
        Once \<Rightarrow> Some 1
      | MaxOccurrences \<Rightarrow> in_max_occurrences inc
      | EveryAttempt \<Rightarrow> None)"

lemma scheduled_ids: "distinct (map in_id incidents) \<Longrightarrow> distinct (map in_id (map fst (scheduled_at incidents ex iteration)))"
  by (simp add: scheduled_at_def comp_def distinct_map_filter)

text \<open>What a staging that claims something hands out.\<close>

lemma selections_facts:
  fixes draw and iteration :: int
  assumes "distinct (map in_id scheduled)"
  defines "sel j \<equiv> map (\<lambda>(inc, expected). (inc, expected, probability_selected draw inc iteration)) (candidate_incidents scheduled j iteration)"
  shows "distinct (map (\<lambda>x. in_id (fst x)) (sel j))"
    "(inc, e, s) \<in> set (sel j) \<Longrightarrow> inc \<in> set scheduled \<and> e = attempt_count j (in_id inc) iteration + 1 \<and>
       may_fire inc (attempt_count j (in_id inc) iteration)"
  using assms(1) by (auto simp: sel_def candidate_incidents_def comp_def split_def distinct_map_filter)

lemma may_fire_limit: "may_fire inc n \<Longrightarrow> in_retrigger inc = MaxOccurrences \<longrightarrow> in_max_occurrences inc \<noteq> None \<Longrightarrow>
    pred_option (\<lambda>m. n + 1 \<le> m) (fire_limit inc)"
  by (cases "in_retrigger inc") (auto simp: may_fire_def fire_limit_def)

lemma staged_claims_set:
  assumes "map (\<lambda>sg. (sg_incident sg, sg_attempt sg, sg_selected sg)) staged = sel"
  shows "staged_claims p iteration staged = map (\<lambda>(inc, e, s). (p, in_id inc, iteration, e)) (filter (\<lambda>(inc, e, s). s) sel)"
  unfolding assms [symmetric] staged_claims_def by (induction staged) auto

lemma distinct_claims:
  "distinct (map (\<lambda>x. in_id (fst x)) sel) \<Longrightarrow>
   distinct (map snd (map (\<lambda>(inc, e, s). (p, in_id inc, iteration, e)) (filter (\<lambda>(inc, e, s). s) sel)))"
  by (induction sel) (force split: prod.splits)+

definition session_ok :: "string \<Rightarrow> nat \<Rightarrow> claim list \<Rightarrow> claim list \<Rightarrow> session \<Rightarrow> bool" where
  "session_ok campaign p claims mine ses \<longleftrightarrow>
     journal_wf (ses_base ses) \<and> journal_wf (ses_journal ses) \<and>
     cj_campaign (ses_base ses) = campaign \<and> cj_campaign (ses_journal ses) = campaign \<and>
     (\<not> ses_committed ses \<longrightarrow> ses_previous ses = None \<and> cj_attempts (ses_base ses) = cj_attempts (ses_journal ses)) \<and>
     (\<forall>attempts. ses_previous ses = Some attempts \<longrightarrow>
        journal_wf ((ses_journal ses)\<lparr>cj_attempts := attempts\<rparr>) \<and> set mine \<subseteq> set claims \<and>
        (\<forall>q i m a. (q, i, m, a) \<in> set mine \<longleftrightarrow>
           q = p \<and> key_count attempts (journal_candidate_key i m) < a \<and> a \<le> attempt_count (ses_journal ses) i m) \<and>
        (\<forall>k. key_count attempts k \<le> key_count (cj_attempts (ses_journal ses)) k))"

definition claims_ok :: "incident list \<Rightarrow> journal \<Rightarrow> claim list \<Rightarrow> bool" where
  "claims_ok incidents j claims \<longleftrightarrow>
     distinct (map snd claims) \<and>
     (\<forall>i m a. (i, m, a) \<in> snd ` set claims \<longleftrightarrow> 1 \<le> a \<and> a \<le> attempt_count j i m) \<and>
     (\<forall>(p, i, m, a) \<in> set claims. \<forall>inc \<in> set incidents. in_id inc = i \<longrightarrow> pred_option (\<lambda>n. a \<le> n) (fire_limit inc))"

section \<open>The contract of a state store\<close>

locale campaign_store =
  fixes load :: "'s \<Rightarrow> string \<Rightarrow> campaign_error + journal"
    and cas :: "journal \<Rightarrow> journal \<Rightarrow> 's \<Rightarrow> campaign_error + (bool \<times> 's)"
    and ok :: "'s \<Rightarrow> bool"
  assumes load_wf: "ok st \<Longrightarrow> load st c = Inr j \<Longrightarrow> journal_wf j \<and> cj_campaign j = c"
    and cas_swapped: "ok st \<Longrightarrow> journal_wf expected \<Longrightarrow> journal_wf updated \<Longrightarrow> cas expected updated st = Inr (True, st') \<Longrightarrow>
      ok st' \<and> cj_campaign expected = cj_campaign updated \<and>
      (\<exists>j. load st (cj_campaign expected) = Inr j \<and> canon_journal j = canon_journal expected) \<and>
      load st' (cj_campaign expected) = Inr (canon_journal updated)"
    and cas_kept: "cas expected updated st = Inr (False, st') \<Longrightarrow> st' = st"
begin

definition world_ok :: "string \<Rightarrow> incident list \<Rightarrow> 's campaign_world \<Rightarrow> bool" where
  "world_ok campaign incidents w \<longleftrightarrow> ok (cw_store w) \<and>
     (\<exists>j. load (cw_store w) campaign = Inr j \<and> claims_ok incidents j (cw_claims w)) \<and>
     (\<forall>p ses. cw_sessions w p = Some ses \<longrightarrow> session_ok campaign p (cw_claims w) (cw_last w p) ses)"

lemma open_ok:
  assumes "ok st" "open_session (load st) campaign manifest = Inr ses"
  shows "session_ok campaign p claims [] ses"
proof -
  obtain loaded base j where l: "load st campaign = Inr loaded" "copy_journal loaded = Inr base" "bind_manifest manifest base = Inr j"
    "ses = \<lparr>ses_base = base, ses_journal = j, ses_committed = False, ses_previous = None\<rparr>"
    using assms(2) by (auto simp: open_session_def rbind_Inr_iff)
  have wf: "journal_wf loaded" "cj_campaign loaded = campaign" using load_wf [OF assms(1) l(1)] by auto
  then have b: "journal_wf base" "cj_campaign base = campaign" using l(2) copy_journal [OF wf(1)] by auto
  show ?thesis using b bind_manifest_Inr [OF l(3) b(1)] l(4) by (simp add: session_ok_def)
qed

lemma canon_eq_count:
  "canon_journal j = canon_journal j' \<Longrightarrow> journal_wf j \<Longrightarrow> journal_wf j' \<Longrightarrow> key_count (cj_attempts j) = key_count (cj_attempts j')"
  by (metis canon_count)

lemma claims_ok_cong:
  "claims_ok incidents j claims \<Longrightarrow> key_count (cj_attempts j) = key_count (cj_attempts j') \<Longrightarrow> claims_ok incidents j' claims"
  by (simp add: claims_ok_def attempt_count_def)

text \<open>A successful exchange starts from a store whose counts are the expected ones.\<close>

lemma swap_counts:
  assumes "ok st" "journal_wf expected" "journal_wf updated" "cas expected updated st = Inr (True, st')"
    "cj_campaign expected = campaign" "load st campaign = Inr j"
  shows "ok st'" "load st' campaign = Inr (canon_journal updated)" "key_count (cj_attempts j) = key_count (cj_attempts expected)"
proof -
  note c = cas_swapped [OF assms(1-4)]
  show "ok st'" "load st' campaign = Inr (canon_journal updated)" using c assms(5) by auto
  have "canon_journal j = canon_journal expected" using c assms(5,6) by auto
  then show "key_count (cj_attempts j) = key_count (cj_attempts expected)"
    using canon_eq_count load_wf [OF assms(1,6)] assms(2) by blast
qed

lemma commit_ok:
  assumes s: "session_ok campaign p claims mine ses" and st: "ok st" "load st campaign = Inr j" "claims_ok incidents j claims"
    and c: "commit_binding load cas campaign ses st = Inr (ses', st')"
  shows "session_ok campaign p claims mine ses' \<and> ok st' \<and> (\<exists>j. load st' campaign = Inr j \<and> claims_ok incidents j claims)"
proof (cases "ses_committed ses")
  case True then show ?thesis using assms by (auto simp: commit_binding_def)
next
  case False
  have wf: "journal_wf (ses_base ses)" "journal_wf (ses_journal ses)" "cj_campaign (ses_base ses) = campaign"
    "cj_attempts (ses_base ses) = cj_attempts (ses_journal ses)" "ses_previous ses = None"
    using s False by (auto simp: session_ok_def)
  obtain swapped where w: "cas (ses_base ses) (ses_journal ses) st = Inr (swapped, st')"
    and ses': "ses' = ses\<lparr>ses_base := canon_journal (ses_journal ses), ses_committed := True\<rparr>"
    using c False copy_journal [OF wf(2)] by (auto simp: commit_binding_def rbind_Inr_iff)
  have s': "session_ok campaign p claims mine ses'" using s wf(5) by (simp add: session_ok_def ses')
  show ?thesis
  proof (cases swapped)
    case True
    have w': "cas (ses_base ses) (ses_journal ses) st = Inr (True, st')" using w True by simp
    note sw = swap_counts [OF st(1) wf(1,2) w' wf(3) st(2)]
    have "claims_ok incidents (canon_journal (ses_journal ses)) claims"
      using claims_ok_cong [OF st(3)] sw(3) wf canon_count by simp
    then show ?thesis using s' sw by blast
  next
    case False
    then have "st' = st" using cas_kept [of "ses_base ses" "ses_journal ses" st st'] w by simp
    then show ?thesis using s' st by blast
  qed
qed

lemma rollback_ok:
  assumes s: "session_ok campaign p claims mine ses" and prev: "ses_previous ses = Some attempts"
    and st: "ok st" "load st campaign = Inr j" "claims_ok incidents j claims"
    and r: "restore_attempts cas attempts ses st = Inr (ses', st')"
  shows "session_ok campaign p (filter (\<lambda>c. c \<notin> set mine) claims) [] (ses'\<lparr>ses_previous := None\<rparr>) \<and> ok st' \<and>
    (\<exists>j. load st' campaign = Inr j \<and> claims_ok incidents j (filter (\<lambda>c. c \<notin> set mine) claims))"
proof -
  let ?r = "(canon_journal (ses_journal ses))\<lparr>cj_attempts := attempts\<rparr>"
  have wf: "journal_wf (ses_journal ses)" "cj_campaign (ses_journal ses) = campaign" "ses_committed ses"
    "journal_wf ((ses_journal ses)\<lparr>cj_attempts := attempts\<rparr>)" "set mine \<subseteq> set claims"
    and mine: "(q, i, m, a) \<in> set mine \<longleftrightarrow>
           q = p \<and> key_count attempts (journal_candidate_key i m) < a \<and> a \<le> attempt_count (ses_journal ses) i m"
    and le: "key_count attempts k \<le> key_count (cj_attempts (ses_journal ses)) k" for q i m a k
    using s prev by (auto simp: session_ok_def)
  have r': "?r = (ses_journal ses)\<lparr>cj_attempts := attempts\<rparr>" by (simp add: canon_journal_def)
  have x: "cas (canon_journal (ses_journal ses)) ?r st = Inr (True, st')" "ses' = ses\<lparr>ses_journal := ?r\<rparr>"
    using r copy_journal [OF wf(1)] by (auto simp: restore_attempts_def rbind_Inr_iff Let_def split: if_splits)
  have wr: "journal_wf ?r" using wf(4) unfolding r' .
  note sw = swap_counts [OF st(1) _ wr x(1) _ st(2)]
  have j: "key_count (cj_attempts j) = key_count (cj_attempts (ses_journal ses))" using sw(3) wf canon_count by simp
  have ex: "(i, m, a) \<in> snd ` set claims \<longleftrightarrow> 1 \<le> a \<and> a \<le> attempt_count (ses_journal ses) i m" for i m a
    using st(3) j by (simp add: claims_ok_def attempt_count_def)
  have d: "distinct (map snd claims)" using st(3) by (simp add: claims_ok_def)
  have kept: "(i, m, a) \<in> snd ` {c \<in> set claims. c \<notin> set mine} \<longleftrightarrow> 1 \<le> a \<and> a \<le> attempt_count ?r i m" for i m a
  proof -
    have "(i, m, a) \<in> snd ` {c \<in> set claims. c \<notin> set mine} \<longleftrightarrow> (i, m, a) \<in> snd ` set claims \<and> (p, i, m, a) \<notin> set mine"
    proof
      assume "(i, m, a) \<in> snd ` {c \<in> set claims. c \<notin> set mine}"
      then obtain q where q: "(q, i, m, a) \<in> set claims" "(q, i, m, a) \<notin> set mine" by auto
      moreover have "q = p" if "(p, i, m, a) \<in> set mine"
        using that wf(5) q(1) d by (force simp: distinct_map inj_on_def)
      ultimately show "(i, m, a) \<in> snd ` set claims \<and> (p, i, m, a) \<notin> set mine" by force
    next
      assume h: "(i, m, a) \<in> snd ` set claims \<and> (p, i, m, a) \<notin> set mine"
      then obtain q where q: "(q, i, m, a) \<in> set claims" by auto
      then have "(q, i, m, a) \<notin> set mine" using h mine by blast
      then show "(i, m, a) \<in> snd ` {c \<in> set claims. c \<notin> set mine}" using q by force
    qed
    then show ?thesis using ex [of i m a] mine [of p i m a] le [of "journal_candidate_key i m"] by (auto simp: attempt_count_def)
  qed
  have "claims_ok incidents ?r (filter (\<lambda>c. c \<notin> set mine) claims)"
    using st(3) kept unfolding claims_ok_def by (auto simp: distinct_map inj_on_def)
  then have "claims_ok incidents (canon_journal ?r) (filter (\<lambda>c. c \<notin> set mine) claims)"
    using claims_ok_cong canon_count [OF wr] by simp
  moreover have "session_ok campaign p (filter (\<lambda>c. c \<notin> set mine) claims) [] (ses'\<lparr>ses_previous := None\<rparr>)"
    using s wr wf x(2) by (simp add: session_ok_def)
  ultimately show ?thesis using sw wf by auto
qed

lemma stage_ok:
  assumes s: "session_ok campaign p claims mine ses" "ses_committed ses"
    and inc: "distinct (map in_id incidents)"
      "\<forall>inc \<in> set incidents. in_retrigger inc = MaxOccurrences \<longrightarrow> in_max_occurrences inc \<noteq> None"
    and st: "ok st" "load st campaign = Inr j" "claims_ok incidents j claims"
    and r: "stage_iteration cas draw iteration
      (candidate_incidents (map fst (scheduled_at incidents False iteration)) (ses_journal ses) iteration) ses st = Inr (staged, ses', st')"
  shows "session_ok campaign p (claims @ staged_claims p iteration staged) (staged_claims p iteration staged)
      (ses'\<lparr>ses_previous := Some (cj_attempts (ses_journal ses))\<rparr>) \<and> ok st' \<and>
    (\<exists>j. load st' campaign = Inr j \<and> claims_ok incidents j (claims @ staged_claims p iteration staged))"
proof -
  let ?new = "staged_claims p iteration staged" and ?J = "ses_journal ses"
  define sel where "sel = map (\<lambda>(inc, expected). (inc, expected, probability_selected draw inc iteration))
    (candidate_incidents (map fst (scheduled_at incidents False iteration)) ?J iteration)"
  have wf: "journal_wf ?J" "cj_campaign ?J = campaign" using s by (auto simp: session_ok_def)
  have same: "?J\<lparr>cj_attempts := cj_attempts ?J\<rparr> = ?J" by simp
  note sf = selections_facts [OF scheduled_ids [OF inc(1), of False iteration], where j = ?J and draw = draw and iteration = iteration, folded sel_def]
  show ?thesis
  proof (cases "\<exists>(inc, expected, selected) \<in> set sel. selected")
    case False
    then have e: "staged = map (\<lambda>(inc, expected, selected). staged_as inc iteration expected False) sel" "ses' = ses" "st' = st"
      using r by (auto simp: stage_iteration_def Let_def sel_def)
    then have "?new = []" by (auto simp: staged_claims_def staged_as_def filter_empty_conv)
    then show ?thesis using s st e(2,3) by (auto simp: session_ok_def attempt_count_def)
  next
    case True
    have c: "copy_journal ?J = Inr (canon_journal ?J)" by (rule copy_journal [OF wf(1)])
    obtain u where u: "claim_selected iteration sel (canon_journal ?J) = Inr (staged, u)" "cas (canon_journal ?J) u st = Inr (True, st')" "ses' = ses\<lparr>ses_journal := u\<rparr>"
    proof -
      have "rbind (copy_journal ?J) (\<lambda>previous. rbind (copy_journal ?J) (\<lambda>updated. rbind (claim_selected iteration sel updated) (\<lambda>(staged, updated').
              rbind (cas previous updated' st) (\<lambda>(swapped, st').
                if \<not> swapped then Inl (CampaignRuntime ''campaign state changed concurrently while claiming occurrences'')
                else Inr (staged, ses\<lparr>ses_journal := updated'\<rparr>, st'))))) = Inr (staged, ses', st')"
        using r True unfolding stage_iteration_def Let_def sel_def [symmetric] by (simp only: simp_thms if_False)
      then show ?thesis using that by (auto simp: c rbind_Inr_iff split: if_splits)
    qed
    have cw: "journal_wf (canon_journal ?J)" using wf(1) by simp
    note oc = occurrence_claims [OF u(1) cw sf(1)]
    have new: "?new = map (\<lambda>(inc, e, s). (p, in_id inc, iteration, e)) (filter (\<lambda>(inc, e, s). s) sel)"
      using staged_claims_set oc by blast
    note sw = swap_counts [OF st(1) cw _ u(2) _ st(2)]
    have cnt: "key_count (cj_attempts j) = key_count (cj_attempts ?J)" using sw(3) oc wf canon_count by simp
    define fired where "fired i m \<longleftrightarrow> m = iteration \<and> (\<exists>inc e. (inc, e, True) \<in> set sel \<and> in_id inc = i)" for i m
    have ku: "attempt_count u i m = attempt_count ?J i m + (if fired i m then 1 else 0)" for i m
    proof -
      have "(\<exists>(inc, e, s) \<in> set sel. s \<and> journal_candidate_key i m = journal_candidate_key (in_id inc) iteration) \<longleftrightarrow> fired i m"
        by (fastforce simp: fired_def journal_candidate_key_inj)
      then show ?thesis using oc canon_count [OF wf(1)] by (simp add: attempt_count_def)
    qed
    have mem: "(q, i, m, a) \<in> set ?new \<longleftrightarrow> q = p \<and> fired i m \<and> a = attempt_count ?J i m + 1" for q i m a
      using sf(2) unfolding new by (force simp: fired_def)
    have pos: "0 \<le> attempt_count ?J i m" for i m
      using wf(1) by (auto simp: attempt_count_def key_count_def journal_wf_iff split: option.splits dest!: map_of_SomeD)
    have old: "(i, m, a) \<in> snd ` set claims \<longleftrightarrow> 1 \<le> a \<and> a \<le> attempt_count ?J i m" for i m a
      using st(3) cnt by (simp add: claims_ok_def attempt_count_def)
    have lim: "pred_option (\<lambda>n. a \<le> n) (fire_limit inc)" if "(q, in_id inc, m, a) \<in> set ?new" "inc \<in> set incidents" for q m a inc
    proof -
      note h = that(1) [unfolded new]
      obtain inc' e where x: "(inc', e, True) \<in> set sel" "in_id inc' = in_id inc" "a = e"
        using h by auto
      have "inc' \<in> set incidents" using sf(2) [OF x(1)] by (auto simp: scheduled_at_def)
      then have "inc' = inc" using inc(1) that(2) x(2) by (auto simp: distinct_map inj_on_def)
      then show ?thesis using sf(2) [OF x(1)] may_fire_limit inc(2) that(2) x(3) by auto
    qed
    have "claims_ok incidents u (claims @ ?new)"
      unfolding claims_ok_def
    proof (intro conjI allI)
      have apart: "set (map snd claims) \<inter> set (map snd ?new) = {}" 
      proof -
        have "c \<notin> set (map snd ?new)" if c: "c \<in> set (map snd claims)" for c
        proof
          obtain i m a where ima: "c = (i, m, a)" by (cases c)
          assume "c \<in> set (map snd ?new)"
          then obtain q where "(q, i, m, a) \<in> set ?new" unfolding ima by auto
          then have "a = attempt_count ?J i m + 1" using mem by blast
          moreover have "a \<le> attempt_count ?J i m" using old [of i m a] c unfolding ima by simp
          ultimately show False by simp
        qed
        then show ?thesis by blast
      qed
      have dn: "distinct (map snd ?new)" unfolding new by (rule distinct_claims [OF sf(1)])
      have dc: "distinct (map snd claims)" using st(3) by (simp add: claims_ok_def)
      show "distinct (map snd (claims @ ?new))" unfolding map_append distinct_append using apart dn dc by blast
      show "((i, m, a) \<in> snd ` set (claims @ ?new)) = (1 \<le> a \<and> a \<le> attempt_count u i m)" for i m a
      proof -
        have "(p, i, m, a) \<in> set ?new \<longleftrightarrow> (i, m, a) \<in> snd ` set ?new" using mem by (metis (no_types, lifting) imageE image_eqI snd_conv surj_pair)
        then have "(i, m, a) \<in> snd ` set ?new \<longleftrightarrow> fired i m \<and> a = attempt_count ?J i m + 1" using mem by blast
        then show ?thesis using old ku pos [of i m] by (auto simp: image_Un)
      qed
      show "\<forall>(p, i, m, a) \<in> set (claims @ ?new). \<forall>inc \<in> set incidents. in_id inc = i \<longrightarrow> pred_option (\<lambda>n. a \<le> n) (fire_limit inc)"
        using st(3) lim by (fastforce simp: claims_ok_def)
    qed
    then have "claims_ok incidents (canon_journal u) (claims @ ?new)" using claims_ok_cong canon_count oc by simp
    moreover have "session_ok campaign p (claims @ ?new) ?new (ses'\<lparr>ses_previous := Some (cj_attempts ?J)\<rparr>)"
    proof -
      have "journal_wf (u\<lparr>cj_attempts := cj_attempts ?J\<rparr>)" "journal_wf u" "cj_campaign u = campaign"
        using oc wf by (auto simp: journal_wf_iff)
      moreover have "(q, i, m, a) \<in> set ?new \<longleftrightarrow>
          q = p \<and> key_count (cj_attempts ?J) (journal_candidate_key i m) < a \<and> a \<le> attempt_count u i m" for q i m a
        using mem ku by (auto simp: attempt_count_def)
      moreover have "key_count (cj_attempts ?J) k \<le> key_count (cj_attempts u) k" for k
        using oc canon_count [OF wf(1)] by simp
      ultimately show ?thesis using s u(3) by (simp add: session_ok_def)
    qed
    ultimately show ?thesis using sw oc wf by auto
  qed
qed

lemma world_step:
  assumes "campaign_step load cas campaign manifest incidents draw w w'" "world_ok campaign incidents w"
    and inc: "distinct (map in_id incidents)"
      "\<forall>inc \<in> set incidents. in_retrigger inc = MaxOccurrences \<longrightarrow> in_max_occurrences inc \<noteq> None"
  shows "world_ok campaign incidents w'"
  using assms(1,2)
proof (induction rule: campaign_step.induct)
  case (opens w ses p)
  then have "session_ok campaign p (cw_claims w) [] ses" using open_ok [of "cw_store w"] unfolding world_ok_def by blast
  then show ?case using opens(2) by (simp add: world_ok_def)
next
  case (commits w p ses ses' st)
  then obtain j where "session_ok campaign p (cw_claims w) (cw_last w p) ses" "ok (cw_store w)"
    "load (cw_store w) campaign = Inr j" "claims_ok incidents j (cw_claims w)"
    unfolding world_ok_def by blast
  from commit_ok [OF this commits(2)] show ?case using commits(3) by (simp add: world_ok_def)
next
  case (stages w p ses iteration staged ses' st)
  then obtain j where "session_ok campaign p (cw_claims w) (cw_last w p) ses" "ok (cw_store w)"
    "load (cw_store w) campaign = Inr j" "claims_ok incidents j (cw_claims w)"
    unfolding world_ok_def by blast
  note r = stage_ok [OF this(1) stages(2) inc this(2-4) stages(3)]
  have "session_ok campaign q (cw_claims w @ xs) mine s" if "session_ok campaign q (cw_claims w) mine s" for q xs mine s
    using that by (auto simp: session_ok_def)
  then show ?case using r stages(4) by (simp add: world_ok_def)
next
  case (refused w p ses iteration e)
  then have s: "session_ok campaign p (cw_claims w) (cw_last w p) ses" unfolding world_ok_def by blast
  have same: "(ses_journal ses)\<lparr>cj_attempts := cj_attempts (ses_journal ses)\<rparr> = ses_journal ses" by simp
  have "session_ok campaign p (cw_claims w) [] (ses\<lparr>ses_previous := Some (cj_attempts (ses_journal ses))\<rparr>)"
    using s refused(2) by (auto simp: session_ok_def attempt_count_def)
  then show ?case using refused(4) by (simp add: world_ok_def)
next
  case (rolls w p ses attempts ses' st)
  then obtain j where s: "session_ok campaign p (cw_claims w) (cw_last w p) ses" "ok (cw_store w)"
    "load (cw_store w) campaign = Inr j" "claims_ok incidents j (cw_claims w)"
    unfolding world_ok_def by blast
  note r = rollback_ok [OF s(1) rolls(2) s(2-4) rolls(3)]
  have mine: "fst c = p" if "c \<in> set (cw_last w p)" for c
    using s(1) rolls(2) that by (cases c) (auto simp: session_ok_def)
  have "session_ok campaign q (filter (\<lambda>c. c \<notin> set (cw_last w p)) (cw_claims w)) mine s"
    if q: "session_ok campaign q (cw_claims w) mine s" "q \<noteq> p" for q mine s
  proof -
    have "set mine \<inter> set (cw_last w p) = {}" if "ses_previous s = Some a" for a
      using q that mine by (force simp: session_ok_def)
    then show ?thesis using q(1) by (auto simp: session_ok_def)
  qed
  then show ?case using r rolls(4) by (simp add: world_ok_def)
qed

lemma world_reaches:
  assumes "(campaign_step load cas campaign manifest incidents draw)\<^sup>*\<^sup>* (init_campaign_world st) w"
    and "ok st" "load st campaign = Inr j" "cj_attempts j = []"
    and inc: "distinct (map in_id incidents)"
      "\<forall>inc \<in> set incidents. in_retrigger inc = MaxOccurrences \<longrightarrow> in_max_occurrences inc \<noteq> None"
  shows "world_ok campaign incidents w"
  using assms(1)
proof (induction rule: rtranclp_induct)
  case base
  show ?case using assms(2-4) by (auto simp: world_ok_def init_campaign_world_def claims_ok_def attempt_count_def key_count_def)
next
  case (step y z) then show ?case using world_step inc by blast
qed

text \<open>The journal counts exactly the claims, and the limits bound them.\<close>

lemma world_ok_counts:
  assumes "world_ok campaign incidents w"
  shows "distinct (map snd (cw_claims w)) \<and>
    (\<exists>j. load (cw_store w) campaign = Inr j \<and>
      (\<forall>i m. attempt_count j i m = int (length (filter (\<lambda>(p, i', m', a). i' = i \<and> m' = m) (cw_claims w))) \<and>
        (\<forall>inc \<in> set incidents. in_id inc = i \<longrightarrow> pred_option (\<lambda>n. 0 \<le> n \<longrightarrow> attempt_count j i m \<le> n) (fire_limit inc))))"
proof -
  obtain j where ok: "ok (cw_store w)" and j: "load (cw_store w) campaign = Inr j" "claims_ok incidents j (cw_claims w)"
    using assms unfolding world_ok_def by blast
  then have d: "distinct (map snd (cw_claims w))" and ex: "(i, m, a) \<in> snd ` set (cw_claims w) \<longleftrightarrow> 1 \<le> a \<and> a \<le> attempt_count j i m"
    and lim: "(p, i, m, a) \<in> set (cw_claims w) \<Longrightarrow> inc \<in> set incidents \<Longrightarrow> in_id inc = i \<Longrightarrow> pred_option (\<lambda>n. a \<le> n) (fire_limit inc)"
    for i m a p inc by (auto simp: claims_ok_def)
  have pos: "0 \<le> attempt_count j i m" for i m
    using load_wf [OF ok j(1)] by (auto simp: attempt_count_def key_count_def journal_wf_iff split: option.splits dest!: map_of_SomeD)
  have "attempt_count j i m = int (length (filter (\<lambda>(p, i', m', a). i' = i \<and> m' = m) (cw_claims w)))" for i m
  proof -
    let ?f = "filter (\<lambda>(p, i', m', a). i' = i \<and> m' = m) (cw_claims w)" and ?g = "\<lambda>c :: claim. snd (snd (snd c))"
    have "inj_on ?g (set ?f)" using d by (force simp: distinct_map inj_on_def)
    moreover have "?g ` set ?f = {1 .. attempt_count j i m}"
    proof (intro equalityI subsetI)
      fix a assume "a \<in> ?g ` set ?f"
      then obtain q where "(q, i, m, a) \<in> set (cw_claims w)" by auto
      then show "a \<in> {1 .. attempt_count j i m}" using ex [of i m a] by force
    next
      fix a assume "a \<in> {1 .. attempt_count j i m}"
      then obtain q where "(q, i, m, a) \<in> set (cw_claims w)" using ex [of i m a] by auto
      then show "a \<in> ?g ` set ?f" by force
    qed
    moreover have "length ?f = card (set ?f)" using d by (intro distinct_card [symmetric] distinct_filter) (simp add: distinct_map)
    ultimately have "length ?f = card {1 .. attempt_count j i m}" by (simp add: card_image [symmetric])
    then show ?thesis using pos [of i m] by simp
  qed
  moreover have "pred_option (\<lambda>n. 0 \<le> n \<longrightarrow> attempt_count j i m \<le> n) (fire_limit inc)" if "inc \<in> set incidents" "in_id inc = i" for i m inc
  proof (cases "1 \<le> attempt_count j i m")
    case True
    then obtain q where "(q, i, m, attempt_count j i m) \<in> set (cw_claims w)" using ex [of i m "attempt_count j i m"] by auto
    from lim [OF this that] show ?thesis by (cases "fire_limit inc") auto
  next
    case False
    then show ?thesis using pos [of i m] by (cases "fire_limit inc") auto
  qed
  ultimately show ?thesis using d j(1) by blast
qed

end

section \<open>The two stores keep the contract\<close>

definition json_store_ok :: "json_store \<Rightarrow> bool" where
  "json_store_ok st \<longleftrightarrow> (case st of None \<Rightarrow> True | Some value \<Rightarrow> \<exists>j. journal_wf j \<and> value = journal_to_dict j)"

definition memory_store_ok :: "memory_store \<Rightarrow> bool" where
  "memory_store_ok st \<longleftrightarrow> (\<forall>c j. st c = Some j \<longrightarrow> journal_wf j \<and> cj_campaign j = c)"

lemma json_load_stored:
  "journal_wf j \<Longrightarrow> json_load (Some (journal_to_dict j)) c =
     (if cj_campaign j = c then Inr (canon_journal j) else Inl (CampaignValue ''campaign state belongs to another campaign''))"
  using copy_journal [of j] by (simp add: json_load_def copy_journal_def) (simp add: journal_to_dict_def)

interpretation json_campaign: campaign_store json_load json_cas json_store_ok
proof
  fix st c j assume "json_store_ok st" "json_load st c = Inr j"
  then show "journal_wf j \<and> cj_campaign j = c"
    by (cases st) (auto simp: json_store_ok_def json_load_stored json_load_def [of None] new_journal_Inr split: if_splits)
next
  fix st st' expected updated
  assume a: "json_store_ok st" "journal_wf expected" "journal_wf updated" "json_cas expected updated st = Inr (True, st')"
  then obtain j where "json_load st (cj_campaign expected) = Inr j" "journal_to_dict j = journal_to_dict expected"
    "st' = Some (journal_to_dict updated)" "cj_campaign expected = cj_campaign updated"
    by (auto simp: json_cas_def rbind_Inr_iff one_campaign_def json_save_def split: if_splits)
  then show "json_store_ok st' \<and> cj_campaign expected = cj_campaign updated \<and>
      (\<exists>j. json_load st (cj_campaign expected) = Inr j \<and> canon_journal j = canon_journal expected) \<and>
      json_load st' (cj_campaign expected) = Inr (canon_journal updated)"
    using a(3) by (auto simp: json_store_ok_def to_dict_eq json_load_stored)
next
  fix expected updated st st'
  show "json_cas expected updated st = Inr (False, st') \<Longrightarrow> st' = st"
    by (auto simp: json_cas_def rbind_Inr_iff split: if_splits)
qed

interpretation memory_campaign: campaign_store memory_load memory_cas memory_store_ok
proof
  fix st c j assume "memory_store_ok st" "memory_load st c = Inr j"
  then show "journal_wf j \<and> cj_campaign j = c"
    by (cases "st c") (auto simp: memory_store_ok_def memory_load_def copy_journal new_journal_Inr)
next
  fix st st' expected updated
  assume a: "memory_store_ok st" "journal_wf expected" "journal_wf updated" "memory_cas expected updated st = Inr (True, st')"
  then obtain j where j: "(case st (cj_campaign expected) of None \<Rightarrow> new_journal (cj_campaign expected) | Some j \<Rightarrow> Inr j) = Inr j"
    "journal_to_dict j = journal_to_dict expected"
    "st' = st(cj_campaign updated \<mapsto> canon_journal updated)" "cj_campaign expected = cj_campaign updated"
    using copy_journal [OF a(3)] by (auto simp: memory_cas_def rbind_Inr_iff one_campaign_def memory_save_def split: if_splits)
  have "memory_load st (cj_campaign expected) = Inr (if st (cj_campaign expected) = None then j else canon_journal j)"
    using j(1) a(1) by (auto simp: memory_load_def copy_journal memory_store_ok_def split: option.splits)
  moreover have "memory_store_ok st'" using a j by (auto simp: memory_store_ok_def)
  moreover have "memory_load st' (cj_campaign expected) = Inr (canon_journal updated)"
    using a(3) j(3,4) copy_journal [of "canon_journal updated"] by (simp add: memory_load_def)
  ultimately show "memory_store_ok st' \<and> cj_campaign expected = cj_campaign updated \<and>
      (\<exists>j. memory_load st (cj_campaign expected) = Inr j \<and> canon_journal j = canon_journal expected) \<and>
      memory_load st' (cj_campaign expected) = Inr (canon_journal updated)"
    using j(2,4) by (auto simp: to_dict_eq)
next
  fix expected updated st st'
  show "memory_cas expected updated st = Inr (False, st') \<Longrightarrow> st' = st"
    by (auto simp: memory_cas_def rbind_Inr_iff split: if_splits)
qed

section \<open>Every occurrence is claimed once\<close>

lemma incident_post_init_limit:
  assumes "incident_post_init inc = Inr x" "in_retrigger inc = MaxOccurrences"
  shows "\<exists>n. in_max_occurrences inc = Some n \<and> 0 < n"
proof (rule ccontr)
  assume "\<not> ?thesis"
  then have "in_retrigger inc = MaxOccurrences \<and> (case in_max_occurrences inc of None \<Rightarrow> True | Some n \<Rightarrow> n \<le> 0)"
    using assms(2) by (cases "in_max_occurrences inc") auto
  then show False using assms(1) unfolding incident_post_init_def by (simp only: if_True simp_thms) (simp split: if_splits)
qed

text \<open>C18: However sessions over one campaign file interleave - opened, restarted, staging, refused, rolled back - no two
  claims name the same attempt, the file counts exactly the claims that stand, and the retrigger limits bound them.\<close>

theorem campaign_claims_exact:
  assumes "campaign \<noteq> []" "distinct (map in_id incidents)" "list_all (\<lambda>inc. incident_post_init inc = Inr inc) incidents"
    and "(campaign_step json_load json_cas campaign manifest incidents draw)\<^sup>*\<^sup>* (init_campaign_world None) w"
  shows "distinct (map snd (cw_claims w)) \<and>
    (\<exists>j. json_load (cw_store w) campaign = Inr j \<and>
      list_all (\<lambda>inc. \<forall>m.
        attempt_count j (in_id inc) m = int (length (filter (\<lambda>(p, i, m', a). i = in_id inc \<and> m' = m) (cw_claims w))) \<and>
        (case in_retrigger inc of
           Once \<Rightarrow> attempt_count j (in_id inc) m \<le> 1
         | MaxOccurrences \<Rightarrow> pred_option (\<lambda>n. attempt_count j (in_id inc) m \<le> n) (in_max_occurrences inc)
         | EveryAttempt \<Rightarrow> True)) incidents)"
proof -
  have inc: "in_retrigger inc = MaxOccurrences \<Longrightarrow> \<exists>n. in_max_occurrences inc = Some n \<and> 0 < n" if "inc \<in> set incidents" for inc
    using assms(3) that incident_post_init_limit by (auto simp: list_all_iff)
  obtain j where j: "json_load None campaign = Inr j" "cj_attempts j = []"
    using assms(1) by (simp add: json_load_def new_journal_def journal_post_init_def)
  have "json_campaign.world_ok campaign incidents w"
    using json_campaign.world_reaches [OF assms(4) _ j assms(2)] inc by (fastforce simp: json_store_ok_def)
  from json_campaign.world_ok_counts [OF this] obtain j where d: "distinct (map snd (cw_claims w))" and j: "json_load (cw_store w) campaign = Inr j"
    and c: "attempt_count j i m = int (length (filter (\<lambda>(p, i', m', a). i' = i \<and> m' = m) (cw_claims w)))"
    and l: "inc \<in> set incidents \<Longrightarrow> pred_option (\<lambda>n. 0 \<le> n \<longrightarrow> attempt_count j (in_id inc) m \<le> n) (fire_limit inc)" for i m inc
    by blast
  have "case in_retrigger inc of Once \<Rightarrow> attempt_count j (in_id inc) m \<le> 1
         | MaxOccurrences \<Rightarrow> pred_option (\<lambda>n. attempt_count j (in_id inc) m \<le> n) (in_max_occurrences inc) | EveryAttempt \<Rightarrow> True"
    if "inc \<in> set incidents" for inc m
    using l [OF that, of m] inc [OF that] by (auto simp: fire_limit_def split: retrigger_policy.splits)
  then show ?thesis using d j c by (auto simp: list_all_iff)
qed

theorem campaign_claims_exact_witness:
  "\<exists>w. (0, ''a'', 2, 1) \<in> set (cw_claims (w :: json_store campaign_world)) \<and> distinct (map snd (cw_claims w))"
proof -
  let ?incs = "[example_incident ''a'' [2] None]" and ?d = "\<lambda>_ _. 0 :: real"
  let ?step = "campaign_step json_load json_cas ''c'' ''m'' ?incs ?d"
  define b where "b = \<lparr>cj_campaign = ''c'', cj_manifest = Some ''m'', cj_attempts = []\<rparr>"
  define u where "u = b\<lparr>cj_attempts := [(''a@2'', 1)]\<rparr>"
  define s1 where "s1 = \<lparr>ses_base = b\<lparr>cj_manifest := None\<rparr>, ses_journal = b, ses_committed = False, ses_previous = None\<rparr>"
  define s2 where "s2 = \<lparr>ses_base = b, ses_journal = b, ses_committed = True, ses_previous = None\<rparr>"
  define sg where "sg = [\<lparr>sg_incident = example_incident ''a'' [2] None, sg_attempt = 1, sg_occurrence_id = ''a@2'', sg_selected = True\<rparr>]"
  note defs = b_def u_def s1_def s2_def sg_def
  have e1: "open_session (json_load None) ''c'' ''m'' = Inr s1" unfolding defs by code_simp
  have e2: "commit_binding json_load json_cas ''c'' s1 None = Inr (s2, Some (journal_to_dict b))" unfolding defs by code_simp
  have e3: "stage_iteration json_cas ?d 2 (candidate_incidents (map fst (scheduled_at ?incs False 2)) (ses_journal s2) 2) s2
      (Some (journal_to_dict b)) = Inr (sg, s2\<lparr>ses_journal := u\<rparr>, Some (journal_to_dict u))" unfolding defs by code_simp
  obtain w1 where 1: "?step (init_campaign_world None) w1" "cw_store w1 = None" "cw_sessions w1 0 = Some s1" "cw_claims w1 = []"
    by (rule that, rule campaign_step.opens [where p = 0 and ses = s1]) (simp_all add: e1 init_campaign_world_def)
  obtain w2 where 2: "?step w1 w2" "cw_store w2 = Some (journal_to_dict b)" "cw_sessions w2 0 = Some s2" "cw_claims w2 = []"
    by (rule that, rule campaign_step.commits [OF 1(3), where ses' = s2 and st = "Some (journal_to_dict b)"]) (simp_all add: e2 1)
  obtain w3 where 3: "?step w2 w3" "cw_claims w3 = staged_claims 0 2 sg"
    by (rule that, rule campaign_step.stages [OF 2(3), where iteration = 2 and staged = sg])
      (use e3 in \<open>simp_all add: 2 s2_def [THEN arg_cong [where f = ses_committed]]\<close>)
  have "?step\<^sup>*\<^sup>* (init_campaign_world None) w3"
    using 1(1) 2(1) 3(1) by (meson converse_rtranclp_into_rtranclp r_into_rtranclp)
  moreover have "incident_post_init (example_incident ''a'' [2] None) = Inr (example_incident ''a'' [2] None)" by code_simp
  ultimately have "distinct (map snd (cw_claims w3))" using campaign_claims_exact [of "''c''" ?incs "''m''" ?d w3] by simp
  moreover have "(0, ''a'', 2, 1) \<in> set (cw_claims w3)" unfolding 3(2) by (simp add: staged_claims_def example_incident_def sg_def)
  ultimately show ?thesis by blast
qed

end
